(* ===== verification/Platform_Prelude.thy ===== *)
theory Platform_Prelude
  imports Main "HOL-Library.AList"
begin

section \<open>Shared notions: rows, dictionaries, JSON values and strings\<close>

text \<open>
  What every component of the model shares.  A database table is the list of its rows in
  insertion order, so that \<open>filter\<close> is SELECT, the first element of a filtered list is
  \<open>.first()\<close>, and a WHERE-guarded UPDATE is a guarded \<open>map\<close>.  A Python \<open>dict\<close> is an
  association list without duplicate keys, updated in place the way Python keeps insertion
  order.  JSON payloads are a datatype; numbers in them are integers.  Instants are integers
  (seconds), so a \<open>timedelta\<close> is a difference.
\<close>

named_theorems table_simps \<open>rewrite rules for selections and guarded updates\<close>
named_theorems lease_inv \<open>preservation of the lease-table invariant\<close>

type_synonym time = int

subsection \<open>Tables as row lists\<close>

fun first_row :: "'r list \<Rightarrow> 'r option" where
  "first_row [] = None"
| "first_row (x # xs) = Some x"

definition upd_where :: "('r \<Rightarrow> bool) \<Rightarrow> ('r \<Rightarrow> 'r) \<Rightarrow> 'r list \<Rightarrow> 'r list" where
  "upd_where P f t = map (\<lambda>r. if P r then f r else r) t"

lemma first_row_Some: "first_row xs = Some x \<Longrightarrow> x \<in> set xs"
  by (cases xs) auto

lemma first_row_None [simp]: "first_row xs = None \<longleftrightarrow> xs = []"
  by (cases xs) auto

lemma first_row_filterD: "first_row (filter P xs) = Some x \<Longrightarrow> x \<in> set xs \<and> P x"
  by (auto dest: first_row_Some)

lemma first_row_filter_None: "first_row (filter P xs) = None \<longleftrightarrow> (\<forall>x\<in>set xs. \<not> P x)"
  by (auto simp: filter_empty_conv)

lemma upd_where_Nil [simp, table_simps]: "upd_where P f [] = []"
  by (simp add: upd_where_def)

lemma upd_where_Cons [table_simps]:
  "upd_where P f (x # xs) = (if P x then f x else x) # upd_where P f xs"
  by (simp add: upd_where_def)

lemma length_upd_where [simp, table_simps]: "length (upd_where P f t) = length t"
  by (simp add: upd_where_def)

lemma set_upd_where: "set (upd_where P f t) = {r \<in> set t. \<not> P r} \<union> f ` {r \<in> set t. P r}"
  by (auto simp: upd_where_def)

lemma in_upd_whereE:
  assumes "r \<in> set (upd_where P f t)"
  obtains "r \<in> set t" "\<not> P r" | r0 where "r0 \<in> set t" "P r0" "r = f r0"
  using assms by (auto simp: set_upd_where)

lemma upd_where_id: "(\<And>r. r \<in> set t \<Longrightarrow> P r \<Longrightarrow> f r = r) \<Longrightarrow> upd_where P f t = t"
  by (auto simp: upd_where_def intro: map_idI)

lemma upd_where_none: "(\<And>r. r \<in> set t \<Longrightarrow> \<not> P r) \<Longrightarrow> upd_where P f t = t"
  by (rule upd_where_id) auto

lemma upd_where_cong: "(\<And>r. r \<in> set t \<Longrightarrow> P r = Q r) \<Longrightarrow> upd_where P f t = upd_where Q f t"
  by (simp add: upd_where_def)

lemma upd_where_rows: "list_all2 (\<lambda>r r'. if P r then r' = f r else r' = r) t (upd_where P f t)"
  by (induction t) (simp_all add: upd_where_Cons)

lemma upd_where_all2:
  assumes "\<And>r. P r \<Longrightarrow> R r (f r)" "\<And>r. R r r"
  shows "list_all2 R t (upd_where P f t)"
  by (rule list_all2_mono [OF upd_where_rows]) (use assms in \<open>auto split: if_splits\<close>)

lemma map_upd_where: "(\<And>r. P r \<Longrightarrow> k (f r) = k r) \<Longrightarrow> map k (upd_where P f t) = map k t"
  by (auto simp: upd_where_def)

lemma filter_upd_where:
  assumes "\<And>r. P r \<Longrightarrow> Q (f r) = Q r"
  shows "filter Q (upd_where P f t) = upd_where P f (filter Q t)"
  using assms by (induction t) (auto simp: upd_where_Cons)

lemma upd_where_filter_none:
  assumes "\<And>r. Q r \<Longrightarrow> \<not> P r"
  shows "upd_where P f (filter Q t) = filter Q t"
  using assms by (intro upd_where_none) auto

lemma distinct_map_single:
  assumes "distinct (map k t)" "x \<in> set t" "y \<in> set t" "k x = k y"
  shows "x = y"
  using assms by (simp add: distinct_map inj_on_def)

lemma filter_key_single:
  assumes "distinct (map k t)" "x \<in> set t"
  shows "filter (\<lambda>r. k r = k x) t = [x]"
  using assms by (induction t) (auto simp: filter_empty_conv image_iff)

lemma first_row_key:
  assumes "distinct (map k t)" "x \<in> set t"
  shows "first_row (filter (\<lambda>r. k r = k x) t) = Some x"
  using filter_key_single [OF assms] by simp

lemma first_row_map_key:
  assumes "distinct (map k t)" "x \<in> set t" "k x = i"
  shows "first_row (filter (\<lambda>r. k r = i) t) = Some x"
  using first_row_key [OF assms(1,2)] assms(3) by simp

lemma length_filter_mono:
  "(\<And>x. x \<in> set t \<Longrightarrow> P x \<Longrightarrow> Q x) \<Longrightarrow> length (filter P t) \<le> length (filter Q t)"
  by (induction t) auto

lemma at_most_one_filter:
  assumes "length (filter P t) \<le> 1" "x \<in> set t" "y \<in> set t" "P x" "P y"
  shows "x = y"
proof -
  from assms(2-5) have "x \<in> set (filter P t)" "y \<in> set (filter P t)" by auto
  with assms(1) show ?thesis by (cases "filter P t") auto
qed

lemma length_filter_all2:
  assumes "list_all2 (\<lambda>x y. Q y \<longrightarrow> P x) xs ys"
  shows "length (filter Q ys) \<le> length (filter P xs)"
  using assms by (induction rule: list_all2_induct) auto

lemma length_filter_less_all2:
  assumes "list_all2 (\<lambda>x y. Q y \<longrightarrow> P x) xs ys" "(x, y) \<in> set (zip xs ys)" "P x" "\<not> Q y"
  shows "length (filter Q ys) < length (filter P xs)"
  using assms
proof (induction rule: list_all2_induct)
  case (Cons a as b bs)
  have "length (filter Q bs) \<le> length (filter P as)" by (rule length_filter_all2 [OF Cons.hyps(2)])
  with Cons show ?case by auto
qed simp

lemma first_row_all2:
  assumes "list_all2 R xs ys" "\<And>x y. R x y \<Longrightarrow> P y = P x" "first_row (filter P xs) = Some x"
  shows "\<exists>y. first_row (filter P ys) = Some y \<and> R x y"
  using assms
proof (induction rule: list_all2_induct)
  case (Cons a as b bs)
  then show ?case by (cases "P a") auto
qed simp

lemma first_row_upd_other:
  assumes "\<And>r. P r \<Longrightarrow> \<not> Q r" "\<And>r. P r \<Longrightarrow> \<not> Q (f r)"
  shows "first_row (filter Q (upd_where P f t)) = first_row (filter Q t)"
  using assms by (induction t) (auto simp: upd_where_Cons)

subsection \<open>Folding a handler over a batch\<close>

text \<open>
  Several services run one guarded step per entry of a request inside one transaction and
  collect one reply per entry.
\<close>

fun run_batch :: "('a \<Rightarrow> 's \<Rightarrow> 'r \<times> 's) \<Rightarrow> 'a list \<Rightarrow> 's \<Rightarrow> 'r list \<times> 's" where
  "run_batch f [] s = ([], s)"
| "run_batch f (x # xs) s =
     (let (r, s1) = f x s; (rs, s2) = run_batch f xs s1 in (r # rs, s2))"

lemma length_run_batch [simp]: "length (fst (run_batch f xs s)) = length xs"
  by (induction xs arbitrary: s) (auto simp: split_beta Let_def)

locale batch_invariant =
  fixes step :: "'a \<Rightarrow> 's \<Rightarrow> 'r \<times> 's"
    and inv :: "'s \<Rightarrow> bool"
    and rel :: "'s \<Rightarrow> 's \<Rightarrow> bool"
  assumes step_inv: "inv s \<Longrightarrow> inv (snd (step x s))"
    and step_rel: "inv s \<Longrightarrow> rel s (snd (step x s))"
    and rel_refl: "rel s s"
    and rel_trans: "rel s t \<Longrightarrow> rel t u \<Longrightarrow> rel s u"
begin

lemma batch_inv: "inv s \<Longrightarrow> inv (snd (run_batch step xs s))"
proof (induction xs arbitrary: s)
  case Nil
  then show ?case by simp
next
  case (Cons x xs)
  from Cons.prems have "inv (snd (step x s))" by (rule step_inv)
  then have "inv (snd (run_batch step xs (snd (step x s))))" by (rule Cons.IH)
  then show ?case by (simp add: split_beta Let_def)
qed

lemma batch_rel: "inv s \<Longrightarrow> rel s (snd (run_batch step xs s))"
proof (induction xs arbitrary: s)
  case Nil
  then show ?case by (simp add: rel_refl)
next
  case (Cons x xs)
  from Cons.prems have i: "inv (snd (step x s))" and r: "rel s (snd (step x s))"
    by (auto intro: step_inv step_rel)
  from Cons.IH [OF i] r have "rel s (snd (run_batch step xs (snd (step x s))))"
    by (rule rel_trans [rotated])
  then show ?case by (simp add: split_beta Let_def)
qed

end

end
