(* ===== verification/Disarm_Contract.thy ===== *)
theory Disarm_Contract
  imports Py_Values
begin

section \<open>The device-return contract (agent/contracts/device\_return.py)\<close>

text \<open>
  The machine values, the registered test families with their footprint and disarm scripts, the
  version-aware roles of teardown steps, the mapping of a step outcome to a disarm result, the
  validation of a plan's teardown and the probe policy that alone may upgrade a result to
  \<open>confirmed\<close>.  Everything here is a pure function shared by agent and control plane.  Steps,
  evidence and results are JSON objects, as on the wire.
\<close>

subsection \<open>Machine values\<close>

abbreviation "CONFIRMED \<equiv> ''confirmed''"
abbreviation "EXECUTED_UNVERIFIED \<equiv> ''executed_unverified''"
abbreviation "FAILED_R \<equiv> ''failed''"
abbreviation "READBACK_FAILED \<equiv> ''readback_failed''"
abbreviation "NOT_EXECUTED \<equiv> ''not_executed''"
abbreviation "INCOMPLETE \<equiv> ''incomplete''"

definition DISARM_RESULTS :: "string list" where
  "DISARM_RESULTS =
     [CONFIRMED, EXECUTED_UNVERIFIED, FAILED_R, READBACK_FAILED, NOT_EXECUTED, INCOMPLETE]"

abbreviation "RETURNED \<equiv> ''returned''"
abbreviation "DEBT \<equiv> ''debt''"
abbreviation "UNVERIFIED \<equiv> ''unverified''"

definition PLATFORM_INTERRUPTED :: "int list" where
  "PLATFORM_INTERRUPTED = [124, 125, 143, -15, 137, -9]"

definition interrupted_code :: "json \<Rightarrow> bool" where
  "interrupted_code c = (case c of JInt i \<Rightarrow> i \<in> set PLATFORM_INTERRUPTED | _ \<Rightarrow> False)"

subsection \<open>Families and onboarding registry\<close>

record family_spec =
  fs_footprint :: "string list"
  fs_disarm :: "string list"
  fs_disarm_onboarded :: "string list"

definition FAMILY_STEPS :: "(string \<times> family_spec) list" where
  "FAMILY_STEPS =
    [(''power-cycle'', \<lparr>fs_footprint = [''powercycle_setup''],
        fs_disarm = [''powercycle_finish''], fs_disarm_onboarded = [''powercycle_disarm'']\<rparr>),
     (''sleep'', \<lparr>fs_footprint = [''sleep_setup''],
        fs_disarm = [''sleep_finish''], fs_disarm_onboarded = [''sleep_finish'']\<rparr>),
     (''mtbf'', \<lparr>fs_footprint = [''mtbf_setup''],
        fs_disarm = [''mtbf_finish''], fs_disarm_onboarded = [''mtbf_finish'']\<rparr>),
     (''gpu'', \<lparr>fs_footprint = [''gpu_setup''],
        fs_disarm = [''gpu_finish''], fs_disarm_onboarded = [''gpu_disarm'']\<rparr>),
     (''monkey'', \<lparr>fs_footprint = [''monkey_setup'', ''monkey_launch'', ''monkey_test''],
        fs_disarm = [''monkey_teardown''], fs_disarm_onboarded = [''monkey_teardown'']\<rparr>)]"

definition is_family :: "string \<Rightarrow> bool" where
  "is_family f = (f \<in> set (map fst FAMILY_STEPS))"

definition param_int :: "jobj \<Rightarrow> string \<Rightarrow> int \<Rightarrow> int option" where
  \<comment> \<open>\<open>int(p.get(k, d) or d)\<close>\<close>
  "param_int p k d = py_int (jor (jget p k) (JInt d))"

definition pc_disarm_min_wall :: "jobj \<Rightarrow> int option" where
  "pc_disarm_min_wall p =
     map_option (\<lambda>w. w + 60) (param_int p ''wait_device_online_seconds'' 600)"

definition pc_finish_min_wall :: "jobj \<Rightarrow> int option" where
  "pc_finish_min_wall p =
     (case param_int p ''collect_attempts'' 3 of
        None \<Rightarrow> None
      | Some a \<Rightarrow>
          (case param_int p ''collect_retry_wait_seconds'' 120 of
             None \<Rightarrow> None
           | Some r \<Rightarrow> Some (max 1 a * r + 60)))"

definition gpu_disarm_min_wall :: "jobj \<Rightarrow> int option" where
  "gpu_disarm_min_wall p =
     map_option (\<lambda>w. max 0 w + 600) (param_int p ''wait_device_online_seconds'' 600)"

definition PROBE_TOOL_IDENTITY_FIELDS :: "(string \<times> string list) list" where
  "PROBE_TOOL_IDENTITY_FIELDS =
     [(''power-cycle'', [''autotesttool_apk_sha256'']), (''gpu'', [''apk_sha256''])]"

definition PROBE_READBACK_VALUES :: "string list" where
  "PROBE_READBACK_VALUES =
     [''clear'', ''footprint'', ''absent'', ''not_installed'', ''readback_failed'']"

record onboarded_spec =
  ob_footprints :: "string list"
  ob_disarm_script :: string
  ob_disarm_min_version :: string
  ob_finish_script :: string
  ob_finish_min_version :: string
  ob_probe_modes :: "string list"
  ob_verified_device_classes :: "jobj list"
  ob_disarm_budget_seconds :: int
  ob_min_wall_clock_seconds :: "(string \<times> (jobj \<Rightarrow> int option)) list"

type_synonym registry = "(string \<times> onboarded_spec) list"

definition pc_classes :: "jobj list" where
  "pc_classes =
     concat (map (\<lambda>(model, apk). map (\<lambda>permission.
       [(''platform'', JStr ''MTK''), (''model'', JStr model),
        (''permission_model'', JStr permission),
        (''autotesttool_apk_sha256'', JStr apk),
        (''script_name'', JStr ''powercycle_disarm''), (''script_version'', JStr ''1.0.8''),
        (''package_sha256'',
          JStr ''98cc16f82fa6c56fe24f37151958f4ad3efd2f5983b1bba36f9340d95cd4a557''),
        (''report_ref'', JList
          [JStr ''https://github.com/DUElost/stability-test-platform/pull/3747#issuecomment-6312583571'',
           JStr ''docs/notes/feature/2026-10-21-b6-u5-realdevice-108.md'',
           JStr ''https://github.com/DUElost/stability-test-platform/issues/3730#issuecomment-6320738260''])])
       [''root'', ''non-root''])
     [(''MLD_LX2'', ''f275e1f233e3ac7485469406b3e35a2cf58be0fec0d7e9d60184f180db8a2929''),
      (''MLD_LX3'', ''582964aff036cb8785248cd3a149cbf73f13f88bddc51a80c8605b458399e977'')])"

definition gpu_classes :: "jobj list" where
  "gpu_classes =
     concat (map (\<lambda>model. map (\<lambda>permission.
       [(''platform'', JStr ''MTK''), (''model'', JStr model),
        (''permission_model'', JStr permission),
        (''apk_sha256'',
          JStr ''47a059398943e8dc0943269c99a30264f70c7175ae943a69c48ec733ea84e8c5''),
        (''script_name'', JStr ''gpu_disarm''), (''script_version'', JStr ''1.0.0''),
        (''package_sha256'',
          JStr ''c464779d695402473bf5afb173bc743d68eac307a680c46bfec2ebbf4299ead7''),
        (''report_ref'', JList
          [JStr ''https://github.com/DUElost/stability-test-platform/issues/3811#issuecomment-6441554440'',
           JStr ''docs/notes/bug-fix/2026-10-27-b7-u2-gpu-disarm-3811-evidence.json'',
           JStr ''docs/notes/bug-fix/2026-10-27-b7-u2-gpu-disarm-3811.md'',
           JStr ''https://github.com/DUElost/stability-test-platform/issues/3809''])])
       [''root'', ''non-root''])
     [''MLD_LX2'', ''MLD_LX3'', ''MOD_LX3''])"

definition ONBOARDED :: registry where
  "ONBOARDED =
    [(''power-cycle'',
       \<lparr>ob_footprints =
          [''prefs:/data/data/com.tinno.autotesttool/shared_prefs/powercycle_runner.xml (running, auto_resume)'',
           ''service:com.tinno.autotesttool/com.mediatek.schpwronoff.powercycle.PowerCycleService''],
        ob_disarm_script = ''powercycle_disarm'', ob_disarm_min_version = ''1.0.8'',
        ob_finish_script = ''powercycle_finish'', ob_finish_min_version = ''1.1.0'',
        ob_probe_modes = [''probe'', ''disarm''],
        ob_verified_device_classes = pc_classes,
        ob_disarm_budget_seconds = 660,
        ob_min_wall_clock_seconds =
          [(''powercycle_disarm'', pc_disarm_min_wall), (''powercycle_finish'', pc_finish_min_wall)]\<rparr>),
     (''gpu'',
       \<lparr>ob_footprints =
          [''process:gpu_stress_loop.sh, TestStressGpu / AndroidJUnitRunner'',
           ''file:/sdcard/Auto/gpu_stress_loop.sh'',
           ''setting:global airplane_mode_on=0'', ''setting:wifi enabled''],
        ob_disarm_script = ''gpu_disarm'', ob_disarm_min_version = ''1.0.0'',
        ob_finish_script = ''gpu_finish'', ob_finish_min_version = ''1.1.0'',
        ob_probe_modes = [''probe'', ''disarm''],
        ob_verified_device_classes = gpu_classes,
        ob_disarm_budget_seconds = 1200,
        ob_min_wall_clock_seconds = [(''gpu_disarm'', gpu_disarm_min_wall)]\<rparr>)]"

definition family_onboarded :: "string \<Rightarrow> bool" where
  "family_onboarded f = (f \<in> set (map fst ONBOARDED))"

subsection \<open>Scripts, families and versions\<close>

definition script_name_from_step :: "jobj \<Rightarrow> string" where
  "script_name_from_step step =
     (case jor (jget step ''action'') (JStr []) of
        JStr a \<Rightarrow> if starts_with ''script:'' a then strip (drop 7 a) else []
      | _ \<Rightarrow> [])"

definition family_for_footprint_script :: "string \<Rightarrow> string option" where
  "family_for_footprint_script s =
     (if s = [] then None
      else map_option fst (List.find (\<lambda>(f, spec). s \<in> set (fs_footprint spec)) FAMILY_STEPS))"

datatype footprint_store = FSet "string list" | FMap "(string \<times> bool) list"

fun note_footprint_started :: "footprint_store \<Rightarrow> jobj \<Rightarrow> string option \<times> footprint_store" where
  "note_footprint_started (FSet fs) step =
     (case family_for_footprint_script (script_name_from_step step) of
        None \<Rightarrow> (None, FSet fs)
      | Some f \<Rightarrow> if f \<in> set fs then (None, FSet fs) else (Some f, FSet (fs @ [f])))"
| "note_footprint_started (FMap m) step =
     (case family_for_footprint_script (script_name_from_step step) of
        None \<Rightarrow> (None, FMap m)
      | Some f \<Rightarrow> if map_of m f = Some True then (None, FMap m)
                  else (Some f, FMap (AList.update f True m)))"

definition disarm_script_names_for_family :: "registry \<Rightarrow> string \<Rightarrow> string list" where
  "disarm_script_names_for_family reg family =
     (case map_of FAMILY_STEPS family of
        None \<Rightarrow> []
      | Some spec \<Rightarrow> if family \<in> set (map fst reg) then fs_disarm_onboarded spec else fs_disarm spec)"

text \<open>\<open>version_key\<close>: the numeric segments, empty where the text does not parse.\<close>

definition version_key :: "string \<Rightarrow> nat list" where
  "version_key v =
     (if v = [] then []
      else let segs = split_char (CHR ''.'') (strip v) in
        if list_all (\<lambda>s. s \<noteq> [] \<and> list_all is_digit s) segs then map undec segs else [])"

definition pad_to :: "nat \<Rightarrow> nat list \<Rightarrow> nat list" where
  "pad_to n xs = xs @ replicate (n - length xs) 0"

definition version_at_least :: "string \<Rightarrow> string \<Rightarrow> bool" where
  "version_at_least v m =
     (let vk = version_key v; mk = version_key m in
      if vk = [] \<or> mk = [] then False
      else let n = max (length vk) (length mk) in pad_to n mk \<le> pad_to n vk)"

definition step_version_of :: "jobj \<Rightarrow> string" where
  "step_version_of step =
     (case jget step ''script_version'' of
        JStr s \<Rightarrow> if strip s \<noteq> [] then strip s
          else (case jget step ''version'' of JStr w \<Rightarrow> strip w | _ \<Rightarrow> [])
      | _ \<Rightarrow> (case jget step ''version'' of JStr w \<Rightarrow> strip w | _ \<Rightarrow> []))"

subsection \<open>Roles of teardown steps\<close>

datatype step_role = RoleDisarm | RoleCollect | RoleUnknownLegacyDisarm

fun role_text :: "step_role option \<Rightarrow> string" where
  "role_text (Some RoleDisarm) = ''disarm''"
| "role_text (Some RoleCollect) = ''collect''"
| "role_text (Some RoleUnknownLegacyDisarm) = ''unknown_legacy_disarm''"
| "role_text None = []"

definition FINISH_COLLECT_ONLY_VERSIONS :: "(string \<times> string list) list" where
  "FINISH_COLLECT_ONLY_VERSIONS =
     [(''powercycle_finish'', [''1.1.0'']), (''gpu_finish'', [''1.1.0''])]"

definition finish_major_minor :: "string \<Rightarrow> (nat \<times> nat) option" where
  "finish_major_minor v =
     (case version_key v of a # b # _ \<Rightarrow> Some (a, b) | _ \<Rightarrow> None)"

fun family_role :: "string \<Rightarrow> string \<Rightarrow> (string \<times> family_spec) list \<Rightarrow> step_role option" where
  "family_role s ver [] = None"
| "family_role s ver ((f, spec) # rest) =
     (if s \<in> set (fs_disarm_onboarded spec) \<and> s \<notin> set (fs_disarm spec)
      then Some (if version_key ver \<noteq> [] then RoleDisarm else RoleUnknownLegacyDisarm)
      else if s \<in> set (fs_disarm spec) \<or> s \<in> set (fs_disarm_onboarded spec) then Some RoleDisarm
      else family_role s ver rest)"

definition step_teardown_role :: "string \<Rightarrow> string \<Rightarrow> step_role option" where
  "step_teardown_role s version =
     (if s = [] then None
      else let ver = strip version in
        (case map_of FINISH_COLLECT_ONLY_VERSIONS s of
           Some collect \<Rightarrow>
             (if ver = [] \<or> version_key ver = [] then Some RoleUnknownLegacyDisarm
              else if ver \<in> set collect then Some RoleCollect
              else if finish_major_minor ver = Some (1, 0) then Some RoleDisarm
              else Some RoleUnknownLegacyDisarm)
         | None \<Rightarrow> family_role s ver FAMILY_STEPS))"

definition is_disarm_role :: "step_role option \<Rightarrow> bool" where
  "is_disarm_role r = (r = Some RoleDisarm \<or> r = Some RoleUnknownLegacyDisarm)"

definition family_for_teardown_script :: "string \<Rightarrow> string option" where
  "family_for_teardown_script s =
     (if s = [] then None
      else map_option fst
        (List.find (\<lambda>(f, spec). s \<in> set (fs_disarm spec) \<or> s \<in> set (fs_disarm_onboarded spec))
          FAMILY_STEPS))"

definition is_disarm_script :: "string \<Rightarrow> string list \<Rightarrow> string \<Rightarrow> bool" where
  "is_disarm_script s footprint_families version =
     (if s = [] then False
      else if \<not> is_disarm_role (step_teardown_role s version) then False
      else (case family_for_teardown_script s of
              None \<Rightarrow> False | Some f \<Rightarrow> f \<in> set footprint_families))"

definition selects_disarm :: "string list \<Rightarrow> jobj \<Rightarrow> bool" where
  "selects_disarm families step =
     (let name = script_name_from_step step; ver = step_version_of step in
      is_disarm_role (step_teardown_role name ver) \<and>
      (case family_for_teardown_script name of None \<Rightarrow> False | Some f \<Rightarrow> f \<in> set families))"

definition select_disarm_steps :: "json list \<Rightarrow> string list \<Rightarrow> jobj list" where
  "select_disarm_steps teardown_def footprint_families =
     (if footprint_families = [] then []
      else filter (selects_disarm footprint_families) (objs_of teardown_def))"

definition family_for_disarm_script :: "string \<Rightarrow> string \<Rightarrow> string option" where
  "family_for_disarm_script s version =
     (if \<not> is_disarm_role (step_teardown_role s version) then None
      else family_for_teardown_script s)"

end
