(* ===== verification/Teardown_Policy.thy ===== *)
theory Teardown_Policy
  imports Disarm_Contract
begin

section \<open>Teardown validation, step outcomes and the probe policy\<close>

text \<open>
  The second half of agent/contracts/device\_return.py: the shape a plan's teardown must have for
  an onboarded family, the mapping from a step outcome to a disarm result, and the policy that
  decides whether a reported probe result may be trusted.
\<close>

subsection \<open>Plan validation (validate\_onboarded\_teardown\_shape)\<close>

definition step_enabled :: "jobj \<Rightarrow> bool" where
  "step_enabled step = (jget step ''enabled'' \<noteq> JBool False)"

definition step_stage :: "jobj \<Rightarrow> string" where
  "step_stage step =
     lower (strip (py_str (jor (jor (jget step ''stage'') (jget step ''phase'')) (JStr []))))"

record teardown_entry =
  te_step_key :: string
  te_script_name :: string
  te_script_version :: string
  te_enabled :: bool
  te_role :: string

record violation =
  vi_family :: string
  vi_footprint_step_keys :: "string list"
  vi_required_disarm_script :: string
  vi_disarm_min_version :: string
  vi_finish_min_version :: string
  vi_teardown_steps :: "teardown_entry list"
  vi_reason :: string

definition plan_step_name :: "jobj \<Rightarrow> json" where
  "plan_step_name s = jor (jget s ''script_name'') (JStr (script_name_from_step s))"

definition plan_step_key :: "jobj \<Rightarrow> json" where
  "plan_step_key s = jor (jget s ''step_key'') (jget s ''step_id'')"

definition footprint_keys_of :: "jobj list \<Rightarrow> string list \<Rightarrow> string list" where
  "footprint_keys_of steps names =
     map (\<lambda>s. py_str (jor (plan_step_key s) (plan_step_name s)))
       (filter (\<lambda>s. (case plan_step_name s of JStr n \<Rightarrow> n \<in> set names | _ \<Rightarrow> False)
                    \<and> step_enabled s \<and> step_stage s \<in> {[], ''init''}) steps)"

definition teardown_candidates :: "jobj list \<Rightarrow> string list \<Rightarrow> jobj list" where
  "teardown_candidates steps scripts =
     filter (\<lambda>s. py_str (plan_step_name s) \<in> set scripts
                 \<and> step_stage s \<in> {[], ''teardown''}) steps"

definition teardown_entry_of :: "jobj \<Rightarrow> teardown_entry" where
  "teardown_entry_of s =
     (let name = py_str (plan_step_name s); ver = step_version_of s in
      \<lparr>te_step_key = py_str (jor (plan_step_key s) (JStr [])), te_script_name = name,
       te_script_version = ver, te_enabled = step_enabled s,
       te_role = role_text (step_teardown_role name ver)\<rparr>)"

definition family_violations :: "jobj list \<Rightarrow> string \<Rightarrow> onboarded_spec \<Rightarrow> violation list" where
  "family_violations steps family spec =
     (case map_of FAMILY_STEPS family of
        None \<Rightarrow> []
      | Some fam \<Rightarrow>
          if ob_disarm_script spec = [] \<or> ob_disarm_min_version spec = [] then []
          else
            let keys = footprint_keys_of steps (fs_footprint fam);
                rel = teardown_candidates steps [ob_disarm_script spec, ob_finish_script spec];
                named = (\<lambda>n. filter (\<lambda>s. py_str (plan_step_name s) = n) rel);
                disarm_steps = named (ob_disarm_script spec);
                enabled_disarm = filter step_enabled disarm_steps;
                enabled_finish = filter step_enabled (named (ob_finish_script spec));
                viol = (\<lambda>r. \<lparr>vi_family = family, vi_footprint_step_keys = keys,
                          vi_required_disarm_script = ob_disarm_script spec,
                          vi_disarm_min_version = ob_disarm_min_version spec,
                          vi_finish_min_version = ob_finish_min_version spec,
                          vi_teardown_steps = map teardown_entry_of rel, vi_reason = r\<rparr>)
            in if keys = [] then []
               else
                 (if disarm_steps = [] then [viol ''disarm_missing'']
                  else if enabled_disarm = [] then [viol ''disarm_disabled'']
                  else if \<not> list_ex (\<lambda>s. version_at_least (step_version_of s)
                                       (ob_disarm_min_version spec)) enabled_disarm
                  then [viol ''disarm_below_min_version''] else [])
                 @ (if list_ex (\<lambda>s. \<not> version_at_least (step_version_of s)
                                       (ob_finish_min_version spec)) enabled_finish
                    then [viol ''finish_below_min_version''] else []))"

definition validate_onboarded_teardown_shape :: "json list \<Rightarrow> registry \<Rightarrow> violation list" where
  "validate_onboarded_teardown_shape steps reg =
     concat (map (\<lambda>(family, spec). family_violations (objs_of steps) family spec) reg)"

subsection \<open>Disarm results\<close>

datatype contract_error = ValueError string

definition make_disarm_result ::
  "string \<Rightarrow> string \<Rightarrow> int option \<Rightarrow> string \<Rightarrow> string \<Rightarrow> contract_error + jobj" where
  "make_disarm_result result step_id exit_code readback_summary reason =
     (if result \<notin> set DISARM_RESULTS then Inl (ValueError result)
      else Inr ([(''result'', JStr result), (''step_id'', JStr step_id),
                 (''exit_code'', (case exit_code of None \<Rightarrow> JNull | Some c \<Rightarrow> JInt c)),
                 (''readback_summary'', JStr readback_summary)]
                @ (if reason \<noteq> [] then [(''reason'', JStr reason)] else [])))"

record step_outcome =
  so_started :: bool
  so_success :: "bool option"
  so_exit_code :: "int option"
  so_readback :: "string option"
  so_lease_lost :: bool
  so_incomplete :: bool
  so_skipped :: bool
  so_onboarded_family :: bool
  so_structured_result :: "string option"
  so_category_verified :: "bool option"

definition code_in :: "int option \<Rightarrow> int list \<Rightarrow> bool" where
  "code_in c cs = (case c of None \<Rightarrow> False | Some i \<Rightarrow> i \<in> set cs)"

definition map_step_outcome_to_disarm_result :: "step_outcome \<Rightarrow> string" where
  "map_step_outcome_to_disarm_result so =
     (if so_started so \<and> code_in (so_exit_code so) PLATFORM_INTERRUPTED then INCOMPLETE
      else if so_lease_lost so then NOT_EXECUTED
      else if so_incomplete so then INCOMPLETE
      else if so_skipped so \<or> \<not> so_started so then NOT_EXECUTED
      else if so_success so = Some False
              \<and> so_structured_result so \<in> {Some CONFIRMED, Some EXECUTED_UNVERIFIED} then FAILED_R
      else if (case so_structured_result so of None \<Rightarrow> False | Some r \<Rightarrow> r \<in> set DISARM_RESULTS)
      then the (so_structured_result so)
      else if so_readback so = Some ''readback_failed'' then
        (if so_category_verified so = Some False
         then (if so_success so = Some True then EXECUTED_UNVERIFIED else FAILED_R)
         else READBACK_FAILED)
      else (case so_success so of
              Some True \<Rightarrow>
                (if so_onboarded_family so \<and> so_readback so = Some ''clear'' then CONFIRMED
                 else EXECUTED_UNVERIFIED)
            | Some False \<Rightarrow>
                (if code_in (so_exit_code so) [143, -15, 137, -9] then INCOMPLETE else FAILED_R)
            | None \<Rightarrow> NOT_EXECUTED))"

fun default_not_executed_for_families ::
  "string list \<Rightarrow> string \<Rightarrow> jobj \<Rightarrow> contract_error + jobj" where
  "default_not_executed_for_families [] reason out = Inr out"
| "default_not_executed_for_families (f # fs) reason out =
     (case make_disarm_result NOT_EXECUTED [] None [] reason of
        Inl e \<Rightarrow> Inl e
      | Inr entry \<Rightarrow> default_not_executed_for_families fs reason (AList.update f (JObj entry) out))"

subsection \<open>The probe policy\<close>

record probe_policy =
  pp_result :: string
  pp_trusted :: bool
  pp_reason :: string
  pp_expected :: "jobj list"
  pp_observed :: jobj
  pp_report_ref :: json

definition opt_str :: "string option \<Rightarrow> json" where
  "opt_str s = (case s of None \<Rightarrow> JNull | Some x \<Rightarrow> JStr x)"

definition identity_fields :: "string \<Rightarrow> string list" where
  "identity_fields family =
     (case map_of PROBE_TOOL_IDENTITY_FIELDS family of None \<Rightarrow> [] | Some fs \<Rightarrow> fs)"

definition probe_observed ::
  "string \<Rightarrow> jobj \<Rightarrow> string option \<Rightarrow> string option \<Rightarrow> string \<Rightarrow> string \<Rightarrow> json \<Rightarrow> jobj" where
  "probe_observed family evidence platform model sname sver pkg =
     [(''platform'', opt_str platform), (''model'', opt_str model),
      (''permission_model'', jget evidence ''permission_model''),
      (''script_name'', JStr sname), (''script_version'', JStr sver),
      (''package_sha256'', pkg)]
     @ map (\<lambda>k. (k, jget evidence k)) (identity_fields family)"

definition combination_matches :: "jobj \<Rightarrow> jobj \<Rightarrow> bool" where
  "combination_matches observed c =
     (truthy (jget c ''report_ref'')
      \<and> list_all (\<lambda>(k, v). truthy v \<and> v = jget c k) observed)"

definition probe_reason ::
  "string \<Rightarrow> jobj \<Rightarrow> jobj \<Rightarrow> jobj option \<Rightarrow> string \<Rightarrow> string \<Rightarrow> json \<Rightarrow> bool \<Rightarrow> string" where
  "probe_reason family evidence observed match sname sver pkg token_valid =
     (if \<not> token_valid then ''token_invalid''
      else if jget observed ''permission_model'' \<notin> {JStr ''root'', JStr ''non-root''}
      then ''permission_unknown''
      else if identity_fields family = [] \<or> \<not> list_all (\<lambda>(k, v). truthy v) observed
      then ''identity_missing''
      else if jget evidence ''package_sha256'' \<noteq> pkg then ''package_mismatch''
      else if jget evidence ''script_name'' \<noteq> JStr sname
              \<or> jget evidence ''script_version'' \<noteq> JStr sver then ''script_mismatch''
      else if match = None then ''combination_unverified''
      else if py_str (jget evidence ''boot_completed'') \<noteq> ''1'' then ''boot_incomplete''
      else [])"

definition probe_result_policy ::
  "registry \<Rightarrow> string \<Rightarrow> jobj \<Rightarrow> string option \<Rightarrow> string option \<Rightarrow> string \<Rightarrow> string
   \<Rightarrow> json \<Rightarrow> bool \<Rightarrow> probe_policy" where
  "probe_result_policy reg family entry platform model sname sver pkg token_valid =
     (let evidence = obj_or_empty (jget entry ''evidence'');
          observed = probe_observed family evidence platform model sname sver pkg;
          expected = (case map_of reg family of None \<Rightarrow> []
                        | Some spec \<Rightarrow> ob_verified_device_classes spec);
          match = List.find (combination_matches observed) expected;
          reason = probe_reason family evidence observed match sname sver pkg token_valid;
          raw = jget evidence ''readback'';
          known = (case raw of JStr r \<Rightarrow> r \<in> set PROBE_READBACK_VALUES | _ \<Rightarrow> False);
          mode = jget evidence ''mode'';
          successful = (jget evidence ''success'' = JBool True);
          kind_ok = (jget evidence ''kind'' = JStr ''ok'');
          verified = (reason = []);
          decided =
            (if \<not> known then (FAILED_R, verified, reason)
             else if mode = JStr ''probe'' then
               (if verified \<and> raw = JStr ''clear'' \<and> kind_ok then CONFIRMED else FAILED_R,
                verified, reason)
             else if mode = JStr ''disarm'' then
               (if verified \<and> successful \<and> raw = JStr ''clear'' \<and> kind_ok then CONFIRMED
                else if successful
                  \<and> raw \<in> {JStr ''clear'', JStr ''absent'', JStr ''not_installed''}
                then EXECUTED_UNVERIFIED else FAILED_R, verified, reason)
             else (if successful then EXECUTED_UNVERIFIED else FAILED_R, False,
                   if reason \<noteq> [] then reason else ''mode_missing''));
          result = (if interrupted_code (jget entry ''exit_code'') then INCOMPLETE else fst decided)
      in \<lparr>pp_result = result, pp_trusted = fst (snd decided), pp_reason = snd (snd decided),
          pp_expected = expected, pp_observed = observed,
          pp_report_ref = (case match of None \<Rightarrow> JNull | Some c \<Rightarrow> jget c ''report_ref'')\<rparr>)"

record entry_decision =
  ed_status_code :: int
  ed_use_trace :: bool
  ed_ignore :: bool
  ed_family :: string
  ed_reason :: string

definition privileged_result :: "json \<Rightarrow> bool" where
  "privileged_result r = (r = JStr CONFIRMED \<or> r = JStr READBACK_FAILED)"

definition probe_entry_response :: "string \<Rightarrow> jobj \<Rightarrow> probe_policy \<Rightarrow> string \<Rightarrow> entry_decision" where
  "probe_entry_response family entry policy entry_point =
     (let r = jget entry ''result''; privileged = privileged_result r in
      if (pp_trusted policy \<and> (\<not> privileged \<or> JStr (pp_result policy) = r)) \<or> \<not> privileged
      then \<lparr>ed_status_code = 200, ed_use_trace = False, ed_ignore = False,
            ed_family = [], ed_reason = []\<rparr>
      else \<lparr>ed_status_code = (if entry_point \<in> {''discharge'', ''init_check''} then 422 else 200),
            ed_use_trace = (entry_point = ''complete''), ed_ignore = (entry_point = ''late''),
            ed_family = family,
            ed_reason = (if pp_reason policy \<noteq> [] then pp_reason policy
                         else ''raw_result_mismatch'')\<rparr>)"

end
