(* ===== verification/Disarm_Guard.thy ===== *)
theory Disarm_Guard
  imports Teardown_Policy
begin

section \<open>The disarm guard: frozen budgets and evidence sequences\<close>

text \<open>
  While a job disarms its device the reaper and the recycler must leave it alone, but only for
  budgets that were frozen once.  The guard holds those budgets, the highest evidence sequence
  accepted so far and the instants at which evidence was received.  A key that the JSON guard may
  lack is an \<open>option\<close> field.
\<close>

definition DISARM_QUEUE_SECONDS :: int where "DISARM_QUEUE_SECONDS = 7200"
definition DISARM_JOB_MAX_SECONDS :: int where "DISARM_JOB_MAX_SECONDS = 86400"
definition DISARM_EVIDENCE_FRESH_SECONDS :: int where "DISARM_EVIDENCE_FRESH_SECONDS = 60"

record step_budget =
  sb_seconds :: int
  sb_reason :: "string option"
  sb_script_name :: json
  sb_script_version :: json
  sb_package_sha256 :: json

record guard =
  g_protocol :: int
  g_t0 :: time
  g_job_deadline :: time
  g_queue_remaining :: int
  g_step_budgets :: "(string \<times> step_budget) list"
  g_step_deadlines :: "(string \<times> time) list"
  g_step_started_at :: "(string \<times> time) list"
  g_first_server_at :: time
  g_seq :: int
  g_progress_seq :: int
  g_fencing_token :: string
  g_agent_instance_id :: string
  g_last_server_at :: time
  g_boot_id :: "string option"
  g_reason :: "string option"
  g_phase :: "string option"
  g_step_id :: "string option"
  g_coordinator_seq :: "int option"
  g_coordinator_seen_at :: "time option"
  g_queue_accounted_at :: "time option"
  g_queue_deadline :: "time option"
  g_queue_seen_at :: "time option"
  g_progress_seen_at :: "time option"

definition disarm_execution_budget :: "jobj \<Rightarrow> int \<times> string option" where
  "disarm_execution_budget step =
     (case jget step ''timeout_seconds'' of
        JInt n \<Rightarrow> if n > 0 then (n, None) else (300, Some ''legacy_missing_wall_clock'')
      | _ \<Rightarrow> (300, Some ''legacy_missing_wall_clock''))"

definition guard_step_key :: "jobj \<Rightarrow> string" where
  "guard_step_key step =
     py_str (jor (jget step ''step_id'') (JStr (script_name_from_step step)))"

definition step_budget_of :: "jobj \<Rightarrow> step_budget" where
  "step_budget_of step =
     (case disarm_execution_budget step of (budget, reason) \<Rightarrow>
        \<lparr>sb_seconds = budget, sb_reason = reason,
         sb_script_name = JStr (script_name_from_step step),
         sb_script_version = JStr (step_version_of step),
         sb_package_sha256 = jget step ''package_sha256''\<rparr>)"

fun freeze_budgets :: "jobj list \<Rightarrow> (string \<times> step_budget) list \<Rightarrow> (string \<times> step_budget) list" where
  "freeze_budgets [] bs = bs"
| "freeze_budgets (s # ss) bs =
     (if jget s ''enabled'' = JBool False then freeze_budgets ss bs
      else freeze_budgets ss (AList.update (guard_step_key s) (step_budget_of s) bs))"

definition freeze_disarm_guard ::
  "jobj list \<Rightarrow> time \<Rightarrow> time option \<Rightarrow> string \<Rightarrow> string \<Rightarrow> guard" where
  "freeze_disarm_guard steps now abort_at token agent =
     (let budgets = freeze_budgets steps [];
          t0 = (case abort_at of None \<Rightarrow> now | Some a \<Rightarrow> min now a)
      in \<lparr>g_protocol = 1, g_t0 = t0,
          g_job_deadline = t0 + min (DISARM_QUEUE_SECONDS + sum_list (map (sb_seconds \<circ> snd) budgets))
                                    DISARM_JOB_MAX_SECONDS,
          g_queue_remaining = DISARM_QUEUE_SECONDS,
          g_step_budgets = budgets, g_step_deadlines = [], g_step_started_at = [],
          g_first_server_at = now, g_seq = -1, g_progress_seq = -1,
          g_fencing_token = token, g_agent_instance_id = agent, g_last_server_at = now,
          g_boot_id = None, g_reason = None, g_phase = None, g_step_id = None,
          g_coordinator_seq = None, g_coordinator_seen_at = None, g_queue_accounted_at = None,
          g_queue_deadline = None, g_queue_seen_at = None, g_progress_seen_at = None\<rparr>)"

subsection \<open>Receiving evidence\<close>

fun json_num :: "json \<Rightarrow> int option" where
  "json_num (JInt n) = Some n"
| "json_num (JBool b) = Some (if b then 1 else 0)"
| "json_num _ = None"

fun strict_int :: "json \<Rightarrow> int option" where
  "strict_int (JInt n) = Some n"
| "strict_int _ = None"

definition dict_setdefault :: "string \<Rightarrow> 'v \<Rightarrow> (string \<times> 'v) list \<Rightarrow> (string \<times> 'v) list" where
  "dict_setdefault k v d = (if map_of d k = None then d @ [(k, v)] else d)"

definition replayed_guard :: "guard \<Rightarrow> json \<Rightarrow> time \<Rightarrow> bool \<Rightarrow> guard" where
  \<comment> \<open>a sequence not above the last one may still be confirmed over the coordinator channel\<close>
  "replayed_guard out sq now via_coordinator =
     (case json_num sq of
        None \<Rightarrow> out
      | Some n \<Rightarrow>
          if via_coordinator \<and> n = g_seq out
             \<and> n > (case g_coordinator_seq out of None \<Rightarrow> -1 | Some c \<Rightarrow> c)
          then out\<lparr>g_coordinator_seen_at := Some now, g_coordinator_seq := Some n\<rparr>
          else out)"

definition evidence_matches :: "jobj \<Rightarrow> step_budget \<Rightarrow> bool" where
  "evidence_matches evidence step \<longleftrightarrow>
     jget evidence ''script_name'' = sb_script_name step
     \<and> jget evidence ''script_version'' = sb_script_version step
     \<and> jget evidence ''package_sha256'' = sb_package_sha256 step"

definition charge_queue :: "guard \<Rightarrow> time \<Rightarrow> guard" where
  "charge_queue out now =
     (if g_phase out = Some ''queue''
      then out\<lparr>g_queue_remaining :=
             max 0 (g_queue_remaining out - max 0 (now - the (g_queue_accounted_at out)))\<rparr>
      else out)"

definition enter_step :: "guard \<Rightarrow> int \<Rightarrow> string \<Rightarrow> string \<Rightarrow> guard" where
  "enter_step out n phase key =
     (let o1 = (if Some key \<noteq> g_step_id out then out\<lparr>g_progress_seen_at := None\<rparr> else out)
      in o1\<lparr>g_seq := n, g_phase := Some phase, g_step_id := Some key\<rparr>)"

definition mark_coordinator :: "guard \<Rightarrow> int \<Rightarrow> time \<Rightarrow> bool \<Rightarrow> guard" where
  "mark_coordinator out n now via =
     (if via then out\<lparr>g_coordinator_seen_at := Some now, g_coordinator_seq := Some n\<rparr> else out)"

definition queue_evidence :: "guard \<Rightarrow> time \<Rightarrow> guard" where
  "queue_evidence out now =
     out\<lparr>g_queue_accounted_at := Some now,
         g_queue_deadline := Some (min (now + g_queue_remaining out) (g_job_deadline out)),
         g_queue_seen_at := Some now\<rparr>"

definition execute_evidence :: "guard \<Rightarrow> jobj \<Rightarrow> string \<Rightarrow> step_budget \<Rightarrow> time \<Rightarrow> guard" where
  "execute_evidence out evidence key step now =
     (let o1 = out\<lparr>g_step_deadlines :=
                   dict_setdefault key (min (now + sb_seconds step) (g_job_deadline out))
                     (g_step_deadlines out),
                 g_step_started_at := dict_setdefault key now (g_step_started_at out)\<rparr>
      in (case strict_int (jget evidence ''progress_seq'') of
            None \<Rightarrow> o1
          | Some p \<Rightarrow> if p > 0 \<and> p > g_progress_seq o1
                      then o1\<lparr>g_progress_seq := p, g_progress_seen_at := Some now\<rparr> else o1))"

definition accept_evidence ::
  "guard \<Rightarrow> jobj \<Rightarrow> int \<Rightarrow> string \<Rightarrow> string \<Rightarrow> step_budget \<Rightarrow> time \<Rightarrow> bool \<Rightarrow> guard" where
  "accept_evidence out evidence n phase key step now via_coordinator =
     (let o3 = mark_coordinator (enter_step (charge_queue out now) n phase key) n now via_coordinator
      in if phase = ''queue'' then queue_evidence o3 now
         else execute_evidence o3 evidence key step now)"

definition evidence_target :: "guard \<Rightarrow> jobj \<Rightarrow> (string \<times> string \<times> step_budget) option" where
  "evidence_target g evidence =
     (case jget evidence ''phase'' of
        JStr phase \<Rightarrow>
          (case jget evidence ''step_id'' of
             JStr key \<Rightarrow>
               (case map_of (g_step_budgets g) key of
                  None \<Rightarrow> None
                | Some step \<Rightarrow>
                    if phase \<in> {''queue'', ''execute''} \<and> evidence_matches evidence step
                    then Some (phase, key, step) else None)
           | _ \<Rightarrow> None)
      | _ \<Rightarrow> None)"

definition receive_disarm_evidence :: "guard \<Rightarrow> jobj \<Rightarrow> time \<Rightarrow> bool \<Rightarrow> guard" where
  "receive_disarm_evidence g evidence now via_coordinator =
     (if now < g_last_server_at g then g\<lparr>g_reason := Some ''clock_regressed''\<rparr>
      else
        let out = g\<lparr>g_last_server_at := now\<rparr> in
        if g_reason out = Some ''clock_regressed'' then out
        else
          (case strict_int (jget evidence ''seq'') of
             None \<Rightarrow> replayed_guard out (jget evidence ''seq'') now via_coordinator
           | Some n \<Rightarrow>
               if n \<le> g_seq out then replayed_guard out (JInt n) now via_coordinator
               else (case evidence_target out evidence of
                       None \<Rightarrow> out
                     | Some (phase, key, step) \<Rightarrow>
                         accept_evidence out evidence n phase key step now via_coordinator)))"

subsection \<open>Deadlines\<close>

fun min_opt :: "time \<Rightarrow> time option \<Rightarrow> time" where
  "min_opt d None = d"
| "min_opt d (Some x) = min d x"

definition step_deadline :: "guard \<Rightarrow> time option" where
  "step_deadline g = (case g_step_id g of None \<Rightarrow> None | Some k \<Rightarrow> map_of (g_step_deadlines g) k)"

definition disarm_guard_deadline ::
  "guard option \<Rightarrow> time \<Rightarrow> bool \<Rightarrow> time option \<Rightarrow> int \<Rightarrow> time option" where
  "disarm_guard_deadline gopt now owner_valid hb_at hb_timeout =
     (case gopt of
        None \<Rightarrow> None
      | Some g \<Rightarrow>
          if \<not> owner_valid \<or> g_reason g = Some ''clock_regressed'' then None
          else if now < g_last_server_at g then None
          else
            (case g_coordinator_seen_at g of
               None \<Rightarrow> None
             | Some coord \<Rightarrow>
                 if \<not> (0 \<le> now - coord \<and> now - coord < DISARM_EVIDENCE_FRESH_SECONDS) then None
                 else
                   let base = min_opt (g_job_deadline g) (step_deadline g);
                       phase_limit =
                         (if g_phase g = Some ''queue''
                          then Some (min_opt base (g_queue_deadline g), g_queue_seen_at g)
                          else if g_phase g = Some ''execute''
                          then (case hb_at of
                                  None \<Rightarrow> None
                                | Some hb \<Rightarrow> Some (min base (hb + hb_timeout), g_progress_seen_at g))
                          else None)
                   in (case phase_limit of
                         None \<Rightarrow> None
                       | Some (d, None) \<Rightarrow> None
                       | Some (d, Some seen) \<Rightarrow>
                           let deadline = min (min d (seen + DISARM_EVIDENCE_FRESH_SECONDS))
                                              (coord + DISARM_EVIDENCE_FRESH_SECONDS)
                           in if now < deadline then Some deadline else None)))"

definition disarm_guard_expiry :: "guard \<Rightarrow> time option \<Rightarrow> time" where
  "disarm_guard_expiry g hb_deadline =
     (let base = min_opt (g_job_deadline g) (step_deadline g);
          started = (case g_step_id g of None \<Rightarrow> g_t0 g
                     | Some k \<Rightarrow> (case map_of (g_step_started_at g) k of None \<Rightarrow> g_t0 g | Some s \<Rightarrow> s));
          d1 = (if g_phase g = Some ''queue''
                then min (min_opt base (g_queue_deadline g))
                       ((case g_queue_seen_at g of None \<Rightarrow> g_last_server_at g | Some s \<Rightarrow> s)
                        + DISARM_EVIDENCE_FRESH_SECONDS)
                else if g_phase g = Some ''execute''
                then min_opt (min base
                       ((case g_progress_seen_at g of None \<Rightarrow> started | Some s \<Rightarrow> s)
                        + DISARM_EVIDENCE_FRESH_SECONDS)) hb_deadline
                else base);
          d2 = min d1 ((case g_coordinator_seen_at g of None \<Rightarrow> g_first_server_at g | Some s \<Rightarrow> s)
                       + DISARM_EVIDENCE_FRESH_SECONDS)
      in if g_reason g = Some ''clock_regressed'' then g_t0 g else d2)"

subsection \<open>The guard invariant\<close>

text \<open>
  What every guard satisfies that was frozen once and then only advanced by evidence: the frozen
  job ceiling, no step deadline above it, a queue budget that only shrinks.
\<close>

definition guard_ok :: "guard \<Rightarrow> bool" where
  "guard_ok g \<longleftrightarrow>
     0 \<le> g_queue_remaining g \<and> g_queue_remaining g \<le> DISARM_QUEUE_SECONDS
     \<and> g_job_deadline g \<le> g_t0 g + DISARM_JOB_MAX_SECONDS
     \<and> (\<forall>d\<in>set (map snd (g_step_deadlines g)). d \<le> g_job_deadline g)
     \<and> (g_phase g = Some ''queue'' \<longrightarrow> g_queue_accounted_at g \<noteq> None)
     \<and> -1 \<le> g_seq g"

lemma guard_ok_freeze: "guard_ok (freeze_disarm_guard steps now abort_at token agent)"
  by (simp add: guard_ok_def freeze_disarm_guard_def Let_def DISARM_QUEUE_SECONDS_def)

lemma setdefault_keeps: "map_of d k = Some x \<Longrightarrow> map_of (dict_setdefault k' v d) k = Some x"
  by (auto simp: dict_setdefault_def map_add_def)

lemma setdefault_lookup:
  "map_of (dict_setdefault k v d) k' = (if k' = k then Some (case map_of d k of None \<Rightarrow> v | Some x \<Rightarrow> x)
     else map_of d k')"
  by (auto simp: dict_setdefault_def map_add_def split: option.splits)

lemma set_setdefault: "set (map snd (dict_setdefault k v d)) \<subseteq> insert v (set (map snd d))"
  by (auto simp: dict_setdefault_def)

text \<open>How much of the queue budget is still unspent at an instant.\<close>

definition queue_left :: "guard \<Rightarrow> time \<Rightarrow> int" where
  "queue_left g now =
     (if g_phase g = Some ''queue''
      then max 0 (g_queue_remaining g - max 0 (now - the (g_queue_accounted_at g)))
      else g_queue_remaining g)"

lemmas guard_steps = charge_queue_def enter_step_def mark_coordinator_def queue_evidence_def
  execute_evidence_def accept_evidence_def replayed_guard_def Let_def

lemma accept_frozen:
  "g_job_deadline (accept_evidence g ev n ph k st now via) = g_job_deadline g"
  "g_t0 (accept_evidence g ev n ph k st now via) = g_t0 g"
  "g_step_budgets (accept_evidence g ev n ph k st now via) = g_step_budgets g"
  "g_fencing_token (accept_evidence g ev n ph k st now via) = g_fencing_token g"
  by (simp_all add: guard_steps split: option.splits)

lemma accept_seq: "g_seq (accept_evidence g ev n ph k st now via) = n"
  by (simp add: guard_steps split: option.splits)

lemma accept_phase: "g_phase (accept_evidence g ev n ph k st now via) = Some ph"
  by (simp add: guard_steps split: option.splits)

lemma accept_queue_remaining:
  "g_queue_remaining (accept_evidence g ev n ph k st now via) = queue_left g now"
  by (simp add: guard_steps queue_left_def split: option.splits)

lemma accept_deadlines_eq:
  "g_step_deadlines (accept_evidence g ev n ph k st now via) =
     (if ph = ''queue'' then g_step_deadlines g
      else dict_setdefault k (min (now + sb_seconds st) (g_job_deadline g)) (g_step_deadlines g))"
  by (simp add: guard_steps split: option.splits)

lemma accept_step_deadline_kept:
  "map_of (g_step_deadlines g) k' = Some d
   \<Longrightarrow> map_of (g_step_deadlines (accept_evidence g ev n ph k st now via)) k' = Some d"
  by (simp add: accept_deadlines_eq setdefault_keeps)

lemma accept_deadlines:
  "set (map snd (g_step_deadlines (accept_evidence g ev n ph k st now via)))
   \<subseteq> insert (min (now + sb_seconds st) (g_job_deadline g)) (set (map snd (g_step_deadlines g)))"
  unfolding accept_deadlines_eq by (simp only: set_setdefault split: if_splits) blast

lemma queue_left_bounds: "guard_ok g \<Longrightarrow> 0 \<le> queue_left g now \<and> queue_left g now \<le> g_queue_remaining g"
  by (auto simp: queue_left_def guard_ok_def)

lemma guard_ok_accept:
  assumes "guard_ok g" "g_seq g < n"
  shows "guard_ok (accept_evidence g ev n ph k st now via)"
proof -
  let ?g = "accept_evidence g ev n ph k st now via"
  have acc: "ph = ''queue'' \<Longrightarrow> g_queue_accounted_at ?g \<noteq> None"
    by (simp add: guard_steps split: option.splits)
  have old: "\<forall>d\<in>set (map snd (g_step_deadlines g)). d \<le> g_job_deadline g"
    using assms(1) by (simp add: guard_ok_def)
  have "\<forall>d\<in>set (map snd (g_step_deadlines ?g)). d \<le> g_job_deadline g"
  proof
    fix d assume "d \<in> set (map snd (g_step_deadlines ?g))"
    with accept_deadlines [of g ev n ph k st now via]
    have "d = min (now + sb_seconds st) (g_job_deadline g) \<or> d \<in> set (map snd (g_step_deadlines g))"
      by blast
    with old show "d \<le> g_job_deadline g" by fastforce
  qed
  with acc queue_left_bounds [OF assms(1), of now] assms show ?thesis
    by (simp add: guard_ok_def accept_frozen accept_seq accept_phase accept_queue_remaining)
qed

lemma replayed_fields [simp]:
  "g_job_deadline (replayed_guard g sq now via) = g_job_deadline g"
  "g_t0 (replayed_guard g sq now via) = g_t0 g"
  "g_step_budgets (replayed_guard g sq now via) = g_step_budgets g"
  "g_step_deadlines (replayed_guard g sq now via) = g_step_deadlines g"
  "g_queue_remaining (replayed_guard g sq now via) = g_queue_remaining g"
  "g_queue_accounted_at (replayed_guard g sq now via) = g_queue_accounted_at g"
  "g_phase (replayed_guard g sq now via) = g_phase g"
  "g_seq (replayed_guard g sq now via) = g_seq g"
  "g_progress_seq (replayed_guard g sq now via) = g_progress_seq g"
  "g_progress_seen_at (replayed_guard g sq now via) = g_progress_seen_at g"
  "g_queue_seen_at (replayed_guard g sq now via) = g_queue_seen_at g"
  by (simp_all add: replayed_guard_def split: option.splits)

text \<open>
  The case analysis every property of \<open>receive_disarm_evidence\<close> uses: the clock ran backwards,
  nothing but the receipt instant changed, a replay, or accepted evidence with a larger sequence.
\<close>

lemma receive_cases:
  obtains (regressed) "now < g_last_server_at g"
      "receive_disarm_evidence g ev now via = g\<lparr>g_reason := Some ''clock_regressed''\<rparr>"
  | (touched) "g_last_server_at g \<le> now"
      "receive_disarm_evidence g ev now via = g\<lparr>g_last_server_at := now\<rparr>"
  | (replayed) sq where "g_last_server_at g \<le> now"
      "receive_disarm_evidence g ev now via
       = replayed_guard (g\<lparr>g_last_server_at := now\<rparr>) sq now via"
  | (accepted) n ph k st where "g_last_server_at g \<le> now" "g_seq g < n"
      "jget ev ''seq'' = JInt n" "ph \<in> {''queue'', ''execute''}"
      "map_of (g_step_budgets g) k = Some st" "evidence_matches ev st"
      "receive_disarm_evidence g ev now via
       = accept_evidence (g\<lparr>g_last_server_at := now\<rparr>) ev n ph k st now via"
proof -
  have strict: "strict_int x = Some n \<Longrightarrow> x = JInt n" for x n by (cases x) auto
  show ?thesis
  proof (cases "now < g_last_server_at g")
    case True
    then show ?thesis using regressed by (simp add: receive_disarm_evidence_def)
  next
    case False
    note late = False
    show ?thesis
    proof (cases "g_reason g = Some ''clock_regressed''")
      case True
      with late show ?thesis using touched by (simp add: receive_disarm_evidence_def)
    next
      case False
      show ?thesis
      proof (cases "strict_int (jget ev ''seq'')")
        case None
        with late False show ?thesis using replayed by (simp add: receive_disarm_evidence_def)
      next
        case (Some n)
        show ?thesis
        proof (cases "n \<le> g_seq g")
          case True
          with late False Some show ?thesis using replayed
            by (simp add: receive_disarm_evidence_def)
        next
          case fresh: False
          show ?thesis
          proof (cases "evidence_target (g\<lparr>g_last_server_at := now\<rparr>) ev")
            case None
            with late False Some fresh show ?thesis using touched
              by (simp add: receive_disarm_evidence_def)
          next
            case (Some t)
            obtain ph k st where t: "t = (ph, k, st)" by (cases t)
            from Some t have "ph \<in> {''queue'', ''execute''}" "map_of (g_step_budgets g) k = Some st"
              "evidence_matches ev st"
              by (auto simp: evidence_target_def split: json.splits option.splits if_splits)
            moreover have "receive_disarm_evidence g ev now via
                = accept_evidence (g\<lparr>g_last_server_at := now\<rparr>) ev n ph k st now via"
              using late False \<open>strict_int (jget ev ''seq'') = Some n\<close> fresh Some t
              by (simp add: receive_disarm_evidence_def)
            ultimately show ?thesis
              using accepted late fresh strict [OF \<open>strict_int (jget ev ''seq'') = Some n\<close>] by simp
          qed
        qed
      qed
    qed
  qed
qed

lemma guard_ok_touch: "guard_ok (g\<lparr>g_last_server_at := t\<rparr>) = guard_ok g"
  by (simp add: guard_ok_def)

lemma guard_ok_receive:
  assumes "guard_ok g"
  shows "guard_ok (receive_disarm_evidence g ev now via)"
proof (cases rule: receive_cases [of now g ev via])
  case regressed
  with assms show ?thesis by (simp add: guard_ok_def)
next
  case touched
  with assms show ?thesis by (simp add: guard_ok_touch)
next
  case (replayed sq)
  with assms show ?thesis by (simp add: guard_ok_def)
next
  case (accepted n ph k st)
  have "guard_ok (g\<lparr>g_last_server_at := now\<rparr>)" using assms by (simp add: guard_ok_touch)
  with accepted show ?thesis by (simp add: guard_ok_accept)
qed

end
