(* ===== verification/Platform_Tables.thy ===== *)
theory Platform_Tables
  imports Disarm_Guard
begin

section \<open>The control-plane tables (backend/models)\<close>

text \<open>
  One record per ORM row type with the columns the modelled services read or write, and one
  record for the database.  A service runs in one transaction under row locks, so it is a
  function from the database before to its answer and the database after; a rolled-back
  transaction or savepoint returns the database it started from.  Enum columns are datatypes,
  because PostgreSQL admits no other value in them.
\<close>

subsection \<open>Enumerations (models/enums.py)\<close>

datatype job_status = J_PENDING | J_RUNNING | J_COMPLETED | J_FAILED | J_ABORTED | J_UNKNOWN

datatype plan_run_status =
  R_RUNNING | R_SUCCESS | R_PARTIAL_SUCCESS | R_FAILED | R_QUEUED | R_PRECHECK

datatype lease_type = LT_JOB | LT_SCRIPT | LT_MAINTENANCE

datatype lease_status = LS_ACTIVE | LS_RELEASED | LS_EXPIRED

definition TERMINAL_JOB_STATUSES :: "job_status list" where
  "TERMINAL_JOB_STATUSES = [J_COMPLETED, J_FAILED, J_ABORTED]"

definition terminal_status :: "job_status \<Rightarrow> bool" where
  "terminal_status s = (s \<in> set TERMINAL_JOB_STATUSES)"

lemma terminal_status_simps [simp]:
  "terminal_status J_COMPLETED" "terminal_status J_FAILED" "terminal_status J_ABORTED"
  "\<not> terminal_status J_PENDING" "\<not> terminal_status J_RUNNING" "\<not> terminal_status J_UNKNOWN"
  by (simp_all add: terminal_status_def TERMINAL_JOB_STATUSES_def)

fun job_status_text :: "job_status \<Rightarrow> string" where
  "job_status_text J_PENDING = ''PENDING''"
| "job_status_text J_RUNNING = ''RUNNING''"
| "job_status_text J_COMPLETED = ''COMPLETED''"
| "job_status_text J_FAILED = ''FAILED''"
| "job_status_text J_ABORTED = ''ABORTED''"
| "job_status_text J_UNKNOWN = ''UNKNOWN''"

subsection \<open>Rows\<close>

record host_row =
  h_id :: string
  h_status :: string
  h_retired_at :: "time option"
  h_maintenance_until :: "time option"
  h_maintenance_holder :: string
  h_boot_id :: string
  h_last_agent_instance_id :: string
  h_last_heartbeat :: "time option"
  h_hostname :: string
  h_name :: "string option"
  h_watcher_admin_active :: bool
  h_extra :: json

record device_row =
  d_id :: nat
  d_serial :: string
  d_host_id :: "string option"
  d_model :: "string option"
  d_platform :: "string option"
  d_status :: string
  d_adb_state :: "string option"
  d_adb_connected :: "bool option"
  d_lease_generation :: nat
  d_retired_at :: "time option"
  d_return_state :: jobj
  d_last_seen :: "time option"
  d_build_display_id :: "string option"

record job_row =
  j_id :: nat
  j_plan_run_id :: nat
  j_plan_id :: nat
  j_device_id :: nat
  j_host_id :: "string option"
  j_status :: job_status
  j_status_reason :: string
  j_pipeline_def :: json
  j_created_at :: time
  j_started_at :: "time option"
  j_ended_at :: "time option"
  j_updated_at :: time
  j_terminal_payload_digest :: "string option"
  j_watcher_started_at :: "time option"
  j_watcher_stopped_at :: "time option"
  j_watcher_capability :: "string option"
  j_log_signal_count :: int
  j_disarm_results :: json
  j_disarm_guard :: "guard option"
  j_execution_state :: "string option"
  j_last_execution_heartbeat_at :: "time option"
  j_last_progress_at :: "time option"
  j_patrol_cycle_count :: int
  j_last_patrol_heartbeat_at :: "time option"
  j_current_patrol_step :: "string option"
  j_next_retry_at :: "time option"
  j_patrol_success_count :: int
  j_patrol_failed_count :: int
  j_failure_streak :: int
  j_manual_action :: "string option"

record lease_row =
  l_id :: nat
  l_device_id :: nat
  l_job_id :: "nat option"
  l_host_id :: "string option"
  l_type :: lease_type
  l_status :: lease_status
  l_fencing_token :: string
  l_generation :: nat
  l_agent_instance_id :: string
  l_reason :: "string option"
  l_holder :: "string option"
  l_acquired_at :: time
  l_renewed_at :: time
  l_expires_at :: time
  l_released_at :: "time option"

record debt_row =
  b_id :: nat
  b_device_id :: nat
  b_family :: string
  b_source_kind :: string
  b_source_job_id :: "nat option"
  b_source_fencing_token :: "string option"
  b_cause :: string
  b_state :: string
  b_closed_reason :: "string option"
  b_closed_at :: "time option"
  b_created_at :: time
  b_evidence :: json

text \<open>The text of a trace's \<open>output\<close> column: absent, text that is not JSON, or a JSON document.\<close>

datatype trace_output = NoOutput | PlainOutput string | JsonOutput json

record trace_row =
  t_id :: nat
  t_job_id :: nat
  t_step_id :: string
  t_stage :: string
  t_status :: string
  t_event_type :: string
  t_output :: trace_output
  t_error_message :: json
  t_exit_code :: "int option"
  t_metadata :: json
  t_trace_event_id :: string
  t_original_ts :: "time option"
  t_created_at :: time

record run_row =
  r_id :: nat
  r_status :: plan_run_status
  r_run_context :: json
  r_plan_snapshot :: json
  r_ended_at :: "time option"
  r_total :: int
  r_terminal :: int
  r_completed :: int
  r_failed :: int
  r_aborted :: int
  r_result_summary :: json
  r_next_plan_triggered :: bool
  r_terminal_effects :: "string option"
  r_plan_id :: nat
  r_build_version :: "string option"
  r_run_type :: string
  r_triggered_by :: "string option"
  r_started_at :: time
  r_parent_id :: "nat option"
  r_root_id :: "nat option"
  r_chain_index :: int
  r_priority :: int
  r_queue_reason :: "string option"
  r_next_admission_at :: "time option"
  r_admission_token :: "string option"
  r_admission_attempt_id :: "string option"
  r_precheck_started_at :: "time option"
  r_enqueued_at :: "time option"

record prh_row =
  p_id :: nat
  p_plan_run_id :: nat
  p_host_id :: string
  p_device_count :: int
  p_total :: int
  p_terminal :: int
  p_completed :: int
  p_failed :: int
  p_aborted :: int
  p_coordinator_heartbeat_at :: "time option"
  p_coordinator_epoch :: int
  p_phase :: "string option"
  p_status :: string
  p_admitted_at :: "time option"
  p_admission_batch_size_snapshot :: "int option"

record target_row =
  tg_plan_run_id :: nat
  tg_plan_run_host_id :: nat
  tg_device_id :: nat
  tg_host_id_snapshot :: string
  tg_sort_order :: nat

record plan_row =
  pl_id :: nat
  pl_name :: string
  pl_description :: "string option"
  pl_patrol_interval_seconds :: "int option"
  pl_timeout_seconds :: "int option"
  pl_barrier_timeout_seconds :: "int option"
  pl_barrier_max_wait_seconds :: "int option"
  pl_auto_archive_interval_seconds :: "int option"
  pl_next_plan_id :: "nat option"
  pl_watcher_policy :: json
  pl_suite_id :: "nat option"

record step_row =
  ps_plan_id :: nat
  ps_step_key :: string
  ps_script_name :: string
  ps_script_version :: string
  ps_stage :: string
  ps_sort_order :: int
  ps_timeout_seconds :: "int option"
  ps_stall_seconds :: "int option"
  ps_params :: json
  ps_retry :: int
  ps_enabled :: bool

record script_row =
  k_name :: string
  k_version :: string
  k_nfs_path :: string
  k_param_schema :: json
  k_default_params :: json
  k_is_active :: bool

record pool_row =
  rp_id :: nat
  rp_name :: string
  rp_resource_type :: string
  rp_config :: json
  rp_max_concurrent_devices :: int
  rp_host_group :: "string option"
  rp_is_active :: bool

record alloc_row =
  ra_job_instance_id :: nat
  ra_resource_pool_id :: nat
  ra_device_id :: nat
  ra_allocated_params :: jobj

record audit_row =
  a_action :: string
  a_resource_type :: string
  a_resource_id :: string
  a_username :: string
  a_details :: json

record db =
  hosts :: "host_row list"
  devices :: "device_row list"
  jobs :: "job_row list"
  leases :: "lease_row list"
  debts :: "debt_row list"
  traces :: "trace_row list"
  runs :: "run_row list"
  prhs :: "prh_row list"
  audits :: "audit_row list"
  pending_aggregation :: "(nat \<times> nat) list"
  next_lease_id :: nat
  next_debt_id :: nat
  next_trace_id :: nat
  targets :: "target_row list"
  plans :: "plan_row list"
  plan_steps :: "step_row list"
  scripts :: "script_row list"
  pools :: "pool_row list"
  allocations :: "alloc_row list"

subsection \<open>The process environment\<close>

text \<open>
  What the services read besides the database: the timeouts of core/job\_timeout\_config.py (set
  from environment variables), the parsed \<open>tool_manifest.json\<close> (absent where it cannot be read)
  and SHA-256, which the model takes as an arbitrary function from texts to texts.
\<close>

record env =
  e_dispatched_timeout :: int
  e_running_heartbeat_timeout :: int
  e_patrol_running_heartbeat_timeout :: int
  e_patrol_stall_multiplier :: int
  e_abort_ack_grace :: int
  e_host_heartbeat_timeout :: int
  e_unknown_grace :: int
  e_coordinator_interval :: int
  e_device_lock_lease :: int
  e_manifest :: "json option"
  e_sha256 :: "string \<Rightarrow> string"

subsection \<open>Primary-key access\<close>

definition next_serial :: "nat list \<Rightarrow> nat" where
  \<comment> \<open>the next number of a serial key: rows of runs and jobs are never removed\<close>
  "next_serial ids = Suc (fold max ids 0)"

lemma fold_max_ge: "a \<le> fold max ids (a :: nat)"
proof (induction ids arbitrary: a)
  case (Cons i ids)
  from le_trans [OF max.cobounded2 Cons.IH [of "max i a"]] show ?case by simp
qed simp

lemma next_serial_fresh: "i \<in> set ids \<Longrightarrow> i < next_serial ids"
proof -
  have "i \<in> set ids \<Longrightarrow> i \<le> fold max ids a" for a
  proof (induction ids arbitrary: a)
    case (Cons j ids)
    then show ?case using le_trans [OF max.cobounded1 fold_max_ge [of "max j a" ids]] by auto
  qed simp
  then show "i \<in> set ids \<Longrightarrow> i < next_serial ids" by (simp add: next_serial_def less_Suc_eq_le)
qed

definition get_host :: "db \<Rightarrow> string \<Rightarrow> host_row option" where
  "get_host s i = first_row (filter (\<lambda>h. h_id h = i) (hosts s))"

definition get_device :: "db \<Rightarrow> nat \<Rightarrow> device_row option" where
  "get_device s i = first_row (filter (\<lambda>d. d_id d = i) (devices s))"

definition get_job :: "db \<Rightarrow> nat \<Rightarrow> job_row option" where
  "get_job s i = first_row (filter (\<lambda>j. j_id j = i) (jobs s))"

definition get_run :: "db \<Rightarrow> nat \<Rightarrow> run_row option" where
  "get_run s i = first_row (filter (\<lambda>r. r_id r = i) (runs s))"

definition upd_host :: "string \<Rightarrow> (host_row \<Rightarrow> host_row) \<Rightarrow> db \<Rightarrow> db" where
  "upd_host i f s = s\<lparr>hosts := upd_where (\<lambda>h. h_id h = i) f (hosts s)\<rparr>"

definition upd_device :: "nat \<Rightarrow> (device_row \<Rightarrow> device_row) \<Rightarrow> db \<Rightarrow> db" where
  "upd_device i f s = s\<lparr>devices := upd_where (\<lambda>d. d_id d = i) f (devices s)\<rparr>"

definition upd_job :: "nat \<Rightarrow> (job_row \<Rightarrow> job_row) \<Rightarrow> db \<Rightarrow> db" where
  "upd_job i f s = s\<lparr>jobs := upd_where (\<lambda>j. j_id j = i) f (jobs s)\<rparr>"

definition upd_lease :: "nat \<Rightarrow> (lease_row \<Rightarrow> lease_row) \<Rightarrow> db \<Rightarrow> db" where
  "upd_lease i f s = s\<lparr>leases := upd_where (\<lambda>l. l_id l = i) f (leases s)\<rparr>"

definition upd_run :: "nat \<Rightarrow> (run_row \<Rightarrow> run_row) \<Rightarrow> db \<Rightarrow> db" where
  "upd_run i f s = s\<lparr>runs := upd_where (\<lambda>r. r_id r = i) f (runs s)\<rparr>"

definition add_audit :: "string \<Rightarrow> string \<Rightarrow> string \<Rightarrow> string \<Rightarrow> json \<Rightarrow> db \<Rightarrow> db" where
  "add_audit action rtype rid user details s =
     s\<lparr>audits := audits s @ [\<lparr>a_action = action, a_resource_type = rtype, a_resource_id = rid,
         a_username = user, a_details = details\<rparr>]\<rparr>"

lemma get_device_Some: "get_device s i = Some d \<Longrightarrow> d \<in> set (devices s) \<and> d_id d = i"
  unfolding get_device_def by (rule first_row_filterD)

lemma get_job_Some: "get_job s i = Some j \<Longrightarrow> j \<in> set (jobs s) \<and> j_id j = i"
  unfolding get_job_def by (rule first_row_filterD)

lemma get_host_Some: "get_host s i = Some h \<Longrightarrow> h \<in> set (hosts s) \<and> h_id h = i"
  unfolding get_host_def by (rule first_row_filterD)

lemma first_row_upd_key:
  assumes "\<And>r. key (f r) = key r"
  shows "first_row (filter (\<lambda>r. key r = i) (upd_where (\<lambda>r. key r = k) f t)) =
     map_option (\<lambda>r. if i = k then f r else r) (first_row (filter (\<lambda>r. key r = i) t))"
  by (induction t) (auto simp: upd_where_Cons assms)

lemma get_job_upd_job:
  assumes "\<And>j. j_id (f j) = j_id j"
  shows "get_job (upd_job k f s) i = map_option (\<lambda>j. if i = k then f j else j) (get_job s i)"
  using assms by (simp add: get_job_def upd_job_def first_row_upd_key)

lemma get_device_upd_device:
  assumes "\<And>d. d_id (f d) = d_id d"
  shows "get_device (upd_device k f s) i = map_option (\<lambda>d. if i = k then f d else d) (get_device s i)"
  using assms by (simp add: get_device_def upd_device_def first_row_upd_key)

subsection \<open>Fencing tokens\<close>

text \<open>\<open>f"\{device_id\}:\{generation\}"\<close>: distinct pairs give distinct tokens.\<close>

definition fencing_token :: "nat \<Rightarrow> nat \<Rightarrow> string" where
  "fencing_token d g = dec d @ '':'' @ dec g"

lemma colon_not_in_dec: "CHR '':'' \<notin> set (dec n)"
  using dec_digits [of n] by (auto simp: is_digit_def)

lemma fencing_token_inject [simp]:
  "fencing_token d g = fencing_token d' g' \<longleftrightarrow> d = d' \<and> g = g'"
proof
  assume eq: "fencing_token d g = fencing_token d' g'"
  have split: "split_char (CHR '':'') (fencing_token a b) = [dec a, dec b]" for a b
    by (simp add: fencing_token_def split_char_join split_char_none colon_not_in_dec)
  from eq have "[dec d, dec g] = [dec d', dec g']" by (metis split)
  then show "d = d' \<and> g = g'" by simp
qed simp

subsection \<open>Leases\<close>

definition active_lease :: "lease_row \<Rightarrow> bool" where
  "active_lease l = (l_status l = LS_ACTIVE)"

definition active_on :: "nat \<Rightarrow> lease_row \<Rightarrow> bool" where
  "active_on d l = (l_device_id l = d \<and> l_status l = LS_ACTIVE)"

definition get_active_lease :: "db \<Rightarrow> nat \<Rightarrow> lease_row option" where
  "get_active_lease s d = first_row (filter (active_on d) (leases s))"

definition job_lease_on :: "nat \<Rightarrow> nat \<Rightarrow> lease_row \<Rightarrow> bool" where
  \<comment> \<open>WHERE device\_id, job\_id, lease\_type = JOB, status = ACTIVE\<close>
  "job_lease_on d j l =
     (l_device_id l = d \<and> l_job_id l = Some j \<and> l_type l = LT_JOB \<and> l_status l = LS_ACTIVE)"

definition get_job_lease :: "db \<Rightarrow> nat \<Rightarrow> nat \<Rightarrow> lease_row option" where
  "get_job_lease s d j = first_row (filter (job_lease_on d j) (leases s))"

lemma get_active_lease_Some:
  "get_active_lease s d = Some l \<Longrightarrow> l \<in> set (leases s) \<and> l_device_id l = d \<and> l_status l = LS_ACTIVE"
  unfolding get_active_lease_def by (drule first_row_filterD) (simp add: active_on_def)

lemma get_active_lease_None:
  "get_active_lease s d = None \<longleftrightarrow> (\<forall>l\<in>set (leases s). \<not> active_on d l)"
  by (simp add: get_active_lease_def filter_empty_conv)

lemma get_job_lease_Some:
  "get_job_lease s d j = Some l \<Longrightarrow> l \<in> set (leases s) \<and> job_lease_on d j l"
  unfolding get_job_lease_def by (rule first_row_filterD)

lemma job_lease_active: "job_lease_on d j l \<Longrightarrow> active_on d l"
  by (simp add: job_lease_on_def active_on_def)

text \<open>
  The lease-table invariant: primary keys, the partial unique index (at most one ACTIVE lease per
  device), the foreign key, and fencing (every lease carries the token of its own generation, no
  generation is above its device's, no two leases share one).
\<close>

definition one_active :: "lease_row list \<Rightarrow> bool" where
  "one_active ls \<longleftrightarrow> (\<forall>d. length (filter (active_on d) ls) \<le> 1)"

lemma one_active_code [code]:
  "one_active ls \<longleftrightarrow> list_all (\<lambda>l. length (filter (active_on (l_device_id l)) ls) \<le> 1) ls"
proof
  assume r: "list_all (\<lambda>l. length (filter (active_on (l_device_id l)) ls) \<le> 1) ls"
  have "length (filter (active_on d) ls) \<le> 1" for d
  proof (cases "filter (active_on d) ls")
    case (Cons l xs)
    then have "l \<in> set (filter (active_on d) ls)" by simp
    then have "l \<in> set ls" "l_device_id l = d" by (auto simp: active_on_def)
    with r show ?thesis by (auto simp: list_all_iff)
  qed simp
  then show "one_active ls" by (simp add: one_active_def)
qed (simp add: one_active_def list_all_iff)

definition token_ok :: "lease_row \<Rightarrow> bool" where
  "token_ok l = (l_fencing_token l = fencing_token (l_device_id l) (l_generation l))"

definition gen_bound :: "device_row list \<Rightarrow> lease_row \<Rightarrow> bool" where
  "gen_bound ds l \<longleftrightarrow> (\<exists>v\<in>set ds. d_id v = l_device_id l \<and> l_generation l \<le> d_lease_generation v)"

definition lease_wf :: "db \<Rightarrow> bool" where
  "lease_wf s \<longleftrightarrow>
     distinct (map d_id (devices s)) \<and> distinct (map l_id (leases s))
     \<and> (\<forall>l\<in>set (leases s). l_id l < next_lease_id s)
     \<and> one_active (leases s)
     \<and> (\<forall>l\<in>set (leases s). token_ok l \<and> gen_bound (devices s) l)
     \<and> distinct (map l_fencing_token (leases s))"

definition generation_of :: "db \<Rightarrow> nat \<Rightarrow> nat" where
  "generation_of s d = (case get_device s d of None \<Rightarrow> 0 | Some v \<Rightarrow> d_lease_generation v)"

definition live_token :: "db \<Rightarrow> string \<Rightarrow> bool" where
  "live_token s tok \<longleftrightarrow> (\<exists>l\<in>set (leases s). active_lease l \<and> l_fencing_token l = tok)"

text \<open>
  Fencing between two database states: generations never go down, and a token of a generation
  already handed out that is not live never becomes live again.
\<close>

definition fence_step :: "db \<Rightarrow> db \<Rightarrow> bool" where
  "fence_step s t \<longleftrightarrow>
     (\<forall>d. generation_of s d \<le> generation_of t d)
     \<and> (\<forall>d g. g \<le> generation_of s d \<and> live_token t (fencing_token d g)
          \<longrightarrow> live_token s (fencing_token d g))"

lemma fence_refl [simp]: "fence_step s s"
  by (simp add: fence_step_def)

lemma fence_trans: "fence_step s t \<Longrightarrow> fence_step t u \<Longrightarrow> fence_step s u"
  by (simp add: fence_step_def) (meson le_trans)

lemma lease_wf_active_unique:
  assumes "lease_wf s" "l \<in> set (leases s)" "l' \<in> set (leases s)" "active_on d l" "active_on d l'"
  shows "l = l'"
proof -
  from assms(1) have "length (filter (active_on d) (leases s)) \<le> 1"
    by (simp add: lease_wf_def one_active_def)
  from at_most_one_filter [OF this assms(2-5)] show ?thesis .
qed

lemma lease_wf_id_unique:
  assumes "lease_wf s" "l \<in> set (leases s)" "l' \<in> set (leases s)" "l_id l = l_id l'"
  shows "l = l'"
  using assms by (auto simp: lease_wf_def dest: distinct_map_single)

lemma lease_wf_get_active:
  assumes "lease_wf s" "l \<in> set (leases s)" "active_on d l"
  shows "get_active_lease s d = Some l"
proof (cases "get_active_lease s d")
  case None
  with assms show ?thesis by (simp add: get_active_lease_None)
next
  case (Some l')
  then have "l' \<in> set (leases s)" "active_on d l'"
    by (auto dest: get_active_lease_Some simp: active_on_def)
  with assms Some show ?thesis using lease_wf_active_unique by blast
qed

subsection \<open>Updates that leave the lease view alone\<close>

text \<open>
  Two databases with the same leases and the same device generations: every table but
  \<open>device_leases\<close> and the generation counters is free to change.
\<close>

definition same_leases :: "db \<Rightarrow> db \<Rightarrow> bool" where
  "same_leases s t \<longleftrightarrow>
     leases t = leases s \<and> next_lease_id t = next_lease_id s
     \<and> map (\<lambda>v. (d_id v, d_lease_generation v)) (devices t)
       = map (\<lambda>v. (d_id v, d_lease_generation v)) (devices s)"

lemma same_leases_refl [simp]: "same_leases s s"
  by (simp add: same_leases_def)

lemma same_leases_trans: "same_leases s t \<Longrightarrow> same_leases t u \<Longrightarrow> same_leases s u"
  by (simp add: same_leases_def)

lemma same_leases_d_ids:
  "same_leases s t \<Longrightarrow> map d_id (devices t) = map d_id (devices s)"
  unfolding same_leases_def by (drule conjunct2, drule conjunct2, drule arg_cong [where f = "map fst"])
     (simp add: comp_def)

lemma first_row_map_pairs:
  assumes "map (\<lambda>v. (k v, g v)) xs = map (\<lambda>v. (k v, g v)) ys"
  shows "map_option g (first_row (filter (\<lambda>v. k v = i) xs))
       = map_option g (first_row (filter (\<lambda>v. k v = i) ys))"
  using assms
proof (induction xs arbitrary: ys)
  case Nil
  then show ?case by simp
next
  case (Cons x xs)
  then show ?case by (cases ys) auto
qed

lemma same_leases_generation: "same_leases s t \<Longrightarrow> generation_of t d = generation_of s d"
  unfolding same_leases_def generation_of_def get_device_def
  by (drule conjunct2, drule conjunct2, drule first_row_map_pairs [where i = d])
     (auto split: option.splits)

lemma same_leases_bound: "same_leases s t \<Longrightarrow> gen_bound (devices t) l = gen_bound (devices s) l"
proof -
  assume "same_leases s t"
  then have "(\<lambda>v. (d_id v, d_lease_generation v)) ` set (devices t)
      = (\<lambda>v. (d_id v, d_lease_generation v)) ` set (devices s)"
    unfolding same_leases_def by (metis image_set)
  then have "(\<exists>v\<in>set (devices t). P (d_id v, d_lease_generation v))
      = (\<exists>v\<in>set (devices s). P (d_id v, d_lease_generation v))" for P
    by (metis (no_types, lifting) image_iff)
  from this [of "\<lambda>(i, g). i = l_device_id l \<and> l_generation l \<le> g"] show ?thesis
    by (simp add: gen_bound_def)
qed

lemma same_leases_wf: "same_leases s t \<Longrightarrow> lease_wf t = lease_wf s"
  using same_leases_d_ids [of s t] same_leases_bound [of s t]
  by (simp add: lease_wf_def) (simp add: same_leases_def)

lemma same_leases_fence: "same_leases s t \<Longrightarrow> fence_step s t"
  by (simp add: fence_step_def same_leases_generation live_token_def) (simp add: same_leases_def)

lemma same_leases_active: "same_leases s t \<Longrightarrow> get_active_lease t d = get_active_lease s d"
  by (simp add: same_leases_def get_active_lease_def)

lemma same_leases_job_lease: "same_leases s t \<Longrightarrow> get_job_lease t d j = get_job_lease s d j"
  by (simp add: same_leases_def get_job_lease_def)

lemma same_leases_upd [simp]:
  "same_leases s (upd_host i fh s)" "same_leases s (upd_job k fj s)" "same_leases s (upd_run r fr s)"
  "same_leases s (add_audit a b c e f s)"
  by (simp_all add: same_leases_def upd_host_def upd_job_def upd_run_def add_audit_def)

lemma same_leases_upd_device:
  assumes "\<And>v. d_id (f v) = d_id v" "\<And>v. d_lease_generation (f v) = d_lease_generation v"
  shows "same_leases s (upd_device i f s)"
  using assms by (simp add: same_leases_def upd_device_def map_upd_where)

end
