(* ===== verification/Lease_Table.thy ===== *)
theory Lease_Table
  imports Platform_Tables
begin

section \<open>The three ways a service changes the lease table\<close>

text \<open>
  Every service of the control plane changes \<open>device_leases\<close> and the generation counters in one
  of three ways: it touches leases without reactivating them (release, extend, expire), it gives
  an ACTIVE lease a fresh generation (rotation, conversion), or it inserts a lease with a fresh
  generation.  Each keeps the lease invariant and the fencing order; the services' proofs rest on
  these three facts.
\<close>

definition upd_leases :: "(lease_row \<Rightarrow> bool) \<Rightarrow> (lease_row \<Rightarrow> lease_row) \<Rightarrow> db \<Rightarrow> db" where
  "upd_leases P f s = s\<lparr>leases := upd_where P f (leases s)\<rparr>"

definition bump_generation :: "nat \<Rightarrow> db \<Rightarrow> db" where
  "bump_generation d s = upd_device d (\<lambda>v. v\<lparr>d_lease_generation := d_lease_generation v + 1\<rparr>) s"

definition insert_lease :: "lease_row \<Rightarrow> db \<Rightarrow> db" where
  "insert_lease l s =
     s\<lparr>leases := leases s @ [l\<lparr>l_id := next_lease_id s\<rparr>], next_lease_id := next_lease_id s + 1\<rparr>"

definition touches :: "(lease_row \<Rightarrow> lease_row) \<Rightarrow> bool" where
  "touches f \<longleftrightarrow>
     (\<forall>l. l_id (f l) = l_id l \<and> l_device_id (f l) = l_device_id l
          \<and> l_generation (f l) = l_generation l \<and> l_fencing_token (f l) = l_fencing_token l
          \<and> (l_status (f l) = LS_ACTIVE \<longrightarrow> l_status l = LS_ACTIVE))"

lemma upd_lease_leases: "upd_lease i f s = upd_leases (\<lambda>l. l_id l = i) f s"
  by (simp add: upd_lease_def upd_leases_def)

lemma length_filter_upd_where:
  assumes "\<And>r. r \<in> set t \<Longrightarrow> P r \<Longrightarrow> Q (f r) \<Longrightarrow> Q r"
  shows "length (filter Q (upd_where P f t)) \<le> length (filter Q t)"
  using assms by (induction t) (auto simp: upd_where_Cons)

lemma touch_wf:
  assumes f: "touches f" and wf: "lease_wf s"
  shows "lease_wf (upd_leases P f s)"
proof -
  from f have keep: "map l_id (upd_where P f ls) = map l_id ls"
    "map l_fencing_token (upd_where P f ls) = map l_fencing_token ls" for ls
    by (auto simp: touches_def intro!: map_upd_where)
  have act: "length (filter (active_on d) (upd_where P f (leases s))) \<le> 1" for d
  proof -
    have "length (filter (active_on d) (upd_where P f (leases s))) \<le> length (filter (active_on d) (leases s))"
      using f by (intro length_filter_upd_where) (auto simp: touches_def active_on_def)
    also have "\<dots> \<le> 1" using wf by (simp add: lease_wf_def one_active_def)
    finally show ?thesis .
  qed
  have rows: "l_id l < next_lease_id s \<and> token_ok l \<and> gen_bound (devices s) l"
    if l: "l \<in> set (upd_where P f (leases s))" for l
    using l
  proof (cases rule: in_upd_whereE)
    case 1
    with wf show ?thesis by (auto simp: lease_wf_def)
  next
    case (2 l0)
    with wf have "l_id l0 < next_lease_id s" "token_ok l0" "gen_bound (devices s) l0"
      by (auto simp: lease_wf_def)
    with 2 f show ?thesis by (auto simp: touches_def token_ok_def gen_bound_def)
  qed
  from wf keep act rows show ?thesis
    by (simp add: lease_wf_def upd_leases_def one_active_def)
qed

lemma generation_upd_leases [simp]: "generation_of (upd_leases P f s) d = generation_of s d"
  by (simp add: generation_of_def get_device_def upd_leases_def)

lemma touch_live:
  assumes "touches f" "live_token (upd_leases P f s) tok"
  shows "live_token s tok"
  using assms by (auto simp: live_token_def upd_leases_def set_upd_where touches_def active_lease_def)

lemma touch_fence: "touches f \<Longrightarrow> fence_step s (upd_leases P f s)"
  by (auto simp: fence_step_def dest: touch_live)

subsection \<open>Generations\<close>

lemma generation_bump:
  assumes "get_device s d = Some v"
  shows "generation_of (bump_generation d s) d' =
     (if d' = d then Suc (generation_of s d) else generation_of s d')"
  using assms
  by (auto simp: generation_of_def bump_generation_def get_device_upd_device split: option.splits)

lemma bump_leases [simp]:
  "leases (bump_generation d s) = leases s"
  "next_lease_id (bump_generation d s) = next_lease_id s"
  "map d_id (devices (bump_generation d s)) = map d_id (devices s)"
  by (simp_all add: bump_generation_def upd_device_def map_upd_where)

lemma bump_bound:
  assumes "gen_bound (devices s) l"
  shows "gen_bound (devices (bump_generation d s)) l"
proof -
  from assms obtain v where v: "v \<in> set (devices s)" "d_id v = l_device_id l"
    "l_generation l \<le> d_lease_generation v" by (auto simp: gen_bound_def)
  let ?f = "\<lambda>v. v\<lparr>d_lease_generation := d_lease_generation v + 1\<rparr>"
  have "(if d_id v = d then ?f v else v) \<in> set (devices (bump_generation d s))"
    using v(1) by (auto simp: bump_generation_def upd_device_def upd_where_def)
  moreover have "d_id (if d_id v = d then ?f v else v) = l_device_id l"
    "l_generation l \<le> d_lease_generation (if d_id v = d then ?f v else v)"
    using v by auto
  ultimately show ?thesis unfolding gen_bound_def by blast
qed

lemma bump_wf: "lease_wf s \<Longrightarrow> lease_wf (bump_generation d s)"
  by (auto simp: lease_wf_def intro: bump_bound)

lemma bump_live [simp]: "live_token (bump_generation d s) tok = live_token s tok"
  by (simp add: live_token_def)

lemma bump_generation_le: "generation_of s d' \<le> generation_of (bump_generation d s) d'"
  by (cases "get_device s d")
     (auto simp: generation_bump bump_generation_def generation_of_def get_device_upd_device
           split: option.splits)

lemma bump_fence: "fence_step s (bump_generation d s)"
  by (simp add: fence_step_def bump_generation_le)

text \<open>Generations of a device's leases never exceed the counter.\<close>

lemma lease_device:
  assumes "lease_wf s" "l \<in> set (leases s)"
  obtains v where "get_device s (l_device_id l) = Some v" "l_generation l \<le> d_lease_generation v"
proof -
  from assms obtain v where v: "v \<in> set (devices s)" "d_id v = l_device_id l"
    "l_generation l \<le> d_lease_generation v" by (auto simp: lease_wf_def gen_bound_def)
  have "distinct (map d_id (devices s))" using assms(1) by (simp add: lease_wf_def)
  from first_row_map_key [OF this v(1,2)] have "get_device s (l_device_id l) = Some v"
    by (simp add: get_device_def)
  with v(3) show thesis by (rule that [rotated])
qed

lemma lease_generation_le:
  assumes "lease_wf s" "l \<in> set (leases s)"
  shows "l_generation l \<le> generation_of s (l_device_id l)"
  using assms by (auto simp: generation_of_def elim: lease_device)

lemma fresh_generation:
  assumes "lease_wf s" "l \<in> set (leases s)" "generation_of s d < g"
  shows "l_fencing_token l \<noteq> fencing_token d g"
proof
  assume eq: "l_fencing_token l = fencing_token d g"
  from assms(1,2) have "token_ok l" by (simp add: lease_wf_def)
  with eq have "l_device_id l = d" "l_generation l = g" by (auto simp: token_ok_def)
  with lease_generation_le [OF assms(1,2)] assms(3) show False by simp
qed

subsection \<open>A fresh generation for an ACTIVE lease\<close>

definition renews :: "nat \<Rightarrow> nat \<Rightarrow> (lease_row \<Rightarrow> lease_row) \<Rightarrow> bool" where
  \<comment> \<open>\<open>f\<close> gives a lease of device \<open>d\<close> the generation \<open>g\<close> and its token\<close>
  "renews d g f \<longleftrightarrow>
     (\<forall>l. l_id (f l) = l_id l \<and> l_device_id (f l) = l_device_id l
          \<and> l_generation (f l) = g \<and> l_fencing_token (f l) = fencing_token d g)"

lemma distinct_map_upd_single:
  assumes "distinct (map k t)" "\<And>r. r \<in> set t \<Longrightarrow> k r \<noteq> x" "\<And>r. P r \<Longrightarrow> k (f r) = x"
    and "length (filter P t) \<le> 1"
  shows "distinct (map k (upd_where P f t))"
  using assms
proof (induction t)
  case Nil
  then show ?case by simp
next
  case (Cons a t)
  show ?case
  proof (cases "P a")
    case True
    with Cons.prems(4) have np: "filter P t = []" by simp
    then have "upd_where P f t = t" by (intro upd_where_none) (simp add: filter_empty_conv)
    with True Cons.prems show ?thesis by (auto simp: upd_where_Cons)
  next
    case False
    have "distinct (map k (upd_where P f t))" using Cons False by auto
    moreover have "k a \<notin> set (map k (upd_where P f t))"
      using Cons.prems by (auto simp: set_upd_where)
    ultimately show ?thesis using False by (simp add: upd_where_Cons)
  qed
qed

lemma renew_wf:
  assumes wf: "lease_wf s" and l0: "l0 \<in> set (leases s)" "l_status l0 = LS_ACTIVE" "l_id l0 = i"
    and d: "l_device_id l0 = d" and g: "g = Suc (generation_of s d)" and f: "renews d g f"
  shows "lease_wf (upd_lease i f (bump_generation d s))"
proof -
  let ?P = "\<lambda>l. l_id l = i"
  have only: "l = l0" if "l \<in> set (leases s)" "l_id l = i" for l
    using lease_wf_id_unique [OF wf that(1) l0(1)] that l0 by simp
  have ids: "map l_id (upd_where ?P f (leases s)) = map l_id (leases s)"
    using f by (auto simp: renews_def intro!: map_upd_where)
  have one: "length (filter ?P (leases s)) \<le> 1"
    using wf filter_key_single [of l_id "leases s" l0] l0 by (simp add: lease_wf_def)
  have toks: "distinct (map l_fencing_token (upd_where ?P f (leases s)))"
    using wf f one fresh_generation [OF wf, of _ d g] g
    by (intro distinct_map_upd_single [where x = "fencing_token d g"])
       (auto simp: lease_wf_def renews_def)
  have act: "length (filter (active_on e) (upd_where ?P f (leases s))) \<le> 1" for e
  proof -
    have "length (filter (active_on e) (upd_where ?P f (leases s))) \<le> length (filter (active_on e) (leases s))"
    proof (rule length_filter_upd_where)
      fix r assume "r \<in> set (leases s)" "l_id r = i" and fr: "active_on e (f r)"
      with only have "r = l0" by blast
      with fr f l0(2) show "active_on e r" by (simp add: active_on_def renews_def)
    qed
    also have "\<dots> \<le> 1" using wf by (simp add: lease_wf_def one_active_def)
    finally show ?thesis .
  qed
  obtain v where v: "get_device s d = Some v"
    using lease_device [OF wf l0(1)] d by blast
  have gen: "generation_of (bump_generation d s) d = g" using generation_bump [OF v] g by simp
  have rows: "l_id l < next_lease_id s \<and> token_ok l \<and> gen_bound (devices (bump_generation d s)) l"
    if l: "l \<in> set (upd_where ?P f (leases s))" for l
    using l
  proof (cases rule: in_upd_whereE)
    case 1
    with wf show ?thesis by (auto simp: lease_wf_def intro: bump_bound)
  next
    case (2 l1)
    with only have "l1 = l0" by simp
    with 2 f d have fl: "l_id l = i" "l_device_id l = d" "l_generation l = g"
      "l_fencing_token l = fencing_token d g" using l0 by (auto simp: renews_def)
    have "get_device (bump_generation d s) d \<noteq> None"
      using v by (simp add: bump_generation_def get_device_upd_device)
    then obtain v' where v': "get_device (bump_generation d s) d = Some v'" by auto
    with gen have "d_lease_generation v' = g" by (simp add: generation_of_def)
    with get_device_Some [OF v'] fl have "gen_bound (devices (bump_generation d s)) l"
      unfolding gen_bound_def by (intro bexI [of _ v']) simp_all
    moreover have "l_id l < next_lease_id s" using wf fl(1) l0 by (auto simp: lease_wf_def)
    ultimately show ?thesis using fl by (simp add: token_ok_def)
  qed
  let ?t = "upd_lease i f (bump_generation d s)"
  have t: "leases ?t = upd_where ?P f (leases s)" "next_lease_id ?t = next_lease_id s"
    "devices ?t = devices (bump_generation d s)" by (simp_all add: upd_lease_def)
  have ds: "distinct (map d_id (devices (bump_generation d s)))" using wf by (simp add: lease_wf_def)
  show ?thesis
    unfolding lease_wf_def one_active_def t
    using wf ids toks act rows ds by (simp add: lease_wf_def)
qed

lemma renew_fence:
  assumes wf: "lease_wf s" and v: "get_device s d = Some v"
    and g: "g = Suc (generation_of s d)" and f: "renews d g f"
  shows "fence_step s (upd_lease i f (bump_generation d s))"
proof -
  have "live_token s (fencing_token e h)"
    if "h \<le> generation_of s e" "live_token (upd_lease i f (bump_generation d s)) (fencing_token e h)" for e h
  proof -
    from that(2) obtain l where l: "l \<in> set (upd_where (\<lambda>l. l_id l = i) f (leases s))"
      "active_lease l" "l_fencing_token l = fencing_token e h"
      by (auto simp: live_token_def upd_lease_def)
    from l(1) show ?thesis
    proof (cases rule: in_upd_whereE)
      case 1
      with l show ?thesis by (auto simp: live_token_def)
    next
      case (2 l0)
      with f l(3) have "fencing_token e h = fencing_token d g" by (simp add: renews_def)
      with that(1) g show ?thesis by simp
    qed
  qed
  moreover have "generation_of s e \<le> generation_of (upd_lease i f (bump_generation d s)) e" for e
    using bump_generation_le [of s e d] by (simp add: upd_lease_leases)
  ultimately show ?thesis by (auto simp: fence_step_def)
qed

subsection \<open>Inserting a lease with a fresh generation\<close>

lemma insert_wf:
  assumes wf: "lease_wf s" and v: "get_device s d = Some v"
    and free: "get_active_lease s d = None"
    and l: "l_device_id l = d" "l_generation l = Suc (generation_of s d)"
      "l_fencing_token l = fencing_token d (Suc (generation_of s d))"
  shows "lease_wf (insert_lease l (bump_generation d s))"
proof -
  let ?l = "l\<lparr>l_id := next_lease_id s\<rparr>"
  have act: "length (filter (active_on e) (leases s @ [?l])) \<le> 1" for e
  proof (cases "active_on e ?l")
    case True
    then have "e = d" using l by (simp add: active_on_def)
    with free have "filter (active_on e) (leases s) = []"
      by (simp add: get_active_lease_None filter_empty_conv)
    then show ?thesis by simp
  next
    case False
    with wf show ?thesis by (simp add: lease_wf_def one_active_def)
  qed
  have "l_fencing_token x \<noteq> fencing_token d (Suc (generation_of s d))" if "x \<in> set (leases s)" for x
    using fresh_generation [OF wf that] by blast
  then have "fencing_token d (Suc (generation_of s d)) \<notin> l_fencing_token ` set (leases s)"
    by (metis (no_types, lifting) imageE)
  then have "l_fencing_token ?l \<notin> set (map l_fencing_token (leases s))"
    using l(3) by simp
  moreover have "\<forall>x\<in>set (leases s). l_id x < next_lease_id s" using wf by (simp add: lease_wf_def)
  moreover have "token_ok ?l" using l by (simp add: token_ok_def)
  moreover have "gen_bound (devices (bump_generation d s)) ?l"
  proof -
    obtain v' where v': "get_device (bump_generation d s) d = Some v'"
      using v by (simp add: bump_generation_def get_device_upd_device)
    have "d_lease_generation v' = Suc (generation_of s d)"
      using generation_bump [OF v, of d] v' by (simp add: generation_of_def)
    with v' l show ?thesis unfolding gen_bound_def by (auto dest: get_device_Some)
  qed
  ultimately show ?thesis
    using wf act by (auto simp: lease_wf_def insert_lease_def one_active_def less_Suc_eq intro: bump_bound)
qed

lemma insert_fence:
  assumes "get_device s d = Some v" and "l_fencing_token l = fencing_token d (Suc (generation_of s d))"
  shows "fence_step s (insert_lease l (bump_generation d s))"
proof -
  have g: "generation_of (insert_lease l (bump_generation d s)) e = generation_of (bump_generation d s) e" for e
    by (simp add: insert_lease_def generation_of_def get_device_def)
  have "live_token s (fencing_token e h)"
    if "h \<le> generation_of s e" "live_token (insert_lease l (bump_generation d s)) (fencing_token e h)" for e h
    using that assms(2) by (auto simp: live_token_def insert_lease_def active_lease_def)
  with bump_generation_le show ?thesis by (auto simp: fence_step_def g)
qed

end
