(* ===== verification/Job_State_Machine.thy ===== *)
theory Job_State_Machine
  imports Lease_Table
begin

section \<open>The job and plan-run state machines (services/state\_machine.py)\<close>

text \<open>
  \<open>VALID_TRANSITIONS\<close> and \<open>PLAN_RUN_VALID_TRANSITIONS\<close> as tables, the two \<open>transition\<close>
  functions with the exception as the left side of a sum, and the step relations they induce.
  The \<open>ValueError\<close> branch for an unknown status text has no counterpart: the status columns are
  PostgreSQL enums of exactly these values.
\<close>

datatype transition_error = InvalidTransitionError

definition VALID_TRANSITIONS :: "(job_status \<times> job_status list) list" where
  "VALID_TRANSITIONS =
    [(J_PENDING, [J_RUNNING, J_FAILED, J_ABORTED]),
     (J_RUNNING, [J_COMPLETED, J_FAILED, J_ABORTED, J_UNKNOWN]),
     (J_UNKNOWN, [J_RUNNING, J_FAILED]),
     (J_FAILED, []), (J_COMPLETED, []), (J_ABORTED, [])]"

definition valid_transition :: "job_status \<Rightarrow> job_status \<Rightarrow> bool" where
  "valid_transition a b =
     (case map_of VALID_TRANSITIONS a of None \<Rightarrow> False | Some ns \<Rightarrow> b \<in> set ns)"

definition job_transition ::
  "job_row \<Rightarrow> job_status \<Rightarrow> string \<Rightarrow> time \<Rightarrow> transition_error + job_row" where
  "job_transition job new reason now =
     (if \<not> valid_transition (j_status job) new then Inl InvalidTransitionError
      else
        let j1 = job\<lparr>j_status := new, j_status_reason := reason\<rparr>;
            j2 = (if new \<in> {J_COMPLETED, J_FAILED, J_ABORTED}
                  then j1\<lparr>j_execution_state := None\<rparr> else j1)
        in Inr (j2\<lparr>j_updated_at := now\<rparr>))"

definition PLAN_RUN_VALID_TRANSITIONS :: "(plan_run_status \<times> plan_run_status list) list" where
  "PLAN_RUN_VALID_TRANSITIONS =
    [(R_QUEUED, [R_PRECHECK, R_FAILED]),
     (R_PRECHECK, [R_QUEUED, R_RUNNING, R_FAILED]),
     (R_RUNNING, [R_SUCCESS, R_PARTIAL_SUCCESS, R_FAILED]),
     (R_FAILED, [R_QUEUED]),
     (R_SUCCESS, []), (R_PARTIAL_SUCCESS, [])]"

definition valid_run_transition :: "plan_run_status \<Rightarrow> plan_run_status \<Rightarrow> bool" where
  "valid_run_transition a b =
     (case map_of PLAN_RUN_VALID_TRANSITIONS a of None \<Rightarrow> False | Some ns \<Rightarrow> b \<in> set ns)"

definition plan_run_transition :: "run_row \<Rightarrow> plan_run_status \<Rightarrow> transition_error + run_row" where
  "plan_run_transition run new =
     (if \<not> valid_run_transition (r_status run) new then Inl InvalidTransitionError
      else Inr (run\<lparr>r_status := new\<rparr>))"

subsection \<open>Facts about single transitions\<close>

lemma valid_transition_simps [simp]:
  "valid_transition J_PENDING b \<longleftrightarrow> b \<in> {J_RUNNING, J_FAILED, J_ABORTED}"
  "valid_transition J_RUNNING b \<longleftrightarrow> b \<in> {J_COMPLETED, J_FAILED, J_ABORTED, J_UNKNOWN}"
  "valid_transition J_UNKNOWN b \<longleftrightarrow> b \<in> {J_RUNNING, J_FAILED}"
  "\<not> valid_transition J_FAILED b" "\<not> valid_transition J_COMPLETED b"
  "\<not> valid_transition J_ABORTED b"
  by (simp_all add: valid_transition_def VALID_TRANSITIONS_def)

lemma valid_run_transition_simps [simp]:
  "valid_run_transition R_QUEUED b \<longleftrightarrow> b \<in> {R_PRECHECK, R_FAILED}"
  "valid_run_transition R_PRECHECK b \<longleftrightarrow> b \<in> {R_QUEUED, R_RUNNING, R_FAILED}"
  "valid_run_transition R_RUNNING b \<longleftrightarrow> b \<in> {R_SUCCESS, R_PARTIAL_SUCCESS, R_FAILED}"
  "valid_run_transition R_FAILED b \<longleftrightarrow> b = R_QUEUED"
  "\<not> valid_run_transition R_SUCCESS b" "\<not> valid_run_transition R_PARTIAL_SUCCESS b"
  by (simp_all add: valid_run_transition_def PLAN_RUN_VALID_TRANSITIONS_def)

lemma transition_from_terminal: "terminal_status a \<Longrightarrow> \<not> valid_transition a b"
  by (cases a) auto

lemma job_transition_Inr:
  assumes "job_transition job new reason now = Inr job'"
  shows "valid_transition (j_status job) new" "j_status job' = new" "j_id job' = j_id job"
    "j_device_id job' = j_device_id job" "j_host_id job' = j_host_id job"
    "j_plan_run_id job' = j_plan_run_id job" "j_status_reason job' = reason"
    "j_ended_at job' = j_ended_at job"
    "j_terminal_payload_digest job' = j_terminal_payload_digest job"
    "j_disarm_results job' = j_disarm_results job"
    "j_pipeline_def job' = j_pipeline_def job"
    "terminal_status new \<Longrightarrow> j_execution_state job' = None"
    "\<not> terminal_status new \<Longrightarrow> j_execution_state job' = j_execution_state job"
  using assms by (auto simp: job_transition_def Let_def terminal_status_def TERMINAL_JOB_STATUSES_def
      split: if_splits)

lemma job_transition_cases:
  "job_transition job new reason now = Inl InvalidTransitionError \<and> \<not> valid_transition (j_status job) new
   \<or> (\<exists>job'. job_transition job new reason now = Inr job' \<and> valid_transition (j_status job) new)"
  by (simp add: job_transition_def Let_def)

lemma job_transition_Inr_iff:
  "(\<exists>job'. job_transition job new reason now = Inr job') \<longleftrightarrow> valid_transition (j_status job) new"
  by (simp add: job_transition_def Let_def)

subsection \<open>Histories\<close>

text \<open>A history of a status column: the statuses after each successful transition.\<close>

inductive job_history :: "job_status \<Rightarrow> job_status list \<Rightarrow> job_status \<Rightarrow> bool" where
  start: "job_history a [] a"
| step: "job_history a h b \<Longrightarrow> valid_transition b c \<Longrightarrow> job_history a (h @ [c]) c"

inductive_cases job_history_snocE: "job_history a (h @ [c]) d"

inductive run_history :: "plan_run_status \<Rightarrow> plan_run_status list \<Rightarrow> plan_run_status \<Rightarrow> bool" where
  start: "run_history a [] a"
| step: "run_history a h b \<Longrightarrow> valid_run_transition b c \<Longrightarrow> run_history a (h @ [c]) c"

text \<open>Writing the transitions of a list of requests, as the services do one after the other.\<close>

fun apply_transitions :: "job_row \<Rightarrow> (job_status \<times> string \<times> time) list \<Rightarrow> transition_error + job_row" where
  "apply_transitions job [] = Inr job"
| "apply_transitions job ((new, reason, now) # rs) =
     (case job_transition job new reason now of
        Inl e \<Rightarrow> Inl e | Inr job' \<Rightarrow> apply_transitions job' rs)"

lemma history_last: "job_history a h b \<Longrightarrow> b = (if h = [] then a else last h)"
  by (induction rule: job_history.induct) auto

lemma history_terminal_stuck:
  assumes "job_history a h b" "terminal_status a"
  shows "h = [] \<and> b = a"
  using assms by (induction rule: job_history.induct) (auto simp: transition_from_terminal)

lemma history_Cons:
  assumes "job_history b h c" "valid_transition a b"
  shows "job_history a (b # h) c"
  using assms
proof (induction rule: job_history.induct)
  case (start b)
  then show ?case using job_history.step [OF job_history.start, of a b] by simp
next
  case (step b h c d)
  then show ?case using job_history.step [of a "b # h" c d] by simp
qed

lemma apply_transitions_history:
  "apply_transitions job rs = Inr job' \<Longrightarrow> job_history (j_status job) (map fst rs) (j_status job')"
proof (induction job rs rule: apply_transitions.induct)
  case (1 job)
  then show ?case by (simp add: job_history.start)
next
  case (2 job new reason now rs)
  then obtain j1 where j1: "job_transition job new reason now = Inr j1"
    and rest: "apply_transitions j1 rs = Inr job'" by (auto split: sum.splits)
  from "2.IH" [OF j1 rest] have "job_history (j_status j1) (map fst rs) (j_status job')" .
  with job_transition_Inr(1,2) [OF j1] show ?case by (auto intro: history_Cons)
qed

lemma completed_predecessor:
  assumes "job_history a h J_COMPLETED" "h \<noteq> []"
  shows "a = J_RUNNING \<and> h = [J_COMPLETED] \<or> (\<exists>h'. h = h' @ [J_RUNNING, J_COMPLETED])"
  using assms
proof cases
  case start
  with assms(2) show ?thesis by simp
next
  case (step h0 b)
  have "b = J_RUNNING" using step(3) by (cases b) auto
  with step history_last [OF step(2)] have "h0 = [] \<and> a = J_RUNNING \<or> (\<exists>h'. h0 = h' @ [J_RUNNING])"
    by (metis append_butlast_last_id)
  with step show ?thesis by auto
qed

text \<open>
  A job's status column accepts a sequence of transitions only along its history.  A terminal
  status accepts none, so facts written at termination stay.
\<close>

text \<open>
  Terminal job statuses are final: once a job is COMPLETED, FAILED or ABORTED, no sequence of
  requested transitions, whatever their targets, is accepted unless it is empty, and then the row
  is unchanged.  (VALID\_TRANSITIONS and JobStateMachine.transition.)
\<close>

theorem terminal_jobs_are_final:
  assumes "terminal_status (j_status job)"
  shows "apply_transitions job rs = (if rs = [] then Inr job else Inl InvalidTransitionError)"
  using assms by (cases "(job, rs)" rule: apply_transitions.cases)
    (auto simp: job_transition_def transition_from_terminal)

text \<open>
  A job can only become COMPLETED from RUNNING: in every accepted sequence of transitions that
  ends COMPLETED, the status right before is RUNNING.  In particular a fenced UNKNOWN job must first
  be recovered to RUNNING, whatever the sequence.
\<close>

theorem completed_only_from_running:
  assumes "apply_transitions job rs = Inr job'" "j_status job' = J_COMPLETED" "rs \<noteq> []"
  shows "map fst rs = [J_COMPLETED] \<and> j_status job = J_RUNNING
         \<or> (\<exists>h. map fst rs = h @ [J_RUNNING, J_COMPLETED])"
  using completed_predecessor [of "j_status job" "map fst rs"] apply_transitions_history [OF assms(1)]
    assms(2,3) by auto

definition sample_job :: job_row where
  "sample_job = \<lparr>j_id = 7, j_plan_run_id = 3, j_plan_id = 2, j_device_id = 5,
     j_host_id = Some ''h1'', j_status = J_PENDING, j_status_reason = [],
     j_pipeline_def = JObj [], j_created_at = 1, j_started_at = None, j_ended_at = None,
     j_updated_at = 1, j_terminal_payload_digest = None, j_watcher_started_at = None,
     j_watcher_stopped_at = None, j_watcher_capability = None, j_log_signal_count = 0,
     j_disarm_results = JNull, j_disarm_guard = None, j_execution_state = None,
     j_last_execution_heartbeat_at = None, j_last_progress_at = None, j_patrol_cycle_count = 0,
     j_last_patrol_heartbeat_at = None, j_current_patrol_step = None, j_next_retry_at = None,
     j_patrol_success_count = 0, j_patrol_failed_count = 0, j_failure_streak = 0, j_manual_action = None\<rparr>"

lemma terminal_jobs_are_final_witness:
  "apply_transitions (sample_job\<lparr>j_status := J_FAILED\<rparr>) [(J_RUNNING, ''retry'', 9)]
   = Inl InvalidTransitionError"
proof -
  have "terminal_status (j_status (sample_job\<lparr>j_status := J_FAILED\<rparr>))" by simp
  from terminal_jobs_are_final [OF this, of "[(J_RUNNING, ''retry'', 9)]"] show ?thesis by simp
qed

lemma completed_only_from_running_witness:
  "\<exists>job'. apply_transitions (sample_job\<lparr>j_status := J_UNKNOWN\<rparr>)
       [(J_RUNNING, ''recovered'', 5), (J_COMPLETED, [], 6)] = Inr job'
     \<and> (\<exists>h. [J_RUNNING, J_COMPLETED] = h @ [J_RUNNING, J_COMPLETED])"
proof -
  let ?j = "sample_job\<lparr>j_status := J_UNKNOWN\<rparr>"
  let ?rs = "[(J_RUNNING, ''recovered'', 5), (J_COMPLETED, [], 6)] :: (job_status \<times> string \<times> time) list"
  obtain job' where j: "apply_transitions ?j ?rs = Inr job'" "j_status job' = J_COMPLETED"
    by (simp add: job_transition_def sample_job_def)
  from completed_only_from_running [OF j] have "\<exists>h. map fst ?rs = h @ [J_RUNNING, J_COMPLETED]"
    by simp
  with j show ?thesis by simp
qed

lemma run_history_through:
  assumes "run_history a h b" "a \<in> {R_QUEUED, R_FAILED}"
  shows "b \<in> {R_QUEUED, R_FAILED, R_PRECHECK} \<or> (R_PRECHECK \<in> set h \<and> R_RUNNING \<in> set h)"
    and "b = R_PRECHECK \<Longrightarrow> R_PRECHECK \<in> set h"
  using assms
proof (induction rule: run_history.induct)
  case (start a)
  {
    case 1
    then show ?case by auto
  next
    case 2
    then show ?case by auto
  }
next
  case (step a h b c)
  {
    case 1
    with step show ?case by (cases b) auto
  next
    case 2
    then show ?case by simp
  }
qed

text \<open>
  A queued plan run (or a failed one being retried) is never reported as succeeded without
  having been admitted: on every history to SUCCESS or PARTIAL\_SUCCESS it went through PRECHECK
  and through RUNNING.
\<close>

theorem plan_run_success_needs_admission:
  assumes "run_history a h b" "a \<in> {R_QUEUED, R_FAILED}" "b \<in> {R_SUCCESS, R_PARTIAL_SUCCESS}"
  shows "R_PRECHECK \<in> set h \<and> R_RUNNING \<in> set h"
  using run_history_through(1) [OF assms(1,2)] assms(3) by auto

lemma plan_run_success_needs_admission_witness:
  "run_history R_QUEUED [R_PRECHECK, R_RUNNING, R_SUCCESS] R_SUCCESS
   \<and> R_PRECHECK \<in> set [R_PRECHECK, R_RUNNING, R_SUCCESS]"
proof -
  have "run_history R_QUEUED ([] @ [R_PRECHECK]) R_PRECHECK"
    by (rule run_history.step [OF run_history.start]) simp
  then have "run_history R_QUEUED (([] @ [R_PRECHECK]) @ [R_RUNNING]) R_RUNNING"
    by (rule run_history.step) simp
  then have "run_history R_QUEUED ((([] @ [R_PRECHECK]) @ [R_RUNNING]) @ [R_SUCCESS]) R_SUCCESS"
    by (rule run_history.step) simp
  then have h: "run_history R_QUEUED [R_PRECHECK, R_RUNNING, R_SUCCESS] R_SUCCESS" by simp
  from plan_run_success_needs_admission [OF h] h show ?thesis by simp
qed

end
