(* ===== verification/Lease_Manager.thy ===== *)
theory Lease_Manager
  imports Job_State_Machine
begin

section \<open>The device lease manager (services/lease\_manager.py)\<close>

text \<open>
  Acquire, extend and release of device leases.  The retirement check is the WHERE clause of the
  generation increment; the savepoint is the database returned unchanged.  \<open>flush\<close> enforces the
  partial unique index, so the IntegrityError branch is present although the locked check before it
  leaves nothing for it to catch.
\<close>

datatype lease_error = LeaseValueError

definition DEFAULT_LEASE_SECONDS :: int where "DEFAULT_LEASE_SECONDS = 600"

definition flush_lease :: "lease_row \<Rightarrow> db \<Rightarrow> db option" where
  "flush_lease l s =
     (if l_status l = LS_ACTIVE \<and> get_active_lease s (l_device_id l) \<noteq> None then None
      else Some (insert_lease l s))"

definition lease_contract_ok :: "lease_type \<Rightarrow> nat option \<Rightarrow> string option \<Rightarrow> string option \<Rightarrow> bool" where
  "lease_contract_ok lt job_id reason holder =
     (case lt of
        LT_MAINTENANCE \<Rightarrow> reason \<notin> {None, Some []} \<and> holder \<notin> {None, Some []}
      | _ \<Rightarrow> job_id \<noteq> None)"

definition new_lease ::
  "nat \<Rightarrow> string option \<Rightarrow> lease_type \<Rightarrow> string \<Rightarrow> nat option \<Rightarrow> string option \<Rightarrow> string option
   \<Rightarrow> nat \<Rightarrow> time \<Rightarrow> time \<Rightarrow> lease_row" where
  "new_lease device_id host_id lt agent job_id reason holder gen now expires =
     \<lparr>l_id = 0, l_device_id = device_id, l_job_id = job_id, l_host_id = host_id, l_type = lt,
      l_status = LS_ACTIVE, l_fencing_token = fencing_token device_id gen, l_generation = gen,
      l_agent_instance_id = agent, l_reason = reason, l_holder = holder,
      l_acquired_at = now, l_renewed_at = now, l_expires_at = expires, l_released_at = None\<rparr>"

definition acquire_lease ::
  "db \<Rightarrow> nat \<Rightarrow> string \<Rightarrow> lease_type \<Rightarrow> string \<Rightarrow> nat option \<Rightarrow> string option \<Rightarrow> string option
   \<Rightarrow> int \<Rightarrow> time \<Rightarrow> lease_error + (lease_row option \<times> db)" where
  "acquire_lease s device_id host_id lt agent job_id reason holder lease_seconds now =
     (if \<not> lease_contract_ok lt job_id reason holder then Inl LeaseValueError
      else
        (case get_device s device_id of
           None \<Rightarrow> Inr (None, s)
         | Some device \<Rightarrow>
             if d_retired_at device \<noteq> None then Inr (None, s)
             else
               let s1 = bump_generation device_id s;
                   new_gen = generation_of s1 device_id
               in (case get_active_lease s1 device_id of
                     Some _ \<Rightarrow> Inr (None, s)
                   | None \<Rightarrow>
                       let lease = new_lease device_id (Some host_id) lt agent job_id reason holder
                                     new_gen now (now + lease_seconds)
                       in (case flush_lease lease s1 of
                             None \<Rightarrow> Inr (None, s)
                           | Some s2 \<Rightarrow> Inr (Some (lease\<lparr>l_id := next_lease_id s1\<rparr>), s2)))))"

text \<open>UPDATE \<dots> WHERE: the returned flag says whether a row matched (\<open>rowcount\<close>).\<close>

definition update_leases :: "(lease_row \<Rightarrow> bool) \<Rightarrow> (lease_row \<Rightarrow> lease_row) \<Rightarrow> db \<Rightarrow> bool \<times> db" where
  "update_leases P f s = (list_ex P (leases s), upd_leases P f s)"

definition typed_lease_on :: "nat \<Rightarrow> nat \<Rightarrow> lease_type \<Rightarrow> lease_row \<Rightarrow> bool" where
  "typed_lease_on device_id job_id lt l =
     (l_device_id l = device_id \<and> l_job_id l = Some job_id \<and> l_type l = lt \<and> l_status l = LS_ACTIVE)"

definition extend_lease :: "db \<Rightarrow> nat \<Rightarrow> nat \<Rightarrow> lease_type \<Rightarrow> int \<Rightarrow> time \<Rightarrow> bool \<times> db" where
  "extend_lease s device_id job_id lt ttl now =
     update_leases (\<lambda>l. typed_lease_on device_id job_id lt l \<and> l_expires_at l > now)
       (\<lambda>l. l\<lparr>l_renewed_at := now, l_expires_at := now + ttl\<rparr>) s"

definition mark_released :: "time \<Rightarrow> lease_row \<Rightarrow> lease_row" where
  "mark_released now l = l\<lparr>l_status := LS_RELEASED, l_released_at := Some now\<rparr>"

definition release_lease :: "db \<Rightarrow> nat \<Rightarrow> nat \<Rightarrow> lease_type \<Rightarrow> time \<Rightarrow> bool \<times> db" where
  "release_lease s device_id job_id lt now =
     update_leases (typed_lease_on device_id job_id lt) (mark_released now) s"

definition release_lease_sync :: "db \<Rightarrow> nat \<Rightarrow> nat \<Rightarrow> lease_type \<Rightarrow> time \<Rightarrow> bool \<times> db" where
  "release_lease_sync s device_id job_id lt now =
     update_leases (typed_lease_on device_id job_id lt) (mark_released now) s"

subsection \<open>Touching updates\<close>

lemma touches_release [simp]: "touches (mark_released now)"
  by (simp add: touches_def mark_released_def)

lemma touches_extend [simp]: "touches (\<lambda>l. l\<lparr>l_renewed_at := a, l_expires_at := b\<rparr>)"
  by (simp add: touches_def)

lemma update_leases_snd [simp]: "snd (update_leases P f s) = upd_leases P f s"
  by (simp add: update_leases_def)

lemma release_lease_wf [lease_inv]: "lease_wf s \<Longrightarrow> lease_wf (snd (release_lease s d j lt now))"
  by (simp add: release_lease_def touch_wf)

lemma release_lease_fence [lease_inv]: "fence_step s (snd (release_lease s d j lt now))"
  by (simp add: release_lease_def touch_fence)

lemma extend_lease_wf [lease_inv]: "lease_wf s \<Longrightarrow> lease_wf (snd (extend_lease s d j lt ttl now))"
  by (simp add: extend_lease_def touch_wf)

lemma extend_lease_fence [lease_inv]: "fence_step s (snd (extend_lease s d j lt ttl now))"
  by (simp add: extend_lease_def touch_fence)

subsection \<open>Acquire\<close>

lemma acquire_lease_cases:
  assumes "acquire_lease s d h lt ag job reason holder secs now = Inr (r, t)"
  obtains (refused) "r = None" "t = s"
  | (acquired) v l where "r = Some l" "get_device s d = Some v" "d_retired_at v = None"
      "get_active_lease s d = None"
      "l = (new_lease d (Some h) lt ag job reason holder (Suc (generation_of s d)) now (now + secs))
           \<lparr>l_id := next_lease_id s\<rparr>"
      "t = insert_lease (new_lease d (Some h) lt ag job reason holder (Suc (generation_of s d)) now (now + secs))
             (bump_generation d s)"
proof -
  have act: "get_active_lease (bump_generation d s) d = get_active_lease s d"
    by (simp add: get_active_lease_def)
  show ?thesis
  proof (cases "get_device s d")
    case None
    with assms refused show ?thesis by (auto simp: acquire_lease_def split: if_splits)
  next
    case (Some v)
    show ?thesis
    proof (cases "d_retired_at v = None \<and> get_active_lease s d = None")
      case False
      with assms Some refused show ?thesis
        by (auto simp: acquire_lease_def Let_def act split: if_splits option.splits)
    next
      case True
      let ?l = "new_lease d (Some h) lt ag job reason holder (Suc (generation_of s d)) now (now + secs)"
      have gen: "generation_of (bump_generation d s) d = Suc (generation_of s d)"
        using generation_bump [OF Some] by simp
      have "flush_lease ?l (bump_generation d s) = Some (insert_lease ?l (bump_generation d s))"
        using True by (simp add: flush_lease_def act new_lease_def)
      with assms Some True gen have "r = Some (?l\<lparr>l_id := next_lease_id s\<rparr>)"
        "t = insert_lease ?l (bump_generation d s)"
        by (auto simp: acquire_lease_def Let_def act split: if_splits)
      with Some True acquired show ?thesis by blast
    qed
  qed
qed

lemma acquire_lease_wf [lease_inv]:
  assumes "lease_wf s" "acquire_lease s d h lt ag job reason holder secs now = Inr (r, t)"
  shows "lease_wf t"
  using assms(2)
proof (cases rule: acquire_lease_cases)
  case refused
  with assms(1) show ?thesis by simp
next
  case (acquired v l)
  with assms(1) show ?thesis by (simp add: insert_wf new_lease_def)
qed

lemma acquire_lease_fence [lease_inv]:
  assumes "acquire_lease s d h lt ag job reason holder secs now = Inr (r, t)"
  shows "fence_step s t"
  using assms
proof (cases rule: acquire_lease_cases)
  case refused
  then show ?thesis by simp
next
  case (acquired v l)
  then show ?thesis by (simp add: insert_fence new_lease_def)
qed

lemma get_active_insert:
  assumes "get_active_lease s d = None" "l_device_id l = d" "l_status l = LS_ACTIVE"
  shows "get_active_lease (insert_lease l (bump_generation d s)) d = Some (l\<lparr>l_id := next_lease_id s\<rparr>)"
  using assms by (simp add: get_active_lease_def insert_lease_def active_on_def)

text \<open>
  Acquiring a lease succeeds exactly when the device exists, is not retired and has no ACTIVE
  lease, expired ones included; then the new lease is the device's active lease, its generation is
  one above the device's, and its token occurs in no earlier lease.  Otherwise the database is
  unchanged.
\<close>

theorem acquire_lease_functional:
  assumes wf: "lease_wf s"
    and ok: "lease_contract_ok lt job reason holder"
    and res: "acquire_lease s d h lt ag job reason holder secs now = Inr (r, t)"
  shows "(r \<noteq> None \<longleftrightarrow> (\<exists>v. get_device s d = Some v \<and> d_retired_at v = None)
              \<and> (\<forall>l\<in>set (leases s). l_device_id l = d \<longrightarrow> l_status l \<noteq> LS_ACTIVE))
         \<and> (r = None \<longrightarrow> t = s)
         \<and> (\<forall>l. r = Some l \<longrightarrow> get_active_lease t d = Some l
               \<and> l_generation l = Suc (generation_of s d)
               \<and> l_fencing_token l = fencing_token d (Suc (generation_of s d))
               \<and> l_expires_at l = now + secs \<and> l_job_id l = job \<and> l_type l = lt
               \<and> l_fencing_token l \<notin> l_fencing_token ` set (leases s))"
  using res
proof (cases rule: acquire_lease_cases)
  case refused
  have "\<not> ((\<exists>v. get_device s d = Some v \<and> d_retired_at v = None) \<and> get_active_lease s d = None)"
  proof
    assume "(\<exists>v. get_device s d = Some v \<and> d_retired_at v = None) \<and> get_active_lease s d = None"
    then obtain v where v: "get_device s d = Some v" "d_retired_at v = None" "get_active_lease s d = None"
      by blast
    then have "r \<noteq> None" using res ok
      by (auto simp: acquire_lease_def Let_def flush_lease_def new_lease_def get_active_lease_def)
    with refused show False by simp
  qed
  with refused show ?thesis by (auto simp: get_active_lease_None active_on_def)
next
  case (acquired v l)
  have "x \<in> set (leases s) \<Longrightarrow> l_fencing_token x \<noteq> fencing_token d (Suc (generation_of s d))" for x
    using fresh_generation [OF wf] by blast
  then have fresh: "fencing_token d (Suc (generation_of s d)) \<notin> l_fencing_token ` set (leases s)"
    by (metis (no_types, lifting) imageE)
  have "get_active_lease t d = Some l"
    using acquired get_active_insert [of s d] by (simp add: new_lease_def)
  moreover have "\<forall>l\<in>set (leases s). l_device_id l = d \<longrightarrow> l_status l \<noteq> LS_ACTIVE"
    using acquired(4) by (simp add: get_active_lease_None active_on_def)
  ultimately show ?thesis using acquired fresh by (simp add: new_lease_def)
qed

definition sample_device :: device_row where
  "sample_device = \<lparr>d_id = 5, d_serial = ''SN5'', d_host_id = Some ''h1'', d_model = Some ''MLD_LX2'',
     d_platform = Some ''MTK'', d_status = ''ONLINE'', d_adb_state = Some ''device'',
     d_adb_connected = Some True, d_lease_generation = 0, d_retired_at = None,
     d_return_state = [], d_last_seen = Some 90, d_build_display_id = None\<rparr>"

definition sample_host :: host_row where
  "sample_host = \<lparr>h_id = ''h1'', h_status = ''ONLINE'', h_retired_at = None,
     h_maintenance_until = None, h_maintenance_holder = [], h_boot_id = ''b1'',
     h_last_agent_instance_id = ''a1'', h_last_heartbeat = Some 90,
     h_hostname = ''lab1'', h_name = None, h_watcher_admin_active = True, h_extra = JNull\<rparr>"

definition sample_db :: db where
  "sample_db = \<lparr>hosts = [sample_host], devices = [sample_device], jobs = [sample_job], leases = [],
     debts = [], traces = [], runs = [], prhs = [], audits = [], pending_aggregation = [],
     next_lease_id = 1, next_debt_id = 1, next_trace_id = 1,
     targets = [], plans = [], plan_steps = [], scripts = [], pools = [], allocations = []\<rparr>"

lemma sample_db_wf: "lease_wf sample_db"
  by (simp add: lease_wf_def sample_db_def one_active_def)

lemma acquire_lease_functional_witness:
  "\<exists>l t. acquire_lease sample_db 5 ''h1'' LT_JOB ''a1'' (Some 7) None None 600 100 = Inr (Some l, t)
     \<and> get_active_lease t 5 = Some l \<and> l_generation l = 1"
proof -
  have ok: "lease_contract_ok LT_JOB (Some 7) None None" by (simp add: lease_contract_ok_def)
  obtain r t where res: "acquire_lease sample_db 5 ''h1'' LT_JOB ''a1'' (Some 7) None None 600 100 = Inr (r, t)"
    and some: "r \<noteq> None"
    by (simp add: acquire_lease_def lease_contract_ok_def sample_db_def sample_device_def get_device_def
        bump_generation_def upd_device_def upd_where_def get_active_lease_def flush_lease_def Let_def
        generation_of_def new_lease_def)
  have "generation_of sample_db 5 = 0"
    by (simp add: generation_of_def get_device_def sample_db_def sample_device_def)
  with acquire_lease_functional [OF sample_db_wf ok res] some res show ?thesis by auto
qed

lemma release_not_active:
  assumes "l \<in> set (leases (snd (release_lease s d j lt now)))"
  shows "\<not> typed_lease_on d j lt l"
proof -
  from assms have "l \<in> set (upd_where (typed_lease_on d j lt) (mark_released now) (leases s))"
    by (simp add: release_lease_def upd_leases_def)
  then show ?thesis
    by (cases rule: in_upd_whereE) (simp_all add: mark_released_def typed_lease_on_def)
qed

lemma released_old_active:
  assumes "l \<in> set (leases (snd (release_lease s d j lt now)))" "active_lease l"
  shows "l \<in> set (leases s)"
proof -
  from assms(1) have "l \<in> set (upd_where (typed_lease_on d j lt) (mark_released now) (leases s))"
    by (simp add: release_lease_def upd_leases_def)
  then show ?thesis using assms(2)
    by (cases rule: in_upd_whereE) (simp_all add: mark_released_def active_lease_def)
qed

text \<open>
  Release is idempotent: the first release answers whether such a lease was active, a second
  one answers False and changes nothing, and the asynchronous and the synchronous variant agree.
\<close>

theorem release_lease_idempotent:
  "release_lease (snd (release_lease s d j lt now)) d j lt later
     = (False, snd (release_lease s d j lt now))
   \<and> release_lease_sync s d j lt now = release_lease s d j lt now"
proof -
  let ?t = "snd (release_lease s d j lt now)"
  have none: "\<And>l. l \<in> set (leases ?t) \<Longrightarrow> \<not> typed_lease_on d j lt l" by (rule release_not_active)
  then have "upd_leases (typed_lease_on d j lt) (mark_released later) ?t = ?t"
    unfolding upd_leases_def by (subst upd_where_none) auto
  with none show ?thesis
    by (auto simp: release_lease_def release_lease_sync_def update_leases_def list_ex_iff)
qed

text \<open>A run of claims on one device, each released before the next: agents and job ids in order.\<close>

fun acquire_all :: "(string \<times> nat) list \<Rightarrow> nat \<Rightarrow> time \<Rightarrow> db \<Rightarrow> db" where
  "acquire_all [] d now s = s"
| "acquire_all ((ag, j) # rs) d now s =
     (case acquire_lease s d ag LT_JOB ag (Some j) None None DEFAULT_LEASE_SECONDS now of
        Inl e \<Rightarrow> acquire_all rs d now s
      | Inr (None, t) \<Rightarrow> acquire_all rs d now t
      | Inr (Some l, t) \<Rightarrow> acquire_all rs d now (snd (release_lease t d j LT_JOB now)))"

lemma acquire_all_inv:
  "lease_wf s \<Longrightarrow> lease_wf (acquire_all rs d now s) \<and> fence_step s (acquire_all rs d now s)"
proof (induction rs d now s rule: acquire_all.induct)
  case (1 d now s)
  then show ?case by simp
next
  case (2 ag j rs d now s)
  show ?case
  proof (cases "acquire_lease s d ag LT_JOB ag (Some j) None None DEFAULT_LEASE_SECONDS now")
    case (Inl e)
    with 2 show ?thesis by simp
  next
    case (Inr rt)
    obtain r t where rt: "rt = (r, t)" by (cases rt)
    note acq = Inr [unfolded rt]
    from acquire_lease_wf [OF "2.prems" acq] acquire_lease_fence [OF acq]
    have t: "lease_wf t" "fence_step s t" .
    show ?thesis
    proof (cases r)
      case None
      with 2 Inr rt t show ?thesis by (auto intro: fence_trans)
    next
      case (Some l)
      let ?t' = "snd (release_lease t d j LT_JOB now)"
      have "lease_wf ?t'" "fence_step s ?t'"
        using t release_lease_wf release_lease_fence fence_trans by blast+
      with 2 acq Some show ?thesis by (auto simp: rt Inr intro: fence_trans)
    qed
  qed
qed

lemma released_token_dead:
  assumes "lease_wf s" "get_job_lease s d j = Some l"
  shows "\<not> live_token (snd (release_lease s d j LT_JOB now)) (l_fencing_token l)"
proof
  let ?t = "snd (release_lease s d j LT_JOB now)"
  assume "live_token ?t (l_fencing_token l)"
  then obtain l' where l': "l' \<in> set (leases ?t)" "active_lease l'" "l_fencing_token l' = l_fencing_token l"
    by (auto simp: live_token_def)
  have l: "l \<in> set (leases s)" "job_lease_on d j l" using get_job_lease_Some [OF assms(2)] by auto
  from l' have "l' \<in> set (leases s)" by (rule_tac released_old_active)
  with l l'(3) assms(1) have "l' = l" by (auto simp: lease_wf_def dest: distinct_map_single)
  with release_not_active [OF l'(1)] l(2) show False
    by (simp add: typed_lease_on_def job_lease_on_def)
qed


definition leased_db :: db where
  "leased_db = sample_db\<lparr>devices := [sample_device\<lparr>d_lease_generation := 1\<rparr>],
     jobs := [sample_job\<lparr>j_status := J_RUNNING, j_started_at := Some 100\<rparr>],
     leases := [(new_lease 5 (Some ''h1'') LT_JOB ''a1'' (Some 7) None None 1 100 700)\<lparr>l_id := 1\<rparr>],
     next_lease_id := 2\<rparr>"

lemma leased_db_wf: "lease_wf leased_db"
  by (simp add: lease_wf_def leased_db_def sample_db_def sample_device_def new_lease_def one_active_def
      token_ok_def gen_bound_def)


end
