(* ===== verification/Job_Timeouts.thy ===== *)
theory Job_Timeouts
  imports Lease_Manager
begin

section \<open>Timeouts, disarm grace and abort subjects\<close>

text \<open>
  The pure judgements of core/job\_timeout\_config.py and of services/plan\_run\_context.py: how long
  a RUNNING job may stay silent, when an abort request covers a job and since when, and when a
  disarming job must not be reaped yet.
\<close>

subsection \<open>Running heartbeat timeout\<close>

definition lifecycle_patrol :: "json \<Rightarrow> jobj option" where
  \<comment> \<open>\<open>(pipeline_def.get("lifecycle") or \{\}).get("patrol")\<close> where it is an object\<close>
  "lifecycle_patrol pipeline_def =
     (case pipeline_def of
        JObj p \<Rightarrow>
          (case jget p ''lifecycle'' of
             JObj lc \<Rightarrow> obj_of (jget lc ''patrol'')
           | _ \<Rightarrow> None)
      | _ \<Rightarrow> None)"

definition has_patrol_lifecycle :: "json \<Rightarrow> bool" where
  "has_patrol_lifecycle pipeline_def = (lifecycle_patrol pipeline_def \<noteq> None)"

definition job_in_patrol_phase :: "int \<Rightarrow> time option \<Rightarrow> string option \<Rightarrow> bool" where
  "job_in_patrol_phase cycles last_hb cur_step =
     (cycles > 0 \<or> last_hb \<noteq> None \<or> (cur_step \<noteq> None \<and> cur_step \<noteq> Some []))"

definition patrol_interval_seconds :: "json \<Rightarrow> int option" where
  "patrol_interval_seconds pipeline_def =
     (case lifecycle_patrol pipeline_def of
        None \<Rightarrow> None
      | Some patrol \<Rightarrow>
          (case json_num (jget patrol ''interval_seconds'') of
             Some n \<Rightarrow> if n > 0 then Some n else None
           | None \<Rightarrow> None))"

definition running_heartbeat_timeout_seconds :: "env \<Rightarrow> job_row \<Rightarrow> int" where
  "running_heartbeat_timeout_seconds e job =
     (if has_patrol_lifecycle (j_pipeline_def job)
         \<and> job_in_patrol_phase (j_patrol_cycle_count job) (j_last_patrol_heartbeat_at job)
             (j_current_patrol_step job)
      then
        let base = e_patrol_running_heartbeat_timeout e in
        (case patrol_interval_seconds (j_pipeline_def job) of
           None \<Rightarrow> base
         | Some interval \<Rightarrow>
             let t1 = max base (interval * e_patrol_stall_multiplier e) in
             (case j_next_retry_at job of
                None \<Rightarrow> t1
              | Some retry \<Rightarrow>
                  max t1 (max 0 (retry - j_updated_at job) + interval * e_patrol_stall_multiplier e)))
      else e_running_heartbeat_timeout e)"

subsection \<open>Abort requests and their clocks\<close>

fun parse_abort_at :: "json \<Rightarrow> time option" where
  "parse_abort_at (JTime t) = Some t"
| "parse_abort_at _ = None"

fun py_ints :: "json list \<Rightarrow> int list option" where
  "py_ints [] = Some []"
| "py_ints (x # xs) =
     (case py_int x of None \<Rightarrow> None | Some i \<Rightarrow> map_option ((#) i) (py_ints xs))"

definition abort_request_covers_job :: "jobj \<Rightarrow> nat \<Rightarrow> bool" where
  "abort_request_covers_job ctx job_id =
     (case jget ctx ''abort_requested'' of
        JObj abort \<Rightarrow>
          (case jget abort ''requested_job_ids'' of
             JList requested \<Rightarrow>
               if requested = [] then True
               else (case py_ints requested of
                       None \<Rightarrow> True | Some ids \<Rightarrow> int job_id \<in> set ids)
           | _ \<Rightarrow> True)
      | _ \<Rightarrow> True)"

definition host_abort_clock_at :: "jobj \<Rightarrow> string option \<Rightarrow> json" where
  "host_abort_clock_at ctx host_id =
     (case host_id of
        None \<Rightarrow> JNull
      | Some h \<Rightarrow>
          if h = [] then JNull
          else (case jget ctx ''abort_requested_hosts'' of
                  JObj hs \<Rightarrow>
                    (case jget hs h of JObj clock \<Rightarrow> jget clock ''at'' | _ \<Rightarrow> JNull)
                | _ \<Rightarrow> JNull))"

definition abort_reap_clock :: "json \<Rightarrow> nat \<Rightarrow> string option \<Rightarrow> (time \<times> string) option" where
  "abort_reap_clock run_context job_id host_id =
     (let ctx = obj_or_empty run_context;
          run_at = (if abort_request_covers_job ctx job_id
                    then (case jget ctx ''abort_requested'' of
                            JObj abort \<Rightarrow> parse_abort_at (jget abort ''at'') | _ \<Rightarrow> None)
                    else None);
          host_at = parse_abort_at (host_abort_clock_at ctx host_id)
      in (case (run_at, host_at) of
            (None, None) \<Rightarrow> None
          | (Some r, None) \<Rightarrow> Some (r, ''run'')
          | (None, Some h) \<Rightarrow> Some (h, ''host'')
          | (Some r, Some h) \<Rightarrow> Some (if h < r then (h, ''host'') else (r, ''run''))))"

subsection \<open>Disarm grace\<close>

definition EXECUTING_DISARM :: string where "EXECUTING_DISARM = ''EXECUTING_DISARM''"

definition DISARM_SCRIPT_NAMES :: "string list" where
  "DISARM_SCRIPT_NAMES =
     concat (map (\<lambda>(f, spec). fs_disarm spec @ fs_disarm_onboarded spec) FAMILY_STEPS)"

definition step_timeout :: "jobj \<Rightarrow> int option" where
  "step_timeout step =
     (if jget step ''enabled'' = JBool False then None
      else (case jor (jget step ''action'') (JStr []) of
              JStr a \<Rightarrow>
                if starts_with ''script:'' a \<and> strip (drop 7 a) \<in> set DISARM_SCRIPT_NAMES
                then py_int (jget step ''timeout_seconds'') else None
            | _ \<Rightarrow> None))"

definition disarm_step_timeout_seconds :: "json \<Rightarrow> int option" where
  "disarm_step_timeout_seconds pipeline_def =
     (case pipeline_def of
        JObj p \<Rightarrow>
          (case jor (jget p ''lifecycle'') (JObj []) of
             JObj lc \<Rightarrow>
               (case jor (jget lc ''teardown'') (JList []) of
                  JList teardown \<Rightarrow>
                    (case List.map_filter step_timeout (objs_of teardown) of
                       [] \<Rightarrow> None
                     | t # ts \<Rightarrow> Some (foldl max t ts))
                | _ \<Rightarrow> None)
           | _ \<Rightarrow> None)
      | _ \<Rightarrow> None)"

definition coordinator_progress_freshness_seconds :: "env \<Rightarrow> int" where
  "coordinator_progress_freshness_seconds e = e_coordinator_interval e * 2"

definition disarm_grace_defers_reap :: "env \<Rightarrow> job_row \<Rightarrow> time \<Rightarrow> time \<Rightarrow> bool" where
  "disarm_grace_defers_reap e job abort_at now =
     (if j_disarm_guard job \<noteq> None then False
      else if j_execution_state job \<noteq> Some EXECUTING_DISARM then False
      else (case j_last_progress_at job of
              None \<Rightarrow> False
            | Some progress \<Rightarrow>
                if now - progress > coordinator_progress_freshness_seconds e then False
                else (case disarm_step_timeout_seconds (j_pipeline_def job) of
                        None \<Rightarrow> False
                      | Some timeout \<Rightarrow> now < abort_at + timeout)))"

definition disarm_grace_protects :: "env \<Rightarrow> job_row \<Rightarrow> json \<Rightarrow> time \<Rightarrow> bool" where
  "disarm_grace_protects e job run_context now =
     (case abort_reap_clock run_context (j_id job) (j_host_id job) of
        None \<Rightarrow> False
      | Some (abort_at, subject) \<Rightarrow> disarm_grace_defers_reap e job abort_at now)"

subsection \<open>Which jobs an abort in its window covers (plan\_run\_context.py)\<close>

definition run_abort_pending :: "json \<Rightarrow> bool" where
  "run_abort_pending run_context =
     (case jget (obj_or_empty run_context) ''abort_requested'' of
        JObj abort \<Rightarrow> truthy (jget abort ''at'') | _ \<Rightarrow> False)"

definition requested_ids :: "jobj \<Rightarrow> int list" where
  "requested_ids abort = List.map_filter py_int (list_or_empty (jget abort ''requested_job_ids''))"

definition host_clock_set :: "jobj \<Rightarrow> string option \<Rightarrow> bool" where
  "host_clock_set hs host_id =
     (case host_id of
        None \<Rightarrow> False
      | Some h \<Rightarrow> (case jget hs h of JObj clock \<Rightarrow> truthy (jget clock ''at'') | _ \<Rightarrow> False))"

definition abort_pending_job_ids :: "json \<Rightarrow> (nat \<times> string option) list \<Rightarrow> nat list" where
  "abort_pending_job_ids run_context js =
     (let ctx = obj_or_empty run_context;
          abort = obj_or_empty (jget ctx ''abort_requested'');
          run_clock = truthy (jget abort ''at'');
          requested = requested_ids abort;
          hs = obj_or_empty (jget ctx ''abort_requested_hosts'')
      in map fst (filter (\<lambda>(job_id, host_id).
            (run_clock \<and> (requested = [] \<or> int job_id \<in> set requested))
            \<or> host_clock_set hs host_id) js))"

subsection \<open>Properties\<close>

text \<open>
  The disarm grace is bounded: a job is only protected while a negotiated guard does not exist,
  its abort clock is known and its own frozen step timeout after that clock has not passed, and
  never on progress older than two coordinator intervals.
\<close>

theorem disarm_grace_bounded:
  assumes "disarm_grace_protects e job ctx now"
  shows "\<exists>abort_at subject timeout progress.
     abort_reap_clock ctx (j_id job) (j_host_id job) = Some (abort_at, subject)
     \<and> disarm_step_timeout_seconds (j_pipeline_def job) = Some timeout
     \<and> now < abort_at + timeout
     \<and> j_last_progress_at job = Some progress \<and> now - progress \<le> 2 * e_coordinator_interval e
     \<and> j_disarm_guard job = None \<and> j_execution_state job = Some EXECUTING_DISARM"
  using assms
  by (auto simp: disarm_grace_protects_def disarm_grace_defers_reap_def
      coordinator_progress_freshness_seconds_def split: option.splits if_splits prod.splits)

definition default_env :: env where
  "default_env = \<lparr>e_dispatched_timeout = 120, e_running_heartbeat_timeout = 900,
     e_patrol_running_heartbeat_timeout = 300, e_patrol_stall_multiplier = 3,
     e_abort_ack_grace = 60, e_host_heartbeat_timeout = 300, e_unknown_grace = 300,
     e_coordinator_interval = 10, e_device_lock_lease = 600, e_manifest = None,
     e_sha256 = (\<lambda>s. s)\<rparr>"

definition disarming_job :: job_row where
  "disarming_job = sample_job\<lparr>j_status := J_RUNNING,
     j_execution_state := Some ''EXECUTING_DISARM'', j_last_progress_at := Some 95,
     j_pipeline_def := JObj [(''lifecycle'', JObj [(''teardown'',
        JList [JObj [(''step_id'', JStr ''t1''), (''action'', JStr ''script:gpu_disarm''),
                     (''timeout_seconds'', JInt 120)]])])]\<rparr>"

lemma disarm_grace_bounded_witness:
  "\<exists>timeout. disarm_step_timeout_seconds (j_pipeline_def disarming_job) = Some timeout
     \<and> (100::int) < 50 + timeout"
proof -
  let ?ctx = "JObj [(''abort_requested'', JObj [(''at'', JTime 50)])]"
  have clock: "abort_reap_clock ?ctx 7 (Some ''h1'') = Some (50, ''run'')"
    by (simp add: abort_reap_clock_def abort_request_covers_job_def host_abort_clock_at_def jget_def)
  have fields: "j_id disarming_job = 7" "j_host_id disarming_job = Some ''h1''"
    by (simp_all add: disarming_job_def sample_job_def)
  have "disarm_grace_protects default_env disarming_job ?ctx 100"
    unfolding disarm_grace_protects_def fields clock by code_simp
  from disarm_grace_bounded [OF this] show ?thesis unfolding fields clock by auto
qed

lemma py_ints_map_filter: "py_ints xs = Some is \<Longrightarrow> List.map_filter py_int xs = is"
proof (induction xs arbitrary: "is")
  case Nil
  then show ?case by (simp add: List.map_filter_def)
next
  case (Cons x xs)
  then show ?case by (auto simp: List.map_filter_def split: option.splits)
qed

text \<open>
  A well-formed abort context, as the abort service writes it: instants parse and ids are numbers.
\<close>

definition abort_context_ok :: "jobj \<Rightarrow> bool" where
  "abort_context_ok ctx \<longleftrightarrow>
     (\<exists>abort. jget ctx ''abort_requested'' = JObj abort
        \<and> (jget abort ''at'' = JNull \<or> (\<exists>t. jget abort ''at'' = JTime t))
        \<and> (\<exists>xs ids. jget abort ''requested_job_ids'' = JList xs \<and> py_ints xs = Some ids))
     \<and> (\<exists>hs. jget ctx ''abort_requested_hosts'' = JObj hs
        \<and> (\<forall>h. jget hs h = JNull
             \<or> (\<exists>clock t. jget hs h = JObj clock \<and> jget clock ''at'' = JTime t)))"

text \<open>
  The two judgements on an abort request agree on well-formed contexts: a job of a named host
  is in \<open>abort_pending_job_ids\<close> exactly when \<open>abort_reap_clock\<close> finds a clock for it.
\<close>

theorem abort_judgements_agree:
  assumes ok: "abort_context_ok ctx" and h: "host \<noteq> Some []"
  shows "(job \<in> set (abort_pending_job_ids (JObj ctx) [(job, host)]))
     \<longleftrightarrow> (abort_reap_clock (JObj ctx) job host \<noteq> None)"
proof -
  from ok obtain abort xs ids hs where a: "jget ctx ''abort_requested'' = JObj abort"
    and at: "jget abort ''at'' = JNull \<or> (\<exists>t. jget abort ''at'' = JTime t)"
    and ids: "jget abort ''requested_job_ids'' = JList xs" "py_ints xs = Some ids"
    and hs: "jget ctx ''abort_requested_hosts'' = JObj hs"
      "\<forall>h. jget hs h = JNull \<or> (\<exists>clock t. jget hs h = JObj clock \<and> jget clock ''at'' = JTime t)"
    unfolding abort_context_ok_def by blast
  have req: "requested_ids abort = ids" using ids by (simp add: requested_ids_def py_ints_map_filter)
  have empty: "xs = [] \<longleftrightarrow> ids = []" using ids(2) by (cases xs) (auto split: option.splits)
  have covers: "abort_request_covers_job ctx job \<longleftrightarrow> ids = [] \<or> int job \<in> set ids"
    using a ids empty by (auto simp: abort_request_covers_job_def)
  have host: "host_clock_set hs host \<longleftrightarrow> parse_abort_at (host_abort_clock_at ctx host) \<noteq> None"
  proof (cases host)
    case None
    then show ?thesis by (simp add: host_clock_set_def host_abort_clock_at_def)
  next
    case (Some a)
    with h have a: "a \<noteq> []" by simp
    from hs(2) have "jget hs a = JNull \<or> (\<exists>clock t. jget hs a = JObj clock \<and> jget clock ''at'' = JTime t)"
      by (rule spec)
    then show ?thesis
    proof (elim disjE exE conjE)
      assume "jget hs a = JNull"
      with Some a hs(1) show ?thesis by (simp add: host_clock_set_def host_abort_clock_at_def)
    next
      fix clock t assume "jget hs a = JObj clock" "jget clock ''at'' = JTime t"
      with Some a hs(1) show ?thesis by (simp add: host_clock_set_def host_abort_clock_at_def)
    qed
  qed
  have run: "truthy (jget abort ''at'') \<longleftrightarrow> parse_abort_at (jget abort ''at'') \<noteq> None"
    using at by auto
  have l: "(job \<in> set (abort_pending_job_ids (JObj ctx) [(job, host)]))
      \<longleftrightarrow> (truthy (jget abort ''at'') \<and> (ids = [] \<or> int job \<in> set ids)) \<or> host_clock_set hs host"
    by (simp add: abort_pending_job_ids_def a hs(1) req Let_def)
  have r: "abort_reap_clock (JObj ctx) job host \<noteq> None
      \<longleftrightarrow> (abort_request_covers_job ctx job \<and> parse_abort_at (jget abort ''at'') \<noteq> None)
          \<or> parse_abort_at (host_abort_clock_at ctx host) \<noteq> None"
    by (simp add: abort_reap_clock_def a Let_def split: option.splits)
  show ?thesis unfolding l r covers host run by blast
qed

lemma abort_judgements_agree_witness:
  "(7 \<in> set (abort_pending_job_ids (JObj [(''abort_requested'',
        JObj [(''at'', JTime 50), (''requested_job_ids'', JList [JInt 7])]),
      (''abort_requested_hosts'', JObj [])]) [(7, Some ''h1'')]))
   \<and> abort_reap_clock (JObj [(''abort_requested'',
        JObj [(''at'', JTime 50), (''requested_job_ids'', JList [JInt 7])]),
      (''abort_requested_hosts'', JObj [])]) 7 (Some ''h1'') \<noteq> None"
proof -
  let ?ctx = "[(''abort_requested'',
        JObj [(''at'', JTime 50), (''requested_job_ids'', JList [JInt 7])]),
      (''abort_requested_hosts'', JObj [])]"
  have ok: "abort_context_ok ?ctx" by (simp add: abort_context_ok_def jget_def)
  have mem: "7 \<in> set (abort_pending_job_ids (JObj ?ctx) [(7, Some ''h1'')])"
    by code_simp
  with abort_judgements_agree [OF ok, of "Some ''h1''" 7] show ?thesis by simp
qed

text \<open>
  On malformed ids they differ: with \<open>requested_job_ids = ["x", 5]\<close> the reaper's judgement covers
  job 6 (a list that does not parse covers everything), the pending set does not (the unparsable id
  is skipped).
\<close>

lemma abort_judgements_differ_on_malformed_ids:
  "abort_reap_clock (JObj [(''abort_requested'',
      JObj [(''at'', JTime 50), (''requested_job_ids'', JList [JStr ''x'', JInt 5])])]) 6 (Some ''h1'')
     = Some (50, ''run'')
   \<and> abort_pending_job_ids (JObj [(''abort_requested'',
      JObj [(''at'', JTime 50), (''requested_job_ids'', JList [JStr ''x'', JInt 5])])]) [(6, Some ''h1'')] = []"
  by code_simp

end
