(* ===== verification/Return_Debt.thy ===== *)
theory Return_Debt
  imports Job_Timeouts
begin

section \<open>Device-return debt: the JOB-lease release entry (services/device\_return.py)\<close>

text \<open>
  Lines 41 to 900 of services/device\_return.py: the mapping of a disarm result to a family's
  return state, the open-debt rows, and \<open>handle_job_lease_release\<close>, the one entry by which a JOB
  lease is given up: under the device row lock it writes the job's debts and either converts the
  lease in place into the platform's MAINTENANCE debt lease with a fresh generation or releases
  it.  The sync and the async version of each function are both modelled, as the code has them,
  and proved equal.
\<close>

subsection \<open>Machine constants and the debt lease\<close>

definition DEBT_LEASE_REASON :: string where
  \<comment> \<open>the UTF-8 bytes of the source's four-character literal\<close>
  "DEBT_LEASE_REASON = [CHR 0xE5, CHR 0xBD, CHR 0x92, CHR 0xE8, CHR 0xBF, CHR 0x98,
     CHR 0xE6, CHR 0xAC, CHR 0xA0, CHR 0xE8, CHR 0xB4, CHR 0xA6]"

definition DEBT_LEASE_HOLDER :: string where "DEBT_LEASE_HOLDER = ''platform''"
definition DEBT_LEASE_AGENT_INSTANCE_ID :: string where "DEBT_LEASE_AGENT_INSTANCE_ID = ''platform''"

definition DEBT_LEASE_EXPIRES_AT :: time where
  \<comment> \<open>9999-01-01T00:00:00Z\<close>
  "DEBT_LEASE_EXPIRES_AT = 253370764800"

abbreviation "DEBT_OPEN \<equiv> ''open''"
abbreviation "DEBT_CLOSED \<equiv> ''closed''"

record lease_outcome =
  lo_released :: bool
  lo_converted_to_debt :: bool
  lo_open_debt_count :: nat
  lo_fencing_token :: "string option"

definition is_debt_lease_row :: "lease_row \<Rightarrow> bool" where
  "is_debt_lease_row l =
     (l_type l = LT_MAINTENANCE \<and> l_reason l = Some DEBT_LEASE_REASON
      \<and> l_holder l = Some DEBT_LEASE_HOLDER)"

definition is_debt_lease :: "lease_row option \<Rightarrow> bool" where
  "is_debt_lease lease = (case lease of None \<Rightarrow> False | Some l \<Rightarrow> is_debt_lease_row l)"

subsection \<open>Family return states\<close>

definition map_disarm_result_to_family_state :: "string \<Rightarrow> bool \<Rightarrow> string" where
  "map_disarm_result_to_family_state result onboarded =
     (if result = CONFIRMED then RETURNED
      else if result = EXECUTED_UNVERIFIED then UNVERIFIED
      else if result = FAILED_R then (if onboarded then DEBT else UNVERIFIED)
      else if result = READBACK_FAILED then DEBT
      else if result = NOT_EXECUTED \<or> result = INCOMPLETE then DEBT
      else DEBT)"

definition family_entry_state :: "jobj \<Rightarrow> string \<Rightarrow> string" where
  "family_entry_state rs family =
     (case jget rs family of
        JObj entry \<Rightarrow> py_str (jor (jget entry ''state'') (JStr UNVERIFIED))
      | _ \<Rightarrow> UNVERIFIED)"

definition device_aggregate_return_state :: "jobj \<Rightarrow> string" where
  "device_aggregate_return_state rs =
     (if rs = [] then UNVERIFIED
      else let states = map (family_entry_state rs) (map fst FAMILY_STEPS) in
        if DEBT \<in> set states then DEBT
        else if UNVERIFIED \<in> set states then UNVERIFIED
        else if states \<noteq> [] \<and> (\<forall>s\<in>set states. s = RETURNED) then RETURNED
        else UNVERIFIED)"

subsection \<open>The results a job leaves behind\<close>

fun is_json_str :: "json \<Rightarrow> bool" where
  "is_json_str (JStr _) = True"
| "is_json_str (JTime _) = True"
| "is_json_str _ = False"

definition normalize_entry :: "string \<times> json \<Rightarrow> (string \<times> jobj) option" where
  "normalize_entry kv =
     (if \<not> is_family (fst kv) then None
      else (case snd kv of
              JObj entry \<Rightarrow> if is_json_str (jget entry ''result'') then Some (fst kv, entry) else None
            | x \<Rightarrow> if is_json_str x then Some (fst kv, [(''result'', x)]) else None))"

definition normalize_disarm_results :: "json \<Rightarrow> (string \<times> jobj) list" where
  "normalize_disarm_results raw =
     (case raw of JObj kvs \<Rightarrow> List.map_filter normalize_entry kvs | _ \<Rightarrow> [])"

definition stage_steps :: "json \<Rightarrow> jobj list" where
  \<comment> \<open>a stage is a list of steps, or an object holding one under "steps"\<close>
  "stage_steps st =
     (case st of
        JObj ob \<Rightarrow> objs_of (list_or_empty (jor (jget ob ''steps'') (JList [])))
      | JList xs \<Rightarrow> objs_of xs
      | _ \<Rightarrow> [])"

definition add_step_script :: "jobj \<Rightarrow> (string \<times> string) list \<Rightarrow> (string \<times> string) list" where
  "add_step_script step m =
     (let sid = jor (jget step ''step_id'') (JStr []); script = script_name_from_step step in
      if truthy sid \<and> script \<noteq> [] then AList.update (py_str sid) script m else m)"

definition pipeline_stages :: "jobj \<Rightarrow> jobj" where
  "pipeline_stages p = (case jget p ''lifecycle'' of JObj lc \<Rightarrow> lc | _ \<Rightarrow> p)"

definition pipeline_step_id_to_script :: "json \<Rightarrow> (string \<times> string) list" where
  "pipeline_step_id_to_script pipeline_def =
     (case pipeline_def of
        JObj p \<Rightarrow>
          fold add_step_script
            (concat (map (\<lambda>stage. stage_steps (jget (pipeline_stages p) stage))
               [''init'', ''teardown'', ''patrol''])) []
      | _ \<Rightarrow> [])"

definition trace_family :: "(string \<times> string) list \<Rightarrow> trace_row \<Rightarrow> string option" where
  "trace_family id_to_script t =
     (if t_stage t \<noteq> ''init'' then None
      else family_for_footprint_script
             (case map_of id_to_script (t_step_id t) of None \<Rightarrow> [] | Some s \<Rightarrow> s))"

definition footprint_families_from_traces :: "json \<Rightarrow> trace_row list \<Rightarrow> string list" where
  "footprint_families_from_traces pipeline_def ts =
     remdups (List.map_filter (trace_family (pipeline_step_id_to_script pipeline_def)) ts)"

definition footprint_families_for_job_sync :: "db \<Rightarrow> job_row \<Rightarrow> string list" where
  "footprint_families_for_job_sync s job =
     footprint_families_from_traces (j_pipeline_def job)
       (filter (\<lambda>t. t_job_id t = j_id job) (traces s))"

definition footprint_families_for_job_async :: "db \<Rightarrow> job_row \<Rightarrow> string list" where
  "footprint_families_for_job_async s job =
     footprint_families_from_traces (j_pipeline_def job)
       (filter (\<lambda>t. t_job_id t = j_id job) (traces s))"

definition incomplete_entry :: jobj where
  "incomplete_entry =
     [(''result'', JStr INCOMPLETE), (''reason'', JStr ''no_terminal_report_with_footprint'')]"

fun supplement_incomplete_for_footprints ::
  "(string \<times> jobj) list \<Rightarrow> string list \<Rightarrow> (string \<times> jobj) list" where
  "supplement_incomplete_for_footprints out [] = out"
| "supplement_incomplete_for_footprints out (f # fs) =
     supplement_incomplete_for_footprints
       (if f \<in> set (map fst out) then out else out @ [(f, incomplete_entry)]) fs"

subsection \<open>Return-state updates\<close>

abbreviation "SOURCE_KIND_JOB \<equiv> ''job''"
abbreviation "SOURCE_KIND_STOCK \<equiv> ''stock''"

definition debt_entry :: "debt_row list \<Rightarrow> time \<Rightarrow> jobj \<Rightarrow> string \<Rightarrow> jobj" where
  "debt_entry open_rows now current family =
     (let entry = obj_or_empty (jget current family);
          e1 = AList.update ''updated_at'' (JTime now) (AList.update ''state'' (JStr DEBT) entry)
      in if ''source'' \<in> set (map fst e1) then e1
         else AList.update ''source''
                (JStr (case first_row (filter (\<lambda>r. b_family r = family) open_rows) of
                         Some r \<Rightarrow> if b_source_kind r = SOURCE_KIND_STOCK then ''stock'' else ''job''
                       | None \<Rightarrow> ''job'')) e1)"

definition recompute_return_state :: "jobj \<Rightarrow> debt_row list \<Rightarrow> time \<Rightarrow> jobj" where
  "recompute_return_state rs open_rows now =
     fold (\<lambda>family current. AList.update family (JObj (debt_entry open_rows now current family)) current)
       (remdups (map b_family open_rows)) rs"

definition recompute_return_state_from_open_debts :: "nat \<Rightarrow> debt_row list \<Rightarrow> time \<Rightarrow> db \<Rightarrow> db" where
  "recompute_return_state_from_open_debts d open_rows now s =
     upd_device d (\<lambda>v. if open_rows = [] \<and> d_return_state v = [] then v
        else v\<lparr>d_return_state := recompute_return_state (d_return_state v) open_rows now\<rparr>) s"

definition set_family_return_state ::
  "nat \<Rightarrow> string \<Rightarrow> string \<Rightarrow> string \<Rightarrow> time \<Rightarrow> jobj \<Rightarrow> db \<Rightarrow> db" where
  "set_family_return_state d family state source now extra s =
     upd_device d (\<lambda>v. v\<lparr>d_return_state :=
        AList.update family
          (JObj (dict_merge [(''state'', JStr state), (''source'', JStr source),
                             (''updated_at'', JTime now)] extra))
          (d_return_state v)\<rparr>) s"

subsection \<open>Open-debt rows\<close>

definition open_debt_on :: "nat \<Rightarrow> debt_row \<Rightarrow> bool" where
  "open_debt_on d b = (b_device_id b = d \<and> b_state b = DEBT_OPEN)"

definition open_debts_sync :: "db \<Rightarrow> nat \<Rightarrow> debt_row list" where
  "open_debts_sync s d = filter (\<lambda>b. b_device_id b = d \<and> b_state b = DEBT_OPEN) (debts s)"

definition open_debts_async :: "db \<Rightarrow> nat \<Rightarrow> debt_row list" where
  "open_debts_async s d = filter (\<lambda>b. b_device_id b = d \<and> b_state b = DEBT_OPEN) (debts s)"

definition open_debts_for_device_sync :: "db \<Rightarrow> nat \<Rightarrow> debt_row list" where
  "open_debts_for_device_sync s d =
     sort_key (\<lambda>b. (b_created_at b, b_id b))
       (filter (\<lambda>b. b_device_id b = d \<and> b_state b = DEBT_OPEN) (debts s))"

definition coalesce_job :: "nat option \<Rightarrow> nat" where
  "coalesce_job j = (case j of None \<Rightarrow> 0 | Some i \<Rightarrow> i)"

definition evidence_json :: "jobj \<Rightarrow> json" where
  "evidence_json ev = (if ev = [] then JNull else JObj ev)"

text \<open>
  The insert fails (\<open>None\<close>, \<open>IntegrityError\<close>) where the partial unique index on (device, family,
  kind, COALESCE(job, 0)) of open rows has the key already.
\<close>

definition insert_debt :: "debt_row \<Rightarrow> db \<Rightarrow> db option" where
  "insert_debt b s =
     (if list_ex (\<lambda>r. b_device_id r = b_device_id b \<and> b_state r = DEBT_OPEN
          \<and> b_family r = b_family b \<and> b_source_kind r = b_source_kind b
          \<and> coalesce_job (b_source_job_id r) = coalesce_job (b_source_job_id b)) (debts s)
      then None
      else Some (s\<lparr>debts := debts s @ [b\<lparr>b_id := next_debt_id s\<rparr>],
                   next_debt_id := next_debt_id s + 1\<rparr>))"

definition upsert_open_debt_sync ::
  "nat \<Rightarrow> string \<Rightarrow> string \<Rightarrow> nat option \<Rightarrow> string option \<Rightarrow> string \<Rightarrow> jobj \<Rightarrow> time \<Rightarrow> db \<Rightarrow> db option" where
  "upsert_open_debt_sync d family kind job token cause evidence now s =
     (case first_row (filter (\<lambda>b. b_device_id b = d \<and> b_family b = family \<and> b_source_kind b = kind
          \<and> b_source_job_id b = job \<and> b_state b = DEBT_OPEN) (debts s)) of
        Some existing \<Rightarrow>
          Some (if evidence \<noteq> []
                then s\<lparr>debts := upd_where (\<lambda>b. b_id b = b_id existing)
                       (\<lambda>b. b\<lparr>b_evidence := JObj evidence\<rparr>) (debts s)\<rparr>
                else s)
      | None \<Rightarrow>
          insert_debt \<lparr>b_id = 0, b_device_id = d, b_family = family, b_source_kind = kind,
             b_source_job_id = job, b_source_fencing_token = token, b_cause = cause,
             b_state = DEBT_OPEN, b_closed_reason = None, b_closed_at = None, b_created_at = now,
             b_evidence = evidence_json evidence\<rparr> s)"

definition upsert_open_debt_async ::
  "nat \<Rightarrow> string \<Rightarrow> string \<Rightarrow> nat option \<Rightarrow> string option \<Rightarrow> string \<Rightarrow> jobj \<Rightarrow> time \<Rightarrow> db \<Rightarrow> db option" where
  "upsert_open_debt_async d family kind job token cause evidence now s =
     (let q = filter (\<lambda>b. b_device_id b = d \<and> b_family b = family \<and> b_source_kind b = kind
                \<and> b_state b = DEBT_OPEN) (debts s);
          q1 = (case job of None \<Rightarrow> filter (\<lambda>b. b_source_job_id b = None) q
                | Some j \<Rightarrow> filter (\<lambda>b. b_source_job_id b = Some j) q)
      in case first_row q1 of
           Some existing \<Rightarrow>
             Some (if evidence \<noteq> []
                   then s\<lparr>debts := upd_where (\<lambda>b. b_id b = b_id existing)
                          (\<lambda>b. b\<lparr>b_evidence := JObj evidence\<rparr>) (debts s)\<rparr>
                   else s)
         | None \<Rightarrow>
             insert_debt \<lparr>b_id = 0, b_device_id = d, b_family = family, b_source_kind = kind,
                b_source_job_id = job, b_source_fencing_token = token, b_cause = cause,
                b_state = DEBT_OPEN, b_closed_reason = None, b_closed_at = None, b_created_at = now,
                b_evidence = evidence_json evidence\<rparr> s)"

subsection \<open>Writing a job's debts\<close>

definition entry_result :: "jobj \<Rightarrow> string" where
  "entry_result entry = py_str (jor (jget entry ''result'') (JStr []))"

definition result_state :: "string \<Rightarrow> jobj \<Rightarrow> string" where
  "result_state family entry =
     map_disarm_result_to_family_state (entry_result entry) (family_onboarded family)"

fun apply_results_sync ::
  "(string \<times> jobj) list \<Rightarrow> nat \<Rightarrow> nat \<Rightarrow> string option \<Rightarrow> time \<Rightarrow> db \<Rightarrow> db option" where
  "apply_results_sync [] d job token now s = Some s"
| "apply_results_sync ((family, entry) # rest) d job token now s =
     (let result = entry_result entry;
          state = map_disarm_result_to_family_state result (family_onboarded family);
          s1 = set_family_return_state d family state ''job'' now
                 [(''job_id'', JInt (int job)), (''disarm_result'', JStr result)] s
      in if state = DEBT
         then (case upsert_open_debt_sync d family SOURCE_KIND_JOB (Some job) token
                      (if result = [] then NOT_EXECUTED else result) entry now s1 of
                 None \<Rightarrow> None
               | Some s2 \<Rightarrow> apply_results_sync rest d job token now s2)
         else apply_results_sync rest d job token now s1)"

definition apply_job_disarm_to_debt_sync ::
  "nat \<Rightarrow> job_row \<Rightarrow> string option \<Rightarrow> time \<Rightarrow> db \<Rightarrow> (nat \<times> db) option" where
  "apply_job_disarm_to_debt_sync d job token now s =
     (let results = supplement_incomplete_for_footprints
            (normalize_disarm_results (j_disarm_results job))
            (footprint_families_for_job_sync s job)
      in case apply_results_sync results d (j_id job) token now s of
           None \<Rightarrow> None
         | Some s1 \<Rightarrow>
             let rows = open_debts_sync s1 d in
             Some (length rows, recompute_return_state_from_open_debts d rows now s1))"

fun apply_results_async ::
  "(string \<times> jobj) list \<Rightarrow> nat \<Rightarrow> nat \<Rightarrow> string option \<Rightarrow> time \<Rightarrow> db \<Rightarrow> db option" where
  "apply_results_async [] d job token now s = Some s"
| "apply_results_async ((family, entry) # rest) d job token now s =
     (let result = entry_result entry;
          state = map_disarm_result_to_family_state result (family_onboarded family);
          s1 = set_family_return_state d family state ''job'' now
                 [(''job_id'', JInt (int job)), (''disarm_result'', JStr result)] s
      in if state = DEBT
         then (case upsert_open_debt_async d family SOURCE_KIND_JOB (Some job) token
                      (if result = [] then NOT_EXECUTED else result) entry now s1 of
                 None \<Rightarrow> None
               | Some s2 \<Rightarrow> apply_results_async rest d job token now s2)
         else apply_results_async rest d job token now s1)"

definition apply_job_disarm_to_debt_async ::
  "nat \<Rightarrow> job_row \<Rightarrow> string option \<Rightarrow> time \<Rightarrow> db \<Rightarrow> db option" where
  "apply_job_disarm_to_debt_async d job token now s =
     (let results = supplement_incomplete_for_footprints
            (normalize_disarm_results (j_disarm_results job))
            (footprint_families_for_job_async s job)
      in case apply_results_async results d (j_id job) token now s of
           None \<Rightarrow> None
         | Some s1 \<Rightarrow>
             Some (recompute_return_state_from_open_debts d (open_debts_async s1 d) now s1))"

subsection \<open>Lease conversion, acquisition and release\<close>

definition device_host :: "db \<Rightarrow> nat \<Rightarrow> string option" where
  "device_host s d = (case get_device s d of None \<Rightarrow> None | Some v \<Rightarrow> d_host_id v)"

definition convert_active_job_to_debt_lease_sync :: "nat \<Rightarrow> lease_row \<Rightarrow> time \<Rightarrow> db \<Rightarrow> lease_row \<times> db" where
  "convert_active_job_to_debt_lease_sync d lease now s =
     (let s1 = bump_generation d s;
          g = generation_of s1 d;
          conv = (\<lambda>l. l\<lparr>l_type := LT_MAINTENANCE, l_job_id := None,
             l_reason := Some DEBT_LEASE_REASON, l_holder := Some DEBT_LEASE_HOLDER,
             l_agent_instance_id := DEBT_LEASE_AGENT_INSTANCE_ID,
             l_host_id := device_host s1 d, l_generation := g, l_fencing_token := fencing_token d g,
             l_renewed_at := now, l_expires_at := DEBT_LEASE_EXPIRES_AT, l_status := LS_ACTIVE,
             l_released_at := None\<rparr>)
      in (conv lease, upd_lease (l_id lease) conv s1))"

definition convert_active_job_to_debt_lease_async :: "nat \<Rightarrow> lease_row \<Rightarrow> time \<Rightarrow> db \<Rightarrow> lease_row \<times> db" where
  "convert_active_job_to_debt_lease_async d lease now s =
     (let s1 = bump_generation d s;
          g = generation_of s1 d;
          conv = (\<lambda>l. l\<lparr>l_type := LT_MAINTENANCE, l_job_id := None,
             l_reason := Some DEBT_LEASE_REASON, l_holder := Some DEBT_LEASE_HOLDER,
             l_agent_instance_id := DEBT_LEASE_AGENT_INSTANCE_ID,
             l_host_id := device_host s1 d, l_generation := g, l_fencing_token := fencing_token d g,
             l_renewed_at := now, l_expires_at := DEBT_LEASE_EXPIRES_AT, l_status := LS_ACTIVE,
             l_released_at := None\<rparr>)
      in (conv lease, upd_lease (l_id lease) conv s1))"

definition no_text :: "string option \<Rightarrow> bool" where
  "no_text x = (case x of None \<Rightarrow> True | Some w \<Rightarrow> w = [])"

text \<open>
  The generation is advanced before the check for an ACTIVE lease, so it stays advanced where the
  function answers \<open>None\<close> because one exists.
\<close>

definition acquire_debt_lease_sync :: "nat \<Rightarrow> time \<Rightarrow> db \<Rightarrow> lease_row option \<times> db" where
  "acquire_debt_lease_sync d now s =
     (case get_device s d of
        None \<Rightarrow> (None, s)
      | Some v \<Rightarrow>
          if d_retired_at v \<noteq> None \<or> no_text (d_host_id v) then (None, s)
          else
            let s1 = bump_generation d s; g = generation_of s1 d in
            if get_active_lease s1 d \<noteq> None then (None, s1)
            else
              let l = \<lparr>l_id = next_lease_id s1, l_device_id = d, l_job_id = None,
                    l_host_id = d_host_id v, l_type = LT_MAINTENANCE, l_status = LS_ACTIVE,
                    l_fencing_token = fencing_token d g, l_generation = g,
                    l_agent_instance_id = DEBT_LEASE_AGENT_INSTANCE_ID,
                    l_reason = Some DEBT_LEASE_REASON, l_holder = Some DEBT_LEASE_HOLDER,
                    l_acquired_at = now, l_renewed_at = now,
                    l_expires_at = DEBT_LEASE_EXPIRES_AT, l_released_at = None\<rparr>
              in (Some l, insert_lease l s1))"

definition acquire_debt_lease_async :: "nat \<Rightarrow> time \<Rightarrow> db \<Rightarrow> lease_row option \<times> db" where
  "acquire_debt_lease_async d now s =
     (case get_device s d of
        None \<Rightarrow> (None, s)
      | Some v \<Rightarrow>
          if d_retired_at v \<noteq> None \<or> no_text (d_host_id v) then (None, s)
          else
            let s1 = bump_generation d s; g = generation_of s1 d in
            if get_active_lease s1 d \<noteq> None then (None, s1)
            else
              let l = \<lparr>l_id = next_lease_id s1, l_device_id = d, l_job_id = None,
                    l_host_id = d_host_id v, l_type = LT_MAINTENANCE, l_status = LS_ACTIVE,
                    l_fencing_token = fencing_token d g, l_generation = g,
                    l_agent_instance_id = DEBT_LEASE_AGENT_INSTANCE_ID,
                    l_reason = Some DEBT_LEASE_REASON, l_holder = Some DEBT_LEASE_HOLDER,
                    l_acquired_at = now, l_renewed_at = now,
                    l_expires_at = DEBT_LEASE_EXPIRES_AT, l_released_at = None\<rparr>
              in (Some l, insert_lease l s1))"

definition release_job_lease_sync :: "nat \<Rightarrow> nat \<Rightarrow> time \<Rightarrow> db \<Rightarrow> bool \<times> db" where
  "release_job_lease_sync d job now s =
     (list_ex (job_lease_on d job) (leases s),
      upd_leases (job_lease_on d job)
        (\<lambda>l. l\<lparr>l_status := LS_RELEASED, l_released_at := Some now\<rparr>) s)"

definition release_job_lease_async :: "nat \<Rightarrow> nat \<Rightarrow> time \<Rightarrow> db \<Rightarrow> bool \<times> db" where
  "release_job_lease_async d job now s =
     (list_ex (job_lease_on d job) (leases s),
      upd_leases (job_lease_on d job)
        (\<lambda>l. l\<lparr>l_status := LS_RELEASED, l_released_at := Some now\<rparr>) s)"

subsection \<open>The release entry\<close>

definition settle_lease_sync ::
  "nat \<Rightarrow> nat \<Rightarrow> lease_row option \<Rightarrow> time \<Rightarrow> db \<Rightarrow> lease_outcome \<times> db" where
  \<comment> \<open>the second half of the entry: from \<open>if open_count > 0\<close> on\<close>
  "settle_lease_sync d job_id lease now s =
     (let open_count = length (open_debts_sync s d) in
      if open_count > 0 then
        (case lease of
           Some l \<Rightarrow>
             if l_type l = LT_JOB \<and> l_job_id l = Some job_id then
               (let (converted, s2) = convert_active_job_to_debt_lease_sync d l now s in
                (\<lparr>lo_released = False, lo_converted_to_debt = True,
                  lo_open_debt_count = open_count,
                  lo_fencing_token = Some (l_fencing_token converted)\<rparr>, s2))
             else if is_debt_lease (Some l) then
               (\<lparr>lo_released = False, lo_converted_to_debt = False,
                 lo_open_debt_count = open_count,
                 lo_fencing_token = Some (l_fencing_token l)\<rparr>, s)
             else
               (let (released, s2) = release_job_lease_sync d job_id now s in
                (\<lparr>lo_released = released, lo_converted_to_debt = False,
                  lo_open_debt_count = open_count, lo_fencing_token = None\<rparr>, s2))
         | None \<Rightarrow>
             (let (acquired, s2) = acquire_debt_lease_sync d now s in
              (\<lparr>lo_released = False, lo_converted_to_debt = (acquired \<noteq> None),
                lo_open_debt_count = open_count,
                lo_fencing_token = map_option l_fencing_token acquired\<rparr>, s2)))
      else
        (let (released, s2) = release_job_lease_sync d job_id now s in
         (\<lparr>lo_released = released, lo_converted_to_debt = False, lo_open_debt_count = 0,
           lo_fencing_token = None\<rparr>, s2)))"

definition handle_job_lease_release_sync ::
  "nat \<Rightarrow> nat \<Rightarrow> job_row option \<Rightarrow> time \<Rightarrow> db \<Rightarrow> lease_outcome \<times> db" where
  "handle_job_lease_release_sync d job_id job now s =
     (case get_device s d of
        None \<Rightarrow> (\<lparr>lo_released = False, lo_converted_to_debt = False, lo_open_debt_count = 0,
                  lo_fencing_token = None\<rparr>, s)
      | Some v \<Rightarrow>
          let the_job = (case job of None \<Rightarrow> get_job s job_id | Some j \<Rightarrow> Some j);
              lease = get_active_lease s d;
              fencing = map_option l_fencing_token lease;
              s1 = (case the_job of
                      None \<Rightarrow> s
                    | Some j \<Rightarrow>
                        (case apply_job_disarm_to_debt_sync d j fencing now s of
                           None \<Rightarrow> s | Some (n, s') \<Rightarrow> s'))
          in settle_lease_sync d job_id lease now s1)"

definition settle_lease_async ::
  "nat \<Rightarrow> nat \<Rightarrow> lease_row option \<Rightarrow> time \<Rightarrow> db \<Rightarrow> lease_outcome \<times> db" where
  \<comment> \<open>the second half of the entry: from \<open>if open_count > 0\<close> on\<close>
  "settle_lease_async d job_id lease now s =
     (let open_count = length (open_debts_async s d) in
      if open_count > 0 then
        (case lease of
           Some l \<Rightarrow>
             if l_type l = LT_JOB \<and> l_job_id l = Some job_id then
               (let (converted, s2) = convert_active_job_to_debt_lease_async d l now s in
                (\<lparr>lo_released = False, lo_converted_to_debt = True,
                  lo_open_debt_count = open_count,
                  lo_fencing_token = Some (l_fencing_token converted)\<rparr>, s2))
             else if is_debt_lease (Some l) then
               (\<lparr>lo_released = False, lo_converted_to_debt = False,
                 lo_open_debt_count = open_count,
                 lo_fencing_token = Some (l_fencing_token l)\<rparr>, s)
             else
               (let (released, s2) = release_job_lease_async d job_id now s in
                (\<lparr>lo_released = released, lo_converted_to_debt = False,
                  lo_open_debt_count = open_count, lo_fencing_token = None\<rparr>, s2))
         | None \<Rightarrow>
             (let (acquired, s2) = acquire_debt_lease_async d now s in
              (\<lparr>lo_released = False, lo_converted_to_debt = (acquired \<noteq> None),
                lo_open_debt_count = open_count,
                lo_fencing_token = map_option l_fencing_token acquired\<rparr>, s2)))
      else
        (let (released, s2) = release_job_lease_async d job_id now s in
         (\<lparr>lo_released = released, lo_converted_to_debt = False, lo_open_debt_count = 0,
           lo_fencing_token = None\<rparr>, s2)))"

definition handle_job_lease_release ::
  "nat \<Rightarrow> nat \<Rightarrow> job_row option \<Rightarrow> time \<Rightarrow> db \<Rightarrow> lease_outcome \<times> db" where
  "handle_job_lease_release d job_id job now s =
     (case get_device s d of
        None \<Rightarrow> (\<lparr>lo_released = False, lo_converted_to_debt = False, lo_open_debt_count = 0,
                  lo_fencing_token = None\<rparr>, s)
      | Some v \<Rightarrow>
          let the_job = (case job of None \<Rightarrow> get_job s job_id | Some j \<Rightarrow> Some j);
              lease = get_active_lease s d;
              fencing = map_option l_fencing_token lease;
              s1 = (case the_job of
                      None \<Rightarrow> s
                    | Some j \<Rightarrow>
                        (case apply_job_disarm_to_debt_async d j fencing now s of
                           None \<Rightarrow> s | Some s' \<Rightarrow> s'))
          in settle_lease_async d job_id lease now s1)"

subsection \<open>What writing debts leaves alone\<close>

text \<open>
  Recording debts changes the debt table and return states only; the lease view, the device's
  host and retirement and every other table stay.
\<close>

definition blank_return :: "device_row \<Rightarrow> device_row" where
  "blank_return v = v\<lparr>d_return_state := []\<rparr>"

definition returns_only :: "db \<Rightarrow> db \<Rightarrow> bool" where
  "returns_only s t \<longleftrightarrow>
     leases t = leases s \<and> next_lease_id t = next_lease_id s
     \<and> map blank_return (devices t) = map blank_return (devices s)
     \<and> jobs t = jobs s \<and> hosts t = hosts s \<and> runs t = runs s \<and> traces t = traces s \<and> prhs t = prhs s
     \<and> pending_aggregation t = pending_aggregation s"

lemma blank_fields: "d_id (blank_return v) = d_id v" "d_lease_generation (blank_return v) = d_lease_generation v"
  "d_host_id (blank_return v) = d_host_id v" "d_retired_at (blank_return v) = d_retired_at v"
  by (simp_all add: blank_return_def)

lemma map_blank: "map blank_return xs = map blank_return ys \<Longrightarrow>
   map (\<lambda>v. (g (blank_return v), h (blank_return v))) xs = map (\<lambda>v. (g (blank_return v), h (blank_return v))) ys"
  by (drule arg_cong [where f = "map (\<lambda>v. (g v, h v))"]) (simp add: comp_def)

lemma returns_only_same: "returns_only s t \<Longrightarrow> same_leases s t"
  using map_blank [of "devices t" "devices s" d_id d_lease_generation]
  by (simp add: returns_only_def same_leases_def blank_fields)

lemma returns_only_refl [simp]: "returns_only s s"
  by (simp add: returns_only_def)

lemma returns_only_trans: "returns_only s t \<Longrightarrow> returns_only t u \<Longrightarrow> returns_only s u"
  by (simp add: returns_only_def)

lemma returns_only_device:
  "returns_only s t \<Longrightarrow> map_option blank_return (get_device t d) = map_option blank_return (get_device s d)"
  unfolding get_device_def
  by (rule first_row_map_pairs)
     (use map_blank [of "devices t" "devices s" d_id "\<lambda>v. v"] in \<open>simp add: returns_only_def blank_fields\<close>)

lemma returns_only_set_family [simp]: "returns_only s (set_family_return_state d f st src now ex s)"
  by (simp add: returns_only_def set_family_return_state_def upd_device_def map_upd_where blank_return_def)

lemma returns_only_recompute [simp]:
  "returns_only s (recompute_return_state_from_open_debts d rows now s)"
  by (simp add: returns_only_def recompute_return_state_from_open_debts_def upd_device_def
      map_upd_where blank_return_def)

lemma returns_only_insert_debt: "insert_debt b s = Some t \<Longrightarrow> returns_only s t"
  by (auto simp: insert_debt_def returns_only_def split: if_splits)

lemma returns_only_upsert: "upsert_open_debt_sync d f k j tok c ev now s = Some t \<Longrightarrow> returns_only s t"
  by (auto simp: upsert_open_debt_sync_def dest: returns_only_insert_debt split: option.splits if_splits)
     (simp add: returns_only_def)

lemma upsert_async_sync: "upsert_open_debt_async = upsert_open_debt_sync"
proof -
  have "upsert_open_debt_async d f k j tok c ev now s = upsert_open_debt_sync d f k j tok c ev now s"
    for d f k j tok c ev now s
    by (cases j) (simp_all add: upsert_open_debt_async_def upsert_open_debt_sync_def Let_def conj_ac)
  then show ?thesis by (intro ext)
qed

lemma returns_only_apply_results: "apply_results_sync rs d j tok now s = Some t \<Longrightarrow> returns_only s t"
proof (induction rs d j tok now s rule: apply_results_sync.induct)
  case (1 d job token now s)
  then show ?case by simp
next
  case (2 family entry rest d job token now s)
  let ?s1 = "set_family_return_state d family (result_state family entry) ''job'' now
     [(''job_id'', JInt (int job)), (''disarm_result'', JStr (entry_result entry))] s"
  show ?case
  proof (cases "result_state family entry = DEBT")
    case True
    with 2(3) obtain s2 where s2: "upsert_open_debt_sync d family SOURCE_KIND_JOB (Some job) token
         (if entry_result entry = [] then NOT_EXECUTED else entry_result entry) entry now ?s1 = Some s2"
      "apply_results_sync rest d job token now s2 = Some t"
      by (auto simp: Let_def result_state_def split: option.splits)
    with 2(1) True have "returns_only s2 t" by (simp add: result_state_def)
    moreover have "returns_only s s2"
      by (rule returns_only_trans [OF returns_only_set_family returns_only_upsert [OF s2(1)]])
    ultimately show ?thesis by (rule returns_only_trans [rotated])
  next
    case False
    with 2(3) have "apply_results_sync rest d job token now ?s1 = Some t"
      by (simp add: Let_def result_state_def)
    with 2(2) False have "returns_only ?s1 t" by (simp add: result_state_def)
    then show ?thesis by (rule returns_only_trans [OF returns_only_set_family])
  qed
qed

lemma returns_only_apply_job:
  assumes "apply_job_disarm_to_debt_sync d job tok now s = Some (n, t)"
  shows "returns_only s t"
proof -
  from assms obtain s1 where s1: "apply_results_sync (supplement_incomplete_for_footprints
        (normalize_disarm_results (j_disarm_results job)) (footprint_families_for_job_sync s job))
        d (j_id job) tok now s = Some s1"
    and t: "t = recompute_return_state_from_open_debts d (open_debts_sync s1 d) now s1"
    by (auto simp: apply_job_disarm_to_debt_sync_def Let_def split: option.splits)
  from returns_only_apply_results [OF s1] show ?thesis
    unfolding t by (rule returns_only_trans) simp
qed

lemma apply_results_async_sync: "apply_results_async rs d j tok now s = apply_results_sync rs d j tok now s"
  by (induction rs d j tok now s rule: apply_results_sync.induct)
     (simp_all add: upsert_async_sync Let_def split: option.splits)

lemma apply_job_async_sync:
  "apply_job_disarm_to_debt_async d job tok now s
   = map_option snd (apply_job_disarm_to_debt_sync d job tok now s)"
  by (simp add: apply_job_disarm_to_debt_async_def apply_job_disarm_to_debt_sync_def Let_def
      apply_results_async_sync footprint_families_for_job_async_def
      footprint_families_for_job_sync_def open_debts_async_def open_debts_sync_def split: option.splits)

subsection \<open>The debt-lease operations and the lease invariant\<close>

lemma convert_renews: "renews d g (\<lambda>l. l\<lparr>l_type := LT_MAINTENANCE, l_job_id := None,
     l_reason := r, l_holder := h, l_agent_instance_id := a, l_host_id := hh, l_generation := g,
     l_fencing_token := fencing_token d g, l_renewed_at := n, l_expires_at := e,
     l_status := LS_ACTIVE, l_released_at := None\<rparr>)"
  by (simp add: renews_def)

lemma device_of_active:
  assumes "lease_wf s" "get_active_lease s d = Some l"
  obtains v where "get_device s d = Some v"
proof -
  from get_active_lease_Some [OF assms(2)] have "l \<in> set (leases s)" "l_device_id l = d" by auto
  with lease_device [OF assms(1)] that show thesis by metis
qed

lemma convert_wf:
  assumes "lease_wf s" "get_active_lease s d = Some l"
  shows "lease_wf (snd (convert_active_job_to_debt_lease_sync d l now s))"
proof -
  from get_active_lease_Some [OF assms(2)] have l: "l \<in> set (leases s)" "l_device_id l = d" "l_status l = LS_ACTIVE"
    by auto
  obtain v where v: "get_device s d = Some v" using device_of_active [OF assms] by blast
  have g: "generation_of (bump_generation d s) d = Suc (generation_of s d)"
    using generation_bump [OF v] by simp
  show ?thesis
    unfolding convert_active_job_to_debt_lease_sync_def Let_def snd_conv
    by (rule renew_wf [OF assms(1) l(1,3) refl l(2) g convert_renews])
qed

lemma convert_fence:
  assumes "lease_wf s" "get_active_lease s d = Some l"
  shows "fence_step s (snd (convert_active_job_to_debt_lease_sync d l now s))"
proof -
  obtain v where v: "get_device s d = Some v" using device_of_active [OF assms] by blast
  have g: "generation_of (bump_generation d s) d = Suc (generation_of s d)"
    using generation_bump [OF v] by simp
  show ?thesis
    unfolding convert_active_job_to_debt_lease_sync_def Let_def snd_conv
    by (rule renew_fence [OF assms(1) v g convert_renews])
qed

lemma convert_async_sync: "convert_active_job_to_debt_lease_async = convert_active_job_to_debt_lease_sync"
  by (intro ext) (simp add: convert_active_job_to_debt_lease_async_def convert_active_job_to_debt_lease_sync_def)

lemma acquire_debt_async_sync: "acquire_debt_lease_async = acquire_debt_lease_sync"
  by (intro ext) (simp add: acquire_debt_lease_async_def acquire_debt_lease_sync_def)

lemma release_async_sync: "release_job_lease_async = release_job_lease_sync"
  by (intro ext) (simp add: release_job_lease_async_def release_job_lease_sync_def)

lemma get_active_bump [simp]: "get_active_lease (bump_generation d s) e = get_active_lease s e"
  by (simp add: get_active_lease_def)

lemma acquire_debt_wf:
  assumes "lease_wf s"
  shows "lease_wf (snd (acquire_debt_lease_sync d now s))"
proof (cases "get_device s d")
  case None
  with assms show ?thesis by (simp add: acquire_debt_lease_sync_def)
next
  case (Some v)
  have g: "generation_of (bump_generation d s) d = Suc (generation_of s d)"
    using generation_bump [OF Some] by simp
  show ?thesis
    using assms bump_wf [OF assms, of d]
    by (auto simp: acquire_debt_lease_sync_def Some Let_def g split: if_splits
        intro!: insert_wf [OF assms Some])
qed

lemma live_insert:
  "live_token (insert_lease l s) tok \<longleftrightarrow> live_token s tok \<or> (active_lease l \<and> l_fencing_token l = tok)"
  by (auto simp: live_token_def insert_lease_def active_lease_def)

lemma generation_insert [simp]: "generation_of (insert_lease l s) d = generation_of s d"
  by (simp add: generation_of_def get_device_def insert_lease_def)

lemma acquire_debt_fence:
  "fence_step s (snd (acquire_debt_lease_sync d now s))"
proof (cases "get_device s d")
  case None
  then show ?thesis by (simp add: acquire_debt_lease_sync_def)
next
  case (Some v)
  have g: "generation_of (bump_generation d s) d = Suc (generation_of s d)"
    using generation_bump [OF Some] by simp
  have ins: "fence_step s (insert_lease l (bump_generation d s))"
    if "l_fencing_token l = fencing_token d (Suc (generation_of s d))" for l
    using that bump_generation_le [of s _ d] by (auto simp: fence_step_def live_insert)
  show ?thesis
    using bump_fence [of s d]
    by (auto simp: acquire_debt_lease_sync_def Some Let_def g intro!: ins)
qed

lemma release_touches: "touches (\<lambda>l. l\<lparr>l_status := LS_RELEASED, l_released_at := t\<rparr>)"
  by (simp add: touches_def)

lemma release_job_wf: "lease_wf s \<Longrightarrow> lease_wf (snd (release_job_lease_sync d j now s))"
  unfolding release_job_lease_sync_def snd_conv by (rule touch_wf [OF release_touches])

lemma release_job_fence: "fence_step s (snd (release_job_lease_sync d j now s))"
  unfolding release_job_lease_sync_def snd_conv by (rule touch_fence [OF release_touches])

lemma settle_wf:
  assumes wf: "lease_wf s" and l: "lease = get_active_lease s d"
  shows "lease_wf (snd (settle_lease_sync d j lease now s))"
  using wf convert_wf [OF wf] acquire_debt_wf [OF wf] release_job_wf [OF wf] l
  by (auto simp: settle_lease_sync_def Let_def split_beta split: option.splits)

lemma settle_fence:
  assumes wf: "lease_wf s" and l: "lease = get_active_lease s d"
  shows "fence_step s (snd (settle_lease_sync d j lease now s))"
  using convert_fence [OF wf] acquire_debt_fence release_job_fence l
  by (auto simp: settle_lease_sync_def Let_def split_beta split: option.splits)

lemma settle_async_sync: "settle_lease_async = settle_lease_sync"
  by (intro ext) (unfold settle_lease_async_def settle_lease_sync_def convert_async_sync
      acquire_debt_async_sync release_async_sync open_debts_async_def open_debts_sync_def, rule refl)

text \<open>The release entry is: write the debts, then settle the lease found before.\<close>

lemma handle_settles:
  obtains s1 where "returns_only s s1"
    "handle_job_lease_release_sync d j job now s
     = (if get_device s d = None
        then (\<lparr>lo_released = False, lo_converted_to_debt = False, lo_open_debt_count = 0,
               lo_fencing_token = None\<rparr>, s)
        else settle_lease_sync d j (get_active_lease s1 d) now s1)"
proof -
  let ?job = "case job of None \<Rightarrow> get_job s j | Some j \<Rightarrow> Some j"
  let ?tok = "map_option l_fencing_token (get_active_lease s d)"
  let ?s1 = "case ?job of None \<Rightarrow> s
     | Some j \<Rightarrow> (case apply_job_disarm_to_debt_sync d j ?tok now s of None \<Rightarrow> s | Some (n, s') \<Rightarrow> s')"
  have ro: "returns_only s ?s1"
    by (auto split: option.splits dest: returns_only_apply_job)
  have "get_active_lease ?s1 d = get_active_lease s d"
    by (rule same_leases_active [OF returns_only_same [OF ro]])
  then have "handle_job_lease_release_sync d j job now s
     = (if get_device s d = None
        then (\<lparr>lo_released = False, lo_converted_to_debt = False, lo_open_debt_count = 0,
               lo_fencing_token = None\<rparr>, s)
        else settle_lease_sync d j (get_active_lease ?s1 d) now ?s1)"
    by (simp add: handle_job_lease_release_sync_def Let_def split: option.splits)
  with ro that show thesis by blast
qed

lemma handle_wf [lease_inv]:
  assumes "lease_wf s"
  shows "lease_wf (snd (handle_job_lease_release_sync d j job now s))"
proof (rule handle_settles [of s d j job now])
  fix s1 assume ro: "returns_only s s1" and h: "handle_job_lease_release_sync d j job now s
     = (if get_device s d = None
        then (\<lparr>lo_released = False, lo_converted_to_debt = False, lo_open_debt_count = 0,
               lo_fencing_token = None\<rparr>, s)
        else settle_lease_sync d j (get_active_lease s1 d) now s1)"
  from assms same_leases_wf [OF returns_only_same [OF ro]] have "lease_wf s1" by simp
  with assms show ?thesis unfolding h by (simp add: settle_wf)
qed

lemma handle_fence [lease_inv]:
  assumes "lease_wf s"
  shows "fence_step s (snd (handle_job_lease_release_sync d j job now s))"
proof (rule handle_settles [of s d j job now])
  fix s1 assume ro: "returns_only s s1" and h: "handle_job_lease_release_sync d j job now s
     = (if get_device s d = None
        then (\<lparr>lo_released = False, lo_converted_to_debt = False, lo_open_debt_count = 0,
               lo_fencing_token = None\<rparr>, s)
        else settle_lease_sync d j (get_active_lease s1 d) now s1)"
  from assms same_leases_wf [OF returns_only_same [OF ro]] have "lease_wf s1" by simp
  then have "fence_step s1 (snd (settle_lease_sync d j (get_active_lease s1 d) now s1))"
    by (simp add: settle_fence)
  with fence_trans [OF same_leases_fence [OF returns_only_same [OF ro]]] show ?thesis
    unfolding h by simp
qed

lemma handle_async_sync: "handle_job_lease_release d j job now s = handle_job_lease_release_sync d j job now s"
proof -
  have c: "(case map_option snd x of None \<Rightarrow> s | Some t \<Rightarrow> t)
      = (case x of None \<Rightarrow> s | Some (n, t) \<Rightarrow> t)" for x :: "(nat \<times> db) option"
    by (auto split: option.splits)
  show ?thesis
    unfolding handle_job_lease_release_def handle_job_lease_release_sync_def
      settle_async_sync apply_job_async_sync c by (rule refl)
qed

subsection \<open>What the release entry leaves behind\<close>

lemma convert_result:
  assumes wf: "lease_wf s" and l: "get_active_lease s d = Some l"
  shows "get_active_lease (snd (convert_active_job_to_debt_lease_sync d l now s)) d
     = Some (fst (convert_active_job_to_debt_lease_sync d l now s))"
proof (rule lease_wf_get_active [OF convert_wf [OF wf l]])
  from get_active_lease_Some [OF l] have "l \<in> set (leases s)" "l_device_id l = d" by auto
  then show "fst (convert_active_job_to_debt_lease_sync d l now s)
      \<in> set (leases (snd (convert_active_job_to_debt_lease_sync d l now s)))"
    "active_on d (fst (convert_active_job_to_debt_lease_sync d l now s))"
    by (auto simp: convert_active_job_to_debt_lease_sync_def Let_def upd_lease_def set_upd_where active_on_def)
qed

lemma convert_kills_token:
  assumes wf: "lease_wf s" and l: "get_active_lease s d = Some l"
  shows "\<not> live_token (snd (convert_active_job_to_debt_lease_sync d l now s)) (l_fencing_token l)"
proof
  let ?t = "snd (convert_active_job_to_debt_lease_sync d l now s)"
  from get_active_lease_Some [OF l] have l0: "l \<in> set (leases s)" "l_device_id l = d" by auto
  obtain v where v: "get_device s d = Some v" using device_of_active [OF wf l] by blast
  assume "live_token ?t (l_fencing_token l)"
  then obtain x where x: "x \<in> set (leases ?t)" "l_fencing_token x = l_fencing_token l"
    by (auto simp: live_token_def)
  have wft: "lease_wf ?t" by (rule convert_wf [OF wf l])
  have tok: "token_ok x" "token_ok l" using wf wft x l0 by (auto simp: lease_wf_def)
  then have x': "l_device_id x = d" "l_generation x = l_generation l"
    using x(2) l0(2) by (auto simp: token_ok_def)
  have le: "l_generation l \<le> generation_of s d" using lease_generation_le [OF wf l0(1)] l0(2) by simp
  from x(1) have "x \<in> set (upd_where (\<lambda>y. l_id y = l_id l) (\<lambda>y. y\<lparr>l_type := LT_MAINTENANCE,
     l_job_id := None, l_reason := Some DEBT_LEASE_REASON, l_holder := Some DEBT_LEASE_HOLDER,
     l_agent_instance_id := DEBT_LEASE_AGENT_INSTANCE_ID,
     l_host_id := device_host (bump_generation d s) d, l_generation := Suc (generation_of s d),
     l_fencing_token := fencing_token d (Suc (generation_of s d)), l_renewed_at := now,
     l_expires_at := DEBT_LEASE_EXPIRES_AT, l_status := LS_ACTIVE, l_released_at := None\<rparr>) (leases s))"
    by (simp add: convert_active_job_to_debt_lease_sync_def Let_def upd_lease_def generation_bump [OF v])
  then show False
  proof (cases rule: in_upd_whereE)
    case 1
    from wf have "distinct (map l_fencing_token (leases s))" by (simp add: lease_wf_def)
    from distinct_map_single [OF this 1(1) l0(1) x(2)] 1(2) show False by simp
  next
    case (2 y)
    with x'(2) le show False by simp
  qed
qed

lemma convert_is_debt: "is_debt_lease_row (fst (convert_active_job_to_debt_lease_sync d l now s))"
  by (simp add: convert_active_job_to_debt_lease_sync_def Let_def is_debt_lease_row_def)

lemma acquire_debt_result:
  assumes wf: "lease_wf s" and v: "get_device s d = Some v" "d_retired_at v = None" "\<not> no_text (d_host_id v)"
    and free: "get_active_lease s d = None"
  shows "\<exists>l. fst (acquire_debt_lease_sync d now s) = Some l \<and> is_debt_lease_row l
    \<and> get_active_lease (snd (acquire_debt_lease_sync d now s)) d = Some l"
proof -
  let ?r = "acquire_debt_lease_sync d now s"
  from v free obtain l where l: "fst ?r = Some l" "snd ?r = insert_lease l (bump_generation d s)"
    "is_debt_lease_row l" "active_on d l" "l_id l = next_lease_id s"
    by (auto simp: acquire_debt_lease_sync_def Let_def is_debt_lease_row_def active_on_def)
  have "l \<in> set (leases (snd ?r))" using l by (simp add: insert_lease_def)
  with lease_wf_get_active [OF acquire_debt_wf [OF wf] this l(4)] l(1,3) show ?thesis by blast
qed

lemma open_debts_leases_upd [simp]:
  "open_debts_sync (upd_leases P f s) d = open_debts_sync s d"
  "open_debts_sync (upd_lease i f s) d = open_debts_sync s d"
  "open_debts_sync (bump_generation e s) d = open_debts_sync s d"
  "open_debts_sync (insert_lease l s) d = open_debts_sync s d"
  by (simp_all add: open_debts_sync_def upd_leases_def upd_lease_def bump_generation_def upd_device_def
      insert_lease_def)

lemma settle_open_debts: "open_debts_sync (snd (settle_lease_sync d j lease now s)) e = open_debts_sync s e"
  by (simp add: settle_lease_sync_def convert_active_job_to_debt_lease_sync_def Let_def split_beta
      release_job_lease_sync_def acquire_debt_lease_sync_def split: option.splits)

lemma settle_count: "lo_open_debt_count (fst (settle_lease_sync d j lease now s)) = length (open_debts_sync s d)"
  by (simp add: settle_lease_sync_def Let_def split_beta split: option.splits)

definition ours :: "nat \<Rightarrow> lease_row option \<Rightarrow> bool" where
  \<comment> \<open>the lease the entry may touch: none, the job's own, or the platform's\<close>
  "ours j lease = (case lease of None \<Rightarrow> True
     | Some l \<Rightarrow> (l_type l = LT_JOB \<and> l_job_id l = Some j) \<or> is_debt_lease_row l)"

lemma settle_holds:
  assumes wf: "lease_wf s" and v: "get_device s d = Some v" "d_retired_at v = None" "\<not> no_text (d_host_id v)"
    and debt: "open_debts_sync s d \<noteq> []" and ours: "ours j (get_active_lease s d)"
  shows "\<exists>l. get_active_lease (snd (settle_lease_sync d j (get_active_lease s d) now s)) d = Some l
     \<and> is_debt_lease_row l
     \<and> lo_fencing_token (fst (settle_lease_sync d j (get_active_lease s d) now s)) = Some (l_fencing_token l)"
proof (cases "get_active_lease s d")
  case None
  from acquire_debt_result [OF wf v None, of now] debt None show ?thesis
    by (auto simp: settle_lease_sync_def split_beta Let_def)
next
  case (Some l)
  show ?thesis
  proof (cases "l_type l = LT_JOB \<and> l_job_id l = Some j")
    case True
    with Some debt convert_result [OF wf Some, of now] convert_is_debt [of d l now s] show ?thesis
      by (auto simp: settle_lease_sync_def split_beta Let_def)
  next
    case False
    with Some debt ours show ?thesis
      by (auto simp: settle_lease_sync_def split_beta Let_def ours_def is_debt_lease_def)
  qed
qed

lemma active_single:
  assumes "lease_wf s" "get_active_lease s d = Some l"
  shows "filter (active_on d) (leases s) = [l]"
proof -
  from assms(1) have "length (filter (active_on d) (leases s)) \<le> 1"
    by (simp add: lease_wf_def one_active_def)
  with assms(2) show ?thesis
    unfolding get_active_lease_def by (cases "filter (active_on d) (leases s)") auto
qed

lemma dead_after_release:
  assumes wf: "lease_wf s" and l: "get_job_lease s d j = Some l"
  shows "\<not> live_token (snd (release_job_lease_sync d j now s)) (l_fencing_token l)"
proof
  assume "live_token (snd (release_job_lease_sync d j now s)) (l_fencing_token l)"
  then obtain x where x: "x \<in> set (upd_where (job_lease_on d j)
      (\<lambda>l. l\<lparr>l_status := LS_RELEASED, l_released_at := Some now\<rparr>) (leases s))"
    "active_lease x" "l_fencing_token x = l_fencing_token l"
    by (auto simp: live_token_def release_job_lease_sync_def upd_leases_def)
  from get_job_lease_Some [OF l] have l0: "l \<in> set (leases s)" "job_lease_on d j l" by auto
  from x(1) show False
  proof (cases rule: in_upd_whereE)
    case 1
    from wf have "distinct (map l_fencing_token (leases s))" by (simp add: lease_wf_def)
    from distinct_map_single [OF this 1(1) l0(1) x(3)] 1(2) l0(2) show False by simp
  next
    case (2 y)
    with x(2) show False by (simp add: active_lease_def)
  qed
qed

lemma released_none: "get_job_lease (snd (release_job_lease_sync d j now s)) d j = None"
proof -
  have "\<not> job_lease_on d j l" if "l \<in> set (leases (snd (release_job_lease_sync d j now s)))" for l
  proof -
    from that have "l \<in> set (upd_where (job_lease_on d j)
       (\<lambda>l. l\<lparr>l_status := LS_RELEASED, l_released_at := Some now\<rparr>) (leases s))"
      by (simp add: release_job_lease_sync_def upd_leases_def)
    then show ?thesis by (cases rule: in_upd_whereE) (simp_all add: job_lease_on_def)
  qed
  then show ?thesis by (simp add: get_job_lease_def filter_empty_conv)
qed

lemma settle_kills_token:
  assumes wf: "lease_wf s" and l: "get_job_lease s d j = Some l"
  shows "\<not> live_token (snd (settle_lease_sync d j (get_active_lease s d) now s)) (l_fencing_token l)"
proof -
  from get_job_lease_Some [OF l] have l0: "l \<in> set (leases s)" "job_lease_on d j l" by auto
  have act: "get_active_lease s d = Some l"
    by (rule lease_wf_get_active [OF wf l0(1) job_lease_active [OF l0(2)]])
  from l0(2) convert_kills_token [OF wf act, of now] dead_after_release [OF wf l, of now] show ?thesis
    by (auto simp: act settle_lease_sync_def split_beta Let_def job_lease_on_def)
qed

text \<open>
  C19. An indebted device is never free: when the release entry ends with open debts on a device
  that is in service (not retired, with a host), and its ACTIVE lease before was none, the job's
  own or the platform's, then the device holds exactly one ACTIVE lease, the platform's debt
  lease, whose token the entry reports; and the token the job held is dead.
\<close>

theorem job_release_holds_indebted_device:
  assumes wf: "lease_wf s"
    and v: "get_device s d = Some v" "d_retired_at v = None" "\<not> no_text (d_host_id v)"
    and ours: "ours j (get_active_lease s d)"
    and h: "handle_job_lease_release_sync d j job now s = (out, t)"
    and debt: "lo_open_debt_count out > 0"
  shows "(\<exists>l. filter (active_on d) (leases t) = [l] \<and> is_debt_lease_row l
            \<and> lo_fencing_token out = Some (l_fencing_token l))
     \<and> (\<forall>l0. get_job_lease s d j = Some l0 \<longrightarrow> \<not> live_token t (l_fencing_token l0))"
proof (rule handle_settles [of s d j job now])
  fix s1 assume ro: "returns_only s s1" and hs: "handle_job_lease_release_sync d j job now s
     = (if get_device s d = None
        then (\<lparr>lo_released = False, lo_converted_to_debt = False, lo_open_debt_count = 0,
               lo_fencing_token = None\<rparr>, s)
        else settle_lease_sync d j (get_active_lease s1 d) now s1)"
  let ?r = "settle_lease_sync d j (get_active_lease s1 d) now s1"
  from hs h v(1) have "?r = (out, t)" by simp
  then have r: "out = fst ?r" "t = snd ?r" by simp_all
  note sl = returns_only_same [OF ro]
  have wf1: "lease_wf s1" using wf same_leases_wf [OF sl] by simp
  from returns_only_device [OF ro, of d] v(1) obtain v1 where v1: "get_device s1 d = Some v1"
    "blank_return v1 = blank_return v" by auto
  then have "d_retired_at v1 = None" "\<not> no_text (d_host_id v1)"
    using v blank_fields(3,4) by metis+
  moreover have "open_debts_sync s1 d \<noteq> []" using debt r settle_count by auto
  moreover have "ours j (get_active_lease s1 d)" using ours same_leases_active [OF sl] by simp
  ultimately obtain l where l: "get_active_lease t d = Some l" "is_debt_lease_row l"
    "lo_fencing_token out = Some (l_fencing_token l)"
    using settle_holds [OF wf1 v1(1)] r by blast
  have "filter (active_on d) (leases t) = [l]"
    using active_single [OF settle_wf [OF wf1 refl]] l(1) r by blast
  moreover have "\<not> live_token t (l_fencing_token l0)" if "get_job_lease s d j = Some l0" for l0
    using settle_kills_token [OF wf1] that same_leases_job_lease [OF sl] r by simp
  ultimately show ?thesis using l by blast
qed

definition debt_db :: db where
  \<comment> \<open>device 5 of host h1 leased to job 7, whose gpu footprints could not be read back\<close>
  "debt_db = leased_db\<lparr>jobs := [sample_job\<lparr>j_disarm_results :=
      JObj [(''gpu'', JObj [(''result'', JStr READBACK_FAILED)])]\<rparr>]\<rparr>"

lemma debt_db_wf: "lease_wf debt_db"
  using leased_db_wf by (simp add: debt_db_def lease_wf_def)

lemma job_release_holds_indebted_device_witness:
  "\<exists>out t l. handle_job_lease_release_sync 5 7 None 800 debt_db = (out, t)
     \<and> filter (active_on 5) (leases t) = [l] \<and> is_debt_lease_row l"
proof -
  obtain out t where h: "handle_job_lease_release_sync 5 7 None 800 debt_db = (out, t)"
    by (cases "handle_job_lease_release_sync 5 7 None 800 debt_db")
  have "lo_open_debt_count (fst (handle_job_lease_release_sync 5 7 None 800 debt_db)) = 1" by code_simp
  with h have n: "lo_open_debt_count out > 0" by simp
  let ?v = "sample_device\<lparr>d_lease_generation := 1\<rparr>"
  have v: "get_device debt_db 5 = Some ?v" "d_retired_at ?v = None" "\<not> no_text (d_host_id ?v)"
    by (simp_all add: debt_db_def leased_db_def get_device_def sample_device_def no_text_def)
  have "ours 7 (get_active_lease debt_db 5)" by code_simp
  from job_release_holds_indebted_device [OF debt_db_wf v this h n] h show ?thesis by blast
qed

text \<open>
  A clean job gives its device back: when the release entry ends without open debts, the
  device has no JOB lease of the job any more, the token it held is dead, the answer says released
  exactly when such a lease was ACTIVE, and every other lease keeps every column.
\<close>

theorem job_release_without_debt:
  assumes wf: "lease_wf s" and v: "get_device s d \<noteq> None"
    and h: "handle_job_lease_release_sync d j job now s = (out, t)"
    and clean: "lo_open_debt_count out = 0"
  shows "get_job_lease t d j = None
     \<and> (\<forall>l0. get_job_lease s d j = Some l0 \<longrightarrow> \<not> live_token t (l_fencing_token l0))
     \<and> (lo_released out \<longleftrightarrow> get_job_lease s d j \<noteq> None)
     \<and> leases t = map (\<lambda>l. if job_lease_on d j l
          then l\<lparr>l_status := LS_RELEASED, l_released_at := Some now\<rparr> else l) (leases s)"
proof (rule handle_settles [of s d j job now])
  fix s1 assume ro: "returns_only s s1" and hs: "handle_job_lease_release_sync d j job now s
     = (if get_device s d = None
        then (\<lparr>lo_released = False, lo_converted_to_debt = False, lo_open_debt_count = 0,
               lo_fencing_token = None\<rparr>, s)
        else settle_lease_sync d j (get_active_lease s1 d) now s1)"
  let ?r = "settle_lease_sync d j (get_active_lease s1 d) now s1"
  from hs h v have "?r = (out, t)" by simp
  then have r: "out = fst ?r" "t = snd ?r" by simp_all
  note sl = returns_only_same [OF ro]
  have wf1: "lease_wf s1" using wf same_leases_wf [OF sl] by simp
  have same: "leases s1 = leases s" using ro by (simp add: returns_only_def)
  have none: "open_debts_sync s1 d = []" using clean r settle_count by auto
  have t: "t = snd (release_job_lease_sync d j now s1)" and rel: "lo_released out = fst (release_job_lease_sync d j now s1)"
    using r none by (simp_all add: settle_lease_sync_def split_beta Let_def)
  have lt: "leases t = map (\<lambda>l. if job_lease_on d j l
       then l\<lparr>l_status := LS_RELEASED, l_released_at := Some now\<rparr> else l) (leases s)"
    using t same by (simp add: release_job_lease_sync_def upd_leases_def upd_where_def)
  have "get_job_lease t d j = None" unfolding t by (rule released_none)
  moreover have "lo_released out \<longleftrightarrow> get_job_lease s d j \<noteq> None"
    using rel same by (auto simp: release_job_lease_sync_def get_job_lease_def list_ex_iff filter_empty_conv)
  moreover have "\<not> live_token t (l_fencing_token l0)" if "get_job_lease s d j = Some l0" for l0
    using dead_after_release [OF wf1, of d j l0 now] that same_leases_job_lease [OF sl] t by simp
  moreover note lt
  ultimately show ?thesis by blast
qed

lemma job_release_without_debt_witness:
  "\<exists>out t. handle_job_lease_release_sync 5 7 None 800 leased_db = (out, t) \<and> lo_released out
     \<and> get_job_lease t 5 7 = None"
proof -
  obtain out t where h: "handle_job_lease_release_sync 5 7 None 800 leased_db = (out, t)"
    by (cases "handle_job_lease_release_sync 5 7 None 800 leased_db")
  have "lo_open_debt_count (fst (handle_job_lease_release_sync 5 7 None 800 leased_db)) = 0" by code_simp
  with h have n: "lo_open_debt_count out = 0" by simp
  have v: "get_device leased_db 5 \<noteq> None"
    by (simp add: leased_db_def get_device_def sample_device_def)
  have "get_job_lease leased_db 5 7 \<noteq> None" by code_simp
  with job_release_without_debt [OF leased_db_wf v h n] h show ?thesis by blast
qed

text \<open>
  C39. The asynchronous release entry (completion, recovery, reconciler) and the synchronous one
  (recycler, emergency release) are the same function of the database, and neither can break the
  lease invariant or revive a dead token.
\<close>

theorem release_entries_agree:
  assumes "lease_wf s"
  shows "handle_job_lease_release d j job now s = handle_job_lease_release_sync d j job now s
     \<and> lease_wf (snd (handle_job_lease_release d j job now s))
     \<and> fence_step s (snd (handle_job_lease_release d j job now s))"
  using handle_wf [OF assms, of d j job now] handle_fence [OF assms, of d j job now]
  by (simp add: handle_async_sync)

lemma release_entries_agree_witness:
  "lease_wf (snd (handle_job_lease_release 5 7 None 800 debt_db))"
  using release_entries_agree [OF debt_db_wf, of 5 7 None 800] by blast

subsection \<open>Which debts a job leaves, and the aggregate state\<close>

lemma open_debts_upsert:
  assumes "upsert_open_debt_sync d f k (Some j) tok c ev now s = Some t"
  shows "(\<exists>b\<in>set (debts t). open_debt_on d b \<and> b_family b = f \<and> b_source_job_id b = Some j)
     \<and> (\<forall>b\<in>set (debts s). \<exists>b'\<in>set (debts t). b_device_id b' = b_device_id b \<and> b_state b' = b_state b
           \<and> b_family b' = b_family b \<and> b_source_job_id b' = b_source_job_id b)"
proof (cases "first_row (filter (\<lambda>b. b_device_id b = d \<and> b_family b = f \<and> b_source_kind b = k
          \<and> b_source_job_id b = Some j \<and> b_state b = DEBT_OPEN) (debts s))")
  case None
  with assms have "debts t = debts s @ [\<lparr>b_id = next_debt_id s, b_device_id = d, b_family = f,
     b_source_kind = k, b_source_job_id = Some j, b_source_fencing_token = tok, b_cause = c,
     b_state = DEBT_OPEN, b_closed_reason = None, b_closed_at = None, b_created_at = now,
     b_evidence = evidence_json ev\<rparr>]"
    by (auto simp: upsert_open_debt_sync_def insert_debt_def split: if_splits)
  then show ?thesis by (auto simp: open_debt_on_def)
next
  case (Some e)
  let ?g = "\<lambda>b. if ev \<noteq> [] \<and> b_id b = b_id e then b\<lparr>b_evidence := JObj ev\<rparr> else b"
  from Some assms have t: "set (debts t) = ?g ` set (debts s)"
    by (auto simp: upsert_open_debt_sync_def upd_where_def split: if_splits)
  have keep: "b_device_id (?g b) = b_device_id b" "b_state (?g b) = b_state b"
    "b_family (?g b) = b_family b" "b_source_job_id (?g b) = b_source_job_id b" for b by auto
  from first_row_filterD [OF Some] have "e \<in> set (debts s)" "open_debt_on d e" "b_family e = f"
    "b_source_job_id e = Some j" by (auto simp: open_debt_on_def)
  then have "?g e \<in> set (debts t)" "open_debt_on d (?g e)" "b_family (?g e) = f" "b_source_job_id (?g e) = Some j"
    unfolding t using keep [of e] by (auto simp: open_debt_on_def)
  moreover have "\<exists>b'\<in>set (debts t). b_device_id b' = b_device_id b \<and> b_state b' = b_state b
           \<and> b_family b' = b_family b \<and> b_source_job_id b' = b_source_job_id b"
    if "b \<in> set (debts s)" for b
    using that keep [of b] unfolding t by (intro bexI [of _ "?g b"]) auto
  ultimately show ?thesis by blast
qed

definition owes :: "db \<Rightarrow> nat \<Rightarrow> string \<Rightarrow> nat \<Rightarrow> bool" where
  "owes s d f j = (\<exists>b\<in>set (debts s). open_debt_on d b \<and> b_family b = f \<and> b_source_job_id b = Some j)"

lemma owes_upsert:
  assumes "upsert_open_debt_sync d f k (Some j) tok c ev now s = Some t"
  shows "owes t d f j" "owes s d' f' j' \<Longrightarrow> owes t d' f' j'"
  using open_debts_upsert [OF assms] unfolding owes_def open_debt_on_def by metis+

lemma owes_set_family [simp]: "owes (set_family_return_state d' f' st src now ex s) d f j = owes s d f j"
  by (simp add: owes_def set_family_return_state_def upd_device_def)

lemma apply_results_owes:
  "apply_results_sync rs d j tok now s = Some t \<Longrightarrow>
     (\<forall>d' f' j'. owes s d' f' j' \<longrightarrow> owes t d' f' j')
     \<and> (\<forall>(f, entry)\<in>set rs. result_state f entry = DEBT \<longrightarrow> owes t d f j)"
proof (induction rs d j tok now s rule: apply_results_sync.induct)
  case (1 d job token now s)
  then show ?case by simp
next
  case (2 family entry rest d job token now s)
  let ?s1 = "set_family_return_state d family (result_state family entry) ''job'' now
     [(''job_id'', JInt (int job)), (''disarm_result'', JStr (entry_result entry))] s"
  show ?case
  proof (cases "result_state family entry = DEBT")
    case True
    with 2(3) obtain s2 where s2: "upsert_open_debt_sync d family SOURCE_KIND_JOB (Some job) token
         (if entry_result entry = [] then NOT_EXECUTED else entry_result entry) entry now ?s1 = Some s2"
      "apply_results_sync rest d job token now s2 = Some t"
      by (auto simp: Let_def result_state_def split: option.splits)
    with 2(1) True have rest: "\<forall>d' f' j'. owes s2 d' f' j' \<longrightarrow> owes t d' f' j'"
      "\<forall>(f, entry)\<in>set rest. result_state f entry = DEBT \<longrightarrow> owes t d f job"
      by (simp_all add: result_state_def)
    from owes_upsert [OF s2(1)] rest show ?thesis by auto
  next
    case False
    with 2(3) have "apply_results_sync rest d job token now ?s1 = Some t"
      by (simp add: Let_def result_state_def)
    with 2(2) False have "(\<forall>d' f' j'. owes ?s1 d' f' j' \<longrightarrow> owes t d' f' j')
      \<and> (\<forall>(f, entry)\<in>set rest. result_state f entry = DEBT \<longrightarrow> owes t d f job)"
      by (simp add: result_state_def)
    with False show ?thesis by auto
  qed
qed

text \<open>
  No owed family is forgotten: when a job's results are written, every family whose result
  (reported, or supplied because an init footprint has no terminal report) maps to debt has an
  open debt row of that job, and no debt that was open before is closed by it.
\<close>

theorem job_debts_recorded:
  assumes "apply_job_disarm_to_debt_sync d job tok now s = Some (n, t)"
  shows "(\<forall>(f, entry)\<in>set (supplement_incomplete_for_footprints
            (normalize_disarm_results (j_disarm_results job)) (footprint_families_for_job_sync s job)).
          result_state f entry = DEBT \<longrightarrow> owes t d f (j_id job))
     \<and> (\<forall>d' f j'. owes s d' f j' \<longrightarrow> owes t d' f j') \<and> n = length (open_debts_sync t d)"
proof -
  let ?rs = "supplement_incomplete_for_footprints
        (normalize_disarm_results (j_disarm_results job)) (footprint_families_for_job_sync s job)"
  from assms obtain s1 where s1: "apply_results_sync ?rs d (j_id job) tok now s = Some s1"
    and t: "t = recompute_return_state_from_open_debts d (open_debts_sync s1 d) now s1"
    and n: "n = length (open_debts_sync s1 d)"
    by (auto simp: apply_job_disarm_to_debt_sync_def Let_def split: option.splits)
  have "debts t = debts s1"
    by (simp add: t recompute_return_state_from_open_debts_def upd_device_def)
  then have "owes t = owes s1" "open_debts_sync t d = open_debts_sync s1 d"
    by (simp_all add: owes_def open_debts_sync_def fun_eq_iff)
  with apply_results_owes [OF s1] n show ?thesis by simp
qed

lemma job_debts_recorded_witness:
  "\<exists>n t. apply_job_disarm_to_debt_sync 5 (the (get_job debt_db 7)) None 800 debt_db = Some (n, t)
     \<and> owes t 5 ''gpu'' 7"
proof -
  have "apply_job_disarm_to_debt_sync 5 (the (get_job debt_db 7)) None 800 debt_db \<noteq> None" by code_simp
  then obtain n t where a: "apply_job_disarm_to_debt_sync 5 (the (get_job debt_db 7)) None 800 debt_db = Some (n, t)"
    by auto
  have "list_ex (\<lambda>(f, entry). f = ''gpu'' \<and> result_state f entry = DEBT)
      (supplement_incomplete_for_footprints
        (normalize_disarm_results (j_disarm_results (the (get_job debt_db 7))))
        (footprint_families_for_job_sync debt_db (the (get_job debt_db 7)))) \<and> j_id (the (get_job debt_db 7)) = 7"
    by code_simp
  with job_debts_recorded [OF a] a show ?thesis by (fastforce simp: list_ex_iff)
qed

text \<open>
  The aggregate state orders debt over unverified over returned: a device is in debt exactly
  when some registered family is, and returned exactly when every registered family is.
\<close>

theorem aggregate_return_state_order:
  "(device_aggregate_return_state rs = DEBT
      \<longleftrightarrow> (\<exists>f. is_family f \<and> family_entry_state rs f = DEBT))
   \<and> (device_aggregate_return_state rs = RETURNED
      \<longleftrightarrow> list_all (\<lambda>f. family_entry_state rs f = RETURNED) (map fst FAMILY_STEPS))
   \<and> device_aggregate_return_state rs \<in> {DEBT, UNVERIFIED, RETURNED}"
proof (cases "rs = []")
  case True
  have "family_entry_state [] f = UNVERIFIED" for f by (simp add: family_entry_state_def)
  moreover have "is_family ''gpu''" by (simp add: is_family_def FAMILY_STEPS_def)
  ultimately show ?thesis using True by (auto simp: device_aggregate_return_state_def FAMILY_STEPS_def)
next
  case False
  let ?st = "family_entry_state rs ` set (map fst FAMILY_STEPS)"
  have ne: "is_family ''gpu''" by (simp add: is_family_def FAMILY_STEPS_def)
  have fam: "(P \<in> ?st) = (\<exists>f. is_family f \<and> family_entry_state rs f = P)" for P
    unfolding is_family_def by auto
  have agg: "device_aggregate_return_state rs =
      (if DEBT \<in> ?st then DEBT else if UNVERIFIED \<in> ?st then UNVERIFIED
       else if (\<forall>s\<in>?st. s = RETURNED) then RETURNED else UNVERIFIED)"
    using False by (simp add: device_aggregate_return_state_def Let_def FAMILY_STEPS_def)
  have fin: "list_all (\<lambda>f. family_entry_state rs f = RETURNED) (map fst FAMILY_STEPS)
      = (\<forall>f. is_family f \<longrightarrow> family_entry_state rs f = RETURNED)"
    unfolding is_family_def list_all_iff by auto
  have all: "(\<forall>s\<in>?st. s = RETURNED) = (\<forall>f. is_family f \<longrightarrow> family_entry_state rs f = RETURNED)"
    unfolding is_family_def by auto
  show ?thesis unfolding agg all fam fin using ne by auto
qed

end
