(* ===== verification/Disarm_Derive.thy ===== *)
theory Disarm_Derive
  imports Return_Debt "HOL-Library.Multiset"
begin

section \<open>Disarm results from step traces (services/disarm\_derive.py) and JSON text\<close>

text \<open>
  What the control plane concludes on its own, when the agent reports nothing: the footprint
  families from init traces and, per family, the outcome of the last disarm step in order of
  occurrence.  And the text of a JSON document as \<open>json.dumps(..., sort_keys=True)\<close> writes it,
  which audit digests and terminal-payload digests hash.
\<close>

subsection \<open>\<open>json.dumps\<close> with sorted keys\<close>

fun utf8_points :: "string \<Rightarrow> nat list" where
  "utf8_points [] = []"
| "utf8_points (c # cs) =
     (let n = (of_char c :: nat) in
      if 240 \<le> n then
        (case cs of x # y # z # rest \<Rightarrow>
           ((n mod 8) * 262144 + (of_char x mod 64) * 4096 + (of_char y mod 64) * 64
            + of_char z mod 64) # utf8_points rest
         | _ \<Rightarrow> n # utf8_points cs)
      else if 224 \<le> n then
        (case cs of x # y # rest \<Rightarrow>
           ((n mod 16) * 4096 + (of_char x mod 64) * 64 + of_char y mod 64) # utf8_points rest
         | _ \<Rightarrow> n # utf8_points cs)
      else if 192 \<le> n then
        (case cs of x # rest \<Rightarrow>
           ((n mod 32) * 64 + of_char x mod 64) # utf8_points rest
         | _ \<Rightarrow> n # utf8_points cs)
      else n # utf8_points cs)"

definition hex4 :: "nat \<Rightarrow> string" where
  "hex4 n = [CHR 0x5C, CHR ''u'', hex_char (n div 4096 mod 16), hex_char (n div 256 mod 16),
     hex_char (n div 16 mod 16), hex_char (n mod 16)]"

definition json_escape :: "nat \<Rightarrow> string" where
  "json_escape n =
     (let bs = CHR 0x5C in
      if n = 34 then [bs, CHR 0x22] else if n = 92 then [bs, bs]
      else if n = 10 then [bs, CHR ''n''] else if n = 13 then [bs, CHR ''r'']
      else if n = 9 then [bs, CHR ''t''] else if n = 8 then [bs, CHR ''b'']
      else if n = 12 then [bs, CHR ''f'']
      else if 32 \<le> n \<and> n \<le> 126 then [char_of n]
      else if n < 65536 then hex4 n
      else hex4 (55296 + (n - 65536) div 1024) @ hex4 (56320 + (n - 65536) mod 1024))"

definition json_text :: "string \<Rightarrow> string" where
  "json_text s = [CHR 0x22] @ concat (map json_escape (utf8_points s)) @ [CHR 0x22]"

fun json_dumps :: "string \<Rightarrow> string \<Rightarrow> json \<Rightarrow> string" where
  "json_dumps isep ksep JNull = ''null''"
| "json_dumps isep ksep (JBool b) = (if b then ''true'' else ''false'')"
| "json_dumps isep ksep (JInt i) = dec_int i"
| "json_dumps isep ksep (JStr s) = json_text s"
| "json_dumps isep ksep (JTime t) = json_text (isoformat t)"
| "json_dumps isep ksep (JList xs) = ''['' @ join isep (map (json_dumps isep ksep) xs) @ '']''"
| "json_dumps isep ksep (JObj kvs) =
     CHR 0x7B # join isep (map (\<lambda>kv. json_text (fst kv) @ ksep @ snd kv)
       (sort_key fst (map (\<lambda>kv. (fst kv, json_dumps isep ksep (snd kv))) kvs))) @ [CHR 0x7D]"

definition json_dumps_sorted :: "json \<Rightarrow> string" where
  \<comment> \<open>\<open>json.dumps(x, sort_keys=True)\<close>\<close>
  "json_dumps_sorted x = json_dumps '', '' '': '' x"

text \<open>The text does not depend on the order in which a dictionary was filled.\<close>

lemma json_dumps_key_order:
  assumes "distinct (map fst a)" "mset a = mset b"
  shows "json_dumps isep ksep (JObj a) = json_dumps isep ksep (JObj b)"
proof -
  let ?f = "\<lambda>kv. (fst kv, json_dumps isep ksep (snd kv))"
  have "mset (map ?f a) = mset (map ?f b)" using assms(2) by simp
  moreover have "inj_on fst (set (map ?f a))"
    using assms(1) by (auto simp: distinct_map inj_on_def)
  moreover have "map fst (map ?f a) = map fst a" by simp
  ultimately have "sort_key fst (map ?f a) = sort_key fst (map ?f b)"
    by (intro sort_key_inj_key_eq) simp_all
  then show ?thesis by simp
qed

subsection \<open>The steps of a frozen pipeline\<close>

definition script_name_from_action :: "json \<Rightarrow> string" where
  "script_name_from_action action =
     (case action of
        JStr a \<Rightarrow> if starts_with ''script:'' a then strip (drop 7 a) else []
      | _ \<Rightarrow> [])"

definition pipeline_steps_by_stage :: "json \<Rightarrow> string \<Rightarrow> jobj list" where
  "pipeline_steps_by_stage pipeline_def stage =
     (case pipeline_def of
        JObj p \<Rightarrow>
          (case jor (jget p ''lifecycle'') (JObj []) of
             JObj lc \<Rightarrow>
               (let steps = jor (jget lc stage) (JList []);
                    steps1 = (case steps of JObj st \<Rightarrow> jor (jget st ''steps'') (JList []) | x \<Rightarrow> x)
                in case steps1 of JList xs \<Rightarrow> objs_of xs | _ \<Rightarrow> [])
           | _ \<Rightarrow> [])
      | _ \<Rightarrow> [])"

definition derive_add_step :: "jobj \<Rightarrow> (string \<times> string) list \<Rightarrow> (string \<times> string) list" where
  "derive_add_step step m =
     (let sid = jor (jget step ''step_id'') (JStr []);
          script = script_name_from_action (jget step ''action'')
      in if truthy sid \<and> script \<noteq> [] then AList.update (py_str sid) script m else m)"

definition step_id_to_script :: "json \<Rightarrow> (string \<times> string) list" where
  "step_id_to_script pipeline_def =
     fold derive_add_step
       (concat (map (pipeline_steps_by_stage pipeline_def) [''init'', ''teardown'', ''patrol''])) []"

definition spec_scripts :: "family_spec \<Rightarrow> string \<Rightarrow> string list" where
  "spec_scripts spec role =
     (if role = ''footprint'' then fs_footprint spec
      else if role = ''disarm'' then fs_disarm spec
      else if role = ''disarm_onboarded'' then fs_disarm_onboarded spec else [])"

definition family_for_script :: "string \<Rightarrow> string \<Rightarrow> string option" where
  "family_for_script script role =
     (if script = [] then None
      else map_option fst (List.find (\<lambda>(f, spec). script \<in> set (spec_scripts spec role)
             \<or> (role = ''disarm'' \<and> script \<in> set (fs_disarm_onboarded spec))) FAMILY_STEPS))"

subsection \<open>Trace outcomes\<close>

definition SIGNAL_EXIT_CODES :: "int list" where
  "SIGNAL_EXIT_CODES = [143, -15, 137, -9]"

definition map_trace_to_disarm_result :: "string \<Rightarrow> int option \<Rightarrow> string" where
  "map_trace_to_disarm_result status code =
     (let st = upper (strip status) in
      if code_in code PLATFORM_INTERRUPTED then INCOMPLETE
      else if st \<in> {''COMPLETED'', ''FINISHED'', ''SUCCESS'', ''OK''} then EXECUTED_UNVERIFIED
      else if st \<in> {''FAILED'', ''ERROR'', ''ABORTED'', ''CANCELLED'', ''CANCELED''}
      then (if code_in code SIGNAL_EXIT_CODES then INCOMPLETE else FAILED_R)
      else NOT_EXECUTED)"

definition is_disarm_terminal_status :: "string \<Rightarrow> bool" where
  "is_disarm_terminal_status status =
     (upper (strip status) \<in> {''COMPLETED'', ''FINISHED'', ''SUCCESS'', ''OK'',
        ''FAILED'', ''ERROR'', ''ABORTED'', ''CANCELLED'', ''CANCELED''})"

type_synonym occurrence = "(nat \<times> time) \<times> time \<times> nat \<times> nat"

definition trace_occurrence_key :: "trace_row \<Rightarrow> nat \<Rightarrow> occurrence" where
  "trace_occurrence_key t index =
     ((case t_original_ts t of Some ts \<Rightarrow> (0, ts) | None \<Rightarrow> (1, 0)), t_created_at t, t_id t, index)"

record disarm_event =
  ev_status :: string
  ev_exit_code :: "int option"
  ev_step_id :: string
  ev_result :: "string option"

definition add_event ::
  "string \<Rightarrow> occurrence \<times> disarm_event \<Rightarrow> (string \<times> (occurrence \<times> disarm_event) list) list
   \<Rightarrow> (string \<times> (occurrence \<times> disarm_event) list) list" where
  \<comment> \<open>\<open>setdefault(fam, []).append(e)\<close>\<close>
  "add_event fam e m =
     AList.update fam ((case map_of m fam of None \<Rightarrow> [] | Some es \<Rightarrow> es) @ [e]) m"

definition scan_trace ::
  "json \<Rightarrow> nat \<times> trace_row \<Rightarrow> string list \<times> (string \<times> (occurrence \<times> disarm_event) list) list
   \<Rightarrow> string list \<times> (string \<times> (occurrence \<times> disarm_event) list) list" where
  "scan_trace pipeline_def it acc =
     (let (index, t) = it; (footprint, events) = acc;
          script = (case map_of (step_id_to_script pipeline_def) (t_step_id t) of
                      None \<Rightarrow> [] | Some s \<Rightarrow> s)
      in if script = [] then acc
         else if t_stage t = ''init'' then
           (case family_for_script script ''footprint'' of
              None \<Rightarrow> acc
            | Some fam \<Rightarrow> (if fam \<in> set footprint then footprint else footprint @ [fam], events))
         else if t_stage t = ''teardown'' then
           (let steps = fold (\<lambda>s m. AList.update (py_str (jor (jget s ''step_id'') (JStr []))) s m)
                  (pipeline_steps_by_stage pipeline_def ''teardown'') [];
                step = (case map_of steps (t_step_id t) of None \<Rightarrow> [] | Some s \<Rightarrow> s)
            in case family_for_disarm_script script (step_version_of step) of
                 None \<Rightarrow> acc
               | Some fam \<Rightarrow>
                   (footprint, add_event fam (trace_occurrence_key t index,
                      \<lparr>ev_status = t_status t, ev_exit_code = t_exit_code t,
                       ev_step_id = t_step_id t, ev_result = None\<rparr>) events))
         else acc)"

definition next_terminal :: "occurrence \<times> disarm_event \<Rightarrow> disarm_event option \<Rightarrow> disarm_event option" where
  "next_terminal ke terminal =
     (let event = snd ke in
      if is_disarm_terminal_status (ev_status event) then Some event
      else if upper (ev_status event) \<in> {''STARTED'', ''RUNNING''}
      then Some (event\<lparr>ev_result := Some INCOMPLETE\<rparr>)
      else terminal)"

definition code_json :: "int option \<Rightarrow> json" where
  "code_json c = (case c of None \<Rightarrow> JNull | Some i \<Rightarrow> JInt i)"

definition derived_entry :: "disarm_event option \<Rightarrow> jobj" where
  "derived_entry terminal =
     (case terminal of
        None \<Rightarrow> [(''result'', JStr NOT_EXECUTED), (''step_id'', JStr []), (''exit_code'', JNull),
                 (''readback_summary'', JStr [])]
      | Some event \<Rightarrow>
          [(''result'', JStr (case ev_result event of
               Some r \<Rightarrow> r
             | None \<Rightarrow> map_trace_to_disarm_result (ev_status event) (ev_exit_code event))),
           (''step_id'', JStr (ev_step_id event)), (''exit_code'', code_json (ev_exit_code event)),
           (''readback_summary'', JStr [])]
          @ (if code_in (ev_exit_code event) [124, 125]
             then [(''reason'', JStr ''legacy_reserved_exit'')] else []))"

definition derive_disarm_results_from_traces :: "json \<Rightarrow> trace_row list \<Rightarrow> (string \<times> jobj) list" where
  "derive_disarm_results_from_traces pipeline_def ts =
     (let (footprint, events) = fold (scan_trace pipeline_def) (enumerate 0 ts) ([], []);
          families = remdups (footprint @ map fst events)
      in map (\<lambda>fam. (fam, derived_entry
            (fold next_terminal
               (sort_key fst (case map_of events fam of None \<Rightarrow> [] | Some es \<Rightarrow> es)) None)))
           (sort families))"

subsection \<open>Properties\<close>

lemma trace_result_range: "map_trace_to_disarm_result st c \<in> {INCOMPLETE, EXECUTED_UNVERIFIED, FAILED_R, NOT_EXECUTED}"
  by (simp add: map_trace_to_disarm_result_def Let_def)

definition plain_event :: "disarm_event option \<Rightarrow> bool" where
  "plain_event t = (case t of None \<Rightarrow> True | Some event \<Rightarrow> ev_result event \<in> {None, Some INCOMPLETE})"

lemma next_terminal_plain:
  "ev_result (snd ke) = None \<Longrightarrow> plain_event t \<Longrightarrow> plain_event (next_terminal ke t)"
  by (simp add: next_terminal_def plain_event_def Let_def)

lemma fold_terminal_plain:
  "\<forall>ke\<in>set kes. ev_result (snd ke) = None \<Longrightarrow> plain_event t \<Longrightarrow> plain_event (fold next_terminal kes t)"
  by (induction kes arbitrary: t) (simp_all add: next_terminal_plain)

definition raw_events :: "(string \<times> (occurrence \<times> disarm_event) list) list \<Rightarrow> bool" where
  "raw_events m = (\<forall>es\<in>snd ` set m. \<forall>ke\<in>set es. ev_result (snd ke) = None)"

lemma set_update_snd: "snd ` set (AList.update k v m) \<subseteq> insert v (snd ` set m)"
  by (induction m) auto

lemma raw_lookup:
  assumes "raw_events m" "ke \<in> set (case map_of m k of None \<Rightarrow> [] | Some es \<Rightarrow> es)"
  shows "ev_result (snd ke) = None"
proof -
  from assms(2) obtain es where es: "map_of m k = Some es" "ke \<in> set es"
    by (cases "map_of m k") auto
  from map_of_SomeD [OF es(1)] have "es \<in> snd ` set m" by force
  with assms(1) es(2) show ?thesis unfolding raw_events_def by blast
qed

lemma raw_add: "raw_events m \<Longrightarrow> ev_result (snd e) = None \<Longrightarrow> raw_events (add_event fam e m)"
proof -
  assume m: "raw_events m" and e: "ev_result (snd e) = None"
  let ?v = "(case map_of m fam of None \<Rightarrow> [] | Some es \<Rightarrow> es) @ [e]"
  have v: "\<forall>ke\<in>set ?v. ev_result (snd ke) = None"
  proof
    fix ke assume "ke \<in> set ?v"
    then have "ke \<in> set (case map_of m fam of None \<Rightarrow> [] | Some es \<Rightarrow> es) \<or> ke = e" by auto
    with raw_lookup [OF m] e show "ev_result (snd ke) = None" by blast
  qed
  show ?thesis
    unfolding raw_events_def add_event_def
  proof
    fix es assume "es \<in> snd ` set (AList.update fam ?v m)"
    with set_update_snd [of fam ?v m] have "es = ?v \<or> es \<in> snd ` set m" by blast
    then show "\<forall>ke\<in>set es. ev_result (snd ke) = None"
    proof
      assume "es = ?v"
      with v show ?thesis by (simp only:)
    next
      assume "es \<in> snd ` set m"
      from bspec [OF m [unfolded raw_events_def] this] show ?thesis .
    qed
  qed
qed

lemma raw_scan:
  assumes "raw_events (snd acc)"
  shows "raw_events (snd (scan_trace p it acc))"
proof (cases "snd (scan_trace p it acc) = snd acc")
  case True
  with assms show ?thesis by simp
next
  case False
  then obtain fam e where "snd (scan_trace p it acc) = add_event fam e (snd acc)" "ev_result (snd e) = None"
    by (auto simp: scan_trace_def Let_def split_beta split: option.splits if_splits)
  with raw_add [OF assms] show ?thesis by simp
qed

lemma raw_scan_all: "raw_events (snd acc) \<Longrightarrow> raw_events (snd (fold (scan_trace p) its acc))"
  by (induction its arbitrary: acc) (simp_all add: raw_scan)

lemma derived_entry_range:
  assumes "plain_event t"
  shows "\<exists>r\<in>{INCOMPLETE, EXECUTED_UNVERIFIED, FAILED_R, NOT_EXECUTED}. jget (derived_entry t) ''result'' = JStr r"
proof (cases t)
  case None
  then show ?thesis by (simp add: derived_entry_def jget_def)
next
  case (Some event)
  with assms have "ev_result event = None \<or> ev_result event = Some INCOMPLETE"
    by (auto simp: plain_event_def)
  with Some trace_result_range [of "ev_status event" "ev_exit_code event"] show ?thesis
    by (auto simp: derived_entry_def jget_def)
qed

lemma derived_results_range:
  assumes "(f, entry) \<in> set (derive_disarm_results_from_traces p ts)"
  shows "\<exists>r\<in>{INCOMPLETE, EXECUTED_UNVERIFIED, FAILED_R, NOT_EXECUTED}. jget entry ''result'' = JStr r"
proof -
  let ?acc = "fold (scan_trace p) (enumerate 0 ts) ([], [])"
  have raw: "raw_events (snd ?acc)" by (rule raw_scan_all) (simp add: raw_events_def)
  from assms obtain t where entry: "entry = derived_entry t"
    and t: "t = fold next_terminal (sort_key fst (case map_of (snd ?acc) f of None \<Rightarrow> [] | Some es \<Rightarrow> es)) None"
    by (auto simp: derive_disarm_results_from_traces_def split_beta Let_def)
  have "\<forall>ke\<in>set (sort_key fst (case map_of (snd ?acc) f of None \<Rightarrow> [] | Some es \<Rightarrow> es)).
      ev_result (snd ke) = None"
    unfolding set_sort by (rule ballI) (rule raw_lookup [OF raw])
  then have "plain_event t" unfolding t
    by (rule fold_terminal_plain) (simp add: plain_event_def)
  then show ?thesis unfolding entry by (rule derived_entry_range)
qed

text \<open>
  Traces alone never confirm a return: whatever the traces of a job are, every derived entry
  carries one of the four values below \<open>confirmed\<close>, for a family once each.
\<close>

theorem derived_results_never_confirmed:
  "list_all (\<lambda>(f, entry). jget entry ''result'' \<in> JStr ` {INCOMPLETE, EXECUTED_UNVERIFIED, FAILED_R, NOT_EXECUTED})
     (derive_disarm_results_from_traces p ts)
   \<and> distinct (map fst (derive_disarm_results_from_traces p ts))"
proof
  show "list_all (\<lambda>(f, entry). jget entry ''result'' \<in> JStr ` {INCOMPLETE, EXECUTED_UNVERIFIED, FAILED_R, NOT_EXECUTED})
     (derive_disarm_results_from_traces p ts)"
    unfolding list_all_iff using derived_results_range by fastforce
  show "distinct (map fst (derive_disarm_results_from_traces p ts))"
    by (simp add: derive_disarm_results_from_traces_def split_beta Let_def comp_def)
qed

definition gpu_pipeline :: json where
  "gpu_pipeline = JObj [(''lifecycle'', JObj
     [(''init'', JList [JObj [(''step_id'', JStr ''i1''), (''action'', JStr ''script:gpu_setup'')]]),
      (''teardown'', JList [JObj [(''step_id'', JStr ''t1''), (''action'', JStr ''script:gpu_disarm''),
         (''version'', JStr ''1.0.0''), (''timeout_seconds'', JInt 120)]])])]"

definition gpu_trace :: "nat \<Rightarrow> string \<Rightarrow> string \<Rightarrow> string \<Rightarrow> time \<Rightarrow> int option \<Rightarrow> trace_row" where
  "gpu_trace i step stage status ts code = \<lparr>t_id = i, t_job_id = 7, t_step_id = step, t_stage = stage,
     t_status = status, t_event_type = status, t_output = NoOutput, t_error_message = JNull,
     t_exit_code = code, t_metadata = JNull, t_trace_event_id = dec i, t_original_ts = Some ts, t_created_at = ts\<rparr>"

text \<open>A late STARTED row does not hide the COMPLETED that occurred after it; one that occurred last does.\<close>

lemma derive_examples:
  "map (\<lambda>(f, entry). (f, jget entry ''result''))
     (derive_disarm_results_from_traces gpu_pipeline
       [gpu_trace 1 ''i1'' ''init'' ''COMPLETED'' 10 (Some 0),
        gpu_trace 2 ''t1'' ''teardown'' ''COMPLETED'' 30 (Some 0),
        gpu_trace 3 ''t1'' ''teardown'' ''STARTED'' 20 None]) = [(''gpu'', JStr EXECUTED_UNVERIFIED)]"
  "map (\<lambda>(f, entry). (f, jget entry ''result''))
     (derive_disarm_results_from_traces gpu_pipeline
       [gpu_trace 2 ''t1'' ''teardown'' ''COMPLETED'' 30 (Some 0),
        gpu_trace 3 ''t1'' ''teardown'' ''STARTED'' 40 None]) = [(''gpu'', JStr INCOMPLETE)]"
  "map (\<lambda>(f, entry). (f, jget entry ''result''))
     (derive_disarm_results_from_traces gpu_pipeline
       [gpu_trace 1 ''i1'' ''init'' ''COMPLETED'' 10 (Some 0)]) = [(''gpu'', JStr NOT_EXECUTED)]"
  by code_simp+

end
