(* ===== verification/Probe_Entries.thy ===== *)
theory Probe_Entries
  imports Disarm_Derive
begin

section \<open>Evaluating probe reports and auditing the rejected ones\<close>

text \<open>
  services/device\_return.py from \<open>evaluate_probe_entry\<close> on: the shared policy applied to the
  device's recorded platform and model and to the package identity of the tool manifest, the
  de-duplicated audit row for a privileged value that was not earned, the init check and the
  verification of a job's reported results.  The audit row is written in its own transaction,
  so it stays when the caller rolls back.
\<close>

subsection \<open>Package identity\<close>

text \<open>
  \<open>doc["tools"][script]["versions"]\<close>; an unreadable manifest or a missing key answers \<open>None\<close>.
\<close>

definition manifest_versions :: "env \<Rightarrow> string \<Rightarrow> jobj list" where
  "manifest_versions e script =
     (case e_manifest e of
        Some (JObj doc) \<Rightarrow>
          objs_of (list_or_empty (jget (obj_or_empty (jget (obj_or_empty (jget doc ''tools'')) script))
             ''versions''))
      | _ \<Rightarrow> [])"

definition manifest_package_sha :: "env \<Rightarrow> string \<Rightarrow> string \<Rightarrow> json" where
  "manifest_package_sha e script version =
     (case List.find (\<lambda>v. jget v ''version'' = JStr version) (manifest_versions e script) of
        None \<Rightarrow> JNull | Some v \<Rightarrow> jget v ''package_sha256'')"

definition job_teardown_steps :: "job_row \<Rightarrow> jobj list" where
  "job_teardown_steps job =
     (let stages = obj_or_empty (jor (jget (obj_or_empty (j_pipeline_def job)) ''lifecycle'') (JObj []));
          steps = jor (jget stages ''teardown'') (JList []);
          steps1 = (case steps of JObj st \<Rightarrow> jor (jget st ''steps'') (JList []) | x \<Rightarrow> x)
      in objs_of (list_or_empty steps1))"

definition reported_script :: "jobj \<Rightarrow> job_row option \<Rightarrow> string \<times> string" where
  "reported_script entry job =
     (case job of
        None \<Rightarrow>
          (let evidence = obj_or_empty (jget entry ''evidence'') in
           (py_str (jor (jget evidence ''script_name'') (JStr [])),
            py_str (jor (jget evidence ''script_version'') (JStr []))))
      | Some j \<Rightarrow>
          (let step = (case List.find (\<lambda>s. JStr (guard_step_key s) = jget entry ''step_id'')
                          (job_teardown_steps j) of None \<Rightarrow> [] | Some s \<Rightarrow> s)
           in (script_name_from_step step, step_version_of step)))"

definition evaluate_probe_entry ::
  "env \<Rightarrow> device_row \<Rightarrow> string \<Rightarrow> jobj \<Rightarrow> bool \<Rightarrow> job_row option \<Rightarrow> probe_policy" where
  "evaluate_probe_entry e v family entry token_valid job =
     (let (script, version) = reported_script entry job in
      probe_result_policy ONBOARDED family entry (d_platform v) (d_model v) script version
        (manifest_package_sha e script version) token_valid)"

subsection \<open>Audit rows\<close>

definition json_of_opt :: "string option \<Rightarrow> json" where
  "json_of_opt x = (case x of None \<Rightarrow> JNull | Some s \<Rightarrow> JStr s)"

definition probe_audit_details ::
  "env \<Rightarrow> string \<Rightarrow> jobj \<Rightarrow> probe_policy \<Rightarrow> string \<Rightarrow> json \<Rightarrow> string option \<Rightarrow> jobj" where
  "probe_audit_details e family entry policy entry_point replacement report_identity =
     (let reports = jor (pp_report_ref policy)
            (JList (filter truthy (map (\<lambda>c. jget c ''report_ref'') (pp_expected policy))));
          details = [(''entry_point'', JStr entry_point), (''family'', JStr family),
            (''reported_result'', jget entry ''result''), (''replacement_result'', replacement),
            (''reason'', JStr (if pp_reason policy \<noteq> [] then pp_reason policy
                                else ''raw_result_mismatch'')),
            (''report_ref'', reports), (''raw'', JObj entry),
            (''expected'', JList (map JObj (pp_expected policy))),
            (''observed'', JObj (pp_observed policy)),
            (''report_identity'', json_of_opt report_identity)]
      in details @ [(''report_digest'', JStr (e_sha256 e (json_dumps_sorted (JObj details))))])"

definition AUDIT_RESOURCE_TYPE_ALIASES :: "(string \<times> string) list" where
  "AUDIT_RESOURCE_TYPE_ALIASES = [(''job'', ''job_instance''), (''script_catalog'', ''script'')]"

definition canonical_resource_type :: "string \<Rightarrow> string" where
  "canonical_resource_type v = (case map_of AUDIT_RESOURCE_TYPE_ALIASES v of None \<Rightarrow> v | Some c \<Rightarrow> c)"

definition expand_resource_type_filter :: "string \<Rightarrow> string list" where
  "expand_resource_type_filter v =
     (let canonical = canonical_resource_type v;
          aliases = map fst (filter (\<lambda>(a, t). t = canonical) AUDIT_RESOURCE_TYPE_ALIASES)
      in sort (remdups (canonical # aliases)))"

definition audited_digest :: "string \<Rightarrow> string \<Rightarrow> json \<Rightarrow> db \<Rightarrow> bool" where
  "audited_digest rtype rid digest s =
     list_ex (\<lambda>a. a_action a = ''unverified_probe_result''
        \<and> a_resource_type a \<in> set (expand_resource_type_filter rtype) \<and> a_resource_id a = rid
        \<and> jget (obj_or_empty (a_details a)) ''report_digest'' = digest) (audits s)"

definition audit_unverified_probe ::
  "env \<Rightarrow> nat \<Rightarrow> string \<Rightarrow> jobj \<Rightarrow> probe_policy \<Rightarrow> string \<Rightarrow> json \<Rightarrow> string \<Rightarrow> string option \<Rightarrow> db \<Rightarrow> db" where
  "audit_unverified_probe e resource_id family entry policy entry_point replacement rtype identity s =
     (let details = probe_audit_details e family entry policy entry_point replacement identity;
          kind = (if rtype = ''job_instance'' then ''job_instance'' else ''device'')
      in if audited_digest kind (dec resource_id) (jget details ''report_digest'') s then s
         else add_audit ''unverified_probe_result'' kind (dec resource_id) ''agent'' (JObj details) s)"

definition audit_unverified_probe_async ::
  "env \<Rightarrow> nat \<Rightarrow> string \<Rightarrow> jobj \<Rightarrow> probe_policy \<Rightarrow> string \<Rightarrow> string \<Rightarrow> db \<Rightarrow> db" where
  "audit_unverified_probe_async e resource_id family entry policy entry_point rtype s =
     (let details = probe_audit_details e family entry policy entry_point JNull None;
          kind = (if rtype = ''job_instance'' then ''job_instance'' else ''device'')
      in if audited_digest kind (dec resource_id) (jget details ''report_digest'') s then s
         else add_audit ''unverified_probe_result'' kind (dec resource_id) ''agent'' (JObj details) s)"

subsection \<open>The init check of one family and the verification of a job's results\<close>

definition check_init_probe_result ::
  "env \<Rightarrow> device_row \<Rightarrow> string \<Rightarrow> jobj \<Rightarrow> bool \<Rightarrow> string option \<Rightarrow> db \<Rightarrow> entry_decision \<times> db" where
  "check_init_probe_result e v family entry token_valid identity s =
     (if \<not> token_valid
      then (\<lparr>ed_status_code = 409, ed_use_trace = False, ed_ignore = False, ed_family = [],
             ed_reason = ''DEBT_TOKEN_INVALID''\<rparr>, s)
      else
        (let policy = evaluate_probe_entry e v family entry token_valid None;
             decision = probe_entry_response family entry policy ''init_check''
         in (decision,
             if ed_status_code decision = 422
             then audit_unverified_probe e (d_id v) family entry policy ''init_check'' JNull ''device''
                    identity s
             else s)))"

definition not_executed_entry :: jobj where
  "not_executed_entry = [(''result'', JStr NOT_EXECUTED)]"

definition verify_entry ::
  "env \<Rightarrow> device_row \<Rightarrow> job_row \<Rightarrow> (string \<times> jobj) list \<Rightarrow> bool \<Rightarrow> string \<Rightarrow> jobj \<Rightarrow> db \<Rightarrow> jobj \<times> db" where
  \<comment> \<open>one round of the loop of \<open>verify_job_results\<close>, for a registered family\<close>
  "verify_entry e v job derived token_valid family entry s =
     (if interrupted_code (jget entry ''exit_code'')
      then (AList.update ''result'' (JStr INCOMPLETE) entry, s)
      else
        (let policy = evaluate_probe_entry e v family entry token_valid (Some job) in
         if ed_use_trace (probe_entry_response family entry policy ''complete'')
         then (let replacement = (case map_of derived family of
                     Some d \<Rightarrow> if d \<noteq> [] then d else not_executed_entry
                   | None \<Rightarrow> not_executed_entry)
               in (replacement,
                   audit_unverified_probe e (j_id job) family entry policy ''complete''
                     (jget replacement ''result'') ''job_instance'' None s))
         else if pp_trusted policy
         then (AList.update ''result'' (JStr (pp_result policy)) entry, s)
         else (entry, s)))"

fun verify_loop ::
  "env \<Rightarrow> device_row \<Rightarrow> job_row \<Rightarrow> (string \<times> jobj) list \<Rightarrow> bool \<Rightarrow> (string \<times> jobj) list
   \<Rightarrow> (string \<times> jobj) list \<Rightarrow> db \<Rightarrow> (string \<times> jobj) list \<times> db" where
  "verify_loop e v job derived token_valid [] results s = (results, s)"
| "verify_loop e v job derived token_valid ((family, entry) # rest) results s =
     (if \<not> is_family family then verify_loop e v job derived token_valid rest results s
      else
        (let (current, s1) = verify_entry e v job derived token_valid family entry s in
         verify_loop e v job derived token_valid rest (AList.update family current results) s1))"

definition verify_job_results ::
  "env \<Rightarrow> job_row \<Rightarrow> (string \<times> jobj) list \<Rightarrow> (string \<times> jobj) list \<Rightarrow> bool \<Rightarrow> db
   \<Rightarrow> ((string \<times> jobj) list \<times> db) option" where
  \<comment> \<open>\<open>None\<close>: the job's device row does not exist (\<open>.one()\<close> raises)\<close>
  "verify_job_results e job reported derived token_valid s =
     (case get_device s (j_device_id job) of
        None \<Rightarrow> None
      | Some v \<Rightarrow> Some (verify_loop e v job derived token_valid reported derived s))"

subsection \<open>Audits leave every other table alone\<close>

definition audits_only :: "db \<Rightarrow> db \<Rightarrow> bool" where
  "audits_only s t \<longleftrightarrow> (\<exists>as. t = s\<lparr>audits := audits s @ as\<rparr>)"

lemma audits_only_refl [simp]: "audits_only s s"
  unfolding audits_only_def by (rule exI [of _ "[]"]) simp

lemma audits_only_trans: "audits_only s t \<Longrightarrow> audits_only t u \<Longrightarrow> audits_only s u"
  unfolding audits_only_def by (elim exE) (rule_tac x = "as @ asa" in exI, simp)

lemma audits_only_add [simp]: "audits_only s (add_audit a b c d e s)"
  unfolding audits_only_def add_audit_def by blast

lemma audits_only_unverified [simp]: "audits_only s (audit_unverified_probe e r f en p ep rep rt i s)"
  by (simp add: audit_unverified_probe_def Let_def)

lemma audits_only_unverified_async [simp]: "audits_only s (audit_unverified_probe_async e r f en p ep rt s)"
  by (simp add: audit_unverified_probe_async_def Let_def)

lemma audits_only_init_check: "audits_only s (snd (check_init_probe_result e v f en tv i s))"
  by (simp add: check_init_probe_result_def Let_def)

lemma audits_only_fields: "audits_only s t \<Longrightarrow> debts t = debts s \<and> devices t = devices s \<and> leases t = leases s
    \<and> jobs t = jobs s \<and> next_debt_id t = next_debt_id s"
  by (auto simp: audits_only_def)

lemma audits_only_returns: "audits_only s t \<Longrightarrow> returns_only s t"
  by (auto simp: audits_only_def returns_only_def)

lemma audits_only_verify_entry: "audits_only s (snd (verify_entry e v job derived tv f en s))"
  by (simp add: verify_entry_def Let_def)

lemma audits_only_verify: "audits_only s (snd (verify_loop e v job derived tv rep res s))"
proof (induction rep arbitrary: res s)
  case Nil
  then show ?case by simp
next
  case (Cons fe rep)
  obtain f en where fe: "fe = (f, en)" by (cases fe)
  obtain cur s1 where en: "verify_entry e v job derived tv f en s = (cur, s1)"
    by (cases "verify_entry e v job derived tv f en s")
  with audits_only_verify_entry [of s e v job derived tv f en] have "audits_only s s1" by simp
  then have "audits_only s (snd (verify_loop e v job derived tv rep (AList.update f cur res) s1))"
    by (rule audits_only_trans) (rule Cons.IH)
  moreover have "audits_only s (snd (verify_loop e v job derived tv rep res s))" by (rule Cons.IH)
  ultimately show ?case by (simp add: fe en)
qed

subsection \<open>Properties\<close>

text \<open>
  What an earned \<open>confirmed\<close> means, field by field.
\<close>

lemma probe_reason_none:
  assumes "probe_reason family evidence observed match sname sver pkg tv = []"
  shows "tv" "jget observed ''permission_model'' \<in> {JStr ''root'', JStr ''non-root''}"
    "jget evidence ''package_sha256'' = pkg"
    "jget evidence ''script_name'' = JStr sname" "jget evidence ''script_version'' = JStr sver"
    "match \<noteq> None" "py_str (jget evidence ''boot_completed'') = ''1''"
    "identity_fields family \<noteq> []"
  using assms by (simp_all add: probe_reason_def split: if_splits)

lemma find_SomeD: "List.find P xs = Some x \<Longrightarrow> x \<in> set xs \<and> P x"
  by (induction xs) (auto split: if_splits)

lemma probe_confirmed:
  assumes "probe_result_policy reg family entry platform model sname sver pkg tv = p"
    and "pp_trusted p" "pp_result p = CONFIRMED"
  shows "tv" "pp_reason p = []"
    "jget (obj_or_empty (jget entry ''evidence'')) ''readback'' = JStr ''clear''"
    "jget (obj_or_empty (jget entry ''evidence'')) ''kind'' = JStr ''ok''"
    "\<exists>c\<in>set (pp_expected p). truthy (jget c ''report_ref'')
       \<and> (\<forall>(k, v)\<in>set (pp_observed p). truthy v \<and> v = jget c k)"
    "jget (obj_or_empty (jget entry ''evidence'')) ''package_sha256'' = pkg"
    "py_str (jget (obj_or_empty (jget entry ''evidence'')) ''boot_completed'') = ''1''"
proof -
  let ?ev = "obj_or_empty (jget entry ''evidence'')"
  let ?obs = "probe_observed family ?ev platform model sname sver pkg"
  let ?exp = "case map_of reg family of None \<Rightarrow> [] | Some spec \<Rightarrow> ob_verified_device_classes spec"
  let ?match = "List.find (combination_matches ?obs) ?exp"
  let ?reason = "probe_reason family ?ev ?obs ?match sname sver pkg tv"
  have "pp_reason p = ?reason \<and> ?reason = [] \<and> jget ?ev ''readback'' = JStr ''clear''
      \<and> jget ?ev ''kind'' = JStr ''ok'' \<and> pp_expected p = ?exp \<and> pp_observed p = ?obs"
    using assms unfolding probe_result_policy_def Let_def
    by (auto split: if_splits)
  note r = this
  note n = probe_reason_none [of family ?ev ?obs ?match sname sver pkg tv]
  from r n show "tv" "pp_reason p = []" "jget ?ev ''readback'' = JStr ''clear''" "jget ?ev ''kind'' = JStr ''ok''"
    "jget ?ev ''package_sha256'' = pkg" "py_str (jget ?ev ''boot_completed'') = ''1''"
    by simp_all
  from r n(6) obtain c where "?match = Some c" by auto
  from find_SomeD [OF this] have "c \<in> set ?exp" "combination_matches ?obs c" by blast+
  with r show "\<exists>c\<in>set (pp_expected p). truthy (jget c ''report_ref'')
       \<and> (\<forall>(k, v)\<in>set (pp_observed p). truthy v \<and> v = jget c k)"
    by (auto simp: combination_matches_def list_all_iff)
qed

lemma evaluate_unfold:
  "evaluate_probe_entry e v family entry tv job =
     probe_result_policy ONBOARDED family entry (d_platform v) (d_model v)
       (fst (reported_script entry job)) (snd (reported_script entry job))
       (manifest_package_sha e (fst (reported_script entry job)) (snd (reported_script entry job))) tv"
  by (simp add: evaluate_probe_entry_def split_beta)

definition earned :: "env \<Rightarrow> device_row \<Rightarrow> string \<Rightarrow> jobj \<Rightarrow> job_row option \<Rightarrow> bool" where
  \<comment> \<open>a trusted confirmation: clear readback on a registered, reported device combination with the
      manifest's package\<close>
  "earned e v family entry job \<longleftrightarrow>
     (let p = evaluate_probe_entry e v family entry True job in pp_trusted p \<and> pp_result p = CONFIRMED)"

text \<open>
  A confirmation is earned by evidence: where the policy trusts a report and answers
  \<open>confirmed\<close>, the family is onboarded, the token was valid, the readback is clear, the boot has
  completed, the package is the manifest's, and every observed identity field equals that of one
  registered device combination that names its report.
\<close>

theorem confirmed_is_earned:
  assumes "evaluate_probe_entry e v family entry tv job = p" "pp_trusted p" "pp_result p = CONFIRMED"
  shows "tv \<and> family_onboarded family
    \<and> jget (obj_or_empty (jget entry ''evidence'')) ''readback'' = JStr ''clear''
    \<and> py_str (jget (obj_or_empty (jget entry ''evidence'')) ''boot_completed'') = ''1''
    \<and> jget (obj_or_empty (jget entry ''evidence'')) ''package_sha256''
        = manifest_package_sha e (fst (reported_script entry job)) (snd (reported_script entry job))
    \<and> (\<exists>spec. map_of ONBOARDED family = Some spec
        \<and> (\<exists>c\<in>set (ob_verified_device_classes spec). truthy (jget c ''report_ref'')
            \<and> (\<forall>(k, x)\<in>set (pp_observed p). truthy x \<and> x = jget c k)))"
proof -
  note c = probe_confirmed [OF assms(1) [unfolded evaluate_unfold] assms(2,3)]
  have "pp_expected p = (case map_of ONBOARDED family of None \<Rightarrow> []
      | Some spec \<Rightarrow> ob_verified_device_classes spec)"
    using assms(1) unfolding evaluate_unfold probe_result_policy_def Let_def by auto
  with c(5) obtain spec where spec: "map_of ONBOARDED family = Some spec"
    "pp_expected p = ob_verified_device_classes spec"
    by (cases "map_of ONBOARDED family") auto
  then have "family_onboarded family" unfolding family_onboarded_def by (force dest: map_of_SomeD)
  with c spec show ?thesis by auto
qed

definition gpu_evidence :: jobj where
  "gpu_evidence = [(''permission_model'', JStr ''root''),
     (''apk_sha256'', JStr ''47a059398943e8dc0943269c99a30264f70c7175ae943a69c48ec733ea84e8c5''),
     (''script_name'', JStr ''gpu_disarm''), (''script_version'', JStr ''1.0.0''),
     (''package_sha256'', JStr ''c464779d695402473bf5afb173bc743d68eac307a680c46bfec2ebbf4299ead7''),
     (''boot_completed'', JStr ''1''), (''readback'', JStr ''clear''), (''kind'', JStr ''ok''),
     (''mode'', JStr ''probe''), (''success'', JBool True)]"

definition gpu_entry :: jobj where
  "gpu_entry = [(''result'', JStr CONFIRMED), (''evidence'', JObj gpu_evidence)]"

definition manifest_env :: env where
  "manifest_env = default_env\<lparr>e_manifest := Some (JObj [(''tools'', JObj [(''gpu_disarm'',
     JObj [(''versions'', JList [JObj [(''version'', JStr ''1.0.0''), (''package_sha256'',
       JStr ''c464779d695402473bf5afb173bc743d68eac307a680c46bfec2ebbf4299ead7'')]])])])])\<rparr>"

lemma confirmed_is_earned_witness:
  "family_onboarded ''gpu'' \<and> earned manifest_env sample_device ''gpu'' gpu_entry None"
proof -
  have t: "pp_trusted (evaluate_probe_entry manifest_env sample_device ''gpu'' gpu_entry True None)"
    and r: "pp_result (evaluate_probe_entry manifest_env sample_device ''gpu'' gpu_entry True None) = CONFIRMED"
    by code_simp+
  from confirmed_is_earned [OF refl t r] t r show ?thesis by (simp add: earned_def Let_def)
qed

text \<open>
  Outside the trusted case a privileged value is never accepted: the decision is a 422 at the
  interactive entry points, the trace's result at completion, and nothing for a late report.
\<close>

lemma response_200_privileged:
  assumes "ed_status_code (probe_entry_response family entry p ep) \<noteq> 422"
    "ep \<in> {''discharge'', ''init_check''}" "privileged_result (jget entry ''result'')"
  shows "pp_trusted p \<and> jget entry ''result'' = JStr (pp_result p)"
  using assms by (auto simp: probe_entry_response_def Let_def split: if_splits)

lemma response_use_trace:
  assumes "\<not> ed_use_trace (probe_entry_response family entry p ''complete'')"
    "privileged_result (jget entry ''result'')"
  shows "pp_trusted p \<and> jget entry ''result'' = JStr (pp_result p)"
  using assms by (auto simp: probe_entry_response_def Let_def split: if_splits)

lemma response_late:
  assumes "\<not> ed_ignore (probe_entry_response family entry p ''late'')"
    "privileged_result (jget entry ''result'')"
  shows "pp_trusted p \<and> jget entry ''result'' = JStr (pp_result p)"
  using assms by (auto simp: probe_entry_response_def Let_def split: if_splits)

lemma confirmed_privileged [simp]: "privileged_result (JStr CONFIRMED)"
  by (simp add: privileged_result_def)

lemma verify_entry_confirmed:
  assumes "verify_entry e v job derived tv family entry s = (current, t)"
    and "jget current ''result'' = JStr CONFIRMED"
    and "\<And>f d. map_of derived f = Some d \<Longrightarrow> jget d ''result'' \<noteq> JStr CONFIRMED"
  shows "pp_trusted (evaluate_probe_entry e v family entry tv (Some job))
     \<and> pp_result (evaluate_probe_entry e v family entry tv (Some job)) = CONFIRMED"
proof -
  let ?p = "evaluate_probe_entry e v family entry tv (Some job)"
  have "jget (case map_of derived family of Some d \<Rightarrow> if d \<noteq> [] then d else not_executed_entry
      | None \<Rightarrow> not_executed_entry) ''result'' \<noteq> JStr CONFIRMED"
  proof (cases "map_of derived family")
    case None
    then show ?thesis by (simp add: not_executed_entry_def jget_Cons)
  next
    case (Some d)
    from assms(3) [OF Some] Some show ?thesis by (simp add: not_executed_entry_def jget_Cons)
  qed
  then show ?thesis
    using assms(1,2) response_use_trace [of family entry ?p]
    by (auto simp: verify_entry_def Let_def jget_update split: if_splits)
qed

lemma verify_loop_confirmed:
  assumes derived: "\<And>f d. map_of derived f = Some d \<Longrightarrow> jget d ''result'' \<noteq> JStr CONFIRMED"
    and acc: "\<And>f r. map_of results f = Some r \<Longrightarrow> jget r ''result'' = JStr CONFIRMED \<Longrightarrow>
        (\<exists>entry. (f, entry) \<in> R \<and> pp_trusted (evaluate_probe_entry e v f entry tv (Some job))
           \<and> pp_result (evaluate_probe_entry e v f entry tv (Some job)) = CONFIRMED)"
    and sub: "set reported \<subseteq> R"
    and res: "map_of (fst (verify_loop e v job derived tv reported results s)) f = Some r"
      "jget r ''result'' = JStr CONFIRMED"
  shows "\<exists>entry. (f, entry) \<in> R \<and> pp_trusted (evaluate_probe_entry e v f entry tv (Some job))
           \<and> pp_result (evaluate_probe_entry e v f entry tv (Some job)) = CONFIRMED"
  using acc sub res
proof (induction reported arbitrary: results s)
  case Nil
  then show ?case by simp
next
  case (Cons fe reported)
  obtain g en where fe: "fe = (g, en)" by (cases fe)
  show ?case
  proof (cases "is_family g")
    case False
    with Cons.prems fe show ?thesis by (intro Cons.IH [of results s]) simp_all
  next
    case True
    obtain cur s1 where en: "verify_entry e v job derived tv g en s = (cur, s1)"
      by (cases "verify_entry e v job derived tv g en s")
    show ?thesis
    proof (rule Cons.IH [of "AList.update g cur results" s1])
      fix f' r' assume m: "map_of (AList.update g cur results) f' = Some r'"
        and c: "jget r' ''result'' = JStr CONFIRMED"
      show "\<exists>entry. (f', entry) \<in> R \<and> pp_trusted (evaluate_probe_entry e v f' entry tv (Some job))
           \<and> pp_result (evaluate_probe_entry e v f' entry tv (Some job)) = CONFIRMED"
      proof (cases "f' = g")
        case True
        with m have "r' = cur" by (simp add: dict_update_lookup)
        with verify_entry_confirmed [OF en _ derived] c True Cons.prems(2) fe show ?thesis by auto
      next
        case False
        with m have "map_of results f' = Some r'" by (simp add: dict_update_lookup)
        from Cons.prems(1) [OF this c] show ?thesis .
      qed
    next
      show "set reported \<subseteq> R" using Cons.prems(2) by simp
      show "map_of (fst (verify_loop e v job derived tv reported (AList.update g cur results) s1)) f = Some r"
        using Cons.prems(3) True fe en by simp
      show "jget r ''result'' = JStr CONFIRMED" by (rule Cons.prems(4))
    qed
  qed
qed

text \<open>
  C35. Completion cannot launder a confirmation: in the verified results of a job, a family is
  \<open>confirmed\<close> only where the report for it is trusted by the probe policy with that very result,
  whatever the agent wrote; everything else falls back to the traces, which never confirm.
\<close>

theorem verified_confirmations_are_earned:
  assumes v: "get_device s (j_device_id job) = Some v"
    and res: "verify_job_results e job reported (derive_disarm_results_from_traces p ts) tv s = Some (results, t)"
    and f: "map_of results f = Some r" "jget r ''result'' = JStr CONFIRMED"
  shows "\<exists>entry. (f, entry) \<in> set reported \<and> tv \<and> earned e v f entry (Some job)"
proof -
  let ?d = "derive_disarm_results_from_traces p ts"
  have nd: "jget d ''result'' \<noteq> JStr CONFIRMED" if "map_of ?d g = Some d" for g d
    using derived_results_range [OF map_of_SomeD [OF that]] by auto
  from res v have results: "results = fst (verify_loop e v job ?d tv reported ?d s)"
    by (simp add: verify_job_results_def)
  have "\<exists>entry. (f, entry) \<in> set reported \<and> pp_trusted (evaluate_probe_entry e v f entry tv (Some job))
      \<and> pp_result (evaluate_probe_entry e v f entry tv (Some job)) = CONFIRMED"
  proof (rule verify_loop_confirmed [OF _ _ subset_refl f(1) [unfolded results] f(2)])
    fix g d assume "map_of ?d g = Some d"
    then show "jget d ''result'' \<noteq> JStr CONFIRMED" by (rule nd)
  next
    fix g d assume "map_of ?d g = Some d" "jget d ''result'' = JStr CONFIRMED"
    with nd [of g d] show "\<exists>entry. (g, entry) \<in> set reported
        \<and> pp_trusted (evaluate_probe_entry e v g entry tv (Some job))
        \<and> pp_result (evaluate_probe_entry e v g entry tv (Some job)) = CONFIRMED" by simp
  qed
  then obtain entry where en: "(f, entry) \<in> set reported"
    "pp_trusted (evaluate_probe_entry e v f entry tv (Some job))"
    "pp_result (evaluate_probe_entry e v f entry tv (Some job)) = CONFIRMED" by blast
  from probe_confirmed(1) [OF evaluate_unfold [symmetric] en(2,3)] have tv by simp
  with en show ?thesis by (auto simp: earned_def Let_def)
qed

definition gpu_job :: job_row where
  "gpu_job = sample_job\<lparr>j_status := J_RUNNING, j_pipeline_def := gpu_pipeline\<rparr>"

definition gpu_report :: "(string \<times> jobj) list" where
  "gpu_report = [(''gpu'', (''step_id'', JStr ''t1'') # gpu_entry)]"

lemma verified_confirmations_are_earned_witness:
  "\<exists>results t. verify_job_results manifest_env gpu_job gpu_report
      (derive_disarm_results_from_traces gpu_pipeline []) True sample_db = Some (results, t)
     \<and> (\<exists>entry. (''gpu'', entry) \<in> set gpu_report \<and> earned manifest_env sample_device ''gpu'' entry (Some gpu_job))"
proof -
  let ?v = "verify_job_results manifest_env gpu_job gpu_report
      (derive_disarm_results_from_traces gpu_pipeline []) True sample_db"
  have d: "get_device sample_db (j_device_id gpu_job) = Some sample_device"
    by (simp add: get_device_def sample_db_def gpu_job_def sample_job_def sample_device_def)
  have "case ?v of None \<Rightarrow> False | Some (results, t) \<Rightarrow>
     (case map_of results ''gpu'' of None \<Rightarrow> False | Some r \<Rightarrow> jget r ''result'' = JStr CONFIRMED)"
    by code_simp
  then obtain results t r where v: "?v = Some (results, t)" "map_of results ''gpu'' = Some r"
    "jget r ''result'' = JStr CONFIRMED" by (auto split: option.splits)
  from verified_confirmations_are_earned [OF d v(1) v(2,3)] v(1) show ?thesis by blast
qed

end
