(* ===== verification/Return_Entries.thy ===== *)
theory Return_Entries
  imports Probe_Entries
begin

section \<open>Discharge, override, late confirmation, retirement and initialisation\<close>

text \<open>
  services/device\_return.py lines 923 to 1515 and \<open>apply_init_check_sync\<close>: the entries that close
  debts, release the debt lease when the last one is closed, re-create it when a retired device
  comes back, and give every device its first return state.
\<close>

subsection \<open>Closing debts\<close>

definition close_debt :: "string \<Rightarrow> time \<Rightarrow> debt_row \<Rightarrow> debt_row" where
  "close_debt reason now b =
     b\<lparr>b_state := DEBT_CLOSED, b_closed_reason := Some reason, b_closed_at := Some now\<rparr>"

definition close_family_debts_sync :: "nat \<Rightarrow> string list \<Rightarrow> string \<Rightarrow> time \<Rightarrow> db \<Rightarrow> nat \<times> db" where
  "close_family_debts_sync d families reason now s =
     (length (filter (\<lambda>b. b_family b \<in> set families) (open_debts_sync s d)),
      s\<lparr>debts := upd_where (\<lambda>b. b_device_id b = d \<and> b_state b = DEBT_OPEN \<and> b_family b \<in> set families)
           (close_debt reason now) (debts s)\<rparr>)"

definition maybe_release_debt_lease_sync :: "nat \<Rightarrow> time \<Rightarrow> db \<Rightarrow> bool \<times> db" where
  "maybe_release_debt_lease_sync d now s =
     (if open_debts_sync s d \<noteq> [] then (False, s)
      else (case get_active_lease s d of
              None \<Rightarrow> (False, s)
            | Some l \<Rightarrow>
                if \<not> is_debt_lease (Some l) then (False, s)
                else (True, upd_lease (l_id l)
                       (\<lambda>l. l\<lparr>l_status := LS_RELEASED, l_released_at := Some now\<rparr>) s)))"

subsection \<open>Discharge (D5.5)\<close>

record discharge_answer =
  da_discharged :: "string list"
  da_debt_lease_released :: bool
  da_open_debt_count :: nat
  da_fencing_token :: "string option"
  da_rejected :: "entry_decision list"

record discharge_state =
  ds_discharged :: "string list"
  ds_rejected :: "entry_decision list"
  ds_accepted :: nat

definition discharge_entry ::
  "env \<Rightarrow> nat \<Rightarrow> device_row \<Rightarrow> string \<Rightarrow> time \<Rightarrow> string \<Rightarrow> jobj \<Rightarrow> discharge_state \<Rightarrow> db
   \<Rightarrow> discharge_state \<times> db" where
  \<comment> \<open>one round of the loop, for a registered family\<close>
  "discharge_entry e d v token now family entry acc s =
     (let policy = evaluate_probe_entry e v family entry True None;
          decision = probe_entry_response family entry policy ''discharge''
      in if ed_status_code decision = 422
         then (acc\<lparr>ds_rejected := ds_rejected acc @ [decision]\<rparr>,
               audit_unverified_probe e d family entry policy ''discharge'' JNull ''device''
                 (Some (e_sha256 e token)) s)
         else
           (let result = (if pp_trusted policy then pp_result policy
                          else py_str (jor (jget entry ''result'') (JStr [])));
                state = map_disarm_result_to_family_state result (family_onboarded family);
                s1 = set_family_return_state d family state ''discharge'' now
                       [(''disarm_result'', JStr result)] s;
                acc1 = acc\<lparr>ds_accepted := ds_accepted acc + 1\<rparr>
            in if pp_trusted policy \<and> result = CONFIRMED
               then (acc1\<lparr>ds_discharged := ds_discharged acc1 @ [family]\<rparr>,
                     snd (close_family_debts_sync d [family] ''discharged'' now s1))
               else (acc1, s1)))"

fun discharge_loop ::
  "env \<Rightarrow> nat \<Rightarrow> device_row \<Rightarrow> string \<Rightarrow> time \<Rightarrow> (string \<times> jobj) list \<Rightarrow> discharge_state \<Rightarrow> db
   \<Rightarrow> discharge_state \<times> db" where
  "discharge_loop e d v token now [] acc s = (acc, s)"
| "discharge_loop e d v token now ((family, entry) # rest) acc s =
     (if \<not> is_family family then discharge_loop e d v token now rest acc s
      else (let (acc1, s1) = discharge_entry e d v token now family entry acc s in
            discharge_loop e d v token now rest acc1 s1))"

definition apply_discharge_sync ::
  "env \<Rightarrow> nat \<Rightarrow> string \<Rightarrow> (string \<times> jobj) list \<Rightarrow> time \<Rightarrow> db \<Rightarrow> (string + discharge_answer) \<times> db" where
  "apply_discharge_sync e d token family_results now s =
     (case get_device s d of
        None \<Rightarrow> (Inl ''DEVICE_NOT_FOUND'', s)
      | Some v \<Rightarrow>
          (case get_active_lease s d of
             None \<Rightarrow> (Inl ''DEBT_TOKEN_INVALID'', s)
           | Some l \<Rightarrow>
               if \<not> is_debt_lease (Some l) \<or> l_fencing_token l \<noteq> token
               then (Inl ''DEBT_TOKEN_INVALID'', s)
               else
                 (let (acc, s1) = discharge_loop e d v token now family_results
                        \<lparr>ds_discharged = [], ds_rejected = [], ds_accepted = 0\<rparr> s
                  in if ds_rejected acc \<noteq> [] \<and> ds_accepted acc = 0
                     then (Inr \<lparr>da_discharged = [], da_debt_lease_released = False,
                             da_open_debt_count = length (open_debts_sync s1 d),
                             da_fencing_token = Some (l_fencing_token l),
                             da_rejected = ds_rejected acc\<rparr>, s1)
                     else
                       (let (released, s2) = maybe_release_debt_lease_sync d now s1;
                            rows = open_debts_sync s2 d
                        in (Inr \<lparr>da_discharged = ds_discharged acc, da_debt_lease_released = released,
                              da_open_debt_count = length rows,
                              da_fencing_token = (if released then None else Some (l_fencing_token l)),
                              da_rejected = ds_rejected acc\<rparr>,
                            recompute_return_state_from_open_debts d rows now s2)))))"

subsection \<open>Override (D5.7)\<close>

record override_answer =
  oa_families :: "string list"
  oa_closed_count :: nat
  oa_debt_lease_released :: bool
  oa_open_debt_count :: nat

definition override_family :: "nat \<Rightarrow> string \<Rightarrow> string \<Rightarrow> time \<Rightarrow> string \<Rightarrow> db \<Rightarrow> db" where
  "override_family d reason evidence now family s =
     (if is_family family
      then set_family_return_state d family UNVERIFIED ''override'' now
             [(''reason_category'', JStr reason), (''evidence_ref'', JStr evidence)] s
      else s)"

definition override_targets :: "string list option \<Rightarrow> string list" where
  "override_targets families =
     (case families of None \<Rightarrow> map fst FAMILY_STEPS
      | Some fs \<Rightarrow> if fs = [] then map fst FAMILY_STEPS else fs)"

definition apply_override_sync ::
  "nat \<Rightarrow> string list option \<Rightarrow> string \<Rightarrow> string \<Rightarrow> time \<Rightarrow> db \<Rightarrow> (string + override_answer) \<times> db" where
  "apply_override_sync d families reason evidence now s =
     (case get_device s d of
        None \<Rightarrow> (Inl ''DEVICE_NOT_FOUND'', s)
      | Some v \<Rightarrow>
          (let target = override_targets families;
               s1 = fold (override_family d reason evidence now) target s;
               (closed, s2) = close_family_debts_sync d target ''overridden'' now s1;
               (released, s3) = maybe_release_debt_lease_sync d now s2;
               rows = open_debts_sync s3 d
           in (Inr \<lparr>oa_families = target, oa_closed_count = closed,
                 oa_debt_lease_released = released, oa_open_debt_count = length rows\<rparr>,
               recompute_return_state_from_open_debts d rows now s3)))"

subsection \<open>Late confirmation (D5.6)\<close>

record late_answer =
  la_closed_count :: nat
  la_debt_lease_released :: bool
  la_open_debt_count :: nat

definition late_match :: "nat \<Rightarrow> string \<Rightarrow> string \<Rightarrow> debt_row \<Rightarrow> bool" where
  "late_match job token family b =
     (b_family b = family \<and> b_source_kind b = SOURCE_KIND_JOB \<and> b_source_job_id b = Some job
      \<and> b_source_fencing_token b = Some token)"

text \<open>
  One family of the loop.  Both variants select among the rows that were open when the entry
  began: the async one holds that list, the sync one queries again but flushes only after the
  loop.
\<close>

definition late_family ::
  "nat \<Rightarrow> nat \<Rightarrow> string \<Rightarrow> time \<Rightarrow> debt_row list \<Rightarrow> string \<Rightarrow> nat \<times> string list \<times> db
   \<Rightarrow> nat \<times> string list \<times> db" where
  "late_family d job token now open_rows family acc =
     (let (closed, touched, s) = acc;
          rows = filter (late_match job token family) open_rows;
          s1 = s\<lparr>debts := upd_where (\<lambda>b. b_id b \<in> set (map b_id rows))
                 (close_debt ''discharged'' now) (debts s)\<rparr>;
          touched1 = (if rows \<noteq> [] then family # touched else touched)
      in (closed + length rows, touched1,
          if family \<in> set touched1
          then set_family_return_state d family
                 (if family_onboarded family then RETURNED else UNVERIFIED) ''job'' now
                 [(''job_id'', JInt (int job)), (''late_confirmed'', JBool True)] s1
          else s1))"

definition apply_late_confirmed_sync ::
  "nat \<Rightarrow> nat \<Rightarrow> string \<Rightarrow> string list \<Rightarrow> time \<Rightarrow> db \<Rightarrow> (string + late_answer) \<times> db" where
  "apply_late_confirmed_sync d job token families now s =
     (case get_device s d of
        None \<Rightarrow> (Inl ''DEVICE_NOT_FOUND'', s)
      | Some v \<Rightarrow>
          (let (closed, touched, s1) =
                 fold (late_family d job token now (open_debts_sync s d)) families (0, [], s);
               (released, s2) = maybe_release_debt_lease_sync d now s1;
               rows = open_debts_sync s2 d
           in (Inr \<lparr>la_closed_count = closed, la_debt_lease_released = released,
                 la_open_debt_count = length rows\<rparr>,
               recompute_return_state_from_open_debts d rows now s2)))"

definition apply_late_confirmed ::
  "nat \<Rightarrow> nat \<Rightarrow> string \<Rightarrow> string list \<Rightarrow> time \<Rightarrow> db \<Rightarrow> (string + late_answer) \<times> db" where
  "apply_late_confirmed d job token families now s =
     (case get_device s d of
        None \<Rightarrow> (Inl ''DEVICE_NOT_FOUND'', s)
      | Some v \<Rightarrow>
          (let (closed, touched, s1) =
                 fold (late_family d job token now (open_debts_async s d)) families (0, [], s);
               (released, s2) =
                 (if open_debts_async s1 d = [] then
                    (case get_active_lease s1 d of
                       Some l \<Rightarrow>
                         if is_debt_lease (Some l)
                         then (True, upd_lease (l_id l)
                                (\<lambda>l. l\<lparr>l_status := LS_RELEASED, l_released_at := Some now\<rparr>) s1)
                         else (False, s1)
                     | None \<Rightarrow> (False, s1))
                  else (False, s1));
               rows = open_debts_async s2 d
           in (Inr \<lparr>la_closed_count = closed, la_debt_lease_released = released,
                 la_open_debt_count = length rows\<rparr>,
               recompute_return_state_from_open_debts d rows now s2)))"

definition late_verified ::
  "env \<Rightarrow> device_row \<Rightarrow> job_row \<Rightarrow> nat \<Rightarrow> (string \<times> jobj) list \<Rightarrow> string \<Rightarrow> string list \<times> db
   \<Rightarrow> string list \<times> db" where
  "late_verified e v job job_id results family acc =
     (let (verified, s) = acc;
          entry = (case map_of results family of None \<Rightarrow> [] | Some en \<Rightarrow> en);
          policy = evaluate_probe_entry e v family entry True (Some job);
          decision = probe_entry_response family entry policy ''late''
      in if \<not> ed_ignore decision \<and> pp_trusted policy \<and> pp_result policy = CONFIRMED
         then (verified @ [family], s)
         else (verified, audit_unverified_probe_async e job_id family entry policy ''late''
                 ''job_instance'' s))"

definition try_apply_late_confirmed ::
  "env \<Rightarrow> nat \<Rightarrow> nat \<Rightarrow> string \<Rightarrow> json \<Rightarrow> time \<Rightarrow> db \<Rightarrow> (string + late_answer) option \<times> db" where
  "try_apply_late_confirmed e d job_id token disarm_results now s =
     (let results = normalize_disarm_results disarm_results;
          confirmed = map fst (filter (\<lambda>(f, entry). entry_result entry = CONFIRMED) results);
          open_rows = open_debts_async s d;
          matching = filter (\<lambda>b. b_family b \<in> set confirmed \<and> b_source_kind b = SOURCE_KIND_JOB
             \<and> b_source_job_id b = Some job_id \<and> b_source_fencing_token b = Some token) open_rows
      in if confirmed = [] \<or> matching = [] then (None, s)
         else
           (case (get_device s d, get_job s job_id) of
              (Some v, Some job) \<Rightarrow>
                (let (verified, s1) = fold (late_verified e v job job_id results) confirmed ([], s) in
                 if verified = []
                 then (Some (Inr \<lparr>la_closed_count = 0, la_debt_lease_released = False,
                         la_open_debt_count = length open_rows\<rparr>), s1)
                 else (let (r, s2) = apply_late_confirmed d job_id token verified now s1 in
                       (Some r, s2)))
            | _ \<Rightarrow> (None, s)))"

subsection \<open>Retirement (D5.8) and admission\<close>

definition release_debt_lease_for_retirement_sync :: "nat \<Rightarrow> time \<Rightarrow> db \<Rightarrow> bool \<times> db" where
  "release_debt_lease_for_retirement_sync d now s =
     (case get_active_lease s d of
        None \<Rightarrow> (False, s)
      | Some l \<Rightarrow>
          if \<not> is_debt_lease (Some l) then (False, s)
          else (True, upd_lease (l_id l)
                 (\<lambda>l. l\<lparr>l_status := LS_RELEASED, l_released_at := Some now\<rparr>) s))"

definition restore_debt_lease_on_unretire_sync :: "nat \<Rightarrow> time \<Rightarrow> db \<Rightarrow> lease_row option \<times> db" where
  "restore_debt_lease_on_unretire_sync d now s =
     (if open_debts_sync s d = [] then (None, s) else acquire_debt_lease_sync d now s)"

definition has_only_debt_lease_sync :: "db \<Rightarrow> nat \<Rightarrow> bool" where
  "has_only_debt_lease_sync s d = is_debt_lease (get_active_lease s d)"

definition devices_with_open_debt_sync :: "db \<Rightarrow> nat list \<Rightarrow> nat list" where
  "devices_with_open_debt_sync s ids =
     (if ids = [] then []
      else remdups (map b_device_id
             (filter (\<lambda>b. b_device_id b \<in> set ids \<and> b_state b = DEBT_OPEN) (debts s))))"

record debt_bucket =
  bk_device_id :: nat
  bk_serial :: string
  bk_fencing_token :: string
  bk_families :: "string list"

definition add_debt_bucket ::
  "db \<Rightarrow> string \<Rightarrow> debt_row \<Rightarrow> (nat \<times> debt_bucket) list \<Rightarrow> (nat \<times> debt_bucket) list" where
  "add_debt_bucket s host_id b buckets =
     (case get_device s (b_device_id b) of
        None \<Rightarrow> buckets
      | Some v \<Rightarrow>
          if d_host_id v \<noteq> Some host_id \<or> d_retired_at v \<noteq> None \<or> b_state b \<noteq> DEBT_OPEN then buckets
          else
            (case get_active_lease s (d_id v) of
               None \<Rightarrow> buckets
             | Some l \<Rightarrow>
                 if \<not> is_debt_lease (Some l) then buckets
                 else
                   (let bucket = (case map_of buckets (d_id v) of
                           Some k \<Rightarrow> k
                         | None \<Rightarrow> \<lparr>bk_device_id = d_id v, bk_serial = d_serial v,
                              bk_fencing_token = l_fencing_token l, bk_families = []\<rparr>)
                    in AList.update (d_id v)
                         (if b_family b \<in> set (bk_families bucket) then bucket
                          else bucket\<lparr>bk_families := bk_families bucket @ [b_family b]\<rparr>) buckets)))"

definition open_debts_for_host_sync :: "db \<Rightarrow> string \<Rightarrow> debt_bucket list" where
  "open_debts_for_host_sync s host_id = map snd (fold (add_debt_bucket s host_id) (debts s) [])"

subsection \<open>Initialisation (D1.7, D5.11)\<close>

definition history_disarm_results_for_job_sync :: "db \<Rightarrow> job_row \<Rightarrow> (string \<times> jobj) list" where
  "history_disarm_results_for_job_sync s job =
     (let results = normalize_disarm_results (j_disarm_results job) in
      if results \<noteq> [] then results
      else normalize_disarm_results (JObj (map (\<lambda>(f, entry). (f, JObj entry))
             (derive_disarm_results_from_traces (j_pipeline_def job)
               (filter (\<lambda>t. t_job_id t = j_id job) (traces s))))))"

fun history_scan :: "db \<Rightarrow> string \<Rightarrow> job_row list \<Rightarrow> (job_row \<times> string option) option" where
  "history_scan s family [] = None"
| "history_scan s family (job # rest) =
     (case map_of (history_disarm_results_for_job_sync s job) family of
        Some entry \<Rightarrow>
          Some (job, if entry_result entry = [] then None else Some (entry_result entry))
      | None \<Rightarrow>
          if family \<in> set (footprint_families_for_job_sync s job) then Some (job, Some INCOMPLETE)
          else history_scan s family rest)"

definition history_result_for_family_sync :: "db \<Rightarrow> nat \<Rightarrow> string \<Rightarrow> (job_row \<times> string option) option" where
  "history_result_for_family_sync s d family =
     history_scan s family
       (rev (sort_key (\<lambda>j. (the (j_ended_at j), j_id j))
          (filter (\<lambda>j. j_device_id j = d \<and> j_ended_at j \<noteq> None) (jobs s))))"

record init_summary =
  is_status :: string
  is_families :: jobj
  is_acquired_debt_lease :: bool
  is_open_debt_count :: "nat option"

record init_state =
  it_summary :: jobj
  it_current :: jobj
  it_changed :: bool

definition init_entry :: "string \<Rightarrow> jobj \<Rightarrow> bool \<Rightarrow> init_state \<Rightarrow> init_state" where
  "init_entry family entry dry_run it =
     (let it1 = it\<lparr>it_summary := AList.update family (JObj entry) (it_summary it)\<rparr> in
      if dry_run then it1
      else it1\<lparr>it_current := AList.update family (JObj entry) (it_current it1), it_changed := True\<rparr>)"

definition stock_entry :: "time \<Rightarrow> jobj" where
  "stock_entry now = [(''state'', JStr UNVERIFIED), (''source'', JStr ''stock''),
     (''updated_at'', JTime now)]"

text \<open>\<open>None\<close>: the debt insert violates the unique index and the exception leaves the function.\<close>

definition init_family ::
  "nat \<Rightarrow> bool \<Rightarrow> time \<Rightarrow> string \<Rightarrow> init_state \<times> db \<Rightarrow> (init_state \<times> db) option" where
  "init_family d dry_run now family acc =
     (let (it, s) = acc in
      case jget (it_current it) family of
        JObj entry \<Rightarrow> Some (it\<lparr>it_summary := AList.update family (JObj entry) (it_summary it)\<rparr>, s)
      | _ \<Rightarrow>
          if \<not> family_onboarded family
          then Some (init_entry family (stock_entry now) dry_run it, s)
          else
            (case history_result_for_family_sync s d family of
               Some (job, Some result) \<Rightarrow>
                 (let st = map_disarm_result_to_family_state result True;
                      state = (if st = RETURNED then UNVERIFIED else st);
                      entry = [(''state'', JStr state), (''source'', JStr ''stock''),
                        (''updated_at'', JTime now), (''history_job_id'', JInt (int (j_id job))),
                        (''disarm_result'', JStr result)];
                      it1 = init_entry family entry dry_run it
                  in if \<not> dry_run \<and> state = DEBT
                     then map_option (Pair it1)
                            (upsert_open_debt_sync d family SOURCE_KIND_STOCK (Some (j_id job)) None
                               result [(''history_job_id'', JInt (int (j_id job))),
                                       (''disarm_result'', JStr result)] now s)
                     else Some (it1, s))
             | _ \<Rightarrow> Some (init_entry family (stock_entry now) dry_run it, s)))"

fun init_families ::
  "nat \<Rightarrow> bool \<Rightarrow> time \<Rightarrow> string list \<Rightarrow> init_state \<times> db \<Rightarrow> (init_state \<times> db) option" where
  "init_families d dry_run now [] acc = Some acc"
| "init_families d dry_run now (f # fs) acc =
     (case init_family d dry_run now f acc of
        None \<Rightarrow> None | Some acc1 \<Rightarrow> init_families d dry_run now fs acc1)"

definition refresh_summary :: "jobj \<Rightarrow> jobj \<Rightarrow> jobj" where
  "refresh_summary rs summary =
     fold (\<lambda>(f, entry) m. case entry of JObj en \<Rightarrow> AList.update f (JObj en) m | _ \<Rightarrow> m) rs summary"

definition return_state_of :: "db \<Rightarrow> nat \<Rightarrow> jobj" where
  "return_state_of s d = (case get_device s d of None \<Rightarrow> [] | Some v \<Rightarrow> d_return_state v)"

definition init_settle :: "nat \<Rightarrow> bool \<Rightarrow> time \<Rightarrow> jobj \<Rightarrow> debt_row list \<Rightarrow> db \<Rightarrow> init_summary \<times> db" where
  \<comment> \<open>from \<open>lease = _active_lease_sync(...)\<close> to the end\<close>
  "init_settle d dry_run now fams open_rows s =
     (let lease = get_active_lease s d;
          needs = (open_rows \<noteq> [] \<or> list_ex (\<lambda>f. jget (obj_or_empty (jget fams f)) ''state'' = JStr DEBT)
                     (map fst FAMILY_STEPS));
          sm = \<lparr>is_status = ''ok'', is_families = fams, is_acquired_debt_lease = False,
                is_open_debt_count = None\<rparr>
      in if needs \<and> lease = None \<and> \<not> dry_run
         then (case acquire_debt_lease_sync d now s of
                 (None, s1) \<Rightarrow> (sm\<lparr>is_status := ''lease_conflict_retry''\<rparr>, s1)
               | (Some l, s1) \<Rightarrow>
                   (sm\<lparr>is_acquired_debt_lease := True,
                       is_open_debt_count := Some (length (open_debts_sync s1 d))\<rparr>, s1))
         else if needs \<and> lease \<noteq> None \<and> \<not> is_debt_lease lease
         then (sm\<lparr>is_status := ''occupied_debt_recorded'',
                  is_open_debt_count := Some (length open_rows)\<rparr>, s)
         else (sm\<lparr>is_open_debt_count := Some (if dry_run then length open_rows
                      else length (open_debts_sync s d))\<rparr>, s))"

definition init_device_return_sync :: "nat \<Rightarrow> bool \<Rightarrow> time \<Rightarrow> db \<Rightarrow> (init_summary \<times> db) option" where
  "init_device_return_sync d dry_run now s =
     (case get_device s d of
        None \<Rightarrow> Some (\<lparr>is_status = ''not_found'', is_families = [], is_acquired_debt_lease = False,
                        is_open_debt_count = None\<rparr>, s)
      | Some v \<Rightarrow>
          if d_retired_at v \<noteq> None
          then Some (\<lparr>is_status = ''retired_skipped'', is_families = [],
                       is_acquired_debt_lease = False, is_open_debt_count = None\<rparr>, s)
          else
            (case init_families d dry_run now (map fst FAMILY_STEPS)
                    (\<lparr>it_summary = [], it_current = d_return_state v, it_changed = False\<rparr>, s) of
               None \<Rightarrow> None
             | Some (it, s1) \<Rightarrow>
                 (let s2 = (if \<not> dry_run \<and> it_changed it
                            then upd_device d (\<lambda>v. v\<lparr>d_return_state := it_current it\<rparr>) s1 else s1);
                      open_rows = open_debts_sync s2 d;
                      s3 = (if dry_run then s2
                            else recompute_return_state_from_open_debts d open_rows now s2);
                      fams = (if dry_run then it_summary it
                              else refresh_summary (return_state_of s3 d) (it_summary it))
                  in Some (init_settle d dry_run now fams open_rows s3))))"

subsection \<open>The contract of an operation that closes debts\<close>

text \<open>
  Discharge, override and late confirmation differ in which debts they close; what follows is the
  same: release the debt lease if nothing is open any more, then recompute the return states.
  The locale states what they have to keep, once, and gives what the whole entry keeps.
\<close>

definition no_new :: "db \<Rightarrow> db \<Rightarrow> bool" where
  "no_new s t \<longleftrightarrow> (\<forall>d. open_debts_sync s d = [] \<longrightarrow> open_debts_sync t d = [])"

definition held :: "db \<Rightarrow> nat \<Rightarrow> bool" where
  \<comment> \<open>while debts are open the platform's debt lease is ACTIVE\<close>
  "held s d \<longleftrightarrow> (open_debts_sync s d \<noteq> [] \<longrightarrow>
      (\<exists>l. get_active_lease s d = Some l \<and> is_debt_lease_row l))"

definition finish_closing :: "nat \<Rightarrow> time \<Rightarrow> db \<Rightarrow> db" where
  "finish_closing d now s =
     (let s2 = snd (maybe_release_debt_lease_sync d now s)
      in recompute_return_state_from_open_debts d (open_debts_sync s2 d) now s2)"

definition only_closes :: "db \<Rightarrow> db \<Rightarrow> bool" where
  "only_closes s t \<longleftrightarrow> returns_only s t \<and> no_new s t"

lemma only_closes_refl [simp]: "only_closes s s"
  by (simp add: only_closes_def no_new_def)

lemma only_closes_trans [trans]: "only_closes s t \<Longrightarrow> only_closes t u \<Longrightarrow> only_closes s u"
  unfolding only_closes_def using returns_only_trans by (auto simp: no_new_def)

lemma no_new_debts: "debts t = debts s \<Longrightarrow> no_new s t"
  by (simp add: no_new_def open_debts_sync_def)

lemma open_debts_cong: "debts t = debts s \<Longrightarrow> open_debts_sync t = open_debts_sync s"
  by (simp add: open_debts_sync_def fun_eq_iff)

lemma debts_recompute [simp]: "debts (recompute_return_state_from_open_debts d r now s) = debts s"
  by (simp add: recompute_return_state_from_open_debts_def upd_device_def)

lemma debts_set_family [simp]: "debts (set_family_return_state d f st src now ex s) = debts s"
  by (simp add: set_family_return_state_def upd_device_def)

lemma only_closes_debts: "returns_only s t \<Longrightarrow> debts t = debts s \<Longrightarrow> only_closes s t"
  by (simp add: only_closes_def no_new_debts)

lemma held_same:
  assumes "only_closes s t" "held s d"
  shows "held t d"
proof -
  from assms(1) have "get_active_lease t d = get_active_lease s d"
    by (intro same_leases_active returns_only_same) (simp add: only_closes_def)
  with assms show ?thesis by (auto simp: held_def no_new_def only_closes_def)
qed

lemma maybe_release_cases:
  obtains (kept) "maybe_release_debt_lease_sync d now s = (False, s)"
      "open_debts_sync s d \<noteq> [] \<or> (\<forall>l. get_active_lease s d = Some l \<longrightarrow> \<not> is_debt_lease_row l)"
  | (released) l where "open_debts_sync s d = []" "get_active_lease s d = Some l" "is_debt_lease_row l"
      "maybe_release_debt_lease_sync d now s = (True, upd_leases (\<lambda>x. l_id x = l_id l)
         (\<lambda>l. l\<lparr>l_status := LS_RELEASED, l_released_at := Some now\<rparr>) s)"
proof (cases "open_debts_sync s d = [] \<and> is_debt_lease (get_active_lease s d)")
  case True
  then obtain l where l: "get_active_lease s d = Some l" "is_debt_lease_row l"
    by (auto simp: is_debt_lease_def split: option.splits)
  with True released [OF _ l] show ?thesis
    by (simp add: maybe_release_debt_lease_sync_def upd_lease_leases is_debt_lease_def)
next
  case False
  then have "maybe_release_debt_lease_sync d now s = (False, s)"
    by (auto simp: maybe_release_debt_lease_sync_def split: option.splits)
  with False show ?thesis
    by (intro kept) (auto simp: is_debt_lease_def split: option.splits)
qed

lemma maybe_release_debts [simp]: "debts (snd (maybe_release_debt_lease_sync d now s)) = debts s"
  by (cases rule: maybe_release_cases [of d now s]) (simp_all add: upd_leases_def)

lemma maybe_release_wf: "lease_wf s \<Longrightarrow> lease_wf (snd (maybe_release_debt_lease_sync d now s))"
  by (cases rule: maybe_release_cases [of d now s]) (simp_all add: touch_wf [OF release_touches])

lemma maybe_release_fence: "fence_step s (snd (maybe_release_debt_lease_sync d now s))"
  by (cases rule: maybe_release_cases [of d now s]) (simp_all add: touch_fence [OF release_touches])

lemma released_not_active:
  assumes wf: "lease_wf s" and l: "get_active_lease s d = Some l"
  shows "get_active_lease (upd_leases (\<lambda>x. l_id x = l_id l)
     (\<lambda>l. l\<lparr>l_status := LS_RELEASED, l_released_at := Some now\<rparr>) s) d = None"
  unfolding get_active_lease_None
proof
  fix x assume "x \<in> set (leases (upd_leases (\<lambda>x. l_id x = l_id l)
     (\<lambda>l. l\<lparr>l_status := LS_RELEASED, l_released_at := Some now\<rparr>) s))"
  then have "x \<in> set (upd_where (\<lambda>x. l_id x = l_id l)
     (\<lambda>l. l\<lparr>l_status := LS_RELEASED, l_released_at := Some now\<rparr>) (leases s))"
    by (simp add: upd_leases_def)
  then show "\<not> active_on d x"
  proof (cases rule: in_upd_whereE)
    case 1
    show ?thesis
    proof
      assume "active_on d x"
      from lease_wf_get_active [OF wf 1(1) this] l 1(2) show False by simp
    qed
  next
    case (2 y)
    then show ?thesis by (simp add: active_on_def)
  qed
qed

lemma maybe_release_held: "held s d \<Longrightarrow> held (snd (maybe_release_debt_lease_sync d now s)) d"
  by (cases rule: maybe_release_cases [of d now s]) (simp_all add: held_def)

lemma maybe_release_frees:
  assumes "lease_wf s" "open_debts_sync s d = []"
    and l: "get_active_lease (snd (maybe_release_debt_lease_sync d now s)) d = Some l"
  shows "\<not> is_debt_lease_row l"
  using maybe_release_cases [of d now s]
proof cases
  case kept
  with assms show ?thesis by simp
next
  case (released l0)
  with released_not_active [OF assms(1) released(2), of now] l show ?thesis by simp
qed

lemma finish_debts [simp]: "debts (finish_closing d now s) = debts s"
  by (simp add: finish_closing_def Let_def)

locale debt_closing =
  fixes close :: "db \<Rightarrow> db"
  assumes close_only: "only_closes s (close s)"
begin

lemma close_returns: "returns_only s (close s)"
  using close_only by (simp add: only_closes_def)

lemma closing_wf: "lease_wf s \<Longrightarrow> lease_wf (close s)"
  using same_leases_wf [OF returns_only_same [OF close_returns]] by blast

lemma finish_wf: "lease_wf s \<Longrightarrow> lease_wf (finish_closing d now (close s))"
proof -
  assume "lease_wf s"
  then have "lease_wf (snd (maybe_release_debt_lease_sync d now (close s)))"
    by (intro maybe_release_wf closing_wf)
  then show ?thesis
    unfolding finish_closing_def Let_def
    using same_leases_wf [OF returns_only_same [OF returns_only_recompute]] by blast
qed

lemma finish_fence: "fence_step s (finish_closing d now (close s))"
  unfolding finish_closing_def Let_def
  by (rule fence_trans [OF same_leases_fence [OF returns_only_same [OF close_returns]]],
      rule fence_trans [OF maybe_release_fence],
      rule same_leases_fence [OF returns_only_same [OF returns_only_recompute]])

lemma finish_held: "held s d \<Longrightarrow> held (finish_closing d now (close s)) d"
proof -
  assume "held s d"
  then have "held (snd (maybe_release_debt_lease_sync d now (close s))) d"
    by (intro maybe_release_held held_same [OF close_only])
  then show ?thesis
    unfolding finish_closing_def Let_def
    by (rule held_same [OF only_closes_debts [OF returns_only_recompute debts_recompute]])
qed

lemma finish_frees:
  assumes "lease_wf s" "open_debts_sync (finish_closing d now (close s)) d = []"
    "get_active_lease (finish_closing d now (close s)) d = Some l"
  shows "\<not> is_debt_lease_row l"
proof -
  let ?m = "snd (maybe_release_debt_lease_sync d now (close s))"
  have "open_debts_sync (close s) d = []"
    using assms(2) open_debts_cong [OF finish_debts] by metis
  moreover have "get_active_lease ?m d = Some l"
    using assms(3) same_leases_active [OF returns_only_same [OF returns_only_recompute], of d]
    unfolding finish_closing_def Let_def by metis
  ultimately show ?thesis by (intro maybe_release_frees [OF closing_wf [OF assms(1)]])
qed

end

subsection \<open>The three closing operations meet the contract\<close>

lemma returns_only_debts: "returns_only s (s\<lparr>debts := x\<rparr>)"
  by (simp add: returns_only_def)

lemma no_new_close:
  "no_new s (s\<lparr>debts := upd_where P (close_debt r now) (debts s)\<rparr>)"
proof -
  have "length (filter (\<lambda>b. b_device_id b = d \<and> b_state b = DEBT_OPEN) (upd_where P (close_debt r now) t))
      \<le> length (filter (\<lambda>b. b_device_id b = d \<and> b_state b = DEBT_OPEN) t)" for d t
    by (rule length_filter_upd_where) (simp add: close_debt_def)
  then have le: "length (open_debts_sync (s\<lparr>debts := upd_where P (close_debt r now) (debts s)\<rparr>) d)
      \<le> length (open_debts_sync s d)" for d
    by (simp add: open_debts_sync_def)
  show ?thesis
    unfolding no_new_def
  proof (intro allI impI)
    fix d assume "open_debts_sync s d = []"
    with le [of d] show "open_debts_sync (s\<lparr>debts := upd_where P (close_debt r now) (debts s)\<rparr>) d = []"
      by simp
  qed
qed

lemma only_closes_close: "only_closes s (s\<lparr>debts := upd_where P (close_debt r now) (debts s)\<rparr>)"
  by (simp add: only_closes_def returns_only_debts no_new_close)

lemma only_closes_family: "only_closes s (snd (close_family_debts_sync d fs r now s))"
  by (simp add: close_family_debts_sync_def only_closes_close)

lemma only_closes_set_family [simp]: "only_closes s (set_family_return_state d f st src now ex s)"
  by (simp add: only_closes_debts)

lemma only_closes_audit [simp]: "only_closes s (audit_unverified_probe e d f en p ep rep rt i s)"
  by (intro only_closes_debts audits_only_returns)
     (simp_all add: audits_only_fields [OF audits_only_unverified])

lemma discharge_entry_keeps: "only_closes s (snd (discharge_entry e d v token now f en acc s))"
  using only_closes_trans [OF only_closes_set_family only_closes_family]
  by (simp add: discharge_entry_def Let_def)

lemma discharge_loop_keeps: "only_closes s (snd (discharge_loop e d v token now frs acc s))"
proof (induction frs arbitrary: acc s)
  case Nil
  then show ?case by simp
next
  case (Cons fe frs)
  obtain f en where fe: "fe = (f, en)" by (cases fe)
  let ?e = "discharge_entry e d v token now f en acc s"
  have "only_closes s (snd (discharge_loop e d v token now frs (fst ?e) (snd ?e)))"
    by (rule only_closes_trans [OF discharge_entry_keeps]) (rule Cons.IH)
  moreover have "only_closes s (snd (discharge_loop e d v token now frs acc s))" by (rule Cons.IH)
  ultimately show ?case by (simp add: fe split_beta Let_def)
qed

interpretation discharging:
  debt_closing "\<lambda>s. snd (discharge_loop e d v token now frs acc s)" for e d v token now frs acc
  by unfold_locales (rule discharge_loop_keeps)

definition override_close :: "nat \<Rightarrow> string list \<Rightarrow> string \<Rightarrow> string \<Rightarrow> time \<Rightarrow> db \<Rightarrow> db" where
  "override_close d target reason evidence now s =
     snd (close_family_debts_sync d target ''overridden'' now
        (fold (override_family d reason evidence now) target s))"

lemma override_keeps: "only_closes s (override_close d target reason evidence now s)"
proof -
  have "only_closes s (fold (override_family d reason evidence now) fs s)" for fs
  proof (induction fs arbitrary: s)
    case Nil
    then show ?case by simp
  next
    case (Cons f fs)
    have "only_closes s (override_family d reason evidence now f s)" by (simp add: override_family_def)
    from only_closes_trans [OF this Cons.IH] show ?case by (simp add: comp_def)
  qed
  from only_closes_trans [OF this only_closes_family] show ?thesis by (simp add: override_close_def)
qed

interpretation overriding:
  debt_closing "override_close d target reason evidence now" for d target reason evidence now
  by unfold_locales (rule override_keeps)

definition late_close :: "nat \<Rightarrow> nat \<Rightarrow> string \<Rightarrow> time \<Rightarrow> string list \<Rightarrow> db \<Rightarrow> db" where
  "late_close d job token now families s =
     snd (snd (fold (late_family d job token now (open_debts_sync s d)) families (0, [], s)))"

lemma late_family_keeps:
  "only_closes (snd (snd acc)) (snd (snd (late_family d job token now rows f acc)))"
proof -
  obtain c tt s where acc: "acc = (c, tt, s)" by (cases acc)
  show ?thesis
    using only_closes_close only_closes_trans [OF only_closes_close only_closes_set_family]
    by (simp add: acc late_family_def Let_def)
qed

lemma late_keeps: "only_closes s (late_close d job token now families s)"
proof -
  have "only_closes (snd (snd acc)) (snd (snd (fold (late_family d job token now rows) fs acc)))" for rows fs acc
  proof (induction fs arbitrary: acc)
    case Nil
    then show ?case by simp
  next
    case (Cons f fs)
    from only_closes_trans [OF late_family_keeps Cons.IH] show ?case by (simp add: comp_def)
  qed
  from this [of "(0, [], s)"] show ?thesis by (simp add: late_close_def)
qed

interpretation confirming:
  debt_closing "late_close d job token now families" for d job token now families
  by unfold_locales (rule late_keeps)

subsection \<open>What the entries keep\<close>

lemma discharge_state:
  "snd (apply_discharge_sync e d token frs now s) =
     (case get_device s d of
        None \<Rightarrow> s
      | Some v \<Rightarrow>
          (case get_active_lease s d of
             None \<Rightarrow> s
           | Some l \<Rightarrow>
               if \<not> is_debt_lease_row l \<or> l_fencing_token l \<noteq> token then s
               else (let r = discharge_loop e d v token now frs
                            \<lparr>ds_discharged = [], ds_rejected = [], ds_accepted = 0\<rparr> s
                     in if ds_rejected (fst r) \<noteq> [] \<and> ds_accepted (fst r) = 0 then snd r
                        else finish_closing d now (snd r))))"
  by (simp add: apply_discharge_sync_def finish_closing_def split_beta Let_def is_debt_lease_def
      split: option.splits)

lemma override_state:
  "snd (apply_override_sync d fs reason ev now s) =
     (if get_device s d = None then s
      else finish_closing d now (override_close d (override_targets fs) reason ev now s))"
  by (simp add: apply_override_sync_def finish_closing_def override_close_def split_beta Let_def
      split: option.splits)

lemma late_state:
  "snd (apply_late_confirmed_sync d job token fs now s) =
     (if get_device s d = None then s
      else finish_closing d now (late_close d job token now fs s))"
  by (simp add: apply_late_confirmed_sync_def finish_closing_def late_close_def split_beta Let_def
      split: option.splits)

lemmas closing_facts =
  discharging.closing_wf discharging.finish_wf discharging.finish_fence discharging.finish_held
  overriding.finish_wf overriding.finish_fence overriding.finish_held
  confirming.finish_wf confirming.finish_fence confirming.finish_held

lemma discharge_wf: "lease_wf s \<Longrightarrow> lease_wf (snd (apply_discharge_sync e d token frs now s))"
  by (simp add: discharge_state closing_facts Let_def split: option.splits)

lemma discharge_fence: "fence_step s (snd (apply_discharge_sync e d token frs now s))"
  using same_leases_fence [OF returns_only_same [OF discharging.close_returns]]
  by (simp add: discharge_state closing_facts Let_def split: option.splits)

lemma discharge_held: "held s d \<Longrightarrow> held (snd (apply_discharge_sync e d token frs now s)) d"
  using held_same [OF discharging.close_only]
  by (simp add: discharge_state closing_facts Let_def split: option.splits)

text \<open>
  C33. Closing debts never lets an indebted device go: discharge, override and late confirmation
  keep the lease invariant and the fencing order, and keep the device held by the platform's debt
  lease as long as one debt is open on it.
\<close>

theorem closing_entries_keep_hold:
  assumes "lease_wf s" "held s d"
    and "t = snd (apply_discharge_sync e d token frs now s)
       \<or> t = snd (apply_override_sync d fs reason ev now s)
       \<or> t = snd (apply_late_confirmed_sync d job token fams now s)"
  shows "lease_wf t \<and> fence_step s t \<and> held t d"
  using assms discharge_wf discharge_fence discharge_held
  by (elim disjE) (simp_all add: override_state late_state closing_facts)

definition indebted_db :: db where
  \<comment> \<open>the state the release entry leaves for \<open>debt_db\<close>\<close>
  "indebted_db = snd (handle_job_lease_release_sync 5 7 None 800 debt_db)"

lemma indebted_db_wf: "lease_wf indebted_db"
  unfolding indebted_db_def by (rule handle_wf [OF debt_db_wf])

lemma indebted_db_held: "held indebted_db 5"
proof -
  have "is_debt_lease (get_active_lease indebted_db 5)" by code_simp
  then show ?thesis by (auto simp: held_def is_debt_lease_def split: option.splits)
qed

lemma closing_entries_keep_hold_witness:
  "held (snd (apply_override_sync 5 (Some [''sleep'']) ''x'' ''y'' 900 indebted_db)) 5
   \<and> open_debts_sync (snd (apply_override_sync 5 (Some [''sleep'']) ''x'' ''y'' 900 indebted_db)) 5 \<noteq> []"
proof
  show "held (snd (apply_override_sync 5 (Some [''sleep'']) ''x'' ''y'' 900 indebted_db)) 5"
    by (rule conjunct2 [OF conjunct2 [OF closing_entries_keep_hold [OF indebted_db_wf indebted_db_held
      disjI2 [OF disjI1 [OF refl]]]]])
  show "open_debts_sync (snd (apply_override_sync 5 (Some [''sleep'']) ''x'' ''y'' 900 indebted_db)) 5 \<noteq> []"
    by code_simp
qed

text \<open>
  Closing the last debt frees the device: where an override reports no open debt left, the
  debt lease is not ACTIVE any more.
\<close>

theorem override_frees_device:
  assumes wf: "lease_wf s" and o: "apply_override_sync d fs reason ev now s = (Inr a, t)"
    and none: "oa_open_debt_count a = 0"
  shows "open_debts_sync t d = [] \<and> \<not> is_debt_lease (get_active_lease t d)"
proof -
  from o have dev: "get_device s d \<noteq> None"
    by (cases "get_device s d") (simp_all add: apply_override_sync_def)
  let ?c = "override_close d (override_targets fs) reason ev now s"
  from o override_state [of d fs reason ev now s] dev have t: "t = finish_closing d now ?c" by simp
  from o have "oa_open_debt_count a = length (open_debts_sync ?c d)"
    using open_debts_cong [OF maybe_release_debts]
    by (auto simp: apply_override_sync_def override_close_def split_beta Let_def split: option.splits)
  with none have c: "open_debts_sync t d = []"
    unfolding t using open_debts_cong [OF finish_debts] by simp
  then show ?thesis
    using overriding.finish_frees [OF wf c [unfolded t]] unfolding t
    by (auto simp: is_debt_lease_def split: option.splits)
qed

lemma override_frees_device_witness:
  "\<exists>a t. apply_override_sync 5 None ''x'' ''y'' 900 indebted_db = (Inr a, t)
     \<and> \<not> is_debt_lease (get_active_lease t 5)"
proof -
  have "case fst (apply_override_sync 5 None ''x'' ''y'' 900 indebted_db) of
      Inl e \<Rightarrow> False | Inr a \<Rightarrow> oa_open_debt_count a = 0" by code_simp
  then obtain a t where o: "apply_override_sync 5 None ''x'' ''y'' 900 indebted_db = (Inr a, t)"
    "oa_open_debt_count a = 0"
    by (cases "apply_override_sync 5 None ''x'' ''y'' 900 indebted_db") (auto split: sum.splits)
  from override_frees_device [OF indebted_db_wf o] o(1) show ?thesis by blast
qed

lemma close_family_keeps_row:
  assumes "b \<in> set (debts s)" "b_family b \<notin> set fs"
  shows "b \<in> set (debts (snd (close_family_debts_sync d fs r now s)))"
  using assms by (auto simp: close_family_debts_sync_def set_upd_where)

lemma discharge_entry_row:
  assumes "b \<in> set (debts s)"
  shows "b \<in> set (debts (snd (discharge_entry e d v token now f en acc s)))
     \<or> (b_family b = f \<and> earned e v f en None)"
proof (cases "b_family b = f")
  case True
  have "debts (audit_unverified_probe e d f en p ep rep rt i s) = debts s" for p ep rep rt i
    using audits_only_fields [OF audits_only_unverified] by blast
  with True assms show ?thesis
    by (simp add: discharge_entry_def Let_def earned_def)
next
  case False
  have "debts (audit_unverified_probe e d f en p ep rep rt i s) = debts s" for p ep rep rt i
    using audits_only_fields [OF audits_only_unverified] by blast
  with False assms show ?thesis
    by (simp add: discharge_entry_def Let_def close_family_keeps_row)
qed

lemma discharge_loop_row:
  assumes "b \<in> set (debts s)"
  shows "b \<in> set (debts (snd (discharge_loop e d v token now frs acc s)))
     \<or> (\<exists>en. (b_family b, en) \<in> set frs \<and> earned e v (b_family b) en None)"
  using assms
proof (induction frs arbitrary: acc s)
  case Nil
  then show ?case by simp
next
  case (Cons fe frs)
  obtain f en where fe: "fe = (f, en)" by (cases fe)
  let ?e = "discharge_entry e d v token now f en acc s"
  from discharge_entry_row [OF Cons.prems, of e d v token now f en acc]
  show ?case
  proof
    assume "b \<in> set (debts (snd ?e))"
    from Cons.IH [OF this, of "fst ?e"] Cons.IH [OF Cons.prems, of acc] show ?thesis
      by (auto simp: fe split_beta Let_def)
  next
    assume "b_family b = f \<and> earned e v f en None"
    then show ?thesis using fe by auto
  qed
qed

text \<open>
  C34. A discharge closes nothing it has not earned: a debt row the entry changes belongs to a
  family whose report the probe policy trusts as \<open>confirmed\<close>, and the caller presented the token of
  the debt lease that is ACTIVE on the device.
\<close>

theorem discharge_closes_only_earned:
  assumes "apply_discharge_sync e d token frs now s = (r, t)" "b \<in> set (debts s)" "b \<notin> set (debts t)"
  shows "\<exists>v l en. get_device s d = Some v \<and> get_active_lease s d = Some l \<and> is_debt_lease_row l
     \<and> l_fencing_token l = token \<and> (b_family b, en) \<in> set frs \<and> earned e v (b_family b) en None"
proof -
  have t: "t = snd (apply_discharge_sync e d token frs now s)" using assms(1) by simp
  show ?thesis
  proof (cases "\<exists>v l. get_device s d = Some v \<and> get_active_lease s d = Some l \<and> is_debt_lease_row l
      \<and> l_fencing_token l = token")
    case True
    then obtain v l where vl: "get_device s d = Some v" "get_active_lease s d = Some l"
      "is_debt_lease_row l" "l_fencing_token l = token" by blast
    let ?l = "discharge_loop e d v token now frs \<lparr>ds_discharged = [], ds_rejected = [], ds_accepted = 0\<rparr> s"
    have "debts t = debts (snd ?l)" using vl by (simp add: t discharge_state Let_def)
    with assms(3) discharge_loop_row [OF assms(2), of e d v token now frs] vl show ?thesis by metis
  next
    case False
    then have "t = s" by (auto simp: t discharge_state split: option.splits)
    with assms show ?thesis by simp
  qed
qed

definition debt_token :: string where
  "debt_token = (case get_active_lease indebted_db 5 of None \<Rightarrow> [] | Some l \<Rightarrow> l_fencing_token l)"

lemma discharge_closes_only_earned_witness:
  "\<exists>b v. b \<in> set (debts indebted_db) \<and> b_family b = ''gpu''
     \<and> get_device indebted_db 5 = Some v \<and> (\<exists>en. earned manifest_env v ''gpu'' en None)"
proof -
  let ?d = "apply_discharge_sync manifest_env 5 debt_token [(''gpu'', gpu_entry)] 900 indebted_db"
  obtain r t where d: "?d = (r, t)" by (cases ?d)
  have gone: "list_all (\<lambda>b. b_state b = DEBT_CLOSED) (debts (snd ?d))" by code_simp
  have there: "list_all (\<lambda>b. b_state b = DEBT_OPEN \<and> b_family b = ''gpu'') (debts indebted_db)"
    and ne: "debts indebted_db \<noteq> []" by code_simp+
  obtain b where b: "b \<in> set (debts indebted_db)" using ne by (cases "debts indebted_db") auto
  then have fam: "b_family b = ''gpu''" and "b_state b = DEBT_OPEN" using there by (auto simp: list_all_iff)
  then have "b \<notin> set (debts t)" using gone d by (auto simp: list_all_iff)
  from discharge_closes_only_earned [OF d b this] b fam show ?thesis by auto
qed

subsection \<open>Late confirmations\<close>

lemma maybe_release_async:
  "(if open_debts_async s d = [] then
      (case get_active_lease s d of
         Some l \<Rightarrow> if is_debt_lease (Some l)
           then (True, upd_lease (l_id l) (\<lambda>l. l\<lparr>l_status := LS_RELEASED, l_released_at := Some now\<rparr>) s)
           else (False, s)
       | None \<Rightarrow> (False, s))
    else (False, s)) = maybe_release_debt_lease_sync d now s"
  by (auto simp: maybe_release_debt_lease_sync_def open_debts_async_def open_debts_sync_def
      split: option.splits)

lemma late_async_sync: "apply_late_confirmed d job token fs now s = apply_late_confirmed_sync d job token fs now s"
  unfolding apply_late_confirmed_def apply_late_confirmed_sync_def maybe_release_async
  unfolding open_debts_async_def open_debts_sync_def by (rule refl)

definition same_source :: "debt_row list \<Rightarrow> debt_row list \<Rightarrow> bool" where
  "same_source rows t \<longleftrightarrow> (\<forall>x\<in>set t. \<forall>y\<in>set rows. b_id x = b_id y \<longrightarrow>
      b_source_job_id x = b_source_job_id y \<and> b_source_fencing_token x = b_source_fencing_token y)"

lemma late_family_row:
  assumes src: "same_source rows (debts (snd (snd acc)))" and b: "b \<in> set (debts (snd (snd acc)))"
  shows "same_source rows (debts (snd (snd (late_family d job token now rows f acc))))
     \<and> (b \<in> set (debts (snd (snd (late_family d job token now rows f acc))))
        \<or> (b_source_job_id b = Some job \<and> b_source_fencing_token b = Some token))"
proof -
  obtain c tt s where acc: "acc = (c, tt, s)" by (cases acc)
  let ?P = "\<lambda>x. b_id x \<in> set (map b_id (filter (late_match job token f) rows))"
  have d: "debts (snd (snd (late_family d job token now rows f acc)))
      = upd_where ?P (close_debt ''discharged'' now) (debts s)"
    by (simp add: acc late_family_def Let_def)
  have keep: "b_id (close_debt r now x) = b_id x" "b_source_job_id (close_debt r now x) = b_source_job_id x"
    "b_source_fencing_token (close_debt r now x) = b_source_fencing_token x" for r x
    by (simp_all add: close_debt_def)
  have "same_source rows (upd_where ?P (close_debt ''discharged'' now) (debts s))"
    unfolding same_source_def
  proof
    fix x assume "x \<in> set (upd_where ?P (close_debt ''discharged'' now) (debts s))"
    then show "\<forall>y\<in>set rows. b_id x = b_id y \<longrightarrow> b_source_job_id x = b_source_job_id y
        \<and> b_source_fencing_token x = b_source_fencing_token y"
    proof (cases rule: in_upd_whereE)
      case 1
      with src acc show ?thesis by (simp add: same_source_def)
    next
      case (2 x0)
      from src acc 2(1) have "\<forall>y\<in>set rows. b_id x0 = b_id y \<longrightarrow> b_source_job_id x0 = b_source_job_id y
        \<and> b_source_fencing_token x0 = b_source_fencing_token y" by (simp add: same_source_def)
      with 2(3) show ?thesis by (simp only: keep)
    qed
  qed
  moreover have "b \<in> set (upd_where ?P (close_debt ''discharged'' now) (debts s))
      \<or> (b_source_job_id b = Some job \<and> b_source_fencing_token b = Some token)"
  proof (cases "?P b")
    case True
    then obtain y where "y \<in> set rows" "late_match job token f y" "b_id b = b_id y" by auto
    with src b acc show ?thesis by (auto simp: late_match_def same_source_def)
  next
    case False
    with b acc show ?thesis by (auto simp: set_upd_where)
  qed
  ultimately show ?thesis unfolding d by blast
qed

lemma late_fold_row:
  assumes "same_source rows (debts (snd (snd acc)))" "b \<in> set (debts (snd (snd acc)))"
  shows "b \<in> set (debts (snd (snd (fold (late_family d job token now rows) fs acc))))
     \<or> (b_source_job_id b = Some job \<and> b_source_fencing_token b = Some token)"
  using assms
proof (induction fs arbitrary: acc)
  case Nil
  then show ?case by simp
next
  case (Cons f fs)
  from late_family_row [OF Cons.prems, of d job token now f] Cons.IH [of "late_family d job token now rows f acc"]
  show ?case by (simp add: comp_def) blast
qed

text \<open>
  The synchronous and the asynchronous late-confirmation entry are the same function, and
  neither touches a debt of another job or token: a row they change was left by that job under
  that fencing token.
\<close>

theorem late_confirmation_same_source:
  assumes ids: "distinct (map b_id (debts s))"
  shows "apply_late_confirmed d job token fs now s = apply_late_confirmed_sync d job token fs now s
     \<and> (\<forall>b\<in>set (debts s). b \<in> set (debts (snd (apply_late_confirmed d job token fs now s)))
          \<or> (b_source_job_id b = Some job \<and> b_source_fencing_token b = Some token))"
proof -
  have "same_source (open_debts_sync s d) (debts s)"
    unfolding same_source_def open_debts_sync_def
  proof (intro ballI impI)
    fix x y assume "x \<in> set (debts s)"
      "y \<in> set (filter (\<lambda>b. b_device_id b = d \<and> b_state b = DEBT_OPEN) (debts s))" "b_id x = b_id y"
    with distinct_map_single [OF ids, of x y] show "b_source_job_id x = b_source_job_id y
        \<and> b_source_fencing_token x = b_source_fencing_token y" by simp
  qed
  then have row: "b \<in> set (debts (late_close d job token now fs s))
      \<or> (b_source_job_id b = Some job \<and> b_source_fencing_token b = Some token)"
    if "b \<in> set (debts s)" for b
    using late_fold_row [of "open_debts_sync s d" "(0, [], s)" b] that by (simp add: late_close_def)
  show ?thesis
    unfolding late_async_sync late_state using row by auto
qed

lemma late_confirmation_same_source_witness:
  "apply_late_confirmed 5 7 ''5:1'' [''gpu''] 900 indebted_db
     = apply_late_confirmed_sync 5 7 ''5:1'' [''gpu''] 900 indebted_db
   \<and> open_debts_sync (snd (apply_late_confirmed_sync 5 7 ''5:1'' [''gpu''] 900 indebted_db)) 5 = []"
proof
  have "distinct (map b_id (debts indebted_db))" by code_simp
  from late_confirmation_same_source [OF this, of 5 7 "''5:1''" "[''gpu'']" 900]
  show "apply_late_confirmed 5 7 ''5:1'' [''gpu''] 900 indebted_db
     = apply_late_confirmed_sync 5 7 ''5:1'' [''gpu''] 900 indebted_db" by blast
  show "open_debts_sync (snd (apply_late_confirmed_sync 5 7 ''5:1'' [''gpu''] 900 indebted_db)) 5 = []"
    by code_simp
qed

subsection \<open>Retirement\<close>

lemma dead_after_id_release:
  assumes wf: "lease_wf s" and l: "l \<in> set (leases s)"
  shows "\<not> live_token (upd_leases (\<lambda>x. l_id x = l_id l)
     (\<lambda>l. l\<lparr>l_status := LS_RELEASED, l_released_at := t\<rparr>) s) (l_fencing_token l)"
proof
  assume "live_token (upd_leases (\<lambda>x. l_id x = l_id l)
     (\<lambda>l. l\<lparr>l_status := LS_RELEASED, l_released_at := t\<rparr>) s) (l_fencing_token l)"
  then obtain x where x: "x \<in> set (upd_where (\<lambda>x. l_id x = l_id l)
      (\<lambda>l. l\<lparr>l_status := LS_RELEASED, l_released_at := t\<rparr>) (leases s))"
    "active_lease x" "l_fencing_token x = l_fencing_token l"
    by (auto simp: live_token_def upd_leases_def)
  from x(1) show False
  proof (cases rule: in_upd_whereE)
    case 1
    from wf have "distinct (map l_fencing_token (leases s))" by (simp add: lease_wf_def)
    from distinct_map_single [OF this 1(1) l x(3)] 1(2) show False by simp
  next
    case (2 y)
    with x(2) show False by (simp add: active_lease_def)
  qed
qed

lemma generation_acquired:
  assumes "get_device s d = Some v" "fst (acquire_debt_lease_sync d now s) = Some l"
  shows "l_generation l = Suc (generation_of s d)"
  using assms generation_bump [OF assms(1), of d]
  by (auto simp: acquire_debt_lease_sync_def Let_def split: if_splits)

text \<open>
  Retiring and taking back an indebted device: the retirement releases the debt lease and
  closes no debt; when the device is back the debt lease is re-created with a larger generation,
  and the token handed out before stays dead.
\<close>

theorem retirement_round_trip:
  assumes wf: "lease_wf s" and l: "get_active_lease s d = Some l" "is_debt_lease_row l"
    and v: "get_device s d = Some v" "d_retired_at v = None" "\<not> no_text (d_host_id v)"
    and debt: "open_debts_sync s d \<noteq> []"
    and rel: "release_debt_lease_for_retirement_sync d now s = (released, s1)"
    and res: "restore_debt_lease_on_unretire_sync d later s1 = (restored, t)"
  shows "released \<and> get_active_lease s1 d = None
     \<and> (\<exists>l'. restored = Some l' \<and> get_active_lease t d = Some l' \<and> is_debt_lease_row l'
           \<and> l_generation l < l_generation l')
     \<and> \<not> live_token t (l_fencing_token l) \<and> debts t = debts s"
proof -
  let ?f = "\<lambda>l. l\<lparr>l_status := LS_RELEASED, l_released_at := Some now\<rparr>"
  from rel l have s1: "released" "s1 = upd_leases (\<lambda>x. l_id x = l_id l) ?f s"
    by (auto simp: release_debt_lease_for_retirement_sync_def is_debt_lease_def upd_lease_leases)
  have wf1: "lease_wf s1" unfolding s1(2) by (rule touch_wf [OF release_touches wf])
  have free: "get_active_lease s1 d = None" unfolding s1(2) by (rule released_not_active [OF wf l(1)])
  have v1: "get_device s1 d = Some v" using v(1) by (simp add: s1(2) get_device_def upd_leases_def)
  have d1: "debts s1 = debts s" by (simp add: s1(2) upd_leases_def)
  then have "open_debts_sync s1 d \<noteq> []" using debt open_debts_cong [OF d1] by simp
  with res have acq: "acquire_debt_lease_sync d later s1 = (restored, t)"
    by (simp add: restore_debt_lease_on_unretire_sync_def)
  with acquire_debt_result [OF wf1 v1 v(2,3) free, of later] obtain l' where
    l': "restored = Some l'" "is_debt_lease_row l'" "get_active_lease t d = Some l'" by auto
  have gen1: "generation_of s1 d = generation_of s d" by (simp add: s1(2))
  have "l_generation l' = Suc (generation_of s d)"
    using generation_acquired [OF v1, of later l'] acq l'(1) gen1 by simp
  moreover from get_active_lease_Some [OF l(1)] have lin: "l \<in> set (leases s)" "l_device_id l = d" by auto
  moreover have le: "l_generation l \<le> generation_of s d" using lease_generation_le [OF wf lin(1)] lin(2) by simp
  moreover have "\<not> live_token t (l_fencing_token l)"
  proof
    assume live: "live_token t (l_fencing_token l)"
    have tok: "l_fencing_token l = fencing_token d (l_generation l)"
      using wf lin by (auto simp: lease_wf_def token_ok_def)
    have "fence_step s1 t" using acquire_debt_fence [of s1 d later] acq by simp
    with live le gen1 tok have "live_token s1 (l_fencing_token l)" by (simp add: fence_step_def)
    with dead_after_id_release [OF wf lin(1)] show False unfolding s1(2) by blast
  qed
  moreover have "debts t = debts s1"
  proof -
    have "debts (snd (acquire_debt_lease_sync d later s1)) = debts s1"
      by (simp add: acquire_debt_lease_sync_def Let_def bump_generation_def upd_device_def insert_lease_def
          split: option.splits)
    with acq show ?thesis by simp
  qed
  ultimately show ?thesis using s1(1) free l' d1 by auto
qed

lemma retirement_round_trip_witness:
  "\<exists>s1 l' t. release_debt_lease_for_retirement_sync 5 900 indebted_db = (True, s1)
     \<and> restore_debt_lease_on_unretire_sync 5 950 s1 = (Some l', t) \<and> is_debt_lease_row l'"
proof -
  obtain released s1 where rel: "release_debt_lease_for_retirement_sync 5 900 indebted_db = (released, s1)"
    by (cases "release_debt_lease_for_retirement_sync 5 900 indebted_db")
  obtain restored t where res: "restore_debt_lease_on_unretire_sync 5 950 s1 = (restored, t)"
    by (cases "restore_debt_lease_on_unretire_sync 5 950 s1")
  have "is_debt_lease (get_active_lease indebted_db 5)" by code_simp
  then obtain l where l: "get_active_lease indebted_db 5 = Some l" "is_debt_lease_row l"
    by (auto simp: is_debt_lease_def split: option.splits)
  have "case get_device indebted_db 5 of None \<Rightarrow> False
      | Some v \<Rightarrow> d_retired_at v = None \<and> \<not> no_text (d_host_id v)" by code_simp
  then obtain v where v: "get_device indebted_db 5 = Some v" "d_retired_at v = None" "\<not> no_text (d_host_id v)"
    by (auto split: option.splits)
  have "open_debts_sync indebted_db 5 \<noteq> []" by code_simp
  from retirement_round_trip [OF indebted_db_wf l v this rel res] obtain l' where
    "released" "restored = Some l'" "is_debt_lease_row l'" by blast
  with rel res show ?thesis by (intro exI [of _ s1] exI [of _ l'] exI [of _ t]) simp
qed

subsection \<open>Initialisation\<close>

definition stated :: "jobj \<Rightarrow> string \<Rightarrow> bool" where
  "stated rs f \<longleftrightarrow> (\<exists>entry. jget rs f = JObj entry \<and> jget entry ''state'' \<in> {JStr DEBT, JStr UNVERIFIED})"

lemma stated_update: "stated (AList.update f (JObj entry) rs) g \<longleftrightarrow>
   (if g = f then jget entry ''state'' \<in> {JStr DEBT, JStr UNVERIFIED} else stated rs g)"
  by (simp add: stated_def jget_update)

lemma debt_entry_state: "jget (debt_entry rows now cur f) ''state'' = JStr DEBT"
  by (simp add: debt_entry_def Let_def jget_update)

lemma stated_recompute: "stated rs f \<Longrightarrow> stated (recompute_return_state rs rows now) f"
proof -
  have "stated rs f \<Longrightarrow> stated (fold (\<lambda>g cur. AList.update g (JObj (debt_entry rows now cur g)) cur) fs rs) f" for fs rs
    by (induction fs arbitrary: rs) (simp_all add: stated_update debt_entry_state)
  then show "stated rs f \<Longrightarrow> ?thesis" by (simp add: recompute_return_state_def)
qed

lemma stated_init_entry:
  assumes "jget entry ''state'' \<in> {JStr DEBT, JStr UNVERIFIED}"
  shows "stated (it_current (init_entry f entry False it)) f"
    and "stated (it_current it) g \<Longrightarrow> stated (it_current (init_entry f entry False it)) g"
  using assms by (simp_all add: init_entry_def Let_def stated_update)

lemma init_entry_other:
  "g \<noteq> f \<Longrightarrow> jget (it_current (init_entry f entry dry it)) g = jget (it_current it) g"
  "it_changed (init_entry f entry False it)"
  by (simp_all add: init_entry_def Let_def jget_update)

text \<open>One family of the loop: an object already there is kept, anything else becomes debt or unverified.\<close>

lemma init_family_step:
  assumes "init_family d False now f (it, s) = Some (it', s')"
  shows "(\<forall>g. g \<noteq> f \<longrightarrow> jget (it_current it') g = jget (it_current it) g)
     \<and> (is_obj (jget (it_current it) f) \<longrightarrow> it_current it' = it_current it)
     \<and> (\<not> is_obj (jget (it_current it) f) \<longrightarrow> stated (it_current it') f \<and> it_changed it')
     \<and> (it_changed it \<longrightarrow> it_changed it') \<and> returns_only s s'"
proof (cases "is_obj (jget (it_current it) f)")
  case True
  then obtain entry where "jget (it_current it) f = JObj entry" by (cases "jget (it_current it) f") auto
  with assms show ?thesis by (auto simp: init_family_def)
next
  case False
  have case_no: "(case jget (it_current it) f of JObj entry \<Rightarrow> A entry | _ \<Rightarrow> B) = B" for A B
    using False by (cases "jget (it_current it) f") auto
  obtain entry where e: "jget entry ''state'' \<in> {JStr DEBT, JStr UNVERIFIED}"
    and it': "it' = init_entry f entry False it" and ro: "returns_only s s'"
  proof (cases "family_onboarded f \<and> (\<exists>job result. history_result_for_family_sync s d f = Some (job, Some result))")
    case True
    then obtain job result where h: "family_onboarded f" "history_result_for_family_sync s d f = Some (job, Some result)"
      by blast
    let ?st = "map_disarm_result_to_family_state result True"
    let ?state = "if ?st = RETURNED then UNVERIFIED else ?st"
    let ?entry = "[(''state'', JStr ?state), (''source'', JStr ''stock''),
        (''updated_at'', JTime now), (''history_job_id'', JInt (int (j_id job))), (''disarm_result'', JStr result)]"
    have "?st \<in> {RETURNED, UNVERIFIED, DEBT}" by (simp add: map_disarm_result_to_family_state_def)
    then have "jget ?entry ''state'' \<in> {JStr DEBT, JStr UNVERIFIED}" by (auto simp: jget_Cons)
    moreover have "it' = init_entry f ?entry False it" "returns_only s s'"
      using assms h by (auto simp: init_family_def case_no Let_def split: if_splits dest: returns_only_upsert)
    ultimately show ?thesis by (rule that)
  next
    case False
    then have "it' = init_entry f (stock_entry now) False it" "s' = s"
      using assms by (auto simp: init_family_def case_no split: option.splits if_splits)
    then show ?thesis using that [of "stock_entry now"] by (simp add: stock_entry_def jget_Cons)
  qed
  show ?thesis
    using False stated_init_entry(1) [OF e] ro by (simp add: it' init_entry_other)
qed

lemma init_families_steps:
  assumes "init_families d False now fs (it, s) = Some (it', s')"
  shows "(\<forall>f\<in>set fs. \<not> is_obj (jget (it_current it) f) \<longrightarrow> stated (it_current it') f \<and> it_changed it')
     \<and> (\<forall>f. stated (it_current it) f \<longrightarrow> stated (it_current it') f)
     \<and> (it_changed it \<longrightarrow> it_changed it') \<and> returns_only s s'"
  using assms
proof (induction fs arbitrary: it s)
  case Nil
  then show ?case by simp
next
  case (Cons f fs)
  from Cons.prems obtain it1 s1 where one: "init_family d False now f (it, s) = Some (it1, s1)"
    and rest: "init_families d False now fs (it1, s1) = Some (it', s')"
    by (auto split: option.splits)
  note a = init_family_step [OF one] and b = Cons.IH [OF rest]
  have keep: "stated (it_current it1) g" if "stated (it_current it) g" for g
  proof (cases "g = f")
    case True
    from that have "is_obj (jget (it_current it) g)" by (auto simp: stated_def)
    with a True that show ?thesis by simp
  next
    case False
    with a that show ?thesis by (simp add: stated_def)
  qed
  have "stated (it_current it') g \<and> it_changed it'" if "g \<in> set (f # fs)" "\<not> is_obj (jget (it_current it) g)" for g
  proof (cases "g = f")
    case True
    with a b that show ?thesis by blast
  next
    case False
    with a b that show ?thesis by auto
  qed
  moreover have "returns_only s s'" using a b returns_only_trans by blast
  ultimately show ?case using keep a b by blast
qed

lemma return_state_upd:
  assumes "get_device s d = Some v"
  shows "return_state_of (upd_device d (\<lambda>v. v\<lparr>d_return_state := h v\<rparr>) s) d = h v"
  using assms by (simp add: return_state_of_def get_device_upd_device)

lemma acquire_debt_returns: "return_state_of (snd (acquire_debt_lease_sync d now s)) d = return_state_of s d"
proof (cases "get_device s d")
  case None
  then show ?thesis by (simp add: acquire_debt_lease_sync_def)
next
  case (Some v)
  have "return_state_of (bump_generation d s) d = return_state_of s d"
    by (simp add: return_state_of_def bump_generation_def get_device_upd_device Some)
  moreover have "return_state_of (insert_lease l t) d = return_state_of t d" for l t
    by (simp add: return_state_of_def get_device_def insert_lease_def)
  ultimately show ?thesis by (simp add: acquire_debt_lease_sync_def Some Let_def)
qed

lemma init_settle_returns: "return_state_of (snd (init_settle d dry now fams rows s)) d = return_state_of s d"
proof -
  obtain r s1 where a: "acquire_debt_lease_sync d now s = (r, s1)" by (cases "acquire_debt_lease_sync d now s")
  with acquire_debt_returns [of d now s] have "return_state_of s1 d = return_state_of s d" by simp
  then show ?thesis by (cases r) (auto simp: init_settle_def Let_def a)
qed

lemma recompute_stated:
  assumes "stated (return_state_of s d) f"
  shows "stated (return_state_of (recompute_return_state_from_open_debts d rows now s) d) f"
proof -
  from assms obtain v where v: "get_device s d = Some v"
    by (cases "get_device s d") (auto simp: return_state_of_def stated_def)
  with assms have st: "stated (d_return_state v) f" by (simp add: return_state_of_def)
  have "return_state_of (recompute_return_state_from_open_debts d rows now s) d =
     (if rows = [] \<and> d_return_state v = [] then d_return_state v
      else recompute_return_state (d_return_state v) rows now)"
    by (simp add: recompute_return_state_from_open_debts_def return_state_of_def get_device_upd_device v)
  then show ?thesis by (simp only: stated_recompute [OF st] st split: if_split) simp
qed

text \<open>
  Initialisation never claims a return: every registered family without a recorded entry
  starts as debt or unverified, whatever its history says, and a dry run writes nothing.
\<close>

theorem init_never_returned:
  assumes "init_device_return_sync d dry_run now s = Some (sm, t)"
    and v: "get_device s d = Some v" "d_retired_at v = None"
  shows "if dry_run then t = s
     else \<forall>f. is_family f \<and> \<not> is_obj (jget (d_return_state v) f) \<longrightarrow> stated (return_state_of t d) f"
proof (cases dry_run)
  case True
  have fam: "\<exists>it'. init_family d True now f (it, s) = Some (it', s)" for f it
    by (auto simp: init_family_def Let_def split: json.splits option.splits)
  have fams: "\<exists>it'. init_families d True now fs (it, s) = Some (it', s)" for fs it
  proof (induction fs arbitrary: it)
    case Nil
    then show ?case by simp
  next
    case (Cons f fs)
    from fam obtain it1 where "init_family d True now f (it, s) = Some (it1, s)" by blast
    with Cons.IH show ?case by simp
  qed
  have settle: "snd (init_settle d True now g r s) = s" for g r
    by (simp add: init_settle_def Let_def)
  from fams obtain it' where "init_families d True now (map fst FAMILY_STEPS)
      (\<lparr>it_summary = [], it_current = d_return_state v, it_changed = False\<rparr>, s) = Some (it', s)" by blast
  with assms True have "t = snd (init_settle d True now (it_summary it') (open_debts_sync s d) s)"
    by (simp add: init_device_return_sync_def Let_def)
  with settle True show ?thesis by simp
next
  case False
  let ?it0 = "\<lparr>it_summary = [], it_current = d_return_state v, it_changed = False\<rparr>"
  from assms False obtain it' s1 where fams: "init_families d False now (map fst FAMILY_STEPS) (?it0, s) = Some (it', s1)"
    by (auto simp: init_device_return_sync_def split: option.splits)
  note st = init_families_steps [OF fams]
  let ?s2 = "if it_changed it' then upd_device d (\<lambda>v. v\<lparr>d_return_state := it_current it'\<rparr>) s1 else s1"
  let ?s3 = "recompute_return_state_from_open_debts d (open_debts_sync ?s2 d) now ?s2"
  from assms False fams have t: "\<exists>g r. t = snd (init_settle d False now g r ?s3)"
    by (auto simp: init_device_return_sync_def Let_def split: if_splits) (metis snd_conv)+
  have "stated (return_state_of t d) f" if f: "is_family f" "\<not> is_obj (jget (d_return_state v) f)" for f
  proof -
    from f st have cur: "stated (it_current it') f" "it_changed it'" by (auto simp: is_family_def)
    from st returns_only_device [of s s1 d] v(1) obtain v1 where "get_device s1 d = Some v1" by auto
    with cur have "stated (return_state_of ?s2 d) f" by (simp add: return_state_upd)
    then have "stated (return_state_of ?s3 d) f" by (rule recompute_stated)
    with t init_settle_returns show ?thesis by metis
  qed
  with False show ?thesis by simp
qed

lemma init_never_returned_witness:
  "\<exists>sm t. init_device_return_sync 5 False 900 sample_db = Some (sm, t)
     \<and> stated (return_state_of t 5) ''gpu'' \<and> is_status sm = ''ok''"
proof -
  have "case init_device_return_sync 5 False 900 sample_db of None \<Rightarrow> False | Some (sm, t) \<Rightarrow> is_status sm = ''ok''"
    by code_simp
  then obtain sm t where i: "init_device_return_sync 5 False 900 sample_db = Some (sm, t)" "is_status sm = ''ok''"
    by (auto split: option.splits)
  have v: "get_device sample_db 5 = Some sample_device" "d_retired_at sample_device = None"
    by (simp_all add: get_device_def sample_db_def sample_device_def)
  have "is_family ''gpu''" "\<not> is_obj (jget (d_return_state sample_device) ''gpu'')"
    by (simp_all add: is_family_def FAMILY_STEPS_def sample_device_def)
  with init_never_returned [OF i(1) v] i show ?thesis by auto
qed

end
