(* ===== verification/Guard_Entries.thy ===== *)
theory Guard_Entries
  imports Return_Entries
begin

section \<open>Guard ownership, disarm evidence and the init check\<close>

text \<open>
  The last part of services/device\_return.py: who may drive a job's disarm guard, until when the
  guard protects the job, the receipt of evidence with the freezing of the budgets on first
  contact, and the probe check at a job's start.
\<close>

subsection \<open>Ownership and deadline\<close>

definition lease_host :: "db \<Rightarrow> lease_row \<Rightarrow> host_row option" where
  "lease_host s l = (case l_host_id l of None \<Rightarrow> None | Some h \<Rightarrow> get_host s h)"

definition guard_owner_valid :: "env \<Rightarrow> db \<Rightarrow> job_row \<Rightarrow> time \<Rightarrow> guard \<Rightarrow> bool" where
  "guard_owner_valid e s job now g =
     (case get_active_lease s (j_device_id job) of
        None \<Rightarrow> False
      | Some l \<Rightarrow>
          (case (lease_host s l, get_device s (l_device_id l)) of
             (Some h, Some v) \<Rightarrow>
               h_boot_id h \<noteq> [] \<and> h_last_agent_instance_id h \<noteq> []
               \<and> l_job_id l = Some (j_id job) \<and> l_type l = LT_JOB
               \<and> l_host_id l = j_host_id job \<and> j_host_id job = d_host_id v
               \<and> l_fencing_token l = g_fencing_token g
               \<and> l_agent_instance_id l = g_agent_instance_id g
               \<and> g_agent_instance_id g = h_last_agent_instance_id h
               \<and> Some (h_boot_id h) = g_boot_id g
               \<and> l_expires_at l > now
               \<and> (case h_last_heartbeat h of
                     None \<Rightarrow> False
                   | Some hb \<Rightarrow> 0 \<le> now - hb \<and> now - hb < e_host_heartbeat_timeout e)
           | _ \<Rightarrow> False))"

definition job_guard_deadline :: "env \<Rightarrow> job_row \<Rightarrow> time \<Rightarrow> bool \<Rightarrow> db \<Rightarrow> time option \<times> db" where
  "job_guard_deadline e job now read_only s =
     (if j_status job \<noteq> J_RUNNING then (None, s)
      else (case j_disarm_guard job of
              None \<Rightarrow> (None, s)
            | Some g \<Rightarrow>
                if now < g_last_server_at g
                then (None, if read_only then s
                      else upd_job (j_id job)
                             (\<lambda>j. j\<lparr>j_disarm_guard := Some (g\<lparr>g_reason := Some ''clock_regressed''\<rparr>)\<rparr>) s)
                else (disarm_guard_deadline (Some g) now (guard_owner_valid e s job now g)
                        (j_last_execution_heartbeat_at job)
                        (running_heartbeat_timeout_seconds e job), s)))"

subsection \<open>Receiving evidence\<close>

definition job_lifecycle :: "job_row \<Rightarrow> jobj" where
  "job_lifecycle job =
     obj_or_empty (jor (jget (obj_or_empty (j_pipeline_def job)) ''lifecycle'') (JObj []))"

definition guard_steps_for :: "job_row \<Rightarrow> jobj \<Rightarrow> jobj list" where
  "guard_steps_for job evidence =
     (let steps = job_teardown_steps job in
      if jget evidence ''disarm_only'' = JBool True
      then select_disarm_steps (map JObj steps)
             (List.map_filter (\<lambda>st. family_for_footprint_script (script_name_from_step st))
                (objs_of (list_or_empty (jget (job_lifecycle job) ''init''))))
      else steps)"

definition resolve_step :: "env \<Rightarrow> jobj \<Rightarrow> jobj" where
  "resolve_step e st =
     AList.update ''package_sha256''
       (manifest_package_sha e (script_name_from_step st)
          (py_str (jor (jget st ''version'') (JStr [])))) st"

definition evidence_token :: "jobj \<Rightarrow> string" where
  "evidence_token evidence = py_str (jor (jget evidence ''fencing_token'') (JStr []))"

definition fresh_guard :: "env \<Rightarrow> job_row \<Rightarrow> jobj \<Rightarrow> string \<Rightarrow> string \<Rightarrow> time \<Rightarrow> db \<Rightarrow> guard" where
  \<comment> \<open>the \<open>guard is None\<close> branch: budgets are frozen once, from the job's own pipeline\<close>
  "fresh_guard e job evidence host_id agent now s =
     (let context = (case get_run s (j_plan_run_id job) of None \<Rightarrow> JNull | Some r \<Rightarrow> r_run_context r);
          abort_at = map_option fst (abort_reap_clock context (j_id job) (Some host_id));
          g = freeze_disarm_guard (map (resolve_step e) (guard_steps_for job evidence)) now abort_at
                (evidence_token evidence) agent
      in g\<lparr>g_boot_id := map_option h_boot_id (get_host s host_id)\<rparr>)"

definition evidence_ok :: "job_row \<Rightarrow> jobj \<Rightarrow> string \<Rightarrow> bool" where
  "evidence_ok job evidence host_id \<longleftrightarrow>
     j_status job = J_RUNNING \<and> j_host_id job = Some host_id
     \<and> json_num (jget evidence ''protocol'') = Some 1
     \<and> jget evidence ''phase'' \<in> {JStr ''queue'', JStr ''execute''}
     \<and> (case strict_int (jget evidence ''seq'') of None \<Rightarrow> False | Some n \<Rightarrow> 0 \<le> n)"

definition accept_job_disarm_evidence ::
  "env \<Rightarrow> job_row \<Rightarrow> jobj \<Rightarrow> string \<Rightarrow> string \<Rightarrow> time \<Rightarrow> bool \<Rightarrow> db \<Rightarrow> guard option \<times> db" where
  "accept_job_disarm_evidence e job evidence host_id agent now via s =
     (if \<not> evidence_ok job evidence host_id then (None, s)
      else
        (let g0 = (case j_disarm_guard job of
                     Some g \<Rightarrow> g | None \<Rightarrow> fresh_guard e job evidence host_id agent now s);
             rebound = g0\<lparr>g_fencing_token := evidence_token evidence, g_agent_instance_id := agent\<rparr>
         in if \<not> guard_owner_valid e s job now rebound then (None, s)
            else
              (let g = receive_disarm_evidence rebound evidence now via in
               if g_phase g = None then (None, s)
               else (Some g,
                     upd_job (j_id job)
                       (\<lambda>j. (if g_phase g = Some ''execute'' \<and> g_progress_seen_at g = Some now
                             then j\<lparr>j_disarm_guard := Some g, j_last_execution_heartbeat_at := Some now,
                                    j_last_progress_at := Some now\<rparr>
                             else j\<lparr>j_disarm_guard := Some g\<rparr>)) s))))"

subsection \<open>The init check (I5)\<close>

definition DEBT_CAUSES :: "string list" where
  "DEBT_CAUSES = [FAILED_R, READBACK_FAILED, NOT_EXECUTED, INCOMPLETE]"

record init_check_answer =
  ic_accepted :: "string list"
  ic_rejected :: "entry_decision list"
  ic_open_debt_count :: nat

datatype init_check_result = InitRefused string | InitRaised | InitDone init_check_answer

record init_check_state =
  is_accepted :: "string list"
  is_rejected :: "entry_decision list"
  is_changed :: bool

definition init_replayed :: "nat \<Rightarrow> nat \<Rightarrow> string \<Rightarrow> string \<Rightarrow> string \<Rightarrow> jobj \<Rightarrow> db \<Rightarrow> bool" where
  "init_replayed d job token family result entry s =
     list_ex (\<lambda>b. b_device_id b = d \<and> b_family b = family \<and> b_source_kind b = SOURCE_KIND_JOB
        \<and> b_source_job_id b = Some job \<and> b_source_fencing_token b = Some token
        \<and> b_state b = DEBT_CLOSED \<and> b_cause b = ''init_check:'' @ result
        \<and> b_evidence b = JObj entry) (debts s)"

text \<open>
  One round of the loop.  \<open>None\<close>: the entry has no \<open>result\<close> (KeyError) or the debt insert violates
  the unique index.
\<close>

definition init_check_entry ::
  "env \<Rightarrow> device_row \<Rightarrow> nat \<Rightarrow> string \<Rightarrow> time \<Rightarrow> string \<Rightarrow> jobj \<Rightarrow> init_check_state \<times> db
   \<Rightarrow> (init_check_state \<times> db) option" where
  "init_check_entry e v job token now family entry acc =
     (let (st, s) = acc;
          identity = ''init-job:'' @ dec job @ '':'' @ e_sha256 e token;
          (decision, s1) = check_init_probe_result e v family entry True (Some identity) s
      in if ed_status_code decision = 422
         then Some (st\<lparr>is_rejected := is_rejected st @ [decision]\<rparr>, s1)
         else if map_of entry ''result'' = None then None
         else
           (let result = py_str (jget entry ''result'');
                accepted = st\<lparr>is_accepted := is_accepted st @ [family]\<rparr>
            in if result \<in> set DEBT_CAUSES \<and> init_replayed (d_id v) job token family result entry s1
               then Some (accepted, s1)
               else
                 (let state = map_disarm_result_to_family_state result (family_onboarded family);
                      s2 = set_family_return_state (d_id v) family state ''init_check'' now
                             [(''job_id'', JInt (int job)), (''disarm_result'', JStr result)] s1;
                      done_ok = accepted\<lparr>is_changed := True\<rparr>
                  in if result = CONFIRMED
                     then Some (done_ok, snd (close_family_debts_sync (d_id v) [family] ''discharged'' now s2))
                     else if state = DEBT
                     then map_option (Pair done_ok)
                            (upsert_open_debt_sync (d_id v) family SOURCE_KIND_JOB (Some job) (Some token)
                               (''init_check:'' @ result) entry now s2)
                     else Some (done_ok, s2))))"

fun init_check_loop ::
  "env \<Rightarrow> device_row \<Rightarrow> nat \<Rightarrow> string \<Rightarrow> time \<Rightarrow> (string \<times> jobj) list \<Rightarrow> init_check_state \<times> db
   \<Rightarrow> (init_check_state \<times> db) option" where
  "init_check_loop e v job token now [] acc = Some acc"
| "init_check_loop e v job token now ((f, entry) # rest) acc =
     (case init_check_entry e v job token now f entry acc of
        None \<Rightarrow> None | Some acc1 \<Rightarrow> init_check_loop e v job token now rest acc1)"

definition init_token_ok :: "job_row \<Rightarrow> device_row \<Rightarrow> lease_row \<Rightarrow> string \<Rightarrow> time \<Rightarrow> bool" where
  "init_token_ok job v l token now \<longleftrightarrow>
     l_type l = LT_JOB \<and> l_job_id l = Some (j_id job) \<and> l_fencing_token l = token
     \<and> l_host_id l = j_host_id job \<and> d_host_id v = j_host_id job \<and> now < l_expires_at l
     \<and> d_retired_at v = None"

definition apply_init_check_sync ::
  "env \<Rightarrow> nat \<Rightarrow> string \<Rightarrow> (string \<times> jobj) list \<Rightarrow> time \<Rightarrow> db \<Rightarrow> init_check_result \<times> db" where
  "apply_init_check_sync e job_id token family_results now s =
     (case get_job s job_id of
        None \<Rightarrow> (InitRefused ''JOB_TOKEN_INVALID'', s)
      | Some job \<Rightarrow>
          if j_status job \<noteq> J_RUNNING then (InitRefused ''JOB_TOKEN_INVALID'', s)
          else
            (case (get_device s (j_device_id job), get_active_lease s (j_device_id job)) of
               (Some v, Some l) \<Rightarrow>
                 if \<not> init_token_ok job v l token now then (InitRefused ''JOB_TOKEN_INVALID'', s)
                 else
                   (case init_check_loop e v (j_id job) token now family_results
                           (\<lparr>is_accepted = [], is_rejected = [], is_changed = False\<rparr>, s) of
                      None \<Rightarrow> (InitRaised, s)
                    | Some (st, s1) \<Rightarrow>
                        (let s2 = (if is_changed st
                                   then recompute_return_state_from_open_debts (d_id v)
                                          (open_debts_sync s1 (d_id v)) now s1
                                   else s1)
                         in (InitDone \<lparr>ic_accepted = is_accepted st, ic_rejected = is_rejected st,
                               ic_open_debt_count = length (open_debts_sync s2 (d_id v))\<rparr>, s2)))
             | _ \<Rightarrow> (InitRefused ''JOB_TOKEN_INVALID'', s)))"

subsection \<open>Properties\<close>

lemma receive_frozen:
  "g_job_deadline (receive_disarm_evidence g ev now via) = g_job_deadline g"
  "g_step_budgets (receive_disarm_evidence g ev now via) = g_step_budgets g"
  by (cases rule: receive_cases [of now g ev via]; simp add: accept_frozen)+

lemma receive_step_deadline_kept:
  "map_of (g_step_deadlines g) k = Some dl
   \<Longrightarrow> map_of (g_step_deadlines (receive_disarm_evidence g ev now via)) k = Some dl"
  by (cases rule: receive_cases [of now g ev via]) (simp_all add: accept_step_deadline_kept)

lemma receive_queue_shrinks:
  assumes "guard_ok g"
  shows "g_queue_remaining (receive_disarm_evidence g ev now via) \<le> g_queue_remaining g"
proof (cases rule: receive_cases [of now g ev via])
  case (accepted n ph k st)
  have "guard_ok (g\<lparr>g_last_server_at := now\<rparr>)" using assms by (simp add: guard_ok_touch)
  from queue_left_bounds [OF this, of now] accepted show ?thesis
    by (simp add: accept_queue_remaining)
qed simp_all

lemma guard_ok_rebind: "guard_ok (g\<lparr>g_fencing_token := a, g_agent_instance_id := b\<rparr>) = guard_ok g"
  by (simp add: guard_ok_def)

lemma guard_ok_boot: "guard_ok (g\<lparr>g_boot_id := a\<rparr>) = guard_ok g"
  by (simp add: guard_ok_def)

text \<open>
  C40. No protection can be recreated: evidence that is accepted for a job with a guard, under a
  rotated token or by a restarted agent as well, leaves every frozen quantity where it was.  The
  job ceiling and each step's deadline do not move, the queue budget does not grow, the guard
  invariant holds; and it was accepted from the agent that owns the device's ACTIVE, unexpired JOB
  lease.
\<close>

theorem evidence_keeps_frozen_budgets:
  assumes g: "j_disarm_guard job = Some g" "guard_ok g"
    and acc: "accept_job_disarm_evidence e job ev host agent now via s = (Some g', t)"
  shows "g_job_deadline g' = g_job_deadline g \<and> g_step_budgets g' = g_step_budgets g
     \<and> (\<forall>k dl. map_of (g_step_deadlines g) k = Some dl \<longrightarrow> map_of (g_step_deadlines g') k = Some dl)
     \<and> g_queue_remaining g' \<le> g_queue_remaining g \<and> guard_ok g'
     \<and> (\<exists>l. get_active_lease s (j_device_id job) = Some l \<and> l_job_id l = Some (j_id job)
           \<and> l_fencing_token l = evidence_token ev \<and> l_agent_instance_id l = agent
           \<and> now < l_expires_at l)"
proof -
  let ?r = "g\<lparr>g_fencing_token := evidence_token ev, g_agent_instance_id := agent\<rparr>"
  from acc g(1) have own: "guard_owner_valid e s job now ?r"
    and g': "g' = receive_disarm_evidence ?r ev now via"
    by (auto simp: accept_job_disarm_evidence_def Let_def split: if_splits)
  have ok: "guard_ok ?r" using g(2) by (simp add: guard_ok_rebind)
  from own obtain l where "get_active_lease s (j_device_id job) = Some l" "l_job_id l = Some (j_id job)"
    "l_fencing_token l = evidence_token ev" "l_agent_instance_id l = agent" "now < l_expires_at l"
    by (auto simp: guard_owner_valid_def split: option.splits)
  moreover have "\<forall>k dl. map_of (g_step_deadlines g) k = Some dl \<longrightarrow> map_of (g_step_deadlines g') k = Some dl"
    unfolding g' using receive_step_deadline_kept [of ?r] by simp
  moreover have "g_queue_remaining g' \<le> g_queue_remaining g"
    unfolding g' using receive_queue_shrinks [OF ok] by simp
  moreover have "guard_ok g'" unfolding g' by (rule guard_ok_receive [OF ok])
  ultimately show ?thesis unfolding g' by (simp add: receive_frozen)
qed

lemma accept_fresh_ok:
  assumes "j_disarm_guard job = None"
    and "accept_job_disarm_evidence e job ev host agent now via s = (Some g', t)"
  shows "guard_ok g'"
proof -
  let ?r = "(fresh_guard e job ev host agent now s)\<lparr>g_fencing_token := evidence_token ev, g_agent_instance_id := agent\<rparr>"
  from assms have g': "g' = receive_disarm_evidence ?r ev now via"
    by (auto simp: accept_job_disarm_evidence_def Let_def split: if_splits)
  have "guard_ok ?r" by (simp add: guard_ok_rebind guard_ok_boot fresh_guard_def Let_def guard_ok_freeze)
  then show ?thesis unfolding g' by (rule guard_ok_receive)
qed

definition guards_ok :: "db \<Rightarrow> bool" where
  "guards_ok s \<longleftrightarrow> (\<forall>j\<in>set (jobs s). \<forall>g. j_disarm_guard j = Some g \<longrightarrow> guard_ok g)"

lemma accept_guards_ok:
  assumes ok: "guards_ok s" and j: "get_job s (j_id job) = Some job"
  shows "guards_ok (snd (accept_job_disarm_evidence e job ev host agent now via s))"
proof (cases "accept_job_disarm_evidence e job ev host agent now via s")
  case (Pair r t)
  show ?thesis
  proof (cases r)
    case None
    with Pair have "t = s" by (auto simp: accept_job_disarm_evidence_def Let_def split: if_splits)
    with ok Pair show ?thesis by simp
  next
    case (Some g')
    have g': "guard_ok g'"
    proof (cases "j_disarm_guard job")
      case None
      with accept_fresh_ok Pair Some show ?thesis by blast
    next
      case (Some g)
      from get_job_Some [OF j] ok Some have "guard_ok g" by (auto simp: guards_ok_def)
      let ?r = "g\<lparr>g_fencing_token := evidence_token ev, g_agent_instance_id := agent\<rparr>"
      from Pair Some \<open>r = Some g'\<close> have "g' = receive_disarm_evidence ?r ev now via"
        by (auto simp: accept_job_disarm_evidence_def Let_def split: if_splits)
      with \<open>guard_ok g\<close> show ?thesis by (simp add: guard_ok_receive guard_ok_rebind)
    qed
    from Pair Some obtain f where t: "t = upd_job (j_id job) f s" and f: "\<And>j. j_disarm_guard (f j) = Some g'"
      by (auto simp: accept_job_disarm_evidence_def Let_def split: if_splits)
    have "guards_ok t"
      unfolding guards_ok_def
    proof
      fix x assume "x \<in> set (jobs t)"
      then have "x \<in> set (upd_where (\<lambda>j. j_id j = j_id job) f (jobs s))" by (simp add: t upd_job_def)
      then show "\<forall>g. j_disarm_guard x = Some g \<longrightarrow> guard_ok g"
        using ok g' f by (cases rule: in_upd_whereE) (auto simp: guards_ok_def)
    qed
    with Pair show ?thesis by simp
  qed
qed

text \<open>
  Protection is bounded: where a guard answers a deadline, the job is RUNNING, its owner is
  valid at this instant, the deadline lies ahead but not beyond the frozen job ceiling, and not
  beyond the freshness window of the last coordinator contact; nothing is written.
\<close>

theorem guard_protection_bounded:
  assumes "job_guard_deadline e job now read_only s = (Some dl, t)"
  shows "\<exists>g coord. j_status job = J_RUNNING \<and> j_disarm_guard job = Some g
     \<and> guard_owner_valid e s job now g \<and> t = s \<and> now < dl \<and> dl \<le> g_job_deadline g
     \<and> g_coordinator_seen_at g = Some coord \<and> dl \<le> coord + DISARM_EVIDENCE_FRESH_SECONDS"
proof -
  from assms obtain g where g: "j_status job = J_RUNNING" "j_disarm_guard job = Some g" "t = s"
    and d: "disarm_guard_deadline (Some g) now (guard_owner_valid e s job now g)
              (j_last_execution_heartbeat_at job) (running_heartbeat_timeout_seconds e job) = Some dl"
    by (auto simp: job_guard_deadline_def split: if_splits option.splits)
  have le: "min_opt x y \<le> x" for x y by (cases y) auto
  have le2: "min (min (min_opt (min_opt x y) z) u) w \<le> x" "min (min (min (min_opt x y) z') u) w \<le> x"
    for x y z z' u w
    using le [of x y] le [of "min_opt x y" z] by auto
  from d have "guard_owner_valid e s job now g" "now < dl"
    by (auto simp: disarm_guard_deadline_def Let_def split: if_splits option.splits prod.splits)
  moreover from d obtain coord where "g_coordinator_seen_at g = Some coord"
    "dl \<le> coord + DISARM_EVIDENCE_FRESH_SECONDS"
    by (auto simp: disarm_guard_deadline_def Let_def split: if_splits option.splits prod.splits)
  moreover from d le2 have "dl \<le> g_job_deadline g"
    by (auto simp: disarm_guard_deadline_def Let_def split: if_splits option.splits prod.splits)
  ultimately show ?thesis using g by blast
qed

subsection \<open>The init check closes only what is earned\<close>

lemma last_dec_int: "last (dec_int i) \<noteq> CHR ''d''"
proof -
  have "is_digit (last (dec n))" for n using dec_digits [of n] by (simp add: last_in_set)
  moreover have "\<not> is_digit (CHR ''d'')" by (simp add: is_digit_def)
  ultimately have "last (dec n) \<noteq> CHR ''d''" for n by metis
  then show ?thesis by (simp add: dec_int_def)
qed

lemma py_str_confirmed: "py_str x = CONFIRMED \<Longrightarrow> x = JStr CONFIRMED"
proof -
  assume eq: "py_str x = CONFIRMED"
  then have l: "last (py_str x) = CHR ''d''" by simp
  show ?thesis
  proof (cases x)
    case (JBool b)
    with eq show ?thesis by (cases b) auto
  next
    case (JInt i)
    with l last_dec_int [of i] show ?thesis by simp
  next
    case (JTime t)
    have "last (isoformat t) = CHR ''0''" by (simp add: isoformat_def Let_def split: prod.splits)
    with l JTime show ?thesis by simp
  qed (use l eq in auto)
qed

definition still_there :: "db \<Rightarrow> debt_row \<Rightarrow> bool" where
  "still_there t b \<longleftrightarrow> (\<exists>b'\<in>set (debts t). b_id b' = b_id b \<and> b_state b' = b_state b
      \<and> b_family b' = b_family b)"

lemma close_family_returns: "returns_only s (snd (close_family_debts_sync d fs r now s))"
  by (simp add: close_family_debts_sync_def returns_only_debts)

lemma still_there_close:
  assumes "still_there s b" "b_family b \<notin> set fs"
  shows "still_there (snd (close_family_debts_sync d fs r now s)) b"
proof -
  from assms obtain b' where b': "b' \<in> set (debts s)" "b_id b' = b_id b" "b_state b' = b_state b"
    "b_family b' = b_family b" by (auto simp: still_there_def)
  with assms(2) have "b' \<in> set (debts (snd (close_family_debts_sync d fs r now s)))"
    by (intro close_family_keeps_row) simp_all
  with b' show ?thesis by (auto simp: still_there_def)
qed

lemma still_there_upsert:
  assumes "still_there s b" "upsert_open_debt_sync d f k j tok c ev now s = Some t"
  shows "still_there t b"
proof -
  from assms(1) obtain b' where b': "b' \<in> set (debts s)" "b_id b' = b_id b" "b_state b' = b_state b"
    "b_family b' = b_family b" by (auto simp: still_there_def)
  from assms(2) consider (same) "debts t = debts s" | (grow) x where "debts t = debts s @ [x]"
    | (upd) P ev where "debts t = upd_where P (\<lambda>b. b\<lparr>b_evidence := ev\<rparr>) (debts s)"
    by (auto simp: upsert_open_debt_sync_def insert_debt_def split: option.splits if_splits)
  then show ?thesis
  proof cases
    case same
    with b' show ?thesis by (auto simp: still_there_def)
  next
    case grow
    with b' show ?thesis by (auto simp: still_there_def)
  next
    case upd
    let ?b = "if P b' then b'\<lparr>b_evidence := ev\<rparr> else b'"
    have "?b \<in> set (debts t)" using b'(1) by (simp add: upd upd_where_def)
    moreover have "b_id ?b = b_id b" "b_state ?b = b_state b" "b_family ?b = b_family b" using b' by simp_all
    ultimately show ?thesis unfolding still_there_def by blast
  qed
qed

lemma init_entry_keeps:
  assumes e: "init_check_entry e v job token now f entry (st, s) = Some (st', t)"
  shows "returns_only s t"
    and "still_there s b \<Longrightarrow> still_there t b \<or> (b_family b = f \<and> earned e v f entry None)"
proof -
  obtain dc s1 where c: "check_init_probe_result e v f entry True
      (Some (''init-job:'' @ dec job @ '':'' @ e_sha256 e token)) s = (dc, s1)"
    by (cases "check_init_probe_result e v f entry True
      (Some (''init-job:'' @ dec job @ '':'' @ e_sha256 e token)) s")
  have a: "audits_only s s1"
    using audits_only_init_check [of s e v f entry True] c by (metis snd_conv)
  have r1: "returns_only s s1" by (rule audits_only_returns [OF a])
  have d1: "debts s1 = debts s" using audits_only_fields [OF a] by blast
  let ?res = "py_str (jget entry ''result'')"
  let ?s2 = "set_family_return_state (d_id v) f (map_disarm_result_to_family_state ?res (family_onboarded f))
     ''init_check'' now [(''job_id'', JInt (int job)), (''disarm_result'', JStr ?res)] s1"
  have r2: "returns_only s ?s2" by (rule returns_only_trans [OF r1 returns_only_set_family])
  have d2: "debts ?s2 = debts s" by (simp add: d1)
  from e c consider (audit) "t = s1"
    | (closed) "ed_status_code dc \<noteq> 422" "?res = CONFIRMED"
        "t = snd (close_family_debts_sync (d_id v) [f] ''discharged'' now ?s2)"
    | (owed) "upsert_open_debt_sync (d_id v) f SOURCE_KIND_JOB (Some job) (Some token)
                (''init_check:'' @ ?res) entry now ?s2 = Some t"
    | (set) "t = ?s2"
    by (auto simp: init_check_entry_def Let_def split: if_splits)
  note cases = this
  from cases show "returns_only s t"
    using r1 r2 returns_only_trans [OF r2 close_family_returns] returns_only_upsert returns_only_trans
    by cases blast+
  assume b: "still_there s b"
  then have b2: "still_there ?s2 b" using d2 by (simp add: still_there_def)
  from cases show "still_there t b \<or> (b_family b = f \<and> earned e v f entry None)"
  proof cases
    case audit
    with b d1 show ?thesis by (simp add: still_there_def)
  next
    case closed
    from py_str_confirmed [OF closed(2)] have res: "jget entry ''result'' = JStr CONFIRMED" .
    from c have "dc = probe_entry_response f entry (evaluate_probe_entry e v f entry True None) ''init_check''"
      by (simp add: check_init_probe_result_def Let_def)
    with response_200_privileged [of f entry _ "''init_check''"] closed(1) res
    have "earned e v f entry None" by (auto simp: earned_def Let_def)
    with still_there_close [OF b2, of "[f]"] closed(3) show ?thesis by auto
  next
    case owed
    with still_there_upsert [OF b2] show ?thesis by blast
  next
    case set
    with b2 show ?thesis by simp
  qed
qed

lemma init_loop_keeps:
  assumes "init_check_loop e v job token now frs (st, s) = Some (st', t)"
  shows "returns_only s t"
    and "still_there s b \<Longrightarrow> still_there t b \<or> (\<exists>en. (b_family b, en) \<in> set frs \<and> earned e v (b_family b) en None)"
  using assms
proof (induction frs arbitrary: st s)
  case Nil
  { case 1 then show ?case by simp }
  { case 2 then show ?case by simp }
next
  case (Cons fe frs)
  obtain f en where fe: "fe = (f, en)" by (cases fe)
  {
    case 1
    then obtain st1 s1 where one: "init_check_entry e v job token now f en (st, s) = Some (st1, s1)"
      "init_check_loop e v job token now frs (st1, s1) = Some (st', t)"
      by (auto simp: fe split: option.splits)
    with init_entry_keeps(1) [OF one(1)] Cons.IH(1) [OF one(2)] show ?case by (blast intro: returns_only_trans)
  next
    case 2
    then obtain st1 s1 where one: "init_check_entry e v job token now f en (st, s) = Some (st1, s1)"
      "init_check_loop e v job token now frs (st1, s1) = Some (st', t)"
      by (auto simp: fe split: option.splits)
    from init_entry_keeps(2) [OF one(1) 2(1)] Cons.IH(2) [OF _ one(2)] fe show ?case by auto
  }
qed

text \<open>
  The init check holds no lease and earns its closures: whatever it answers, no lease and no
  generation changes, a debt it closes belongs to a family whose report is trusted as \<open>confirmed\<close>,
  and a refused token changes nothing at all.
\<close>

theorem init_check_closes_only_earned:
  assumes r: "apply_init_check_sync e job_id token frs now s = (r, t)"
  shows "same_leases s t
    \<and> (\<forall>b\<in>set (debts s). still_there t b \<or> (\<exists>v en. (b_family b, en) \<in> set frs \<and> earned e v (b_family b) en None))
    \<and> (\<forall>code. r = InitRefused code \<longrightarrow> t = s)"
proof -
  have self: "still_there s b" if "b \<in> set (debts s)" for b using that by (auto simp: still_there_def)
  have "t = s \<or> (\<exists>jid v st s1 a. r = InitDone a
      \<and> init_check_loop e v jid token now frs
           (\<lparr>is_accepted = [], is_rejected = [], is_changed = False\<rparr>, s) = Some (st, s1)
      \<and> (t = s1 \<or> t = recompute_return_state_from_open_debts (d_id v) (open_debts_sync s1 (d_id v)) now s1))"
  proof (cases "t = s")
    case True
    then show ?thesis by blast
  next
    case False
    with r obtain job where job: "get_job s job_id = Some job" "j_status job = J_RUNNING"
      by (auto simp: apply_init_check_sync_def split: option.splits if_splits)
    with r False obtain v l where vl: "get_device s (j_device_id job) = Some v"
      "get_active_lease s (j_device_id job) = Some l" "init_token_ok job v l token now"
      by (auto simp: apply_init_check_sync_def split: option.splits if_splits)
    let ?loop = "init_check_loop e v (j_id job) token now frs
        (\<lparr>is_accepted = [], is_rejected = [], is_changed = False\<rparr>, s)"
    from r False job vl obtain st s1 where loop: "?loop = Some (st, s1)"
      by (cases ?loop) (auto simp: apply_init_check_sync_def)
    with r job vl have "\<exists>a. r = InitDone a" "t = s1 \<or> t = recompute_return_state_from_open_debts
        (d_id v) (open_debts_sync s1 (d_id v)) now s1"
      by (simp_all add: apply_init_check_sync_def Let_def split: if_splits)
        (auto split: if_splits)
    with loop show ?thesis by blast
  qed
  then consider (same) "t = s"
    | (done_ok) jid v st s1 a where "r = InitDone a"
        "init_check_loop e v jid token now frs
           (\<lparr>is_accepted = [], is_rejected = [], is_changed = False\<rparr>, s) = Some (st, s1)"
        "t = s1 \<or> t = recompute_return_state_from_open_debts (d_id v) (open_debts_sync s1 (d_id v)) now s1"
    by blast
  then show ?thesis
  proof cases
    case same
    with self show ?thesis by simp
  next
    case done_ok
    from done_ok(3) have "returns_only s1 t" by auto
    with init_loop_keeps(1) [OF done_ok(2)] have "same_leases s t"
      by (intro returns_only_same) (rule returns_only_trans)
    moreover have "debts t = debts s1" using done_ok(3) by auto
    then have "still_there t = still_there s1" by (simp add: still_there_def fun_eq_iff)
    ultimately show ?thesis using init_loop_keeps(2) [OF done_ok(2) self] done_ok(1) by auto
  qed
qed

subsection \<open>Witnesses\<close>

definition owner_db :: db where
  \<comment> \<open>host h1 with a live agent; job 7 RUNNING on device 5 under the token 5:1\<close>
  "owner_db = leased_db\<lparr>hosts := [sample_host\<lparr>h_last_heartbeat := Some 195\<rparr>], jobs := [gpu_job]\<rparr>"

definition gpu_obligation :: jobj where
  "gpu_obligation = [(''protocol'', JInt 1), (''phase'', JStr ''execute''), (''seq'', JInt 0),
     (''step_id'', JStr ''t1''), (''script_name'', JStr ''gpu_disarm''),
     (''script_version'', JStr ''1.0.0''), (''package_sha256'',
       JStr ''c464779d695402473bf5afb173bc743d68eac307a680c46bfec2ebbf4299ead7''),
     (''progress_seq'', JInt 1), (''fencing_token'', JStr ''5:1'')]"

definition first_guard :: guard where
  "first_guard = the (fst (accept_job_disarm_evidence manifest_env gpu_job gpu_obligation ''h1'' ''a1'' 200 True owner_db))"

lemma first_guard_accepted:
  "accept_job_disarm_evidence manifest_env gpu_job gpu_obligation ''h1'' ''a1'' 200 True owner_db
     = (Some first_guard, snd (accept_job_disarm_evidence manifest_env gpu_job gpu_obligation ''h1'' ''a1'' 200 True owner_db))"
proof -
  have "fst (accept_job_disarm_evidence manifest_env gpu_job gpu_obligation ''h1'' ''a1'' 200 True owner_db) \<noteq> None"
    by code_simp
  then show ?thesis by (simp add: first_guard_def prod_eq_iff)
qed

lemma first_guard_ok: "guard_ok first_guard"
  by (rule accept_fresh_ok [OF _ first_guard_accepted]) (simp add: gpu_job_def sample_job_def)

definition guarded_job :: job_row where
  "guarded_job = gpu_job\<lparr>j_disarm_guard := Some first_guard, j_last_execution_heartbeat_at := Some 200\<rparr>"

lemma evidence_keeps_frozen_budgets_witness:
  "\<exists>g' t. accept_job_disarm_evidence manifest_env guarded_job (AList.update ''seq'' (JInt 1) gpu_obligation)
       ''h1'' ''a1'' 210 True owner_db = (Some g', t)
     \<and> g_job_deadline g' = g_job_deadline first_guard"
proof -
  let ?a = "accept_job_disarm_evidence manifest_env guarded_job (AList.update ''seq'' (JInt 1) gpu_obligation)
       ''h1'' ''a1'' 210 True owner_db"
  have "fst ?a \<noteq> None" by code_simp
  then obtain g' t where a: "?a = (Some g', t)" by (cases ?a) auto
  have "j_disarm_guard guarded_job = Some first_guard" by (simp add: guarded_job_def)
  from evidence_keeps_frozen_budgets [OF this first_guard_ok a] a show ?thesis by blast
qed

lemma guard_protection_bounded_witness:
  "\<exists>dl t. job_guard_deadline manifest_env guarded_job 205 True owner_db = (Some dl, t)
     \<and> 205 < dl \<and> dl \<le> g_job_deadline first_guard"
proof -
  let ?d = "job_guard_deadline manifest_env guarded_job 205 True owner_db"
  have "fst ?d \<noteq> None" by code_simp
  then obtain dl t where d: "?d = (Some dl, t)" by (cases ?d) auto
  from guard_protection_bounded [OF d] obtain g where "j_disarm_guard guarded_job = Some g" "205 < dl"
    "dl \<le> g_job_deadline g" by blast
  with d show ?thesis by (simp add: guarded_job_def)
qed

lemma init_check_closes_only_earned_witness:
  "\<exists>r t. apply_init_check_sync manifest_env 7 ''5:1'' gpu_report 210 owner_db = (r, t)
     \<and> same_leases owner_db t \<and> (\<exists>a. r = InitDone a \<and> ic_accepted a = [''gpu''])"
proof -
  let ?c = "apply_init_check_sync manifest_env 7 ''5:1'' gpu_report 210 owner_db"
  obtain r t where c: "?c = (r, t)" by (cases ?c)
  have "case fst ?c of InitDone a \<Rightarrow> ic_accepted a = [''gpu''] | _ \<Rightarrow> False" by code_simp
  with c have "\<exists>a. r = InitDone a \<and> ic_accepted a = [''gpu'']" by (cases r) auto
  with init_check_closes_only_earned [OF c] c show ?thesis by blast
qed

end
