(* ===== verification/Agent_Claim.thy ===== *)
theory Agent_Claim
  imports Guard_Entries
begin

section \<open>Claiming jobs (services/agent\_claim.py, host\_maintenance.py)\<close>

text \<open>
  An agent asks for work: under the host row lock the oldest PENDING job of each free, healthy
  device is moved to RUNNING and leased, each in its own savepoint, up to the capacity the agent
  reports.  The maintenance window of a host and the agent version gate stand before it.
\<close>

subsection \<open>Maintenance windows\<close>

definition MAINTENANCE_DEFAULT_TTL_SECONDS :: int where "MAINTENANCE_DEFAULT_TTL_SECONDS = 900"
definition MAINTENANCE_MAX_TTL_SECONDS :: int where "MAINTENANCE_MAX_TTL_SECONDS = 3600"

definition maintenance_ttl :: "string \<Rightarrow> int" where
  \<comment> \<open>\<open>_ttl()\<close> on the value of STP\_HOST\_MAINTENANCE\_TTL\_SECONDS\<close>
  "maintenance_ttl raw =
     (let value = (if raw = [] then MAINTENANCE_DEFAULT_TTL_SECONDS
                   else case int_of_string raw of Some n \<Rightarrow> n | None \<Rightarrow> MAINTENANCE_DEFAULT_TTL_SECONDS)
      in max 1 (min value MAINTENANCE_MAX_TTL_SECONDS))"

definition in_maintenance_window :: "time option \<Rightarrow> time \<Rightarrow> bool" where
  "in_maintenance_window until now = (case until of None \<Rightarrow> False | Some u \<Rightarrow> u > now)"

definition acquire_maintenance_window ::
  "string \<Rightarrow> string \<Rightarrow> string \<Rightarrow> int option \<Rightarrow> time \<Rightarrow> db \<Rightarrow> bool \<times> db" where
  "acquire_maintenance_window raw_ttl host_id holder ttl now s =
     (case get_host s host_id of
        None \<Rightarrow> (False, s)
      | Some h \<Rightarrow>
          if in_maintenance_window (h_maintenance_until h) now then (False, s)
          else
            (let secs = (case ttl of Some n \<Rightarrow> if n \<noteq> 0 then n else maintenance_ttl raw_ttl
                         | None \<Rightarrow> maintenance_ttl raw_ttl)
             in (True, upd_host host_id
                   (\<lambda>h. h\<lparr>h_maintenance_until := Some (now + secs), h_maintenance_holder := holder\<rparr>) s)))"

definition release_maintenance_window :: "string \<Rightarrow> string \<Rightarrow> db \<Rightarrow> db" where
  "release_maintenance_window host_id holder s =
     (case get_host s host_id of
        None \<Rightarrow> s
      | Some h \<Rightarrow>
          if h_maintenance_holder h \<noteq> holder then s
          else upd_host host_id (\<lambda>h. h\<lparr>h_maintenance_until := None, h_maintenance_holder := []\<rparr>) s)"

subsection \<open>The version gate (agent\_version\_gate.py)\<close>

fun digit_runs :: "string \<Rightarrow> string \<Rightarrow> string list" where
  \<comment> \<open>\<open>re.findall(r"\d+", s)\<close>, the current run reversed in the accumulator\<close>
  "digit_runs acc [] = (if acc = [] then [] else [rev acc])"
| "digit_runs acc (c # cs) =
     (if is_digit c then digit_runs (c # acc) cs
      else if acc = [] then digit_runs [] cs else rev acc # digit_runs [] cs)"

definition version_tuple :: "string \<Rightarrow> nat list" where
  "version_tuple v = (let parts = digit_runs [] v in if parts = [] then [0] else map undec parts)"

definition agent_version_is_supported :: "string \<Rightarrow> string \<Rightarrow> bool" where
  "agent_version_is_supported agent_version minimum =
     (if minimum = [] then True
      else
        (let a = version_tuple agent_version; m = version_tuple minimum;
             n = max (length a) (length m)
         in pad_to n m \<le> pad_to n a))"

subsection \<open>Claiming\<close>

definition HOST_ONLINE :: string where "HOST_ONLINE = ''ONLINE''"

definition claimable_device :: "string \<Rightarrow> device_row \<Rightarrow> bool" where
  "claimable_device host_id v \<longleftrightarrow>
     d_host_id v = Some host_id \<and> d_retired_at v = None
     \<and> (case d_adb_connected v of None \<Rightarrow> True | Some c \<Rightarrow> c)
     \<and> (case d_adb_state v of None \<Rightarrow> ''device'' | Some st \<Rightarrow> st) \<notin> {''offline'', ''unknown''}
     \<and> d_status v \<noteq> ''OFFLINE''"

definition free_device_ids :: "db \<Rightarrow> string \<Rightarrow> nat list" where
  "free_device_ids s host_id =
     (let all_ids = map d_id (filter (claimable_device host_id) (devices s));
          busy = map l_device_id (filter active_lease (leases s))
      in filter (\<lambda>d. d \<notin> set busy) all_ids)"

definition run_is_running :: "db \<Rightarrow> nat \<Rightarrow> bool" where
  "run_is_running s run_id = (case get_run s run_id of None \<Rightarrow> False | Some r \<Rightarrow> r_status r = R_RUNNING)"

definition claim_candidates :: "db \<Rightarrow> nat list \<Rightarrow> job_row list" where
  "claim_candidates s free =
     filter (\<lambda>j. j_device_id j \<in> set free \<and> j_status j = J_PENDING \<and> run_is_running s (j_plan_run_id j))
       (jobs s)"

definition earliest_of_device :: "job_row list \<Rightarrow> job_row \<Rightarrow> bool" where
  \<comment> \<open>\<open>row_number() over (partition by device order by created_at, id) = 1\<close>\<close>
  "earliest_of_device cands j =
     list_all (\<lambda>k. j_device_id k = j_device_id j \<longrightarrow> (j_created_at j, j_id j) \<le> (j_created_at k, j_id k)) cands"

definition pending_jobs_for_claim :: "db \<Rightarrow> nat list \<Rightarrow> nat \<Rightarrow> nat list \<Rightarrow> job_row list" where
  \<comment> \<open>\<open>FOR UPDATE SKIP LOCKED\<close>: rows locked by other transactions do not count towards the limit\<close>
  "pending_jobs_for_claim s free cap locked =
     (let cands = claim_candidates s free in
      take cap (filter (\<lambda>j. j_id j \<notin> set locked)
        (sort_key j_created_at (filter (earliest_of_device cands) cands))))"

record claim_state =
  cl_claimed :: "(job_row \<times> string) list"
  cl_devices :: "nat list"

definition claim_one ::
  "string \<Rightarrow> string \<Rightarrow> time \<Rightarrow> job_row \<Rightarrow> claim_state \<times> db \<Rightarrow> claim_state \<times> db" where
  "claim_one host_id agent now job acc =
     (let (cs, s) = acc in
      if j_device_id job \<in> set (cl_devices cs) then acc
      else
        (case job_transition job J_RUNNING ''claimed_by_agent'' now of
           Inl e \<Rightarrow> acc
         | Inr j1 \<Rightarrow>
             (let j2 = j1\<lparr>j_host_id := Some host_id, j_started_at := Some now\<rparr>;
                  s1 = upd_job (j_id job) (\<lambda>j. j2) s
              in case acquire_lease s1 (j_device_id job) host_id LT_JOB agent (Some (j_id job)) None None
                        DEFAULT_LEASE_SECONDS now of
                   Inr (Some l, s2) \<Rightarrow>
                     (cs\<lparr>cl_claimed := cl_claimed cs @ [(j2, l_fencing_token l)],
                         cl_devices := j_device_id job # cl_devices cs\<rparr>, s2)
                 | _ \<Rightarrow> acc)))"

definition host_claimable :: "db \<Rightarrow> string \<Rightarrow> time \<Rightarrow> bool" where
  "host_claimable s host_id now =
     (case get_host s host_id of
        None \<Rightarrow> False
      | Some h \<Rightarrow> h_status h = HOST_ONLINE \<and> h_retired_at h = None
                  \<and> \<not> in_maintenance_window (h_maintenance_until h) now)"

definition claim_jobs_for_host ::
  "string \<Rightarrow> int \<Rightarrow> string \<Rightarrow> nat list \<Rightarrow> time \<Rightarrow> db \<Rightarrow> (job_row \<times> string) list \<times> db" where
  "claim_jobs_for_host host_id capacity agent locked now s =
     (if \<not> host_claimable s host_id now then ([], s)
      else
        (let free = free_device_ids s host_id;
             cap = min capacity (int (length free));
             pending = (if cap > 0 \<and> free \<noteq> [] then pending_jobs_for_claim s free (nat cap) locked else []);
             (cs, s1) = fold (claim_one host_id agent now) pending (\<lparr>cl_claimed = [], cl_devices = []\<rparr>, s)
         in if cl_claimed cs \<noteq> [] then (cl_claimed cs, s1) else ([], s)))"

subsection \<open>The reply\<close>

definition extract_dispatch_host_watcher_admin_states :: "json \<Rightarrow> (string \<times> bool) list" where
  "extract_dispatch_host_watcher_admin_states run_context =
     (case jget (obj_or_empty run_context) ''dispatch_host_watcher_admin_states'' of
        JObj snapshot \<Rightarrow> map (\<lambda>(h, a). (h, if a = JNull then True else truthy a)) snapshot
      | _ \<Rightarrow> [])"

definition apply_dispatch_host_watcher_admin_state_to_policy ::
  "json \<Rightarrow> string option \<Rightarrow> (string \<times> bool) list \<Rightarrow> json" where
  "apply_dispatch_host_watcher_admin_state_to_policy policy host_id states =
     (case host_id of
        None \<Rightarrow> policy
      | Some h \<Rightarrow>
          if h = [] \<or> states = [] then policy
          else if (case map_of states h of None \<Rightarrow> True | Some a \<Rightarrow> a) then policy
          else JObj (AList.update ''enabled'' (JBool False) (obj_or_empty policy)))"

definition snapshot_watcher_policy :: "json \<Rightarrow> json" where
  "snapshot_watcher_policy plan_snapshot =
     (case plan_snapshot of
        JObj sn \<Rightarrow> jget (obj_or_empty (jget sn ''plan'')) ''watcher_policy''
      | _ \<Rightarrow> JNull)"

definition job_watcher_policy :: "db \<Rightarrow> job_row \<Rightarrow> json" where
  "job_watcher_policy s job =
     (case get_run s (j_plan_run_id job) of
        None \<Rightarrow> apply_dispatch_host_watcher_admin_state_to_policy JNull (j_host_id job) []
      | Some r \<Rightarrow>
          apply_dispatch_host_watcher_admin_state_to_policy (snapshot_watcher_policy (r_plan_snapshot r))
            (j_host_id job) (extract_dispatch_host_watcher_admin_states (r_run_context r)))"

definition enrich_job_metadata :: "db \<Rightarrow> job_row list \<Rightarrow> (nat \<times> string) list \<times> (nat \<times> json) list" where
  "enrich_job_metadata s js =
     (if js = [] then ([], [])
      else (map (\<lambda>v. (d_id v, d_serial v)) (filter (\<lambda>v. d_id v \<in> set (map j_device_id js)) (devices s)),
            map (\<lambda>j. (j_id j, job_watcher_policy s j)) js))"

record job_out =
  jo_id :: nat
  jo_plan_run_id :: nat
  jo_plan_id :: nat
  jo_device_id :: nat
  jo_device_serial :: "string option"
  jo_host_id :: "string option"
  jo_status :: job_status
  jo_pipeline_def :: json
  jo_watcher_policy :: json
  jo_fencing_token :: string
  jo_plan_run_host_id :: "nat option"
  jo_plan_run_host_total :: "int option"
  jo_started_at :: "time option"

definition prh_of :: "db \<Rightarrow> nat \<Rightarrow> string \<Rightarrow> prh_row option" where
  "prh_of s run_id host_id =
     first_row (filter (\<lambda>p. p_plan_run_id p = run_id \<and> p_host_id p = host_id) (prhs s))"

definition prh_total :: "prh_row \<Rightarrow> int" where
  \<comment> \<open>\<open>int(total_job_count or device_count or 0)\<close>\<close>
  "prh_total p = (if p_total p \<noteq> 0 then p_total p else p_device_count p)"

definition job_out_of :: "db \<Rightarrow> string \<Rightarrow> (nat \<times> string) list \<times> (nat \<times> json) list \<Rightarrow> job_row \<times> string \<Rightarrow> job_out" where
  "job_out_of s host_id meta jt =
     (let (j, token) = jt; (serials, policies) = meta;
          prh = (if j_host_id j = Some host_id then prh_of s (j_plan_run_id j) host_id else None)
      in \<lparr>jo_id = j_id j, jo_plan_run_id = j_plan_run_id j, jo_plan_id = j_plan_id j,
          jo_device_id = j_device_id j, jo_device_serial = map_of serials (j_device_id j),
          jo_host_id = j_host_id j, jo_status = j_status j, jo_pipeline_def = j_pipeline_def j,
          jo_watcher_policy = (case map_of policies (j_id j) of None \<Rightarrow> JNull | Some p \<Rightarrow> p),
          jo_fencing_token = token,
          jo_plan_run_host_id = map_option p_id prh,
          jo_plan_run_host_total = map_option prh_total prh,
          jo_started_at = j_started_at j\<rparr>)"

datatype claim_error = UpgradeRequired

definition claim_agent_jobs ::
  "string \<Rightarrow> string \<Rightarrow> int \<Rightarrow> string \<Rightarrow> string \<Rightarrow> nat list \<Rightarrow> time \<Rightarrow> db
   \<Rightarrow> (claim_error + job_out list) \<times> db" where
  \<comment> \<open>the first argument is the value of STP\_AGENT\_MIN\_VERSION\<close>
  "claim_agent_jobs min_version host_id capacity agent agent_version locked now s =
     (let minimum = strip min_version in
      if minimum \<noteq> [] \<and> \<not> agent_version_is_supported agent_version minimum
      then (Inl UpgradeRequired, s)
      else
        (let (claimed, s1) = claim_jobs_for_host host_id capacity agent locked now s in
         if claimed = [] then (Inr [], s1)
         else (Inr (map (job_out_of s1 host_id (enrich_job_metadata s1 (map fst claimed))) claimed), s1)))"

subsection \<open>The invariant of the claim loop\<close>

definition holds_claim :: "db \<Rightarrow> string \<Rightarrow> string \<Rightarrow> job_row \<times> string \<Rightarrow> bool" where
  \<comment> \<open>the claimed job is RUNNING on the host and its token is that of the device's ACTIVE lease\<close>
  "holds_claim s host_id agent jt \<longleftrightarrow>
     j_status (fst jt) = J_RUNNING \<and> j_host_id (fst jt) = Some host_id
     \<and> (\<exists>l. get_active_lease s (j_device_id (fst jt)) = Some l \<and> l_type l = LT_JOB
           \<and> l_job_id l = Some (j_id (fst jt)) \<and> l_fencing_token l = snd jt
           \<and> l_agent_instance_id l = agent)"

lemma job_transition_fields:
  "job_transition job new r now = Inr j \<Longrightarrow>
     j_status j = new \<and> j_id j = j_id job \<and> j_device_id j = j_device_id job
     \<and> j_plan_run_id j = j_plan_run_id job \<and> valid_transition (j_status job) new"
  by (auto simp: job_transition_def Let_def split: if_splits)

lemma acquire_other_device:
  assumes "acquire_lease s d h LT_JOB a (Some j) None None secs now = Inr (Some l, t)" "d' \<noteq> d"
  shows "get_active_lease t d' = get_active_lease s d'"
proof -
  from assms(1) have "leases t = leases s @ [l]" "l_device_id l = d"
    by (auto simp: acquire_lease_def Let_def flush_lease_def new_lease_def insert_lease_def
        split: option.splits if_splits)
  with assms(2) show ?thesis by (simp add: get_active_lease_def active_on_def)
qed

lemma acquire_job_lease:
  assumes "acquire_lease s d h LT_JOB a (Some j) None None secs now = Inr (Some l, t)"
  shows "get_active_lease t d = Some l" "l_type l = LT_JOB" "l_job_id l = Some j"
    "l_agent_instance_id l = a" "get_active_lease s d = None"
proof -
  from assms have lt: "leases t = leases s @ [l]" and l: "l_device_id l = d" "l_status l = LS_ACTIVE"
    "l_type l = LT_JOB" "l_job_id l = Some j" "l_agent_instance_id l = a" and none: "get_active_lease s d = None"
    by (auto simp: acquire_lease_def Let_def flush_lease_def new_lease_def insert_lease_def
        split: option.splits if_splits)
  then show "l_type l = LT_JOB" "l_job_id l = Some j" "l_agent_instance_id l = a" "get_active_lease s d = None"
    by blast+
  from none have "filter (active_on d) (leases s) = []" by (simp add: get_active_lease_def)
  with lt l show "get_active_lease t d = Some l" by (simp add: get_active_lease_def active_on_def)
qed

definition claim_inv :: "string \<Rightarrow> string \<Rightarrow> claim_state \<times> db \<Rightarrow> bool" where
  "claim_inv host_id agent acc \<longleftrightarrow>
     lease_wf (snd acc)
     \<and> distinct (map (j_device_id \<circ> fst) (cl_claimed (fst acc)))
     \<and> set (map (j_device_id \<circ> fst) (cl_claimed (fst acc))) = set (cl_devices (fst acc))
     \<and> (\<forall>jt\<in>set (cl_claimed (fst acc)). holds_claim (snd acc) host_id agent jt)"

lemma claim_one_cases:
  obtains (skipped) "claim_one host_id agent now job (cs, s) = (cs, s)"
  | (claimed) j2 l s2 where "j_device_id job \<notin> set (cl_devices cs)" "j_status job \<in> {J_PENDING, J_UNKNOWN}"
      "j_status j2 = J_RUNNING" "j_id j2 = j_id job" "j_device_id j2 = j_device_id job"
      "j_host_id j2 = Some host_id" "j_plan_run_id j2 = j_plan_run_id job"
      "acquire_lease (upd_job (j_id job) (\<lambda>j. j2) s) (j_device_id job) host_id LT_JOB agent
         (Some (j_id job)) None None DEFAULT_LEASE_SECONDS now = Inr (Some l, s2)"
      "claim_one host_id agent now job (cs, s) =
         (cs\<lparr>cl_claimed := cl_claimed cs @ [(j2, l_fencing_token l)],
             cl_devices := j_device_id job # cl_devices cs\<rparr>, s2)"
proof (cases "claim_one host_id agent now job (cs, s) = (cs, s)")
  case True
  then show ?thesis by (rule skipped)
next
  case False
  then obtain j1 where new: "j_device_id job \<notin> set (cl_devices cs)"
    and j1: "job_transition job J_RUNNING ''claimed_by_agent'' now = Inr j1"
    by (auto simp: claim_one_def split: if_splits sum.splits)
  let ?j2 = "j1\<lparr>j_host_id := Some host_id, j_started_at := Some now\<rparr>"
  from False new j1 obtain l s2 where acq:
    "acquire_lease (upd_job (j_id job) (\<lambda>j. ?j2) s) (j_device_id job) host_id LT_JOB agent
       (Some (j_id job)) None None DEFAULT_LEASE_SECONDS now = Inr (Some l, s2)"
    by (auto simp: claim_one_def Let_def split: sum.splits prod.splits option.splits)
  from job_transition_fields [OF j1] have f: "j_status ?j2 = J_RUNNING" "j_id ?j2 = j_id job"
    "j_device_id ?j2 = j_device_id job" "j_plan_run_id ?j2 = j_plan_run_id job"
    "valid_transition (j_status job) J_RUNNING" by simp_all
  then have "j_status job \<in> {J_PENDING, J_UNKNOWN}"
    by (cases "j_status job") (simp_all add: valid_transition_def VALID_TRANSITIONS_def)
  with f acq new j1 show ?thesis by (intro claimed [of ?j2 l s2]) (simp_all add: claim_one_def)
qed

lemma claim_one_inv:
  assumes "claim_inv host_id agent acc"
  shows "claim_inv host_id agent (claim_one host_id agent now job acc)
     \<and> fence_step (snd acc) (snd (claim_one host_id agent now job acc))"
proof -
  obtain cs s where acc: "acc = (cs, s)" by (cases acc)
  show ?thesis
    using claim_one_cases [of host_id agent now job cs s]
  proof cases
    case skipped
    with assms show ?thesis by (simp add: acc)
  next
    case (claimed j2 l s2)
    let ?s1 = "upd_job (j_id job) (\<lambda>j. j2) s"
    have sl: "same_leases s ?s1" by simp
    have wf1: "lease_wf ?s1" using assms same_leases_wf [OF sl] by (simp add: acc claim_inv_def)
    have wf2: "lease_wf s2" by (rule acquire_lease_wf [OF wf1 claimed(8)])
    have fs: "fence_step s s2"
      by (rule fence_trans [OF same_leases_fence [OF sl] acquire_lease_fence [OF claimed(8)]])
    have new: "holds_claim s2 host_id agent (j2, l_fencing_token l)"
      using claimed(3-6) acquire_job_lease [OF claimed(8)] by (simp add: holds_claim_def)
    have old: "holds_claim s2 host_id agent jt" if jt: "jt \<in> set (cl_claimed cs)" for jt
    proof -
      from assms jt have h: "holds_claim s host_id agent jt" by (simp add: acc claim_inv_def)
      have "j_device_id (fst jt) \<in> set (cl_devices cs)" using assms jt by (auto simp: acc claim_inv_def)
      with claimed(1) have "j_device_id (fst jt) \<noteq> j_device_id job" by auto
      from acquire_other_device [OF claimed(8) this] same_leases_active [OF sl]
      have "get_active_lease s2 (j_device_id (fst jt)) = get_active_lease s (j_device_id (fst jt))" by simp
      with h show ?thesis by (simp add: holds_claim_def)
    qed
    have "claim_inv host_id agent (cs\<lparr>cl_claimed := cl_claimed cs @ [(j2, l_fencing_token l)],
        cl_devices := j_device_id job # cl_devices cs\<rparr>, s2)"
      using assms wf2 new old claimed(1,5) by (auto simp: acc claim_inv_def)
    with fs claimed(9) show ?thesis by (simp add: acc)
  qed
qed

lemma claim_fold_inv:
  assumes "claim_inv host_id agent acc"
  shows "claim_inv host_id agent (fold (claim_one host_id agent now) js acc)
     \<and> fence_step (snd acc) (snd (fold (claim_one host_id agent now) js acc))"
  using assms
proof (induction js arbitrary: acc)
  case Nil
  then show ?case by simp
next
  case (Cons j js)
  from claim_one_inv [OF Cons.prems] have one: "claim_inv host_id agent (claim_one host_id agent now j acc)"
    "fence_step (snd acc) (snd (claim_one host_id agent now j acc))" by blast+
  from Cons.IH [OF one(1)] fence_trans [OF one(2)] show ?case by (simp add: comp_def)
qed

lemma claim_fold_source:
  assumes "fold (claim_one host_id agent now) js (cs, s) = (cs', s')"
  shows "length (cl_claimed cs') \<le> length (cl_claimed cs) + length js
     \<and> (\<forall>jt\<in>set (cl_claimed cs'). jt \<in> set (cl_claimed cs)
          \<or> (\<exists>job\<in>set js. j_id job = j_id (fst jt) \<and> j_device_id job = j_device_id (fst jt)))"
  using assms
proof (induction js arbitrary: cs s)
  case Nil
  then show ?case by simp
next
  case (Cons j js)
  obtain cs1 s1 where one: "claim_one host_id agent now j (cs, s) = (cs1, s1)"
    by (cases "claim_one host_id agent now j (cs, s)")
  with Cons.prems have rest: "fold (claim_one host_id agent now) js (cs1, s1) = (cs', s')" by (simp add: comp_def)
  have step: "length (cl_claimed cs1) \<le> Suc (length (cl_claimed cs))
     \<and> (\<forall>jt\<in>set (cl_claimed cs1). jt \<in> set (cl_claimed cs)
          \<or> (j_id j = j_id (fst jt) \<and> j_device_id j = j_device_id (fst jt)))"
    using claim_one_cases [of host_id agent now j cs s]
  proof cases
    case skipped
    with one show ?thesis by simp
  next
    case (claimed j2 l s2)
    with one show ?thesis by auto
  qed
  from Cons.IH [OF rest] step show ?case by (simp, blast)
qed

lemma pending_for_claim:
  assumes "job \<in> set (pending_jobs_for_claim s free cap locked)"
  shows "job \<in> set (jobs s)" "j_status job = J_PENDING" "run_is_running s (j_plan_run_id job)"
    "j_device_id job \<in> set free" "j_id job \<notin> set locked"
  using assms by (auto simp: pending_jobs_for_claim_def claim_candidates_def Let_def dest!: in_set_takeD)

lemma free_device_ids_D:
  "d \<in> set (free_device_ids s host_id) \<Longrightarrow>
     (\<exists>v\<in>set (devices s). d_id v = d \<and> claimable_device host_id v) \<and> get_active_lease s d = None"
  by (auto simp: free_device_ids_def Let_def get_active_lease_None active_on_def active_lease_def image_iff)

text \<open>
  C15. A claim hands out only what is free: from a host that is online, in service and outside
  maintenance; at most as many jobs as the agent's capacity and the free devices; one per device,
  each PENDING in a RUNNING plan run on a healthy device without ACTIVE lease; and afterwards each
  is RUNNING on that host under the one ACTIVE lease whose token was returned.  The lease invariant
  and the fencing order hold, whatever rows other transactions have locked.
\<close>

theorem claim_safe:
  assumes wf: "lease_wf s" and c: "claim_jobs_for_host host_id capacity agent locked now s = (claimed, t)"
  shows "lease_wf t \<and> fence_step s t
    \<and> (claimed \<noteq> [] \<longrightarrow> host_claimable s host_id now)
    \<and> int (length claimed) \<le> max 0 (min capacity (int (length (free_device_ids s host_id))))
    \<and> distinct (map (j_device_id \<circ> fst) claimed)
    \<and> (\<forall>jt\<in>set claimed. holds_claim t host_id agent jt
         \<and> get_active_lease s (j_device_id (fst jt)) = None
         \<and> (\<exists>v\<in>set (devices s). d_id v = j_device_id (fst jt) \<and> claimable_device host_id v)
         \<and> (\<exists>job\<in>set (jobs s). j_id job = j_id (fst jt) \<and> j_status job = J_PENDING
               \<and> run_is_running s (j_plan_run_id job)))"
proof (cases "host_claimable s host_id now")
  case False
  with c wf show ?thesis by (simp add: claim_jobs_for_host_def)
next
  case True
  let ?free = "free_device_ids s host_id"
  let ?cap = "min capacity (int (length ?free))"
  let ?pending = "if ?cap > 0 \<and> ?free \<noteq> [] then pending_jobs_for_claim s ?free (nat ?cap) locked else []"
  let ?acc = "(\<lparr>cl_claimed = [], cl_devices = []\<rparr>, s)"
  obtain cs s1 where f: "fold (claim_one host_id agent now) ?pending ?acc = (cs, s1)"
    by (cases "fold (claim_one host_id agent now) ?pending ?acc")
  have "claim_inv host_id agent ?acc" using wf by (simp add: claim_inv_def)
  from claim_fold_inv [OF this, of now ?pending] f
  have inv: "claim_inv host_id agent (cs, s1)" and fence: "fence_step s s1" by simp_all
  note src = claim_fold_source [OF f]
  have res: "claimed = cl_claimed cs \<and> (t = s1 \<or> claimed = [] \<and> t = s)"
    using c True f by (auto simp: claim_jobs_for_host_def Let_def split: if_splits)
  have "length ?pending \<le> nat ?cap" by (simp add: pending_jobs_for_claim_def Let_def)
  moreover from src have "length (cl_claimed cs) \<le> length ?pending" by simp
  ultimately have "length (cl_claimed cs) \<le> nat ?cap" by (rule le_trans [rotated])
  with res have "length claimed \<le> nat ?cap" by simp
  then have len: "int (length claimed) \<le> max 0 ?cap" by linarith
  have job: "\<exists>job. job \<in> set (pending_jobs_for_claim s ?free (nat ?cap) locked)
      \<and> j_id job = j_id (fst jt) \<and> j_device_id job = j_device_id (fst jt)" if "jt \<in> set claimed" for jt
    using src that res by (auto split: if_splits)
  have each: "get_active_lease s (j_device_id (fst jt)) = None
         \<and> (\<exists>v\<in>set (devices s). d_id v = j_device_id (fst jt) \<and> claimable_device host_id v)
         \<and> (\<exists>job\<in>set (jobs s). j_id job = j_id (fst jt) \<and> j_status job = J_PENDING
               \<and> run_is_running s (j_plan_run_id job))" if jt: "jt \<in> set claimed" for jt
  proof -
    from job [OF jt] obtain k where k: "k \<in> set (pending_jobs_for_claim s ?free (nat ?cap) locked)"
      "j_id k = j_id (fst jt)" "j_device_id k = j_device_id (fst jt)" by blast
    from pending_for_claim [OF k(1)] k(2,3) free_device_ids_D [of "j_device_id k" s host_id]
    show ?thesis by auto
  qed
  have "lease_wf t" "fence_step s t" "distinct (map (j_device_id \<circ> fst) claimed)"
    "\<forall>jt\<in>set claimed. holds_claim t host_id agent jt"
    using res inv fence wf by (auto simp: claim_inv_def)
  with len each True show ?thesis by blast
qed

definition claim_db :: db where
  "claim_db = sample_db\<lparr>runs := [\<lparr>r_id = 3, r_status = R_RUNNING, r_run_context = JNull,
     r_plan_snapshot = JNull, r_ended_at = None, r_total = 1, r_terminal = 0, r_completed = 0,
     r_failed = 0, r_aborted = 0, r_result_summary = JNull, r_next_plan_triggered = False, r_terminal_effects = None,
     r_plan_id = 2, r_build_version = None, r_run_type = ''MANUAL'', r_triggered_by = None, r_started_at = 90, r_parent_id = None,
     r_root_id = None, r_chain_index = 0, r_priority = 0, r_queue_reason = None, r_next_admission_at = None,
     r_admission_token = None, r_admission_attempt_id = None, r_precheck_started_at = None, r_enqueued_at = None\<rparr>]\<rparr>"

lemma claim_safe_witness:
  "\<exists>claimed t. claim_jobs_for_host ''h1'' 4 ''a1'' [] 100 claim_db = (claimed, t)
     \<and> map (\<lambda>jt. (j_id (fst jt), snd jt)) claimed = [(7, ''5:1'')] \<and> lease_wf t"
proof -
  let ?c = "claim_jobs_for_host ''h1'' 4 ''a1'' [] 100 claim_db"
  obtain claimed t where c: "?c = (claimed, t)" by (cases ?c)
  have wf: "lease_wf claim_db" using sample_db_wf by (simp add: claim_db_def lease_wf_def)
  have "map (\<lambda>jt. (j_id (fst jt), snd jt)) (fst ?c) = [(7, ''5:1'')]" by code_simp
  with claim_safe [OF wf c] c show ?thesis by simp
qed

end
