(* ===== verification/Plan_Aggregation.thy ===== *)
theory Plan_Aggregation
  imports Agent_Claim
begin

section \<open>From job terminals to the plan run's terminal (ADR-0052)\<close>

text \<open>
  services/job\_terminalization.py writes one pending mark per terminal job;
  services/plan\_run\_finalization.py drains the marks of a run in bounded batches, each recounting
  the run's and its hosts' counters from the job rows; services/plan\_run\_aggregation.py decides
  the run's terminal status from the counters.  What follows a terminal run (notification, chain
  trigger, dedup) runs in sessions of its own after the commit; here the drain returns how often it
  becomes due, and Run\_Finalization runs it between the rounds.
\<close>

subsection \<open>Terminalization\<close>

definition pending_insert :: "nat \<Rightarrow> nat \<Rightarrow> db \<Rightarrow> db" where
  \<comment> \<open>INSERT \<dots> ON CONFLICT DO NOTHING\<close>
  "pending_insert run job s =
     (if (run, job) \<in> set (pending_aggregation s) then s
      else s\<lparr>pending_aggregation := pending_aggregation s @ [(run, job)]\<rparr>)"

definition on_job_terminal :: "job_row \<Rightarrow> db \<Rightarrow> bool \<times> db" where
  "on_job_terminal job s =
     (if \<not> terminal_status (j_status job) then (False, s)
      else (True, pending_insert (j_plan_run_id job) (j_id job) s))"

definition on_job_terminal_sync :: "job_row \<Rightarrow> db \<Rightarrow> bool \<times> db" where
  "on_job_terminal_sync job s =
     (if \<not> terminal_status (j_status job) then (False, s)
      else (True, pending_insert (j_plan_run_id job) (j_id job) s))"

subsection \<open>The terminal rule\<close>

definition TERMINAL_PLAN_RUN_STATUSES :: "plan_run_status list" where
  "TERMINAL_PLAN_RUN_STATUSES = [R_SUCCESS, R_PARTIAL_SUCCESS, R_FAILED]"

definition resolve_plan_run_status :: "int \<Rightarrow> int \<Rightarrow> bool \<Rightarrow> plan_run_status" where
  "resolve_plan_run_status failed_only aborted abort_requested =
     (if aborted > 0 \<or> abort_requested then R_FAILED
      else if failed_only > 0 then R_PARTIAL_SUCCESS else R_SUCCESS)"

definition abort_requested :: "run_row \<Rightarrow> bool" where
  "abort_requested run =
     (case r_run_context run of
        JObj ctx \<Rightarrow> ''abort_requested'' \<in> set (map fst ctx) | _ \<Rightarrow> False)"

definition finalize_plan_run ::
  "run_row \<Rightarrow> plan_run_status \<Rightarrow> int \<Rightarrow> int \<Rightarrow> int \<Rightarrow> int \<Rightarrow> bool \<Rightarrow> time \<Rightarrow> transition_error + (bool \<times> run_row)" where
  "finalize_plan_run run new tot completed failed_only aborted requested now =
     (case plan_run_transition run new of
        Inl e \<Rightarrow> Inl e
      | Inr r \<Rightarrow> Inr (True, r\<lparr>r_ended_at := Some now,
          r_result_summary := JObj [(''total'', JInt tot), (''completed'', JInt completed),
            (''failed'', JInt (failed_only + aborted)), (''failed_only'', JInt failed_only),
            (''aborted'', JInt aborted), (''unknown'', JInt 0),
            (''abort_requested'', JBool requested)],
          r_terminal_effects := Some ''pending''\<rparr>))"

definition apply_plan_run_aggregation_from_counters ::
  "run_row \<Rightarrow> time \<Rightarrow> transition_error + (bool \<times> run_row)" where
  "apply_plan_run_aggregation_from_counters run now =
     (if r_status run \<in> set TERMINAL_PLAN_RUN_STATUSES then Inr (False, run)
      else if r_total run \<le> 0 \<or> r_terminal run < r_total run then Inr (False, run)
      else finalize_plan_run run
             (resolve_plan_run_status (r_failed run) (r_aborted run) (abort_requested run))
             (r_total run) (r_completed run) (r_failed run) (r_aborted run) (abort_requested run) now)"

definition count_status :: "job_status \<Rightarrow> job_row list \<Rightarrow> int" where
  "count_status st js = int (length (filter (\<lambda>j. j_status j = st) js))"

definition apply_plan_run_aggregation ::
  "run_row \<Rightarrow> job_row list \<Rightarrow> time \<Rightarrow> transition_error + (bool \<times> run_row)" where
  "apply_plan_run_aggregation run js now =
     (if r_status run \<in> set TERMINAL_PLAN_RUN_STATUSES then Inr (False, run)
      else if \<not> list_all (\<lambda>j. terminal_status (j_status j)) js then Inr (False, run)
      else if js = [] then
        (case plan_run_transition run R_FAILED of
           Inl e \<Rightarrow> Inl e | Inr r \<Rightarrow> Inr (True, r\<lparr>r_ended_at := Some now\<rparr>))
      else finalize_plan_run run
             (resolve_plan_run_status (count_status J_FAILED js) (count_status J_ABORTED js)
                (abort_requested run))
             (int (length js)) (count_status J_COMPLETED js) (count_status J_FAILED js)
             (count_status J_ABORTED js) (abort_requested run) now)"

subsection \<open>Recounting\<close>

definition recount_plan_run_counters :: "run_row \<Rightarrow> job_row list \<Rightarrow> bool \<times> run_row" where
  \<comment> \<open>the flag: the counters had drifted from the job rows\<close>
  "recount_plan_run_counters run js =
     (let completed = count_status J_COMPLETED js; failed = count_status J_FAILED js;
          aborted = count_status J_ABORTED js; terminal = completed + failed + aborted;
          tot = int (length js)
      in ((r_total run, r_terminal run, r_completed run, r_failed run, r_aborted run)
            \<noteq> (tot, terminal, completed, failed, aborted),
          run\<lparr>r_total := tot, r_terminal := terminal, r_completed := completed,
              r_failed := failed, r_aborted := aborted\<rparr>))"

definition recount_host_counters :: "prh_row \<Rightarrow> job_row list \<Rightarrow> bool \<times> prh_row" where
  "recount_host_counters prh js =
     (let completed = count_status J_COMPLETED js; failed = count_status J_FAILED js;
          aborted = count_status J_ABORTED js; terminal = completed + failed + aborted
      in ((p_terminal prh, p_completed prh, p_failed prh, p_aborted prh)
            \<noteq> (terminal, completed, failed, aborted),
          prh\<lparr>p_terminal := terminal, p_completed := completed, p_failed := failed,
              p_aborted := aborted\<rparr>))"

definition recount_host_projection_sync :: "nat \<Rightarrow> job_row list \<Rightarrow> db \<Rightarrow> db" where
  "recount_host_projection_sync run_id js s =
     s\<lparr>prhs := upd_where (\<lambda>p. p_plan_run_id p = run_id)
         (\<lambda>p. snd (recount_host_counters p
            (filter (\<lambda>j. j_host_id j = Some (p_host_id p) \<and> p_host_id p \<noteq> []) js))) (prhs s)\<rparr>"

subsection \<open>Draining the marks\<close>

definition AGGREGATION_BATCH_LIMIT :: nat where "AGGREGATION_BATCH_LIMIT = 500"
definition AGGREGATION_DRAIN_MAX_ROUNDS :: nat where "AGGREGATION_DRAIN_MAX_ROUNDS = 50"

definition run_marks :: "nat \<Rightarrow> db \<Rightarrow> nat list" where
  \<comment> \<open>ORDER BY created\_at, job\_id: the list keeps the marks in that order\<close>
  "run_marks run_id s = map snd (filter (\<lambda>m. fst m = run_id) (pending_aggregation s))"

definition run_jobs :: "nat \<Rightarrow> db \<Rightarrow> job_row list" where
  "run_jobs run_id s = filter (\<lambda>j. j_plan_run_id j = run_id) (jobs s)"

text \<open>An exception (\<open>Inl\<close>) rolls the round back.\<close>

definition aggregation_round_sync :: "nat \<Rightarrow> time \<Rightarrow> db \<Rightarrow> (transition_error + (nat \<times> bool)) \<times> db" where
  "aggregation_round_sync run_id now s =
     (case get_run s run_id of
        None \<Rightarrow> (Inr (0, False), s)
      | Some run \<Rightarrow>
          (let mark_ids = take AGGREGATION_BATCH_LIMIT (run_marks run_id s) in
           if mark_ids = [] then (Inr (0, False), s)
           else
             (let js = run_jobs run_id s;
                  run1 = snd (recount_plan_run_counters run js);
                  s1 = recount_host_projection_sync run_id js (upd_run run_id (\<lambda>r. run1) s);
                  s2 = s1\<lparr>pending_aggregation := filter
                         (\<lambda>m. \<not> (fst m = run_id \<and> snd m \<in> set mark_ids)) (pending_aggregation s1)\<rparr>
              in case apply_plan_run_aggregation_from_counters run1 now of
                   Inl e \<Rightarrow> (Inl e, s)
                 | Inr (applied, run2) \<Rightarrow>
                     (Inr (length mark_ids, applied), upd_run run_id (\<lambda>r. run2) s2))))"

text \<open>The answer: marks consumed and how often the side-effect block became due.\<close>

fun drain_rounds :: "nat \<Rightarrow> nat \<Rightarrow> time \<Rightarrow> db \<Rightarrow> (transition_error + (nat \<times> nat)) \<times> db" where
  "drain_rounds 0 run_id now s = (Inr (0, 0), s)"
| "drain_rounds (Suc n) run_id now s =
     (case aggregation_round_sync run_id now s of
        (Inl e, s1) \<Rightarrow> (Inl e, s1)
      | (Inr (consumed, applied), s1) \<Rightarrow>
          if consumed = 0 then (Inr (0, 0), s1)
          else (case drain_rounds n run_id now s1 of
                  (Inl e, s2) \<Rightarrow> (Inl e, s2)
                | (Inr (c, fx), s2) \<Rightarrow> (Inr (consumed + c, (if applied then 1 else 0) + fx), s2)))"

definition drain_plan_run_aggregation_sync :: "nat \<Rightarrow> time \<Rightarrow> db \<Rightarrow> (transition_error + (nat \<times> nat)) \<times> db" where
  "drain_plan_run_aggregation_sync run_id now s = drain_rounds AGGREGATION_DRAIN_MAX_ROUNDS run_id now s"

subsection \<open>Properties of the rule\<close>

lemma count_Cons [simp]:
  "count_status st (j # js) = (if j_status j = st then 1 else 0) + count_status st js"
  "count_status st [] = 0"
  by (simp_all add: count_status_def)

lemma count_le:
  "count_status J_COMPLETED js + count_status J_FAILED js + count_status J_ABORTED js \<le> int (length js)"
proof (induction js)
  case (Cons j js)
  then show ?case by (cases "j_status j") simp_all
qed simp

lemma count_split:
  "list_all (\<lambda>j. terminal_status (j_status j)) js \<longleftrightarrow>
     count_status J_COMPLETED js + count_status J_FAILED js + count_status J_ABORTED js = int (length js)"
proof (induction js)
  case (Cons j js)
  show ?case
  proof (cases "terminal_status (j_status j)")
    case True
    with Cons.IH show ?thesis by (cases "j_status j") auto
  next
    case False
    with count_le [of js] show ?thesis by (cases "j_status j") auto
  qed
qed simp

lemma count_nonneg [simp]: "0 \<le> count_status st js"
  by (simp add: count_status_def)

lemma recount_fields [simp]:
  "r_status (snd (recount_plan_run_counters run js)) = r_status run"
  "r_run_context (snd (recount_plan_run_counters run js)) = r_run_context run"
  "r_id (snd (recount_plan_run_counters run js)) = r_id run"
  "r_total (snd (recount_plan_run_counters run js)) = int (length js)"
  "r_terminal (snd (recount_plan_run_counters run js)) =
     count_status J_COMPLETED js + count_status J_FAILED js + count_status J_ABORTED js"
  "r_completed (snd (recount_plan_run_counters run js)) = count_status J_COMPLETED js"
  "r_failed (snd (recount_plan_run_counters run js)) = count_status J_FAILED js"
  "r_aborted (snd (recount_plan_run_counters run js)) = count_status J_ABORTED js"
  by (simp_all add: recount_plan_run_counters_def Let_def)

lemma abort_requested_recount [simp]:
  "abort_requested (snd (recount_plan_run_counters run js)) = abort_requested run"
  by (simp add: abort_requested_def)

text \<open>
  The two aggregation rules agree: deciding from freshly recounted counters gives, for a run
  with jobs, the decision of the full job scan, on every branch and with the same terminal facts.
\<close>

theorem aggregation_rules_agree:
  assumes "js \<noteq> []"
  shows "apply_plan_run_aggregation_from_counters (snd (recount_plan_run_counters run js)) now
     = apply_plan_run_aggregation (snd (recount_plan_run_counters run js)) js now"
proof -
  have n: "0 < int (length js)" using assms by simp
  show ?thesis
    using count_split [of js] count_le [of js] n assms
    by (auto simp: apply_plan_run_aggregation_from_counters_def apply_plan_run_aggregation_def
        split: sum.splits)
qed

lemma aggregation_rules_agree_witness:
  "apply_plan_run_aggregation_from_counters
     (snd (recount_plan_run_counters (hd (runs claim_db)) [sample_job\<lparr>j_status := J_FAILED\<rparr>])) 9
   = apply_plan_run_aggregation
     (snd (recount_plan_run_counters (hd (runs claim_db)) [sample_job\<lparr>j_status := J_FAILED\<rparr>]))
     [sample_job\<lparr>j_status := J_FAILED\<rparr>] 9"
  using aggregation_rules_agree [of "[sample_job\<lparr>j_status := J_FAILED\<rparr>]" "hd (runs claim_db)" 9]
  by simp

subsection \<open>Draining converges\<close>

definition run_facts :: "run_row \<Rightarrow> job_row list \<Rightarrow> bool" where
  \<comment> \<open>the counters are those of the job rows\<close>
  "run_facts run js \<longleftrightarrow>
     r_total run = int (length js) \<and> r_completed run = count_status J_COMPLETED js
     \<and> r_failed run = count_status J_FAILED js \<and> r_aborted run = count_status J_ABORTED js
     \<and> r_terminal run = count_status J_COMPLETED js + count_status J_FAILED js + count_status J_ABORTED js"

definition run_verdict :: "run_row \<Rightarrow> job_row list \<Rightarrow> plan_run_status" where
  \<comment> \<open>the status a RUNNING run is left in\<close>
  "run_verdict run js =
     (if js = [] \<or> \<not> list_all (\<lambda>j. terminal_status (j_status j)) js then R_RUNNING
      else resolve_plan_run_status (count_status J_FAILED js) (count_status J_ABORTED js)
             (abort_requested run))"

lemma resolve_range: "resolve_plan_run_status f a r \<in> {R_SUCCESS, R_PARTIAL_SUCCESS, R_FAILED}"
  by (simp add: resolve_plan_run_status_def)

lemma running_aggregation:
  assumes st: "r_status run = R_RUNNING"
  shows "\<exists>applied run2. apply_plan_run_aggregation_from_counters (snd (recount_plan_run_counters run js)) now
     = Inr (applied, run2) \<and> r_status run2 = run_verdict run js \<and> run_facts run2 js
     \<and> r_run_context run2 = r_run_context run \<and> r_id run2 = r_id run
     \<and> (applied \<longleftrightarrow> run_verdict run js \<noteq> R_RUNNING)"
proof -
  let ?r = "snd (recount_plan_run_counters run js)"
  have v: "valid_run_transition R_RUNNING (resolve_plan_run_status f a r)" for f a r
    using resolve_range [of f a r] by auto
  have stop: "(int (length js) \<le> 0 \<or> count_status J_COMPLETED js + count_status J_FAILED js
      + count_status J_ABORTED js < int (length js)) \<longleftrightarrow> (js = [] \<or> \<not> list_all (\<lambda>j. terminal_status (j_status j)) js)"
    using count_split [of js] count_le [of js] by auto
  have ne: "resolve_plan_run_status f a r \<noteq> R_RUNNING" for f a r
    using resolve_range [of f a r] by auto
  show ?thesis
  proof (cases "js = [] \<or> \<not> list_all (\<lambda>j. terminal_status (j_status j)) js")
    case True
    with stop have "apply_plan_run_aggregation_from_counters ?r now = Inr (False, ?r)"
      by (simp add: apply_plan_run_aggregation_from_counters_def)
    moreover have "run_verdict run js = R_RUNNING"
      using True by (auto simp: run_verdict_def)
    ultimately show ?thesis using st
      by (intro exI [of _ False] exI [of _ ?r]) (simp add: run_facts_def)
  next
    case False
    with stop st v have "apply_plan_run_aggregation_from_counters ?r now
      = finalize_plan_run ?r (run_verdict run js) (int (length js)) (count_status J_COMPLETED js)
          (count_status J_FAILED js) (count_status J_ABORTED js) (abort_requested run) now"
      by (simp add: apply_plan_run_aggregation_from_counters_def run_verdict_def TERMINAL_PLAN_RUN_STATUSES_def)
    moreover have "run_verdict run js \<noteq> R_RUNNING" "valid_run_transition R_RUNNING (run_verdict run js)"
      using False ne v by (simp_all add: run_verdict_def)
    ultimately show ?thesis using st
      by (auto simp: finalize_plan_run_def plan_run_transition_def run_facts_def)
  qed
qed

definition settled_status :: "run_row \<Rightarrow> job_row list \<Rightarrow> plan_run_status" where
  \<comment> \<open>a terminal run is left alone\<close>
  "settled_status run js = (if r_status run = R_RUNNING then run_verdict run js else r_status run)"

definition drainable :: "run_row \<Rightarrow> bool" where
  "drainable run \<longleftrightarrow> r_status run \<in> {R_RUNNING, R_SUCCESS, R_PARTIAL_SUCCESS, R_FAILED}"

lemma run_verdict_range: "run_verdict run js \<in> {R_RUNNING, R_SUCCESS, R_PARTIAL_SUCCESS, R_FAILED}"
  using resolve_range by (auto simp: run_verdict_def)

lemma drainable_aggregation:
  assumes "drainable run"
  shows "\<exists>run2. apply_plan_run_aggregation_from_counters (snd (recount_plan_run_counters run js)) now
     = Inr (r_status run = R_RUNNING \<and> run_verdict run js \<noteq> R_RUNNING, run2)
     \<and> r_status run2 = settled_status run js \<and> run_facts run2 js
     \<and> r_run_context run2 = r_run_context run \<and> r_id run2 = r_id run"
proof (cases "r_status run = R_RUNNING")
  case True
  from running_aggregation [OF True, of js now] show ?thesis
    using True by (auto simp: settled_status_def)
next
  case False
  with assms have "apply_plan_run_aggregation_from_counters (snd (recount_plan_run_counters run js)) now
      = Inr (False, snd (recount_plan_run_counters run js))"
    by (auto simp: apply_plan_run_aggregation_from_counters_def TERMINAL_PLAN_RUN_STATUSES_def drainable_def)
  with False show ?thesis by (simp add: settled_status_def run_facts_def)
qed

lemma get_run_upd_run:
  assumes "\<And>r. r_id r = k \<Longrightarrow> r_id (f r) = k"
  shows "get_run (upd_run k f s) k = map_option f (get_run s k)"
proof -
  have "first_row (filter (\<lambda>r. r_id r = k) (upd_where (\<lambda>r. r_id r = k) f t))
      = map_option f (first_row (filter (\<lambda>r. r_id r = k) t))" for t
    by (induction t) (auto simp: upd_where_Cons assms)
  then show ?thesis by (simp add: get_run_def upd_run_def)
qed

lemma get_run_other: "k \<noteq> i \<Longrightarrow> (\<And>r. r_id r = k \<Longrightarrow> r_id (f r) = k) \<Longrightarrow> get_run (upd_run k f s) i = get_run s i"
proof -
  assume k: "k \<noteq> i" "\<And>r. r_id r = k \<Longrightarrow> r_id (f r) = k"
  have "filter (\<lambda>r. r_id r = i) (upd_where (\<lambda>r. r_id r = k) f t) = filter (\<lambda>r. r_id r = i) t" for t
    using k by (induction t) (auto simp: upd_where_Cons)
  then show ?thesis by (simp add: get_run_def upd_run_def)
qed

lemma get_run_Some: "get_run s i = Some r \<Longrightarrow> r \<in> set (runs s) \<and> r_id r = i"
  unfolding get_run_def by (rule first_row_filterD)

lemma filter_not_take:
  assumes "distinct xs"
  shows "filter (\<lambda>x. x \<notin> set (take n xs)) xs = drop n xs"
proof -
  have "set (take n xs) \<inter> set (drop n xs) = {}"
    using assms by (rule set_take_disj_set_drop_if_distinct) simp
  then have "filter (\<lambda>x. x \<notin> set (take n xs)) (take n xs @ drop n xs) = drop n xs"
    unfolding filter_append by (auto simp: filter_empty_conv filter_id_conv)
  then show ?thesis by simp
qed

lemma distinct_run_marks:
  "distinct (pending_aggregation s) \<Longrightarrow> distinct (run_marks run_id s)"
  by (auto simp: run_marks_def distinct_map inj_on_def)

lemma drop_marks:
  assumes "distinct (pending_aggregation s)"
  shows "map snd (filter (\<lambda>m. fst m = run_id)
      (filter (\<lambda>m. \<not> (fst m = run_id \<and> snd m \<in> set (take n (run_marks run_id s)))) (pending_aggregation s)))
    = drop n (run_marks run_id s)" (is "?lhs = _")
proof -
  let ?K = "set (take n (run_marks run_id s))"
  have "?lhs = map snd (filter (\<lambda>m. snd m \<notin> ?K) (filter (\<lambda>m. fst m = run_id) (pending_aggregation s)))"
    by (simp add: conj_commute) (rule arg_cong [where f = "map snd"], rule filter_cong, auto)
  also have "\<dots> = filter (\<lambda>x. x \<notin> ?K) (run_marks run_id s)"
    by (simp add: run_marks_def filter_map comp_def)
  also have "\<dots> = drop n (run_marks run_id s)"
    by (rule filter_not_take) (rule distinct_run_marks [OF assms])
  finally show ?thesis .
qed

definition only_aggregates :: "nat \<Rightarrow> db \<Rightarrow> db \<Rightarrow> bool" where
  \<comment> \<open>jobs, leases, debts, devices, hosts and the rows and marks of other runs are untouched\<close>
  "only_aggregates run_id s t \<longleftrightarrow>
     jobs t = jobs s \<and> leases t = leases s \<and> debts t = debts s \<and> devices t = devices s
     \<and> hosts t = hosts s \<and> traces t = traces s
     \<and> filter (\<lambda>r. r_id r \<noteq> run_id) (runs t) = filter (\<lambda>r. r_id r \<noteq> run_id) (runs s)
     \<and> filter (\<lambda>m. fst m \<noteq> run_id) (pending_aggregation t)
       = filter (\<lambda>m. fst m \<noteq> run_id) (pending_aggregation s)"

lemma only_aggregates_refl [simp]: "only_aggregates i s s"
  by (simp add: only_aggregates_def)

lemma only_aggregates_trans: "only_aggregates i s t \<Longrightarrow> only_aggregates i t u \<Longrightarrow> only_aggregates i s u"
  by (simp add: only_aggregates_def)

lemma filter_other_upd:
  assumes "\<And>r. P r \<Longrightarrow> P (f r)"
  shows "filter (\<lambda>r. \<not> P r) (upd_where P f t) = filter (\<lambda>r. \<not> P r) t"
  by (induction t) (auto simp: upd_where_Cons assms)

lemma host_projection_fields [simp]:
  "pending_aggregation (recount_host_projection_sync i js s) = pending_aggregation s"
  "runs (recount_host_projection_sync i js s) = runs s"
  by (simp_all add: recount_host_projection_sync_def)

lemma aggregation_round:
  assumes g: "get_run s run_id = Some run" and d: "drainable run"
    and m: "run_marks run_id s \<noteq> []" and ds: "distinct (pending_aggregation s)"
  shows "\<exists>run2 t. aggregation_round_sync run_id now s
      = (Inr (length (take AGGREGATION_BATCH_LIMIT (run_marks run_id s)),
              r_status run = R_RUNNING \<and> run_verdict run (run_jobs run_id s) \<noteq> R_RUNNING), t)
     \<and> get_run t run_id = Some run2 \<and> r_status run2 = settled_status run (run_jobs run_id s)
     \<and> run_facts run2 (run_jobs run_id s) \<and> r_run_context run2 = r_run_context run
     \<and> run_marks run_id t = drop AGGREGATION_BATCH_LIMIT (run_marks run_id s)
     \<and> distinct (pending_aggregation t) \<and> only_aggregates run_id s t"
proof -
  let ?js = "run_jobs run_id s" and ?ids = "take AGGREGATION_BATCH_LIMIT (run_marks run_id s)"
  let ?r1 = "snd (recount_plan_run_counters run ?js)"
  let ?s1 = "recount_host_projection_sync run_id ?js (upd_run run_id (\<lambda>r. ?r1) s)"
  let ?s2 = "?s1\<lparr>pending_aggregation := filter
      (\<lambda>m. \<not> (fst m = run_id \<and> snd m \<in> set ?ids)) (pending_aggregation ?s1)\<rparr>"
  from drainable_aggregation [OF d] obtain run2 where
    a: "apply_plan_run_aggregation_from_counters ?r1 now
        = Inr (r_status run = R_RUNNING \<and> run_verdict run ?js \<noteq> R_RUNNING, run2)"
    and r: "r_status run2 = settled_status run ?js" "run_facts run2 ?js"
      "r_run_context run2 = r_run_context run" "r_id run2 = r_id run" by blast
  let ?t = "upd_run run_id (\<lambda>r. run2) ?s2"
  have id: "r_id run = run_id" using get_run_Some [OF g] by simp
  have ne: "?ids \<noteq> []" using m by (simp add: AGGREGATION_BATCH_LIMIT_def)
  have "aggregation_round_sync run_id now s = (Inr (length ?ids,
      r_status run = R_RUNNING \<and> run_verdict run ?js \<noteq> R_RUNNING), ?t)"
    using ne by (simp add: aggregation_round_sync_def g a Let_def)
  moreover have "get_run ?t run_id = Some run2"
  proof -
    have "get_run ?t run_id = map_option (\<lambda>r. run2) (get_run ?s2 run_id)"
      by (rule get_run_upd_run) (simp add: r id)
    moreover have "get_run ?s2 run_id = get_run (upd_run run_id (\<lambda>r. ?r1) s) run_id"
      by (simp add: get_run_def recount_host_projection_sync_def)
    moreover have "get_run (upd_run run_id (\<lambda>r. ?r1) s) run_id = Some ?r1"
      by (subst get_run_upd_run) (simp_all add: g id)
    ultimately show ?thesis by simp
  qed
  moreover have p1: "pending_aggregation ?s1 = pending_aggregation s"
    by (simp add: recount_host_projection_sync_def upd_run_def)
  moreover have "run_marks run_id ?t = drop AGGREGATION_BATCH_LIMIT (run_marks run_id s)"
    using drop_marks [OF ds, of run_id AGGREGATION_BATCH_LIMIT]
    by (simp add: p1 upd_run_def) (simp add: run_marks_def)
  moreover have "distinct (pending_aggregation ?t)" using ds by (simp add: p1 upd_run_def)
  moreover have "only_aggregates run_id s ?t"
    using r(4) id by (simp add: only_aggregates_def upd_run_def recount_host_projection_sync_def
        filter_other_upd conj_commute) (rule filter_cong, auto)
  ultimately show ?thesis using r by blast
qed

lemma aggregation_round_none:
  "run_marks run_id s = [] \<Longrightarrow> aggregation_round_sync run_id now s = (Inr (0, False), s)"
  by (simp add: aggregation_round_sync_def split: option.splits)

lemma drain_rounds_none:
  "run_marks run_id s = [] \<Longrightarrow> drain_rounds n run_id now s = (Inr (0, 0), s)"
  by (cases n) (simp_all add: aggregation_round_none)

lemma only_aggregates_run_jobs: "only_aggregates i s t \<Longrightarrow> run_jobs k t = run_jobs k s"
  by (simp add: only_aggregates_def run_jobs_def)

lemma settled_again:
  assumes "r_status run2 = settled_status run js" "r_run_context run2 = r_run_context run"
  shows "settled_status run2 js = settled_status run js"
    "r_status run2 = R_RUNNING \<Longrightarrow> run_verdict run2 js = R_RUNNING"
proof -
  have v: "run_verdict run2 js = run_verdict run js"
    using assms(2) by (simp add: run_verdict_def abort_requested_def)
  show "settled_status run2 js = settled_status run js"
    using assms(1) v by (simp add: settled_status_def)
  show "r_status run2 = R_RUNNING \<Longrightarrow> run_verdict run2 js = R_RUNNING"
    using assms(1) v by (simp add: settled_status_def split: if_splits)
qed

lemma settled_drainable:
  "drainable run \<Longrightarrow> r_status run2 = settled_status run js \<Longrightarrow> drainable run2"
  using run_verdict_range [of run js] by (auto simp: drainable_def settled_status_def)

lemma drain_rounds_converges:
  assumes "get_run s run_id = Some run" "drainable run" "run_marks run_id s \<noteq> []"
    "distinct (pending_aggregation s)" "length (run_marks run_id s) \<le> n * AGGREGATION_BATCH_LIMIT"
  shows "\<exists>run2 t. drain_rounds n run_id now s
      = (Inr (length (run_marks run_id s),
              if r_status run = R_RUNNING \<and> run_verdict run (run_jobs run_id s) \<noteq> R_RUNNING then 1 else 0), t)
     \<and> get_run t run_id = Some run2 \<and> r_status run2 = settled_status run (run_jobs run_id s)
     \<and> run_facts run2 (run_jobs run_id s) \<and> run_marks run_id t = [] \<and> only_aggregates run_id s t"
  using assms
proof (induction n arbitrary: s run)
  case 0
  then show ?case by simp
next
  case (Suc n)
  let ?js = "run_jobs run_id s" and ?ms = "run_marks run_id s"
  from aggregation_round [OF Suc.prems(1-4), of now] obtain run2 t where
    rd: "aggregation_round_sync run_id now s = (Inr (length (take AGGREGATION_BATCH_LIMIT ?ms),
        r_status run = R_RUNNING \<and> run_verdict run ?js \<noteq> R_RUNNING), t)"
    and t: "get_run t run_id = Some run2" "r_status run2 = settled_status run ?js"
      "run_facts run2 ?js" "r_run_context run2 = r_run_context run"
      "run_marks run_id t = drop AGGREGATION_BATCH_LIMIT ?ms"
      "distinct (pending_aggregation t)" "only_aggregates run_id s t" by blast
  have pos: "length (take AGGREGATION_BATCH_LIMIT ?ms) \<noteq> 0"
    using Suc.prems(3) by (simp add: AGGREGATION_BATCH_LIMIT_def)
  have tjs: "run_jobs run_id t = ?js" using t(7) by (rule only_aggregates_run_jobs)
  show ?case
  proof (cases "run_marks run_id t = []")
    case True
    then have "length (take AGGREGATION_BATCH_LIMIT ?ms) = length ?ms" using t(5) by simp
    with rd pos t True show ?thesis by (simp add: drain_rounds_none)
  next
    case False
    have "length (run_marks run_id t) \<le> n * AGGREGATION_BATCH_LIMIT" using Suc.prems(5) t(5) by simp
    from Suc.IH [OF t(1) settled_drainable [OF Suc.prems(2) t(2)] False t(6) this]
    obtain run3 u where u: "drain_rounds n run_id now t
        = (Inr (length (run_marks run_id t), if r_status run2 = R_RUNNING
              \<and> run_verdict run2 (run_jobs run_id t) \<noteq> R_RUNNING then 1 else 0), u)"
      "get_run u run_id = Some run3" "r_status run3 = settled_status run2 ?js"
      "run_facts run3 ?js" "run_marks run_id u = []" "only_aggregates run_id t u"
      unfolding tjs by blast
    have "length (take AGGREGATION_BATCH_LIMIT ?ms) + length (run_marks run_id t) = length ?ms"
      by (simp add: t(5))
    with rd pos u settled_again [OF t(2,4)] only_aggregates_trans [OF t(7) u(6)] show ?thesis
      by (auto simp: tjs)
  qed
qed

text \<open>
  Draining converges.  For a run that is RUNNING or terminal, with at most 50 rounds of 500
  marks pending, one drain consumes every mark of the run exactly once, leaves counters equal to
  the run's job rows and a status equal to the verdict on them (a terminal status is never
  changed), makes the terminal side effects due exactly once, when the run turns terminal, and
  touches no job, lease, debt, device, or other run.
\<close>

theorem drain_converges:
  assumes "get_run s run_id = Some run" "drainable run" "run_marks run_id s \<noteq> []"
    "distinct (pending_aggregation s)" "length (run_marks run_id s) \<le> 25000"
  shows "\<exists>run2 t. drain_plan_run_aggregation_sync run_id now s
      = (Inr (length (run_marks run_id s),
              if r_status run = R_RUNNING \<and> run_verdict run (run_jobs run_id s) \<noteq> R_RUNNING then 1 else 0), t)
     \<and> get_run t run_id = Some run2 \<and> r_status run2 = settled_status run (run_jobs run_id s)
     \<and> run_facts run2 (run_jobs run_id s) \<and> run_marks run_id t = [] \<and> only_aggregates run_id s t"
  unfolding drain_plan_run_aggregation_sync_def
  using assms by (intro drain_rounds_converges)
     (simp_all add: AGGREGATION_DRAIN_MAX_ROUNDS_def AGGREGATION_BATCH_LIMIT_def)

definition drain_db :: db where
  "drain_db = claim_db\<lparr>jobs := [sample_job\<lparr>j_status := J_FAILED\<rparr>], pending_aggregation := [(3, 7)]\<rparr>"

lemma drain_converges_witness:
  "\<exists>run2 t. drain_plan_run_aggregation_sync 3 9 drain_db = (Inr (1, 1), t)
     \<and> get_run t 3 = Some run2 \<and> r_status run2 = R_PARTIAL_SUCCESS \<and> run_marks 3 t = []"
proof -
  let ?run = "hd (runs drain_db)"
  have g: "get_run drain_db 3 = Some ?run" by code_simp
  have st: "r_status ?run = R_RUNNING" "run_verdict ?run (run_jobs 3 drain_db) = R_PARTIAL_SUCCESS"
    by code_simp+
  have m: "run_marks 3 drain_db = [7]" "distinct (pending_aggregation drain_db)" by code_simp+
  from drain_converges [OF g, of 9] st m show ?thesis
    by (auto simp: drainable_def settled_status_def)
qed

end
