(* ===== verification/Agent_Recovery.thy ===== *)
theory Agent_Recovery
  imports Plan_Aggregation
begin

section \<open>Crash recovery of an agent (services/agent\_recovery.py)\<close>

text \<open>
  \<open>/agent/recovery/sync\<close>: a restarted agent reports the jobs it believes it runs and the control
  plane answers with one action per job.  The whole request is one transaction; an exception
  (\<open>Inl\<close>) rolls it back.  The reported jobs are handled in ascending order of job id, each by
  \<open>recovery_entry\<close>, the body of the service's loop.
\<close>

datatype recovery_error = RecoveryHostNotFound | RecoveryDeviceNotFound | TokenTypeError

datatype recovery_kind = RESUME | CLEANUP | ABORT_LOCAL | UPLOAD_TERMINAL | NOOP

record active_entry =
  ae_job_id :: nat
  ae_device_id :: nat
  ae_device_serial :: "string option"
  ae_fencing_token :: string

record outbox_entry =
  oe_job_id :: nat
  oe_event_type :: string

record recovery_in =
  ri_host_id :: string
  ri_agent :: string
  ri_boot_id :: string
  ri_active :: "active_entry list"
  ri_outbox :: "outbox_entry list"

record resume_payload = job_out +
  rp_execution_state :: "string option"

record recovery_action =
  ra_job_id :: nat
  ra_device_id :: "nat option"
  ra_action :: recovery_kind
  ra_fencing_token :: string
  ra_device_serial :: string
  ra_job_payload :: "resume_payload option"
  ra_event_type :: string
  ra_reason :: string

subsection \<open>The resume payload\<close>

definition build_recovery_job_payload :: "db \<Rightarrow> job_row \<Rightarrow> string \<Rightarrow> string \<Rightarrow> resume_payload" where
  "build_recovery_job_payload s job serial token =
     (let prh = (case j_host_id job of
                   None \<Rightarrow> None
                 | Some h \<Rightarrow> if h = [] then None else prh_of s (j_plan_run_id job) h)
      in \<lparr>jo_id = j_id job, jo_plan_run_id = j_plan_run_id job, jo_plan_id = j_plan_id job,
          jo_device_id = j_device_id job, jo_device_serial = Some serial,
          jo_host_id = j_host_id job, jo_status = j_status job, jo_pipeline_def = j_pipeline_def job,
          jo_watcher_policy = job_watcher_policy s job, jo_fencing_token = token,
          jo_plan_run_host_id = map_option p_id prh,
          jo_plan_run_host_total = map_option prh_total prh,
          jo_started_at = j_started_at job, rp_execution_state = j_execution_state job\<rparr>)"

subsection \<open>Refreshing and rotating a lease\<close>

definition resume_expired_lease_for_recovery ::
  "env \<Rightarrow> lease_row \<Rightarrow> job_row \<Rightarrow> string \<Rightarrow> time \<Rightarrow> int \<Rightarrow> db \<Rightarrow> lease_row option \<times> db" where
  \<comment> \<open>the refreshed lease for True, \<open>None\<close> for False\<close>
  "resume_expired_lease_for_recovery e lease job agent now grace s =
     (if l_status lease \<noteq> LS_ACTIVE then (None, s)
      else if j_status job \<noteq> J_UNKNOWN then (None, s)
      else
        (case j_ended_at job of
           None \<Rightarrow> (None, s)
         | Some ended \<Rightarrow>
             if ended \<le> now - grace then (None, s)
             else
               (let f = (\<lambda>l. l\<lparr>l_renewed_at := now, l_expires_at := now + e_device_lock_lease e,
                               l_agent_instance_id := agent\<rparr>)
                in (Some (f lease), upd_lease (l_id lease) f s))))"

definition rotate_recovery_lease_token ::
  "lease_row \<Rightarrow> string \<Rightarrow> time \<Rightarrow> db \<Rightarrow> (recovery_error + lease_row) \<times> db" where
  "rotate_recovery_lease_token lease agent now s =
     (case get_device s (l_device_id lease) of
        None \<Rightarrow> (Inl RecoveryDeviceNotFound, s)
      | Some device \<Rightarrow>
          (let s1 = bump_generation (l_device_id lease) s;
               g = generation_of s1 (l_device_id lease);
               f = (\<lambda>l. l\<lparr>l_generation := g, l_fencing_token := fencing_token (l_device_id lease) g,
                          l_agent_instance_id := agent, l_renewed_at := now\<rparr>)
           in (Inr (f lease), upd_lease (l_id lease) f s1)))"

definition rotate_unless_same ::
  "lease_row \<Rightarrow> string \<Rightarrow> string \<Rightarrow> time \<Rightarrow> db \<Rightarrow> (recovery_error + lease_row) \<times> db" where
  \<comment> \<open>\<open>if lease_agent_id != payload.agent_instance_id: await rotate_recovery_lease_token(\<dots>)\<close>\<close>
  "rotate_unless_same lease lease_agent agent now s =
     (if lease_agent \<noteq> agent then rotate_recovery_lease_token lease agent now s
      else (Inr lease, s))"

subsection \<open>One reported job\<close>

definition is_ascii :: "string \<Rightarrow> bool" where
  "is_ascii s = list_all (\<lambda>c. of_char c < (128 :: nat)) s"

definition compare_digest :: "string \<Rightarrow> string \<Rightarrow> recovery_error + bool" where
  \<comment> \<open>\<open>secrets.compare_digest\<close> raises TypeError on a str that is not ASCII\<close>
  "compare_digest a b = (if is_ascii a \<and> is_ascii b then Inr (a = b) else Inl TokenTypeError)"

definition entry_serial :: "active_entry \<Rightarrow> string" where
  "entry_serial entry = strip (case ae_device_serial entry of None \<Rightarrow> [] | Some x \<Rightarrow> x)"

definition recovery_owner ::
  "recovery_in \<Rightarrow> active_entry \<Rightarrow> job_row option \<Rightarrow> device_row option \<Rightarrow> lease_row
   \<Rightarrow> recovery_error + (job_row \<times> device_row) option" where
  "recovery_owner p entry job device lease =
     (case (job, device) of
        (Some j, Some v) \<Rightarrow>
          if j_device_id j = ae_device_id entry \<and> j_host_id j = Some (ri_host_id p)
             \<and> l_host_id lease = Some (ri_host_id p) \<and> d_host_id v = Some (ri_host_id p)
             \<and> ae_fencing_token entry \<noteq> []
          then
            (case compare_digest (ae_fencing_token entry) (l_fencing_token lease) of
               Inl e \<Rightarrow> Inl e
             | Inr same \<Rightarrow>
                 Inr (if same \<and> (entry_serial entry = [] \<or> strip (d_serial v) = entry_serial entry)
                      then Some (j, v) else None))
          else Inr None
      | _ \<Rightarrow> Inr None)"

definition boot_matches :: "recovery_in \<Rightarrow> string \<Rightarrow> lease_row \<Rightarrow> bool" where
  "boot_matches p previous_boot lease =
     (if previous_boot \<noteq> [] \<and> ri_boot_id p \<noteq> [] then previous_boot = ri_boot_id p
      else l_agent_instance_id lease = ri_agent p)"

definition recovery_reply :: "active_entry \<Rightarrow> recovery_kind \<Rightarrow> string \<Rightarrow> recovery_action" where
  "recovery_reply entry kind reason =
     \<lparr>ra_job_id = ae_job_id entry, ra_device_id = Some (ae_device_id entry), ra_action = kind,
      ra_fencing_token = [], ra_device_serial = [], ra_job_payload = None, ra_event_type = [],
      ra_reason = reason\<rparr>"

definition resume_reply :: "db \<Rightarrow> active_entry \<Rightarrow> job_row \<Rightarrow> string \<Rightarrow> lease_row \<Rightarrow> string \<Rightarrow> recovery_action" where
  "resume_reply s entry job serial lease reason =
     (recovery_reply entry RESUME reason)\<lparr>ra_fencing_token := l_fencing_token lease,
        ra_device_serial := serial,
        ra_job_payload := Some (build_recovery_job_payload s job serial (l_fencing_token lease))\<rparr>"

definition recovery_boot_cleanup :: "active_entry \<Rightarrow> job_row \<Rightarrow> time \<Rightarrow> db \<Rightarrow> recovery_action \<times> db" where
  "recovery_boot_cleanup entry job now s =
     (let job1 = (case job_transition job J_FAILED ''recovery_cleanup_boot_mismatch'' now of
                    Inl e \<Rightarrow> job | Inr j \<Rightarrow> j\<lparr>j_ended_at := Some now\<rparr>);
          s1 = upd_job (j_id job) (\<lambda>j. job1) s;
          (out, s2) = handle_job_lease_release (ae_device_id entry) (ae_job_id entry) (Some job1) now s1;
          s3 = (if j_status job1 = J_FAILED then snd (on_job_terminal job1 s2) else s2)
      in (recovery_reply entry CLEANUP ''boot_id_mismatch'', s3))"

definition recovery_unknown ::
  "env \<Rightarrow> recovery_in \<Rightarrow> active_entry \<Rightarrow> job_row \<Rightarrow> string \<Rightarrow> lease_row \<Rightarrow> time \<Rightarrow> db
   \<Rightarrow> (recovery_error + recovery_action) \<times> db" where
  "recovery_unknown e p entry job serial lease now s =
     (case resume_expired_lease_for_recovery e lease job (ri_agent p) now 300 s of
        (Some lease1, s1) \<Rightarrow>
          (case rotate_unless_same lease1 (l_agent_instance_id lease) (ri_agent p) now s1 of
             (Inl err, s2) \<Rightarrow> (Inl err, s2)
           | (Inr lease2, s2) \<Rightarrow>
               (let job1 = (case job_transition job J_RUNNING ''recovery_resume_unknown'' now of
                              Inl e \<Rightarrow> job | Inr j \<Rightarrow> j);
                    s3 = upd_job (j_id job) (\<lambda>j. job1) s2
                in (Inr (resume_reply s3 entry job1 serial lease2 ''recovery_resume_unknown''), s3)))
      | (None, s1) \<Rightarrow>
          (Inr (recovery_reply entry CLEANUP ''unknown_grace_expired''),
           snd (handle_job_lease_release (ae_device_id entry) (ae_job_id entry) (Some job) now s1)))"

definition recovery_entry ::
  "env \<Rightarrow> recovery_in \<Rightarrow> string \<Rightarrow> time \<Rightarrow> active_entry \<Rightarrow> db
   \<Rightarrow> (recovery_error + recovery_action) \<times> db" where
  "recovery_entry e p previous_boot now entry s =
     (case get_job_lease s (ae_device_id entry) (ae_job_id entry) of
        None \<Rightarrow>
          (Inr (recovery_reply entry ABORT_LOCAL
             (if list_ex (\<lambda>l. l_device_id l = ae_device_id entry \<and> l_job_id l = Some (ae_job_id entry)
                              \<and> l_type l = LT_JOB) (leases s)
              then ''lease_not_active'' else ''no_active_lease'')), s)
      | Some lease \<Rightarrow>
          (case recovery_owner p entry (get_job s (ae_job_id entry)) (get_device s (ae_device_id entry)) lease of
             Inl err \<Rightarrow> (Inl err, s)
           | Inr None \<Rightarrow> (Inr (recovery_reply entry ABORT_LOCAL ''recovery_ownership_mismatch''), s)
           | Inr (Some (job, device)) \<Rightarrow>
               (let serial = strip (d_serial device);
                    run_ctx = (case get_run s (j_plan_run_id job) of None \<Rightarrow> JObj [] | Some r \<Rightarrow> r_run_context r)
                in
                if \<not> boot_matches p previous_boot lease then
                  (let (a, s1) = recovery_boot_cleanup entry job now s in (Inr a, s1))
                else if j_id job \<in> set (abort_pending_job_ids run_ctx [(j_id job, j_host_id job)]) then
                  (case rotate_unless_same lease (l_agent_instance_id lease) (ri_agent p) now s of
                     (Inl err, s1) \<Rightarrow> (Inl err, s1)
                   | (Inr lease1, s1) \<Rightarrow>
                       (Inr ((recovery_reply entry ABORT_LOCAL ''abort_requested'')
                          \<lparr>ra_fencing_token := l_fencing_token lease1, ra_device_serial := serial\<rparr>), s1))
                else if j_status job = J_UNKNOWN then
                  recovery_unknown e p entry job serial lease now s
                else if terminal_status (j_status job) then
                  (Inr (recovery_reply entry ABORT_LOCAL ''terminal_job_active_lease''),
                   snd (handle_job_lease_release (ae_device_id entry) (ae_job_id entry) (Some job) now s))
                else if j_status job \<noteq> J_RUNNING then
                  (Inr (recovery_reply entry ABORT_LOCAL
                     (''job_not_resumable:'' @ job_status_text (j_status job))), s)
                else if l_agent_instance_id lease = ri_agent p then
                  (Inr ((recovery_reply entry NOOP ''same_instance_worker_already_owned'')
                     \<lparr>ra_fencing_token := l_fencing_token lease, ra_device_serial := serial\<rparr>), s)
                else
                  (case rotate_recovery_lease_token lease (ri_agent p) now s of
                     (Inl err, s1) \<Rightarrow> (Inl err, s1)
                   | (Inr lease1, s1) \<Rightarrow>
                       (Inr (resume_reply s1 entry job serial lease1 ''same_boot_instance_takeover''), s1)))))"

subsection \<open>The request\<close>

definition outbox_action :: "db \<Rightarrow> outbox_entry \<Rightarrow> recovery_action" where
  "outbox_action s entry =
     (let base = \<lparr>ra_job_id = oe_job_id entry, ra_device_id = None, ra_action = NOOP,
                  ra_fencing_token = [], ra_device_serial = [], ra_job_payload = None,
                  ra_event_type = [], ra_reason = []\<rparr>
      in case get_job s (oe_job_id entry) of
           None \<Rightarrow> base\<lparr>ra_reason := ''job_not_found''\<rparr>
         | Some j \<Rightarrow>
             if terminal_status (j_status j) then base\<lparr>ra_reason := ''already_terminal''\<rparr>
             else base\<lparr>ra_action := UPLOAD_TERMINAL, ra_event_type := oe_event_type entry,
                       ra_reason := ''not_terminal_on_backend''\<rparr>)"

definition take_identity :: "recovery_in \<Rightarrow> host_row \<Rightarrow> host_row" where
  "take_identity p h =
     (let h1 = (if ri_boot_id p \<noteq> [] then h\<lparr>h_boot_id := ri_boot_id p\<rparr> else h)
      in if ri_agent p \<noteq> [] then h1\<lparr>h_last_agent_instance_id := ri_agent p\<rparr> else h1)"

fun collect_replies :: "(recovery_error + recovery_action) list \<Rightarrow> recovery_error + recovery_action list" where
  \<comment> \<open>the first exception ends the request\<close>
  "collect_replies [] = Inr []"
| "collect_replies (Inl e # rs) = Inl e"
| "collect_replies (Inr a # rs) =
     (case collect_replies rs of Inl e \<Rightarrow> Inl e | Inr as \<Rightarrow> Inr (a # as))"

definition sync_agent_recovery ::
  "env \<Rightarrow> recovery_in \<Rightarrow> time \<Rightarrow> db
   \<Rightarrow> (recovery_error + (recovery_action list \<times> recovery_action list)) \<times> db" where
  "sync_agent_recovery e p now s =
     (case get_host s (ri_host_id p) of
        None \<Rightarrow> (Inl RecoveryHostNotFound, s)
      | Some host \<Rightarrow>
          (let outbox = map (outbox_action s) (ri_outbox p) in
           if h_retired_at host \<noteq> None then
             (Inr (map (\<lambda>entry. recovery_reply entry ABORT_LOCAL ''host_retired'') (ri_active p), outbox), s)
           else
             (let s1 = upd_host (ri_host_id p) (take_identity p) s;
                  (replies, s2) = run_batch (recovery_entry e p (h_boot_id host) now)
                                    (sort_key ae_job_id (ri_active p)) s1
              in case collect_replies replies of
                   Inl err \<Rightarrow> (Inl err, s)
                 | Inr actions \<Rightarrow> (Inr (actions, outbox), s2))))"

subsection \<open>The pieces keep the lease invariant\<close>

lemma generation_renewed:
  "get_device s d \<noteq> None \<Longrightarrow> generation_of (bump_generation d s) d = Suc (generation_of s d)"
  using generation_bump [of s d _ d] by auto

lemma rotate_cases:
  assumes "get_device s (l_device_id lease) \<noteq> None"
  obtains f where "renews (l_device_id lease) (Suc (generation_of s (l_device_id lease))) f"
    "\<And>l. l_agent_instance_id (f l) = agent" "\<And>l. l_status (f l) = l_status l"
    "\<And>l. l_type (f l) = l_type l" "\<And>l. l_job_id (f l) = l_job_id l"
    "rotate_recovery_lease_token lease agent now s
       = (Inr (f lease), upd_lease (l_id lease) f (bump_generation (l_device_id lease) s))"
proof -
  let ?d = "l_device_id lease"
  let ?g = "Suc (generation_of s ?d)"
  let ?f = "\<lambda>l. l\<lparr>l_generation := ?g, l_fencing_token := fencing_token ?d ?g,
      l_agent_instance_id := agent, l_renewed_at := now\<rparr>"
  from assms have "rotate_recovery_lease_token lease agent now s
      = (Inr (?f lease), upd_lease (l_id lease) ?f (bump_generation ?d s))"
    by (auto simp: rotate_recovery_lease_token_def generation_renewed Let_def)
  then show thesis by (rule that [rotated 5]) (auto simp: renews_def)
qed

text \<open>What recovery does to leases: an ACTIVE job lease is an old row or belongs to the agent.\<close>

definition grants :: "string \<Rightarrow> db \<Rightarrow> db \<Rightarrow> bool" where
  "grants agent s t \<longleftrightarrow>
     (\<forall>l\<in>set (leases t). l_status l = LS_ACTIVE \<and> l_type l = LT_JOB
        \<longrightarrow> l \<in> set (leases s) \<or> l_agent_instance_id l = agent)"

lemma grants_trans: "grants a s t \<Longrightarrow> grants a t u \<Longrightarrow> grants a s u"
  by (auto simp: grants_def)

lemma grants_same: "leases t = leases s \<Longrightarrow> grants a s t"
  by (simp add: grants_def)

lemma grants_upd:
  assumes "\<And>l. P l \<Longrightarrow> l_status (f l) = LS_ACTIVE \<and> l_type (f l) = LT_JOB \<Longrightarrow> l_agent_instance_id (f l) = a"
  shows "grants a s (upd_leases P f s)"
  unfolding grants_def
proof (intro ballI impI)
  fix l assume "l \<in> set (leases (upd_leases P f s))" and st: "l_status l = LS_ACTIVE \<and> l_type l = LT_JOB"
  then have "l \<in> set (upd_where P f (leases s))" by (simp add: upd_leases_def)
  then show "l \<in> set (leases s) \<or> l_agent_instance_id l = a"
    using assms st by (cases rule: in_upd_whereE) auto
qed

text \<open>Finished jobs stay finished: no job row is added or removed and terminal statuses do not change.\<close>

definition final_kept :: "db \<Rightarrow> db \<Rightarrow> bool" where
  "final_kept s t \<longleftrightarrow> map j_id (jobs t) = map j_id (jobs s)
     \<and> (\<forall>k j. get_job s k = Some j \<and> terminal_status (j_status j)
          \<longrightarrow> (\<exists>j'. get_job t k = Some j' \<and> j_status j' = j_status j))"

lemma final_same: "jobs t = jobs s \<Longrightarrow> final_kept s t"
  by (simp add: final_kept_def get_job_def)

lemma final_trans: "final_kept s t \<Longrightarrow> final_kept t u \<Longrightarrow> final_kept s u"
  unfolding final_kept_def by metis

text \<open>What recovery does to jobs: none is created, moved, or turned UNKNOWN, and none revived.\<close>

definition jobs_kept :: "db \<Rightarrow> db \<Rightarrow> bool" where
  "jobs_kept s t \<longleftrightarrow> final_kept s t
     \<and> (\<forall>k y. get_job t k = Some y \<longrightarrow>
        (\<exists>x. get_job s k = Some x \<and> j_device_id y = j_device_id x
             \<and> (j_status y = J_UNKNOWN \<longrightarrow> j_status x = J_UNKNOWN)))"

lemma jobs_kept_same: "jobs t = jobs s \<Longrightarrow> jobs_kept s t"
  by (simp add: jobs_kept_def get_job_def final_same)

lemma jobs_kept_trans: "jobs_kept s t \<Longrightarrow> jobs_kept t u \<Longrightarrow> jobs_kept s u"
  unfolding jobs_kept_def using final_trans by (metis (no_types, lifting))

lemma get_job_replaced:
  assumes "get_job s k = Some x" "j_id x = k" "j_id y = k"
  shows "get_job (upd_job k (\<lambda>j. y) s) i = (if i = k then Some y else get_job s i)"
proof -
  have "first_row (filter (\<lambda>j. j_id j = i) (upd_where (\<lambda>j. j_id j = k) (\<lambda>j. y) t))
     = (if i = k then map_option (\<lambda>j. y) (first_row (filter (\<lambda>j. j_id j = k) t))
        else first_row (filter (\<lambda>j. j_id j = i) t))" for t
    using assms(3) by (induction t) (auto simp: upd_where_Cons)
  with assms(1) show ?thesis by (simp add: get_job_def upd_job_def)
qed

lemma final_upd:
  assumes "get_job s k = Some x" "j_id y = k" "terminal_status (j_status x) \<longrightarrow> j_status y = j_status x"
  shows "final_kept s (upd_job k (\<lambda>j. y) s)"
proof -
  have "map j_id (jobs (upd_job k (\<lambda>j. y) s)) = map j_id (jobs s)"
    using assms(2) by (auto simp: upd_job_def intro!: map_upd_where)
  with assms get_job_Some [OF assms(1)] show ?thesis
    by (auto simp: final_kept_def get_job_replaced)
qed

lemma jobs_kept_upd:
  assumes "get_job s k = Some x" "j_id y = k" "j_device_id y = j_device_id x"
    "j_status y = J_UNKNOWN \<longrightarrow> j_status x = J_UNKNOWN"
    "terminal_status (j_status x) \<longrightarrow> j_status y = j_status x"
  shows "jobs_kept s (upd_job k (\<lambda>j. y) s)"
  using assms get_job_Some [OF assms(1)] final_upd [OF assms(1,2,5)]
  by (auto simp: jobs_kept_def get_job_replaced split: if_splits)

definition recovery_step :: "string \<Rightarrow> db \<Rightarrow> db \<Rightarrow> bool" where
  "recovery_step agent s t \<longleftrightarrow> fence_step s t \<and> grants agent s t \<and> jobs_kept s t"

lemma recovery_step_refl: "recovery_step a s s"
  by (simp add: recovery_step_def grants_same jobs_kept_same)

lemma recovery_step_trans: "recovery_step a s t \<Longrightarrow> recovery_step a t u \<Longrightarrow> recovery_step a s u"
  unfolding recovery_step_def by (blast intro: fence_trans grants_trans jobs_kept_trans)

lemma settle_grants: "grants a s (snd (settle_lease_sync d j lease now s))"
proof -
  have r: "grants a s (snd (release_job_lease_sync d j now s))"
    unfolding release_job_lease_sync_def snd_conv by (rule grants_upd) simp
  have q: "grants a s (snd (acquire_debt_lease_sync d now s))"
    by (auto simp: acquire_debt_lease_sync_def Let_def grants_def insert_lease_def split: option.splits)
  have c: "grants a s (snd (convert_active_job_to_debt_lease_sync d l now s))" for l
    unfolding convert_active_job_to_debt_lease_sync_def Let_def upd_lease_leases snd_conv
    by (rule grants_trans [OF grants_same grants_upd]) simp_all
  from r q c show ?thesis
    by (auto simp: settle_lease_sync_def split_beta Let_def grants_same split: option.splits)
qed

lemma settle_jobs: "jobs (snd (settle_lease_sync d j lease now s)) = jobs s"
  by (auto simp: settle_lease_sync_def split_beta Let_def release_job_lease_sync_def upd_leases_def
      acquire_debt_lease_sync_def insert_lease_def convert_active_job_to_debt_lease_sync_def
      bump_generation_def upd_device_def upd_lease_def split: option.splits)

lemma handle_grants: "grants a s (snd (handle_job_lease_release_sync d j job now s))"
  and handle_jobs: "jobs (snd (handle_job_lease_release_sync d j job now s)) = jobs s"
proof -
  show "grants a s (snd (handle_job_lease_release_sync d j job now s))"
  proof (rule handle_settles [of s d j job now])
    fix s1 assume ro: "returns_only s s1" and h: "handle_job_lease_release_sync d j job now s
     = (if get_device s d = None
        then (\<lparr>lo_released = False, lo_converted_to_debt = False, lo_open_debt_count = 0,
               lo_fencing_token = None\<rparr>, s)
        else settle_lease_sync d j (get_active_lease s1 d) now s1)"
    have "grants a s s1" using ro by (simp add: grants_same returns_only_def)
    then show ?thesis unfolding h
      using grants_trans [OF _ settle_grants] by (simp add: grants_same)
  qed
  show "jobs (snd (handle_job_lease_release_sync d j job now s)) = jobs s"
  proof (rule handle_settles [of s d j job now])
    fix s1 assume ro: "returns_only s s1" and h: "handle_job_lease_release_sync d j job now s
     = (if get_device s d = None
        then (\<lparr>lo_released = False, lo_converted_to_debt = False, lo_open_debt_count = 0,
               lo_fencing_token = None\<rparr>, s)
        else settle_lease_sync d j (get_active_lease s1 d) now s1)"
    then show ?thesis unfolding h by (simp add: settle_jobs returns_only_def)
  qed
qed

lemma handle_recovery_step:
  "lease_wf s \<Longrightarrow> recovery_step a s (snd (handle_job_lease_release d j job now s))"
  by (simp add: recovery_step_def handle_async_sync handle_fence handle_grants handle_jobs jobs_kept_same)

lemma handle_async_wf: "lease_wf s \<Longrightarrow> lease_wf (snd (handle_job_lease_release d j job now s))"
  by (simp add: handle_async_sync handle_wf)

lemma upd_job_step:
  assumes "get_job s k = Some x" "j_id y = k" "j_device_id y = j_device_id x"
    "j_status y = J_UNKNOWN \<longrightarrow> j_status x = J_UNKNOWN"
    "terminal_status (j_status x) \<longrightarrow> j_status y = j_status x"
  shows "recovery_step a s (upd_job k (\<lambda>j. y) s)"
  using jobs_kept_upd [OF assms]
  by (simp add: recovery_step_def same_leases_fence) (simp add: grants_same upd_job_def)

lemma upd_job_wf [simp]: "lease_wf (upd_job k f s) = lease_wf s"
  by (rule same_leases_wf) simp

lemma on_job_terminal_fields [simp]:
  "leases (snd (on_job_terminal j s)) = leases s" "jobs (snd (on_job_terminal j s)) = jobs s"
  "same_leases s (snd (on_job_terminal j s))"
  by (simp_all add: on_job_terminal_def pending_insert_def same_leases_def)

lemma on_job_terminal_step: "recovery_step a s (snd (on_job_terminal j s))"
  by (simp add: recovery_step_def same_leases_fence grants_same jobs_kept_same)

lemma on_job_terminal_wf [simp]: "lease_wf (snd (on_job_terminal j s)) = lease_wf s"
  by (rule same_leases_wf) simp

lemma rotate_facts:
  assumes wf: "lease_wf s" and l: "l \<in> set (leases s)" "l_status l = LS_ACTIVE"
  obtains l' t where "rotate_recovery_lease_token l agent now s = (Inr l', t)"
    "lease_wf t" "recovery_step agent s t" "get_active_lease t (l_device_id l) = Some l'"
    "l_agent_instance_id l' = agent" "l_type l' = l_type l" "l_job_id l' = l_job_id l"
    "\<not> live_token t (l_fencing_token l)" "jobs t = jobs s" "runs t = runs s"
proof -
  let ?d = "l_device_id l" and ?s1 = "bump_generation (l_device_id l) s"
  let ?g = "Suc (generation_of s (l_device_id l))"
  from lease_device [OF wf l(1)] obtain v where v: "get_device s ?d = Some v" by blast
  then have "get_device s ?d \<noteq> None" by simp
  from rotate_cases [OF this, of agent now] obtain f where f: "renews ?d ?g f"
    "\<And>l. l_agent_instance_id (f l) = agent" "\<And>l. l_status (f l) = l_status l"
    "\<And>l. l_type (f l) = l_type l" "\<And>l. l_job_id (f l) = l_job_id l"
    and r: "rotate_recovery_lease_token l agent now s = (Inr (f l), upd_lease (l_id l) f ?s1)"
    by metis
  let ?t = "upd_lease (l_id l) f ?s1"
  have wft: "lease_wf ?t" by (rule renew_wf [OF wf l refl refl refl f(1)])
  have lt: "leases ?t = upd_where (\<lambda>x. l_id x = l_id l) f (leases s)" by (simp add: upd_lease_def)
  have "f l \<in> set (leases ?t)" using l(1) by (auto simp: lt set_upd_where)
  moreover have "active_on ?d (f l)" using f l(2) by (simp add: active_on_def renews_def)
  ultimately have act: "get_active_lease ?t ?d = Some (f l)" by (rule lease_wf_get_active [OF wft])
  have "\<not> live_token ?t (l_fencing_token l)"
  proof
    assume "live_token ?t (l_fencing_token l)"
    then obtain x where x: "x \<in> set (upd_where (\<lambda>x. l_id x = l_id l) f (leases s))"
      "l_fencing_token x = l_fencing_token l" by (auto simp: live_token_def lt)
    from x(1) show False
    proof (cases rule: in_upd_whereE)
      case 1
      with x(2) l(1) wf have "x = l" by (auto simp: lease_wf_def dest: distinct_map_single)
      with 1 show ?thesis by simp
    next
      case (2 y)
      then have "l_fencing_token l = fencing_token ?d ?g" using x(2) f(1) by (simp add: renews_def)
      moreover have "l_fencing_token l \<noteq> fencing_token ?d ?g"
        by (rule fresh_generation [OF wf l(1)]) simp
      ultimately show ?thesis by simp
    qed
  qed
  moreover have "grants agent s ?t"
  proof -
    have "grants agent ?s1 ?t" unfolding upd_lease_leases by (rule grants_upd) (simp add: f(2))
    then show ?thesis by (simp add: grants_def)
  qed
  moreover have "jobs ?t = jobs s" "runs ?t = runs s"
    by (simp_all add: upd_lease_def bump_generation_def upd_device_def)
  moreover have "fence_step s ?t" by (rule renew_fence [OF wf v refl f(1)])
  ultimately show thesis
    using that [OF r wft _ act] f by (simp add: recovery_step_def jobs_kept_same)
qed

lemma resume_facts:
  assumes wf: "lease_wf s" and l: "l \<in> set (leases s)" "l_status l = LS_ACTIVE"
    and r: "resume_expired_lease_for_recovery e l job agent now grace s = (Some l1, t)"
  shows "lease_wf t \<and> recovery_step agent s t \<and> l1 \<in> set (leases t) \<and> l_status l1 = LS_ACTIVE
     \<and> l_device_id l1 = l_device_id l \<and> l_type l1 = l_type l \<and> l_job_id l1 = l_job_id l
     \<and> l_fencing_token l1 = l_fencing_token l \<and> l_agent_instance_id l1 = agent
     \<and> jobs t = jobs s \<and> runs t = runs s
     \<and> j_status job = J_UNKNOWN \<and> (\<exists>ended. j_ended_at job = Some ended \<and> now - grace < ended)"
proof -
  let ?f = "\<lambda>l. l\<lparr>l_renewed_at := now, l_expires_at := now + e_device_lock_lease e,
                   l_agent_instance_id := agent\<rparr>"
  from r have t: "t = upd_leases (\<lambda>x. l_id x = l_id l) ?f s" "l1 = ?f l"
    "j_status job = J_UNKNOWN" "\<exists>ended. j_ended_at job = Some ended \<and> now - grace < ended"
    by (auto simp: resume_expired_lease_for_recovery_def Let_def upd_lease_leases split: if_splits option.splits)
  have tf: "touches ?f" by (simp add: touches_def)
  have "grants agent s t" unfolding t(1) by (rule grants_upd) simp
  moreover have "l1 \<in> set (leases t)" using l(1) by (auto simp: t upd_leases_def set_upd_where)
  ultimately show ?thesis using t(2-4) l touch_wf [OF tf wf] touch_fence [OF tf]
    by (simp add: t(1) recovery_step_def) (simp add: jobs_kept_same upd_leases_def)
qed

lemma resume_none: "resume_expired_lease_for_recovery e l job agent now grace s = (None, t) \<Longrightarrow> t = s"
  by (auto simp: resume_expired_lease_for_recovery_def Let_def split: if_splits option.splits)

lemma rotate_unless_same_facts:
  assumes wf: "lease_wf s" and l: "l \<in> set (leases s)" "l_status l = LS_ACTIVE"
    and same: "old = agent \<longrightarrow> l_agent_instance_id l = agent"
  obtains l' t where "rotate_unless_same l old agent now s = (Inr l', t)"
    "lease_wf t" "recovery_step agent s t" "get_active_lease t (l_device_id l) = Some l'"
    "l_agent_instance_id l' = agent" "l_type l' = l_type l" "l_job_id l' = l_job_id l"
    "old \<noteq> agent \<longrightarrow> \<not> live_token t (l_fencing_token l)" "jobs t = jobs s" "runs t = runs s"
proof (cases "old = agent")
  case True
  have "get_active_lease s (l_device_id l) = Some l"
    by (rule lease_wf_get_active [OF wf l(1)]) (simp add: active_on_def l(2))
  with True same wf show ?thesis
    by (intro that [of l s]) (simp_all add: rotate_unless_same_def recovery_step_refl)
next
  case False
  from rotate_facts [OF wf l, of agent now] that False show ?thesis
    by (simp add: rotate_unless_same_def) metis
qed

subsection \<open>One entry\<close>

lemma recovery_owner_error:
  assumes "recovery_owner p entry job device lease = Inl err" "is_ascii (l_fencing_token lease)"
  shows "err = TokenTypeError" "\<not> is_ascii (ae_fencing_token entry)"
  using assms by (auto simp: recovery_owner_def compare_digest_def split: option.splits if_splits)

lemma recovery_owner_Some:
  assumes "recovery_owner p entry job device lease = Inr (Some (j, v))"
  shows "job = Some j" "device = Some v" "j_device_id j = ae_device_id entry"
    "j_host_id j = Some (ri_host_id p)" "l_host_id lease = Some (ri_host_id p)"
    "d_host_id v = Some (ri_host_id p)" "ae_fencing_token entry \<noteq> []"
    "l_fencing_token lease = ae_fencing_token entry"
    "entry_serial entry = [] \<or> strip (d_serial v) = entry_serial entry"
  using assms by (auto simp: recovery_owner_def compare_digest_def split: option.splits if_splits sum.splits)

lemma is_ascii_token: "is_ascii (fencing_token d g)"
proof -
  have dig: "is_ascii (dec n)" for n
    using dec_digits [of n] by (auto simp: is_ascii_def is_digit_def list_all_iff)
  then show ?thesis by (simp add: fencing_token_def) (simp add: is_ascii_def)
qed

definition run_context_of :: "db \<Rightarrow> job_row \<Rightarrow> json" where
  "run_context_of s job = (case get_run s (j_plan_run_id job) of None \<Rightarrow> JObj [] | Some r \<Rightarrow> r_run_context r)"

definition aborting :: "db \<Rightarrow> job_row \<Rightarrow> bool" where
  "aborting s job \<longleftrightarrow> j_id job \<in> set (abort_pending_job_ids (run_context_of s job) [(j_id job, j_host_id job)])"

text \<open>What a RESUME reply to \<open>entry\<close> stands for, between the databases before and after.\<close>

definition resumed ::
  "recovery_in \<Rightarrow> string \<Rightarrow> time \<Rightarrow> active_entry \<Rightarrow> recovery_action \<Rightarrow> db \<Rightarrow> db \<Rightarrow> bool" where
  "resumed p previous_boot now entry a s t \<longleftrightarrow>
     (\<exists>job lease.
        get_job s (ae_job_id entry) = Some job
        \<and> get_job_lease s (ae_device_id entry) (ae_job_id entry) = Some lease
        \<and> j_device_id job = ae_device_id entry
        \<and> j_host_id job = Some (ri_host_id p) \<and> l_host_id lease = Some (ri_host_id p)
        \<and> l_fencing_token lease = ae_fencing_token entry
        \<and> boot_matches p previous_boot lease \<and> \<not> aborting s job
        \<and> (j_status job = J_RUNNING \<and> l_agent_instance_id lease \<noteq> ri_agent p \<or>
           j_status job = J_UNKNOWN \<and> (\<exists>ended. j_ended_at job = Some ended \<and> now - 300 < ended))
        \<and> (l_agent_instance_id lease \<noteq> ri_agent p \<longrightarrow> \<not> live_token t (ae_fencing_token entry)))
     \<and> (\<exists>job. get_job t (ae_job_id entry) = Some job \<and> j_status job = J_RUNNING
          \<and> j_device_id job = ae_device_id entry)
     \<and> (\<exists>lease. get_active_lease t (ae_device_id entry) = Some lease \<and> l_type lease = LT_JOB
          \<and> l_job_id lease = Some (ae_job_id entry) \<and> l_agent_instance_id lease = ri_agent p
          \<and> l_fencing_token lease = ra_fencing_token a)"

definition entry_sound ::
  "recovery_in \<Rightarrow> string \<Rightarrow> time \<Rightarrow> active_entry \<Rightarrow> recovery_error + recovery_action \<Rightarrow> db \<Rightarrow> db \<Rightarrow> bool" where
  "entry_sound p previous_boot now entry r s t \<longleftrightarrow>
     lease_wf t \<and> recovery_step (ri_agent p) s t
     \<and> (case r of
          Inl err \<Rightarrow> err = TokenTypeError \<and> \<not> is_ascii (ae_fencing_token entry)
        | Inr a \<Rightarrow> ra_job_id a = ae_job_id entry
            \<and> (ra_action a = RESUME \<longrightarrow> resumed p previous_boot now entry a s t))"

lemma entry_sound_plain:
  "\<lbrakk>lease_wf t; recovery_step (ri_agent p) s t; ra_job_id a = ae_job_id entry; ra_action a \<noteq> RESUME\<rbrakk>
     \<Longrightarrow> entry_sound p pb now entry (Inr a) s t"
  by (simp add: entry_sound_def)

lemma reply_fields [simp]:
  "ra_job_id (recovery_reply entry k r) = ae_job_id entry"
  "ra_action (recovery_reply entry k r) = k"
  "ra_job_id (resume_reply s entry job serial l r) = ae_job_id entry"
  "ra_action (resume_reply s entry job serial l r) = RESUME"
  "ra_fencing_token (resume_reply s entry job serial l r) = l_fencing_token l"
  by (simp_all add: recovery_reply_def resume_reply_def)

lemma boot_cleanup_sound:
  assumes wf: "lease_wf s" and j: "get_job s (j_id job) = Some job"
  shows "entry_sound p pb now entry (Inr (fst (recovery_boot_cleanup entry job now s))) s
           (snd (recovery_boot_cleanup entry job now s))"
proof -
  let ?job1 = "case job_transition job J_FAILED ''recovery_cleanup_boot_mismatch'' now of
       Inl e \<Rightarrow> job | Inr j \<Rightarrow> j\<lparr>j_ended_at := Some now\<rparr>"
  let ?s1 = "upd_job (j_id job) (\<lambda>j. ?job1) s"
  let ?s2 = "snd (handle_job_lease_release (ae_device_id entry) (ae_job_id entry) (Some ?job1) now ?s1)"
  let ?s3 = "if j_status ?job1 = J_FAILED then snd (on_job_terminal ?job1 ?s2) else ?s2"
  have f: "j_id ?job1 = j_id job \<and> j_device_id ?job1 = j_device_id job
      \<and> (j_status ?job1 = J_UNKNOWN \<longrightarrow> j_status job = J_UNKNOWN)
      \<and> (terminal_status (j_status job) \<longrightarrow> j_status ?job1 = j_status job)"
  proof (cases "job_transition job J_FAILED ''recovery_cleanup_boot_mismatch'' now")
    case (Inr j1)
    from job_transition_fields [OF Inr] transition_from_terminal Inr show ?thesis by auto
  qed simp
  have 1: "recovery_step a s ?s1" for a using f by (intro upd_job_step [OF j]) blast+
  have wf1: "lease_wf ?s1" using wf by simp
  have 2: "recovery_step a ?s1 ?s2" for a by (rule handle_recovery_step [OF wf1])
  have wf2: "lease_wf ?s2" by (rule handle_async_wf [OF wf1])
  have 3: "recovery_step a ?s2 ?s3" for a by (simp add: on_job_terminal_step recovery_step_refl)
  have st: "recovery_step a s ?s3" for a
    by (rule recovery_step_trans [OF recovery_step_trans [OF 1 2] 3])
  have "recovery_boot_cleanup entry job now s
      = (recovery_reply entry CLEANUP ''boot_id_mismatch'', ?s3)"
    unfolding recovery_boot_cleanup_def Let_def split_beta by (rule refl)
  then show ?thesis using st wf2 by (simp add: entry_sound_plain)
qed

lemma job_lease_facts:
  assumes "get_job_lease s d j = Some l"
  shows "l \<in> set (leases s)" "l_status l = LS_ACTIVE" "l_device_id l = d" "l_type l = LT_JOB"
    "l_job_id l = Some j"
  using get_job_lease_Some [OF assms] by (simp_all add: job_lease_on_def)

lemma get_job_cong: "jobs t = jobs s \<Longrightarrow> get_job t k = get_job s k"
  by (simp add: get_job_def)

lemma unknown_sound:
  assumes wf: "lease_wf s"
    and le: "get_job_lease s (ae_device_id entry) (ae_job_id entry) = Some lease"
    and ow: "recovery_owner p entry (get_job s (ae_job_id entry)) (get_device s (ae_device_id entry)) lease
      = Inr (Some (job, device))"
    and b: "boot_matches p pb lease" and ab: "\<not> aborting s job" and st: "j_status job = J_UNKNOWN"
    and r: "recovery_unknown e p entry job serial lease now s = (r, t)"
  shows "entry_sound p pb now entry r s t"
proof -
  note l = job_lease_facts [OF le]
  note o = recovery_owner_Some [OF ow]
  have jid: "j_id job = ae_job_id entry" using get_job_Some [OF o(1)] by simp
  show ?thesis
  proof (cases "resume_expired_lease_for_recovery e lease job (ri_agent p) now 300 s")
    case (Pair res s1)
    show ?thesis
    proof (cases res)
      case None
      with Pair have s1: "s1 = s" by (simp add: resume_none)
      with r Pair None have "r = Inr (recovery_reply entry CLEANUP ''unknown_grace_expired'')"
        "t = snd (handle_job_lease_release (ae_device_id entry) (ae_job_id entry) (Some job) now s)"
        by (auto simp: recovery_unknown_def)
      with wf show ?thesis
        by (simp add: entry_sound_plain handle_recovery_step handle_async_wf)
    next
      case (Some lease1)
      from resume_facts [OF wf l(1,2), of e job "ri_agent p" now 300 lease1 s1] Pair Some
      have f: "lease_wf s1" "recovery_step (ri_agent p) s s1" "lease1 \<in> set (leases s1)"
        "l_status lease1 = LS_ACTIVE" "l_device_id lease1 = l_device_id lease" "l_type lease1 = l_type lease"
        "l_job_id lease1 = l_job_id lease" "l_fencing_token lease1 = l_fencing_token lease"
        "l_agent_instance_id lease1 = ri_agent p" "jobs s1 = jobs s"
        "\<exists>ended. j_ended_at job = Some ended \<and> now - 300 < ended" by simp_all
      from rotate_unless_same_facts [OF f(1,3,4), of "l_agent_instance_id lease" "ri_agent p" now] f(9)
      obtain l2 s2 where g: "rotate_unless_same lease1 (l_agent_instance_id lease) (ri_agent p) now s1 = (Inr l2, s2)"
        "lease_wf s2" "recovery_step (ri_agent p) s1 s2" "get_active_lease s2 (l_device_id lease1) = Some l2"
        "l_agent_instance_id l2 = ri_agent p" "l_type l2 = l_type lease1" "l_job_id l2 = l_job_id lease1"
        "l_agent_instance_id lease \<noteq> ri_agent p \<longrightarrow> \<not> live_token s2 (l_fencing_token lease1)"
        "jobs s2 = jobs s1" by metis
      obtain job1 where j1: "job_transition job J_RUNNING ''recovery_resume_unknown'' now = Inr job1"
        using st by (simp add: job_transition_def)
      then have j1f: "j_status job1 = J_RUNNING" "j_id job1 = j_id job" "j_device_id job1 = j_device_id job"
        by (auto dest: job_transition_fields)
      let ?s3 = "upd_job (j_id job) (\<lambda>j. job1) s2"
      from r Pair Some g(1) j1 have rt: "t = ?s3"
        "r = Inr (resume_reply ?s3 entry job1 serial l2 ''recovery_resume_unknown'')"
        by (auto simp: recovery_unknown_def Let_def)
      have gj: "get_job s2 (j_id job) = Some job" using g(9) f(10) o(1) jid by (simp add: get_job_def)
      have step3: "recovery_step (ri_agent p) s2 ?s3"
        by (rule upd_job_step [OF gj]) (use j1f st in simp_all)
      have "recovery_step (ri_agent p) s t" unfolding rt(1)
        by (rule recovery_step_trans [OF recovery_step_trans [OF f(2) g(3)] step3])
      moreover have "get_job t (ae_job_id entry) = Some job1"
        using get_job_replaced [OF gj refl j1f(2)] jid by (simp add: rt)
      moreover have "get_active_lease t (ae_device_id entry) = Some l2"
        using g(4) f(5) l(3) by (simp add: rt get_active_lease_def upd_job_def)
      moreover have "live_token t tok = live_token s2 tok" for tok
        by (simp add: rt live_token_def upd_job_def)
      ultimately show ?thesis
        unfolding entry_sound_def resumed_def
        using g f l o le b ab st j1f rt by simp
    qed
  qed
qed

lemma takeover_sound:
  assumes wf: "lease_wf s"
    and le: "get_job_lease s (ae_device_id entry) (ae_job_id entry) = Some lease"
    and ow: "recovery_owner p entry (get_job s (ae_job_id entry)) (get_device s (ae_device_id entry)) lease
      = Inr (Some (job, device))"
    and b: "boot_matches p pb lease" and ab: "\<not> aborting s job" and st: "j_status job = J_RUNNING"
    and ag: "l_agent_instance_id lease \<noteq> ri_agent p"
  obtains l1 t where "rotate_recovery_lease_token lease (ri_agent p) now s = (Inr l1, t)"
    "entry_sound p pb now entry (Inr (resume_reply t entry job serial l1 reason)) s t"
proof -
  note l = job_lease_facts [OF le]
  note o = recovery_owner_Some [OF ow]
  from rotate_facts [OF wf l(1,2), of "ri_agent p" now] obtain l1 t where
    g: "rotate_recovery_lease_token lease (ri_agent p) now s = (Inr l1, t)"
    "lease_wf t" "recovery_step (ri_agent p) s t" "get_active_lease t (l_device_id lease) = Some l1"
    "l_agent_instance_id l1 = ri_agent p" "l_type l1 = l_type lease" "l_job_id l1 = l_job_id lease"
    "\<not> live_token t (l_fencing_token lease)" "jobs t = jobs s" by metis
  have "get_job t (ae_job_id entry) = Some job" using g(9) o(1) by (simp add: get_job_def)
  then have "entry_sound p pb now entry (Inr (resume_reply t entry job serial l1 reason)) s t"
    unfolding entry_sound_def resumed_def using g l o le b ab st ag by simp
  with g(1) that show thesis by blast
qed

lemma recovery_entry_sound:
  assumes wf: "lease_wf s" and h: "recovery_entry e p pb now entry s = (r, t)"
  shows "entry_sound p pb now entry r s t"
proof (cases "get_job_lease s (ae_device_id entry) (ae_job_id entry)")
  case None
  with h wf show ?thesis
    by (auto simp: recovery_entry_def intro: entry_sound_plain recovery_step_refl)
next
  case (Some lease)
  note l = job_lease_facts [OF Some]
  let ?own = "recovery_owner p entry (get_job s (ae_job_id entry)) (get_device s (ae_device_id entry)) lease"
  have asc: "is_ascii (l_fencing_token lease)"
    using wf l(1) by (auto simp: lease_wf_def token_ok_def is_ascii_token)
  consider (err) err where "?own = Inl err" | (not) "?own = Inr None"
    | (own) job device where "?own = Inr (Some (job, device))"
    by (metis old.sum.exhaust option.exhaust prod.exhaust)
  then show ?thesis
  proof cases
    case err
    with h Some have "r = Inl err" "t = s" by (simp_all add: recovery_entry_def)
    with recovery_owner_error [OF err asc] wf show ?thesis
      by (simp add: entry_sound_def recovery_step_refl)
  next
    case not
    with h Some have "r = Inr (recovery_reply entry ABORT_LOCAL ''recovery_ownership_mismatch'')" "t = s"
      by (simp_all add: recovery_entry_def)
    with wf show ?thesis by (simp add: entry_sound_plain recovery_step_refl)
  next
    case own
    note o = recovery_owner_Some [OF own]
    have j: "get_job s (j_id job) = Some job" using get_job_Some [OF o(1)] o(1) by simp
    have ctx: "(case get_run s (j_plan_run_id job) of None \<Rightarrow> JObj [] | Some r \<Rightarrow> r_run_context r)
        = run_context_of s job" by (simp add: run_context_of_def)
    note hd = h [unfolded recovery_entry_def Some option.case own sum.case prod.case Let_def ctx,
        folded aborting_def]
    show ?thesis
    proof (cases "boot_matches p pb lease")
      case False
      with hd have "(r, t) = (Inr (fst (recovery_boot_cleanup entry job now s)),
          snd (recovery_boot_cleanup entry job now s))"
        by (simp add: split_beta)
      with boot_cleanup_sound [OF wf j] show ?thesis by simp
    next
      case b: True
      show ?thesis
      proof (cases "aborting s job")
        case True
        from rotate_unless_same_facts [OF wf l(1,2), of "l_agent_instance_id lease" "ri_agent p" now]
        obtain l1 s1 where "rotate_unless_same lease (l_agent_instance_id lease) (ri_agent p) now s = (Inr l1, s1)"
          "lease_wf s1" "recovery_step (ri_agent p) s s1" by metis
        with hd b True show ?thesis by (auto intro!: entry_sound_plain)
      next
        case ab: False
        show ?thesis
        proof (cases "j_status job")
          case J_UNKNOWN
          with hd b ab have "recovery_unknown e p entry job (strip (d_serial device)) lease now s = (r, t)"
            by simp
          then show ?thesis by (rule unknown_sound [OF wf Some own b ab J_UNKNOWN])
        next
          case J_RUNNING
          show ?thesis
          proof (cases "l_agent_instance_id lease = ri_agent p")
            case True
            with hd b ab J_RUNNING wf show ?thesis
              by (auto intro!: entry_sound_plain recovery_step_refl)
          next
            case False
            from takeover_sound [OF wf Some own b ab J_RUNNING False]
            obtain l1 u where u: "rotate_recovery_lease_token lease (ri_agent p) now s = (Inr l1, u)"
              "entry_sound p pb now entry (Inr (resume_reply u entry job (strip (d_serial device)) l1
                 ''same_boot_instance_takeover'')) s u" by metis
            with hd b ab J_RUNNING False show ?thesis by auto
          qed
        qed (use hd b ab wf in \<open>auto intro!: entry_sound_plain recovery_step_refl handle_recovery_step handle_async_wf\<close>)
      qed
    qed
  qed
qed

interpretation recovery: batch_invariant "recovery_entry e p pb now" lease_wf "recovery_step (ri_agent p)"
  for e p pb now
proof
  fix s x assume wf: "lease_wf s"
  obtain r t where rt: "recovery_entry e p pb now x s = (r, t)" by (cases "recovery_entry e p pb now x s")
  from recovery_entry_sound [OF wf rt] rt
  show "lease_wf (snd (recovery_entry e p pb now x s))"
    "recovery_step (ri_agent p) s (snd (recovery_entry e p pb now x s))"
    by (simp_all add: entry_sound_def)
qed (fact recovery_step_refl recovery_step_trans)+

subsection \<open>The request\<close>

lemma collect_length: "collect_replies rs = Inr as \<Longrightarrow> length as = length rs"
  by (induction rs arbitrary: as rule: collect_replies.induct) (auto split: sum.splits)

lemma upd_host_wf [simp]: "lease_wf (upd_host h f s) = lease_wf s"
  by (rule same_leases_wf) simp

lemma sync_run:
  assumes "sync_agent_recovery e p now s = (r, t)"
  obtains (early) "t = s"
    "\<And>as ob. r = Inr (as, ob) \<Longrightarrow> as = map (\<lambda>entry. recovery_reply entry ABORT_LOCAL ''host_retired'') (ri_active p)
        \<and> ob = map (outbox_action s) (ri_outbox p)"
  | (ran) host rs actions where "get_host s (ri_host_id p) = Some host" "h_retired_at host = None"
    "run_batch (recovery_entry e p (h_boot_id host) now) (sort_key ae_job_id (ri_active p))
       (upd_host (ri_host_id p) (take_identity p) s) = (rs, t)"
    "collect_replies rs = Inr actions" "r = Inr (actions, map (outbox_action s) (ri_outbox p))"
proof (cases "get_host s (ri_host_id p)")
  case None
  with assms show thesis by (intro early) (auto simp: sync_agent_recovery_def)
next
  case (Some host)
  show thesis
  proof (cases "h_retired_at host = None")
    case False
    with assms Some show thesis by (intro early) (auto simp: sync_agent_recovery_def)
  next
    case True
    obtain rs u where b: "run_batch (recovery_entry e p (h_boot_id host) now) (sort_key ae_job_id (ri_active p))
       (upd_host (ri_host_id p) (take_identity p) s) = (rs, u)" by force
    show thesis
    proof (cases "collect_replies rs")
      case (Inl err)
      with assms Some True b show thesis by (intro early) (auto simp: sync_agent_recovery_def Let_def)
    next
      case (Inr actions)
      with assms Some True b show thesis by (intro ran [OF Some True]) (auto simp: sync_agent_recovery_def Let_def)
    qed
  qed
qed

lemma sync_wf:
  assumes wf: "lease_wf s" and h: "sync_agent_recovery e p now s = (r, t)"
  shows "lease_wf t" "fence_step s t"
proof -
  have "lease_wf t \<and> fence_step s t"
    using h
  proof (cases rule: sync_run)
    case early
    with wf show ?thesis by simp
  next
    case (ran host rs actions)
    have wf1: "lease_wf (upd_host (ri_host_id p) (take_identity p) s)" using wf by simp
    have "fence_step s (upd_host (ri_host_id p) (take_identity p) s)" by (rule same_leases_fence) simp
    from fence_trans [OF this] recovery.batch_rel [OF wf1] recovery.batch_inv [OF wf1] ran(3)
    show ?thesis unfolding recovery_step_def by (metis snd_conv)
  qed
  then show "lease_wf t" "fence_step s t" by simp_all
qed

text \<open>
  Recovery keeps the fleet's ownership intact: whatever an agent reports, the lease invariant
  and the fencing order hold afterwards; every reported job gets one answer; a request that fails
  (unknown host, or a reported token that is not ASCII) writes nothing; and a retired host is told
  to stop every job, again without a write.
\<close>

theorem recovery_keeps_fencing:
  assumes wf: "lease_wf s" and h: "sync_agent_recovery e p now s = (r, t)"
  shows "lease_wf t \<and> fence_step s t
    \<and> (case r of
         Inl err \<Rightarrow> t = s
       | Inr (actions, outbox) \<Rightarrow>
           length actions = length (ri_active p) \<and> length outbox = length (ri_outbox p)
           \<and> (\<forall>host. get_host s (ri_host_id p) = Some host \<and> h_retired_at host \<noteq> None
                 \<longrightarrow> t = s \<and> (\<forall>a\<in>set actions. ra_action a = ABORT_LOCAL)))"
  using h
proof (cases rule: sync_run)
  case early
  with sync_wf [OF wf h] h show ?thesis by (auto simp: recovery_reply_def split: sum.splits)
next
  case (ran host rs actions)
  have "length rs = length (ri_active p)" using arg_cong [OF ran(3), of "length \<circ> fst"] by simp
  with ran sync_wf [OF wf h] show ?thesis by (auto dest: collect_length)
qed

text \<open>
  C16. A job is resumed only by its owner: a RESUME reply means the reported token was the one of
  the job's ACTIVE lease on this host, the process booted with the host, no abort covers the job,
  and the job was RUNNING under another agent instance or UNKNOWN within the grace of 300 s.
  Afterwards the job is RUNNING under one ACTIVE job lease of this agent instance whose token the
  reply carries, and on a takeover the token of the previous instance is dead.
\<close>

theorem resume_only_owner:
  assumes "lease_wf s" "recovery_entry e p previous_boot now entry s = (Inr a, t)" "ra_action a = RESUME"
  shows "ra_job_id a = ae_job_id entry \<and> resumed p previous_boot now entry a s t"
  using recovery_entry_sound [OF assms(1,2)] assms(3) by (simp add: entry_sound_def)

subsection \<open>At most one worker\<close>

definition taken :: "string \<Rightarrow> nat \<Rightarrow> db \<Rightarrow> bool" where
  \<comment> \<open>the job is not UNKNOWN and its lease, if ACTIVE, belongs to the agent instance\<close>
  "taken agent k s \<longleftrightarrow>
     (\<forall>x. get_job s k = Some x \<longrightarrow> j_status x \<noteq> J_UNKNOWN
        \<and> (\<forall>l\<in>set (leases s). job_lease_on (j_device_id x) k l \<longrightarrow> l_agent_instance_id l = agent))"

lemma taken_step:
  assumes k: "taken agent k s" and st: "recovery_step agent s t"
  shows "taken agent k t"
  unfolding taken_def
proof (intro allI impI)
  fix y assume "get_job t k = Some y"
  with st obtain x where x: "get_job s k = Some x" "j_device_id y = j_device_id x"
    "j_status y = J_UNKNOWN \<longrightarrow> j_status x = J_UNKNOWN"
    by (auto simp: recovery_step_def jobs_kept_def)
  have "l_agent_instance_id l = agent" if "l \<in> set (leases t)" "job_lease_on (j_device_id x) k l" for l
  proof -
    from that st have "l \<in> set (leases s) \<or> l_agent_instance_id l = agent"
      by (simp add: recovery_step_def grants_def job_lease_on_def)
    with k x that(2) show ?thesis by (auto simp: taken_def)
  qed
  with k x show "j_status y \<noteq> J_UNKNOWN
      \<and> (\<forall>l\<in>set (leases t). job_lease_on (j_device_id y) k l \<longrightarrow> l_agent_instance_id l = agent)"
    by (auto simp: taken_def)
qed

lemma taken_upd_host [simp]: "taken agent k (upd_host h f s) = taken agent k s"
  by (simp add: taken_def get_job_def upd_host_def)

lemma resumed_taken:
  assumes "lease_wf t" "resumed p pb now entry a s t"
  shows "taken (ri_agent p) (ae_job_id entry) t"
proof -
  from assms(2) obtain job lease where t: "get_job t (ae_job_id entry) = Some job" "j_status job = J_RUNNING"
    "j_device_id job = ae_device_id entry" "get_active_lease t (ae_device_id entry) = Some lease"
    "l_agent_instance_id lease = ri_agent p" unfolding resumed_def by blast
  have "l = lease" if "l \<in> set (leases t)" "job_lease_on (ae_device_id entry) k l" for l k
    using lease_wf_get_active [OF assms(1) that(1) job_lease_active [OF that(2)]] t(4) by simp
  with t show ?thesis by (auto simp: taken_def)
qed

lemma resumed_not_taken:
  assumes "resumed p pb now entry a s t"
  shows "\<not> taken (ri_agent p) (ae_job_id entry) s"
proof
  assume k: "taken (ri_agent p) (ae_job_id entry) s"
  from assms obtain job lease where r: "get_job s (ae_job_id entry) = Some job"
    "get_job_lease s (ae_device_id entry) (ae_job_id entry) = Some lease"
    "j_device_id job = ae_device_id entry"
    "l_agent_instance_id lease \<noteq> ri_agent p \<or> j_status job = J_UNKNOWN"
    unfolding resumed_def by blast
  from get_job_lease_Some [OF r(2)] k r show False by (auto simp: taken_def)
qed

definition resumed_ids :: "recovery_action list \<Rightarrow> nat list" where
  "resumed_ids as = map ra_job_id (filter (\<lambda>a. ra_action a = RESUME) as)"

lemma resumed_ids_simps [simp]:
  "resumed_ids [] = []"
  "resumed_ids (a # as) = (if ra_action a = RESUME then ra_job_id a # resumed_ids as else resumed_ids as)"
  by (simp_all add: resumed_ids_def)

lemma batch_resumes_once:
  assumes "run_batch (recovery_entry e p pb now) xs s = (rs, t)" "lease_wf s" "collect_replies rs = Inr as"
  shows "distinct (resumed_ids as) \<and> (\<forall>k\<in>set (resumed_ids as). \<not> taken (ri_agent p) k s \<and> taken (ri_agent p) k t)"
  using assms
proof (induction xs arbitrary: s rs as)
  case Nil
  then show ?case by simp
next
  case (Cons x xs)
  obtain r s1 where r: "recovery_entry e p pb now x s = (r, s1)" by (cases "recovery_entry e p pb now x s")
  obtain rs1 t1 where b: "run_batch (recovery_entry e p pb now) xs s1 = (rs1, t1)"
    by (cases "run_batch (recovery_entry e p pb now) xs s1")
  from Cons.prems(1) r b have rs: "rs = r # rs1" "t1 = t" by simp_all
  from Cons.prems(3) rs(1) obtain a as1 where a: "r = Inr a" "collect_replies rs1 = Inr as1" "as = a # as1"
    by (cases r) (auto split: sum.splits)
  note snd = recovery_entry_sound [OF Cons.prems(2) r]
  then have wf1: "lease_wf s1" and st1: "recovery_step (ri_agent p) s s1" by (simp_all add: entry_sound_def)
  from b rs(2) have b': "run_batch (recovery_entry e p pb now) xs s1 = (rs1, t)" by simp
  note ih = Cons.IH [OF b' wf1 a(2)]
  have stt: "recovery_step (ri_agent p) s1 t"
    using recovery.batch_rel [OF wf1, where e = e and p = p and pb = pb and now = now and xs = xs] b' by simp
  have old: "\<not> taken (ri_agent p) k s" if "k \<in> set (resumed_ids as1)" for k
    using ih that taken_step [OF _ st1] by blast
  show ?case
  proof (cases "ra_action a = RESUME")
    case False
    with ih old a(3) show ?thesis by simp
  next
    case True
    from snd a(1) True have re: "ra_job_id a = ae_job_id x" "resumed p pb now x a s s1"
      by (simp_all add: entry_sound_def)
    from resumed_taken [OF wf1 re(2)] have k: "taken (ri_agent p) (ra_job_id a) s1" using re(1) by simp
    with ih have "ra_job_id a \<notin> set (resumed_ids as1)" by blast
    with ih old a(3) True taken_step [OF k stt] resumed_not_taken [OF re(2)] re(1) show ?thesis by simp
  qed
qed

lemma sync_resumes_once:
  assumes wf: "lease_wf s" and h: "sync_agent_recovery e p now s = (Inr (as, ob), t)"
  shows "distinct (resumed_ids as) \<and> (\<forall>k\<in>set (resumed_ids as). \<not> taken (ri_agent p) k s \<and> taken (ri_agent p) k t)"
  using h
proof (cases rule: sync_run)
  case early
  then have "resumed_ids as = []" by (simp add: resumed_ids_def filter_empty_conv)
  then show ?thesis by simp
next
  case (ran host rs actions)
  with batch_resumes_once [OF ran(3) _ ran(4)] wf show ?thesis by simp
qed

text \<open>
  C36. No second worker: within one recovery request no job is resumed twice, and a further request
  of the same agent instance resumes none of the jobs it was already told to resume.
\<close>

theorem no_second_worker:
  assumes wf: "lease_wf s"
    and first: "sync_agent_recovery e p now s = (Inr (as, ob), t)"
    and again: "sync_agent_recovery e q later t = (Inr (bs, oc), u)" and same: "ri_agent q = ri_agent p"
  shows "distinct (resumed_ids as @ resumed_ids bs)"
proof -
  have wft: "lease_wf t" by (rule sync_wf [OF wf first])
  from sync_resumes_once [OF wf first] sync_resumes_once [OF wft again] same show ?thesis by auto
qed

subsection \<open>A concrete takeover\<close>

definition claimed_db :: db where
  \<comment> \<open>job 7 was claimed by instance a1; the host has booted as b1\<close>
  "claimed_db = upd_host ''h1'' (\<lambda>h. h\<lparr>h_boot_id := ''b1''\<rparr>)
     (snd (claim_jobs_for_host ''h1'' 4 ''a1'' [] 100 claim_db))"

definition takeover :: recovery_in where
  "takeover = \<lparr>ri_host_id = ''h1'', ri_agent = ''a2'', ri_boot_id = ''b1'',
     ri_active = [\<lparr>ae_job_id = 7, ae_device_id = 5, ae_device_serial = None, ae_fencing_token = ''5:1''\<rparr>],
     ri_outbox = [\<lparr>oe_job_id = 7, oe_event_type = ''RUN_COMPLETED''\<rparr>]\<rparr>"

lemma claimed_db_wf: "lease_wf claimed_db"
  by code_simp

lemma recovery_keeps_fencing_witness:
  "\<exists>actions outbox t. sync_agent_recovery default_env takeover 110 claimed_db = (Inr (actions, outbox), t)
     \<and> lease_wf t \<and> fence_step claimed_db t \<and> length actions = 1 \<and> length outbox = 1"
proof -
  let ?r = "sync_agent_recovery default_env takeover 110 claimed_db"
  have "case fst ?r of Inl e \<Rightarrow> False | Inr x \<Rightarrow> True" by code_simp
  then obtain actions outbox t where r: "?r = (Inr (actions, outbox), t)"
    by (cases ?r) (auto split: sum.splits)
  from recovery_keeps_fencing [OF claimed_db_wf r] r show ?thesis by (simp add: takeover_def)
qed

lemma resume_only_owner_witness:
  "\<exists>a t. recovery_entry default_env takeover ''b1'' 110 (hd (ri_active takeover)) claimed_db = (Inr a, t)
     \<and> ra_fencing_token a = ''5:2'' \<and> ra_job_id a = 7
     \<and> resumed takeover ''b1'' 110 (hd (ri_active takeover)) a claimed_db t"
proof -
  let ?r = "recovery_entry default_env takeover ''b1'' 110 (hd (ri_active takeover)) claimed_db"
  have "case fst ?r of Inl e \<Rightarrow> False | Inr a \<Rightarrow> ra_action a = RESUME \<and> ra_fencing_token a = ''5:2''"
    by code_simp
  then obtain a t where r: "?r = (Inr a, t)" "ra_action a = RESUME" "ra_fencing_token a = ''5:2''"
    by (cases ?r) (auto split: sum.splits)
  from resume_only_owner [OF claimed_db_wf r(1,2)] r show ?thesis by (simp add: takeover_def)
qed

lemma no_second_worker_witness:
  "\<exists>as ob t bs oc u. sync_agent_recovery default_env takeover 110 claimed_db = (Inr (as, ob), t)
     \<and> sync_agent_recovery default_env takeover 120 t = (Inr (bs, oc), u)
     \<and> resumed_ids as = [7] \<and> distinct (resumed_ids as @ resumed_ids bs)"
proof -
  let ?r = "sync_agent_recovery default_env takeover 110 claimed_db"
  let ?q = "sync_agent_recovery default_env takeover 120 (snd ?r)"
  have "(case fst ?r of Inl e \<Rightarrow> False | Inr (as, ob) \<Rightarrow> resumed_ids as = [7])
      \<and> (case fst ?q of Inl e \<Rightarrow> False | Inr x \<Rightarrow> True)" by code_simp
  then obtain as ob t bs oc u where r: "?r = (Inr (as, ob), t)" "resumed_ids as = [7]"
    "sync_agent_recovery default_env takeover 120 t = (Inr (bs, oc), u)"
    by (cases ?r; cases ?q) (auto split: sum.splits)
  from no_second_worker [OF claimed_db_wf r(1,3)] r show ?thesis by blast
qed

end
