(* ===== verification/Agent_Completion.thy ===== *)
theory Agent_Completion
  imports Agent_Recovery "HOL-Library.Product_Lexorder"
begin

section \<open>Completing a job (services/agent\_completion.py)\<close>

text \<open>
  \<open>/jobs/{job_id}/complete\<close>: the terminal report of an agent.  A first report needs the live
  lease token, or restores an UNKNOWN job within its grace; a repeated report is read-only and
  recognised by the digest of the payload that was accepted.  An exception before a commit leaves
  the database as it was; the conflicts of a repeated report are raised after the commit of their
  audit row.  A value that is not text in a text column makes the flush raise
  (\<open>CompletionDataError\<close>).  Digests are hexadecimal, so comparing them never raises.
\<close>

datatype complete_error =
    CompletionJobNotFound
  | InvalidTerminalStatus string
  | StaleCompletionToken job_status
  | TerminalPayloadConflict job_status
  | InvalidOrExpiredToken job_status
  | InvalidJobTransition job_status job_status
  | CompletionTypeError
  | CompletionDataError

record run_complete_in =
  rc_update :: jobj
  rc_artifact :: "jobj option"
  rc_watcher_summary :: "jobj option"
  rc_disarm_results :: "jobj option"
  rc_fencing_token :: string

datatype complete_answer = CompletedNow job_status | IdempotentReplay job_status | LateConfirmed job_status late_answer

subsection \<open>JSON text without ASCII escapes\<close>

definition raw_escape :: "char \<Rightarrow> string" where
  \<comment> \<open>\<open>ensure_ascii=False\<close>: only quotes, backslashes and control characters are escaped\<close>
  "raw_escape c = (let n = (of_char c :: nat) in
     if n < 32 \<or> n = 34 \<or> n = 92 then json_escape n else [c])"

definition raw_text :: "string \<Rightarrow> string" where
  "raw_text s = [CHR 0x22] @ concat (map raw_escape s) @ [CHR 0x22]"

fun canonical_json :: "json \<Rightarrow> string" where
  \<comment> \<open>\<open>json.dumps(x, ensure_ascii=False, sort_keys=True, separators=(",", ":"))\<close>\<close>
  "canonical_json JNull = ''null''"
| "canonical_json (JBool b) = (if b then ''true'' else ''false'')"
| "canonical_json (JInt i) = dec_int i"
| "canonical_json (JStr s) = raw_text s"
| "canonical_json (JTime t) = raw_text (isoformat t)"
| "canonical_json (JList xs) = ''['' @ join '','' (map canonical_json xs) @ '']''"
| "canonical_json (JObj kvs) =
     CHR 0x7B # join '','' (map (\<lambda>kv. raw_text (fst kv) @ '':'' @ snd kv)
       (sort_key fst (map (\<lambda>kv. (fst kv, canonical_json (snd kv))) kvs))) @ [CHR 0x7D]"

definition json_of_obj :: "jobj option \<Rightarrow> json" where
  "json_of_obj x = (case x of None \<Rightarrow> JNull | Some kvs \<Rightarrow> JObj kvs)"

definition completion_fact :: "run_complete_in \<Rightarrow> json" where
  "completion_fact p = JObj [(''update'', JObj (rc_update p)), (''artifact'', json_of_obj (rc_artifact p)),
     (''watcher_summary'', json_of_obj (rc_watcher_summary p)),
     (''disarm_results'', json_of_obj (rc_disarm_results p))]"

definition completion_snapshot :: "run_complete_in \<Rightarrow> json" where
  "completion_snapshot p =
     JObj [(''update'', JObj (rc_update p)), (''artifact'', json_of_obj (rc_artifact p))]"

definition payload_digest :: "env \<Rightarrow> run_complete_in \<Rightarrow> string" where
  "payload_digest e p = e_sha256 e (canonical_json (completion_fact p))"

subsection \<open>The requested status\<close>

definition RUN_TO_JOB :: "(string \<times> job_status) list" where
  "RUN_TO_JOB = [(''RUNNING'', J_RUNNING), (''FINISHED'', J_COMPLETED), (''COMPLETED'', J_COMPLETED),
     (''FAILED'', J_FAILED), (''CANCELED'', J_ABORTED), (''CANCELLED'', J_ABORTED),
     (''ABORTED'', J_ABORTED)]"

definition requested_status :: "run_complete_in \<Rightarrow> string" where
  "requested_status p =
     upper (strip (case map_of (rc_update p) ''status'' of None \<Rightarrow> ''FAILED'' | Some v \<Rightarrow> py_str v))"

definition completion_target :: "run_complete_in \<Rightarrow> job_status option" where
  \<comment> \<open>\<open>None\<close>: INVALID\_TERMINAL\_STATUS\<close>
  "completion_target p =
     (case map_of RUN_TO_JOB (requested_status p) of
        None \<Rightarrow> None
      | Some st \<Rightarrow> if st \<in> {J_COMPLETED, J_FAILED, J_ABORTED} then Some st else None)"

subsection \<open>Reported disarm results\<close>

definition reported_entry :: "json \<Rightarrow> jobj option" where
  "reported_entry entry =
     (if is_json_str entry
      then Some [(''result'', entry), (''step_id'', JStr []), (''exit_code'', JNull),
                 (''readback_summary'', JStr [])]
      else (case entry of
        JObj en \<Rightarrow>
          if \<not> (is_json_str (jget en ''result'') \<and> truthy (jget en ''result'')) then None
          else Some ([(''result'', jget en ''result''),
             (''step_id'', JStr (py_str (jor (jget en ''step_id'') (JStr [])))),
             (''exit_code'', jget en ''exit_code''),
             (''readback_summary'', JStr (py_str (jor (jget en ''readback_summary'') (JStr []))))]
             @ (if truthy (jget en ''reason'') then [(''reason'', jget en ''reason'')] else [])
             @ (if is_obj (jget en ''evidence'') then [(''evidence'', jget en ''evidence'')] else []))
      | _ \<Rightarrow> None))"

definition normalize_reported_results :: "jobj option \<Rightarrow> (string \<times> jobj) list" where
  \<comment> \<open>\<open>None\<close> of the code reads as no results: the caller takes \<open>reported or {}\<close>\<close>
  "normalize_reported_results raw =
     (case raw of None \<Rightarrow> []
      | Some kvs \<Rightarrow> List.map_filter (\<lambda>(f, entry). if f = [] then None
          else map_option (\<lambda>en. (f, en)) (reported_entry entry)) kvs)"

definition apply_disarm_results :: "(string \<times> jobj) list \<Rightarrow> job_row \<Rightarrow> job_row" where
  "apply_disarm_results results job =
     job\<lparr>j_disarm_results := JObj (map (\<lambda>(f, en). (f, JObj en)) results)\<rparr>"

subsection \<open>Leases and watcher summary\<close>

definition get_valid_runtime_lease :: "db \<Rightarrow> job_row \<Rightarrow> string \<Rightarrow> job_status list \<Rightarrow> time \<Rightarrow> lease_row option" where
  \<comment> \<open>an empty list stands for the default \<open>{RUNNING}\<close>\<close>
  "get_valid_runtime_lease s job token allowed now =
     (case get_job_lease s (j_device_id job) (j_id job) of
        None \<Rightarrow> None
      | Some lease \<Rightarrow>
          if l_fencing_token lease \<noteq> token then None
          else if l_expires_at lease \<le> now then None
          else if j_status job \<notin> set (if allowed = [] then [J_RUNNING] else allowed) then None
          else Some lease)"

fun utf8_take :: "nat \<Rightarrow> string \<Rightarrow> string" where
  \<comment> \<open>\<open>s[:n]\<close>: continuation bytes do not count\<close>
  "utf8_take n [] = []"
| "utf8_take n (c # cs) =
     (if 128 \<le> (of_char c :: nat) \<and> (of_char c :: nat) < 192 then c # utf8_take n cs
      else (case n of 0 \<Rightarrow> [] | Suc m \<Rightarrow> c # utf8_take m cs))"

definition json_time :: "json \<Rightarrow> time option" where
  "json_time x = (case x of JTime t \<Rightarrow> Some t | _ \<Rightarrow> None)"

definition apply_watcher_summary :: "jobj \<Rightarrow> job_row \<Rightarrow> job_row" where
  "apply_watcher_summary summary job =
     (let j1 = (case json_time (jget summary ''watcher_started_at'') of
                  None \<Rightarrow> job | Some t \<Rightarrow> job\<lparr>j_watcher_started_at := Some t\<rparr>);
          j2 = (case json_time (jget summary ''watcher_stopped_at'') of
                  None \<Rightarrow> j1 | Some t \<Rightarrow> j1\<lparr>j_watcher_stopped_at := Some t\<rparr>);
          j3 = (if truthy (jget summary ''watcher_capability'')
                then j2\<lparr>j_watcher_capability := Some (utf8_take 32 (py_str (jget summary ''watcher_capability'')))\<rparr>
                else j2)
      in case json_num (jget summary ''log_signal_count'') of
           None \<Rightarrow> j3
         | Some c \<Rightarrow> if c > j_log_signal_count j3 then j3\<lparr>j_log_signal_count := c\<rparr> else j3)"

subsection \<open>A repeated report\<close>

definition historical_lease :: "db \<Rightarrow> job_row \<Rightarrow> lease_row option" where
  \<comment> \<open>the newest JOB lease row of the job, whatever its status\<close>
  "historical_lease s job =
     first_row (rev (sort_key l_id (filter (\<lambda>l. l_device_id l = j_device_id job
        \<and> l_job_id l = Some (j_id job) \<and> l_type l = LT_JOB) (leases s))))"

definition run_complete_trace :: "db \<Rightarrow> nat \<Rightarrow> trace_row option" where
  "run_complete_trace s job_id =
     first_row (filter (\<lambda>t. t_job_id t = job_id \<and> t_step_id t = ''__job__''
        \<and> t_event_type t = ''RUN_COMPLETE'') (traces s))"

definition legacy_digests :: "env \<Rightarrow> run_complete_in \<Rightarrow> nat \<Rightarrow> db \<Rightarrow> string option \<times> string" where
  \<comment> \<open>for jobs completed before digests were stored: expected and replayed digest\<close>
  "legacy_digests e p job_id s =
     (case run_complete_trace s job_id of
        None \<Rightarrow> (None, [])
      | Some t \<Rightarrow>
          (case t_output t of
             JsonOutput doc \<Rightarrow> (Some (e_sha256 e (canonical_json doc)),
                                 e_sha256 e (canonical_json (completion_snapshot p)))
           | _ \<Rightarrow> (None, [])))"

definition late_ok :: "(string + late_answer) option \<Rightarrow> late_answer option" where
  "late_ok late = (case late of Some (Inr ans) \<Rightarrow> Some ans | _ \<Rightarrow> None)"

definition audit_job :: "string \<Rightarrow> job_row \<Rightarrow> jobj \<Rightarrow> db \<Rightarrow> db" where
  "audit_job action job details s =
     add_audit action ''job_instance'' (dec (j_id job)) ''agent''
       (JObj ((''plan_run_id'', JInt (int (j_plan_run_id job))) # details)) s"

definition stale_report ::
  "env \<Rightarrow> run_complete_in \<Rightarrow> job_row \<Rightarrow> time \<Rightarrow> db \<Rightarrow> (complete_error + complete_answer) \<times> db" where
  "stale_report e p job now s =
     (let (late, s1) = try_apply_late_confirmed e (j_device_id job) (j_id job) (rc_fencing_token p)
            (json_of_obj (rc_disarm_results p)) now s
      in case late_ok late of
           Some ans \<Rightarrow>
             (Inr (LateConfirmed (j_status job) ans),
              audit_job ''job_late_confirmed_debt_closed'' job
                [(''current_status'', JStr (job_status_text (j_status job))),
                 (''closed_count'', JInt (int (la_closed_count ans))),
                 (''debt_lease_released'', JBool (la_debt_lease_released ans)),
                 (''open_debt_count'', JInt (int (la_open_debt_count ans)))] s1)
         | None \<Rightarrow>
             (Inl (StaleCompletionToken (j_status job)),
              audit_job ''stale_job_completion_rejected'' job
                [(''current_status'', JStr (job_status_text (j_status job))),
                 (''reason'', JStr ''historical_fencing_token_mismatch'')] s1))"

definition replayed_report ::
  "env \<Rightarrow> run_complete_in \<Rightarrow> job_row \<Rightarrow> time \<Rightarrow> db \<Rightarrow> (complete_error + complete_answer) \<times> db" where
  "replayed_report e p job now s =
     (let hist = historical_lease s job; digest = payload_digest e p in
      if hist = None \<and> (case j_terminal_payload_digest job of
                          None \<Rightarrow> False | Some d \<Rightarrow> d \<noteq> [] \<and> d = digest)
      then (Inr (IdempotentReplay (j_status job)), s)
      else if (case hist of None \<Rightarrow> True | Some l \<Rightarrow> l_fencing_token l \<noteq> rc_fencing_token p)
      then stale_report e p job now s
      else
        (let (expected, replay) =
               (case j_terminal_payload_digest job of
                  None \<Rightarrow> legacy_digests e p (j_id job) s
                | Some d \<Rightarrow> (Some d, digest))
         in if (case expected of None \<Rightarrow> True | Some d \<Rightarrow> d = [] \<or> d \<noteq> replay)
            then (Inl (TerminalPayloadConflict (j_status job)),
                  audit_job ''terminal_payload_conflict'' job
                    [(''current_status'', JStr (job_status_text (j_status job))),
                     (''expected_digest'', json_of_opt expected),
                     (''received_digest'', JStr (if replay \<noteq> [] then replay else digest))] s)
            else (Inr (IdempotentReplay (j_status job)), s)))"

subsection \<open>A first report\<close>

definition late_recovery ::
  "env \<Rightarrow> run_complete_in \<Rightarrow> job_row \<Rightarrow> time \<Rightarrow> db \<Rightarrow> complete_error + (job_row \<times> lease_row option \<times> db)" where
  \<comment> \<open>an UNKNOWN job within its grace is restored to RUNNING by the holder of its lease\<close>
  "late_recovery e p job now s =
     (if j_status job \<noteq> J_UNKNOWN then Inr (job, None, s)
      else
        (case get_job_lease s (j_device_id job) (j_id job) of
           None \<Rightarrow> Inr (job, None, s)
         | Some cand \<Rightarrow>
             (case compare_digest (l_fencing_token cand) (rc_fencing_token p) of
                Inl err \<Rightarrow> Inl CompletionTypeError
              | Inr False \<Rightarrow> Inr (job, None, s)
              | Inr True \<Rightarrow>
                  (case resume_expired_lease_for_recovery e cand job (l_agent_instance_id cand) now 300 s of
                     (None, s1) \<Rightarrow> Inr (job, None, s1)
                   | (Some lease, s1) \<Rightarrow>
                       (case job_transition job J_RUNNING ''late_completion_recovery'' now of
                          Inl err \<Rightarrow> Inl (InvalidJobTransition (j_status job) J_RUNNING)
                        | Inr job1 \<Rightarrow>
                            Inr (job1, Some lease, upd_job (j_id job) (\<lambda>j. job1) s1))))))"

definition error_text :: "run_complete_in \<Rightarrow> string option" where
  \<comment> \<open>\<open>update.get("error_message") or ""\<close>; \<open>None\<close>: not text\<close>
  "error_text p =
     (let m = jget (rc_update p) ''error_message'' in
      if \<not> truthy m then Some [] else if is_json_str m then Some (py_str m) else None)"

definition complete_trace :: "run_complete_in \<Rightarrow> job_row \<Rightarrow> string \<Rightarrow> time \<Rightarrow> db \<Rightarrow> db" where
  \<comment> \<open>the one-time snapshot of the completion\<close>
  "complete_trace p job digest now s =
     (if run_complete_trace s (j_id job) \<noteq> None then s
      else s\<lparr>traces := traces s @ [\<lparr>t_id = next_trace_id s, t_job_id = j_id job, t_step_id = ''__job__'',
          t_stage = ''post_process'', t_status = job_status_text (j_status job),
          t_event_type = ''RUN_COMPLETE'', t_output = JsonOutput (completion_snapshot p),
          t_error_message = jget (rc_update p) ''error_message'', t_exit_code = None, t_metadata = JNull,
          t_trace_event_id = ''terminal:'' @ dec (j_id job) @ '':'' @ digest,
          t_original_ts = Some now, t_created_at = now\<rparr>],
        next_trace_id := next_trace_id s + 1\<rparr>)"

definition trace_order :: "trace_row \<Rightarrow> bool \<times> time \<times> nat" where
  \<comment> \<open>ORDER BY original\_ts ASC NULLS LAST, id ASC\<close>
  "trace_order t = (case t_original_ts t of None \<Rightarrow> (True, 0, t_id t) | Some ts \<Rightarrow> (False, ts, t_id t))"

definition job_traces :: "db \<Rightarrow> nat \<Rightarrow> trace_row list" where
  "job_traces s job_id = sort_key trace_order (filter (\<lambda>t. t_job_id t = job_id) (traces s))"

definition settle_completion :: "job_status \<Rightarrow> job_row \<Rightarrow> string \<Rightarrow> time \<Rightarrow> db \<Rightarrow> db" where
  \<comment> \<open>the block under \<open>if job.status in _TERMINAL\<close>: lease, audit, terminal mark\<close>
  "settle_completion from job digest now s =
     (let (out, s1) = handle_job_lease_release (j_device_id job) (j_id job) (Some job) now s
      in snd (on_job_terminal job (audit_job ''job_terminalized'' job
           [(''from_status'', JStr (job_status_text from)),
            (''to_status'', JStr (job_status_text (j_status job))),
            (''payload_digest'', JStr digest),
            (''lease_released'', JBool (lo_released out)),
            (''lease_converted_to_debt'', JBool (lo_converted_to_debt out)),
            (''open_debt_count'', JInt (int (lo_open_debt_count out)))] s1)))"

definition finish_completion ::
  "env \<Rightarrow> run_complete_in \<Rightarrow> job_status \<Rightarrow> job_row \<Rightarrow> string \<Rightarrow> time \<Rightarrow> db
   \<Rightarrow> (complete_error + complete_answer) \<times> db" where
  \<comment> \<open>everything after the transition; \<open>job\<close> is the row with the new status\<close>
  "finish_completion e p from job digest now s =
     (let s1 = complete_trace p job digest now (upd_job (j_id job) (\<lambda>j. job) s);
          j1 = job\<lparr>j_ended_at := Some now, j_terminal_payload_digest := Some digest\<rparr>;
          j2 = (case rc_watcher_summary p of
                  None \<Rightarrow> j1 | Some w \<Rightarrow> if w = [] then j1 else apply_watcher_summary w j1);
          derived = derive_disarm_results_from_traces (j_pipeline_def job) (job_traces s1 (j_id job))
      in case verify_job_results e j2 (normalize_reported_results (rc_disarm_results p)) derived True s1 of
           None \<Rightarrow> (Inl CompletionDataError, s)
         | Some (results, s2) \<Rightarrow>
             (let j3 = (if results = [] then j2 else apply_disarm_results results j2)
              in (Inr (CompletedNow (j_status j3)),
                  settle_completion from j3 digest now (upd_job (j_id job) (\<lambda>j. j3) s2))))"

definition first_report ::
  "env \<Rightarrow> run_complete_in \<Rightarrow> job_status \<Rightarrow> job_row \<Rightarrow> time \<Rightarrow> db \<Rightarrow> (complete_error + complete_answer) \<times> db" where
  "first_report e p target job now s =
     (case late_recovery e p job now s of
        Inl err \<Rightarrow> (Inl err, s)
      | Inr (job1, restored, s1) \<Rightarrow>
          (case (case restored of Some l \<Rightarrow> Some l
                 | None \<Rightarrow> get_valid_runtime_lease s1 job1 (rc_fencing_token p) [] now) of
             None \<Rightarrow> (Inl (InvalidOrExpiredToken (j_status job)), s)
           | Some lease \<Rightarrow>
               (case error_text p of
                  None \<Rightarrow> (Inl CompletionDataError, s)
                | Some reason \<Rightarrow>
                    (case job_transition job1 target reason now of
                       Inl err \<Rightarrow> (Inl (InvalidJobTransition (j_status job1) target), s)
                     | Inr job2 \<Rightarrow>
                         (case finish_completion e p (j_status job1) job2 (payload_digest e p) now s1 of
                            (Inl err, _) \<Rightarrow> (Inl err, s)
                          | (Inr ans, t) \<Rightarrow> (Inr ans, t))))))"

definition complete_agent_job ::
  "env \<Rightarrow> nat \<Rightarrow> run_complete_in \<Rightarrow> time \<Rightarrow> db \<Rightarrow> (complete_error + complete_answer) \<times> db" where
  "complete_agent_job e job_id p now s =
     (case get_job s job_id of
        None \<Rightarrow> (Inl CompletionJobNotFound, s)
      | Some job \<Rightarrow>
          (case completion_target p of
             None \<Rightarrow> (Inl (InvalidTerminalStatus (requested_status p)), s)
           | Some target \<Rightarrow>
               if terminal_status (j_status job) then replayed_report e p job now s
               else first_report e p target job now s))"

subsection \<open>A repeated report writes no job\<close>

lemma jobs_returns_only: "returns_only s t \<Longrightarrow> jobs t = jobs s"
  by (simp add: returns_only_def)

lemma finish_closing_jobs [simp]: "jobs (finish_closing d now s) = jobs s"
proof -
  have "jobs (snd (maybe_release_debt_lease_sync d now s)) = jobs s"
    by (cases rule: maybe_release_cases [of d now s]) (simp_all add: upd_leases_def)
  then show ?thesis
    by (simp add: finish_closing_def Let_def recompute_return_state_from_open_debts_def upd_device_def)
qed

lemma late_entry_keeps:
  assumes "lease_wf s"
  shows "lease_wf (snd (apply_late_confirmed d job token fs now s))
    \<and> fence_step s (snd (apply_late_confirmed d job token fs now s))
    \<and> jobs (snd (apply_late_confirmed d job token fs now s)) = jobs s"
  using assms jobs_returns_only [OF confirming.close_returns]
  by (simp add: late_async_sync late_state closing_facts)

lemma late_verified_audits: "audits_only (snd acc) (snd (fold (late_verified e v job i res) fs acc))"
proof (induction fs arbitrary: acc)
  case (Cons f fs)
  have "audits_only (snd acc) (snd (late_verified e v job i res f acc))"
    by (simp add: late_verified_def split_beta Let_def)
  from audits_only_trans [OF this Cons.IH] show ?case by simp
qed simp

lemma try_late_keeps:
  assumes wf: "lease_wf s"
  shows "lease_wf (snd (try_apply_late_confirmed e d i token dr now s))
    \<and> fence_step s (snd (try_apply_late_confirmed e d i token dr now s))
    \<and> jobs (snd (try_apply_late_confirmed e d i token dr now s)) = jobs s"
proof -
  have a: "lease_wf u \<and> fence_step s u \<and> jobs u = jobs s" if "audits_only s u" for u
    using wf same_leases_wf [of s u] same_leases_fence [of s u] returns_only_same
      audits_only_returns [OF that] jobs_returns_only by blast
  have b: "lease_wf (snd (apply_late_confirmed d i token vs now u))
      \<and> fence_step s (snd (apply_late_confirmed d i token vs now u))
      \<and> jobs (snd (apply_late_confirmed d i token vs now u)) = jobs s" if "audits_only s u" for u vs
    using late_entry_keeps [of u d i token vs now] a [OF that] fence_trans by metis
  have c: "audits_only s (snd (fold (late_verified e v job i res) fs ([], s)))" for v job res fs
    using late_verified_audits [where acc = "([], s)"] by simp
  show ?thesis
    using a [OF c] b [OF c] wf
    by (auto simp: try_apply_late_confirmed_def Let_def split_beta split: option.splits)
qed

lemma add_audit_keeps [simp]:
  "jobs (audit_job a j ds s) = jobs s" "leases (audit_job a j ds s) = leases s"
  "pending_aggregation (audit_job a j ds s) = pending_aggregation s"
  "same_leases s (audit_job a j ds s)"
  by (simp_all add: audit_job_def add_audit_def same_leases_def)

lemma audit_job_wf [simp]: "lease_wf (audit_job a j ds s) = lease_wf s"
  by (rule same_leases_wf) simp

lemma audit_job_fence: "fence_step s t \<Longrightarrow> fence_step s (audit_job a j ds t)"
  by (erule fence_trans, rule same_leases_fence, rule add_audit_keeps(4))

lemma replayed_keeps:
  assumes "lease_wf s"
  shows "lease_wf (snd (replayed_report e p job now s))
    \<and> fence_step s (snd (replayed_report e p job now s))
    \<and> jobs (snd (replayed_report e p job now s)) = jobs s"
  using assms try_late_keeps [OF assms] audit_job_fence [OF fence_refl]
  by (auto simp: replayed_report_def stale_report_def Let_def split_beta audit_job_fence
      split: option.splits if_splits)

subsection \<open>A first report\<close>

lemma handle_kills_token:
  assumes wf: "lease_wf s" and l: "get_job_lease s d j = Some l"
  shows "\<not> live_token (snd (handle_job_lease_release d j job now s)) (l_fencing_token l)"
proof (rule handle_settles [of s d j job now])
  fix s1 assume ro: "returns_only s s1" and h: "handle_job_lease_release_sync d j job now s
     = (if get_device s d = None
        then (\<lparr>lo_released = False, lo_converted_to_debt = False, lo_open_debt_count = 0,
               lo_fencing_token = None\<rparr>, s)
        else settle_lease_sync d j (get_active_lease s1 d) now s1)"
  note sl = returns_only_same [OF ro]
  from lease_device [OF wf job_lease_facts(1) [OF l]] job_lease_facts(3) [OF l]
  obtain v where "get_device s d = Some v" by auto
  moreover have "lease_wf s1" using wf same_leases_wf [OF sl] by simp
  from settle_kills_token [OF this] l same_leases_job_lease [OF sl]
  have "\<not> live_token (snd (settle_lease_sync d j (get_active_lease s1 d) now s1)) (l_fencing_token l)" by simp
  ultimately show ?thesis by (simp add: handle_async_sync h)
qed

lemma late_recovery_facts:
  assumes wf: "lease_wf s" and j: "get_job s (j_id job) = Some job"
    and r: "late_recovery e p job now s = Inr (job1, restored, s1)"
  shows "lease_wf s1 \<and> fence_step s s1 \<and> j_id job1 = j_id job \<and> j_device_id job1 = j_device_id job
    \<and> j_plan_run_id job1 = j_plan_run_id job \<and> get_job s1 (j_id job) = Some job1
    \<and> (case restored of
         None \<Rightarrow> job1 = job \<and> s1 = s
       | Some l \<Rightarrow> j_status job1 = J_RUNNING \<and> j_status job = J_UNKNOWN
           \<and> (\<exists>ended. j_ended_at job = Some ended \<and> now - 300 < ended)
           \<and> (\<exists>l0. get_job_lease s (j_device_id job) (j_id job) = Some l0
                \<and> l_fencing_token l0 = rc_fencing_token p)
           \<and> (\<exists>l1. get_job_lease s1 (j_device_id job) (j_id job) = Some l1
                \<and> l_fencing_token l1 = rc_fencing_token p))"
proof (cases "restored")
  case None
  with r have "job1 = job \<and> s1 = s"
    by (auto simp: late_recovery_def split: if_splits option.splits sum.splits bool.splits prod.splits
        dest: resume_none)
  with None wf j show ?thesis by simp
next
  case (Some l)
  from r Some obtain cand s0 where u: "j_status job = J_UNKNOWN"
    and c: "get_job_lease s (j_device_id job) (j_id job) = Some cand"
    and tok: "compare_digest (l_fencing_token cand) (rc_fencing_token p) = Inr True"
    and re: "resume_expired_lease_for_recovery e cand job (l_agent_instance_id cand) now 300 s = (Some l, s0)"
    and tr: "job_transition job J_RUNNING ''late_completion_recovery'' now = Inr job1"
    and s1: "s1 = upd_job (j_id job) (\<lambda>j. job1) s0"
    by (auto simp: late_recovery_def split: if_splits option.splits sum.splits bool.splits prod.splits)
  note lf = job_lease_facts [OF c]
  note rf = resume_facts [OF wf lf(1,2) re]
  have tok': "l_fencing_token cand = rc_fencing_token p"
    using tok by (simp add: compare_digest_def split: if_splits)
  have jf: "j_id job1 = j_id job" "j_device_id job1 = j_device_id job" "j_status job1 = J_RUNNING"
    "j_plan_run_id job1 = j_plan_run_id job" using job_transition_fields [OF tr] by auto
  have g0: "get_job s0 (j_id job) = Some job" using rf j by (simp add: get_job_def)
  have g1: "get_job s1 (j_id job) = Some job1"
    using get_job_replaced [OF g0 refl jf(1)] by (simp add: s1)
  have wf1: "lease_wf s1" using rf by (simp add: s1)
  have "l \<in> set (leases s1)" "job_lease_on (j_device_id job) (j_id job) l"
    using rf lf by (simp_all add: s1 upd_job_def job_lease_on_def)
  then have "filter (job_lease_on (j_device_id job) (j_id job)) (leases s1) \<noteq> []"
    by (auto simp: filter_empty_conv)
  then obtain l1 where l1: "get_job_lease s1 (j_device_id job) (j_id job) = Some l1"
    by (cases "get_job_lease s1 (j_device_id job) (j_id job)") (auto simp: get_job_lease_def)
  have "l1 = l"
    using lease_wf_active_unique [OF wf1 job_lease_facts(1) [OF l1] \<open>l \<in> set (leases s1)\<close>
        job_lease_active job_lease_active] get_job_lease_Some [OF l1]
      \<open>job_lease_on (j_device_id job) (j_id job) l\<close> by blast
  moreover have "fence_step s s1"
    using rf fence_trans [OF _ same_leases_fence [OF same_leases_upd(2)]] by (simp add: s1 recovery_step_def)
  ultimately show ?thesis using Some u c tok' rf jf g1 wf1 l1 by auto
qed

lemma watcher_summary_fields [simp]:
  "j_id (apply_watcher_summary w j) = j_id j" "j_device_id (apply_watcher_summary w j) = j_device_id j"
  "j_status (apply_watcher_summary w j) = j_status j"
  "j_plan_run_id (apply_watcher_summary w j) = j_plan_run_id j"
  "j_ended_at (apply_watcher_summary w j) = j_ended_at j"
  "j_terminal_payload_digest (apply_watcher_summary w j) = j_terminal_payload_digest j"
  by (simp_all add: apply_watcher_summary_def Let_def split: option.splits)

lemma apply_disarm_results_fields [simp]:
  "j_id (apply_disarm_results r j) = j_id j" "j_device_id (apply_disarm_results r j) = j_device_id j"
  "j_status (apply_disarm_results r j) = j_status j"
  "j_plan_run_id (apply_disarm_results r j) = j_plan_run_id j"
  "j_ended_at (apply_disarm_results r j) = j_ended_at j"
  "j_terminal_payload_digest (apply_disarm_results r j) = j_terminal_payload_digest j"
  by (simp_all add: apply_disarm_results_def)

lemma complete_trace_keeps [simp]:
  "jobs (complete_trace p j dg now s) = jobs s" "leases (complete_trace p j dg now s) = leases s"
  "same_leases s (complete_trace p j dg now s)"
  by (simp_all add: complete_trace_def same_leases_def)

lemma on_job_terminal_marks:
  "terminal_status (j_status j) \<Longrightarrow>
     (j_plan_run_id j, j_id j) \<in> set (pending_aggregation (snd (on_job_terminal j s)))"
  by (auto simp: on_job_terminal_def pending_insert_def)

lemma same_leases_job_upd: "same_leases s t \<Longrightarrow> same_leases s (upd_job k f t)"
  by (rule same_leases_trans [OF _ same_leases_upd(2)])

lemma get_job_upd_self:
  assumes "get_job s k = Some x" "j_id y = k"
  shows "get_job (upd_job k (\<lambda>j. y) s) k = Some y"
  using get_job_replaced [OF assms(1) _ assms(2)] get_job_Some [OF assms(1)] by simp

definition terminal_facts :: "job_row \<Rightarrow> string \<Rightarrow> time \<Rightarrow> job_row \<Rightarrow> bool" where
  \<comment> \<open>what the completion writes into the job row\<close>
  "terminal_facts job digest now job' \<longleftrightarrow>
     j_id job' = j_id job \<and> j_device_id job' = j_device_id job \<and> j_status job' = j_status job
     \<and> j_plan_run_id job' = j_plan_run_id job \<and> j_ended_at job' = Some now
     \<and> j_terminal_payload_digest job' = Some digest"

lemma finish_completion_run:
  assumes wf: "lease_wf s" and g: "get_job s (j_id job) = Some old"
    and f: "finish_completion e p from job digest now s = (Inr ans, t)"
  obtains job' s3 where "terminal_facts job digest now job'" "same_leases s s3"
    "get_job s3 (j_id job) = Some job'" "ans = CompletedNow (j_status job)"
    "t = settle_completion from job' digest now s3"
proof -
  let ?s1 = "complete_trace p job digest now (upd_job (j_id job) (\<lambda>j. job) s)"
  let ?j1 = "job\<lparr>j_ended_at := Some now, j_terminal_payload_digest := Some digest\<rparr>"
  let ?j2 = "case rc_watcher_summary p of None \<Rightarrow> ?j1 | Some w \<Rightarrow> if w = [] then ?j1 else apply_watcher_summary w ?j1"
  let ?derived = "derive_disarm_results_from_traces (j_pipeline_def job) (job_traces ?s1 (j_id job))"
  obtain results s2 where v: "verify_job_results e ?j2 (normalize_reported_results (rc_disarm_results p)) ?derived True ?s1
      = Some (results, s2)"
    using f by (cases "verify_job_results e ?j2 (normalize_reported_results (rc_disarm_results p)) ?derived True ?s1")
       (auto simp: finish_completion_def Let_def)
  let ?j3 = "if results = [] then ?j2 else apply_disarm_results results ?j2"
  let ?s3 = "upd_job (j_id job) (\<lambda>j. ?j3) s2"
  have tf: "terminal_facts job digest now ?j3"
    by (auto simp: terminal_facts_def split: option.splits)
  from v have s2: "s2 = snd (verify_loop e (the (get_device ?s1 (j_device_id ?j2))) ?j2 ?derived True
      (normalize_reported_results (rc_disarm_results p)) ?derived ?s1)"
    by (auto simp: verify_job_results_def split: option.splits)
  have au: "audits_only ?s1 s2" unfolding s2 by (rule audits_only_verify)
  have sl1: "same_leases s ?s1"
    by (rule same_leases_trans [OF same_leases_upd(2) complete_trace_keeps(3)])
  have sl3: "same_leases s ?s3"
    by (rule same_leases_job_upd [OF same_leases_trans [OF sl1 returns_only_same [OF audits_only_returns [OF au]]]])
  have "get_job ?s1 (j_id job) = Some job"
    using get_job_upd_self [OF g refl] by (simp add: get_job_def)
  then have "get_job s2 (j_id job) = Some job"
    using jobs_returns_only [OF audits_only_returns [OF au]] by (simp add: get_job_def)
  from get_job_upd_self [OF this, of ?j3] tf have g3: "get_job ?s3 (j_id job) = Some ?j3"
    by (simp add: terminal_facts_def)
  from f v have "ans = CompletedNow (j_status ?j3)" "t = settle_completion from ?j3 digest now ?s3"
    by (auto simp: finish_completion_def Let_def)
  moreover have "j_status ?j3 = j_status job" using tf by (simp add: terminal_facts_def)
  ultimately show thesis using that [OF tf sl3 g3] by metis
qed

lemma settle_completion_keeps:
  assumes wf: "lease_wf s" and t: "terminal_status (j_status job)"
  shows "lease_wf (settle_completion from job dg now s)" "fence_step s (settle_completion from job dg now s)"
    "jobs (settle_completion from job dg now s) = jobs s"
    "(j_plan_run_id job, j_id job) \<in> set (pending_aggregation (settle_completion from job dg now s))"
    "leases (settle_completion from job dg now s)
      = leases (snd (handle_job_lease_release (j_device_id job) (j_id job) (Some job) now s))"
proof -
  let ?h = "handle_job_lease_release (j_device_id job) (j_id job) (Some job) now s"
  have s: "\<exists>ds. settle_completion from job dg now s
      = snd (on_job_terminal job (audit_job ''job_terminalized'' job ds (snd ?h)))"
    by (auto simp: settle_completion_def split_beta)
  then show "lease_wf (settle_completion from job dg now s)" using handle_async_wf [OF wf] by auto
  have "fence_step s (snd ?h)" using handle_recovery_step [OF wf] by (simp add: recovery_step_def)
  from s audit_job_fence [OF this] show "fence_step s (settle_completion from job dg now s)"
    using fence_trans [OF _ same_leases_fence [OF on_job_terminal_fields(3)]] by metis
  show "jobs (settle_completion from job dg now s) = jobs s"
    "leases (settle_completion from job dg now s) = leases (snd ?h)"
    using s by (auto simp: handle_async_sync handle_jobs)
  show "(j_plan_run_id job, j_id job) \<in> set (pending_aggregation (settle_completion from job dg now s))"
    using s on_job_terminal_marks [OF t] by auto
qed

definition job_row_of :: "nat \<Rightarrow> nat \<Rightarrow> lease_row \<Rightarrow> bool" where
  \<comment> \<open>a JOB lease row of the job, whatever its status\<close>
  "job_row_of d j l \<longleftrightarrow> l_device_id l = d \<and> l_job_id l = Some j \<and> l_type l = LT_JOB"

lemma resume_rows:
  "length (filter (job_row_of d j) (leases (snd (resume_expired_lease_for_recovery e l job agent now g s))))
     \<le> length (filter (job_row_of d j) (leases s))"
  by (auto simp: resume_expired_lease_for_recovery_def Let_def upd_lease_def job_row_of_def
      intro!: length_filter_upd_where split: option.splits)

lemma late_recovery_rows:
  assumes r: "late_recovery e p job now s = Inr (job1, restored, s1)"
  shows "length (filter (job_row_of d j) (leases s1)) \<le> length (filter (job_row_of d j) (leases s))"
proof -
  have "leases s1 = leases s \<or> (\<exists>l. leases s1
      = leases (snd (resume_expired_lease_for_recovery e l job (l_agent_instance_id l) now 300 s)))"
    using r by (auto simp: late_recovery_def upd_job_def
        split: if_splits option.splits sum.splits bool.splits prod.splits) (metis snd_conv)+
  with resume_rows show ?thesis by auto
qed

definition may_complete :: "run_complete_in \<Rightarrow> job_row \<Rightarrow> time \<Rightarrow> db \<Rightarrow> bool" where
  \<comment> \<open>the reporter holds the job's ACTIVE lease, live or within the grace of an UNKNOWN job\<close>
  "may_complete p job now s \<longleftrightarrow>
     (\<exists>l. get_job_lease s (j_device_id job) (j_id job) = Some l \<and> l_fencing_token l = rc_fencing_token p
        \<and> (j_status job = J_RUNNING \<and> now < l_expires_at l
           \<or> j_status job = J_UNKNOWN \<and> (\<exists>ended. j_ended_at job = Some ended \<and> now - 300 < ended)))"

lemma first_report_run:
  assumes wf: "lease_wf s" and j: "get_job s (j_id job) = Some job"
    and f: "first_report e p target job now s = (r, t)"
  obtains (refused) err where "r = Inl err" "t = s"
  | (accepted) job1 job2 s1 l where "may_complete p job now s"
      "lease_wf s1" "fence_step s s1" "get_job s1 (j_id job) = Some job1" "j_status job2 = target"
      "j_id job2 = j_id job" "j_device_id job2 = j_device_id job" "j_plan_run_id job2 = j_plan_run_id job"
      "get_job_lease s1 (j_device_id job) (j_id job) = Some l" "l_fencing_token l = rc_fencing_token p"
      "finish_completion e p (j_status job1) job2 (payload_digest e p) now s1 = (r, t)"
      "\<forall>d i. length (filter (job_row_of d i) (leases s1)) \<le> length (filter (job_row_of d i) (leases s))"
proof (cases "late_recovery e p job now s")
  case (Inl err)
  with f show thesis by (auto simp: first_report_def intro: refused)
next
  case (Inr res)
  obtain job1 restored s1 where res: "res = (job1, restored, s1)" by (cases res)
  note rf = late_recovery_facts [OF wf j Inr [unfolded res]]
  let ?valid = "case restored of Some l \<Rightarrow> Some l
     | None \<Rightarrow> get_valid_runtime_lease s1 job1 (rc_fencing_token p) [] now"
  show thesis
  proof (cases ?valid)
    case None
    with f Inr res show thesis by (auto simp: first_report_def intro: refused)
  next
    case (Some v)
    have tok: "\<exists>l. get_job_lease s1 (j_device_id job) (j_id job) = Some l \<and> l_fencing_token l = rc_fencing_token p"
      and may: "may_complete p job now s"
      using rf Some
      by (auto simp: may_complete_def get_valid_runtime_lease_def split: option.splits if_splits)
    have rows: "\<forall>d i. length (filter (job_row_of d i) (leases s1)) \<le> length (filter (job_row_of d i) (leases s))"
      using late_recovery_rows [OF Inr [unfolded res]] by blast
    show thesis
    proof (cases "error_text p")
      case None
      with f Inr res Some show thesis by (auto simp: first_report_def intro: refused)
    next
      case reason: (Some reason)
      show thesis
      proof (cases "job_transition job1 target reason now")
        case (Inl err)
        with f Inr res Some reason show thesis by (auto simp: first_report_def intro: refused)
      next
        case j2: (Inr job2)
        show thesis
        proof (cases "finish_completion e p (j_status job1) job2 (payload_digest e p) now s1")
          case (Pair r1 t1)
          show thesis
          proof (cases r1)
            case (Inl err)
            with f Inr res Some reason j2 Pair show thesis by (auto simp: first_report_def intro: refused)
          next
            case ok: (Inr ans)
            with f \<open>late_recovery e p job now s = Inr res\<close> res Some reason j2 Pair
            have fin: "finish_completion e p (j_status job1) job2 (payload_digest e p) now s1 = (r, t)"
              by (simp add: first_report_def)
            from tok obtain l where l: "get_job_lease s1 (j_device_id job) (j_id job) = Some l"
              "l_fencing_token l = rc_fencing_token p" by blast
            from rf job_transition_fields [OF j2]
            have q: "lease_wf s1" "fence_step s s1" "get_job s1 (j_id job) = Some job1" "j_status job2 = target"
              "j_id job2 = j_id job" "j_device_id job2 = j_device_id job" "j_plan_run_id job2 = j_plan_run_id job"
              by simp_all
            show thesis by (rule accepted [OF may q l fin rows])
          qed
        qed
      qed
    qed
  qed
qed

lemma completion_target_terminal: "completion_target p = Some st \<Longrightarrow> terminal_status st"
  by (auto simp: completion_target_def split: option.splits if_splits)

lemma first_report_facts:
  assumes wf: "lease_wf s" and j: "get_job s (j_id job) = Some job" and tt: "terminal_status target"
    and f: "first_report e p target job now s = (r, t)"
  shows "lease_wf t \<and> fence_step s t
    \<and> (case r of
         Inl err \<Rightarrow> t = s
       | Inr ans \<Rightarrow> ans = CompletedNow target \<and> may_complete p job now s
           \<and> (\<exists>job'. get_job t (j_id job) = Some job' \<and> j_status job' = target
                \<and> j_ended_at job' = Some now \<and> j_terminal_payload_digest job' = Some (payload_digest e p))
           \<and> (j_plan_run_id job, j_id job) \<in> set (pending_aggregation t)
           \<and> \<not> live_token t (rc_fencing_token p))"
  using wf j f
proof (cases rule: first_report_run)
  case (refused err)
  with wf show ?thesis by simp
next
  case (accepted job1 job2 s1 l)
  show ?thesis
  proof (cases r)
    case (Inl err)
    with f accepted(11) have "t = s"
      by (auto simp: first_report_def split: sum.splits option.splits prod.splits)
    with Inl wf show ?thesis by simp
  next
    case (Inr ans)
    from accepted(4,6) have g: "get_job s1 (j_id job2) = Some job1" by simp
    from finish_completion_run [OF accepted(2) g accepted(11) [unfolded Inr]]
    obtain job' s3 where fin: "terminal_facts job2 (payload_digest e p) now job'" "same_leases s1 s3"
      "get_job s3 (j_id job2) = Some job'" "ans = CompletedNow (j_status job2)"
      "t = settle_completion (j_status job1) job' (payload_digest e p) now s3" by metis
    have wf3: "lease_wf s3" using accepted(2) same_leases_wf [OF fin(2)] by simp
    have jf: "j_id job' = j_id job" "j_device_id job' = j_device_id job" "j_status job' = target"
      "j_plan_run_id job' = j_plan_run_id job" "j_ended_at job' = Some now"
      "j_terminal_payload_digest job' = Some (payload_digest e p)"
      using fin(1) accepted by (simp_all add: terminal_facts_def)
    have tj: "terminal_status (j_status job')" using tt jf by simp
    note k = settle_completion_keeps [OF wf3 tj, of "j_status job1" "payload_digest e p" now]
    have "get_job_lease s3 (j_device_id job') (j_id job') = Some l"
      using accepted(9) same_leases_job_lease [OF fin(2)] jf by simp
    from handle_kills_token [OF wf3 this] accepted(10)
    have "\<not> live_token t (rc_fencing_token p)"
      using k(5) by (simp add: fin(5) live_token_def)
    moreover have "fence_step s t"
      using fence_trans [OF fence_trans [OF accepted(3) same_leases_fence [OF fin(2)]] k(2)] fin(5) by simp
    moreover have "get_job t (j_id job) = Some job'"
      using fin(3,5) k(3) accepted(6) by (simp add: get_job_def)
    ultimately show ?thesis
      using Inr fin(4,5) k(1,4) jf accepted(1,5) by auto
  qed
qed

text \<open>
  C5. Completing a job takes its token: a report about a job that is not terminal is accepted only
  from the holder of the job's ACTIVE lease, live or within the grace of an UNKNOWN job; then the
  job has the requested terminal status and the digest of the payload, its plan run is marked for
  aggregation, and the token is dead.  Otherwise nothing is written.  A report about a terminal job
  never changes any job.  The lease invariant and the fencing order hold in every case.
\<close>

theorem completion_takes_token:
  assumes wf: "lease_wf s" and j: "get_job s job_id = Some job"
    and c: "complete_agent_job e job_id p now s = (r, t)"
  shows "lease_wf t \<and> fence_step s t
    \<and> (if terminal_status (j_status job) then jobs t = jobs s
       else case r of
         Inl err \<Rightarrow> t = s
       | Inr ans \<Rightarrow> completion_target p = Some (case ans of CompletedNow st \<Rightarrow> st | _ \<Rightarrow> J_PENDING)
           \<and> may_complete p job now s
           \<and> (\<exists>job'. get_job t job_id = Some job' \<and> ans = CompletedNow (j_status job')
                \<and> j_ended_at job' = Some now \<and> j_terminal_payload_digest job' = Some (payload_digest e p))
           \<and> (j_plan_run_id job, job_id) \<in> set (pending_aggregation t)
           \<and> \<not> live_token t (rc_fencing_token p))"
proof -
  have id: "j_id job = job_id" using get_job_Some [OF j] by simp
  show ?thesis
  proof (cases "completion_target p")
    case None
    with c j wf show ?thesis by (auto simp: complete_agent_job_def)
  next
    case (Some target)
    show ?thesis
    proof (cases "terminal_status (j_status job)")
      case True
      with c j Some have "t = snd (replayed_report e p job now s)" by (simp add: complete_agent_job_def)
      with replayed_keeps [OF wf] True show ?thesis by simp
    next
      case False
      with c j Some have "first_report e p target job now s = (r, t)" by (simp add: complete_agent_job_def)
      from first_report_facts [OF wf _ completion_target_terminal [OF Some] this] j id False Some
      show ?thesis by (auto split: sum.splits)
    qed
  qed
qed

subsection \<open>A repeated report is read-only\<close>

lemma historical_lease_rows:
  "historical_lease s job = first_row (rev (sort_key l_id (filter (job_row_of (j_device_id job) (j_id job)) (leases s))))"
  by (simp add: historical_lease_def job_row_of_def [abs_def])

lemma settle_history:
  assumes wf: "lease_wf s" and l: "get_active_lease s d = Some l" "job_lease_on d j l"
    and one: "filter (job_row_of d j) (leases s) = [l]"
  shows "filter (job_row_of d j) (leases (snd (settle_lease_sync d j (Some l) now s))) = []
    \<or> (\<exists>l'. filter (job_row_of d j) (leases (snd (settle_lease_sync d j (Some l) now s))) = [l']
         \<and> l_fencing_token l' = l_fencing_token l)"
proof (cases "open_debts_sync s d = []")
  case True
  let ?f = "\<lambda>l. l\<lparr>l_status := LS_RELEASED, l_released_at := Some now\<rparr>"
  have "filter (job_row_of d j) (upd_where (job_lease_on d j) ?f (leases s))
      = upd_where (job_lease_on d j) ?f (filter (job_row_of d j) (leases s))"
    by (rule filter_upd_where) (simp add: job_row_of_def)
  with True one show ?thesis
    by (simp add: settle_lease_sync_def release_job_lease_sync_def upd_leases_def upd_where_Cons)
next
  case False
  have l0: "l \<in> set (leases s)" using get_active_lease_Some [OF l(1)] by simp
  have none: "\<not> job_row_of d j x" if x: "x \<in> set (upd_where (\<lambda>y. l_id y = l_id l) f (leases s))"
    and f: "\<And>y. l_job_id (f y) = None" for x f
    using x
  proof (cases rule: in_upd_whereE)
    case 1
    show ?thesis
    proof
      assume "job_row_of d j x"
      with 1(1) have "x \<in> set (filter (job_row_of d j) (leases s))" by simp
      with one 1(2) show False by simp
    qed
  next
    case (2 y)
    with f show ?thesis by (simp add: job_row_of_def)
  qed
  have "\<exists>f. leases (snd (settle_lease_sync d j (Some l) now s)) = upd_where (\<lambda>y. l_id y = l_id l) f (leases s)
      \<and> (\<forall>y. l_job_id (f y) = None)"
    using False l(2)
    by (auto simp: settle_lease_sync_def job_lease_on_def convert_active_job_to_debt_lease_sync_def
        Let_def upd_lease_def bump_generation_def upd_device_def)
  with none have "filter (job_row_of d j) (leases (snd (settle_lease_sync d j (Some l) now s))) = []"
    by (auto simp: filter_empty_conv)
  then show ?thesis by simp
qed

lemma handle_history:
  assumes wf: "lease_wf s" and l: "get_job_lease s d j = Some l"
    and one: "filter (job_row_of d j) (leases s) = [l]"
  shows "filter (job_row_of d j) (leases (snd (handle_job_lease_release d j job now s))) = []
    \<or> (\<exists>l'. filter (job_row_of d j) (leases (snd (handle_job_lease_release d j job now s))) = [l']
         \<and> l_fencing_token l' = l_fencing_token l)"
proof (rule handle_settles [of s d j job now])
  fix s1 assume ro: "returns_only s s1" and h: "handle_job_lease_release_sync d j job now s
     = (if get_device s d = None
        then (\<lparr>lo_released = False, lo_converted_to_debt = False, lo_open_debt_count = 0,
               lo_fencing_token = None\<rparr>, s)
        else settle_lease_sync d j (get_active_lease s1 d) now s1)"
  note sl = returns_only_same [OF ro]
  from get_job_lease_Some [OF l] have on: "l \<in> set (leases s)" "job_lease_on d j l" by auto
  have "get_active_lease s d = Some l" by (rule lease_wf_get_active [OF wf on(1) job_lease_active [OF on(2)]])
  then have act: "get_active_lease s1 d = Some l" using same_leases_active [OF sl] by simp
  have wf1: "lease_wf s1" using wf same_leases_wf [OF sl] by simp
  have one1: "filter (job_row_of d j) (leases s1) = [l]" using one ro by (simp add: returns_only_def)
  from lease_device [OF wf on(1)] job_lease_facts(3) [OF l] obtain v where "get_device s d = Some v" by auto
  with settle_history [OF wf1 act on(2) one1, of now] show ?thesis
    by (simp add: handle_async_sync h act)
qed

lemma replayed_not_now: "fst (replayed_report e p job now s) \<noteq> Inr (CompletedNow st)"
  by (simp add: replayed_report_def stale_report_def Let_def split_beta split: option.splits)

lemma first_report_history:
  assumes wf: "lease_wf s" and j: "get_job s (j_id job) = Some job" and tt: "terminal_status target"
    and f: "first_report e p target job now s = (Inr ans, t)"
    and rows: "length (filter (job_row_of (j_device_id job) (j_id job)) (leases s)) \<le> 1"
  obtains job' where "get_job t (j_id job) = Some job'" "j_status job' = target"
    "j_terminal_payload_digest job' = Some (payload_digest e p)" "j_device_id job' = j_device_id job"
    "case historical_lease t job' of None \<Rightarrow> True | Some l \<Rightarrow> l_fencing_token l = rc_fencing_token p"
  using wf j f
proof (cases rule: first_report_run)
  case (refused err)
  then show ?thesis by simp
next
  case (accepted job1 job2 s1 l)
  from accepted(4,6) have g: "get_job s1 (j_id job2) = Some job1" by simp
  from finish_completion_run [OF accepted(2) g accepted(11)]
  obtain job' s3 where fin: "terminal_facts job2 (payload_digest e p) now job'" "same_leases s1 s3"
    "get_job s3 (j_id job2) = Some job'" "t = settle_completion (j_status job1) job' (payload_digest e p) now s3"
    by metis
  have wf3: "lease_wf s3" using accepted(2) same_leases_wf [OF fin(2)] by simp
  have jf: "j_id job' = j_id job" "j_device_id job' = j_device_id job" "j_status job' = target"
    "j_terminal_payload_digest job' = Some (payload_digest e p)"
    using fin(1) accepted by (simp_all add: terminal_facts_def)
  have tj: "terminal_status (j_status job')" using tt jf by simp
  note k = settle_completion_keeps [OF wf3 tj, of "j_status job1" "payload_digest e p" now]
  let ?P = "job_row_of (j_device_id job') (j_id job')"
  have l3: "get_job_lease s3 (j_device_id job') (j_id job') = Some l"
    using accepted(9) same_leases_job_lease [OF fin(2)] jf by simp
  have "length (filter ?P (leases s3)) \<le> 1"
    using accepted(12) rows fin(2) jf by (auto simp: same_leases_def intro: le_trans)
  moreover have "l \<in> set (filter ?P (leases s3))"
    using job_lease_facts [OF l3] by (simp add: job_row_of_def)
  ultimately have one: "filter ?P (leases s3) = [l]"
    by (cases "filter ?P (leases s3)") auto
  from handle_history [OF wf3 l3 one, of "Some job'" now]
  have "case historical_lease t job' of None \<Rightarrow> True | Some x \<Rightarrow> l_fencing_token x = rc_fencing_token p"
    using accepted(10) k(5) by (auto simp: historical_lease_rows fin(4))
  moreover have "get_job t (j_id job) = Some job'"
    using fin(3,4) k(3) accepted(6) by (simp add: get_job_def)
  ultimately show ?thesis using that [of job'] jf by metis
qed

text \<open>
  C37. Repeating a completion is read-only: after an accepted report, the same report at any later
  time is answered as a replay with the same status and writes nothing, whether the job's lease was
  released or turned into the platform's debt lease.  (SHA-256 digests are never empty; a job has
  at most one JOB lease row on its device.)
\<close>

theorem completion_replay_read_only:
  assumes wf: "lease_wf s" and j: "get_job s job_id = Some job"
    and sha: "\<And>x. e_sha256 e x \<noteq> []"
    and rows: "length (filter (job_row_of (j_device_id job) job_id) (leases s)) \<le> 1"
    and c: "complete_agent_job e job_id p now s = (Inr (CompletedNow st), t)"
  shows "complete_agent_job e job_id p later t = (Inr (IdempotentReplay st), t)"
proof -
  have id: "j_id job = job_id" using get_job_Some [OF j] by simp
  from c j obtain target where target: "completion_target p = Some target"
    by (auto simp: complete_agent_job_def split: option.splits)
  have nt: "\<not> terminal_status (j_status job)"
    using c j target replayed_not_now [of e p job now s st] by (auto simp: complete_agent_job_def)
  with c j target have f: "first_report e p target job now s = (Inr (CompletedNow st), t)"
    by (simp add: complete_agent_job_def)
  note tt = completion_target_terminal [OF target]
  have j': "get_job s (j_id job) = Some job" using j id by simp
  have rows': "length (filter (job_row_of (j_device_id job) (j_id job)) (leases s)) \<le> 1"
    using rows id by simp
  from first_report_facts [OF wf j' tt f] have st: "st = target" by simp
  from first_report_history [OF wf j' tt f rows'] obtain job' where
    jt: "get_job t job_id = Some job'" "j_status job' = target"
      "j_terminal_payload_digest job' = Some (payload_digest e p)"
    and hist: "case historical_lease t job' of None \<Rightarrow> True | Some l \<Rightarrow> l_fencing_token l = rc_fencing_token p"
    using id by metis
  have "payload_digest e p \<noteq> []" using sha by (simp add: payload_digest_def)
  with jt hist have "replayed_report e p job' later t = (Inr (IdempotentReplay target), t)"
    by (auto simp: replayed_report_def Let_def split: option.splits)
  with jt target tt st show ?thesis by (simp add: complete_agent_job_def)
qed

subsection \<open>A concrete completion\<close>

definition finished_report :: run_complete_in where
  "finished_report = \<lparr>rc_update = [(''status'', JStr ''finished'')], rc_artifact = None,
     rc_watcher_summary = Some [(''log_signal_count'', JInt 3)], rc_disarm_results = None,
     rc_fencing_token = ''5:1''\<rparr>"

lemma claimed_job: "\<exists>job. get_job claimed_db 7 = Some job \<and> j_status job = J_RUNNING \<and> j_device_id job = 5"
proof -
  have "get_job claimed_db 7 \<noteq> None \<and> j_status (the (get_job claimed_db 7)) = J_RUNNING
      \<and> j_device_id (the (get_job claimed_db 7)) = 5" by code_simp
  then show ?thesis by auto
qed

lemma completion_takes_token_witness:
  "\<exists>t. complete_agent_job default_env 7 finished_report 110 claimed_db = (Inr (CompletedNow J_COMPLETED), t)
     \<and> lease_wf t \<and> \<not> live_token t ''5:1''"
proof -
  let ?r = "complete_agent_job default_env 7 finished_report 110 claimed_db"
  from claimed_job obtain job where j: "get_job claimed_db 7 = Some job" "j_status job = J_RUNNING" by blast
  have "fst ?r = Inr (CompletedNow J_COMPLETED)" by code_simp
  then obtain t where r: "?r = (Inr (CompletedNow J_COMPLETED), t)" by (cases ?r) auto
  from completion_takes_token [OF claimed_db_wf j(1) r] j(2) r show ?thesis by (simp add: finished_report_def)
qed

lemma completion_replay_read_only_witness:
  "\<exists>t. complete_agent_job (default_env\<lparr>e_sha256 := (\<lambda>x. CHR ''d'' # x)\<rparr>) 7 finished_report 110 claimed_db
       = (Inr (CompletedNow J_COMPLETED), t)
     \<and> complete_agent_job (default_env\<lparr>e_sha256 := (\<lambda>x. CHR ''d'' # x)\<rparr>) 7 finished_report 200 t
       = (Inr (IdempotentReplay J_COMPLETED), t)"
proof -
  let ?e = "default_env\<lparr>e_sha256 := (\<lambda>x. CHR ''d'' # x)\<rparr>"
  let ?r = "complete_agent_job ?e 7 finished_report 110 claimed_db"
  from claimed_job obtain job where j: "get_job claimed_db 7 = Some job" "j_device_id job = 5" by blast
  have "fst ?r = Inr (CompletedNow J_COMPLETED)" by code_simp
  then obtain t where r: "?r = (Inr (CompletedNow J_COMPLETED), t)" by (cases ?r) auto
  have "length (filter (job_row_of 5 7) (leases claimed_db)) \<le> 1" by code_simp
  with completion_replay_read_only [OF claimed_db_wf j(1) _ _ r, of 200] j(2) r show ?thesis by auto
qed

end
