(* ===== verification/Lease_Renewal.thy ===== *)
theory Lease_Renewal
  imports Agent_Completion
begin

section \<open>Renewing leases (services/agent\_lease\_extend.py, agent\_job\_heartbeat.py)\<close>

text \<open>
  An agent renews the leases of its jobs in one request: a classification reads jobs and leases
  without locks, then the jobs are locked and an UPDATE renews the leases that are still owned.
  What the two reads saw is a parameter of the model: \<open>js\<close> and \<open>ls\<close> are the databases they read,
  \<open>s\<close> the one under the locks, so a theorem for all of them covers every interleaving.  The
  single-job endpoint \<open>extend_lock\<close> works on one database.
\<close>

definition LEASE_EXTEND_BATCH_MAX :: nat where
  \<comment> \<open>the default of \<open>AGENT_LEASE_EXTEND_BATCH_MAX\<close>\<close>
  "LEASE_EXTEND_BATCH_MAX = 200"

definition WAITING_STATES :: "string list" where
  "WAITING_STATES = [''WAITING_EXECUTION_SLOT'', ''PATROL_SLEEP'', ''WAITING_BARRIER'']"

definition VALID_EXECUTION_STATES :: "string list" where
  "VALID_EXECUTION_STATES = [''WAITING_EXECUTION_SLOT'', ''EXECUTING_STEP'', ''PATROL_SLEEP'',
     ''WAITING_BARRIER'', ''EXECUTING_DISARM'']"

definition parse_progress_ts :: "json \<Rightarrow> time option" where
  "parse_progress_ts raw = json_time raw"

record extend_item =
  xi_job_id :: nat
  xi_fencing_token :: string
  xi_execution_state :: "string option"
  xi_progress_marker :: "jobj option"
  xi_disarm_evidence :: "jobj option"

record extend_in =
  xb_host_id :: string
  xb_agent_instance_id :: string
  xb_leases :: "extend_item list"

datatype renew_status = Renewed time | StaleToken | JobNotRunning | LeaseMissing

datatype extend_error = BatchTooLarge nat

subsection \<open>The entries of a request\<close>

definition ordered_job_ids :: "extend_item list \<Rightarrow> nat list" where
  \<comment> \<open>the order of first occurrence\<close>
  "ordered_job_ids items = rev (remdups (rev (map xi_job_id items)))"

definition item_of_job :: "extend_item list \<Rightarrow> nat \<Rightarrow> extend_item option" where
  \<comment> \<open>the last entry of a job wins (\<open>token_by_job\<close>, \<open>item_by_job\<close>)\<close>
  "item_of_job items jid = first_row (filter (\<lambda>it. xi_job_id it = jid) (rev items))"

definition token_of_job :: "extend_item list \<Rightarrow> nat \<Rightarrow> string" where
  "token_of_job items jid =
     (case item_of_job items jid of None \<Rightarrow> [] | Some it \<Rightarrow> xi_fencing_token it)"

definition accepted_state :: "string option \<Rightarrow> string option" where
  "accepted_state reported =
     (case reported of None \<Rightarrow> None
      | Some x \<Rightarrow> if x \<in> set VALID_EXECUTION_STATES then Some x else None)"

definition is_waiting :: "string option \<Rightarrow> bool" where
  "is_waiting st = (case st of None \<Rightarrow> False | Some x \<Rightarrow> x \<in> set WAITING_STATES)"

subsection \<open>Classification\<close>

definition job_running :: "db \<Rightarrow> nat \<Rightarrow> bool" where
  "job_running s jid =
     (case get_job s jid of None \<Rightarrow> False | Some job \<Rightarrow> j_status job = J_RUNNING)"

definition active_job_row :: "nat \<Rightarrow> lease_row \<Rightarrow> bool" where
  "active_job_row jid l \<longleftrightarrow> l_job_id l = Some jid \<and> l_type l = LT_JOB \<and> l_status l = LS_ACTIVE"

definition lease_of_job :: "db \<Rightarrow> nat \<Rightarrow> lease_row option" where
  \<comment> \<open>\<open>lease_by_job\<close>: the last row of a job stays in the dictionary\<close>
  "lease_of_job s jid = first_row (rev (filter (active_job_row jid) (leases s)))"

definition preliminary :: "extend_in \<Rightarrow> time \<Rightarrow> db \<Rightarrow> db \<Rightarrow> nat \<Rightarrow> renew_status option" where
  \<comment> \<open>\<open>None\<close>: renewable\<close>
  "preliminary p now js ls jid =
     (if \<not> job_running js jid then Some JobNotRunning
      else
        (case lease_of_job ls jid of
           None \<Rightarrow> Some LeaseMissing
         | Some lease \<Rightarrow>
             if l_fencing_token lease \<noteq> token_of_job (xb_leases p) jid then Some StaleToken
             else if l_host_id lease \<noteq> Some (xb_host_id p) then Some StaleToken
             else if xb_agent_instance_id p \<noteq> []
                     \<and> l_agent_instance_id lease \<noteq> xb_agent_instance_id p then Some StaleToken
             else if l_expires_at lease \<le> now then Some LeaseMissing
             else None))"

subsection \<open>The update under the locks\<close>

definition owned_lease :: "(nat \<times> string) list \<Rightarrow> string \<Rightarrow> string \<Rightarrow> time \<Rightarrow> db \<Rightarrow> lease_row \<Rightarrow> bool" where
  "owned_lease pairs host_id agent now s l =
     (case l_job_id l of
        None \<Rightarrow> False
      | Some jid \<Rightarrow>
          (jid, l_fencing_token l) \<in> set pairs \<and> l_type l = LT_JOB \<and> l_status l = LS_ACTIVE
          \<and> l_expires_at l > now \<and> l_host_id l = Some host_id \<and> job_running s jid
          \<and> (agent \<noteq> [] \<longrightarrow> l_agent_instance_id l = agent))"

definition cas_renew_leases ::
  "(nat \<times> string) list \<Rightarrow> string \<Rightarrow> string \<Rightarrow> time \<Rightarrow> time \<Rightarrow> db \<Rightarrow> nat list \<times> db" where
  "cas_renew_leases pairs host_id agent now new_expires s =
     (remdups (List.map_filter l_job_id (filter (owned_lease pairs host_id agent now s) (leases s))),
      upd_leases (owned_lease pairs host_id agent now s)
        (\<lambda>l. l\<lparr>l_renewed_at := now, l_expires_at := new_expires\<rparr>) s)"

definition renewed_job :: "extend_item \<Rightarrow> time \<Rightarrow> job_row \<Rightarrow> job_row" where
  \<comment> \<open>the writes on a renewed job; \<open>updated_at\<close> is pinned to itself\<close>
  "renewed_job it now job =
     (let st = accepted_state (xi_execution_state it);
          j1 = (case st of None \<Rightarrow> job | Some x \<Rightarrow> job\<lparr>j_execution_state := Some x\<rparr>);
          j2 = (if is_waiting st then j1 else j1\<lparr>j_last_execution_heartbeat_at := Some now\<rparr>);
          marker = (case xi_progress_marker it of None \<Rightarrow> [] | Some m \<Rightarrow> m)
      in case parse_progress_ts (jget marker ''last_progress_at'') of
           None \<Rightarrow> j2
         | Some ts \<Rightarrow> if xi_disarm_evidence it = None then j2\<lparr>j_last_progress_at := Some ts\<rparr> else j2)"

definition write_renewed :: "extend_item list \<Rightarrow> nat list \<Rightarrow> time \<Rightarrow> db \<Rightarrow> db" where
  "write_renewed items renewed now s =
     s\<lparr>jobs := upd_where (\<lambda>j. j_id j \<in> set renewed \<and> j_status j = J_RUNNING)
         (\<lambda>j. case item_of_job items (j_id j) of None \<Rightarrow> j | Some it \<Rightarrow> renewed_job it now j) (jobs s)\<rparr>"

definition evidence_step :: "env \<Rightarrow> extend_in \<Rightarrow> time \<Rightarrow> nat \<Rightarrow> db \<Rightarrow> db" where
  "evidence_step e p now jid s =
     (case item_of_job (xb_leases p) jid of
        None \<Rightarrow> s
      | Some it \<Rightarrow>
          (case (xi_disarm_evidence it, get_job s jid) of
             (Some evidence, Some job) \<Rightarrow>
               snd (accept_job_disarm_evidence e job evidence (xb_host_id p) (xb_agent_instance_id p)
                      now False s)
           | _ \<Rightarrow> s))"

definition renewable_ids :: "extend_in \<Rightarrow> time \<Rightarrow> db \<Rightarrow> db \<Rightarrow> db \<Rightarrow> nat list" where
  \<comment> \<open>classified renewable and still RUNNING under the lock\<close>
  "renewable_ids p now js ls s =
     filter (\<lambda>jid. preliminary p now js ls jid = None \<and> job_running s jid)
       (ordered_job_ids (xb_leases p))"

definition renewal_answer ::
  "extend_in \<Rightarrow> time \<Rightarrow> time \<Rightarrow> db \<Rightarrow> db \<Rightarrow> db \<Rightarrow> nat list \<Rightarrow> nat \<Rightarrow> renew_status" where
  "renewal_answer p now new_expires js ls s renewed jid =
     (case preliminary p now js ls jid of
        Some st \<Rightarrow> st
      | None \<Rightarrow> if \<not> job_running s jid then JobNotRunning
                else if jid \<in> set renewed then Renewed new_expires else LeaseMissing)"

definition extend_agent_leases_batch ::
  "env \<Rightarrow> extend_in \<Rightarrow> time \<Rightarrow> db \<Rightarrow> db \<Rightarrow> db \<Rightarrow> extend_error + ((nat \<times> renew_status) list \<times> db)" where
  "extend_agent_leases_batch e p now js ls s =
     (let items = xb_leases p; ids = ordered_job_ids items in
      if items = [] then Inr ([], s)
      else if length items > LEASE_EXTEND_BATCH_MAX then Inl (BatchTooLarge (length items))
      else
        (let new_expires = now + e_device_lock_lease e;
             targets = renewable_ids p now js ls s;
             (renewed, s1) =
               (if targets = [] then ([], s)
                else cas_renew_leases (map (\<lambda>jid. (jid, token_of_job items jid)) targets)
                       (xb_host_id p) (xb_agent_instance_id p) now new_expires s);
             s2 = fold (evidence_step e p now) (sort renewed) (write_renewed items renewed now s1)
         in Inr (map (\<lambda>jid. (jid, renewal_answer p now new_expires js ls s renewed jid)) ids, s2)))"

subsection \<open>The single-job endpoint\<close>

datatype extend_lock_error =
  ExtendJobNotFound | ExtendDeviceNotFound | ExtendInvalidToken | DeviceLockedByAnotherJob

definition extend_agent_job_lock ::
  "env \<Rightarrow> nat \<Rightarrow> string \<Rightarrow> time \<Rightarrow> db \<Rightarrow> extend_lock_error + (time \<times> db)" where
  "extend_agent_job_lock e job_id token now s =
     (case get_job s job_id of
        None \<Rightarrow> Inl ExtendJobNotFound
      | Some job \<Rightarrow>
          (case get_device s (j_device_id job) of
             None \<Rightarrow> Inl ExtendDeviceNotFound
           | Some device \<Rightarrow>
               (case get_valid_runtime_lease s job token [] now of
                  None \<Rightarrow> Inl ExtendInvalidToken
                | Some lease \<Rightarrow>
                    (case extend_lease s (j_device_id job) job_id LT_JOB (e_device_lock_lease e) now of
                       (False, s1) \<Rightarrow> Inl DeviceLockedByAnotherJob
                     | (True, s1) \<Rightarrow>
                         Inr (now + e_device_lock_lease e,
                              upd_job job_id (\<lambda>j. j\<lparr>j_updated_at := now\<rparr>) s1)))))"

subsection \<open>What the batch keeps\<close>

definition job_statuses :: "db \<Rightarrow> (nat \<times> job_status) list" where
  "job_statuses s = map (\<lambda>j. (j_id j, j_status j)) (jobs s)"

lemma job_statuses_upd_where:
  assumes "\<And>j. P j \<Longrightarrow> j_id (f j) = j_id j \<and> j_status (f j) = j_status j"
  shows "job_statuses (s\<lparr>jobs := upd_where P f (jobs s)\<rparr>) = job_statuses s"
  using assms by (simp add: job_statuses_def map_upd_where)

lemma job_statuses_upd_job:
  assumes "\<And>j. j_id (f j) = j_id j \<and> j_status (f j) = j_status j"
  shows "job_statuses (upd_job k f s) = job_statuses s"
  unfolding upd_job_def by (rule job_statuses_upd_where) (rule assms)

lemma distinct_ordered [simp]: "distinct (ordered_job_ids items)"
  by (simp add: ordered_job_ids_def)

lemma set_ordered [simp]: "set (ordered_job_ids items) = xi_job_id ` set items"
  by (simp add: ordered_job_ids_def)

lemma item_of_job_Some: "item_of_job items jid = Some it \<Longrightarrow> it \<in> set items \<and> xi_job_id it = jid"
  by (auto simp: item_of_job_def dest!: first_row_filterD)

lemma renewed_job_fields [simp]:
  "j_id (renewed_job it now j) = j_id j" "j_status (renewed_job it now j) = j_status j"
  by (simp_all add: renewed_job_def Let_def split: option.splits)

lemma write_renewed_keeps [simp]:
  "same_leases s (write_renewed items ids now s)"
  "job_statuses (write_renewed items ids now s) = job_statuses s"
  "leases (write_renewed items ids now s) = leases s"
  by (simp_all add: write_renewed_def same_leases_def job_statuses_upd_where split: option.splits)

lemma accept_evidence_keeps:
  "same_leases s (snd (accept_job_disarm_evidence e job ev h a now via s))
   \<and> job_statuses (snd (accept_job_disarm_evidence e job ev h a now via s)) = job_statuses s"
  by (auto simp: accept_job_disarm_evidence_def Let_def intro!: job_statuses_upd_job)

lemma evidence_step_keeps:
  "same_leases s (evidence_step e p now jid s) \<and> job_statuses (evidence_step e p now jid s) = job_statuses s"
  using accept_evidence_keeps by (auto simp: evidence_step_def split: option.splits)

lemma evidence_fold_keeps:
  "same_leases s (fold (evidence_step e p now) ids s)
   \<and> job_statuses (fold (evidence_step e p now) ids s) = job_statuses s"
proof (induction ids arbitrary: s)
  case (Cons jid ids)
  from Cons [of "evidence_step e p now jid s"] evidence_step_keeps [of s e p now jid] show ?case
    by (auto intro: same_leases_trans)
qed simp

lemma in_renewed:
  "jid \<in> set (fst (cas_renew_leases pairs h a now x s))
   \<longleftrightarrow> (\<exists>l\<in>set (leases s). owned_lease pairs h a now s l \<and> l_job_id l = Some jid)"
  by (force simp: cas_renew_leases_def List.map_filter_def image_iff)

text \<open>A run of the batch: the leases after it are those of the CAS.\<close>

lemma batch_run:
  assumes "extend_agent_leases_batch e p now js ls s = Inr (rs, t)"
  obtains renewed pairs where
    "set pairs = (\<lambda>jid. (jid, token_of_job (xb_leases p) jid)) ` set (renewable_ids p now js ls s)"
    "set renewed = {jid. \<exists>l\<in>set (leases s).
       owned_lease pairs (xb_host_id p) (xb_agent_instance_id p) now s l \<and> l_job_id l = Some jid}"
    "rs = map (\<lambda>jid. (jid, renewal_answer p now (now + e_device_lock_lease e) js ls s renewed jid))
            (ordered_job_ids (xb_leases p))"
    "same_leases (upd_leases (owned_lease pairs (xb_host_id p) (xb_agent_instance_id p) now s)
        (\<lambda>l. l\<lparr>l_renewed_at := now, l_expires_at := now + e_device_lock_lease e\<rparr>) s) t"
    "job_statuses t = job_statuses s"
proof -
  let ?new = "now + e_device_lock_lease e" and ?items = "xb_leases p"
  let ?targets = "renewable_ids p now js ls s"
  let ?pairs = "map (\<lambda>jid. (jid, token_of_job ?items jid)) ?targets"
  let ?P = "owned_lease ?pairs (xb_host_id p) (xb_agent_instance_id p) now s"
  let ?f = "\<lambda>l. l\<lparr>l_renewed_at := now, l_expires_at := ?new\<rparr>"
  let ?cas = "cas_renew_leases ?pairs (xb_host_id p) (xb_agent_instance_id p) now ?new s"
  have cas: "(if ?targets = [] then ([], s) else ?cas) = ?cas"
    by (auto simp: cas_renew_leases_def owned_lease_def upd_leases_def upd_where_none List.map_filter_def
        filter_empty_conv split: option.splits intro!: upd_where_none [symmetric])
  have u: "snd ?cas = upd_leases ?P ?f s" by (simp add: cas_renew_leases_def)
  have st: "job_statuses (upd_leases ?P ?f s) = job_statuses s"
    by (simp add: job_statuses_def upd_leases_def)
  show thesis
  proof (cases "?items = []")
    case True
    with assms have "rs = []" "t = s" "?targets = []"
      by (auto simp: extend_agent_leases_batch_def renewable_ids_def ordered_job_ids_def)
    moreover have "upd_leases ?P ?f s = s"
      using \<open>?targets = []\<close> by (simp add: upd_leases_def owned_lease_def upd_where_none split: option.splits)
    ultimately show thesis
      using True that [of ?pairs "[]" ] st by (auto simp: ordered_job_ids_def owned_lease_def split: option.splits)
  next
    case False
    let ?s2 = "fold (evidence_step e p now) (sort (fst ?cas)) (write_renewed ?items (fst ?cas) now (snd ?cas))"
    from assms False have len: "\<not> length ?items > LEASE_EXTEND_BATCH_MAX"
      and rs: "rs = map (\<lambda>jid. (jid, renewal_answer p now ?new js ls s (fst ?cas) jid)) (ordered_job_ids ?items)"
      and t: "t = ?s2"
      by (auto simp: extend_agent_leases_batch_def Let_def cas split_beta split: if_splits)
    note k = evidence_fold_keeps [of "write_renewed ?items (fst ?cas) now (snd ?cas)" e p now "sort (fst ?cas)"]
    have "same_leases (upd_leases ?P ?f s) t"
      using same_leases_trans [OF write_renewed_keeps(1) conjunct1 [OF k]] by (simp add: t u)
    moreover have "job_statuses t = job_statuses s" using k st by (simp add: t u)
    moreover have "set (fst ?cas) = {jid. \<exists>l\<in>set (leases s). ?P l \<and> l_job_id l = Some jid}"
      by (rule set_eqI) (simp add: in_renewed)
    ultimately show thesis using that [of ?pairs "fst ?cas"] rs by simp
  qed
qed

definition rightful :: "extend_in \<Rightarrow> time \<Rightarrow> db \<Rightarrow> lease_row \<Rightarrow> bool" where
  \<comment> \<open>a live lease of a RUNNING job of the request, presented with its token by its host and
     instance; of several tokens for one job the last counts\<close>
  "rightful p now s l \<longleftrightarrow>
     (case l_job_id l of
        None \<Rightarrow> False
      | Some jid \<Rightarrow> jid \<in> xi_job_id ` set (xb_leases p)
          \<and> l_fencing_token l = token_of_job (xb_leases p) jid \<and> job_running s jid)
     \<and> l_type l = LT_JOB \<and> l_status l = LS_ACTIVE \<and> now < l_expires_at l
     \<and> l_host_id l = Some (xb_host_id p)
     \<and> (xb_agent_instance_id p \<noteq> [] \<longrightarrow> l_agent_instance_id l = xb_agent_instance_id p)"

lemma owned_rightful:
  assumes "set pairs = (\<lambda>jid. (jid, token_of_job (xb_leases p) jid)) ` set (renewable_ids p now js ls s)"
  shows "owned_lease pairs (xb_host_id p) (xb_agent_instance_id p) now s l
    \<longleftrightarrow> rightful p now s l \<and> (\<exists>jid. l_job_id l = Some jid \<and> jid \<in> set (renewable_ids p now js ls s))"
  using assms
  by (cases "l_job_id l") (auto simp: owned_lease_def rightful_def renewable_ids_def)

text \<open>
  C18. A renewal request extends only leases the agent owns when they are written, whatever its
  unlocked reads saw: a lease changes only if it is a live ACTIVE lease of a RUNNING job, presented
  with its token by its host and instance, and then only in its renewal times.  Expired leases are
  never revived and a rotated token renews nothing.  There is one answer per distinct job, in the
  order of the request; \<open>renewed\<close> is answered exactly for the leases that were extended.  No job
  changes its status.
\<close>

theorem renewal_only_owner:
  assumes wf: "lease_wf s" and r: "extend_agent_leases_batch e p now js ls s = Inr (rs, t)"
  shows "lease_wf t \<and> fence_step s t \<and> job_statuses t = job_statuses s
    \<and> map fst rs = ordered_job_ids (xb_leases p)
    \<and> list_all2 (\<lambda>l l'. if rightful p now s l \<and> (\<exists>jid x. l_job_id l = Some jid \<and> (jid, Renewed x) \<in> set rs)
         then l' = l\<lparr>l_renewed_at := now, l_expires_at := now + e_device_lock_lease e\<rparr> else l' = l)
        (leases s) (leases t)
    \<and> (\<forall>jid x. (jid, Renewed x) \<in> set rs \<longrightarrow> x = now + e_device_lock_lease e
         \<and> (\<exists>l\<in>set (leases s). l_job_id l = Some jid \<and> rightful p now s l))"
  using r
proof (rule batch_run)
  fix renewed pairs
  let ?P = "owned_lease pairs (xb_host_id p) (xb_agent_instance_id p) now s"
  let ?f = "\<lambda>l. l\<lparr>l_renewed_at := now, l_expires_at := now + e_device_lock_lease e\<rparr>"
  assume pairs: "set pairs = (\<lambda>jid. (jid, token_of_job (xb_leases p) jid)) ` set (renewable_ids p now js ls s)"
    and renewed: "set renewed = {jid. \<exists>l\<in>set (leases s). ?P l \<and> l_job_id l = Some jid}"
    and rs: "rs = map (\<lambda>jid. (jid, renewal_answer p now (now + e_device_lock_lease e) js ls s renewed jid))
            (ordered_job_ids (xb_leases p))"
    and t: "same_leases (upd_leases ?P ?f s) t" and st: "job_statuses t = job_statuses s"
  have wft: "lease_wf t" using same_leases_wf [OF t] wf by (simp add: touch_wf)
  have fence: "fence_step s t"
    by (rule fence_trans [OF touch_fence same_leases_fence [OF t]]) simp
  have ans: "(jid, Renewed x) \<in> set rs \<Longrightarrow> x = now + e_device_lock_lease e \<and> jid \<in> set renewed
      \<and> jid \<in> set (renewable_ids p now js ls s)" for jid x
    by (auto simp: rs renewal_answer_def renewable_ids_def preliminary_def split: option.splits if_splits)
  have P: "?P l \<longleftrightarrow> rightful p now s l \<and> (\<exists>jid x. l_job_id l = Some jid \<and> (jid, Renewed x) \<in> set rs)"
    if l: "l \<in> set (leases s)" for l
  proof
    assume o: "?P l"
    with owned_rightful [OF pairs] obtain jid where rl: "rightful p now s l" "l_job_id l = Some jid"
      "jid \<in> set (renewable_ids p now js ls s)" by blast
    from o rl(2) l have "jid \<in> set renewed" by (auto simp: renewed)
    with rl(3) have "(jid, Renewed (now + e_device_lock_lease e)) \<in> set rs"
      by (auto simp: rs renewal_answer_def renewable_ids_def)
    with rl show "rightful p now s l \<and> (\<exists>jid x. l_job_id l = Some jid \<and> (jid, Renewed x) \<in> set rs)" by blast
  next
    assume "rightful p now s l \<and> (\<exists>jid x. l_job_id l = Some jid \<and> (jid, Renewed x) \<in> set rs)"
    with ans show "?P l" unfolding owned_rightful [OF pairs] by blast
  qed
  let ?R = "\<lambda>l. rightful p now s l \<and> (\<exists>jid x. l_job_id l = Some jid \<and> (jid, Renewed x) \<in> set rs)"
  have "leases t = upd_where ?R ?f (leases s)"
    using t upd_where_cong [of "leases s" ?P ?R ?f, OF P] by (simp add: same_leases_def upd_leases_def)
  then have rows: "list_all2 (\<lambda>l l'. if ?R l then l' = ?f l else l' = l) (leases s) (leases t)"
    by (simp only: upd_where_rows)
  have "\<exists>l\<in>set (leases s). l_job_id l = Some jid \<and> rightful p now s l" if "(jid, Renewed x) \<in> set rs" for jid x
    using ans [OF that] P by (auto simp: renewed)
  with ans have renewals: "\<forall>jid x. (jid, Renewed x) \<in> set rs \<longrightarrow> x = now + e_device_lock_lease e
      \<and> (\<exists>l\<in>set (leases s). l_job_id l = Some jid \<and> rightful p now s l)" by blast
  have "map fst rs = ordered_job_ids (xb_leases p)" by (simp add: rs comp_def)
  with wft fence st rows renewals show ?thesis by (intro conjI)
qed

subsection \<open>A batch of one and the single-job endpoint\<close>

definition job_leases_bound :: "db \<Rightarrow> job_row \<Rightarrow> string \<Rightarrow> bool" where
  \<comment> \<open>the ACTIVE JOB leases of the job are on its device and held by the host\<close>
  "job_leases_bound s job host \<longleftrightarrow>
     list_all (\<lambda>l. active_job_row (j_id job) l \<longrightarrow> l_device_id l = j_device_id job \<and> l_host_id l = Some host) (leases s)"

lemma bound_same_rows:
  assumes "job_leases_bound s job host"
  shows "filter (active_job_row (j_id job)) (leases s)
    = filter (job_lease_on (j_device_id job) (j_id job)) (leases s)"
  using assms by (intro filter_cong) (auto simp: job_leases_bound_def list_all_iff active_job_row_def job_lease_on_def)

lemma bound_lease:
  assumes wf: "lease_wf s" and b: "job_leases_bound s job host"
  shows "lease_of_job s (j_id job) = get_job_lease s (j_device_id job) (j_id job)"
proof -
  let ?xs = "filter (job_lease_on (j_device_id job) (j_id job)) (leases s)"
  have "length ?xs \<le> length (filter (active_on (j_device_id job)) (leases s))"
    by (rule length_filter_mono) (rule job_lease_active)
  also have "\<dots> \<le> 1" using wf by (simp add: lease_wf_def one_active_def)
  finally have "rev ?xs = ?xs" by (cases ?xs) auto
  then show ?thesis by (simp add: lease_of_job_def get_job_lease_def bound_same_rows [OF b])
qed

text \<open>
  The batch and the single-job endpoint renew alike: a batch with one entry and no instance,
  on an unchanging database, answers \<open>renewed\<close> with the same deadline and leaves the same leases
  exactly when \<open>extend\_lock\<close> succeeds, and otherwise changes no lease.
\<close>

theorem batch_of_one_agrees:
  assumes wf: "lease_wf s" and j: "get_job s job_id = Some job"
    and b: "job_leases_bound s job host"
    and p: "p = \<lparr>xb_host_id = host, xb_agent_instance_id = [], xb_leases = [it]\<rparr>" "xi_job_id it = job_id"
    and dev: "get_device s (j_device_id job) \<noteq> None"
  shows "\<exists>st t. extend_agent_leases_batch e p now s s s = Inr ([(job_id, st)], t)
    \<and> (case extend_agent_job_lock e job_id (xi_fencing_token it) now s of
         Inr (expires, u) \<Rightarrow> st = Renewed expires \<and> leases t = leases u
       | Inl err \<Rightarrow> (\<forall>x. st \<noteq> Renewed x) \<and> leases t = leases s)"
proof -
  have id: "j_id job = job_id" using get_job_Some [OF j] by simp
  let ?new = "now + e_device_lock_lease e" and ?d = "j_device_id job"
  let ?f = "\<lambda>l. l\<lparr>l_renewed_at := now, l_expires_at := ?new\<rparr>"
  have tok: "token_of_job [it] job_id = xi_fencing_token it" and ids: "ordered_job_ids [it] = [job_id]"
    using p(2) by (simp_all add: token_of_job_def item_of_job_def ordered_job_ids_def)
  have "\<exists>rs t. extend_agent_leases_batch e p now s s s = Inr (rs, t)"
    using p by (simp add: extend_agent_leases_batch_def LEASE_EXTEND_BATCH_MAX_def split_beta Let_def)
  then obtain rs t where run: "extend_agent_leases_batch e p now s s s = Inr (rs, t)" by blast
  show ?thesis
    using run
  proof (rule batch_run)
    fix renewed pairs
    let ?P = "owned_lease pairs (xb_host_id p) (xb_agent_instance_id p) now s"
    assume pairs: "set pairs = (\<lambda>jid. (jid, token_of_job (xb_leases p) jid)) ` set (renewable_ids p now s s s)"
      and renewed: "set renewed = {jid. \<exists>l\<in>set (leases s). ?P l \<and> l_job_id l = Some jid}"
      and rs: "rs = map (\<lambda>jid. (jid, renewal_answer p now ?new s s s renewed jid)) (ordered_job_ids (xb_leases p))"
      and t: "same_leases (upd_leases ?P ?f s) t"
    let ?valid = "get_valid_runtime_lease s job (xi_fencing_token it) [] now"
    have run_j: "job_running s job_id \<longleftrightarrow> j_status job = J_RUNNING" using j by (simp add: job_running_def)
    have prelim: "preliminary p now s s job_id = None \<and> job_running s job_id \<longleftrightarrow> ?valid \<noteq> None"
      using bound_lease [OF wf b] b id p tok run_j
      by (auto simp: preliminary_def get_valid_runtime_lease_def job_leases_bound_def list_all_iff
          active_job_row_def job_lease_on_def split: option.splits if_splits dest!: get_job_lease_Some)
    have tgt: "renewable_ids p now s s s = (if ?valid \<noteq> None then [job_id] else [])"
      using prelim p ids by (auto simp: renewable_ids_def)
    have P: "?P l \<longleftrightarrow> ?valid \<noteq> None \<and> typed_lease_on ?d job_id LT_JOB l \<and> l_expires_at l > now"
      if l: "l \<in> set (leases s)" for l
    proof (cases "?valid")
      case None
      with pairs tgt show ?thesis by (auto simp: owned_lease_def split: option.splits)
    next
      case (Some v)
      then have v: "get_job_lease s ?d job_id = Some v" "l_fencing_token v = xi_fencing_token it"
        "l_expires_at v > now" "job_running s job_id"
        using id run_j by (auto simp: get_valid_runtime_lease_def split: option.splits if_splits)
      have "l = v" if "job_lease_on ?d job_id l"
        using lease_wf_active_unique [OF wf l] get_job_lease_Some [OF v(1)] that job_lease_active by blast
      then show ?thesis
        using Some v l b pairs tgt tok p id
        by (auto simp: owned_lease_def typed_lease_on_def job_lease_on_def job_leases_bound_def
            list_all_iff active_job_row_def split: option.splits)
    qed
    let ?hit = "list_ex (\<lambda>l. typed_lease_on ?d job_id LT_JOB l \<and> l_expires_at l > now) (leases s)"
    have hit: "?hit" if "?valid \<noteq> None"
      using that id by (auto simp: get_valid_runtime_lease_def list_ex_iff typed_lease_on_def job_lease_on_def
          split: option.splits if_splits dest!: get_job_lease_Some)
    show ?thesis
    proof (cases "?valid")
      case None
      with P have "leases t = leases s"
        using t by (simp add: same_leases_def upd_leases_def upd_where_none)
      moreover have "extend_agent_job_lock e job_id (xi_fencing_token it) now s = Inl ExtendInvalidToken"
        using None j dev by (auto simp: extend_agent_job_lock_def)
      moreover have "renewal_answer p now ?new s s s renewed job_id \<noteq> Renewed x" for x
        using prelim None by (auto simp: renewal_answer_def preliminary_def split: option.splits)
      ultimately show ?thesis using run rs ids p by auto
    next
      case (Some v)
      let ?Q = "\<lambda>l. typed_lease_on ?d job_id LT_JOB l \<and> l_expires_at l > now"
      have "leases t = upd_where ?Q ?f (leases s)"
        using t upd_where_cong [of "leases s" ?P ?Q ?f] P Some by (simp add: same_leases_def upd_leases_def)
      moreover have "extend_agent_job_lock e job_id (xi_fencing_token it) now s
          = Inr (?new, upd_job job_id (\<lambda>j. j\<lparr>j_updated_at := now\<rparr>) (upd_leases ?Q ?f s))"
        using Some hit j dev by (auto simp: extend_agent_job_lock_def extend_lease_def update_leases_def)
      moreover have "renewal_answer p now ?new s s s renewed job_id = Renewed ?new"
      proof -
        from hit Some P obtain l where "l \<in> set (leases s)" "?P l" "l_job_id l = Some job_id"
          by (auto simp: list_ex_iff typed_lease_on_def)
        then have "job_id \<in> set renewed" by (auto simp: renewed)
        with prelim Some show ?thesis by (simp add: renewal_answer_def)
      qed
      ultimately show ?thesis using run rs ids p by (auto simp: upd_leases_def upd_job_def)
    qed
  qed
qed

subsection \<open>A concrete renewal\<close>

definition renewal :: extend_in where
  "renewal = \<lparr>xb_host_id = ''h1'', xb_agent_instance_id = ''a1'', xb_leases = [
     \<lparr>xi_job_id = 7, xi_fencing_token = ''5:0'', xi_execution_state = None,
      xi_progress_marker = None, xi_disarm_evidence = None\<rparr>,
     \<lparr>xi_job_id = 7, xi_fencing_token = ''5:1'', xi_execution_state = Some ''EXECUTING_STEP'',
      xi_progress_marker = None, xi_disarm_evidence = None\<rparr>,
     \<lparr>xi_job_id = 9, xi_fencing_token = ''9:1'', xi_execution_state = None,
      xi_progress_marker = None, xi_disarm_evidence = None\<rparr>]\<rparr>"

definition taken_over :: db where
  \<comment> \<open>instance a2 took job 7 over after the reads of the request\<close>
  "taken_over = snd (sync_agent_recovery default_env takeover 110 claimed_db)"

lemma renewal_only_owner_witness:
  "\<exists>t. extend_agent_leases_batch default_env renewal 120 claimed_db claimed_db claimed_db
       = Inr ([(7, Renewed 720), (9, JobNotRunning)], t) \<and> lease_wf t
     \<and> (\<exists>u. extend_agent_leases_batch default_env renewal 120 claimed_db claimed_db taken_over
          = Inr ([(7, LeaseMissing), (9, JobNotRunning)], u) \<and> lease_wf u)"
proof -
  let ?b = "\<lambda>s. extend_agent_leases_batch default_env renewal 120 claimed_db claimed_db s"
  have wf: "lease_wf taken_over" by code_simp
  have "map_sum id fst (?b claimed_db) = Inr [(7, Renewed 720), (9, JobNotRunning)]" by code_simp
  then obtain t where t: "?b claimed_db = Inr ([(7, Renewed 720), (9, JobNotRunning)], t)"
    by (cases "?b claimed_db") auto
  have "map_sum id fst (?b taken_over) = Inr [(7, LeaseMissing), (9, JobNotRunning)]" by code_simp
  then obtain u where u: "?b taken_over = Inr ([(7, LeaseMissing), (9, JobNotRunning)], u)"
    by (cases "?b taken_over") auto
  from renewal_only_owner [OF claimed_db_wf t] renewal_only_owner [OF wf u] t u show ?thesis by blast
qed

lemma batch_of_one_agrees_witness:
  "\<exists>t. extend_agent_leases_batch default_env
       (renewal\<lparr>xb_agent_instance_id := [], xb_leases := [xb_leases renewal ! 1]\<rparr>) 120 claimed_db claimed_db claimed_db
     = Inr ([(7, Renewed 720)], t)"
proof -
  let ?it = "xb_leases renewal ! 1"
  let ?p = "renewal\<lparr>xb_agent_instance_id := [], xb_leases := [?it]\<rparr>"
  from claimed_job obtain job where j: "get_job claimed_db 7 = Some job" "j_device_id job = 5" by blast
  have "list_all (\<lambda>l. active_job_row 7 l \<longrightarrow> l_device_id l = 5 \<and> l_host_id l = Some ''h1'') (leases claimed_db)"
    by code_simp
  then have b: "job_leases_bound claimed_db job ''h1''"
    using j get_job_Some [OF j(1)] by (simp add: job_leases_bound_def)
  have p: "?p = \<lparr>xb_host_id = ''h1'', xb_agent_instance_id = [], xb_leases = [?it]\<rparr>" "xi_job_id ?it = 7"
    by (simp_all add: renewal_def)
  have d: "get_device claimed_db (j_device_id job) \<noteq> None" unfolding j(2) by code_simp
  have "map_sum id fst (extend_agent_job_lock default_env 7 (xi_fencing_token ?it) 120 claimed_db)
      = (Inr 720 :: extend_lock_error + time)" by code_simp
  then obtain u where "extend_agent_job_lock default_env 7 (xi_fencing_token ?it) 120 claimed_db = Inr (720, u)"
    by (cases "extend_agent_job_lock default_env 7 (xi_fencing_token ?it) 120 claimed_db") auto
  with batch_of_one_agrees [OF claimed_db_wf j(1) b p d, of default_env 120] show ?thesis by auto
qed

end
