(* ===== verification/Lease_Reconciler.thy ===== *)
theory Lease_Reconciler
  imports Lease_Renewal
begin

section \<open>The lease reconciler (scheduler/device\_lease\_reconciler.py)\<close>

text \<open>
  The only owner of lease expiry.  A RUNNING job whose lease expired, or that did not acknowledge
  an abort, becomes UNKNOWN and keeps its lease; an UNKNOWN job past its grace loses the lease and
  fails; a terminal job may not keep an ACTIVE lease.  Each check scans without locks and decides
  again on every candidate under its locks: the scan is the database \<open>scan\<close>, the decisions work on
  \<open>s\<close>.  A check that raises rolls back; database failures are not modelled.  The administrator's
  emergency release (services/device\_lease\_emergency\_release.py) is here too.
\<close>

subsection \<open>Check 1: expired leases\<close>

datatype lease_verdict = Skipped | ReleasedNow | ToUnknown | ToFailed job_row

definition get_lease :: "db \<Rightarrow> nat \<Rightarrow> lease_row option" where
  "get_lease s i = first_row (filter (\<lambda>l. l_id l = i) (leases s))"

definition expired_order :: "lease_row \<Rightarrow> bool \<times> nat \<times> nat" where
  "expired_order l =
     (l_job_id l = None, case l_job_id l of None \<Rightarrow> 0 | Some j \<Rightarrow> j, l_id l)"

definition expired_candidates :: "time \<Rightarrow> db \<Rightarrow> lease_row list" where
  "expired_candidates now s = sort_key expired_order
     (filter (\<lambda>l. l_status l = LS_ACTIVE \<and> l_type l = LT_JOB \<and> l_expires_at l < now) (leases s))"

definition past_grace :: "env \<Rightarrow> time \<Rightarrow> job_row \<Rightarrow> bool" where
  "past_grace e now job =
     (case j_ended_at job of None \<Rightarrow> False | Some ended \<Rightarrow> ended < now - e_unknown_grace e)"

definition fail_unknown :: "job_row \<Rightarrow> time \<Rightarrow> db \<Rightarrow> lease_verdict \<times> db" where
  \<comment> \<open>UNKNOWN to FAILED, the last step of checks 1 and 2\<close>
  "fail_unknown job now s =
     (case job_transition job J_FAILED ''unknown_grace_timeout'' now of
        Inl err \<Rightarrow> (Skipped, s)
      | Inr job1 \<Rightarrow> (ToFailed job1, upd_job (j_id job) (\<lambda>j. job1) s))"

definition expired_lease_step :: "env \<Rightarrow> time \<Rightarrow> lease_row \<Rightarrow> db \<Rightarrow> lease_verdict \<times> db" where
  "expired_lease_step e now candidate s =
     (case get_lease s (l_id candidate) of
        None \<Rightarrow> (Skipped, s)
      | Some lease \<Rightarrow>
          if l_status lease \<noteq> LS_ACTIVE \<or> l_expires_at lease \<ge> now then (Skipped, s)
          else if l_job_id candidate \<noteq> l_job_id lease then (Skipped, s)
          else
            (case l_job_id lease of
               None \<Rightarrow> (ReleasedNow, upd_lease (l_id lease) (mark_released now) s)
             | Some job_id \<Rightarrow>
                 (case get_job s job_id of
                    None \<Rightarrow> (ReleasedNow, snd (handle_job_lease_release (l_device_id lease) job_id None now s))
                  | Some job \<Rightarrow>
                      if terminal_status (j_status job)
                      then (ReleasedNow, snd (handle_job_lease_release (l_device_id lease) job_id (Some job) now s))
                      else if j_status job = J_RUNNING
                      then (case job_transition job J_UNKNOWN ''lease_expired'' now of
                              Inl err \<Rightarrow> (Skipped, s)
                            | Inr job1 \<Rightarrow>
                                (ToUnknown, upd_job job_id (\<lambda>j. job1\<lparr>j_ended_at := Some now\<rparr>) s))
                      else if j_status job = J_UNKNOWN
                      then (if past_grace e now job
                            then fail_unknown job now
                                   (snd (handle_job_lease_release (l_device_id lease) job_id (Some job) now s))
                            else (Skipped, s))
                      else (Skipped, s))))"

fun drain_candidates ::
  "('c \<Rightarrow> db \<Rightarrow> lease_verdict \<times> db) \<Rightarrow> nat \<Rightarrow> 'c list \<Rightarrow> nat \<Rightarrow> db \<Rightarrow> lease_verdict list \<times> db" where
  \<comment> \<open>the loop of checks 1 and 2: only candidates that were failed count towards the batch, each
     of them is terminalized and committed before the next one\<close>
  "drain_candidates step batch [] drained s = ([], s)"
| "drain_candidates step batch (c # cs) drained s =
     (if batch \<le> drained then ([], s)
      else
        (case step c s of
           (ToFailed job, s1) \<Rightarrow>
             (let (vs, s2) = drain_candidates step batch cs (Suc drained) (snd (on_job_terminal job s1))
              in (ToFailed job # vs, s2))
         | (v, s1) \<Rightarrow>
             (let (vs, s2) = drain_candidates step batch cs drained s1 in (v # vs, s2))))"

definition reconcile_expired_leases ::
  "env \<Rightarrow> nat \<Rightarrow> time \<Rightarrow> db \<Rightarrow> db \<Rightarrow> (nat \<times> nat \<times> nat) \<times> db" where
  "reconcile_expired_leases e batch now scan s =
     (let (vs, t) = drain_candidates (expired_lease_step e now) batch (expired_candidates now scan) 0 s
      in ((length (filter (\<lambda>v. v = ToUnknown) vs),
           length (filter (\<lambda>v. case v of ToFailed _ \<Rightarrow> True | _ \<Rightarrow> False) vs),
           length (filter (\<lambda>v. v = ReleasedNow) vs)), t))"

subsection \<open>Check 2: UNKNOWN jobs past their grace\<close>

definition grace_expired :: "env \<Rightarrow> time \<Rightarrow> job_row \<Rightarrow> bool" where
  "grace_expired e now job \<longleftrightarrow> j_status job = J_UNKNOWN \<and> past_grace e now job"

definition stale_candidates :: "env \<Rightarrow> time \<Rightarrow> db \<Rightarrow> nat list" where
  "stale_candidates e now s = sort (map j_id (filter (grace_expired e now) (jobs s)))"

definition stale_unknown_step :: "env \<Rightarrow> time \<Rightarrow> nat \<Rightarrow> db \<Rightarrow> lease_verdict \<times> db" where
  "stale_unknown_step e now job_id s =
     (case get_job s job_id of
        None \<Rightarrow> (Skipped, s)
      | Some job \<Rightarrow>
          if \<not> grace_expired e now job then (Skipped, s)
          else fail_unknown job now
                 (if get_job_lease s (j_device_id job) (j_id job) \<noteq> None
                  then snd (handle_job_lease_release (j_device_id job) (j_id job) (Some job) now s)
                  else s))"

definition reconcile_stale_unknown_jobs :: "env \<Rightarrow> nat \<Rightarrow> time \<Rightarrow> db \<Rightarrow> db \<Rightarrow> nat \<times> db" where
  "reconcile_stale_unknown_jobs e batch now scan s =
     (let (vs, t) = drain_candidates (stale_unknown_step e now) batch (stale_candidates e now scan) 0 s
      in (length (filter (\<lambda>v. case v of ToFailed _ \<Rightarrow> True | _ \<Rightarrow> False) vs), t))"

subsection \<open>Check 3: terminal jobs with an ACTIVE lease\<close>

definition terminal_lease_rows :: "db \<Rightarrow> (nat \<times> nat) list" where
  \<comment> \<open>(device, job) of each ACTIVE JOB lease whose job is terminal\<close>
  "terminal_lease_rows s =
     List.map_filter (\<lambda>l. case l_job_id l of
         None \<Rightarrow> None
       | Some jid \<Rightarrow>
           (case get_job s jid of
              None \<Rightarrow> None
            | Some job \<Rightarrow> if l_status l = LS_ACTIVE \<and> l_type l = LT_JOB \<and> terminal_status (j_status job)
                           then Some (l_device_id l, jid) else None)) (leases s)"

definition reconcile_terminal_job_active_leases :: "time \<Rightarrow> db \<Rightarrow> db \<Rightarrow> nat \<times> db" where
  "reconcile_terminal_job_active_leases now scan s =
     (length (terminal_lease_rows scan),
      fold (\<lambda>(d, jid) u. snd (handle_job_lease_release d jid None now u)) (terminal_lease_rows scan) s)"

subsection \<open>Check 0: the abort reaper\<close>

definition abort_context :: "db \<Rightarrow> job_row \<Rightarrow> json" where
  "abort_context s job =
     (case get_run s (j_plan_run_id job) of None \<Rightarrow> JNull | Some r \<Rightarrow> r_run_context r)"

definition abort_reap_reason :: "string \<Rightarrow> string" where
  "abort_reap_reason subject =
     (if subject = ''host'' then ''abort_ack_timeout_host'' else ''abort_ack_timeout'')"

definition reap_entry :: "env \<Rightarrow> time \<Rightarrow> db \<Rightarrow> job_row \<Rightarrow> (nat \<times> string) option" where
  \<comment> \<open>job and reason of a candidate; the SQL filter is implied by the exact test\<close>
  "reap_entry e now s job =
     (if j_status job \<noteq> J_RUNNING \<or> get_run s (j_plan_run_id job) = None then None
      else (case abort_reap_clock (abort_context s job) (j_id job) (j_host_id job) of
              None \<Rightarrow> None
            | Some (at, subject) \<Rightarrow>
                if at \<ge> now - e_abort_ack_grace e then None
                else Some (j_id job, abort_reap_reason subject)))"

definition reap_candidates :: "env \<Rightarrow> time \<Rightarrow> db \<Rightarrow> (nat \<times> string) list" where
  "reap_candidates e now s = sort_key fst (List.map_filter (reap_entry e now s) (jobs s))"

definition abort_reaper_recheck_job :: "env \<Rightarrow> nat \<Rightarrow> time \<Rightarrow> string \<Rightarrow> db \<Rightarrow> bool \<times> db" where
  "abort_reaper_recheck_job e job_id now reason s =
     (case get_job s job_id of
        None \<Rightarrow> (False, s)
      | Some job \<Rightarrow>
          if j_status job \<noteq> J_RUNNING then (False, s)
          else
            (case abort_reap_clock (abort_context s job) (j_id job) (j_host_id job) of
               None \<Rightarrow> (False, s)
             | Some (clock, subject) \<Rightarrow>
                 let abort_at = (case j_disarm_guard job of None \<Rightarrow> clock | Some g \<Rightarrow> min clock (g_t0 g)) in
                 if now - abort_at \<le> e_abort_ack_grace e then (False, s)
                 else
                   (let (guarded, s1) =
                          (if j_disarm_guard job \<noteq> None
                           then (case job_guard_deadline e job now False s of (dl, s') \<Rightarrow> (dl \<noteq> None, s'))
                           else (disarm_grace_defers_reap e job abort_at now, s))
                    in if guarded then (False, s1)
                       else (case job_transition job J_UNKNOWN reason now of
                               Inl err \<Rightarrow> (False, s1)
                             | Inr job1 \<Rightarrow>
                                 (True, upd_job job_id
                                    (\<lambda>j. job1\<lparr>j_disarm_guard := j_disarm_guard j, j_ended_at := Some now\<rparr>) s1)))))"

definition reconcile_aborted_running_jobs :: "env \<Rightarrow> time \<Rightarrow> db \<Rightarrow> db \<Rightarrow> nat \<times> db" where
  "reconcile_aborted_running_jobs e now scan s =
     (case run_batch (\<lambda>(jid, reason). abort_reaper_recheck_job e jid now reason)
             (reap_candidates e now scan) s of
        (rs, t) \<Rightarrow> (length (filter id rs), t))"

subsection \<open>One round, and the rounds of one tick\<close>

definition reconcile_checks :: "env \<Rightarrow> nat \<Rightarrow> time \<Rightarrow> db \<Rightarrow> db" where
  "reconcile_checks e batch now s0 =
     (let s1 = snd (reconcile_aborted_running_jobs e now s0 s0);
          s2 = snd (reconcile_expired_leases e batch now s1 s1);
          s3 = snd (reconcile_stale_unknown_jobs e batch now s2 s2)
      in snd (reconcile_terminal_job_active_leases now s3 s3))"

definition unknown_backlog :: "env \<Rightarrow> time \<Rightarrow> db \<Rightarrow> nat" where
  \<comment> \<open>the bucket \<open>grace\_expired\<close>\<close>
  "unknown_backlog e now s = length (filter (grace_expired e now) (jobs s))"

fun drain_remaining_rounds :: "env \<Rightarrow> nat \<Rightarrow> time \<Rightarrow> nat \<Rightarrow> nat \<Rightarrow> db \<Rightarrow> nat \<times> db" where
  \<comment> \<open>the fourth argument is the number of rounds that fit into the time budget\<close>
  "drain_remaining_rounds e batch now 0 prev s = (0, s)"
| "drain_remaining_rounds e batch now (Suc budget) prev s =
     (let s1 = reconcile_checks e batch now s; remaining = unknown_backlog e now s1 in
      if remaining = 0 \<or> remaining \<ge> prev then (1, s1)
      else (let (rounds, s2) = drain_remaining_rounds e batch now budget remaining s1
            in (Suc rounds, s2)))"

definition device_lease_reconcile_once :: "env \<Rightarrow> nat \<Rightarrow> time \<Rightarrow> nat \<Rightarrow> db \<Rightarrow> nat \<times> db" where
  "device_lease_reconcile_once e batch now budget s =
     (let s1 = reconcile_checks e batch now s; backlog = unknown_backlog e now s1 in
      if backlog = 0 then (0, s1) else drain_remaining_rounds e batch now budget backlog s1)"

subsection \<open>Emergency release\<close>

datatype emergency_error =
  LeaseNotFound | LeaseDeviceMismatch | LeaseJobChanged | LeaseNotActive | LeaseIsReturnDebt
  | LeaseTypeNotJob | JobNotTerminal | LeaseReleaseLost

definition release_terminal_job_lease ::
  "nat \<Rightarrow> nat \<Rightarrow> string \<Rightarrow> string \<Rightarrow> time \<Rightarrow> db \<Rightarrow> db \<Rightarrow> (emergency_error + string) \<times> db" where
  \<comment> \<open>\<open>snap\<close>: what the first, unlocked read saw\<close>
  "release_terminal_job_lease device_id lease_id reason username now snap s =
     (case get_lease snap lease_id of
        None \<Rightarrow> (Inl LeaseNotFound, s)
      | Some seen \<Rightarrow>
          if l_device_id seen \<noteq> device_id then (Inl LeaseDeviceMismatch, s)
          else
            let job = (case l_job_id seen of None \<Rightarrow> None | Some jid \<Rightarrow> get_job s jid) in
            (case get_lease s lease_id of
               None \<Rightarrow> (Inl LeaseNotFound, s)
             | Some lease \<Rightarrow>
                 if l_device_id lease \<noteq> device_id then (Inl LeaseDeviceMismatch, s)
                 else if l_job_id lease \<noteq> l_job_id seen then (Inl LeaseJobChanged, s)
                 else if l_status lease \<noteq> LS_ACTIVE then (Inl LeaseNotActive, s)
                 else if is_debt_lease (Some lease) then (Inl LeaseIsReturnDebt, s)
                 else if l_type lease \<noteq> LT_JOB then (Inl LeaseTypeNotJob, s)
                 else
                   (case job of
                      None \<Rightarrow> (Inl JobNotTerminal, s)
                    | Some j \<Rightarrow>
                        if \<not> terminal_status (j_status j) then (Inl JobNotTerminal, s)
                        else
                          (let (out, s1) = handle_job_lease_release_sync device_id (j_id j) (Some j) now s
                           in if \<not> lo_released out \<and> \<not> lo_converted_to_debt out
                              then (Inl LeaseReleaseLost, s)
                              else (Inr (if lo_released out then ''RELEASED'' else ''MAINTENANCE''),
                                    add_audit ''emergency_release_lease'' ''device'' (dec device_id) username
                                      (JObj [(''lease_id'', JInt (int lease_id)),
                                             (''job_id'', JInt (int (j_id j))),
                                             (''job_status'', JStr (job_status_text (j_status j))),
                                             (''reason'', JStr reason), (''operator'', JStr username)]) s1)))))"

subsection \<open>What every step keeps\<close>

definition job_move :: "env \<Rightarrow> time \<Rightarrow> job_row \<Rightarrow> job_row \<Rightarrow> bool" where
  \<comment> \<open>all the reconciler may do to a job\<close>
  "job_move e now j j' \<longleftrightarrow>
     j_status j' = j_status j \<and> j_ended_at j' = j_ended_at j
     \<or> j_status j = J_RUNNING \<and> j_status j' = J_UNKNOWN \<and> j_ended_at j' = Some now
     \<or> grace_expired e now j \<and> j_status j' = J_FAILED"

definition moves :: "env \<Rightarrow> time \<Rightarrow> db \<Rightarrow> db \<Rightarrow> bool" where
  "moves e now s t \<longleftrightarrow>
     map j_id (jobs t) = map j_id (jobs s)
     \<and> (\<forall>k j. get_job s k = Some j \<longrightarrow> (\<exists>j'. get_job t k = Some j' \<and> job_move e now j j'
          \<and> j_plan_run_id j' = j_plan_run_id j
          \<and> (j_status j \<noteq> J_FAILED \<and> j_status j' = J_FAILED
               \<longrightarrow> (j_plan_run_id j, k) \<in> set (pending_aggregation t))))
     \<and> set (pending_aggregation s) \<subseteq> set (pending_aggregation t)"

lemma job_move_refl [simp]: "job_move e now j j"
  by (simp add: job_move_def)

lemma job_move_trans:
  "0 \<le> e_unknown_grace e \<Longrightarrow> job_move e now a b \<Longrightarrow> job_move e now b c \<Longrightarrow> job_move e now a c"
  by (auto simp: job_move_def grace_expired_def past_grace_def)

lemma moves_refl: "moves e now s s"
  by (simp add: moves_def)

lemma moves_job:
  "moves e now s t \<Longrightarrow> get_job s k = Some j \<Longrightarrow> \<exists>j'. get_job t k = Some j' \<and> job_move e now j j'
     \<and> j_plan_run_id j' = j_plan_run_id j
     \<and> (j_status j \<noteq> J_FAILED \<and> j_status j' = J_FAILED
          \<longrightarrow> (j_plan_run_id j, k) \<in> set (pending_aggregation t))"
  by (simp add: moves_def)

lemma moves_trans:
  assumes g: "0 \<le> e_unknown_grace e" and a: "moves e now s t" and b: "moves e now t u"
  shows "moves e now s u"
  unfolding moves_def
proof (intro conjI allI impI)
  show "map j_id (jobs u) = map j_id (jobs s)"
    "set (pending_aggregation s) \<subseteq> set (pending_aggregation u)"
    using a b by (auto simp: moves_def)
  fix k j assume "get_job s k = Some j"
  from moves_job [OF a this] obtain j' where j': "get_job t k = Some j'" "job_move e now j j'" "j_plan_run_id j' = j_plan_run_id j"
    "j_status j \<noteq> J_FAILED \<and> j_status j' = J_FAILED \<longrightarrow> (j_plan_run_id j, k) \<in> set (pending_aggregation t)"
    by blast
  from moves_job [OF b j'(1)] obtain j'' where j'': "get_job u k = Some j''" "job_move e now j' j''" "j_plan_run_id j'' = j_plan_run_id j'"
    "j_status j' \<noteq> J_FAILED \<and> j_status j'' = J_FAILED \<longrightarrow> (j_plan_run_id j', k) \<in> set (pending_aggregation u)"
    by blast
  have sub: "set (pending_aggregation t) \<subseteq> set (pending_aggregation u)" using b by (simp add: moves_def)
  show "\<exists>j''. get_job u k = Some j'' \<and> job_move e now j j'' \<and> j_plan_run_id j'' = j_plan_run_id j
      \<and> (j_status j \<noteq> J_FAILED \<and> j_status j'' = J_FAILED \<longrightarrow> (j_plan_run_id j, k) \<in> set (pending_aggregation u))"
    using j' j'' job_move_trans [OF g j'(2) j''(2)] sub by (intro exI [of _ j'']) auto
qed

lemma moves_same_jobs: "jobs t = jobs s \<Longrightarrow> pending_aggregation t = pending_aggregation s \<Longrightarrow> moves e now s t"
  by (simp add: moves_def get_job_def)

lemma get_job_upd_fun:
  assumes "get_job s k = Some x" "\<And>j. j_id j = k \<Longrightarrow> j_id (f j) = k"
  shows "get_job (upd_job k f s) i = (if i = k then Some (f x) else get_job s i)"
proof -
  have "first_row (filter (\<lambda>j. j_id j = i) (upd_where (\<lambda>j. j_id j = k) f t))
     = (if i = k then map_option f (first_row (filter (\<lambda>j. j_id j = k) t))
        else first_row (filter (\<lambda>j. j_id j = i) t))" for t
    using assms(2) by (induction t) (auto simp: upd_where_Cons)
  with assms(1) show ?thesis by (simp add: get_job_def upd_job_def)
qed

lemma map_ids_upd_job:
  "(\<And>j. j_id j = k \<Longrightarrow> j_id (f j) = k) \<Longrightarrow> map j_id (jobs (upd_job k f s)) = map j_id (jobs s)"
  by (simp add: upd_job_def upd_where_def)

lemma moves_upd_job:
  assumes x: "get_job s k = Some x" and f: "\<And>j. j_id j = k \<Longrightarrow> j_id (f j) = k"
    and y: "job_move e now x (f x)" "j_plan_run_id (f x) = j_plan_run_id x"
    and m: "j_status x \<noteq> J_FAILED \<and> j_status (f x) = J_FAILED \<longrightarrow> (j_plan_run_id x, k) \<in> set (pending_aggregation s)"
  shows "moves e now s (upd_job k f s)"
proof -
  have "pending_aggregation (upd_job k f s) = pending_aggregation s" by (simp add: upd_job_def)
  with x y m show ?thesis by (auto simp: moves_def map_ids_upd_job [OF f] get_job_upd_fun [OF x f])
qed

lemma settle_pending: "pending_aggregation (snd (settle_lease_sync d j lease now s)) = pending_aggregation s"
  by (auto simp: settle_lease_sync_def Let_def split_beta release_job_lease_sync_def upd_leases_def
      convert_active_job_to_debt_lease_sync_def acquire_debt_lease_sync_def upd_lease_def
      bump_generation_def upd_device_def insert_lease_def split: option.splits)

lemma handle_pending [simp]:
  "pending_aggregation (snd (handle_job_lease_release d j job now s)) = pending_aggregation s"
proof (rule handle_settles [of s d j job now])
  fix s1 assume ro: "returns_only s s1" and h: "handle_job_lease_release_sync d j job now s
     = (if get_device s d = None
        then (\<lparr>lo_released = False, lo_converted_to_debt = False, lo_open_debt_count = 0,
               lo_fencing_token = None\<rparr>, s)
        else settle_lease_sync d j (get_active_lease s1 d) now s1)"
  show ?thesis unfolding handle_async_sync h using ro by (simp add: settle_pending returns_only_def)
qed

lemma handle_jobs_async [simp]: "jobs (snd (handle_job_lease_release d j job now s)) = jobs s"
  by (simp add: handle_async_sync handle_jobs)

lemma handle_get_job [simp]: "get_job (snd (handle_job_lease_release d j job now s)) k = get_job s k"
  by (simp add: get_job_def)

text \<open>The release entry of one job never touches the ACTIVE lease of another.\<close>

lemma settle_keeps_others:
  assumes wf: "lease_wf s" and l: "l \<in> set (leases s)" "\<not> (l_type l = LT_JOB \<and> l_job_id l = Some j)"
  shows "l \<in> set (leases (snd (settle_lease_sync d j (get_active_lease s d) now s)))"
proof -
  have rel: "l \<in> set (leases (snd (release_job_lease_sync d j now s)))"
    using l by (auto simp: release_job_lease_sync_def upd_leases_def set_upd_where job_lease_on_def)
  have acq: "l \<in> set (leases (snd (acquire_debt_lease_sync d now s)))"
    using l by (auto simp: acquire_debt_lease_sync_def Let_def insert_lease_def split: option.splits)
  have conv: "l \<in> set (leases (snd (convert_active_job_to_debt_lease_sync d x now s)))"
    if x: "get_active_lease s d = Some x" "l_type x = LT_JOB" "l_job_id x = Some j" for x
  proof -
    have "x \<in> set (leases s)" using get_active_lease_Some [OF x(1)] by simp
    then have "l_id l \<noteq> l_id x" using lease_wf_id_unique [OF wf l(1)] l(2) x by metis
    with l(1) show ?thesis
      by (simp add: convert_active_job_to_debt_lease_sync_def Let_def upd_lease_def set_upd_where)
  qed
  show ?thesis using l(1) rel acq conv
    by (simp add: settle_lease_sync_def Let_def split_beta split: option.splits)
qed

lemma handle_keeps_others:
  assumes wf: "lease_wf s" and l: "l \<in> set (leases s)" "\<not> (l_type l = LT_JOB \<and> l_job_id l = Some j)"
  shows "l \<in> set (leases (snd (handle_job_lease_release d j job now s)))"
proof (rule handle_settles [of s d j job now])
  fix s1 assume ro: "returns_only s s1" and h: "handle_job_lease_release_sync d j job now s
     = (if get_device s d = None
        then (\<lparr>lo_released = False, lo_converted_to_debt = False, lo_open_debt_count = 0,
               lo_fencing_token = None\<rparr>, s)
        else settle_lease_sync d j (get_active_lease s1 d) now s1)"
  have "lease_wf s1" "l \<in> set (leases s1)"
    using wf l ro same_leases_wf [OF returns_only_same [OF ro]] by (simp_all add: returns_only_def)
  from settle_keeps_others [OF this l(2)] l show ?thesis unfolding handle_async_sync h by simp
qed

subsection \<open>The drain loop\<close>

text \<open>A verdict is settled by the terminal mark of a failed job.\<close>

definition settle_verdict :: "lease_verdict \<times> db \<Rightarrow> db" where
  "settle_verdict r = (case fst r of ToFailed job \<Rightarrow> snd (on_job_terminal job (snd r)) | _ \<Rightarrow> snd r)"

locale guarded_drain =
  fixes step :: "'c \<Rightarrow> db \<Rightarrow> lease_verdict \<times> db"
    and inv :: "db \<Rightarrow> bool"
  assumes settled: "inv s \<Longrightarrow> inv (settle_verdict (step c s))"
begin

lemma drain_inv: "inv s \<Longrightarrow> inv (snd (drain_candidates step batch cs drained s))"
proof (induction cs arbitrary: drained s)
  case Nil
  then show ?case by simp
next
  case (Cons c cs)
  from Cons.prems have i: "inv (settle_verdict (step c s))" by (rule settled)
  show ?case
    using Cons.prems i Cons.IH [of "settle_verdict (step c s)"]
    by (cases "step c s"; cases "fst (step c s)") (auto simp: settle_verdict_def split_beta)
qed

end

definition failed_row :: "job_row \<Rightarrow> time \<Rightarrow> job_row" where
  "failed_row job now = job\<lparr>j_status := J_FAILED, j_status_reason := ''unknown_grace_timeout'',
     j_execution_state := None, j_updated_at := now\<rparr>"

lemma failed_row_fields [simp]:
  "j_id (failed_row job now) = j_id job" "j_status (failed_row job now) = J_FAILED"
  "j_plan_run_id (failed_row job now) = j_plan_run_id job"
  "j_device_id (failed_row job now) = j_device_id job"
  by (simp_all add: failed_row_def)

lemma fail_unknown_works:
  "j_status job = J_UNKNOWN \<Longrightarrow>
     fail_unknown job now s = (ToFailed (failed_row job now), upd_job (j_id job) (\<lambda>j. failed_row job now) s)"
  by (simp add: fail_unknown_def job_transition_def valid_transition_def VALID_TRANSITIONS_def failed_row_def)

lemma get_lease_Some: "get_lease s i = Some l \<Longrightarrow> l \<in> set (leases s) \<and> l_id l = i"
  unfolding get_lease_def by (rule first_row_filterD)

lemma expired_step_cases:
  obtains (skipped) "expired_lease_step e now c s = (Skipped, s)"
  | (orphan) l where "l \<in> set (leases s)" "l_job_id l = None"
      "expired_lease_step e now c s = (ReleasedNow, upd_lease (l_id l) (mark_released now) s)"
  | (released) d k job where "get_job s k = job" "case job of None \<Rightarrow> True | Some j \<Rightarrow> terminal_status (j_status j)"
      "expired_lease_step e now c s = (ReleasedNow, snd (handle_job_lease_release d k job now s))"
  | (unknown) l k job job1 where "l \<in> set (leases s) \<and> l_status l = LS_ACTIVE" "l_job_id l = Some k" "l_expires_at l < now"
      "get_job s k = Some job" "j_status job = J_RUNNING"
      "job_transition job J_UNKNOWN ''lease_expired'' now = Inr job1"
      "expired_lease_step e now c s = (ToUnknown, upd_job k (\<lambda>j. job1\<lparr>j_ended_at := Some now\<rparr>) s)"
  | (failed) d k job where "get_job s k = Some job" "grace_expired e now job"
      "expired_lease_step e now c s = (ToFailed (failed_row job now),
         upd_job k (\<lambda>j. failed_row job now) (snd (handle_job_lease_release d k (Some job) now s)))"
proof (cases "get_lease s (l_id c)")
  case None
  then show thesis using skipped by (simp add: expired_lease_step_def)
next
  case (Some l)
  note l = get_lease_Some [OF Some]
  show thesis
  proof (cases "l_status l \<noteq> LS_ACTIVE \<or> l_expires_at l \<ge> now \<or> l_job_id c \<noteq> l_job_id l")
    case True
    with Some skipped show thesis by (auto simp: expired_lease_step_def)
  next
    case False
    show thesis
    proof (cases "l_job_id l")
      case None
      with Some False l orphan [of l] show thesis by (simp add: expired_lease_step_def)
    next
      case k: (Some k)
      show thesis
      proof (cases "get_job s k")
        case None
        with Some False k released [of k None "l_device_id l"] show thesis by (simp add: expired_lease_step_def)
      next
        case j: (Some job)
        have jid: "j_id job = k" using get_job_Some [OF j] by simp
        consider "terminal_status (j_status job)" | "j_status job = J_RUNNING"
          | "j_status job = J_UNKNOWN" "past_grace e now job"
          | "j_status job = J_UNKNOWN" "\<not> past_grace e now job" | "j_status job = J_PENDING"
          by (cases "j_status job") auto
        then show thesis
        proof cases
          case 1
          with Some False k j released [of k "Some job" "l_device_id l"] show thesis
            by (simp add: expired_lease_step_def)
        next
          case 2
          obtain job1 where "job_transition job J_UNKNOWN ''lease_expired'' now = Inr job1"
            using 2 by (simp add: job_transition_def valid_transition_def VALID_TRANSITIONS_def)
          with Some False k j 2 l unknown [of l k job job1] show thesis by (simp add: expired_lease_step_def)
        next
          case 3
          with Some False k j jid failed [of k job "l_device_id l"] fail_unknown_works [of job now] show thesis
            by (simp add: expired_lease_step_def grace_expired_def)
        next
          case 4
          with Some False k j skipped show thesis by (simp add: expired_lease_step_def)
        next
          case 5
          with Some False k j skipped show thesis by (simp add: expired_lease_step_def)
        qed
      qed
    qed
  qed
qed

lemma stale_step_cases:
  obtains (skipped) "stale_unknown_step e now k s = (Skipped, s)"
      "\<And>job. get_job s k = Some job \<Longrightarrow> \<not> grace_expired e now job"
  | (failed) job u where "get_job s k = Some job" "grace_expired e now job"
      "u = s \<or> (\<exists>d. u = snd (handle_job_lease_release d k (Some job) now s))"
      "stale_unknown_step e now k s = (ToFailed (failed_row job now), upd_job k (\<lambda>j. failed_row job now) u)"
proof (cases "get_job s k")
  case None
  then show thesis using skipped by (simp add: stale_unknown_step_def)
next
  case (Some job)
  have jid: "j_id job = k" using get_job_Some [OF Some] by simp
  show thesis
  proof (cases "grace_expired e now job")
    case True
    then have "j_status job = J_UNKNOWN" by (simp add: grace_expired_def)
    let ?u = "if get_job_lease s (j_device_id job) (j_id job) \<noteq> None
        then snd (handle_job_lease_release (j_device_id job) (j_id job) (Some job) now s) else s"
    have u: "?u = s \<or> (\<exists>d. ?u = snd (handle_job_lease_release d k (Some job) now s))" using jid by auto
    have "stale_unknown_step e now k s = (ToFailed (failed_row job now), upd_job k (\<lambda>j. failed_row job now) ?u)"
      unfolding stale_unknown_step_def using Some True jid fail_unknown_works [OF \<open>j_status job = J_UNKNOWN\<close>] by simp
    with failed [OF Some True u] show thesis by blast
  next
    case False
    with Some skipped show thesis by (simp add: stale_unknown_step_def)
  qed
qed

subsection \<open>The invariants of checks 1 and 2\<close>

definition reconciled :: "env \<Rightarrow> time \<Rightarrow> db \<Rightarrow> db \<Rightarrow> bool" where
  "reconciled e now s t \<longleftrightarrow> lease_wf t \<and> fence_step s t \<and> moves e now s t"

lemma reconciled_trans:
  "0 \<le> e_unknown_grace e \<Longrightarrow> reconciled e now s t \<Longrightarrow> reconciled e now t u \<Longrightarrow> reconciled e now s u"
  unfolding reconciled_def by (blast intro: fence_trans moves_trans)

lemma reconciled_refl: "lease_wf s \<Longrightarrow> reconciled e now s s"
  by (simp add: reconciled_def moves_refl)

lemma reconciled_handle:
  "lease_wf s \<Longrightarrow> reconciled e now s (snd (handle_job_lease_release d k job now' s))"
  using handle_recovery_step [of s "[]" d k job now']
  by (simp add: reconciled_def handle_async_wf recovery_step_def moves_same_jobs)

lemma upd_job_fence: "fence_step s (upd_job k f s)"
  by (rule same_leases_fence) simp

lemma settle_failed_moves:
  assumes g: "get_job s k = Some job" "grace_expired e now job" and u: "lease_wf u" "fence_step s u" "jobs u = jobs s"
    "pending_aggregation u = pending_aggregation s"
  shows "reconciled e now s
    (settle_verdict (ToFailed (failed_row job now), upd_job k (\<lambda>j. failed_row job now) u))"
proof -
  have jid: "j_id job = k" using get_job_Some [OF g(1)] by simp
  let ?t = "settle_verdict (ToFailed (failed_row job now), upd_job k (\<lambda>j. failed_row job now) u)"
  have t: "?t = snd (on_job_terminal (failed_row job now) (upd_job k (\<lambda>j. failed_row job now) u))"
    by (simp add: settle_verdict_def)
  have gu: "get_job u i = get_job s i" for i using u(3) by (simp add: get_job_def)
  have gt: "get_job ?t i = (if i = k then Some (failed_row job now) else get_job s i)" for i
    using get_job_replaced [of u k job "failed_row job now" i] gu g(1) jid by (simp add: t get_job_def)
  have p: "pending_aggregation ?t = (if (j_plan_run_id job, k) \<in> set (pending_aggregation s)
      then pending_aggregation s else pending_aggregation s @ [(j_plan_run_id job, k)])"
    unfolding t using u(4) jid by (simp add: on_job_terminal_def pending_insert_def upd_job_def)
  have "moves e now s ?t"
    unfolding moves_def
    using g gt p jid u(3) by (auto simp: t map_ids_upd_job job_move_def)
  moreover have "fence_step s ?t"
    unfolding t
    by (rule fence_trans [OF u(2) fence_trans [OF upd_job_fence same_leases_fence]], rule on_job_terminal_fields(3))
  ultimately show ?thesis using u(1) by (simp add: reconciled_def t)
qed

lemma expired_settled:
  assumes wf: "lease_wf s"
  shows "reconciled e now s (settle_verdict (expired_lease_step e now c s))"
proof (cases rule: expired_step_cases [of e now c s])
  case skipped
  with wf show ?thesis by (simp add: settle_verdict_def reconciled_refl)
next
  case (orphan l)
  have "moves e now s (upd_lease (l_id l) (mark_released now) s)"
    by (rule moves_same_jobs) (simp_all add: upd_lease_def)
  with orphan wf show ?thesis
    by (simp add: settle_verdict_def reconciled_def upd_lease_leases touch_wf touch_fence)
next
  case (released d k job)
  with wf show ?thesis by (simp add: settle_verdict_def reconciled_handle)
next
  case (unknown l k job job1)
  from job_transition_fields [OF unknown(6)] get_job_Some [OF unknown(4)]
  have "moves e now s (upd_job k (\<lambda>j. job1\<lparr>j_ended_at := Some now\<rparr>) s)"
    using unknown(5) by (intro moves_upd_job [OF unknown(4)]) (auto simp: job_move_def)
  with unknown wf show ?thesis by (simp add: settle_verdict_def reconciled_def upd_job_fence)
next
  case (failed d k job)
  have "reconciled e now s (snd (handle_job_lease_release d k (Some job) now s))"
    by (rule reconciled_handle [OF wf])
  with settle_failed_moves [OF failed(1,2)] failed(3) show ?thesis by (simp add: reconciled_def)
qed

lemma stale_settled:
  assumes wf: "lease_wf s"
  shows "reconciled e now s (settle_verdict (stale_unknown_step e now k s))"
proof (cases rule: stale_step_cases [of e now k s])
  case skipped
  with wf show ?thesis by (simp add: settle_verdict_def reconciled_refl)
next
  case (failed job u)
  have "reconciled e now s u" using failed(3) wf reconciled_handle reconciled_refl by blast
  moreover have "jobs u = jobs s" "pending_aggregation u = pending_aggregation s" using failed(3) by auto
  ultimately show ?thesis using settle_failed_moves [OF failed(1,2)] failed(4) by (simp add: reconciled_def)
qed


text \<open>A lease of a running job, or of one that this round has just turned UNKNOWN.\<close>

definition holding :: "time \<Rightarrow> nat \<Rightarrow> lease_row \<Rightarrow> db \<Rightarrow> bool" where
  "holding now k l s \<longleftrightarrow>
     l \<in> set (leases s) \<and> l_type l = LT_JOB \<and> l_status l = LS_ACTIVE \<and> l_job_id l = Some k
     \<and> (\<exists>job. get_job s k = Some job
          \<and> (j_status job = J_RUNNING \<or> j_status job = J_UNKNOWN \<and> j_ended_at job = Some now))"

text \<open>A RUNNING job none of whose leases has expired.\<close>

definition healthy :: "job_row \<Rightarrow> time \<Rightarrow> db \<Rightarrow> bool" where
  "healthy job now s \<longleftrightarrow>
     get_job s (j_id job) = Some job \<and> j_status job = J_RUNNING
     \<and> (\<forall>x\<in>set (leases s). l_status x = LS_ACTIVE \<and> l_job_id x = Some (j_id job) \<longrightarrow> now \<le> l_expires_at x)"

lemma holding_fresh:
  assumes "0 \<le> e_unknown_grace e" "holding now k l s" "get_job s k = Some job"
  shows "\<not> grace_expired e now job" "\<not> terminal_status (j_status job)"
  using assms by (auto simp: holding_def grace_expired_def past_grace_def)

lemma holding_handle:
  assumes "lease_wf s" "holding now k l s" "i \<noteq> k"
  shows "holding now k l (snd (handle_job_lease_release d i job now' s))"
  using assms handle_keeps_others [OF assms(1), of l i d job now'] by (simp add: holding_def)

lemma holding_upd_job:
  assumes h: "holding now k l s" and x: "get_job s i = Some x" and f: "\<And>j. j_id j = i \<Longrightarrow> j_id (f j) = i"
    and st: "i = k \<Longrightarrow> j_status (f x) = J_RUNNING \<and> j_status x = J_RUNNING
       \<or> j_status (f x) = J_UNKNOWN \<and> j_ended_at (f x) = Some now"
  shows "holding now k l (upd_job i f s)"
proof -
  have "leases (upd_job i f s) = leases s" by (simp add: upd_job_def)
  with h st show ?thesis by (auto simp: holding_def get_job_upd_fun [OF x f])
qed

lemma holding_settled_failed:
  assumes "holding now k l u" "get_job u i = Some job" "i \<noteq> k"
  shows "holding now k l (settle_verdict (ToFailed (failed_row job now), upd_job i (\<lambda>j. failed_row job now) u))"
proof -
  have "j_id job = i" using get_job_Some [OF assms(2)] by simp
  then have "holding now k l (upd_job i (\<lambda>j. failed_row job now) u)"
    using holding_upd_job [OF assms(1,2)] assms(3) by simp
  then show ?thesis by (simp add: settle_verdict_def holding_def get_job_def)
qed

lemma expired_holding:
  assumes wf: "lease_wf s" and g: "0 \<le> e_unknown_grace e" and h: "holding now k l s"
  shows "holding now k l (settle_verdict (expired_lease_step e now c s))"
proof (cases rule: expired_step_cases [of e now c s])
  case skipped
  with h show ?thesis by (simp add: settle_verdict_def)
next
  case (orphan x)
  have "l_id l \<noteq> l_id x"
    using lease_wf_id_unique [OF wf] h orphan(1,2) by (metis holding_def option.distinct(1))
  with h orphan(3) show ?thesis
    by (auto simp: settle_verdict_def holding_def upd_lease_def set_upd_where get_job_def)
next
  case (released d i job)
  then have "i \<noteq> k" using h by (auto simp: holding_def split: option.splits)
  with released holding_handle [OF wf h] show ?thesis by (simp add: settle_verdict_def)
next
  case (unknown x i job job1)
  have "j_id job1 = i" using job_transition_fields [OF unknown(6)] get_job_Some [OF unknown(4)] by simp
  moreover have "j_status job1 = J_UNKNOWN" using job_transition_fields [OF unknown(6)] by simp
  ultimately show ?thesis
    using unknown(7) holding_upd_job [OF h unknown(4)] by (simp add: settle_verdict_def)
next
  case (failed d i job)
  then have "i \<noteq> k" using holding_fresh [OF g h] by blast
  from holding_settled_failed [OF holding_handle [OF wf h this] _ this] failed show ?thesis by simp
qed

lemma stale_holding:
  assumes wf: "lease_wf s" and g: "0 \<le> e_unknown_grace e" and h: "holding now k l s"
  shows "holding now k l (settle_verdict (stale_unknown_step e now i s))"
proof (cases rule: stale_step_cases [of e now i s])
  case skipped
  with h show ?thesis by (simp add: settle_verdict_def)
next
  case (failed job u)
  then have ik: "i \<noteq> k" using holding_fresh [OF g h] by blast
  have "holding now k l u" using failed(3) h holding_handle [OF wf h ik] by blast
  moreover have "get_job u i = Some job" using failed(1,3) by auto
  ultimately show ?thesis using holding_settled_failed [OF _ _ ik] failed(4) by simp
qed

lemma get_job_on_terminal [simp]: "get_job (snd (on_job_terminal j s)) k = get_job s k"
  by (simp add: get_job_def)

lemma upd_job_leases [simp]: "leases (upd_job k f s) = leases s"
  by (simp add: upd_job_def)

lemma get_job_set_leases [simp]: "get_job (s\<lparr>leases := x\<rparr>) k = get_job s k"
  by (simp add: get_job_def)

lemma settle_get_job [simp]: "get_job (settle_verdict r) i = get_job (snd r) i"
  by (cases r; cases "fst r") (simp_all add: settle_verdict_def get_job_def)

lemma get_job_upd_other: "i \<noteq> k \<Longrightarrow> get_job s i = Some x \<Longrightarrow> j_id y = i \<Longrightarrow> get_job (upd_job i (\<lambda>j. y) s) k = get_job s k"
  using get_job_replaced [of s i x y k] get_job_Some [of s i x] by simp

text \<open>The release entry makes no new ACTIVE lease of a job.\<close>

definition no_new_leases :: "db \<Rightarrow> db \<Rightarrow> bool" where
  "no_new_leases s t \<longleftrightarrow>
     (\<forall>l\<in>set (leases t). l_status l = LS_ACTIVE \<and> l_job_id l \<noteq> None \<longrightarrow> l \<in> set (leases s))"

lemma no_new_upd:
  assumes "\<And>l. l_status (f l) \<noteq> LS_ACTIVE \<or> l_job_id (f l) = None"
  shows "no_new_leases s (upd_leases P f s)"
  using assms by (auto simp: no_new_leases_def upd_leases_def set_upd_where)

lemma settle_no_new: "no_new_leases s (snd (settle_lease_sync d j lease now s))"
proof -
  have r: "no_new_leases s (snd (release_job_lease_sync d j now s))"
    unfolding release_job_lease_sync_def snd_conv by (rule no_new_upd) simp
  have q: "no_new_leases s (snd (acquire_debt_lease_sync d now s))"
    by (auto simp: acquire_debt_lease_sync_def Let_def no_new_leases_def insert_lease_def split: option.splits)
  have c: "no_new_leases s (snd (convert_active_job_to_debt_lease_sync d l now s))" for l
    by (auto simp: convert_active_job_to_debt_lease_sync_def Let_def upd_lease_def no_new_leases_def set_upd_where)
  show ?thesis using r q c
    by (auto simp: settle_lease_sync_def Let_def split_beta no_new_leases_def split: option.splits)
qed

lemma handle_no_new: "no_new_leases s (snd (handle_job_lease_release d j job now s))"
proof (rule handle_settles [of s d j job now])
  fix s1 assume ro: "returns_only s s1" and h: "handle_job_lease_release_sync d j job now s
     = (if get_device s d = None
        then (\<lparr>lo_released = False, lo_converted_to_debt = False, lo_open_debt_count = 0,
               lo_fencing_token = None\<rparr>, s)
        else settle_lease_sync d j (get_active_lease s1 d) now s1)"
  from ro settle_no_new [of s1 d j "get_active_lease s1 d" now] show ?thesis
    unfolding handle_async_sync h by (auto simp: no_new_leases_def returns_only_def)
qed

lemma settle_leases [simp]: "leases (settle_verdict r) = leases (snd r)"
  by (cases r; cases "fst r") (simp_all add: settle_verdict_def)

lemma healthy_no_new:
  "no_new_leases s t \<Longrightarrow> get_job t (j_id job) = get_job s (j_id job) \<Longrightarrow> healthy job now s \<Longrightarrow> healthy job now t"
  by (auto simp: healthy_def no_new_leases_def)

lemma no_new_same: "leases t = leases s \<Longrightarrow> no_new_leases s t"
  by (simp add: no_new_leases_def)

lemma expired_healthy:
  assumes g: "0 \<le> e_unknown_grace e" and h: "healthy job now s"
  shows "healthy job now (settle_verdict (expired_lease_step e now c s))"
proof -
  let ?k = "j_id job" and ?t = "settle_verdict (expired_lease_step e now c s)"
  from h have j: "get_job s ?k = Some job" "j_status job = J_RUNNING" by (auto simp: healthy_def)
  have "no_new_leases s ?t \<and> get_job ?t ?k = get_job s ?k"
  proof (cases rule: expired_step_cases [of e now c s])
    case skipped
    then show ?thesis by (simp add: no_new_same)
  next
    case (orphan x)
    then show ?thesis
      by (auto simp: no_new_leases_def upd_lease_def set_upd_where mark_released_def)
  next
    case (released d i job0)
    then show ?thesis using handle_no_new by (simp add: no_new_leases_def)
  next
    case (unknown x i job0 job1)
    have "i \<noteq> ?k" using h unknown(1-3) by (fastforce simp: healthy_def)
    with unknown get_job_Some [OF unknown(4)] job_transition_fields [OF unknown(6)] show ?thesis
      by (simp add: get_job_upd_other [OF _ unknown(4)] no_new_same)
  next
    case (failed d i job0)
    have "i \<noteq> ?k" using failed(1,2) j by (auto simp: grace_expired_def)
    with failed get_job_Some [OF failed(1)] handle_no_new [of s d i "Some job0" now] show ?thesis
      by (simp add: get_job_upd_other [where x = job0] no_new_leases_def)
  qed
  with h show ?thesis using healthy_no_new by blast
qed

lemma stale_healthy:
  assumes h: "healthy job now s"
  shows "healthy job now (settle_verdict (stale_unknown_step e now i s))"
proof (cases rule: stale_step_cases [of e now i s])
  case skipped
  with h show ?thesis by (simp add: settle_verdict_def)
next
  case (failed job0 u)
  have "i \<noteq> j_id job" using failed(1,2) h by (auto simp: grace_expired_def healthy_def)
  moreover have u: "no_new_leases s u" "get_job u i = Some job0" "get_job u (j_id job) = get_job s (j_id job)"
    using failed(1,3) handle_no_new by (auto simp: no_new_same)
  moreover have "j_id job0 = i" using get_job_Some [OF failed(1)] by simp
  ultimately have "get_job (settle_verdict (stale_unknown_step e now i s)) (j_id job) = get_job s (j_id job)"
    by (simp add: failed(4) get_job_upd_other [OF _ u(2)])
  moreover have "no_new_leases s (settle_verdict (stale_unknown_step e now i s))"
    using u(1) by (simp add: failed(4) no_new_leases_def)
  ultimately show ?thesis using h healthy_no_new by blast
qed

subsection \<open>Every check is safe\<close>

definition safe_step :: "env \<Rightarrow> time \<Rightarrow> db \<Rightarrow> db \<Rightarrow> bool" where
  "safe_step e now s t \<longleftrightarrow>
     reconciled e now s t \<and> (\<forall>k l. holding now k l s \<longrightarrow> holding now k l t)
     \<and> (\<forall>job. healthy job now s \<longrightarrow> healthy job now t)"

lemma safe_trans:
  "0 \<le> e_unknown_grace e \<Longrightarrow> safe_step e now s t \<Longrightarrow> safe_step e now t u \<Longrightarrow> safe_step e now s u"
  unfolding safe_step_def using reconciled_trans by blast

lemma safe_refl: "lease_wf s \<Longrightarrow> safe_step e now s s"
  by (simp add: safe_step_def reconciled_refl)

lemma safe_wf: "safe_step e now s t \<Longrightarrow> lease_wf t"
  by (simp add: safe_step_def reconciled_def)

lemma expired_safe:
  "lease_wf s \<Longrightarrow> 0 \<le> e_unknown_grace e \<Longrightarrow> safe_step e now s (settle_verdict (expired_lease_step e now c s))"
  by (simp add: safe_step_def expired_settled expired_holding expired_healthy)

lemma stale_safe:
  "lease_wf s \<Longrightarrow> 0 \<le> e_unknown_grace e \<Longrightarrow> safe_step e now s (settle_verdict (stale_unknown_step e now i s))"
  by (simp add: safe_step_def stale_settled stale_holding stale_healthy)

interpretation expired_drain:
  guarded_drain "expired_lease_step e now" "\<lambda>t. 0 \<le> e_unknown_grace e \<longrightarrow> safe_step e now s t"
  by unfold_locales (auto intro: safe_trans [OF _ _ expired_safe] safe_wf)

interpretation stale_drain:
  guarded_drain "stale_unknown_step e now" "\<lambda>t. 0 \<le> e_unknown_grace e \<longrightarrow> safe_step e now s t"
  by unfold_locales (auto intro: safe_trans [OF _ _ stale_safe] safe_wf)

lemma expired_check_safe:
  "lease_wf s \<Longrightarrow> 0 \<le> e_unknown_grace e \<Longrightarrow> safe_step e now s (snd (reconcile_expired_leases e batch now scan s))"
  using expired_drain.drain_inv [of e now s s batch "expired_candidates now scan" 0]
  by (simp add: reconcile_expired_leases_def split_beta safe_refl)

lemma stale_check_safe:
  "lease_wf s \<Longrightarrow> 0 \<le> e_unknown_grace e \<Longrightarrow> safe_step e now s (snd (reconcile_stale_unknown_jobs e batch now scan s))"
  using stale_drain.drain_inv [of e now s s batch "stale_candidates e now scan" 0]
  by (simp add: reconcile_stale_unknown_jobs_def split_beta safe_refl)

lemma terminal_rows_fold:
  assumes "lease_wf s" "0 \<le> e_unknown_grace e"
    and "\<forall>r\<in>set rows. \<exists>job. get_job s (snd r) = Some job \<and> terminal_status (j_status job)"
  shows "safe_step e now s (fold (\<lambda>(d, jid) u. snd (handle_job_lease_release d jid None now u)) rows s)"
  using assms
proof (induction rows arbitrary: s)
  case Nil
  then show ?case by (simp add: safe_refl)
next
  case (Cons r rows)
  obtain d i where r: "r = (d, i)" by (cases r)
  let ?t = "snd (handle_job_lease_release d i None now s)"
  from Cons.prems(3) r obtain job where job: "get_job s i = Some job" "terminal_status (j_status job)" by auto
  have "holding now k l ?t" if "holding now k l s" for k l
  proof -
    have "i \<noteq> k" using holding_fresh(2) [OF Cons.prems(2) that, of job] job by auto
    then show ?thesis by (rule holding_handle [OF Cons.prems(1) that])
  qed
  moreover have "healthy x now ?t" if "healthy x now s" for x
    using healthy_no_new [OF handle_no_new _ that] by simp
  ultimately have s: "safe_step e now s ?t" by (simp add: safe_step_def reconciled_handle Cons.prems(1))
  from Cons.IH [OF safe_wf [OF s] Cons.prems(2)] Cons.prems(3)
  show ?case using safe_trans [OF Cons.prems(2) s] by (simp add: r)
qed

lemma terminal_check_safe:
  assumes "lease_wf s" "0 \<le> e_unknown_grace e"
  shows "safe_step e now s (snd (reconcile_terminal_job_active_leases now s s))"
proof -
  have "\<forall>r\<in>set (terminal_lease_rows s). \<exists>job. get_job s (snd r) = Some job \<and> terminal_status (j_status job)"
    by (auto simp: terminal_lease_rows_def List.map_filter_def split: option.splits if_splits)
  from terminal_rows_fold [OF assms this] show ?thesis by (simp add: reconcile_terminal_job_active_leases_def)
qed

subsection \<open>The abort reaper\<close>

lemma upd_job_twice:
  assumes "\<And>j. j_id (g j) = j_id j"
  shows "upd_job k f (upd_job k g s) = upd_job k (\<lambda>j. f (g j)) s"
  using assms by (simp add: upd_job_def upd_where_def comp_def)

lemma guard_deadline_db:
  "snd (job_guard_deadline e job now False s) = s
   \<or> (\<exists>g. snd (job_guard_deadline e job now False s) = upd_job (j_id job) (\<lambda>j. j\<lparr>j_disarm_guard := g\<rparr>) s)"
  by (auto simp: job_guard_deadline_def split: option.splits)

lemma recheck_cases:
  obtains (kept) "abort_reaper_recheck_job e k now reason s = (False, s)"
  | (noted) job g where "get_job s k = Some job"
      "abort_reaper_recheck_job e k now reason s = (False, upd_job k (\<lambda>j. j\<lparr>j_disarm_guard := g\<rparr>) s)"
  | (reaped) job f where "get_job s k = Some job" "j_status job = J_RUNNING"
      "\<And>j. j_id (f j) = k" "\<And>j. j_status (f j) = J_UNKNOWN" "\<And>j. j_ended_at (f j) = Some now"
      "\<And>j. j_plan_run_id (f j) = j_plan_run_id job"
      "abort_reaper_recheck_job e k now reason s = (True, upd_job k f s)"
proof (cases "get_job s k")
  case None
  then show thesis using kept by (simp add: abort_reaper_recheck_job_def)
next
  case (Some job)
  have id: "j_id job = k" using get_job_Some [OF Some] by simp
  show thesis
  proof (cases "abort_reap_clock (abort_context s job) (j_id job) (j_host_id job)")
    case None
    with Some kept show thesis by (simp add: abort_reaper_recheck_job_def)
  next
    case (Some ca)
    then obtain a b where clock: "abort_reap_clock (abort_context s job) (j_id job) (j_host_id job) = Some (a, b)"
      by (cases ca) auto
    note Some = \<open>get_job s k = Some job\<close>
    let ?at = "case j_disarm_guard job of None \<Rightarrow> a | Some g \<Rightarrow> min a (g_t0 g)"
    let ?dl = "job_guard_deadline e job now False s"
    let ?gs = "if j_disarm_guard job \<noteq> None then (fst ?dl \<noteq> None, snd ?dl)
               else (disarm_grace_defers_reap e job ?at now, s)"
    let ?F = "\<lambda>job1 j. job1\<lparr>j_disarm_guard := j_disarm_guard j, j_ended_at := Some now\<rparr>"
    have s1: "snd ?gs = s \<or> (\<exists>g. snd ?gs = upd_job k (\<lambda>j. j\<lparr>j_disarm_guard := g\<rparr>) s)"
      using guard_deadline_db [of e job now s] id by auto
    show thesis
    proof (cases "j_status job \<noteq> J_RUNNING \<or> now - ?at \<le> e_abort_ack_grace e")
      case True
      then have "abort_reaper_recheck_job e k now reason s = (False, s)"
        using Some clock by (auto simp: abort_reaper_recheck_job_def Let_def)
      with kept show thesis by blast
    next
      case False
      then obtain job1 where job1: "job_transition job J_UNKNOWN reason now = Inr job1"
        by (simp add: job_transition_def valid_transition_def VALID_TRANSITIONS_def)
      have r: "abort_reaper_recheck_job e k now reason s
          = (if fst ?gs then (False, snd ?gs) else (True, upd_job k (?F job1) (snd ?gs)))"
        using Some clock False job1
        by (cases ?dl; cases "j_disarm_guard job") (simp_all add: abort_reaper_recheck_job_def Let_def)
      note fields = job_transition_fields [OF job1]
      show thesis
      proof (cases "fst ?gs")
        case True
        with r s1 kept noted [OF Some] show thesis by auto
      next
        case ng: False
        from s1 show thesis
        proof (elim disjE exE)
          assume "snd ?gs = s"
          with r ng have "abort_reaper_recheck_job e k now reason s = (True, upd_job k (?F job1) s)" by simp
          from reaped [OF Some _ _ _ _ _ this] False fields id show thesis by simp
        next
          fix g assume "snd ?gs = upd_job k (\<lambda>j. j\<lparr>j_disarm_guard := g\<rparr>) s"
          with r ng have "abort_reaper_recheck_job e k now reason s
              = (True, upd_job k (\<lambda>j. ?F job1 (j\<lparr>j_disarm_guard := g\<rparr>)) s)" by (simp add: upd_job_twice)
          from reaped [OF Some _ _ _ _ _ this] False fields id show thesis by simp
        qed
      qed
    qed
  qed
qed

definition safe_but :: "env \<Rightarrow> time \<Rightarrow> nat set \<Rightarrow> db \<Rightarrow> db \<Rightarrow> bool" where
  "safe_but e now K s t \<longleftrightarrow>
     reconciled e now s t \<and> (\<forall>k l. holding now k l s \<longrightarrow> holding now k l t)
     \<and> (\<forall>job. healthy job now s \<and> j_id job \<notin> K \<longrightarrow> healthy job now t)"

lemma reap_safe:
  assumes wf: "lease_wf s"
  shows "safe_but e now {k} s (snd (abort_reaper_recheck_job e k now reason s))" (is "safe_but e now {k} s ?t")
proof (cases rule: recheck_cases [of e k now reason s])
  case kept
  with wf show ?thesis by (simp add: safe_but_def reconciled_refl)
next
  case (noted job g)
  let ?f = "\<lambda>j. j\<lparr>j_disarm_guard := g\<rparr>"
  have t: "?t = upd_job k ?f s" using noted(2) by simp
  have "moves e now s ?t" unfolding t using noted(1) by (intro moves_upd_job) (auto simp: job_move_def)
  moreover have "holding now i l ?t" if "holding now i l s" for i l
    unfolding t using that noted(1) by (intro holding_upd_job [OF that]) (auto simp: holding_def)
  ultimately show ?thesis using wf
    by (auto simp: safe_but_def reconciled_def t upd_job_fence healthy_def get_job_upd_fun [OF noted(1)])
next
  case (reaped job f)
  have t: "?t = upd_job k f s" using reaped(7) by simp
  have "moves e now s ?t" unfolding t using reaped by (intro moves_upd_job) (auto simp: job_move_def)
  moreover have "holding now i l ?t" if "holding now i l s" for i l
    unfolding t using that reaped by (intro holding_upd_job [OF that]) auto
  ultimately show ?thesis using wf reaped(3)
    by (auto simp: safe_but_def reconciled_def t upd_job_fence healthy_def get_job_upd_fun [OF reaped(1)])
qed

lemma reap_all_safe:
  assumes "lease_wf s" "0 \<le> e_unknown_grace e"
  shows "safe_but e now (fst ` set cs) s (snd (run_batch (\<lambda>(k, r). abort_reaper_recheck_job e k now r) cs s))"
  using assms(1)
proof (induction cs arbitrary: s)
  case Nil
  then show ?case by (simp add: safe_but_def reconciled_refl)
next
  case (Cons c cs)
  obtain k r where c: "c = (k, r)" by (cases c)
  let ?u = "snd (abort_reaper_recheck_job e k now r s)"
  let ?t = "snd (run_batch (\<lambda>(k, r). abort_reaper_recheck_job e k now r) cs ?u)"
  have one: "safe_but e now {k} s ?u" by (rule reap_safe [OF Cons.prems])
  then have "lease_wf ?u" by (simp add: safe_but_def reconciled_def)
  from Cons.IH [OF this] have more: "safe_but e now (fst ` set cs) ?u ?t" .
  have "reconciled e now s ?t"
    using reconciled_trans [OF assms(2)] one more unfolding safe_but_def by blast
  moreover have "holding now i l ?t" if "holding now i l s" for i l
    using one more that by (simp add: safe_but_def)
  moreover have "healthy job now ?t" if "healthy job now s" "j_id job \<notin> insert k (fst ` set cs)" for job
    using one more that by (simp add: safe_but_def)
  moreover have "snd (run_batch (\<lambda>(k, r). abort_reaper_recheck_job e k now r) (c # cs) s) = ?t"
    by (simp add: c split_beta Let_def)
  ultimately show ?case by (simp add: safe_but_def c)
qed

lemma abort_check_safe:
  "lease_wf s \<Longrightarrow> 0 \<le> e_unknown_grace e \<Longrightarrow>
     safe_but e now (fst ` set (reap_candidates e now scan)) s (snd (reconcile_aborted_running_jobs e now scan s))"
  using reap_all_safe [of s e now "reap_candidates e now scan"]
  by (simp add: reconcile_aborted_running_jobs_def split_beta)

subsection \<open>A round\<close>

lemma safe_but_trans:
  assumes "0 \<le> e_unknown_grace e" "safe_but e now K s t" "safe_step e now t u"
  shows "safe_but e now K s u"
  using assms reconciled_trans [OF assms(1)] unfolding safe_but_def safe_step_def by blast

lemma checks_safe:
  assumes wf: "lease_wf s" and g: "0 \<le> e_unknown_grace e"
  shows "safe_but e now (fst ` set (reap_candidates e now s)) s (reconcile_checks e batch now s)"
proof -
  let ?s1 = "snd (reconcile_aborted_running_jobs e now s s)"
  let ?s2 = "snd (reconcile_expired_leases e batch now ?s1 ?s1)"
  let ?s3 = "snd (reconcile_stale_unknown_jobs e batch now ?s2 ?s2)"
  have 1: "safe_but e now (fst ` set (reap_candidates e now s)) s ?s1" by (rule abort_check_safe [OF wf g])
  then have w1: "lease_wf ?s1" by (simp add: safe_but_def reconciled_def)
  note 2 = expired_check_safe [OF w1 g]
  note 3 = stale_check_safe [OF safe_wf [OF 2] g]
  note 4 = terminal_check_safe [OF safe_wf [OF 3] g]
  show ?thesis unfolding reconcile_checks_def Let_def
    by (rule safe_but_trans [OF g safe_but_trans [OF g safe_but_trans [OF g 1 2] 3] 4])
qed

lemma in_map_filter: "x \<in> set (List.map_filter f xs) \<longleftrightarrow> (\<exists>y\<in>set xs. f y = Some x)"
  by (induction xs) (auto split: option.splits)

lemma reap_entry_Some:
  assumes "reap_entry e now s job = Some (k, r)"
  shows "j_id job = k \<and> (\<exists>at sub. abort_reap_clock (abort_context s job) (j_id job) (j_host_id job) = Some (at, sub)
    \<and> at < now - e_abort_ack_grace e)"
  using assms
  by (cases "abort_reap_clock (abort_context s job) (j_id job) (j_host_id job)")
     (auto simp: reap_entry_def split: if_splits)

lemma not_reaped:
  assumes d: "distinct (map j_id (jobs s))" and j: "get_job s (j_id job) = Some job"
    and clock: "\<And>at subject. abort_reap_clock (abort_context s job) (j_id job) (j_host_id job) = Some (at, subject)
      \<Longrightarrow> now - e_abort_ack_grace e \<le> at"
  shows "j_id job \<notin> fst ` set (reap_candidates e now s)"
proof
  assume "j_id job \<in> fst ` set (reap_candidates e now s)"
  then obtain j' r where j': "j' \<in> set (jobs s)" "reap_entry e now s j' = Some (j_id job, r)"
    by (auto simp: reap_candidates_def in_map_filter)
  from reap_entry_Some [OF j'(2)] obtain at sub where at: "j_id j' = j_id job"
    "abort_reap_clock (abort_context s j') (j_id j') (j_host_id j') = Some (at, sub)"
    "at < now - e_abort_ack_grace e" by metis
  have "j' = job" using distinct_map_single [OF d j'(1)] get_job_Some [OF j] at(1) by blast
  with at clock [of at sub] show False by simp
qed

text \<open>
  C6. A round of the reconciler keeps the lease invariant and the fencing order and moves jobs only
  forward: RUNNING to UNKNOWN, or UNKNOWN past its grace to FAILED with the plan run marked.  It
  never takes the ACTIVE lease of a job that was RUNNING when the round began, so a device stays
  blocked while its job is in doubt; and a RUNNING job whose leases have not expired and whose abort,
  if any, is within the acknowledgement grace is left exactly as it is.
\<close>

theorem reconciler_safe:
  assumes wf: "lease_wf s" and ids: "distinct (map j_id (jobs s))" and g: "0 \<le> e_unknown_grace e"
    and t: "t = reconcile_checks e batch now s"
  shows "lease_wf t \<and> fence_step s t
    \<and> (\<forall>k j. get_job s k = Some j \<longrightarrow> (\<exists>j'. get_job t k = Some j' \<and> job_move e now j j'
         \<and> (j_status j \<noteq> J_FAILED \<and> j_status j' = J_FAILED \<longrightarrow> (j_plan_run_id j, k) \<in> set (pending_aggregation t))))
    \<and> (\<forall>l\<in>set (leases s). \<forall>k j. l_type l = LT_JOB \<and> l_status l = LS_ACTIVE \<and> l_job_id l = Some k
         \<and> get_job s k = Some j \<and> j_status j = J_RUNNING \<longrightarrow> l \<in> set (leases t))
    \<and> (\<forall>job. healthy job now s
         \<and> (\<forall>at subject. abort_reap_clock (abort_context s job) (j_id job) (j_host_id job) = Some (at, subject)
              \<longrightarrow> now - e_abort_ack_grace e \<le> at)
         \<longrightarrow> get_job t (j_id job) = Some job)"
proof -
  note safe = checks_safe [OF wf g, of now batch, folded t]
  have "get_job t (j_id job) = Some job" if h: "healthy job now s"
    and c: "\<forall>at subject. abort_reap_clock (abort_context s job) (j_id job) (j_host_id job) = Some (at, subject)
      \<longrightarrow> now - e_abort_ack_grace e \<le> at" for job
  proof -
    have "j_id job \<notin> fst ` set (reap_candidates e now s)"
      using not_reaped [OF ids] h c by (simp add: healthy_def)
    with safe h have "healthy job now t" by (simp add: safe_but_def)
    then show ?thesis by (simp add: healthy_def)
  qed
  moreover have "l \<in> set (leases t)" if "l \<in> set (leases s)" "l_type l = LT_JOB" "l_status l = LS_ACTIVE"
    "l_job_id l = Some k" "get_job s k = Some j" "j_status j = J_RUNNING" for l k j
  proof -
    have "holding now k l s" using that by (simp add: holding_def)
    with safe have "holding now k l t" by (simp add: safe_but_def)
    then show ?thesis by (simp add: holding_def)
  qed
  moreover have "lease_wf t" "fence_step s t" "moves e now s t"
    using safe by (simp_all add: safe_but_def reconciled_def)
  ultimately show ?thesis unfolding moves_def by blast
qed

subsection \<open>The backlog is drained\<close>

definition expired_ids :: "env \<Rightarrow> time \<Rightarrow> db \<Rightarrow> nat set" where
  "expired_ids e now s = {k. \<exists>j. get_job s k = Some j \<and> grace_expired e now j}"

lemma expired_ids_set:
  assumes "distinct (map j_id (jobs s))"
  shows "expired_ids e now s = j_id ` set (filter (grace_expired e now) (jobs s))"
proof -
  have "get_job s (j_id j) = Some j" if "j \<in> set (jobs s)" for j
    unfolding get_job_def by (rule first_row_key [OF assms that])
  then show ?thesis by (auto simp: expired_ids_def dest: get_job_Some)
qed

lemma backlog_card:
  assumes d: "distinct (map j_id (jobs s))"
  shows "unknown_backlog e now s = card (expired_ids e now s)" "finite (expired_ids e now s)"
proof -
  let ?xs = "filter (grace_expired e now) (jobs s)"
  have "distinct (map j_id ?xs)" using d by (simp add: distinct_map_filter)
  from distinct_card [OF this] show "unknown_backlog e now s = card (expired_ids e now s)"
    by (simp add: expired_ids_set [OF d] unknown_backlog_def)
  show "finite (expired_ids e now s)" by (simp add: expired_ids_set [OF d])
qed

lemma moves_expired:
  assumes m: "moves e now s t" and g: "0 \<le> e_unknown_grace e"
  shows "expired_ids e now t \<subseteq> expired_ids e now s"
proof
  fix k assume "k \<in> expired_ids e now t"
  then obtain j' where j': "get_job t k = Some j'" "grace_expired e now j'" by (auto simp: expired_ids_def)
  from get_job_Some [OF j'(1)] have "k \<in> set (map j_id (jobs t))" by auto
  with m have "k \<in> set (map j_id (jobs s))" by (simp only: moves_def)
  then have "get_job s k \<noteq> None" by (auto simp: get_job_def filter_empty_conv)
  then obtain j where j: "get_job s k = Some j" by auto
  from moves_job [OF m j] j'(1) have "job_move e now j j'" by auto
  then have "grace_expired e now j"
    unfolding job_move_def using j'(2) g
    by (elim disjE conjE) (simp_all add: grace_expired_def past_grace_def)
  with j show "k \<in> expired_ids e now s" by (auto simp: expired_ids_def)
qed

lemma safe_expired: "safe_step e now s t \<Longrightarrow> 0 \<le> e_unknown_grace e \<Longrightarrow> expired_ids e now t \<subseteq> expired_ids e now s"
  by (rule moves_expired) (simp_all add: safe_step_def reconciled_def)

lemma stale_drain_removes:
  assumes "lease_wf s" and g: "0 \<le> e_unknown_grace e" and "distinct cs" "set cs \<subseteq> expired_ids e now s"
  shows "expired_ids e now (snd (drain_candidates (stale_unknown_step e now) batch cs n s))
    \<inter> set (take (batch - n) cs) = {}"
  using assms(1,3,4)
proof (induction cs arbitrary: n s)
  case Nil
  then show ?case by simp
next
  case (Cons c cs)
  show ?case
  proof (cases "batch \<le> n")
    case True
    then show ?thesis by simp
  next
    case False
    let ?t1 = "settle_verdict (stale_unknown_step e now c s)"
    let ?t = "snd (drain_candidates (stale_unknown_step e now) batch cs (Suc n) ?t1)"
    from Cons.prems(3) obtain job where job: "get_job s c = Some job" "grace_expired e now job"
      by (auto simp: expired_ids_def)
    have run: "snd (drain_candidates (stale_unknown_step e now) batch (c # cs) n s) = ?t
       \<and> get_job ?t1 c = Some (failed_row job now) \<and> (\<forall>i. i \<noteq> c \<longrightarrow> get_job ?t1 i = get_job s i)"
    proof (cases rule: stale_step_cases [of e now c s])
      case skipped
      with job show ?thesis by blast
    next
      case (failed job0 u)
      have u: "get_job u i = get_job s i" for i using failed(3) by auto
      have "j_id job = c" using get_job_Some [OF job(1)] by simp
      then have "get_job (upd_job c (\<lambda>j. failed_row job now) u) i
          = (if i = c then Some (failed_row job now) else get_job s i)" for i
        using get_job_upd_fun [of u c job "\<lambda>j. failed_row job now" i] job(1) u by simp
      with failed job False show ?thesis by (simp add: settle_verdict_def split_beta)
    qed
    then have run1: "snd (drain_candidates (stale_unknown_step e now) batch (c # cs) n s) = ?t"
      and run2: "get_job ?t1 c = Some (failed_row job now)"
      and run3: "\<And>i. i \<noteq> c \<Longrightarrow> get_job ?t1 i = get_job s i" by blast+
    have safe1: "safe_step e now s ?t1" by (rule stale_safe [OF Cons.prems(1) g])
    have sub: "set cs \<subseteq> expired_ids e now ?t1"
    proof
      fix i assume "i \<in> set cs"
      with Cons.prems(2,3) have "i \<noteq> c" "i \<in> expired_ids e now s" by auto
      then show "i \<in> expired_ids e now ?t1" by (simp add: expired_ids_def run3 del: settle_get_job)
    qed
    have cn: "c \<notin> expired_ids e now ?t1"
      using run2 by (auto simp: expired_ids_def grace_expired_def)
    have "safe_step e now ?t1 ?t"
      using stale_drain.drain_inv [of e now ?t1 ?t1 batch cs "Suc n"] safe_refl [OF safe_wf [OF safe1]] g by simp
    from safe_expired [OF this g] cn have "c \<notin> expired_ids e now ?t" by auto
    moreover have "expired_ids e now ?t \<inter> set (take (batch - Suc n) cs) = {}"
      using Cons.IH [OF safe_wf [OF safe1] _ sub] Cons.prems(2) by simp
    moreover have "take (batch - n) (c # cs) = c # take (batch - Suc n) cs"
      using False by (simp add: Suc_diff_Suc [symmetric])
    ultimately show ?thesis unfolding run1 by simp
  qed
qed

lemma stale_check_shrinks:
  assumes wf: "lease_wf s" and g: "0 \<le> e_unknown_grace e" and d: "distinct (map j_id (jobs s))"
  shows "card (expired_ids e now (snd (reconcile_stale_unknown_jobs e batch now s s)))
    \<le> card (expired_ids e now s) - batch"
proof -
  let ?t = "snd (reconcile_stale_unknown_jobs e batch now s s)" and ?cs = "stale_candidates e now s"
  have set: "set ?cs = expired_ids e now s"
    by (simp add: stale_candidates_def expired_ids_set [OF d])
  have dist: "distinct ?cs" using d by (simp add: stale_candidates_def distinct_map_filter)
  have len: "length ?cs = card (expired_ids e now s)" using distinct_card [OF dist] set by simp
  have disj: "expired_ids e now ?t \<inter> set (take batch ?cs) = {}"
    using stale_drain_removes [OF wf g dist, of now batch 0] set
    by (simp add: reconcile_stale_unknown_jobs_def split_beta)
  have sub: "expired_ids e now ?t \<subseteq> expired_ids e now s"
    by (rule safe_expired [OF stale_check_safe [OF wf g] g])
  with disj have "expired_ids e now ?t \<subseteq> expired_ids e now s - set (take batch ?cs)" by blast
  moreover have "finite (expired_ids e now s)" by (rule backlog_card(2) [OF d])
  ultimately have "card (expired_ids e now ?t) \<le> card (expired_ids e now s - set (take batch ?cs))"
    by (intro card_mono) auto
  also have "\<dots> = card (expired_ids e now s) - card (set (take batch ?cs))"
    using set set_take_subset [of batch ?cs] by (intro card_Diff_subset) auto
  also have "card (set (take batch ?cs)) = min (length ?cs) batch"
    using distinct_card [OF distinct_take [OF dist]] by simp
  finally show ?thesis using len by (auto simp: min_def split: if_splits)
qed

lemma checks_shrink:
  assumes wf: "lease_wf s" and g: "0 \<le> e_unknown_grace e" and d: "distinct (map j_id (jobs s))"
  shows "unknown_backlog e now (reconcile_checks e batch now s) \<le> unknown_backlog e now s - batch"
    and "lease_wf (reconcile_checks e batch now s)"
    and "moves e now s (reconcile_checks e batch now s)"
    and "distinct (map j_id (jobs (reconcile_checks e batch now s)))"
proof -
  let ?s1 = "snd (reconcile_aborted_running_jobs e now s s)"
  let ?s2 = "snd (reconcile_expired_leases e batch now ?s1 ?s1)"
  let ?s3 = "snd (reconcile_stale_unknown_jobs e batch now ?s2 ?s2)"
  let ?t = "reconcile_checks e batch now s"
  note all = checks_safe [OF wf g, of now batch]
  then show w: "lease_wf ?t" and m: "moves e now s ?t" by (simp_all add: safe_but_def reconciled_def)
  from m d show dt: "distinct (map j_id (jobs ?t))" by (simp add: moves_def)
  have 1: "lease_wf ?s1" "moves e now s ?s1"
    using abort_check_safe [OF wf g] by (simp_all add: safe_but_def reconciled_def)
  have d1: "distinct (map j_id (jobs ?s1))" using 1(2) d by (simp add: moves_def)
  note 2 = expired_check_safe [OF 1(1) g]
  have d2: "distinct (map j_id (jobs ?s2))"
    using 2 [where now = now and batch = batch and scan = ?s1] d1 by (simp add: safe_step_def reconciled_def moves_def)
  note 3 = stale_check_safe [OF safe_wf [OF 2] g]
  note 4 = terminal_check_safe [OF safe_wf [OF 3] g]
  have t: "?t = snd (reconcile_terminal_job_active_leases now ?s3 ?s3)"
    by (simp add: reconcile_checks_def Let_def)
  have "expired_ids e now ?s2 \<subseteq> expired_ids e now s"
    using safe_expired [OF 2 g] moves_expired [OF 1(2) g] by blast
  from card_mono [OF backlog_card(2) [OF d] this]
  have le2: "card (expired_ids e now ?s2) \<le> card (expired_ids e now s)" .
  have d3: "distinct (map j_id (jobs ?s3))"
    using 3 [where now = now and batch = batch and scan = ?s2] d2 by (simp add: safe_step_def reconciled_def moves_def)
  have "card (expired_ids e now ?t) \<le> card (expired_ids e now ?s3)"
    unfolding t by (rule card_mono [OF backlog_card(2) [OF d3] safe_expired [OF 4 g]])
  also have "\<dots> \<le> card (expired_ids e now ?s2) - batch"
    by (rule stale_check_shrinks [OF safe_wf [OF 2] g d2])
  finally show "unknown_backlog e now ?t \<le> unknown_backlog e now s - batch"
    using le2 backlog_card(1) [OF d] backlog_card(1) [OF dt] by simp
qed

lemma drain_rounds_done:
  assumes "lease_wf s" "distinct (map j_id (jobs s))" and g: "0 \<le> e_unknown_grace e" and b: "0 < batch"
    and "0 < unknown_backlog e now s" "unknown_backlog e now s \<le> budget * batch"
    and "prev = unknown_backlog e now s"
  shows "unknown_backlog e now (snd (drain_remaining_rounds e batch now budget prev s)) = 0
    \<and> moves e now s (snd (drain_remaining_rounds e batch now budget prev s))"
  using assms(1,2,5-)
proof (induction budget arbitrary: s prev)
  case 0
  then show ?case by simp
next
  case (Suc budget)
  let ?t = "reconcile_checks e batch now s"
  note k = checks_shrink [OF Suc.prems(1) g Suc.prems(2), where now = now and batch = batch]
  show ?case
  proof (cases "unknown_backlog e now ?t = 0")
    case True
    with k(3) show ?thesis by (simp add: Let_def)
  next
    case False
    have less: "unknown_backlog e now ?t < prev"
      using k(1) b Suc.prems(3,5) by linarith
    have "unknown_backlog e now ?t \<le> budget * batch" using k(1) Suc.prems(4) by simp
    from Suc.IH [OF k(2,4) _ this refl] False
    have "unknown_backlog e now (snd (drain_remaining_rounds e batch now budget (unknown_backlog e now ?t) ?t)) = 0
      \<and> moves e now ?t (snd (drain_remaining_rounds e batch now budget (unknown_backlog e now ?t) ?t))" by simp
    with moves_trans [OF g k(3)] False less show ?thesis by (simp add: Let_def split_beta)
  qed
qed

text \<open>
  C20. One tick of the reconciler drains the backlog: if the rounds that fit into its time budget
  suffice for the jobs that are UNKNOWN past their grace, each of them is FAILED afterwards with its
  plan run marked for aggregation, and none is left.  The self-continuing rounds never stop early,
  because every round fails a full batch or everything.
\<close>

theorem reconciler_drains_backlog:
  assumes wf: "lease_wf s" and ids: "distinct (map j_id (jobs s))" and g: "0 \<le> e_unknown_grace e"
    and b: "0 < batch" and budget: "unknown_backlog e now s \<le> Suc budget * batch"
    and t: "t = snd (device_lease_reconcile_once e batch now budget s)"
  shows "unknown_backlog e now t = 0
    \<and> (\<forall>k j. get_job s k = Some j \<and> grace_expired e now j
         \<longrightarrow> (\<exists>j'. get_job t k = Some j' \<and> j_status j' = J_FAILED
              \<and> (j_plan_run_id j, k) \<in> set (pending_aggregation t)))"
proof -
  let ?s1 = "reconcile_checks e batch now s"
  note k = checks_shrink [OF wf g ids, where now = now and batch = batch]
  have fin: "unknown_backlog e now t = 0 \<and> moves e now s t"
  proof (cases "unknown_backlog e now ?s1 = 0")
    case True
    with k(3) show ?thesis by (simp add: t device_lease_reconcile_once_def Let_def)
  next
    case False
    have "unknown_backlog e now ?s1 \<le> budget * batch" using k(1) budget by simp
    from drain_rounds_done [OF k(2,4) g b _ this refl] False moves_trans [OF g k(3)]
    show ?thesis by (simp add: t device_lease_reconcile_once_def Let_def)
  qed
  have "\<exists>j'. get_job t k = Some j' \<and> j_status j' = J_FAILED \<and> (j_plan_run_id j, k) \<in> set (pending_aggregation t)"
    if j: "get_job s k = Some j" and e: "grace_expired e now j" for k j
  proof -
    from moves_job [OF conjunct2 [OF fin] j] obtain j' where j': "get_job t k = Some j'" "job_move e now j j'"
      "j_status j \<noteq> J_FAILED \<and> j_status j' = J_FAILED \<longrightarrow> (j_plan_run_id j, k) \<in> set (pending_aggregation t)"
      by blast
    have "\<not> grace_expired e now j'"
      using fin get_job_Some [OF j'(1)] by (auto simp: unknown_backlog_def filter_empty_conv)
    with j'(2) e have "j_status j' = J_FAILED"
      unfolding job_move_def by (elim disjE conjE) (simp_all add: grace_expired_def past_grace_def)
    with j' e show ?thesis by (simp add: grace_expired_def)
  qed
  with fin show ?thesis by blast
qed

subsection \<open>Emergency release\<close>

lemma handle_released_or_held:
  assumes wf: "lease_wf s" and l: "get_job_lease s d j = Some l"
  shows "get_job_lease (snd (handle_job_lease_release_sync d j job now s)) d j = None"
proof (rule ccontr)
  let ?t = "snd (handle_job_lease_release_sync d j job now s)"
  assume "get_job_lease ?t d j \<noteq> None"
  then obtain x where x: "get_job_lease ?t d j = Some x" by auto
  have "no_new_leases s ?t" using handle_no_new [of s d j job now] by (simp add: handle_async_sync)
  with job_lease_facts [OF x] get_job_lease_Some [OF x] have xs: "x \<in> set (leases s)"
    by (auto simp: no_new_leases_def job_lease_on_def)
  have "x = l"
    using lease_wf_active_unique [OF wf xs job_lease_facts(1) [OF l]] get_job_lease_Some [OF x]
      get_job_lease_Some [OF l] job_lease_active by blast
  moreover have "live_token ?t (l_fencing_token x)"
    using job_lease_facts [OF x] get_job_lease_Some [OF x]
    by (auto simp: live_token_def active_lease_def job_lease_on_def)
  ultimately show False using handle_kills_token [OF wf l, of job now] by (simp add: handle_async_sync)
qed

text \<open>
  The emergency release answers an error without writing anything, unless the lease named by its
  id is an ACTIVE JOB lease of the given device and its job is terminal; then the lease's token is
  dead afterwards, the job holds no lease, one audit row is written, and no other lease row changes
  its owner: a debt lease of the platform and the lease of another job stay as they are.
\<close>

theorem emergency_release_guarded:
  assumes wf: "lease_wf s"
    and r: "release_terminal_job_lease device_id lease_id reason username now snap s = (res, t)"
  shows "case res of
      Inl err \<Rightarrow> t = s
    | Inr status \<Rightarrow> lease_wf t \<and> fence_step s t \<and> jobs t = jobs s
        \<and> (\<exists>l job. get_lease s lease_id = Some l \<and> get_job_lease s device_id (j_id job) = Some l
             \<and> get_job s (j_id job) = Some job \<and> terminal_status (j_status job)
             \<and> \<not> live_token t (l_fencing_token l) \<and> get_job_lease t device_id (j_id job) = None
             \<and> (\<forall>x\<in>set (leases s). \<not> (l_type x = LT_JOB \<and> l_job_id x = Some (j_id job)) \<longrightarrow> x \<in> set (leases t)))"
proof (cases res)
  case (Inl err)
  with r show ?thesis
    by (auto simp: release_terminal_job_lease_def Let_def split_beta split: option.splits if_splits)
next
  case (Inr status)
  have aud: "same_leases u (add_audit a b c d e u)" "leases (add_audit a b c d e u) = leases u"
    "jobs (add_audit a b c d e u) = jobs u" for a b c d e u
    by (simp_all add: add_audit_def same_leases_def)
  from r Inr obtain l jid job where
    l: "get_lease s lease_id = Some l" "l_device_id l = device_id" "l_job_id l = Some jid"
      "l_status l = LS_ACTIVE" "l_type l = LT_JOB"
    and job: "get_job s jid = Some job" "terminal_status (j_status job)"
    and same: "leases t = leases (snd (handle_job_lease_release_sync device_id (j_id job) (Some job) now s))"
      "jobs t = jobs (snd (handle_job_lease_release_sync device_id (j_id job) (Some job) now s))"
      "same_leases (snd (handle_job_lease_release_sync device_id (j_id job) (Some job) now s)) t"
    by (auto simp: release_terminal_job_lease_def Let_def split_beta aud split: option.splits if_splits)
  let ?u = "snd (handle_job_lease_release_sync device_id (j_id job) (Some job) now s)"
  have j: "get_job s (j_id job) = Some job" "l_job_id l = Some (j_id job)"
    using job(1) l(3) get_job_Some [OF job(1)] by simp_all
  have on: "job_lease_on device_id (j_id job) l" using l j by (simp add: job_lease_on_def)
  have ls: "l \<in> set (leases s)" using get_lease_Some [OF l(1)] by simp
  have "filter (job_lease_on device_id (j_id job)) (leases s) \<noteq> []" using on ls by (auto simp: filter_empty_conv)
  then obtain x where x: "get_job_lease s device_id (j_id job) = Some x"
    by (cases "get_job_lease s device_id (j_id job)") (auto simp: get_job_lease_def)
  have "x = l"
    using lease_wf_active_unique [OF wf job_lease_facts(1) [OF x] ls] get_job_lease_Some [OF x] on
      job_lease_active by blast
  with x have gl: "get_job_lease s device_id (j_id job) = Some l" by simp
  have wft: "lease_wf t" using same_leases_wf [OF same(3)] handle_wf [OF wf] by simp
  have ft: "fence_step s t" by (rule fence_trans [OF handle_fence [OF wf] same_leases_fence [OF same(3)]])
  have dead: "\<not> live_token t (l_fencing_token l)"
    using handle_kills_token [OF wf gl, of "Some job" now] same(1) by (simp add: handle_async_sync live_token_def)
  have none: "get_job_lease t device_id (j_id job) = None"
    using handle_released_or_held [OF wf gl, of "Some job" now] same(1) by (simp add: get_job_lease_def)
  have "x \<in> set (leases t)" if "x \<in> set (leases s)" "\<not> (l_type x = LT_JOB \<and> l_job_id x = Some (j_id job))" for x
    using handle_keeps_others [OF wf that, of device_id "Some job" now] same(1) by (simp add: handle_async_sync)
  with wft ft dead none l(1) gl j(1) job(2) same(2) Inr show ?thesis by (auto simp: handle_jobs)
qed

subsection \<open>Concrete rounds\<close>

definition backlog_db :: db where
  \<comment> \<open>three jobs UNKNOWN past their grace, the first still holding the device\<close>
  "backlog_db = claimed_db\<lparr>jobs := map (\<lambda>i. sample_job\<lparr>j_id := i, j_status := J_UNKNOWN, j_ended_at := Some 110\<rparr>) [7, 8, 9]\<rparr>"

lemma reconciler_safe_witness:
  "get_job (reconcile_checks default_env 20 200 claimed_db) 7 = get_job claimed_db 7
   \<and> (\<exists>l j. l \<in> set (leases (reconcile_checks default_env 20 900 claimed_db)) \<and> l_job_id l = Some 7
        \<and> get_job (reconcile_checks default_env 20 900 claimed_db) 7 = Some j \<and> j_status j = J_UNKNOWN)"
proof -
  have ids: "distinct (map j_id (jobs claimed_db))" and g: "0 \<le> e_unknown_grace default_env" by code_simp+
  from claimed_job obtain job where job: "get_job claimed_db 7 = Some job" "j_status job = J_RUNNING" by blast
  have jid: "j_id job = 7" using get_job_Some [OF job(1)] by simp
  have "healthy job 200 claimed_db"
  proof -
    have "list_all (\<lambda>x. l_status x = LS_ACTIVE \<and> l_job_id x = Some 7 \<longrightarrow> 200 \<le> l_expires_at x) (leases claimed_db)"
      by code_simp
    with job jid show ?thesis by (simp add: healthy_def list_all_iff)
  qed
  moreover have "abort_reap_clock (abort_context claimed_db job) (j_id job) (j_host_id job) = None"
  proof -
    have "abort_reap_clock (abort_context claimed_db (the (get_job claimed_db 7))) 7 (j_host_id (the (get_job claimed_db 7))) = None"
      by code_simp
    with job(1) jid show ?thesis by simp
  qed
  ultimately have 1: "get_job (reconcile_checks default_env 20 200 claimed_db) 7 = get_job claimed_db 7"
    using reconciler_safe [OF claimed_db_wf ids g refl, where now = 200 and batch = 20] job(1) jid by auto
  let ?t = "reconcile_checks default_env 20 900 claimed_db"
  have "list_ex (\<lambda>l. l_type l = LT_JOB \<and> l_status l = LS_ACTIVE \<and> l_job_id l = Some 7) (leases claimed_db)" by code_simp
  then obtain l where "l \<in> set (leases claimed_db)" "l_type l = LT_JOB" "l_status l = LS_ACTIVE" "l_job_id l = Some 7"
    by (auto simp: list_ex_iff)
  then have "l \<in> set (leases ?t)" "l_job_id l = Some 7"
    using reconciler_safe [OF claimed_db_wf ids g refl, where now = 900 and batch = 20] job by blast+
  moreover have "map_option j_status (get_job ?t 7) = Some J_UNKNOWN" by code_simp
  ultimately show ?thesis using 1 by (cases "get_job ?t 7") auto
qed

lemma reconciler_drains_backlog_witness:
  "unknown_backlog default_env 1000 backlog_db = 3
   \<and> unknown_backlog default_env 1000 (snd (device_lease_reconcile_once default_env 1 1000 2 backlog_db)) = 0"
proof -
  have wf: "lease_wf backlog_db" and ids: "distinct (map j_id (jobs backlog_db))"
    and g: "0 \<le> e_unknown_grace default_env" and three: "unknown_backlog default_env 1000 backlog_db = 3"
    by code_simp+
  from reconciler_drains_backlog [OF wf ids g _ _ refl, where batch = 1 and now = 1000 and budget = 2] three show ?thesis by simp
qed

lemma emergency_release_guarded_witness:
  "\<exists>t. release_terminal_job_lease 5 1 ''stuck'' ''root'' 900
       (upd_job 7 (\<lambda>j. j\<lparr>j_status := J_FAILED\<rparr>) claimed_db) (upd_job 7 (\<lambda>j. j\<lparr>j_status := J_FAILED\<rparr>) claimed_db)
     = (Inr ''RELEASED'', t) \<and> lease_wf t
   \<and> release_terminal_job_lease 5 1 ''stuck'' ''root'' 900 claimed_db claimed_db = (Inl JobNotTerminal, claimed_db)"
proof -
  let ?s = "upd_job 7 (\<lambda>j. j\<lparr>j_status := J_FAILED\<rparr>) claimed_db"
  let ?r = "release_terminal_job_lease 5 1 ''stuck'' ''root'' 900 ?s ?s"
  let ?q = "release_terminal_job_lease 5 1 ''stuck'' ''root'' 900 claimed_db claimed_db"
  have wf: "lease_wf ?s" by (simp add: claimed_db_wf)
  have "fst ?r = Inr ''RELEASED''" "fst ?q = Inl JobNotTerminal" by code_simp+
  then obtain t u where t: "?r = (Inr ''RELEASED'', t)" "?q = (Inl JobNotTerminal, u)" by (cases ?r; cases ?q) auto
  from emergency_release_guarded [OF wf t(1)] emergency_release_guarded [OF claimed_db_wf t(2)] t
  show ?thesis by auto
qed

end
