(* ===== verification/Job_Reports.thy ===== *)
theory Job_Reports
  imports Lease_Reconciler
begin

section \<open>Reports of a running job (agent\_job\_heartbeat.py, agent\_job\_status.py, agent\_step\_status.py,
  reconciler.py, agent\_patrol\_heartbeat.py, agent\_coordinator\_heartbeat.py)\<close>

text \<open>
  What an agent reports while a job runs: keep-alive, status, steps, patrol cycles, and the
  heartbeat of the host's coordinator.  All but the last need the job's live lease token.  Sequence
  gaps that a conflicting insert leaves are not modelled.
\<close>

datatype report_error =
    ReportJobNotFound
  | ReportTokenInvalid
  | TerminalStatusRequiresComplete
  | OnlyRunningAccepted
  | UnknownStatus string
  | ReportJobNotRunning
  | NegativeDelta
  | NegativeCycle
  | NegativeStreak
  | InvalidRetryTime

subsection \<open>Keep-alive\<close>

definition record_agent_job_heartbeat ::
  "nat \<Rightarrow> string \<Rightarrow> string \<Rightarrow> time \<Rightarrow> db \<Rightarrow> (report_error + job_status) \<times> db" where
  \<comment> \<open>job id, reported status, token\<close>
  "record_agent_job_heartbeat job_id status token now s =
     (case get_job s job_id of
        None \<Rightarrow> (Inl ReportJobNotFound, s)
      | Some job \<Rightarrow>
          if get_valid_runtime_lease s job token [J_RUNNING] now = None then (Inl ReportTokenInvalid, s)
          else if (case map_of RUN_TO_JOB (upper status) of None \<Rightarrow> J_RUNNING | Some st \<Rightarrow> st) \<noteq> J_RUNNING
          then (Inl TerminalStatusRequiresComplete, s)
          else (Inr (j_status job),
                if j_status job = J_RUNNING
                then upd_job job_id (\<lambda>j. j\<lparr>j_started_at := (case j_started_at j of None \<Rightarrow> Some now | Some t \<Rightarrow> Some t),
                       j_updated_at := now\<rparr>) s
                else s))"

definition parse_job_status :: "string \<Rightarrow> job_status option" where
  \<comment> \<open>\<open>JobStatus(text)\<close>\<close>
  "parse_job_status x =
     first_row (filter (\<lambda>st. job_status_text st = x)
       [J_PENDING, J_RUNNING, J_COMPLETED, J_FAILED, J_ABORTED, J_UNKNOWN])"

definition update_agent_job_status ::
  "nat \<Rightarrow> string \<Rightarrow> string \<Rightarrow> string \<Rightarrow> time \<Rightarrow> db \<Rightarrow> (report_error + job_status) \<times> db" where
  \<comment> \<open>job id, status, reason, token\<close>
  "update_agent_job_status job_id status reason token now s =
     (case get_job s job_id of
        None \<Rightarrow> (Inl ReportJobNotFound, s)
      | Some job \<Rightarrow>
          if get_valid_runtime_lease s job token [] now = None then (Inl ReportTokenInvalid, s)
          else (case parse_job_status (upper status) of
                  None \<Rightarrow> (Inl (UnknownStatus status), s)
                | Some new \<Rightarrow>
                    if terminal_status new then (Inl TerminalStatusRequiresComplete, s)
                    else if new \<noteq> J_RUNNING then (Inl OnlyRunningAccepted, s)
                    else (Inr (j_status job),
                          upd_job job_id (\<lambda>j. j\<lparr>j_updated_at := now,
                            j_status_reason := (if reason \<noteq> [] then reason else j_status_reason j)\<rparr>) s)))"

subsection \<open>Step traces\<close>

record trace_in =
  ti_job_id :: nat
  ti_step_id :: string
  ti_stage :: string
  ti_event_type :: string
  ti_status :: string
  ti_output :: trace_output
  ti_error_message :: json
  ti_exit_code :: "int option"
  ti_metadata :: json
  ti_original_ts :: json
  ti_trace_event_id :: "string option"
  ti_fencing_token :: string

definition trace_key :: "trace_in \<Rightarrow> string" where
  "trace_key t =
     (let given = strip (case ti_trace_event_id t of None \<Rightarrow> [] | Some x \<Rightarrow> x) in
      if given = [] then ''legacy:'' @ dec (ti_job_id t) @ '':'' @ ti_step_id t @ '':'' @ ti_event_type t
      else given)"

definition parse_ts :: "json \<Rightarrow> time \<Rightarrow> time" where
  "parse_ts ts now = (case json_time ts of None \<Rightarrow> now | Some t \<Rightarrow> t)"

definition insert_trace :: "time \<Rightarrow> trace_in \<Rightarrow> db \<Rightarrow> nat \<times> db" where
  \<comment> \<open>INSERT \<dots> ON CONFLICT (trace\_event\_id) DO NOTHING, with the row count\<close>
  "insert_trace now t s =
     (if list_ex (\<lambda>r. t_trace_event_id r = trace_key t) (traces s) then (0, s)
      else (1, s\<lparr>traces := traces s @ [\<lparr>t_id = next_trace_id s, t_job_id = ti_job_id t, t_step_id = ti_step_id t,
               t_stage = ti_stage t, t_status = ti_status t, t_event_type = ti_event_type t,
               t_output = ti_output t, t_error_message = ti_error_message t, t_exit_code = ti_exit_code t,
               t_metadata = ti_metadata t, t_trace_event_id = trace_key t,
               t_original_ts = Some (parse_ts (ti_original_ts t) now), t_created_at = now\<rparr>],
             next_trace_id := next_trace_id s + 1\<rparr>))"

definition reconcile_step_traces :: "time \<Rightarrow> trace_in list \<Rightarrow> db \<Rightarrow> nat \<times> db" where
  "reconcile_step_traces now ts s =
     (let (counts, s1) = run_batch (insert_trace now) ts s in (sum_list counts, s1))"

fun check_trace_tokens :: "time \<Rightarrow> db \<Rightarrow> trace_in list \<Rightarrow> report_error option" where
  "check_trace_tokens now s [] = None"
| "check_trace_tokens now s (t # ts) =
     (case get_job s (ti_job_id t) of
        None \<Rightarrow> Some ReportJobNotFound
      | Some job \<Rightarrow>
          if get_valid_runtime_lease s job (ti_fencing_token t) [] now = None then Some ReportTokenInvalid
          else check_trace_tokens now s ts)"

definition upload_agent_step_traces :: "time \<Rightarrow> trace_in list \<Rightarrow> db \<Rightarrow> (report_error + nat) \<times> db" where
  "upload_agent_step_traces now ts s =
     (case check_trace_tokens now s ts of
        Some err \<Rightarrow> (Inl err, s)
      | None \<Rightarrow> (let (n, s1) = reconcile_step_traces now ts s in (Inr n, s1)))"

record step_status_in =
  si_status :: string
  si_started_at :: json
  si_exit_code :: "int option"
  si_error_message :: "string option"
  si_metadata :: "jobj option"
  si_trace_event_id :: "string option"
  si_fencing_token :: string

definition opt_text :: "string option \<Rightarrow> string" where
  "opt_text x = (case x of None \<Rightarrow> [] | Some t \<Rightarrow> t)"

definition step_status_key :: "env \<Rightarrow> nat \<Rightarrow> string \<Rightarrow> step_status_in \<Rightarrow> string" where
  \<comment> \<open>the given id, or one derived from the content of the report; an exit code 0 prints as nothing\<close>
  "step_status_key e job_id step_id p =
     (let given = strip (opt_text (si_trace_event_id p)) in
      if given \<noteq> [] then given
      else ''status:'' @ take 24 (e_sha256 e (join [CHR 0x00]
        [dec job_id, step_id, si_status p, py_str (jor (si_started_at p) (JStr [])),
         (case si_exit_code p of None \<Rightarrow> [] | Some c \<Rightarrow> if c = 0 then [] else dec_int c),
         opt_text (si_error_message p),
         (case si_metadata p of None \<Rightarrow> [] | Some m \<Rightarrow> if m = [] then [] else json_dumps_sorted (JObj m))])))"

definition json_of_text :: "string option \<Rightarrow> json" where
  "json_of_text x = (case x of None \<Rightarrow> JNull | Some t \<Rightarrow> JStr t)"

definition step_status_trace :: "env \<Rightarrow> nat \<Rightarrow> string \<Rightarrow> step_status_in \<Rightarrow> time \<Rightarrow> trace_in" where
  "step_status_trace e job_id step_id p now =
     \<lparr>ti_job_id = job_id, ti_step_id = step_id, ti_stage = ''execute'',
      ti_event_type = ''status_update'', ti_status = si_status p, ti_output = NoOutput,
      ti_error_message = json_of_text (si_error_message p), ti_exit_code = si_exit_code p,
      ti_metadata = json_of_obj (si_metadata p), ti_original_ts = jor (si_started_at p) (JTime now),
      ti_trace_event_id = Some (step_status_key e job_id step_id p),
      ti_fencing_token = si_fencing_token p\<rparr>"

definition update_agent_job_step_status ::
  "env \<Rightarrow> nat \<Rightarrow> string \<Rightarrow> step_status_in \<Rightarrow> time \<Rightarrow> db \<Rightarrow> (report_error + string) \<times> db" where
  "update_agent_job_step_status e job_id step_id p now s =
     (let t = step_status_trace e job_id step_id p now in
      case check_trace_tokens now s [t] of
        Some err \<Rightarrow> (Inl err, s)
      | None \<Rightarrow> (Inr (si_status p), snd (reconcile_step_traces now [t] s)))"

subsection \<open>Patrol cycles\<close>

record patrol_in =
  pi_fencing_token :: string
  pi_cycle_index :: int
  pi_success_delta :: int
  pi_failed_delta :: int
  pi_current_step :: "string option"
  pi_failure_streak :: int
  pi_next_retry_at :: json
  pi_watcher_capability :: "string option"
  pi_manual_action_observed :: "string option"

definition patrol_row :: "patrol_in \<Rightarrow> time option \<Rightarrow> time \<Rightarrow> job_row \<Rightarrow> job_row" where
  \<comment> \<open>the atomic UPDATE\<close>
  "patrol_row p retry now j =
     (let capability = strip (opt_text (pi_watcher_capability p)); observed = pi_manual_action_observed p
      in j\<lparr>j_patrol_cycle_count := max (j_patrol_cycle_count j) (pi_cycle_index p),
           j_patrol_success_count := j_patrol_success_count j + pi_success_delta p,
           j_patrol_failed_count := j_patrol_failed_count j + pi_failed_delta p,
           j_failure_streak := pi_failure_streak p,
           j_next_retry_at := retry,
           j_last_patrol_heartbeat_at := Some now,
           j_updated_at := now,
           j_current_patrol_step :=
             (case pi_current_step p of None \<Rightarrow> j_current_patrol_step j | Some x \<Rightarrow> Some x),
           j_watcher_capability :=
             (if capability = [] then j_watcher_capability j else Some (utf8_take 32 capability)),
           j_manual_action :=
             (if opt_text observed \<noteq> [] \<and> j_manual_action j = observed then None else j_manual_action j)\<rparr>)"

definition parse_retry :: "json \<Rightarrow> time option option" where
  \<comment> \<open>\<open>None\<close>: not a timestamp\<close>
  "parse_retry x = (if \<not> truthy x then Some None
                    else (case json_time x of None \<Rightarrow> None | Some t \<Rightarrow> Some (Some t)))"

definition record_agent_patrol_heartbeat ::
  "nat \<Rightarrow> patrol_in \<Rightarrow> time \<Rightarrow> db \<Rightarrow> db \<Rightarrow> (report_error + job_row) \<times> db" where
  \<comment> \<open>\<open>seen\<close>: what the checks before the UPDATE read; the answer is read back from the row\<close>
  "record_agent_patrol_heartbeat job_id p now seen s =
     (case get_job seen job_id of
        None \<Rightarrow> (Inl ReportJobNotFound, s)
      | Some job \<Rightarrow>
          if j_status job \<noteq> J_RUNNING then (Inl ReportJobNotRunning, s)
          else if get_valid_runtime_lease seen job (pi_fencing_token p) [] now = None
          then (Inl ReportTokenInvalid, s)
          else if pi_success_delta p < 0 \<or> pi_failed_delta p < 0 then (Inl NegativeDelta, s)
          else if pi_cycle_index p < 0 then (Inl NegativeCycle, s)
          else if pi_failure_streak p < 0 then (Inl NegativeStreak, s)
          else (case parse_retry (pi_next_retry_at p) of
                  None \<Rightarrow> (Inl InvalidRetryTime, s)
                | Some retry \<Rightarrow>
                    if \<not> job_running s job_id then (Inl ReportJobNotRunning, s)
                    else (let s1 = upd_job job_id (patrol_row p retry now) s
                          in (Inr (the (get_job s1 job_id)), s1))))"

subsection \<open>The coordinator's heartbeat\<close>

record coord_job =
  cj_job_id :: nat
  cj_execution_state :: "string option"
  cj_last_progress_at :: json
  cj_disarm_evidence :: "jobj option"

text \<open>A reported plan-run host; the endpoint gets JSON objects, typed here.\<close>

record coord_prh =
  ch_id :: nat
  ch_plan_run_id :: nat
  ch_host_id :: string
  ch_epoch :: int
  ch_phase :: "string option"

record coord_in =
  ci_host_id :: string
  ci_agent_instance_id :: string
  ci_prhs :: "coord_prh list"
  ci_jobs :: "coord_job list"

record coord_out =
  co_accepted :: bool
  co_stale :: "nat list"
  co_instance_stale :: bool
  co_epochs :: "(nat \<times> int) list"
  co_guards :: "(nat \<times> guard) list"

definition VALID_COORDINATOR_PHASES :: "string list" where
  "VALID_COORDINATOR_PHASES = [''INIT'', ''BARRIER_WAIT'', ''PATROL'', ''TEARDOWN'']"

definition get_prh :: "db \<Rightarrow> nat \<Rightarrow> prh_row option" where
  "get_prh s i = first_row (filter (\<lambda>r. p_id r = i) (prhs s))"

definition instance_superseded :: "db \<Rightarrow> coord_in \<Rightarrow> bool" where
  "instance_superseded s p =
     (case get_host s (ci_host_id p) of
        None \<Rightarrow> False
      | Some h \<Rightarrow> (let stored = strip (h_last_agent_instance_id h); reported = strip (ci_agent_instance_id p)
                   in stored \<noteq> [] \<and> reported \<noteq> [] \<and> stored \<noteq> reported))"

definition coord_job_row :: "coord_job \<Rightarrow> time \<Rightarrow> job_row \<Rightarrow> job_row" where
  "coord_job_row c now j =
     (case accepted_state (cj_execution_state c) of
        None \<Rightarrow> j
      | Some st \<Rightarrow>
          (let j1 = j\<lparr>j_execution_state := Some st\<rparr>;
               j2 = (if st \<in> set WAITING_STATES then j1\<lparr>j_last_execution_heartbeat_at := Some now\<rparr> else j1)
           in case parse_progress_ts (cj_last_progress_at c) of
                None \<Rightarrow> j2 | Some ts \<Rightarrow> j2\<lparr>j_last_progress_at := Some ts\<rparr>))"

definition coord_job_step ::
  "env \<Rightarrow> coord_in \<Rightarrow> time \<Rightarrow> coord_job \<Rightarrow> db \<Rightarrow> (nat \<times> guard) option \<times> db" where
  "coord_job_step e p now c s =
     (case cj_disarm_evidence c of
        Some evidence \<Rightarrow>
          (case get_job s (cj_job_id c) of
             None \<Rightarrow> (None, s)
           | Some job \<Rightarrow>
               (case accept_job_disarm_evidence e job evidence (ci_host_id p) (ci_agent_instance_id p) now True s of
                  (None, s1) \<Rightarrow> (None, s1)
                | (Some g, s1) \<Rightarrow>
                    (Some (cj_job_id c, g),
                     upd_job (cj_job_id c) (\<lambda>j. j\<lparr>j_execution_state :=
                       Some (if g_phase g = Some ''queue'' then ''WAITING_EXECUTION_SLOT'' else ''EXECUTING_DISARM'')\<rparr>) s1)))
      | None \<Rightarrow>
          (None, s\<lparr>jobs := upd_where (\<lambda>j. j_id j = cj_job_id c \<and> j_host_id j = Some (ci_host_id p)
               \<and> j_status j = J_RUNNING) (coord_job_row c now) (jobs s)\<rparr>))"

datatype epoch_verdict = Ignored | Stale nat int | Beaten

definition coord_prh_step :: "coord_in \<Rightarrow> time \<Rightarrow> coord_prh \<Rightarrow> db \<Rightarrow> epoch_verdict \<times> db" where
  "coord_prh_step p now c s =
     (if ch_id c = 0 \<or> ch_plan_run_id c = 0 \<or> ch_host_id c = [] then (Ignored, s)
      else
        (case get_prh s (ch_id c) of
           None \<Rightarrow> (Ignored, s)
         | Some row \<Rightarrow>
             if p_host_id row \<noteq> ci_host_id p \<or> p_coordinator_epoch row > ch_epoch c
             then (Stale (ch_id c) (p_coordinator_epoch row), s)
             else (Beaten, s\<lparr>prhs := upd_where (\<lambda>r. p_id r = ch_id c)
                    (\<lambda>r. r\<lparr>p_coordinator_epoch := max (p_coordinator_epoch r) (ch_epoch c),
                          p_coordinator_heartbeat_at := Some now,
                          p_phase := (case ch_phase c of
                             None \<Rightarrow> p_phase r
                           | Some x \<Rightarrow> if x \<in> set VALID_COORDINATOR_PHASES then Some x else p_phase r)\<rparr>)
                    (prhs s)\<rparr>)))"

definition stale_of :: "epoch_verdict list \<Rightarrow> (nat \<times> int) list" where
  "stale_of vs = List.map_filter (\<lambda>v. case v of Stale i ep \<Rightarrow> Some (i, ep) | _ \<Rightarrow> None) vs"

definition record_agent_coordinator_heartbeat :: "env \<Rightarrow> coord_in \<Rightarrow> time \<Rightarrow> db \<Rightarrow> coord_out \<times> db" where
  "record_agent_coordinator_heartbeat e p now s =
     (if instance_superseded s p
      then (let known = List.map_filter (\<lambda>c. if ch_id c = 0 then None
                  else map_option (\<lambda>r. (ch_id c, p_coordinator_epoch r)) (get_prh s (ch_id c))) (ci_prhs p)
            in (\<lparr>co_accepted = False, co_stale = map fst known, co_instance_stale = True,
                 co_epochs = AList.updates (map fst known) (map snd known) [], co_guards = []\<rparr>, s))
      else
        (let (gs, s1) = run_batch (coord_job_step e p now) (sort_key cj_job_id (ci_jobs p)) s;
             (vs, s2) = run_batch (coord_prh_step p now) (sort_key ch_id (ci_prhs p)) s1;
             stale = stale_of vs; guards = List.map_filter id gs
         in (\<lparr>co_accepted = (stale = []), co_stale = map fst stale, co_instance_stale = False,
              co_epochs = AList.updates (map fst stale) (map snd stale) [],
              co_guards = AList.updates (map fst guards) (map snd guards) []\<rparr>, s2)))"

subsection \<open>Reports with a token\<close>

text \<open>
  One relation for the five kinds of report: who claims to own which job, whether the report was
  accepted, and the database after it.
\<close>

inductive job_report :: "time \<Rightarrow> db \<Rightarrow> (nat \<times> string) list \<Rightarrow> bool \<Rightarrow> db \<Rightarrow> bool" for now s where
  heartbeat: "record_agent_job_heartbeat k status token now s = (r, t)
    \<Longrightarrow> job_report now s [(k, token)] (\<not> isl r) t"
| status: "update_agent_job_status k status reason token now s = (r, t)
    \<Longrightarrow> job_report now s [(k, token)] (\<not> isl r) t"
| upload: "upload_agent_step_traces now ts s = (r, t)
    \<Longrightarrow> job_report now s (map (\<lambda>x. (ti_job_id x, ti_fencing_token x)) ts) (\<not> isl r) t"
| step: "update_agent_job_step_status e k step_id p now s = (r, t)
    \<Longrightarrow> job_report now s [(k, si_fencing_token p)] (\<not> isl r) t"
| patrol: "record_agent_patrol_heartbeat k p now s s = (r, t)
    \<Longrightarrow> job_report now s [(k, pi_fencing_token p)] (\<not> isl r) t"

definition owns_running :: "db \<Rightarrow> time \<Rightarrow> nat \<Rightarrow> string \<Rightarrow> bool" where
  \<comment> \<open>the token is that of the live lease of the RUNNING job\<close>
  "owns_running s now k token \<longleftrightarrow>
     (\<exists>job l. get_job s k = Some job \<and> j_status job = J_RUNNING
        \<and> get_job_lease s (j_device_id job) k = Some l \<and> l_fencing_token l = token \<and> now < l_expires_at l)"

lemma valid_lease_owns:
  assumes "get_job s k = Some job"
  shows "(get_valid_runtime_lease s job token [] now \<noteq> None) = owns_running s now k token"
  using assms get_job_Some [OF assms]
  by (auto simp: get_valid_runtime_lease_def owns_running_def split: option.splits if_splits)

lemma check_tokens_owns:
  "check_trace_tokens now s ts = None
   \<longleftrightarrow> list_all (\<lambda>t. owns_running s now (ti_job_id t) (ti_fencing_token t)) ts"
proof (induction ts)
  case (Cons t ts)
  show ?case
  proof (cases "get_job s (ti_job_id t)")
    case None
    then show ?thesis by (simp add: owns_running_def)
  next
    case (Some job)
    with Cons valid_lease_owns [OF Some, of "ti_fencing_token t" now] show ?thesis by auto
  qed
qed simp

definition reports_only :: "db \<Rightarrow> db \<Rightarrow> bool" where
  "reports_only s t \<longleftrightarrow> same_leases s t \<and> job_statuses t = job_statuses s"

lemma reports_only_refl [simp]: "reports_only s s"
  by (simp add: reports_only_def)

lemma reports_only_trans: "reports_only s t \<Longrightarrow> reports_only t u \<Longrightarrow> reports_only s u"
  unfolding reports_only_def using same_leases_trans by metis

lemma reports_only_upd_job:
  "(\<And>j. j_id (f j) = j_id j \<and> j_status (f j) = j_status j) \<Longrightarrow> reports_only s (upd_job k f s)"
  by (simp add: reports_only_def job_statuses_upd_job)

lemma insert_trace_only: "reports_only s (snd (insert_trace now t s))"
  by (simp add: insert_trace_def reports_only_def same_leases_def job_statuses_def)

interpretation trace_batch: batch_invariant "insert_trace now" "\<lambda>s. True" reports_only
  by unfold_locales (auto intro: insert_trace_only reports_only_trans)

lemma traces_only: "reports_only s (snd (reconcile_step_traces now ts s))"
  using trace_batch.batch_rel [of s now ts] by (simp add: reconcile_step_traces_def split_beta)

lemma patrol_row_fields [simp]:
  "j_id (patrol_row p r now j) = j_id j" "j_status (patrol_row p r now j) = j_status j"
  "j_patrol_cycle_count (patrol_row p r now j) = max (j_patrol_cycle_count j) (pi_cycle_index p)"
  by (simp_all add: patrol_row_def Let_def)

lemma job_report_keeps:
  assumes "job_report now s claims accepted t"
  shows "(if accepted then list_all (\<lambda>(k, token). owns_running s now k token) claims \<and> reports_only s t else t = s)"
  using assms
proof (induction rule: job_report.induct)
  case (heartbeat k status token r t)
  then show ?case
    using valid_lease_owns [of s k _ token now]
    by (auto simp: record_agent_job_heartbeat_def get_valid_runtime_lease_def [of _ _ _ "[J_RUNNING]"]
        get_valid_runtime_lease_def [of _ _ _ "[]"]
        split: option.splits if_splits intro!: reports_only_upd_job)
next
  case (status k status reason token r t)
  then show ?case
    using valid_lease_owns [of s k _ token now]
    by (auto simp: update_agent_job_status_def split: option.splits if_splits intro!: reports_only_upd_job)
next
  case (upload ts r t)
  then show ?case
    using traces_only [of s now ts] check_tokens_owns [of now s ts]
    by (auto simp: upload_agent_step_traces_def split_beta list_all_iff split: option.splits)
next
  case (step e k step_id p r t)
  let ?t = "step_status_trace e k step_id p now"
  have "ti_job_id ?t = k" "ti_fencing_token ?t = si_fencing_token p"
    by (simp_all add: step_status_trace_def)
  with step show ?case
    using traces_only [of s now "[?t]"] check_tokens_owns [of now s "[?t]"]
    by (auto simp: update_agent_job_step_status_def Let_def
        simp del: check_trace_tokens.simps split: option.splits)
next
  case (patrol k p r t)
  then show ?case
    using valid_lease_owns [of s k _ "pi_fencing_token p" now]
    by (auto simp: record_agent_patrol_heartbeat_def Let_def split: option.splits if_splits
        intro!: reports_only_upd_job)
qed

text \<open>
  Every report of a running job is refused without writing anything, or accepted from the owner
  of the job's live lease; in no case does a report change a lease or the status of any job, so only
  the completion, the reconciler and the recovery finish or restore jobs.
\<close>

theorem reports_need_token:
  assumes "job_report now s claims accepted t"
  shows "(if accepted then list_all (\<lambda>(k, token). owns_running s now k token) claims else t = s)
    \<and> same_leases s t \<and> job_statuses t = job_statuses s"
  using job_report_keeps [OF assms] by (auto simp: reports_only_def split: if_splits)

subsection \<open>Replayed step traces\<close>

definition trace_table_ok :: "db \<Rightarrow> bool" where
  \<comment> \<open>primary key, sequence and the constraint \<open>uq_step_trace_event_id\<close>\<close>
  "trace_table_ok s \<longleftrightarrow> distinct (map t_id (traces s)) \<and> list_all (\<lambda>r. t_id r < next_trace_id s) (traces s)
     \<and> distinct (map t_trace_event_id (traces s))"

definition knows :: "db \<Rightarrow> string \<Rightarrow> bool" where
  "knows s k \<longleftrightarrow> k \<in> t_trace_event_id ` set (traces s)"

lemma list_ex_knows: "list_ex (\<lambda>r. t_trace_event_id r = k) (traces s) = knows s k"
  by (auto simp: knows_def list_ex_iff)

lemma insert_trace_cases:
  obtains (old) "knows s (trace_key t)" "insert_trace now t s = (0, s)"
  | (new) r u where "\<not> knows s (trace_key t)" "insert_trace now t s = (1, u)" "traces u = traces s @ [r]"
      "t_trace_event_id r = trace_key t" "t_id r = next_trace_id s" "next_trace_id u = Suc (next_trace_id s)"
  by (cases "knows s (trace_key t)") (auto simp: insert_trace_def list_ex_knows)

lemma insert_trace_ok: "trace_table_ok s \<Longrightarrow> trace_table_ok (snd (insert_trace now t s))"
proof (cases rule: insert_trace_cases [of s t now])
  case (new r u)
  assume "trace_table_ok s"
  with new show ?thesis
    by (auto simp: trace_table_ok_def knows_def list_all_iff less_SucI)
qed simp

lemma insert_trace_knows: "knows (snd (insert_trace now t s)) k = (knows s k \<or> k = trace_key t)"
  by (cases rule: insert_trace_cases [of s t now]) (auto simp: knows_def)

interpretation trace_table: batch_invariant "insert_trace now" trace_table_ok "\<lambda>s t. \<forall>k. knows s k \<longrightarrow> knows t k"
  by unfold_locales (auto intro: insert_trace_ok simp: insert_trace_knows)

lemma run_batch_old:
  "list_all (\<lambda>t. knows s (trace_key t)) ts \<Longrightarrow> sum_list (fst (run_batch (insert_trace now) ts s)) = 0
     \<and> snd (run_batch (insert_trace now) ts s) = s"
proof (induction ts)
  case (Cons t ts)
  then have "insert_trace now t s = (0, s)" by (simp add: insert_trace_def list_ex_knows)
  with Cons show ?case by (simp add: split_beta)
qed simp

lemma run_batch_knows:
  "trace_table_ok s \<Longrightarrow> t \<in> set ts \<Longrightarrow> knows (snd (run_batch (insert_trace now) ts s)) (trace_key t)"
proof (induction ts arbitrary: s)
  case (Cons x ts)
  let ?u = "snd (insert_trace now x s)"
  have ok: "trace_table_ok ?u" by (rule insert_trace_ok [OF Cons.prems(1)])
  show ?case
  proof (cases "t = x")
    case True
    then have "knows ?u (trace_key t)" by (simp add: insert_trace_knows)
    with trace_table.batch_rel [OF ok, of now ts] show ?thesis by (simp add: split_beta Let_def)
  next
    case False
    with Cons.IH [OF ok] Cons.prems show ?thesis by (simp add: split_beta Let_def)
  qed
qed simp

text \<open>
  Step traces are durable and replay is harmless: a batch is stored with one row per trace id,
  keeping the ids and the event ids of the table unique and every row already there; uploading the
  same batch again at any later time stores nothing and leaves the database as it is.
\<close>

theorem step_trace_replay:
  assumes ok: "trace_table_ok s" and r: "reconcile_step_traces now ts s = (n, t)"
  shows "trace_table_ok t \<and> (\<exists>new. traces t = traces s @ new \<and> length new = n)
    \<and> list_all (\<lambda>x. knows t (trace_key x)) ts \<and> reconcile_step_traces later ts t = (0, t)"
proof -
  from r have t: "t = snd (run_batch (insert_trace now) ts s)" "n = sum_list (fst (run_batch (insert_trace now) ts s))"
    by (auto simp: reconcile_step_traces_def split_beta)
  have k: "list_all (\<lambda>x. knows t (trace_key x)) ts"
    using run_batch_knows [OF ok] by (simp add: t list_all_iff)
  have "\<exists>new. traces (snd (run_batch (insert_trace now) ts u)) = traces u @ new
      \<and> length new = sum_list (fst (run_batch (insert_trace now) ts u))" for u
  proof (induction ts arbitrary: u)
    case (Cons x ts)
    from Cons.IH [of "snd (insert_trace now x u)"] show ?case
      by (cases rule: insert_trace_cases [of u x now]) (auto simp: split_beta Let_def)
  qed simp
  moreover have "trace_table_ok t" unfolding t by (rule trace_table.batch_inv [OF ok])
  moreover have "reconcile_step_traces later ts t = (0, t)"
    using run_batch_old [OF k, of later] by (simp add: reconcile_step_traces_def split_beta)
  ultimately show ?thesis using k by (auto simp: t)
qed

subsection \<open>Counters never go back\<close>

definition epoch_step :: "db \<Rightarrow> db \<Rightarrow> bool" where
  \<comment> \<open>coordinator epochs only grow, and the rows keep their run and host\<close>
  "epoch_step s t \<longleftrightarrow> list_all2 (\<lambda>r r'. p_id r' = p_id r \<and> p_host_id r' = p_host_id r
     \<and> p_plan_run_id r' = p_plan_run_id r \<and> p_coordinator_epoch r \<le> p_coordinator_epoch r') (prhs s) (prhs t)"

lemma epoch_same: "prhs t = prhs s \<Longrightarrow> epoch_step s t"
  by (simp add: epoch_step_def list_all2_same)

lemma epoch_trans: "epoch_step s t \<Longrightarrow> epoch_step t u \<Longrightarrow> epoch_step s u"
  unfolding epoch_step_def by (erule (1) list_all2_trans [rotated]) auto

lemma coord_job_row_fields [simp]:
  "j_id (coord_job_row c now j) = j_id j" "j_status (coord_job_row c now j) = j_status j"
  by (simp_all add: coord_job_row_def Let_def split: option.splits)

lemma accept_prhs: "prhs (snd (accept_job_disarm_evidence e job ev h a now via s)) = prhs s"
  by (simp add: accept_job_disarm_evidence_def Let_def upd_job_def)

lemma coord_job_only:
  "reports_only s (snd (coord_job_step e p now c s)) \<and> prhs (snd (coord_job_step e p now c s)) = prhs s"
proof (cases "cj_disarm_evidence c")
  case None
  then show ?thesis
    by (simp add: coord_job_step_def reports_only_def same_leases_def job_statuses_upd_where)
next
  case (Some ev)
  show ?thesis
  proof (cases "get_job s (cj_job_id c)")
    case None
    with Some show ?thesis by (simp add: coord_job_step_def)
  next
    case (Some job)
    let ?a = "accept_job_disarm_evidence e job ev (ci_host_id p) (ci_agent_instance_id p) now True s"
    have a: "reports_only s (snd ?a)" "prhs (snd ?a) = prhs s"
      using accept_evidence_keeps accept_prhs by (auto simp: reports_only_def)
    have "reports_only (snd ?a) (upd_job k (\<lambda>j. j\<lparr>j_execution_state := x\<rparr>) (snd ?a))" for k x
      by (rule reports_only_upd_job) simp
    with a reports_only_trans [OF a(1)] Some \<open>cj_disarm_evidence c = Some ev\<close> show ?thesis
      by (cases ?a; cases "fst ?a") (auto simp: coord_job_step_def upd_job_def)
  qed
qed

interpretation coord_jobs: batch_invariant "coord_job_step e p now" "\<lambda>s. True"
  "\<lambda>s t. reports_only s t \<and> prhs t = prhs s"
  using coord_job_only by unfold_locales (auto intro: reports_only_trans)

definition superseded_row :: "coord_in \<Rightarrow> coord_prh list \<Rightarrow> prh_row \<Rightarrow> bool" where
  \<comment> \<open>a row of another host, or of an epoch above all that the entries report\<close>
  "superseded_row p cs r \<longleftrightarrow> p_host_id r \<noteq> ci_host_id p
     \<or> list_all (\<lambda>c. ch_id c = p_id r \<longrightarrow> ch_epoch c < p_coordinator_epoch r) cs"

lemma coord_prh_cases:
  obtains (kept) v where "coord_prh_step p now c s = (v, s)"
  | (beaten) row f where "get_prh s (ch_id c) = Some row" "p_host_id row = ci_host_id p"
      "p_coordinator_epoch row \<le> ch_epoch c"
      "coord_prh_step p now c s = (Beaten, s\<lparr>prhs := upd_where (\<lambda>r. p_id r = ch_id c) f (prhs s)\<rparr>)"
      "\<And>r. p_id (f r) = p_id r \<and> p_host_id (f r) = p_host_id r \<and> p_plan_run_id (f r) = p_plan_run_id r
         \<and> p_coordinator_epoch (f r) = max (p_coordinator_epoch r) (ch_epoch c)"
proof (cases "coord_prh_step p now c s = (Beaten, snd (coord_prh_step p now c s))")
  case True
  let ?f = "\<lambda>r. r\<lparr>p_coordinator_epoch := max (p_coordinator_epoch r) (ch_epoch c),
      p_coordinator_heartbeat_at := Some now,
      p_phase := (case ch_phase c of None \<Rightarrow> p_phase r
        | Some x \<Rightarrow> if x \<in> set VALID_COORDINATOR_PHASES then Some x else p_phase r)\<rparr>"
  from True obtain row where "get_prh s (ch_id c) = Some row" "p_host_id row = ci_host_id p"
    "p_coordinator_epoch row \<le> ch_epoch c"
    "coord_prh_step p now c s = (Beaten, s\<lparr>prhs := upd_where (\<lambda>r. p_id r = ch_id c) ?f (prhs s)\<rparr>)"
    by (auto simp: coord_prh_step_def split: option.splits if_splits)
  then show thesis by (rule beaten) simp
next
  case False
  then have "snd (coord_prh_step p now c s) = s"
    by (auto simp: coord_prh_step_def split: option.splits if_splits)
  then show thesis using kept [of "fst (coord_prh_step p now c s)"] by (metis prod.collapse)
qed

lemma coord_prh_keeps:
  "reports_only s (snd (coord_prh_step p now c s)) \<and> epoch_step s (snd (coord_prh_step p now c s))"
proof (cases rule: coord_prh_cases [of p now c s])
  case kept
  then show ?thesis by (simp add: epoch_same)
next
  case (beaten row f)
  have "list_all2 (\<lambda>r r'. if p_id r = ch_id c then r' = f r else r' = r) (prhs s)
      (upd_where (\<lambda>r. p_id r = ch_id c) f (prhs s))" by (rule upd_where_rows)
  then have "epoch_step s (s\<lparr>prhs := upd_where (\<lambda>r. p_id r = ch_id c) f (prhs s)\<rparr>)"
    unfolding epoch_step_def by (simp, elim list_all2_mono) (auto simp: beaten(5) split: if_splits)
  with beaten show ?thesis by (simp add: reports_only_def same_leases_def job_statuses_def)
qed

interpretation coord_prhs: batch_invariant "coord_prh_step p now" "\<lambda>s. True"
  "\<lambda>s t. reports_only s t \<and> epoch_step s t"
  using coord_prh_keeps by unfold_locales (auto intro: reports_only_trans epoch_trans epoch_same)

lemma epoch_get:
  assumes "epoch_step s t" "get_prh s i = Some r"
  shows "\<exists>r'. get_prh t i = Some r' \<and> p_host_id r' = p_host_id r \<and> p_coordinator_epoch r \<le> p_coordinator_epoch r'"
  using assms unfolding epoch_step_def get_prh_def
  by (induction rule: list_all2_induct) (auto split: if_splits)

lemma epoch_ids: "epoch_step s t \<Longrightarrow> map p_id (prhs t) = map p_id (prhs s)"
  unfolding epoch_step_def by (induction rule: list_all2_induct) auto

lemma stale_step:
  assumes "get_prh s (ch_id c) = Some row" "ch_id c \<noteq> 0" "ch_plan_run_id c \<noteq> 0" "ch_host_id c \<noteq> []"
    and "p_host_id row \<noteq> ci_host_id p \<or> ch_epoch c < p_coordinator_epoch row"
  shows "coord_prh_step p now c s = (Stale (ch_id c) (p_coordinator_epoch row), s)"
  using assms by (auto simp: coord_prh_step_def)

lemma stale_answered:
  assumes "c \<in> set cs" "get_prh s (ch_id c) = Some row" "ch_id c \<noteq> 0" "ch_plan_run_id c \<noteq> 0" "ch_host_id c \<noteq> []"
    and "p_host_id row \<noteq> ci_host_id p \<or> ch_epoch c < p_coordinator_epoch row"
  shows "ch_id c \<in> fst ` set (stale_of (fst (run_batch (coord_prh_step p now) cs s)))"
  using assms
proof (induction cs arbitrary: s row)
  case (Cons x cs)
  let ?u = "snd (coord_prh_step p now x s)"
  show ?case
  proof (cases "x = c")
    case True
    with stale_step [OF Cons.prems(2-6), of now] show ?thesis
      by (simp add: split_beta stale_of_def)
  next
    case False
    have "epoch_step s ?u" using coord_prh_keeps by blast
    from epoch_get [OF this Cons.prems(2)] obtain r' where r': "get_prh ?u (ch_id c) = Some r'"
      "p_host_id r' = p_host_id row" "p_coordinator_epoch row \<le> p_coordinator_epoch r'" by blast
    have "p_host_id r' \<noteq> ci_host_id p \<or> ch_epoch c < p_coordinator_epoch r'"
      using r'(2,3) Cons.prems(6) by auto
    from Cons.IH [OF _ r'(1) Cons.prems(3-5) this] False Cons.prems(1)
    show ?thesis by (auto simp: split_beta stale_of_def split: option.splits)
  qed
qed simp

lemma superseded_kept:
  assumes "distinct (map p_id (prhs s))" "r \<in> set (prhs s)" "superseded_row p cs r"
  shows "r \<in> set (prhs (snd (run_batch (coord_prh_step p now) cs s)))"
  using assms
proof (induction cs arbitrary: s)
  case (Cons c cs)
  let ?u = "snd (coord_prh_step p now c s)"
  have "distinct (map p_id (prhs ?u))"
    using epoch_ids [of s ?u] coord_prh_keeps Cons.prems(1) by metis
  moreover have "r \<in> set (prhs ?u)"
  proof (cases rule: coord_prh_cases [of p now c s])
    case kept
    with Cons.prems(2) show ?thesis by simp
  next
    case (beaten row f)
    have row: "row \<in> set (prhs s)" "p_id row = ch_id c"
      using beaten(1) unfolding get_prh_def by (auto dest: first_row_filterD)
    have "p_id r \<noteq> ch_id c"
    proof
      assume "p_id r = ch_id c"
      then have "r = row" using distinct_map_single [OF Cons.prems(1,2) row(1)] row(2) by simp
      with Cons.prems(3) beaten(2,3) row(2) show False by (simp add: superseded_row_def)
    qed
    with beaten(4) Cons.prems(2) show ?thesis by (simp add: set_upd_where)
  qed
  moreover have "superseded_row p cs r" using Cons.prems(3) by (auto simp: superseded_row_def)
  ultimately show ?case using Cons.IH by (simp add: split_beta Let_def)
qed simp

lemma coordinator_keeps:
  assumes "record_agent_coordinator_heartbeat e p now s = (out, t)"
  shows "reports_only s t \<and> epoch_step s t"
proof (cases "instance_superseded s p")
  case True
  with assms show ?thesis by (simp add: record_agent_coordinator_heartbeat_def Let_def epoch_same)
next
  case False
  let ?s1 = "snd (run_batch (coord_job_step e p now) (sort_key cj_job_id (ci_jobs p)) s)"
  have t: "t = snd (run_batch (coord_prh_step p now) (sort_key ch_id (ci_prhs p)) ?s1)"
    using assms False by (auto simp: record_agent_coordinator_heartbeat_def Let_def split_beta)
  have 1: "reports_only s ?s1" "prhs ?s1 = prhs s"
    using coord_jobs.batch_rel [of s e p now "sort_key cj_job_id (ci_jobs p)"] by simp_all
  have 2: "reports_only ?s1 t" "epoch_step ?s1 t"
    using coord_prhs.batch_rel [of ?s1 p now "sort_key ch_id (ci_prhs p)"] by (simp_all add: t)
  from reports_only_trans [OF 1(1) 2(1)] epoch_trans [OF epoch_same [OF 1(2)] 2(2)] show ?thesis ..
qed


subsection \<open>Concrete reports\<close>

definition step_report :: trace_in where
  "step_report = \<lparr>ti_job_id = 7, ti_step_id = ''s1'', ti_stage = ''execute'', ti_event_type = ''FINISHED'',
     ti_status = ''SUCCESS'', ti_output = NoOutput, ti_error_message = JNull, ti_exit_code = Some 0,
     ti_metadata = JNull, ti_original_ts = JTime 150, ti_trace_event_id = Some ''t1'',
     ti_fencing_token = ''5:1''\<rparr>"

lemma reports_need_token_witness:
  "\<exists>t u. upload_agent_step_traces 150 [step_report] claimed_db = (Inr 1, t) \<and> same_leases claimed_db t
     \<and> record_agent_job_heartbeat 7 ''RUNNING'' ''5:0'' 150 claimed_db = (Inl ReportTokenInvalid, u) \<and> u = claimed_db"
proof -
  let ?a = "upload_agent_step_traces 150 [step_report] claimed_db"
  let ?b = "record_agent_job_heartbeat 7 ''RUNNING'' ''5:0'' 150 claimed_db"
  have "fst ?a = Inr 1" "fst ?b = Inl ReportTokenInvalid" by code_simp+
  then obtain t u where a: "?a = (Inr 1, t)" and b: "?b = (Inl ReportTokenInvalid, u)" by (cases ?a; cases ?b) auto
  from reports_need_token [OF job_report.upload [OF a]] reports_need_token [OF job_report.heartbeat [OF b]] a b
  show ?thesis by simp
qed

lemma step_trace_replay_witness:
  "\<exists>t. reconcile_step_traces 150 [step_report, step_report] claimed_db = (1, t)
     \<and> reconcile_step_traces 160 [step_report, step_report] t = (0, t)"
proof -
  let ?r = "reconcile_step_traces 150 [step_report, step_report] claimed_db"
  have ok: "trace_table_ok claimed_db" and "fst ?r = 1" by code_simp+
  then obtain t where r: "?r = (1, t)" by (cases ?r) auto
  from step_trace_replay [OF ok r, of 160] r show ?thesis by blast
qed

definition coordinated_db :: db where
  "coordinated_db = claimed_db\<lparr>prhs := [\<lparr>p_id = 1, p_plan_run_id = 3, p_host_id = ''h1'', p_device_count = 1,
     p_total = 1, p_terminal = 0, p_completed = 0, p_failed = 0, p_aborted = 0,
     p_coordinator_heartbeat_at = None, p_coordinator_epoch = 4, p_phase = None,
     p_status = ''ADMITTED'', p_admitted_at = None, p_admission_batch_size_snapshot = None\<rparr>]\<rparr>"

definition coord_report :: "int \<Rightarrow> coord_in" where
  "coord_report epoch = \<lparr>ci_host_id = ''h1'', ci_agent_instance_id = ''a1'',
     ci_prhs = [\<lparr>ch_id = 1, ch_plan_run_id = 3, ch_host_id = ''h1'', ch_epoch = epoch, ch_phase = Some ''PATROL''\<rparr>],
     ci_jobs = []\<rparr>"


end
