(* ===== verification/Plan_Abort.thy ===== *)
theory Plan_Abort
  imports Job_Reports
begin

section \<open>Aborting plan runs (services/plan\_run\_abort.py)\<close>

text \<open>
  An abort of a run, or of the jobs of one host in it, marks the run's context, ends PENDING jobs at
  once and leaves RUNNING ones to their agents and the reaper of \<open>Lease_Reconciler\<close>.  When there are
  PENDING jobs it commits in between and locks again; \<open>between\<close> is what other transactions do in that
  window.  Pushes, metrics and notifications are left out; the control commands are in the answer.
\<close>

datatype abort_error = AbortRunNotFound | AbortAlreadyTerminal plan_run_status | AbortInvalidTransition | AbortRunVanished

record abort_in =
  aq_run :: nat
  aq_reason :: string
  aq_by :: "string option"
  aq_username :: "string option"
  aq_action :: string
  aq_host :: "string option"

record abort_out =
  ao_status :: plan_run_status
  ao_phase :: string
  ao_aborted :: "nat list"
  ao_requested :: "nat list"
  ao_control :: "(string \<times> nat list) list"

subsection \<open>The run's context\<close>

fun jsonb_set :: "json \<Rightarrow> string list \<Rightarrow> json \<Rightarrow> json" where
  \<comment> \<open>PostgreSQL creates the last key of the path only\<close>
  "jsonb_set doc [] v = doc"
| "jsonb_set doc [k] v = JObj (AList.update k v (obj_or_empty doc))"
| "jsonb_set doc (k # k2 # ks) v =
     (case jget (obj_or_empty doc) k of
        JObj o1 \<Rightarrow> JObj (AList.update k (jsonb_set (JObj o1) (k2 # ks) v) (obj_or_empty doc))
      | _ \<Rightarrow> JObj (obj_or_empty doc))"

definition patch_run_context :: "nat \<Rightarrow> string list \<Rightarrow> json \<Rightarrow> db \<Rightarrow> db" where
  "patch_run_context run_id path v s =
     upd_run run_id (\<lambda>r. r\<lparr>r_run_context := jsonb_set (r_run_context r) path v\<rparr>) s"

definition ensure_abort_hosts_key :: "nat \<Rightarrow> db \<Rightarrow> db" where
  "ensure_abort_hosts_key run_id s =
     upd_run run_id (\<lambda>r. r\<lparr>r_run_context := jsonb_set (r_run_context r) [''abort_requested_hosts'']
       (JObj (obj_or_empty (jget (obj_or_empty (r_run_context r)) ''abort_requested_hosts'')))\<rparr>) s"

definition ids_json :: "nat list \<Rightarrow> json list" where
  "ids_json is = map (\<lambda>i. JInt (int i)) is"

definition dict_keys :: "'a list \<Rightarrow> 'a list" where
  \<comment> \<open>\<open>list(dict.fromkeys(xs))\<close>\<close>
  "dict_keys xs = rev (remdups (rev xs))"

definition abort_payload :: "env \<Rightarrow> abort_in \<Rightarrow> nat list \<Rightarrow> time \<Rightarrow> jobj \<Rightarrow> jobj" where
  \<comment> \<open>\<open>existing\<close>: the entry \<open>abort_requested\<close> so far; a host's request leaves the clock of the run alone\<close>
  "abort_payload e q requested now existing =
     (case aq_host q of
        None \<Rightarrow>
          [(''at'', JTime now), (''reason'', JStr (aq_reason q)), (''triggered_by'', opt_json (aq_by q)),
           (''deadline_at'', JTime (now + e_abort_ack_grace e)),
           (''requested_job_ids'', JList (ids_json requested)), (''acknowledged_job_ids'', JList [])]
      | Some h \<Rightarrow>
          AList.updates [''reason'', ''triggered_by'', ''requested_job_ids'', ''acknowledged_job_ids'']
            [JStr (aq_reason q), opt_json (aq_by q),
             JList (dict_keys (list_or_empty (jget existing ''requested_job_ids'') @ ids_json requested)),
             JList (list_or_empty (jget existing ''acknowledged_job_ids''))] existing)"

definition host_clock_payload :: "env \<Rightarrow> abort_in \<Rightarrow> string \<Rightarrow> time \<Rightarrow> jobj \<Rightarrow> jobj" where
  "host_clock_payload e q h now ctx =
     (let existing = obj_or_empty (jget (obj_or_empty (jget ctx ''abort_requested_hosts'')) h)
      in if truthy (jget existing ''at'')
         then AList.updates [''reason'', ''triggered_by''] [JStr (aq_reason q), opt_json (aq_by q)] existing
         else [(''at'', JTime now), (''reason'', JStr (aq_reason q)), (''triggered_by'', opt_json (aq_by q)),
               (''deadline_at'', JTime (now + e_abort_ack_grace e))])"

definition abort_audit :: "abort_in \<Rightarrow> jobj \<Rightarrow> db \<Rightarrow> db" where
  "abort_audit q details s =
     add_audit (aq_action q) ''plan_run'' (dec (aq_run q)) (opt_text (aq_username q)) (JObj details) s"

subsection \<open>Ending the PENDING jobs\<close>

definition host_of_pending :: "(nat \<times> string option) list \<Rightarrow> nat \<Rightarrow> string option" where
  \<comment> \<open>the host read before the window, if it is not empty\<close>
  "host_of_pending pend i =
     (case map_of pend i of Some (Some h) \<Rightarrow> if h = [] then None else Some h | _ \<Rightarrow> None)"

definition abort_hits :: "nat list \<Rightarrow> db \<Rightarrow> nat list" where
  "abort_hits ids s = map j_id (filter (\<lambda>j. j_id j \<in> set ids \<and> j_status j = J_PENDING) (jobs s))"

definition aborted_row :: "string \<Rightarrow> time \<Rightarrow> job_row \<Rightarrow> job_row" where
  "aborted_row reason now j =
     j\<lparr>j_status := J_ABORTED, j_status_reason := reason, j_execution_state := None,
       j_ended_at := Some now, j_updated_at := now\<rparr>"

definition count_for :: "(nat \<times> string option) list \<Rightarrow> nat list \<Rightarrow> string \<Rightarrow> int" where
  "count_for pend ids h = int (length (filter (\<lambda>i. host_of_pending pend i = Some h) ids))"

definition aggregate_counters :: "nat \<Rightarrow> time \<Rightarrow> db \<Rightarrow> transition_error + db" where
  \<comment> \<open>the effects of the end of the run are not left to the chain\<close>
  "aggregate_counters run_id now s =
     (case get_run s run_id of
        None \<Rightarrow> Inr s
      | Some run \<Rightarrow>
          if r_total run > 0
          then (case apply_plan_run_aggregation_from_counters run now of
                  Inl err \<Rightarrow> Inl err
                | Inr (applied, run1) \<Rightarrow>
                    Inr (upd_run run_id
                      (\<lambda>r. if applied then run1\<lparr>r_terminal_effects := Some ''done''\<rparr> else run1) s))
          else Inr s)"

definition abort_pending_rows ::
  "abort_in \<Rightarrow> (nat \<times> string option) list \<Rightarrow> nat list \<Rightarrow> time \<Rightarrow> db \<Rightarrow> db" where
  \<comment> \<open>the jobs and the counters of their hosts\<close>
  "abort_pending_rows q pend hits now s =
     s\<lparr>jobs := upd_where (\<lambda>j. j_id j \<in> set (map fst pend) \<and> j_status j = J_PENDING)
               (aborted_row (aq_reason q) now) (jobs s),
       prhs := upd_where (\<lambda>p. p_plan_run_id p = aq_run q \<and> count_for pend hits (p_host_id p) > 0)
               (\<lambda>p. p\<lparr>p_aborted := p_aborted p + count_for pend hits (p_host_id p),
                      p_terminal := p_terminal p + count_for pend hits (p_host_id p)\<rparr>) (prhs s)\<rparr>"

definition bulk_abort_pending_jobs ::
  "abort_in \<Rightarrow> (nat \<times> string option) list \<Rightarrow> time \<Rightarrow> db \<Rightarrow> transition_error + (nat list \<times> db)" where
  "bulk_abort_pending_jobs q pend now s =
     (let hits = abort_hits (map fst pend) s; n = int (length hits) in
      if hits = [] then Inr ([], s)
      else
        (let s1 = abort_pending_rows q pend hits now s;
             s2 = upd_run (aq_run q) (\<lambda>r. r\<lparr>r_aborted := r_aborted r + n, r_terminal := r_terminal r + n\<rparr>) s1;
             hs = dict_keys (List.map_filter (host_of_pending pend) hits);
             s3 = add_audit ''job_batch_terminalized'' ''plan_run'' (dec (aq_run q))
                    (case aq_by q of None \<Rightarrow> ''system'' | Some u \<Rightarrow> if u = [] then ''system'' else u)
                    (JObj [(''count'', JInt n), (''from_status'', JStr ''PENDING''), (''to_status'', JStr ''ABORTED''),
                           (''plan_run_id'', JInt (int (aq_run q))),
                           (''hosts'', JObj (map (\<lambda>h. (h, JInt (count_for pend hits h))) hs))]) s2
         in case aggregate_counters (aq_run q) now s3 of Inl err \<Rightarrow> Inl err | Inr t \<Rightarrow> Inr (hits, t)))"

subsection \<open>The request\<close>

datatype abort_progress =
    AbortDone abort_out
  | AbortRunning "(nat \<times> string option) list" "(nat \<times> string option) list"
    \<comment> \<open>PENDING and RUNNING jobs in scope, with their hosts\<close>

definition abort_active_jobs :: "abort_in \<Rightarrow> db \<Rightarrow> job_row list" where
  "abort_active_jobs q s =
     filter (\<lambda>j. j_plan_run_id j = aq_run q \<and> j_status j \<in> {J_PENDING, J_RUNNING}
        \<and> (aq_host q \<noteq> None \<longrightarrow> j_host_id j = aq_host q)) (jobs s)"

definition job_hosts :: "job_status \<Rightarrow> job_row list \<Rightarrow> (nat \<times> string option) list" where
  "job_hosts st js = map (\<lambda>j. (j_id j, j_host_id j)) (filter (\<lambda>j. j_status j = st) js)"

definition abort_admission :: "abort_in \<Rightarrow> run_row \<Rightarrow> time \<Rightarrow> db \<Rightarrow> (abort_error + abort_progress) \<times> db" where
  \<comment> \<open>a run that was not dispatched yet\<close>
  "abort_admission q run now s =
     (let phase = (if r_status run = R_QUEUED then ''queued'' else ''precheck'') in
      case plan_run_transition run R_FAILED of
        Inl err \<Rightarrow> (Inl AbortInvalidTransition, s)
      | Inr run1 \<Rightarrow>
          (let run2 = run1\<lparr>r_ended_at := Some now,
                 r_result_summary := JObj [(''aborted'', JBool True), (''reason'', JStr (aq_reason q)),
                   (''phase'', JStr phase), (''total'', JInt 0)]\<rparr>;
               s1 = patch_run_context (aq_run q) [''abort_requested'']
                 (JObj [(''at'', JTime now), (''reason'', JStr (aq_reason q)), (''triggered_by'', opt_json (aq_by q)),
                        (''requested_job_ids'', JList []), (''acknowledged_job_ids'', JList [])])
                 (upd_run (aq_run q) (\<lambda>r. run2) s);
               s2 = abort_audit (q\<lparr>aq_username := (case aq_username q of Some u \<Rightarrow> if u = [] then aq_by q else Some u
                       | None \<Rightarrow> aq_by q)\<rparr>)
                      [(''reason'', JStr (aq_reason q)), (''phase'', JStr phase)] s1
           in (Inr (AbortDone \<lparr>ao_status = R_FAILED, ao_phase = phase, ao_aborted = [], ao_requested = [],
                 ao_control = []\<rparr>), s2)))"

definition in_precheck :: "abort_in \<Rightarrow> jobj \<Rightarrow> bool" where
  "in_precheck q ctx \<longleftrightarrow> aq_host q = None \<and> truthy (jget ctx ''precheck'')
     \<and> jget (obj_or_empty (jget ctx ''precheck'')) ''phase''
         \<in> {JStr ''verifying'', JStr ''syncing'', JStr ''reverifying''}"

definition abort_precheck :: "abort_in \<Rightarrow> run_row \<Rightarrow> time \<Rightarrow> db \<Rightarrow> (abort_error + abort_progress) \<times> db" where
  "abort_precheck q run now s =
     (let precheck = obj_or_empty (jget (obj_or_empty (r_run_context run)) ''precheck'');
          closed = AList.updates [''phase'', ''final_result'', ''completed_at'', ''errors'']
            [JStr ''failed'', JStr ''aborted'', JTime now,
             JList (list_or_empty (jget precheck ''errors'') @ [JStr (''aborted: '' @ aq_reason q)])] precheck
      in case plan_run_transition run R_FAILED of
           Inl err \<Rightarrow> (Inl AbortInvalidTransition, s)
         | Inr run1 \<Rightarrow>
             (let run2 = run1\<lparr>r_ended_at := Some now,
                    r_result_summary := JObj [(''precheck_failed'', JBool True), (''reason'', JStr (aq_reason q)),
                      (''aborted'', JBool True)]\<rparr>;
                  s1 = patch_run_context (aq_run q) [''precheck''] (JObj closed) (upd_run (aq_run q) (\<lambda>r. run2) s);
                  s2 = abort_audit q [(''reason'', JStr (aq_reason q)), (''phase'', JStr ''precheck''),
                         (''aborted_jobs'', JList []), (''abort_requested_jobs'', JList []),
                         (''triggered_by'', opt_json (aq_by q))] s1
              in (Inr (AbortDone \<lparr>ao_status = R_FAILED, ao_phase = ''precheck'', ao_aborted = [],
                    ao_requested = [], ao_control = []\<rparr>), s2)))"

definition request_abort :: "env \<Rightarrow> abort_in \<Rightarrow> nat list \<Rightarrow> jobj \<Rightarrow> time \<Rightarrow> db \<Rightarrow> db" where
  \<comment> \<open>the writes to the run's context\<close>
  "request_abort e q requested ctx now s =
     (let s1 = patch_run_context (aq_run q) [''abort_requested'']
            (JObj (abort_payload e q requested now (obj_or_empty (jget ctx ''abort_requested'')))) s
      in case aq_host q of
           None \<Rightarrow> s1
         | Some h \<Rightarrow>
             patch_run_context (aq_run q) [''abort_requested_hosts'', h] (JObj (host_clock_payload e q h now ctx))
               (ensure_abort_hosts_key (aq_run q) s1))"

definition abort_begin :: "env \<Rightarrow> abort_in \<Rightarrow> time \<Rightarrow> db \<Rightarrow> (abort_error + abort_progress) \<times> db" where
  "abort_begin e q now s =
     (case get_run s (aq_run q) of
        None \<Rightarrow> (Inl AbortRunNotFound, s)
      | Some run \<Rightarrow>
          if r_status run \<in> set TERMINAL_PLAN_RUN_STATUSES then (Inl (AbortAlreadyTerminal (r_status run)), s)
          else if aq_host q = None \<and> r_status run \<in> {R_QUEUED, R_PRECHECK} \<and> run_jobs (aq_run q) s = []
          then abort_admission q run now s
          else
            (let ctx = obj_or_empty (r_run_context run) in
             if in_precheck q ctx then abort_precheck q run now s
             else
               (let active = abort_active_jobs q s in
                if aq_host q \<noteq> None \<and> active = []
                then (Inr (AbortDone \<lparr>ao_status = r_status run, ao_phase = ''running'', ao_aborted = [],
                        ao_requested = [], ao_control = []\<rparr>), s)
                else (Inr (AbortRunning (job_hosts J_PENDING active) (job_hosts J_RUNNING active)),
                      request_abort e q (map fst (job_hosts J_RUNNING active)) ctx now s))))"

subsection \<open>The end\<close>

definition raced_jobs :: "(nat \<times> string option) list \<Rightarrow> nat list \<Rightarrow> db \<Rightarrow> (nat \<times> string option) list" where
  \<comment> \<open>read as PENDING, claimed in the window\<close>
  "raced_jobs pend hits s =
     List.map_filter (\<lambda>(i, h). if i \<in> set hits then None
        else (case get_job s i of
                None \<Rightarrow> None
              | Some j \<Rightarrow> if j_status j = J_RUNNING then Some (i, j_host_id j) else None)) pend"

definition refresh_requested :: "abort_in \<Rightarrow> nat list \<Rightarrow> jobj \<Rightarrow> db \<Rightarrow> db" where
  "refresh_requested q requested ctx s =
     patch_run_context (aq_run q) [''abort_requested'', ''requested_job_ids'']
       (JList (dict_keys (list_or_empty (jget (obj_or_empty (jget ctx ''abort_requested'')) ''requested_job_ids'')
          @ ids_json requested))) s"

definition close_if_idle :: "abort_in \<Rightarrow> time \<Rightarrow> db \<Rightarrow> transition_error + db" where
  \<comment> \<open>the last aggregation when no job of the run is active\<close>
  "close_if_idle q now s =
     (case get_run s (aq_run q) of
        None \<Rightarrow> Inr s
      | Some run \<Rightarrow>
          if list_ex (\<lambda>j. j_status j \<in> {J_PENDING, J_RUNNING}) (run_jobs (aq_run q) s)
             \<or> r_status run \<in> set TERMINAL_PLAN_RUN_STATUSES
          then Inr s
          else if r_total run > 0 then aggregate_counters (aq_run q) now s
          else if run_jobs (aq_run q) s \<noteq> []
          then (case apply_plan_run_aggregation run (run_jobs (aq_run q) s) now of
                  Inl err \<Rightarrow> Inl err
                | Inr (applied, run1) \<Rightarrow>
                    Inr (upd_run (aq_run q) (\<lambda>r. if applied then run1\<lparr>r_terminal_effects := Some ''done''\<rparr> else run1) s))
          else if aq_host q = None
          then (case plan_run_transition run R_FAILED of
                  Inl err \<Rightarrow> Inl err
                | Inr run1 \<Rightarrow>
                    Inr (upd_run (aq_run q) (\<lambda>r. run1\<lparr>r_ended_at := Some now,
                      r_result_summary := JObj [(''aborted'', JBool True), (''reason'', JStr (aq_reason q)),
                        (''empty_run'', JBool True)]\<rparr>) s))
          else Inr s)"

definition control_items :: "(nat \<times> string option) list \<Rightarrow> (string \<times> nat list) list" where
  "control_items reqs =
     map (\<lambda>h. (h, map fst (filter (\<lambda>r. snd r = Some h) reqs)))
       (dict_keys (List.map_filter (\<lambda>(i, h). case h of None \<Rightarrow> None | Some x \<Rightarrow> if x = [] then None else Some x) reqs))"

definition stop_pending ::
  "abort_in \<Rightarrow> (nat \<times> string option) list \<Rightarrow> (nat \<times> string option) list \<Rightarrow> run_row \<Rightarrow> time \<Rightarrow> db
   \<Rightarrow> transition_error + (nat list \<times> (nat \<times> string option) list \<times> db)" where
  \<comment> \<open>jobs ended, jobs to stop\<close>
  "stop_pending q pend reqs0 run now s =
     (if pend = [] then Inr ([], reqs0, s)
      else (case bulk_abort_pending_jobs q pend now s of
              Inl err \<Rightarrow> Inl err
            | Inr (hits, s1) \<Rightarrow>
                (let reqs = reqs0 @ raced_jobs pend hits s1
                 in Inr (hits, reqs, refresh_requested q (map fst reqs) (obj_or_empty (r_run_context run)) s1))))"

definition still_pending :: "(nat \<times> string option) list \<Rightarrow> run_row \<Rightarrow> (nat \<times> string option) list" where
  "still_pending pend run = (if r_status run \<in> set TERMINAL_PLAN_RUN_STATUSES then [] else pend)"

definition abort_finish ::
  "abort_in \<Rightarrow> (nat \<times> string option) list \<Rightarrow> (nat \<times> string option) list \<Rightarrow> time \<Rightarrow> db
   \<Rightarrow> (abort_error + abort_out) \<times> db" where
  "abort_finish q pend0 reqs0 now s =
     (case get_run s (aq_run q) of
        None \<Rightarrow> (Inl AbortRunVanished, s)
      | Some run \<Rightarrow>
          (case stop_pending q (still_pending pend0 run) reqs0 run now s of
             Inl err \<Rightarrow> (Inl AbortInvalidTransition, s)
           | Inr (hits, reqs, s2) \<Rightarrow>
               (case close_if_idle q now s2 of
                  Inl err \<Rightarrow> (Inl AbortInvalidTransition, s)
                | Inr s3 \<Rightarrow>
                    (Inr \<lparr>ao_status = (case get_run s3 (aq_run q) of None \<Rightarrow> r_status run | Some r \<Rightarrow> r_status r),
                       ao_phase = ''running'', ao_aborted = hits, ao_requested = map fst reqs,
                       ao_control = control_items reqs\<rparr>,
                     abort_audit q [(''reason'', JStr (aq_reason q)), (''phase'', JStr ''running''),
                       (''aborted_jobs'', JList (ids_json hits)),
                       (''abort_requested_jobs'', JList (ids_json (map fst reqs))),
                       (''triggered_by'', opt_json (aq_by q))] s3))))"

text \<open>An error after the first commit leaves what was committed.\<close>

definition abort_plan_run ::
  "env \<Rightarrow> abort_in \<Rightarrow> time \<Rightarrow> (db \<Rightarrow> db) \<Rightarrow> db \<Rightarrow> (abort_error + abort_out) \<times> db" where
  "abort_plan_run e q now between s =
     (case abort_begin e q now s of
        (Inl err, _) \<Rightarrow> (Inl err, s)
      | (Inr (AbortDone out), s1) \<Rightarrow> (Inr out, s1)
      | (Inr (AbortRunning pend reqs), s1) \<Rightarrow>
          (let u = (if pend = [] then s1 else between s1) in
           case abort_finish q pend reqs now u of
             (Inl err, _) \<Rightarrow> (Inl err, if pend = [] then s else u)
           | (Inr out, t) \<Rightarrow> (Inr out, t)))"

fun abort_runs ::
  "env \<Rightarrow> abort_in \<Rightarrow> time \<Rightarrow> (nat \<Rightarrow> db \<Rightarrow> db) \<Rightarrow> nat list \<Rightarrow> db \<Rightarrow> nat list option \<times> db" where
  \<comment> \<open>refused runs are skipped; \<open>None\<close>: any other exception ends the request\<close>
  "abort_runs e q now between [] s = (Some [], s)"
| "abort_runs e q now between (r # rs) s =
     (case abort_plan_run e (q\<lparr>aq_run := r\<rparr>) now (between r) s of
        (Inl err, s1) \<Rightarrow>
          if err \<in> {AbortInvalidTransition, AbortRunVanished} then (None, s1)
          else abort_runs e q now between rs s1
      | (Inr out, s1) \<Rightarrow>
          (let (rest, s2) = abort_runs e q now between rs s1
           in (map_option (\<lambda>ids. ao_aborted out @ ids) rest, s2)))"

definition abort_jobs_for_host ::
  "env \<Rightarrow> string \<Rightarrow> abort_in \<Rightarrow> time \<Rightarrow> (nat \<Rightarrow> db \<Rightarrow> db) \<Rightarrow> db \<Rightarrow> (nat list \<times> nat list) option \<times> db" where
  \<comment> \<open>runs visited and jobs aborted; of \<open>q\<close> the reason and the user count\<close>
  "abort_jobs_for_host e h q now between s =
     (let rs = sort (remdups (map j_plan_run_id
                 (filter (\<lambda>j. j_host_id j = Some h \<and> j_status j \<in> {J_PENDING, J_RUNNING}) (jobs s))));
          (ids, t) = abort_runs e (q\<lparr>aq_host := Some h, aq_action := ''abort_jobs_for_host_update''\<rparr>) now between rs s
      in (map_option (Pair rs) ids, t))"

subsection \<open>What an abort may write\<close>

definition abort_frame :: "abort_in \<Rightarrow> nat set \<Rightarrow> time \<Rightarrow> db \<Rightarrow> db \<Rightarrow> bool" where
  \<comment> \<open>PENDING jobs of \<open>ids\<close> end, the run stays or fails, and nothing else but its counters changes\<close>
  "abort_frame q ids now s t \<longleftrightarrow>
     leases t = leases s \<and> next_lease_id t = next_lease_id s \<and> devices t = devices s \<and> debts t = debts s
     \<and> hosts t = hosts s \<and> traces t = traces s \<and> pending_aggregation t = pending_aggregation s
     \<and> list_all2 (\<lambda>j j'. j' = j \<or> j_id j \<in> ids \<and> j_status j = J_PENDING
          \<and> j' = aborted_row (aq_reason q) now j) (jobs s) (jobs t)
     \<and> list_all2 (\<lambda>p p'. p' = p \<or> p_plan_run_id p = aq_run q \<and> (\<exists>n. p' = p\<lparr>p_aborted := p_aborted p + n,
          p_terminal := p_terminal p + n\<rparr>)) (prhs s) (prhs t)
     \<and> (\<forall>i. i \<noteq> aq_run q \<longrightarrow> get_run t i = get_run s i)
     \<and> (\<forall>r. get_run s (aq_run q) = Some r \<longrightarrow>
          (\<exists>r'. get_run t (aq_run q) = Some r' \<and> r_status r' \<in> {r_status r, R_FAILED}))"

definition only_run :: "abort_in \<Rightarrow> db \<Rightarrow> db \<Rightarrow> bool" where
  \<comment> \<open>a step of the run's row, or an audit row\<close>
  "only_run q s t \<longleftrightarrow>
     leases t = leases s \<and> next_lease_id t = next_lease_id s \<and> devices t = devices s \<and> debts t = debts s
     \<and> hosts t = hosts s \<and> traces t = traces s \<and> pending_aggregation t = pending_aggregation s
     \<and> jobs t = jobs s \<and> prhs t = prhs s
     \<and> (\<forall>i. i \<noteq> aq_run q \<longrightarrow> get_run t i = get_run s i)
     \<and> (\<forall>r. get_run s (aq_run q) = Some r \<longrightarrow>
          (\<exists>r'. get_run t (aq_run q) = Some r' \<and> r_status r' \<in> {r_status r, R_FAILED}))"

lemma only_run_refl [simp]: "only_run q s s"
  by (simp add: only_run_def)

lemma only_run_trans: "only_run q s t \<Longrightarrow> only_run q t u \<Longrightarrow> only_run q s u"
  unfolding only_run_def by (elim conjE, intro conjI allI impI) (fastforce | simp)+

lemma only_run_frame: "only_run q s t \<Longrightarrow> abort_frame q ids now s t"
  by (simp add: only_run_def abort_frame_def list_all2_same)

lemma frame_only_run:
  assumes "abort_frame q ids now s t" "only_run q t u"
  shows "abort_frame q ids now s u"
  using assms unfolding abort_frame_def only_run_def
  by (elim conjE, intro conjI allI impI) (fastforce | simp)+

lemma only_run_upd:
  assumes "\<And>r. get_run s (aq_run q) = Some r \<Longrightarrow> r_status (f r) \<in> {r_status r, R_FAILED}"
    and "\<And>r. r_id r = aq_run q \<Longrightarrow> r_id (f r) = aq_run q"
  shows "only_run q s (upd_run (aq_run q) f s)"
  using assms get_run_upd_run [of "aq_run q" f s, OF assms(2)] get_run_other [of "aq_run q" _ f s, OF _ assms(2)]
  unfolding only_run_def by (auto simp: upd_run_def)

lemma only_run_audit [simp]: "only_run q s (add_audit a b c d e s)" "only_run q s (abort_audit q' x s)"
  by (simp_all add: only_run_def add_audit_def abort_audit_def get_run_def)

lemma only_run_patch [simp]: "only_run q s (patch_run_context (aq_run q) path v s)"
  unfolding patch_run_context_def by (rule only_run_upd) simp_all

lemma only_run_request: "only_run q s (request_abort e q ids ctx now s)"
proof -
  have "only_run q s (ensure_abort_hosts_key (aq_run q) s)" for s
    unfolding ensure_abort_hosts_key_def by (rule only_run_upd) simp_all
  then show ?thesis
    by (auto simp: request_abort_def Let_def split: option.splits
        intro: only_run_trans [OF only_run_patch] only_run_trans [OF _ only_run_patch])
qed

lemma aggregation_status:
  assumes "apply_plan_run_aggregation_from_counters run now = Inr (applied, run1)"
    and "abort_requested run"
  shows "r_id run1 = r_id run \<and> r_status run1 \<in> {r_status run, R_FAILED} \<and> r_run_context run1 = r_run_context run"
  using assms
  by (auto simp: apply_plan_run_aggregation_from_counters_def finalize_plan_run_def plan_run_transition_def
      resolve_plan_run_status_def split: if_splits)

lemma scan_status:
  assumes "apply_plan_run_aggregation run js now = Inr (applied, run1)" and "abort_requested run"
  shows "r_id run1 = r_id run \<and> r_status run1 \<in> {r_status run, R_FAILED} \<and> r_run_context run1 = r_run_context run"
  using assms
  by (auto simp: apply_plan_run_aggregation_def finalize_plan_run_def plan_run_transition_def
      resolve_plan_run_status_def split: if_splits)

definition ctx_of :: "nat \<Rightarrow> db \<Rightarrow> json option" where
  "ctx_of i s = map_option r_run_context (get_run s i)"

definition abort_marked :: "nat \<Rightarrow> db \<Rightarrow> bool" where
  \<comment> \<open>the run's context holds the key \<open>abort_requested\<close>\<close>
  "abort_marked i s \<longleftrightarrow> (\<forall>r. get_run s i = Some r \<longrightarrow> abort_requested r)"

lemma abort_marked_run: "abort_marked i s \<Longrightarrow> get_run s i = Some r \<Longrightarrow> abort_requested r"
  by (simp add: abort_marked_def)

lemma abort_marked_ctx: "ctx_of i t = ctx_of i s \<Longrightarrow> abort_marked i t = abort_marked i s"
  unfolding ctx_of_def abort_marked_def abort_requested_def
  by (cases "get_run s i"; cases "get_run t i") auto

lemma ctx_rows [simp]:
  "ctx_of i (s\<lparr>jobs := x, prhs := y\<rparr>) = ctx_of i s" "ctx_of i (add_audit a b c d e s) = ctx_of i s"
  by (simp_all add: ctx_of_def get_run_def add_audit_def)

definition only_row :: "abort_in \<Rightarrow> db \<Rightarrow> db \<Rightarrow> bool" where
  \<comment> \<open>the context stays as well\<close>
  "only_row q s t \<longleftrightarrow> only_run q s t \<and> ctx_of (aq_run q) t = ctx_of (aq_run q) s"

lemma only_row_refl [simp]: "only_row q s s"
  by (simp add: only_row_def)

lemma only_row_trans: "only_row q s t \<Longrightarrow> only_row q t u \<Longrightarrow> only_row q s u"
  by (auto simp: only_row_def intro: only_run_trans)

lemma only_row_audit [simp]: "only_row q s (add_audit a b c d e s)"
  by (simp add: only_row_def)

lemma only_row_marked: "only_row q s t \<Longrightarrow> abort_marked (aq_run q) t = abort_marked (aq_run q) s"
  by (rule abort_marked_ctx) (simp add: only_row_def)

lemma only_row_upd:
  assumes "\<And>r. get_run s (aq_run q) = Some r
      \<Longrightarrow> r_status (f r) \<in> {r_status r, R_FAILED} \<and> r_run_context (f r) = r_run_context r"
    and "\<And>r. r_id r = aq_run q \<Longrightarrow> r_id (f r) = aq_run q"
  shows "only_row q s (upd_run (aq_run q) f s)"
  using assms only_run_upd [of s q f] get_run_upd_run [of "aq_run q" f s, OF assms(2)]
  by (cases "get_run s (aq_run q)") (auto simp: only_row_def ctx_of_def)

lemma only_row_to:
  assumes "get_run s (aq_run q) = Some run" "r_id y = r_id run" "r_status y \<in> {r_status run, R_FAILED}"
    "r_run_context y = r_run_context run"
  shows "only_row q s (upd_run (aq_run q) (\<lambda>r. y) s)"
  using assms get_run_Some [OF assms(1)] by (intro only_row_upd) auto

lemma aggregate_only_row:
  assumes m: "abort_marked (aq_run q) s" and a: "aggregate_counters (aq_run q) now s = Inr t"
  shows "only_row q s t"
proof (cases "get_run s (aq_run q)")
  case None
  with a show ?thesis by (simp add: aggregate_counters_def)
next
  case (Some run)
  from a Some show ?thesis
    by (auto simp: aggregate_counters_def intro!: only_row_to [OF Some]
        dest: aggregation_status [OF _ abort_marked_run [OF m Some]] split: if_splits sum.splits)
qed

lemma close_only_row:
  assumes m: "abort_marked (aq_run q) s" and c: "close_if_idle q now s = Inr t"
  shows "only_row q s t"
proof (cases "get_run s (aq_run q)")
  case None
  with c show ?thesis by (simp add: close_if_idle_def)
next
  case (Some run)
  from c Some show ?thesis
    by (auto simp: close_if_idle_def plan_run_transition_def intro!: only_row_to [OF Some]
        dest: scan_status [OF _ abort_marked_run [OF m Some]] intro: aggregate_only_row [OF m]
        split: if_splits sum.splits)
qed

lemma abort_begin_only_run: "abort_begin e q now s = (r, t) \<Longrightarrow> only_run q s t"
proof -
  assume b: "abort_begin e q now s = (r, t)"
  have fails: "only_run q s (abort_audit q' d (patch_run_context (aq_run q) p v (upd_run (aq_run q) (\<lambda>r. run2) s)))"
    if "get_run s (aq_run q) = Some run" "r_id run2 = r_id run" "r_status run2 = R_FAILED" for run run2 q' d p v
  proof -
    have "only_run q s (upd_run (aq_run q) (\<lambda>r. run2) s)"
      using that get_run_Some [OF that(1)] by (intro only_run_upd) auto
    then show ?thesis by (intro only_run_trans [OF only_run_trans [OF _ only_run_patch] only_run_audit(2)])
  qed
  show ?thesis
  proof (cases "get_run s (aq_run q)")
    case None
    with b show ?thesis by (simp add: abort_begin_def)
  next
    case (Some run)
    note f = fails [OF Some]
    from b Some show ?thesis
      by (auto simp: abort_begin_def abort_admission_def abort_precheck_def plan_run_transition_def Let_def
          intro!: f only_run_request split: if_splits sum.splits)
  qed
qed

lemma pending_rows:
  "abort_frame q (set (map fst pend)) now s (abort_pending_rows q pend hits now s)"
  "ctx_of i (abort_pending_rows q pend hits now s) = ctx_of i s"
  "get_run (abort_pending_rows q pend hits now s) i = get_run s i"
proof -
  have g: "get_run (s\<lparr>jobs := x, prhs := y\<rparr>) i = get_run s i" for x y i by (simp add: get_run_def)
  then show "abort_frame q (set (map fst pend)) now s (abort_pending_rows q pend hits now s)"
    unfolding abort_frame_def abort_pending_rows_def
    by (intro conjI) (force intro!: upd_where_all2)+
  show "ctx_of i (abort_pending_rows q pend hits now s) = ctx_of i s"
    "get_run (abort_pending_rows q pend hits now s) i = get_run s i"
    by (simp_all add: abort_pending_rows_def g)
qed

lemma bulk_frame:
  assumes m: "abort_marked (aq_run q) s" and b: "bulk_abort_pending_jobs q pend now s = Inr (hits, t)"
  shows "abort_frame q (set (map fst pend)) now s t \<and> ctx_of (aq_run q) t = ctx_of (aq_run q) s
     \<and> hits = abort_hits (map fst pend) s
     \<and> jobs t = upd_where (\<lambda>j. j_id j \<in> set (map fst pend) \<and> j_status j = J_PENDING)
                  (aborted_row (aq_reason q) now) (jobs s)"
proof (cases "abort_hits (map fst pend) s = []")
  case True
  then have "upd_where (\<lambda>j. j_id j \<in> set (map fst pend) \<and> j_status j = J_PENDING)
      (aborted_row (aq_reason q) now) (jobs s) = jobs s"
    by (intro upd_where_none) (auto simp: abort_hits_def filter_empty_conv)
  with True b show ?thesis
    by (auto simp: bulk_abort_pending_jobs_def intro: only_run_frame)
next
  case False
  let ?h = "abort_hits (map fst pend) s"
  let ?s1 = "abort_pending_rows q pend ?h now s"
  let ?s2 = "upd_run (aq_run q) (\<lambda>r. r\<lparr>r_aborted := r_aborted r + int (length ?h),
                                       r_terminal := r_terminal r + int (length ?h)\<rparr>) ?s1"
  obtain a b c d e' where t: "hits = ?h" "aggregate_counters (aq_run q) now (add_audit a b c d e' ?s2) = Inr t"
    using b False by (auto simp: bulk_abort_pending_jobs_def Let_def split: sum.splits)
  have "only_row q ?s1 ?s2" by (rule only_row_upd) simp_all
  then have o: "only_row q ?s1 (add_audit a b c d e' ?s2)" by (rule only_row_trans [OF _ only_row_audit])
  have "abort_marked (aq_run q) ?s1" using m by (simp only: abort_marked_ctx [OF pending_rows(2)])
  then have "only_row q ?s1 t"
    by (intro only_row_trans [OF o aggregate_only_row [OF _ t(2)]]) (simp only: only_row_marked [OF o])
  then have o: "only_run q ?s1 t" "ctx_of (aq_run q) t = ctx_of (aq_run q) s"
    by (simp_all only: only_row_def pending_rows(2))
  then have "jobs t = jobs ?s1" by (simp add: only_run_def)
  with o t(1) frame_only_run [OF pending_rows(1) o(1)] show ?thesis by (simp add: abort_pending_rows_def)
qed

lemma abort_requested_key: "abort_requested r \<longleftrightarrow> ''abort_requested'' \<in> fst ` set (obj_or_empty (r_run_context r))"
  by (simp add: abort_requested_def split: json.splits)

lemma jsonb_set_keys:
  "k \<in> fst ` set (obj_or_empty d) \<Longrightarrow> k \<in> fst ` set (obj_or_empty (jsonb_set d p v))"
  by (cases "(d, p, v)" rule: jsonb_set.cases) (auto simp: dict_update_keys split: json.splits)

lemma marked_upd:
  assumes "abort_marked i s" "\<And>r. r_id (f r) = r_id r"
    "\<And>r. ''abort_requested'' \<in> fst ` set (obj_or_empty (r_run_context r))
       \<Longrightarrow> ''abort_requested'' \<in> fst ` set (obj_or_empty (r_run_context (f r)))"
  shows "abort_marked i (upd_run i f s)"
  using assms by (auto simp: abort_marked_def abort_requested_key get_run_upd_run)

lemma patch_marked: "abort_marked i s \<Longrightarrow> abort_marked i (patch_run_context i p v s)"
  unfolding patch_run_context_def by (rule marked_upd) (simp_all add: jsonb_set_keys)

lemma refresh_only_run: "only_run q s (refresh_requested q ids ctx s)"
  by (simp add: refresh_requested_def)

definition pending_row :: "(nat \<times> string option) list \<Rightarrow> job_row \<Rightarrow> bool" where
  "pending_row pend j \<longleftrightarrow> j_id j \<in> set (map fst pend) \<and> j_status j = J_PENDING"

lemma frame_mono: "abort_frame q ids now s t \<Longrightarrow> ids \<subseteq> ids' \<Longrightarrow> abort_frame q ids' now s t"
  unfolding abort_frame_def
  by (elim conjE, intro conjI) (assumption | erule list_all2_mono, blast)+

lemma stop_frame:
  assumes m: "abort_marked (aq_run q) s" and p: "stop_pending q pend reqs0 run now s = Inr (hits, reqs, t)"
  shows "abort_frame q (set (map fst pend)) now s t \<and> abort_marked (aq_run q) t
     \<and> hits = abort_hits (map fst pend) s
     \<and> jobs t = upd_where (pending_row pend) (aborted_row (aq_reason q) now) (jobs s)"
proof (cases "pend = []")
  case True
  with p m show ?thesis
    by (auto simp: stop_pending_def abort_hits_def pending_row_def upd_where_none intro: only_run_frame)
next
  case False
  with p obtain s1 ids ctx where b: "bulk_abort_pending_jobs q pend now s = Inr (hits, s1)"
    and t: "t = refresh_requested q ids ctx s1"
    by (auto simp: stop_pending_def Let_def split: sum.splits)
  note bf = bulk_frame [OF m b]
  have o: "only_run q s1 t" by (simp add: t refresh_only_run)
  have "abort_marked (aq_run q) s1" using bf m abort_marked_ctx by blast
  then have "abort_marked (aq_run q) t" by (simp add: t refresh_requested_def patch_marked)
  moreover have "jobs t = jobs s1" using o by (simp add: only_run_def)
  moreover have "pending_row pend = (\<lambda>j. j_id j \<in> set (map fst pend) \<and> j_status j = J_PENDING)"
    by (simp add: fun_eq_iff pending_row_def)
  ultimately show ?thesis using bf frame_only_run [OF conjunct1 [OF bf] o] by simp
qed

lemma finish_steps:
  assumes "abort_finish q pend reqs0 now u = (Inr out, t)"
  shows "\<exists>run hits reqs s2 s3 d. get_run u (aq_run q) = Some run
     \<and> stop_pending q (still_pending pend run) reqs0 run now u = Inr (hits, reqs, s2)
     \<and> close_if_idle q now s2 = Inr s3 \<and> ao_aborted out = hits \<and> ao_requested out = map fst reqs
     \<and> ao_status out = (case get_run s3 (aq_run q) of None \<Rightarrow> r_status run | Some r \<Rightarrow> r_status r)
     \<and> t = abort_audit q d s3"
proof -
  from assms obtain run where r: "get_run u (aq_run q) = Some run"
    by (cases "get_run u (aq_run q)") (auto simp: abort_finish_def)
  from assms r obtain hits reqs s2 where
    p: "stop_pending q (still_pending pend run) reqs0 run now u = Inr (hits, reqs, s2)"
    by (cases "stop_pending q (still_pending pend run) reqs0 run now u") (auto simp: abort_finish_def)
  from assms r p obtain s3 where c: "close_if_idle q now s2 = Inr s3"
    by (cases "close_if_idle q now s2") (auto simp: abort_finish_def)
  show ?thesis
    using assms unfolding abort_finish_def r option.case p sum.case prod.case c prod.inject sum.inject
    by (intro exI [of _ run] exI [of _ hits] exI [of _ reqs] exI [of _ s2] exI [of _ s3] exI conjI)
      (auto simp: r p c)
qed

lemma finish_frame:
  assumes m: "abort_marked (aq_run q) u" and f: "abort_finish q pend reqs now u = (Inr out, t)"
  shows "\<exists>pend'. set pend' \<subseteq> set pend \<and> abort_frame q (set (map fst pend)) now u t
     \<and> ao_aborted out = abort_hits (map fst pend') u
     \<and> jobs t = upd_where (pending_row pend') (aborted_row (aq_reason q) now) (jobs u)"
proof -
  from finish_steps [OF f] obtain run reqs' s2 s3 d where
    st: "stop_pending q (still_pending pend run) reqs run now u = Inr (ao_aborted out, reqs', s2)"
    "close_if_idle q now s2 = Inr s3" "t = abort_audit q d s3" by auto
  let ?p = "still_pending pend run"
  note b = stop_frame [OF m st(1)]
  have sub: "set ?p \<subseteq> set pend" by (simp add: still_pending_def)
  have "abort_marked (aq_run q) s2" using b by blast
  then have "only_run q s2 s3" using close_only_row [OF _ st(2)] by (simp add: only_row_def)
  then have o: "only_run q s2 t" unfolding st(3) by (rule only_run_trans [OF _ only_run_audit(2)])
  have "set (map fst ?p) \<subseteq> set (map fst pend)" using sub by auto
  then have "abort_frame q (set (map fst pend)) now u t"
    using frame_only_run [OF frame_mono [OF conjunct1 [OF b]] o] by blast
  moreover have "jobs t = jobs s2" using o by (simp add: only_run_def)
  ultimately show ?thesis using b sub by metis
qed

lemma begin_running:
  assumes "abort_begin e q now s = (Inr (AbortRunning pend reqs), t)"
  shows "\<exists>run. get_run s (aq_run q) = Some run \<and> r_status run \<notin> set TERMINAL_PLAN_RUN_STATUSES
     \<and> pend = job_hosts J_PENDING (abort_active_jobs q s) \<and> reqs = job_hosts J_RUNNING (abort_active_jobs q s)
     \<and> t = request_abort e q (map fst reqs) (obj_or_empty (r_run_context run)) now s
     \<and> \<not> in_precheck q (obj_or_empty (r_run_context run))"
  using assms
  by (auto simp: abort_begin_def abort_admission_def abort_precheck_def Let_def
      split: option.splits if_splits sum.splits)

lemma patch_marks:
  "abort_marked i (patch_run_context i [''abort_requested''] v s)"
  by (auto simp: abort_marked_def abort_requested_key patch_run_context_def get_run_upd_run dict_update_keys)

lemma ensure_marked: "abort_marked i s \<Longrightarrow> abort_marked i (ensure_abort_hosts_key i s)"
  unfolding ensure_abort_hosts_key_def by (rule marked_upd) (simp_all add: dict_update_keys)

lemma request_marks: "abort_marked (aq_run q) (request_abort e q ids ctx now s)"
  unfolding request_abort_def Let_def
  by (cases "aq_host q") (simp_all add: patch_marks patch_marked ensure_marked)

definition in_scope :: "abort_in \<Rightarrow> job_row \<Rightarrow> bool" where
  "in_scope q j \<longleftrightarrow> j_plan_run_id j = aq_run q \<and> (\<forall>h. aq_host q = Some h \<longrightarrow> j_host_id j = Some h)"

lemma pending_in_scope:
  "i \<in> set (map fst (job_hosts st (abort_active_jobs q s)))
   \<Longrightarrow> \<exists>j\<in>set (jobs s). j_id j = i \<and> in_scope q j \<and> j_status j = st"
  by (auto simp: job_hosts_def abort_active_jobs_def in_scope_def)

lemma abort_cases:
  assumes a: "abort_plan_run e q now between s = (res, t)"
  obtains (no_jobs) "only_run q s t" "\<And>out. res = Inr out \<Longrightarrow> ao_aborted out = [] \<and> (ao_status out = R_FAILED \<or> abort_active_jobs q s = [])"
  | (failed) pend reqs s1 u err where "abort_begin e q now s = (Inr (AbortRunning pend reqs), s1)"
      "u = (if pend = [] then s1 else between s1)" "res = Inl err" "t = (if pend = [] then s else u)"
  | (finished) pend reqs s1 u out where "abort_begin e q now s = (Inr (AbortRunning pend reqs), s1)"
      "u = (if pend = [] then s1 else between s1)" "res = Inr out" "abort_finish q pend reqs now u = (Inr out, t)"
proof -
  obtain r s1 where b: "abort_begin e q now s = (r, s1)" by fastforce
  show thesis
  proof (cases "\<exists>pend reqs. r = Inr (AbortRunning pend reqs)")
    case False
    with a b have t: "t = s \<or> t = s1" and "\<And>out. res = Inr out \<Longrightarrow> r = Inr (AbortDone out)"
      by (auto simp: abort_plan_run_def split: sum.splits abort_progress.splits)
    then have "ao_aborted out = [] \<and> (ao_status out = R_FAILED \<or> abort_active_jobs q s = [])" if "res = Inr out" for out
      using b that by (auto simp: abort_begin_def abort_admission_def abort_precheck_def Let_def
          split: option.splits if_splits sum.splits)
    then show ?thesis using t abort_begin_only_run [OF b] by (intro no_jobs) auto
  next
    case True
    then obtain pend reqs where r: "r = Inr (AbortRunning pend reqs)" by blast
    obtain fr t' where f: "abort_finish q pend reqs now (if pend = [] then s1 else between s1) = (fr, t')" by fastforce
    show ?thesis
    proof (cases fr)
      case (Inl err)
      with a b r f show ?thesis
        by (intro failed [OF b [unfolded r] refl]) (auto simp: abort_plan_run_def Let_def)
    next
      case (Inr out)
      with a b r f show ?thesis
        by (intro finished [OF b [unfolded r] refl, of out]) (auto simp: abort_plan_run_def Let_def)
    qed
  qed
qed

lemma begin_marked:
  assumes "abort_begin e q now s = (Inr (AbortRunning pend reqs), t)"
  shows "abort_marked (aq_run q) t"
    "\<And>i. i \<in> set (map fst pend) \<Longrightarrow> \<exists>j\<in>set (jobs s). j_id j = i \<and> in_scope q j \<and> j_status j = J_PENDING"
    "jobs t = jobs s"
  using begin_running [OF assms] abort_begin_only_run [OF assms] pending_in_scope
  by (metis request_marks, metis, simp add: only_run_def)

subsection \<open>Properties\<close>

text \<open>
  C24. What an abort may do: its first transaction writes the row of the run (status unchanged or
  FAILED) and nothing else; the second one, which starts where other transactions left the tables,
  ends PENDING jobs that were in scope - of the run, and of the host when one is given - and counts
  them, and answers exactly the jobs it ended.  Running jobs, leases, devices, debts, hosts and other
  runs are not touched.
\<close>

theorem abort_scope:
  assumes "abort_plan_run e q now between s = (res, t)"
    and marked: "\<And>u. abort_marked (aq_run q) u \<Longrightarrow> abort_marked (aq_run q) (between u)"
  shows "\<exists>s1 u ids. only_run q s s1 \<and> u \<in> {s1, between s1} \<and> abort_frame q ids now u t
     \<and> (\<forall>i\<in>ids. \<exists>j\<in>set (jobs s). j_id j = i \<and> in_scope q j \<and> j_status j = J_PENDING)
     \<and> (\<forall>out. res = Inr out \<longrightarrow> set (ao_aborted out) \<subseteq> ids
          \<and> jobs t = upd_where (\<lambda>j. j_id j \<in> set (ao_aborted out) \<and> j_status j = J_PENDING)
                       (aborted_row (aq_reason q) now) (jobs u))"
  using assms(1)
proof (cases rule: abort_cases)
  case no_jobs
  then show ?thesis
    by (intro exI [of _ t] exI [of _ t] exI [of _ "{}"]) (auto intro: only_run_frame upd_where_none [symmetric])
next
  case (failed pend reqs s1 u err)
  then show ?thesis using abort_begin_only_run [OF failed(1)]
    by (intro exI [of _ "if pend = [] then s else s1"] exI [of _ t] exI [of _ "{}"]) (auto intro: only_run_frame)
next
  case (finished pend reqs s1 u out)
  have m: "abort_marked (aq_run q) u" using marked begin_marked(1) [OF finished(1)] by (simp add: finished(2))
  from finish_frame [OF m finished(4)] obtain pend' where p: "set pend' \<subseteq> set pend"
    "abort_frame q (set (map fst pend)) now u t" "ao_aborted out = abort_hits (map fst pend') u"
    "jobs t = upd_where (pending_row pend') (aborted_row (aq_reason q) now) (jobs u)"
    by blast
  have "jobs t = upd_where (\<lambda>j. j_id j \<in> set (ao_aborted out) \<and> j_status j = J_PENDING)
      (aborted_row (aq_reason q) now) (jobs u)"
    unfolding p(4) by (rule upd_where_cong) (auto simp: p(3) abort_hits_def pending_row_def intro: rev_image_eqI)
  moreover have "set (ao_aborted out) \<subseteq> set (map fst pend)" using p(1) by (auto simp: p(3) abort_hits_def)
  ultimately show ?thesis
    using abort_begin_only_run [OF finished(1)] begin_marked(2) [OF finished(1)] p(2) finished(2,3)
    by (intro exI [of _ s1] exI [of _ u] exI [of _ "set (map fst pend)"]) auto
qed

subsection \<open>The clocks\<close>

definition subject_clock :: "abort_in \<Rightarrow> json \<Rightarrow> time option" where
  \<comment> \<open>when the agents were asked to stop: the clock of the run, or of the host\<close>
  "subject_clock q ctx =
     (case aq_host q of
        None \<Rightarrow> (case jget (obj_or_empty ctx) ''abort_requested'' of JObj a \<Rightarrow> parse_abort_at (jget a ''at'') | _ \<Rightarrow> None)
      | Some h \<Rightarrow> parse_abort_at (host_abort_clock_at (obj_or_empty ctx) (Some h)))"

definition clock_sane :: "abort_in \<Rightarrow> time \<Rightarrow> json \<Rightarrow> bool" where
  \<comment> \<open>a clock the host has already is a time that has passed\<close>
  "clock_sane q now ctx \<longleftrightarrow>
     (\<forall>h. aq_host q = Some h \<longrightarrow> h \<noteq> [] \<and>
        (truthy (host_abort_clock_at (obj_or_empty ctx) (Some h)) \<longrightarrow>
           (\<exists>a\<le>now. host_abort_clock_at (obj_or_empty ctx) (Some h) = JTime a)))"

lemma patch_ctx:
  "get_run (patch_run_context i p v s) i
   = map_option (\<lambda>r. r\<lparr>r_run_context := jsonb_set (r_run_context r) p v\<rparr>) (get_run s i)"
  by (simp add: patch_run_context_def get_run_upd_run)

lemma ensure_ctx:
  "get_run (ensure_abort_hosts_key i s) i
   = map_option (\<lambda>r. r\<lparr>r_run_context := jsonb_set (r_run_context r) [''abort_requested_hosts'']
       (JObj (obj_or_empty (jget (obj_or_empty (r_run_context r)) ''abort_requested_hosts'')))\<rparr>) (get_run s i)"
  by (simp add: ensure_abort_hosts_key_def get_run_upd_run)

lemma host_at_obj:
  "h \<noteq> [] \<Longrightarrow> host_abort_clock_at ctx (Some h)
     = jget (obj_or_empty (jget (obj_or_empty (jget ctx ''abort_requested_hosts'')) h)) ''at''"
  by (simp add: host_abort_clock_at_def split: json.splits)

lemma request_host_clock:
  assumes "aq_host q = Some h" "h \<noteq> []" "get_run s (aq_run q) = Some run"
  shows "\<exists>r. get_run (request_abort e q ids (obj_or_empty (r_run_context run)) now s) (aq_run q) = Some r
     \<and> host_abort_clock_at (obj_or_empty (r_run_context r)) (Some h)
         = (let c = host_abort_clock_at (obj_or_empty (r_run_context run)) (Some h)
            in if truthy c then c else JTime now)
     \<and> (\<forall>a. jget (obj_or_empty (jget (obj_or_empty (r_run_context r)) ''abort_requested'')) ''at''
          = jget (obj_or_empty (jget (obj_or_empty (r_run_context run)) ''abort_requested'')) ''at'')"
proof -
  have at: "jget (host_clock_payload e q h now (obj_or_empty (r_run_context run))) ''at''
      = (let c = host_abort_clock_at (obj_or_empty (r_run_context run)) (Some h) in if truthy c then c else JTime now)"
    by (simp add: host_clock_payload_def Let_def host_at_obj [OF assms(2)] jget_update jget_Cons)
  have run_at: "jget (abort_payload e q ids now x) ''at'' = jget x ''at''" for x
    by (simp add: abort_payload_def assms(1) jget_update)
  show ?thesis
    using assms at run_at
    by (simp add: request_abort_def patch_ctx ensure_ctx host_at_obj jget_update)
qed

lemma request_clock:
  assumes "get_run s (aq_run q) = Some run" "clock_sane q now (r_run_context run)"
  shows "\<exists>r at. get_run (request_abort e q ids (obj_or_empty (r_run_context run)) now s) (aq_run q) = Some r
     \<and> subject_clock q (r_run_context r) = Some at \<and> at \<le> now"
proof (cases "aq_host q")
  case None
  with assms show ?thesis
    by (simp add: request_abort_def patch_ctx subject_clock_def jget_update abort_payload_def jget_Cons)
next
  case (Some h)
  with assms(2) have h: "h \<noteq> []" by (simp add: clock_sane_def)
  let ?c = "host_abort_clock_at (obj_or_empty (r_run_context run)) (Some h)"
  have "\<exists>a\<le>now. (if truthy ?c then ?c else JTime now) = JTime a"
    using assms(2) Some by (auto simp: clock_sane_def)
  with request_host_clock [OF Some h assms(1), of e ids now] Some show ?thesis
    by (auto simp: subject_clock_def Let_def)
qed

lemma covered_by_list:
  assumes "jget (obj_or_empty ctx) ''abort_requested'' = JObj a" "jget a ''requested_job_ids'' = JList xs"
    "JInt (int i) \<in> set xs"
  shows "abort_request_covers_job (obj_or_empty ctx) i"
proof -
  have "py_ints ys = Some zs \<Longrightarrow> JInt k \<in> set ys \<Longrightarrow> k \<in> set zs" for ys zs k
    by (induction ys arbitrary: zs) (auto split: option.splits)
  with assms show ?thesis by (auto simp: abort_request_covers_job_def split: option.splits)
qed

lemma subject_reaped:
  assumes "subject_clock q ctx = Some a"
    and "aq_host q = None \<Longrightarrow> abort_request_covers_job (obj_or_empty ctx) i"
    and "\<And>h. aq_host q = Some h \<Longrightarrow> host = Some h"
  shows "\<exists>at subject. abort_reap_clock ctx i host = Some (at, subject) \<and> at \<le> a"
  using assms
  by (cases "aq_host q") (auto simp: abort_reap_clock_def subject_clock_def Let_def split: option.splits json.splits)

lemma refresh_clock:
  "subject_clock q (jsonb_set ctx [''abort_requested'', ''requested_job_ids''] v) = subject_clock q ctx"
  by (auto simp: subject_clock_def jget_update host_abort_clock_at_def
      split: option.splits json.splits)

lemma refresh_covers:
  assumes "subject_clock q ctx = Some a" "aq_host q = None" "JInt (int i) \<in> set xs"
  shows "abort_request_covers_job (obj_or_empty
           (jsonb_set ctx [''abort_requested'', ''requested_job_ids''] (JList xs))) i"
proof -
  from assms(1,2) obtain o1 where o: "jget (obj_or_empty ctx) ''abort_requested'' = JObj o1"
    by (auto simp: subject_clock_def split: json.splits)
  show ?thesis
    by (rule covered_by_list [where a = "AList.update ''requested_job_ids'' (JList xs) o1", OF _ _ assms(3)])
      (simp_all add: o jget_update)
qed

lemma set_dict_keys [simp]: "set (dict_keys xs) = set xs"
  by (simp add: dict_keys_def)

lemma stop_ctx:
  assumes m: "abort_marked (aq_run q) s" and p: "stop_pending q pend reqs0 run now s = Inr (hits, reqs, t)"
    and r: "get_run s (aq_run q) = Some run"
  shows "\<exists>r xs. get_run t (aq_run q) = Some r \<and> set (ids_json (map fst reqs)) \<subseteq> set xs
     \<and> r_run_context r = (if pend = [] then r_run_context run
          else jsonb_set (r_run_context run) [''abort_requested'', ''requested_job_ids''] (JList xs))"
proof (cases "pend = []")
  case True
  with p r show ?thesis by (auto simp: stop_pending_def)
next
  case False
  with p obtain s1 where b: "bulk_abort_pending_jobs q pend now s = Inr (hits, s1)"
    and t: "t = refresh_requested q (map fst reqs) (obj_or_empty (r_run_context run)) s1"
    by (auto simp: stop_pending_def Let_def split: sum.splits)
  from bulk_frame [OF m b] r obtain r1 where "get_run s1 (aq_run q) = Some r1" "r_run_context r1 = r_run_context run"
    by (auto simp: ctx_of_def)
  moreover let ?xs = "dict_keys (list_or_empty (jget (obj_or_empty (jget (obj_or_empty (r_run_context run))
      ''abort_requested'')) ''requested_job_ids'') @ ids_json (map fst reqs))"
  have "set (ids_json (map fst reqs)) \<subseteq> set ?xs" by simp
  ultimately show ?thesis using False
    by (intro exI [of _ "r1\<lparr>r_run_context := jsonb_set (r_run_context r1)
          [''abort_requested'', ''requested_job_ids''] (JList ?xs)\<rparr>"] exI [of _ ?xs])
      (simp add: t refresh_requested_def patch_ctx del: jsonb_set.simps)
qed

lemma stop_requests:
  assumes m: "abort_marked (aq_run q) s" and p: "stop_pending q pend reqs0 run now s = Inr (hits, reqs, t)"
    and d: "distinct (map j_id (jobs s))"
    and j: "get_job t i = Some j" "j_status j = J_RUNNING" and i: "i \<in> fst ` (set pend \<union> set reqs0)"
  shows "i \<in> fst ` set reqs"
proof (cases "i \<in> fst ` set reqs0 \<or> pend = []")
  case True
  with p i show ?thesis by (auto simp: stop_pending_def Let_def split: sum.splits if_splits)
next
  case False
  with p obtain s1 where b: "bulk_abort_pending_jobs q pend now s = Inr (hits, s1)"
    and t: "jobs t = jobs s1" and reqs: "reqs = reqs0 @ raced_jobs pend hits s1"
    by (auto simp: stop_pending_def Let_def refresh_requested_def patch_run_context_def upd_run_def split: sum.splits)
  note bf = bulk_frame [OF m b]
  have js: "jobs s1 = upd_where (\<lambda>j. j_id j \<in> set (map fst pend) \<and> j_status j = J_PENDING)
      (aborted_row (aq_reason q) now) (jobs s)" using bf by blast
  have j1: "get_job s1 i = Some j" using j(1) t by (simp add: get_job_def)
  have "i \<notin> set hits"
  proof
    assume "i \<in> set hits"
    then obtain r where r: "r \<in> set (jobs s)" "j_id r = i" "i \<in> set (map fst pend)" "j_status r = J_PENDING"
      using bf by (auto simp: abort_hits_def)
    have "j \<in> set (jobs s1)" "j_id j = i" using get_job_Some [OF j1] by auto
    then obtain r' where "r' \<in> set (jobs s)" "j_id r' = i"
      "j = r' \<and> \<not> (i \<in> set (map fst pend) \<and> j_status r' = J_PENDING) \<or> j = aborted_row (aq_reason q) now r'"
      unfolding js by (auto elim!: in_upd_whereE simp: aborted_row_def)
    moreover have "r' = r" if "r' \<in> set (jobs s)" "j_id r' = i" for r'
      using d r that by (auto simp: distinct_map inj_on_def)
    ultimately show False using r j(2) by (auto simp: aborted_row_def)
  qed
  moreover obtain h where "(i, h) \<in> set pend" using False i by auto
  ultimately show ?thesis using j1 j(2)
    by (force simp: reqs raced_jobs_def List.map_filter_def image_iff)
qed

definition window_ok :: "abort_in \<Rightarrow> (db \<Rightarrow> db) \<Rightarrow> bool" where
  \<comment> \<open>other transactions keep the mark and the clock of the request, and delete no job\<close>
  "window_ok q between \<longleftrightarrow>
     (\<forall>u. (abort_marked (aq_run q) u \<longrightarrow> abort_marked (aq_run q) (between u))
        \<and> map j_id (jobs (between u)) = map j_id (jobs u)
        \<and> map_option (subject_clock q) (ctx_of (aq_run q) (between u))
            = map_option (subject_clock q) (ctx_of (aq_run q) u))"

lemma finish_enforced:
  assumes m: "abort_marked (aq_run q) u" and f: "abort_finish q pend reqs0 now u = (Inr out, t)"
    and clock: "get_run u (aq_run q) = Some run" "subject_clock q (r_run_context run) = Some a"
    and covers: "\<And>i. pend = [] \<Longrightarrow> aq_host q = None \<Longrightarrow> i \<in> fst ` set reqs0
      \<Longrightarrow> abort_request_covers_job (obj_or_empty (r_run_context run)) i"
    and op: "ao_status out \<notin> set TERMINAL_PLAN_RUN_STATUSES"
    and d: "distinct (map j_id (jobs u))"
    and j: "get_job t i = Some j" "j_status j = J_RUNNING" and i: "i \<in> fst ` (set pend \<union> set reqs0)"
    and host: "\<And>h. aq_host q = Some h \<Longrightarrow> j_host_id j = Some h"
  shows "i \<in> set (ao_requested out) \<and> (\<exists>r at subject. get_run t (aq_run q) = Some r
     \<and> abort_reap_clock (r_run_context r) i (j_host_id j) = Some (at, subject) \<and> at \<le> a)"
proof -
  from finish_steps [OF f] clock(1) obtain reqs s2 s3 ds where
    st: "stop_pending q (still_pending pend run) reqs0 run now u = Inr (ao_aborted out, reqs, s2)"
    "close_if_idle q now s2 = Inr s3" "ao_requested out = map fst reqs" "t = abort_audit q ds s3"
    "ao_status out = (case get_run s3 (aq_run q) of None \<Rightarrow> r_status run | Some r \<Rightarrow> r_status r)"
    by auto
  have c: "only_row q s2 s3" using stop_frame [OF m st(1)] by (intro close_only_row [OF _ st(2)]) blast
  have t: "jobs t = jobs s2" "get_run t x = get_run s3 x" for x
    using c by (simp_all add: st(4) abort_audit_def only_row_def only_run_def add_audit_def get_run_def)
  have "only_run q u s3" if "r_status run \<in> set TERMINAL_PLAN_RUN_STATUSES"
    using c st(1) that by (simp add: stop_pending_def still_pending_def only_row_def)
  then have sp: "still_pending pend run = pend"
    using op st(5) clock(1) by (force simp: still_pending_def only_run_def TERMINAL_PLAN_RUN_STATUSES_def)
  have "get_job s2 i = Some j" using j(1) t(1) by (simp add: get_job_def)
  then have req: "i \<in> fst ` set reqs" using stop_requests [OF m st(1) d _ j(2)] i sp by simp
  from stop_ctx [OF m st(1) clock(1)] sp obtain r2 xs where r2: "get_run s2 (aq_run q) = Some r2"
    "set (ids_json (map fst reqs)) \<subseteq> set xs"
    "r_run_context r2 = (if pend = [] then r_run_context run
       else jsonb_set (r_run_context run) [''abort_requested'', ''requested_job_ids''] (JList xs))" by auto
  have ix: "JInt (int i) \<in> set xs" using req r2(2) by (auto simp: ids_json_def)
  from c r2(1) obtain r where r: "get_run t (aq_run q) = Some r" "r_run_context r = r_run_context r2"
    by (auto simp: only_row_def ctx_of_def t(2))
  have "subject_clock q (r_run_context r) = Some a"
    using clock(2) r(2) r2(3) by (simp add: refresh_clock del: jsonb_set.simps)
  moreover have "abort_request_covers_job (obj_or_empty (r_run_context r)) i" if "aq_host q = None"
  proof (cases "pend = []")
    case True
    with covers [OF True that] st(1) sp req r2(3) r(2) show ?thesis by (simp add: stop_pending_def)
  next
    case False
    with refresh_covers [OF clock(2) that ix] r2(3) r(2) show ?thesis by (simp del: jsonb_set.simps)
  qed
  ultimately show ?thesis using subject_reaped [of q "r_run_context r" a i "j_host_id j"] host req st(3) r(1)
    by auto
qed

lemma request_covers:
  assumes "aq_host q = None" "get_run s (aq_run q) = Some run" "i \<in> set ids"
    "get_run (request_abort e q ids ctx now s) (aq_run q) = Some r"
  shows "abort_request_covers_job (obj_or_empty (r_run_context r)) i"
  using assms
  by (auto intro!: covered_by_list [where xs = "ids_json ids"]
      simp: request_abort_def patch_ctx jget_update abort_payload_def jget_Cons ids_json_def)

lemma window_clock:
  assumes "window_ok q between" "get_run u (aq_run q) = Some r" "subject_clock q (r_run_context r) = Some at"
  shows "\<exists>r'. get_run (between u) (aq_run q) = Some r' \<and> subject_clock q (r_run_context r') = Some at"
proof -
  have "map_option (subject_clock q) (ctx_of (aq_run q) (between u)) = Some (Some at)"
    using assms by (simp add: window_ok_def ctx_of_def)
  then show ?thesis by (auto simp: ctx_of_def)
qed

lemma scope_in_hosts:
  assumes "j \<in> set (jobs s)" "in_scope q j" "j_status j = st" "st \<in> {J_PENDING, J_RUNNING}"
  shows "j_id j \<in> fst ` set (job_hosts st (abort_active_jobs q s))"
proof -
  have "j \<in> set (filter (\<lambda>j. j_status j = st) (abort_active_jobs q s))"
    using assms by (auto simp: abort_active_jobs_def in_scope_def)
  then have "(j_id j, j_host_id j) \<in> set (job_hosts st (abort_active_jobs q s))"
    unfolding job_hosts_def set_map by (rule imageI)
  then show ?thesis by (rule rev_image_eqI) simp
qed

lemma begin_enforced:
  assumes b: "abort_begin e q now s = (Inr (AbortRunning pend reqs), s1)"
    and u: "u = (if pend = [] then s1 else between s1)" and w: "window_ok q between"
    and sane: "\<And>ctx. ctx_of (aq_run q) s = Some ctx \<Longrightarrow> clock_sane q now ctx"
  shows "\<exists>ru at. get_run u (aq_run q) = Some ru \<and> subject_clock q (r_run_context ru) = Some at \<and> at \<le> now
     \<and> (\<forall>i. pend = [] \<longrightarrow> aq_host q = None \<longrightarrow> i \<in> fst ` set reqs
          \<longrightarrow> abort_request_covers_job (obj_or_empty (r_run_context ru)) i)"
proof -
  from begin_running [OF b] obtain run where r: "get_run s (aq_run q) = Some run"
    "s1 = request_abort e q (map fst reqs) (obj_or_empty (r_run_context run)) now s" by metis
  obtain r1 at where r1: "get_run s1 (aq_run q) = Some r1" "subject_clock q (r_run_context r1) = Some at" "at \<le> now"
    using request_clock [OF r(1), where now = now and e = e and ids = "map fst reqs"] sane r
    by (auto simp: ctx_of_def)
  have "abort_request_covers_job (obj_or_empty (r_run_context r1)) i"
    if "aq_host q = None" "i \<in> fst ` set reqs" for i
    using request_covers [OF that(1) r(1) _ r1(1) [unfolded r(2)], of i] that(2) by simp
  then show ?thesis using window_clock [OF w r1(1,2)] r1 u by (cases "pend = []") auto
qed

text \<open>
  C8. An abort is enforced.  While the run stays open, each job in scope that was PENDING or RUNNING
  when the abort came and is RUNNING on the same host when it ends - claimed in the window or not - is
  among the jobs told to stop, and once the grace is over the abort reaper of the lease reconciler
  has it as a candidate.
\<close>

theorem abort_enforced:
  assumes a: "abort_plan_run e q now between s = (Inr out, t)"
    and w: "window_ok q between" and d: "distinct (map j_id (jobs s))"
    and sane: "\<And>ctx. ctx_of (aq_run q) s = Some ctx \<Longrightarrow> clock_sane q now ctx"
    and op: "ao_status out \<notin> set TERMINAL_PLAN_RUN_STATUSES"
    and j: "j \<in> set (jobs s)" "in_scope q j" "j_status j \<in> {J_PENDING, J_RUNNING}"
    and j': "get_job t (j_id j) = Some j'" "j_status j' = J_RUNNING" "in_scope q j'"
    and later: "now + e_abort_ack_grace e < later"
  shows "j_id j \<in> set (ao_requested out) \<and> j_id j \<in> fst ` set (reap_candidates e later t)"
  using a
proof (cases rule: abort_cases)
  case no_jobs
  have "j \<in> set (abort_active_jobs q s)" using j by (auto simp: abort_active_jobs_def in_scope_def)
  with no_jobs(2) op show ?thesis by (auto simp: TERMINAL_PLAN_RUN_STATUSES_def)
next
  case (finished pend reqs s1 u out')
  from begin_enforced [OF finished(1,2) w sane] obtain ru at where ru: "get_run u (aq_run q) = Some ru"
    "subject_clock q (r_run_context ru) = Some at" "at \<le> now"
    "\<And>i. pend = [] \<Longrightarrow> aq_host q = None \<Longrightarrow> i \<in> fst ` set reqs
       \<Longrightarrow> abort_request_covers_job (obj_or_empty (r_run_context ru)) i" by metis
  from begin_running [OF finished(1)] have b: "pend = job_hosts J_PENDING (abort_active_jobs q s)"
    "reqs = job_hosts J_RUNNING (abort_active_jobs q s)" by auto
  have i: "j_id j \<in> fst ` (set pend \<union> set reqs)"
    using scope_in_hosts [OF j(1,2) refl j(3)] j(3) unfolding b image_Un by fastforce
  have d': "distinct (map j_id (jobs u))" and m: "abort_marked (aq_run q) u"
    using w d begin_marked(1,3) [OF finished(1)] finished(2) by (simp_all add: window_ok_def)
  have out: "out' = out" using finished(3) by simp
  from finish_enforced [OF m finished(4) ru(1,2,4) op [folded out] d' j'(1,2) i] j'(3) obtain r ct subject where
    e: "j_id j \<in> set (ao_requested out')" "get_run t (aq_run q) = Some r"
    "abort_reap_clock (r_run_context r) (j_id j) (j_host_id j') = Some (ct, subject)" "ct \<le> at"
    by (auto simp: in_scope_def)
  have "reap_entry e later t j' = Some (j_id j, abort_reap_reason subject)"
    using e j' ru(3) later get_job_Some [OF j'(1)] by (auto simp: reap_entry_def abort_context_def in_scope_def)
  then have "j_id j \<in> fst ` set (reap_candidates e later t)"
    using get_job_Some [OF j'(1)]
    by (force simp: reap_candidates_def List.map_filter_def image_iff)
  with e(1) out show ?thesis by simp
qed simp

subsection \<open>Ending a run\<close>

lemma fail_transition:
  "r_status r \<notin> set TERMINAL_PLAN_RUN_STATUSES
   \<Longrightarrow> \<exists>r'. plan_run_transition r R_FAILED = Inr r' \<and> r_status r' = R_FAILED \<and> r_id r' = r_id r"
  by (cases "r_status r") (auto simp: plan_run_transition_def TERMINAL_PLAN_RUN_STATUSES_def)

lemma get_run_set:
  "get_run s i = Some r \<Longrightarrow> r_id y = r_id r \<Longrightarrow> get_run (upd_run i (\<lambda>r. y) s) i = Some y"
  using get_run_Some [of s i r] by (subst get_run_upd_run) auto

lemma aggregate_ends:
  assumes "get_run s i = Some r" "abort_requested r" "r_status r \<notin> set TERMINAL_PLAN_RUN_STATUSES"
    "0 < r_total r" "r_total r \<le> r_terminal r"
  shows "\<exists>t r'. aggregate_counters i now s = Inr t \<and> get_run t i = Some r' \<and> r_status r' = R_FAILED \<and> jobs t = jobs s"
  using assms fail_transition [OF assms(3)]
  by (auto simp: aggregate_counters_def apply_plan_run_aggregation_from_counters_def finalize_plan_run_def
      resolve_plan_run_status_def get_run_set) (simp add: upd_run_def)

lemma bulk_ends:
  assumes r: "get_run s (aq_run q) = Some r" "abort_requested r" "r_status r \<notin> set TERMINAL_PLAN_RUN_STATUSES"
    "0 < r_total r" and h: "hits = abort_hits (map fst pend) s" "hits \<noteq> []"
    "r_total r \<le> r_terminal r + int (length hits)"
  shows "\<exists>t r'. bulk_abort_pending_jobs q pend now s = Inr (hits, t) \<and> get_run t (aq_run q) = Some r'
     \<and> r_status r' = R_FAILED"
proof -
  let ?n = "int (length hits)"
  let ?r = "r\<lparr>r_aborted := r_aborted r + ?n, r_terminal := r_terminal r + ?n\<rparr>"
  have g: "get_run (add_audit a b c d e' (upd_run (aq_run q) (\<lambda>r. r\<lparr>r_aborted := r_aborted r + ?n,
      r_terminal := r_terminal r + ?n\<rparr>) (abort_pending_rows q pend hits now s))) (aq_run q) = Some ?r" for a b c d e'
  proof -
    have "get_run (add_audit a b c d e' v) x = get_run v x" for v x by (simp add: add_audit_def get_run_def)
    then show ?thesis by (simp add: get_run_upd_run pending_rows(3) r(1))
  qed
  have "abort_requested ?r" using r(2) by (simp add: abort_requested_def)
  note agg = aggregate_ends [OF g this, where now = now]
  have "\<exists>a b c d e'. bulk_abort_pending_jobs q pend now s
      = (case aggregate_counters (aq_run q) now (add_audit a b c d e' (upd_run (aq_run q)
           (\<lambda>r. r\<lparr>r_aborted := r_aborted r + ?n, r_terminal := r_terminal r + ?n\<rparr>)
           (abort_pending_rows q pend hits now s))) of Inl err \<Rightarrow> Inl err | Inr t \<Rightarrow> Inr (hits, t))"
    using h(2) unfolding bulk_abort_pending_jobs_def Let_def h(1) [symmetric] if_not_P [OF h(2)] by blast
  then obtain a b c d e' where "bulk_abort_pending_jobs q pend now s
      = (case aggregate_counters (aq_run q) now (add_audit a b c d e' (upd_run (aq_run q)
           (\<lambda>r. r\<lparr>r_aborted := r_aborted r + ?n, r_terminal := r_terminal r + ?n\<rparr>)
           (abort_pending_rows q pend hits now s))) of Inl err \<Rightarrow> Inl err | Inr t \<Rightarrow> Inr (hits, t))"
    by blast
  with agg [of a b c d e'] r(3,4) h(3) show ?thesis by auto
qed

lemma hits_count:
  assumes "distinct (map j_id (jobs s))" "aq_host q = None"
  shows "int (length (abort_hits (map fst (job_hosts J_PENDING (abort_active_jobs q s))) s))
     = count_status J_PENDING (run_jobs (aq_run q) s)"
proof -
  let ?ids = "set (map fst (job_hosts J_PENDING (abort_active_jobs q s)))"
  have "j_id j \<in> ?ids \<and> j_status j = J_PENDING \<longleftrightarrow> j_status j = J_PENDING \<and> j_plan_run_id j = aq_run q"
    if "j \<in> set (jobs s)" for j
  proof (intro iffI conjI)
    assume a: "j_id j \<in> ?ids \<and> j_status j = J_PENDING"
    then show "j_status j = J_PENDING" by simp
    from a obtain j2 where "j2 \<in> set (jobs s)" "j_id j2 = j_id j" "in_scope q j2"
      using pending_in_scope by blast
    with assms(1) that show "j_plan_run_id j = aq_run q" by (auto simp: distinct_map inj_on_def in_scope_def)
  next
    assume a: "j_status j = J_PENDING \<and> j_plan_run_id j = aq_run q"
    then show "j_status j = J_PENDING" by simp
    show "j_id j \<in> ?ids" unfolding set_map
      using a by (intro scope_in_hosts [OF that]) (simp_all add: in_scope_def assms(2))
  qed
  then show ?thesis
    by (auto simp: abort_hits_def count_status_def run_jobs_def filter_filter simp del: set_map
        intro!: arg_cong [where f = length] filter_cong)
qed

lemma idle_counts:
  "(\<And>j. j \<in> set js \<Longrightarrow> j_status j \<notin> {J_RUNNING, J_UNKNOWN}) \<Longrightarrow>
   int (length js) = count_status J_COMPLETED js + count_status J_FAILED js + count_status J_ABORTED js
     + count_status J_PENDING js"
proof (induction js)
  case (Cons j js)
  then show ?case by (cases "j_status j") (auto simp: count_status_def)
qed (simp add: count_status_def)

lemma request_row:
  assumes "aq_host q = None" "get_run s (aq_run q) = Some run"
  shows "\<exists>c. get_run (request_abort e q ids ctx now s) (aq_run q) = Some (run\<lparr>r_run_context := c\<rparr>)"
  using assms by (simp add: request_abort_def patch_ctx del: jsonb_set.simps) blast

definition no_worker :: "nat \<Rightarrow> db \<Rightarrow> bool" where
  \<comment> \<open>no agent works, or may work, for the run\<close>
  "no_worker i s \<longleftrightarrow> (\<forall>j\<in>set (run_jobs i s). j_status j \<notin> {J_RUNNING, J_UNKNOWN})"

lemma no_worker_terminal:
  "no_worker i s \<Longrightarrow> j \<in> set (run_jobs i s) \<Longrightarrow> j_status j \<noteq> J_PENDING \<Longrightarrow> terminal_status (j_status j)"
  by (cases "j_status j") (auto simp: no_worker_def)

lemma close_ends:
  assumes r: "get_run s (aq_run q) = Some r" "abort_requested r" "r_status r \<notin> set TERMINAL_PLAN_RUN_STATUSES"
    and js: "\<forall>j\<in>set (run_jobs (aq_run q) s). terminal_status (j_status j)" "aq_host q = None"
    and c: "run_jobs (aq_run q) s \<noteq> [] \<Longrightarrow> 0 < r_total r \<and> r_total r \<le> r_terminal r"
      "run_jobs (aq_run q) s = [] \<Longrightarrow> r_total r = 0"
  shows "\<exists>t r'. close_if_idle q now s = Inr t \<and> get_run t (aq_run q) = Some r' \<and> r_status r' = R_FAILED
     \<and> jobs t = jobs s"
proof -
  have "\<not> list_ex (\<lambda>j. j_status j \<in> {J_PENDING, J_RUNNING}) (run_jobs (aq_run q) s)"
    using js(1) by (auto simp: list_ex_iff)
  then have cl: "close_if_idle q now s
      = (if r_total r > 0 then aggregate_counters (aq_run q) now s
         else case plan_run_transition r R_FAILED of
                Inl err \<Rightarrow> Inl err
              | Inr run1 \<Rightarrow> Inr (upd_run (aq_run q) (\<lambda>r. run1\<lparr>r_ended_at := Some now,
                  r_result_summary := JObj [(''aborted'', JBool True), (''reason'', JStr (aq_reason q)),
                    (''empty_run'', JBool True)]\<rparr>) s))"
    using r c js(2) by (auto simp: close_if_idle_def)
  show ?thesis
  proof (cases "r_total r > 0")
    case True
    with c have "r_total r \<le> r_terminal r" by (cases "run_jobs (aq_run q) s = []") auto
    from aggregate_ends [OF r True this, of now] show ?thesis using True cl by simp
  next
    case False
    with fail_transition [OF r(3)] show ?thesis
      by (auto simp: cl get_run_set [OF r(1)]) (simp add: upd_run_def)
  qed
qed

lemma finish_to:
  assumes "get_run u (aq_run q) = Some run" "close_if_idle q now s2 = Inr s3"
    "stop_pending q (still_pending pend run) reqs0 run now u = Inr (hits, reqs, s2)"
    "get_run s3 (aq_run q) = Some r"
  shows "\<exists>out t. abort_finish q pend reqs0 now u = (Inr out, t) \<and> ao_status out = r_status r \<and> jobs t = jobs s3"
  using assms by (auto simp: abort_finish_def abort_audit_def add_audit_def)

lemma stop_ends:
  assumes r: "get_run s (aq_run q) = Some r" "abort_requested r" "r_status r \<notin> set TERMINAL_PLAN_RUN_STATUSES"
    and h: "abort_hits (map fst pend) s \<noteq> []" "0 < r_total r"
      "r_total r \<le> r_terminal r + int (length (abort_hits (map fst pend) s))"
  shows "\<exists>reqs t r'. stop_pending q pend reqs0 run now s = Inr (abort_hits (map fst pend) s, reqs, t)
     \<and> get_run t (aq_run q) = Some r' \<and> r_status r' = R_FAILED
     \<and> jobs t = upd_where (pending_row pend) (aborted_row (aq_reason q) now) (jobs s)"
proof -
  obtain t r' where b: "bulk_abort_pending_jobs q pend now s = Inr (abort_hits (map fst pend) s, t)"
    "get_run t (aq_run q) = Some r'" "r_status r' = R_FAILED"
    using bulk_ends [OF r h(2) refl h(1,3)] by blast
  have p: "pend \<noteq> []" using h(1) by (auto simp: abort_hits_def)
  have m: "abort_marked (aq_run q) s" using r(1,2) by (simp add: abort_marked_def)
  have "\<exists>reqs t. stop_pending q pend reqs0 run now s = Inr (abort_hits (map fst pend) s, reqs, t)
      \<and> (\<exists>r'. get_run t (aq_run q) = Some r' \<and> r_status r' = R_FAILED)"
    using b p by (simp add: stop_pending_def refresh_requested_def patch_ctx del: jsonb_set.simps)
  then show ?thesis using stop_frame [OF m] by blast
qed

lemma begin_counts:
  assumes b: "abort_begin e q now s = (Inr (AbortRunning pend reqs), u)"
    and r: "get_run s (aq_run q) = Some run" "run_facts run (run_jobs (aq_run q) s)"
    and d: "distinct (map j_id (jobs s))" and h: "aq_host q = None" and w: "no_worker (aq_run q) s"
  shows "\<exists>r. get_run u (aq_run q) = Some r \<and> abort_requested r \<and> r_status r \<notin> set TERMINAL_PLAN_RUN_STATUSES
     \<and> still_pending pend r = pend \<and> r_total r = int (length (run_jobs (aq_run q) u))
     \<and> r_total r = r_terminal r + int (length (abort_hits (map fst pend) u))
     \<and> int (length (abort_hits (map fst pend) u)) \<le> r_total r
     \<and> (\<forall>j\<in>set (run_jobs (aq_run q) u). \<not> pending_row pend j \<longrightarrow> terminal_status (j_status j))"
proof -
  from begin_running [OF b] r(1) have st: "r_status run \<notin> set TERMINAL_PLAN_RUN_STATUSES"
    "pend = job_hosts J_PENDING (abort_active_jobs q s)" by auto
  have js: "jobs u = jobs s" using begin_marked(3) [OF b] .
  obtain c where u: "get_run u (aq_run q) = Some (run\<lparr>r_run_context := c\<rparr>)"
    using begin_running [OF b] r(1) request_row [OF h r(1)] by metis
  have c: "int (length (abort_hits (map fst pend) u)) = count_status J_PENDING (run_jobs (aq_run q) s)"
    using hits_count [OF d h] js by (simp add: st(2) abort_hits_def)
  then have le: "int (length (abort_hits (map fst pend) u)) \<le> r_total run"
    using r(2) by (simp add: run_facts_def count_status_def)
  from c have n: "r_total run = r_terminal run + int (length (abort_hits (map fst pend) u))"
    using r(2) idle_counts [of "run_jobs (aq_run q) s"] w by (auto simp: run_facts_def no_worker_def)
  have "terminal_status (j_status j)" if j: "j \<in> set (run_jobs (aq_run q) s)" "\<not> pending_row pend j" for j
  proof (rule no_worker_terminal [OF w j(1)])
    have "in_scope q j" "j \<in> set (jobs s)" using j(1) by (auto simp: run_jobs_def in_scope_def h)
    then show "j_status j \<noteq> J_PENDING"
      using j(2) scope_in_hosts [of j s q J_PENDING] st(2) by (auto simp: pending_row_def)
  qed
  then show ?thesis
    using u n le r(2) st(1) js abort_marked_run [OF begin_marked(1) [OF b] u]
    by (auto simp: run_jobs_def still_pending_def run_facts_def)
qed

lemma finish_ends:
  assumes r: "get_run u (aq_run q) = Some r" "abort_requested r" "r_status r \<notin> set TERMINAL_PLAN_RUN_STATUSES"
    and n: "still_pending pend r = pend" "r_total r = int (length (run_jobs (aq_run q) u))"
      "r_total r = r_terminal r + int (length (abort_hits (map fst pend) u))"
    and j: "\<forall>j\<in>set (run_jobs (aq_run q) u). \<not> pending_row pend j \<longrightarrow> terminal_status (j_status j)"
    and hits: "abort_hits (map fst pend) u \<noteq> []" "0 < r_total r"
  shows "\<exists>out t. abort_finish q pend reqs now u = (Inr out, t) \<and> ao_status out = R_FAILED
     \<and> (\<forall>j\<in>set (run_jobs (aq_run q) t). terminal_status (j_status j))"
proof -
  from stop_ends [OF r hits, where now = now and ?reqs0.0 = reqs and run = r] n(3) obtain reqs' t r' where
    s: "stop_pending q pend reqs r now u = Inr (abort_hits (map fst pend) u, reqs', t)"
    "get_run t (aq_run q) = Some r'" "r_status r' = R_FAILED"
    "jobs t = upd_where (pending_row pend) (aborted_row (aq_reason q) now) (jobs u)" by auto
  have "close_if_idle q now t = Inr t" using s by (simp add: close_if_idle_def TERMINAL_PLAN_RUN_STATUSES_def)
  from finish_to [OF r(1) this _ s(2), of pend reqs] s(1) n(1) obtain out t' where
    f: "abort_finish q pend reqs now u = (Inr out, t')" "ao_status out = R_FAILED" "jobs t' = jobs t"
    using s(3) n(1) by auto
  have "terminal_status (j_status j')" if "j' \<in> set (run_jobs (aq_run q) t')" for j'
    using that j f(3) s(4) by (auto simp: run_jobs_def elim!: in_upd_whereE) (auto simp: aborted_row_def)
  with f show ?thesis by blast
qed

lemma finish_closes:
  assumes r: "get_run u (aq_run q) = Some r" "abort_requested r" "r_status r \<notin> set TERMINAL_PLAN_RUN_STATUSES"
    and n: "r_total r = int (length (run_jobs (aq_run q) u))" "r_total r = r_terminal r"
    and j: "\<forall>j\<in>set (run_jobs (aq_run q) u). terminal_status (j_status j)"
    and h: "aq_host q = None"
  shows "\<exists>out t. abort_finish q [] reqs now u = (Inr out, t) \<and> ao_status out = R_FAILED
     \<and> (\<forall>j\<in>set (run_jobs (aq_run q) t). terminal_status (j_status j))"
proof -
  have "\<exists>t r'. close_if_idle q now u = Inr t \<and> get_run t (aq_run q) = Some r' \<and> r_status r' = R_FAILED
      \<and> jobs t = jobs u"
  proof (rule close_ends [OF r j h])
    assume "run_jobs (aq_run q) u \<noteq> []"
    then have "0 < r_total r" unfolding n(1) by simp
    then show "0 < r_total r \<and> r_total r \<le> r_terminal r" unfolding n(2) by simp
  qed (simp add: n(1))
  then obtain t r' where c: "close_if_idle q now u = Inr t" "get_run t (aq_run q) = Some r'"
    "r_status r' = R_FAILED" "jobs t = jobs u" by blast
  have "stop_pending q (still_pending [] r) reqs r now u = Inr ([], reqs, u)"
    by (simp add: stop_pending_def still_pending_def)
  from finish_to [OF r(1) c(1) this c(2)] c(3,4) j show ?thesis by (auto simp: run_jobs_def)
qed

lemma idle_pending:
  assumes "abort_begin e q now s = (Inr (AbortRunning pend reqs), u)" "abort_hits (map fst pend) u = []"
  shows "pend = []"
proof (rule ccontr)
  assume "pend \<noteq> []"
  then obtain i h where "(i, h) \<in> set pend" by (cases pend) auto
  then have "i \<in> set (map fst pend)" by force
  moreover from begin_marked(2,3) [OF assms(1)] this obtain j where "j \<in> set (jobs u)" "j_id j = i" "j_status j = J_PENDING"
    by metis
  ultimately show False using assms(2) by (auto simp: abort_hits_def filter_empty_conv)
qed

text \<open>
  Aborting a run that no agent works for ends it: when the counters of the run are those of its
  job rows and none of its jobs is RUNNING or UNKNOWN, one abort leaves the run FAILED and each of
  its jobs terminal.  (A run whose precheck is still going on has no jobs.)
\<close>

theorem abort_ends_idle_run:
  assumes run: "get_run s (aq_run q) = Some run" "r_status run \<notin> set TERMINAL_PLAN_RUN_STATUSES"
    "run_facts run (run_jobs (aq_run q) s)"
    and d: "distinct (map j_id (jobs s))" and h: "aq_host q = None" and w: "no_worker (aq_run q) s"
    and pre: "in_precheck q (obj_or_empty (r_run_context run)) \<Longrightarrow> run_jobs (aq_run q) s = []"
  shows "\<exists>out t. abort_plan_run e q now (\<lambda>u. u) s = (Inr out, t) \<and> ao_status out = R_FAILED
     \<and> (\<forall>j\<in>set (run_jobs (aq_run q) t). terminal_status (j_status j))"
proof (cases "\<exists>pend reqs. fst (abort_begin e q now s) = Inr (AbortRunning pend reqs)")
  case False
  have idle: "run_jobs (aq_run q) s = []"
    using False run(1,2) pre h by (auto simp: abort_begin_def Let_def split: if_splits)
  obtain run1 where tr: "plan_run_transition run R_FAILED = Inr run1" using fail_transition [OF run(2)] by blast
  have "\<exists>out t. abort_begin e q now s = (Inr (AbortDone out), t) \<and> ao_status out = R_FAILED"
    using False run(1,2) h tr by (auto simp: abort_begin_def abort_admission_def abort_precheck_def Let_def split: if_splits)
  then obtain out t where b: "abort_begin e q now s = (Inr (AbortDone out), t)" "ao_status out = R_FAILED" by blast
  have "jobs t = jobs s" using abort_begin_only_run [OF b(1)] by (simp add: only_run_def)
  then have "run_jobs (aq_run q) t = []" using idle by (simp add: run_jobs_def)
  with b show ?thesis by (simp add: abort_plan_run_def)
next
  case True
  then obtain pend reqs u where b: "abort_begin e q now s = (Inr (AbortRunning pend reqs), u)"
    by (metis prod.collapse)
  from begin_counts [OF b run(1,3) d h w] obtain r where r: "get_run u (aq_run q) = Some r" "abort_requested r"
    "r_status r \<notin> set TERMINAL_PLAN_RUN_STATUSES" "still_pending pend r = pend"
    "r_total r = int (length (run_jobs (aq_run q) u))"
    "r_total r = r_terminal r + int (length (abort_hits (map fst pend) u))"
    "int (length (abort_hits (map fst pend) u)) \<le> r_total r"
    "\<forall>j\<in>set (run_jobs (aq_run q) u). \<not> pending_row pend j \<longrightarrow> terminal_status (j_status j)" by blast
  have "\<exists>out t. abort_finish q pend reqs now u = (Inr out, t) \<and> ao_status out = R_FAILED
     \<and> (\<forall>j\<in>set (run_jobs (aq_run q) t). terminal_status (j_status j))"
  proof (cases "abort_hits (map fst pend) u = []")
    case True
    then show ?thesis using finish_closes [OF r(1-3,5) _ _ h] r(6,8) idle_pending [OF b True]
      by (simp add: pending_row_def)
  next
    case False
    then have "0 < int (length (abort_hits (map fst pend) u))" by simp
    with r(7) have "0 < r_total r" by linarith
    then show ?thesis using finish_ends [OF r(1-6,8) False] by blast
  qed
  with b show ?thesis by (auto simp: abort_plan_run_def)
qed

subsection \<open>Updating a host\<close>

definition spared :: "string \<Rightarrow> db \<Rightarrow> job_row list" where
  \<comment> \<open>the jobs that are not the host's\<close>
  "spared h s = filter (\<lambda>j. j_host_id j \<noteq> Some h) (jobs s)"

definition spares :: "string \<Rightarrow> db \<Rightarrow> db \<Rightarrow> bool" where
  "spares h s t \<longleftrightarrow> spared h t = spared h s \<and> map j_id (jobs t) = map j_id (jobs s)"

lemma spares_trans: "spares h s t \<Longrightarrow> spares h t u \<Longrightarrow> spares h s u"
  by (simp add: spares_def)

lemma spares_jobs: "jobs t = jobs s \<Longrightarrow> spares h s t"
  by (simp add: spares_def spared_def)

lemma host_abort_spares:
  assumes a: "abort_plan_run e q now between s = (res, t)" and h: "aq_host q = Some h"
    and d: "distinct (map j_id (jobs s))"
    and w: "\<And>u. spares h u (between u)"
      "\<And>u. abort_marked (aq_run q) u \<Longrightarrow> abort_marked (aq_run q) (between u)"
  shows "spares h s t"
  using a
proof (cases rule: abort_cases)
  case no_jobs
  then show ?thesis by (simp add: only_run_def spares_jobs)
next
  case (failed pend reqs s1 u err)
  have "spares h s s1" using begin_marked(3) [OF failed(1)] by (rule spares_jobs)
  then show ?thesis using failed w(1) by (auto intro: spares_trans simp: spares_jobs)
next
  case (finished pend reqs s1 u out)
  have u: "spares h s u" using begin_marked(3) [OF finished(1)] w(1)
    by (auto simp: finished(2) intro: spares_jobs spares_trans [OF spares_jobs])
  have m: "abort_marked (aq_run q) u" using w(2) begin_marked(1) [OF finished(1)] by (simp add: finished(2))
  from finish_frame [OF m finished(4)] obtain pend' where p: "set pend' \<subseteq> set pend"
    "jobs t = upd_where (pending_row pend') (aborted_row (aq_reason q) now) (jobs u)" by blast
  have "\<not> pending_row pend' r" if r: "r \<in> set (jobs u)" "j_host_id r \<noteq> Some h" for r
  proof
    assume "pending_row pend' r"
    then have "j_id r \<in> set (map fst pend)" using p(1) by (auto simp: pending_row_def)
    with begin_marked(2) [OF finished(1)] obtain j where j: "j \<in> set (jobs s)" "j_id j = j_id r" "in_scope q j"
      by blast
    have "r \<in> set (spared h u)" using r by (simp add: spared_def)
    then have "r \<in> set (spared h s)" using u by (simp add: spares_def)
    then have "r \<in> set (jobs s)" by (simp add: spared_def)
    with j d have "j = r" by (auto simp: distinct_map inj_on_def)
    with j(3) r(2) h show False by (simp add: in_scope_def)
  qed
  then have "upd_where (pending_row pend') (aborted_row (aq_reason q) now) (spared h u) = spared h u"
    by (intro upd_where_none) (auto simp: spared_def)
  then have "spared h t = spared h u"
    unfolding spared_def p(2) by (subst filter_upd_where) (simp_all add: aborted_row_def)
  moreover have "map j_id (jobs t) = map j_id (jobs u)"
    unfolding p(2) by (rule map_upd_where) (simp add: aborted_row_def)
  ultimately show ?thesis using u by (simp add: spares_def)
qed

lemma abort_runs_spare:
  assumes "aq_host q = Some h" "distinct (map j_id (jobs s))"
    and "\<And>r u. spares h u (between r u)" "\<And>r i u. abort_marked i u \<Longrightarrow> abort_marked i (between r u)"
  shows "spares h s (snd (abort_runs e q now between rs s))"
  using assms(2)
proof (induction rs arbitrary: s)
  case (Cons r rs)
  obtain res s1 where a: "abort_plan_run e (q\<lparr>aq_run := r\<rparr>) now (between r) s = (res, s1)" by fastforce
  have s1: "spares h s s1"
    by (rule host_abort_spares [OF a _ Cons.prems]) (simp_all add: assms(1,3,4))
  then have "spares h s1 (snd (abort_runs e q now between rs s1))"
    using Cons by (simp add: spares_def)
  then have "spares h s (snd (abort_runs e q now between rs s1))" by (rule spares_trans [OF s1])
  with s1 a show ?case by (auto simp: Let_def split: sum.splits prod.splits)
qed (simp add: spares_def)

text \<open>
  C29. Updating a host aborts the jobs of that host only: the jobs bound to other hosts are the same
  rows before and after, in whatever runs they are.
\<close>

theorem host_update_spares_others:
  assumes "abort_jobs_for_host e h q now between s = (res, t)" "distinct (map j_id (jobs s))"
    and "\<And>r u. spares h u (between r u)" "\<And>r i u. abort_marked i u \<Longrightarrow> abort_marked i (between r u)"
  shows "filter (\<lambda>j. j_host_id j \<noteq> Some h) (jobs t) = filter (\<lambda>j. j_host_id j \<noteq> Some h) (jobs s)"
proof -
  have "t = snd (abort_runs e (q\<lparr>aq_host := Some h, aq_action := ''abort_jobs_for_host_update''\<rparr>) now between
      (sort (remdups (map j_plan_run_id
         (filter (\<lambda>j. j_host_id j = Some h \<and> j_status j \<in> {J_PENDING, J_RUNNING}) (jobs s))))) s)"
    using assms(1) unfolding abort_jobs_for_host_def Let_def by (auto split: prod.splits)
  then have "spares h s t" using assms by (simp add: abort_runs_spare)
  then show ?thesis by (simp add: spares_def spared_def)
qed

subsection \<open>A concrete abort\<close>

definition abort_db :: db where
  \<comment> \<open>job 7 runs on h1, 8 waits on h1 and 9 on h2\<close>
  "abort_db = claimed_db\<lparr>
     jobs := map (\<lambda>j. j\<lparr>j_host_id := Some ''h1''\<rparr>) (jobs claimed_db)
       @ [sample_job\<lparr>j_id := 8, j_device_id := 6, j_host_id := Some ''h1''\<rparr>,
          sample_job\<lparr>j_id := 9, j_device_id := 8, j_host_id := Some ''h2''\<rparr>],
     runs := map (\<lambda>r. r\<lparr>r_total := 3\<rparr>) (runs claimed_db)\<rparr>"

definition sample_abort :: "string option \<Rightarrow> abort_in" where
  "sample_abort h = \<lparr>aq_run = 3, aq_reason = ''stop'', aq_by = Some ''u1'', aq_username = Some ''u1'',
     aq_action = ''abort_plan_run'', aq_host = h\<rparr>"

definition late_claim :: "db \<Rightarrow> db" where
  \<comment> \<open>job 8 is claimed in the window\<close>
  "late_claim u = upd_job 8 (\<lambda>j. j\<lparr>j_status := J_RUNNING\<rparr>) u"

lemma late_claim_ok: "window_ok q late_claim"
  by (auto simp: window_ok_def late_claim_def upd_job_def abort_marked_def ctx_of_def get_run_def
      intro: map_upd_where)

lemma abort_scope_witness:
  "\<exists>out t s1 u ids. abort_plan_run default_env (sample_abort (Some ''h1'')) 120 late_claim abort_db = (Inr out, t)
     \<and> ao_aborted out = [] \<and> ao_requested out = [7, 8]
     \<and> only_run (sample_abort (Some ''h1'')) abort_db s1 \<and> u \<in> {s1, late_claim s1}
     \<and> abort_frame (sample_abort (Some ''h1'')) ids 120 u t"
proof -
  let ?r = "abort_plan_run default_env (sample_abort (Some ''h1'')) 120 late_claim abort_db"
  have "case fst ?r of Inl err \<Rightarrow> False | Inr out \<Rightarrow> ao_aborted out = [] \<and> ao_requested out = [7, 8]" by code_simp
  then obtain out t where r: "?r = (Inr out, t)" "ao_aborted out = [] \<and> ao_requested out = [7, 8]"
    by (cases ?r) (auto split: sum.splits)
  from abort_scope [OF r(1)] late_claim_ok [unfolded window_ok_def] r show ?thesis by blast
qed

lemma abort_enforced_witness:
  "\<exists>out t. abort_plan_run default_env (sample_abort None) 120 late_claim abort_db = (Inr out, t)
     \<and> ao_status out = R_RUNNING \<and> ao_aborted out = [9]
     \<and> 8 \<in> set (ao_requested out) \<and> 8 \<in> fst ` set (reap_candidates default_env 100000 t)"
proof -
  let ?r = "abort_plan_run default_env (sample_abort None) 120 late_claim abort_db"
  let ?j = "the (get_job abort_db 8)"
  have "case fst ?r of Inl err \<Rightarrow> False | Inr out \<Rightarrow> ao_status out = R_RUNNING \<and> ao_aborted out = [9]" by code_simp
  then obtain out t where r: "?r = (Inr out, t)" "ao_status out = R_RUNNING \<and> ao_aborted out = [9]"
    by (cases ?r) (auto split: sum.splits)
  have t: "t = snd ?r" using r(1) by simp
  have d: "distinct (map j_id (jobs abort_db))" by code_simp
  have j: "?j \<in> set (jobs abort_db)" "in_scope (sample_abort None) ?j" "j_status ?j \<in> {J_PENDING, J_RUNNING}"
    "j_id ?j = 8"
    by (code_simp, simp add: in_scope_def sample_abort_def, code_simp+)
  have "(case get_job (snd ?r) 8 of None \<Rightarrow> False | Some j \<Rightarrow> j_status j = J_RUNNING \<and> j_plan_run_id j = 3)" by code_simp
  then obtain j' where j': "get_job t (j_id ?j) = Some j'" "j_status j' = J_RUNNING" "in_scope (sample_abort None) j'"
    unfolding t j(4) by (auto simp: in_scope_def sample_abort_def split: option.splits)
  have sane: "clock_sane (sample_abort None) 120 ctx" for ctx by (simp add: clock_sane_def sample_abort_def)
  have later: "120 + e_abort_ack_grace default_env < 100000" by code_simp
  have op: "ao_status out \<notin> set TERMINAL_PLAN_RUN_STATUSES" using r(2) by (simp add: TERMINAL_PLAN_RUN_STATUSES_def)
  from abort_enforced [OF r(1) late_claim_ok d sane op j(1-3) j' later] r j(4) show ?thesis by auto
qed

lemma abort_ends_idle_run_witness:
  "\<exists>out t. abort_plan_run default_env (sample_abort None) 120 (\<lambda>u. u) claim_db = (Inr out, t)
     \<and> ao_status out = R_FAILED \<and> (\<forall>j\<in>set (run_jobs 3 t). terminal_status (j_status j))"
proof -
  have run: "get_run claim_db (aq_run (sample_abort None)) = Some (hd (runs claim_db))" by code_simp
  have st: "r_status (hd (runs claim_db)) \<notin> set TERMINAL_PLAN_RUN_STATUSES" by code_simp
  have f: "run_facts (hd (runs claim_db)) (run_jobs (aq_run (sample_abort None)) claim_db)" by code_simp
  have d: "distinct (map j_id (jobs claim_db))" by code_simp
  have w: "no_worker (aq_run (sample_abort None)) claim_db" by code_simp
  have p: "\<not> in_precheck (sample_abort None) (obj_or_empty (r_run_context (hd (runs claim_db))))" by code_simp
  from abort_ends_idle_run [OF run st f d _ w, of default_env 120] p show ?thesis by (simp add: sample_abort_def)
qed

lemma host_update_spares_others_witness:
  "\<exists>t. abort_jobs_for_host default_env ''h1'' (sample_abort None) 120 (\<lambda>r u. u) abort_db = (Some ([3], [8]), t)
     \<and> filter (\<lambda>j. j_host_id j \<noteq> Some ''h1'') (jobs t) = filter (\<lambda>j. j_host_id j \<noteq> Some ''h1'') (jobs abort_db)"
proof -
  let ?r = "abort_jobs_for_host default_env ''h1'' (sample_abort None) 120 (\<lambda>r u. u) abort_db"
  have "fst ?r = Some ([3], [8])" by code_simp
  then obtain t where r: "?r = (Some ([3], [8]), t)" by (cases ?r) auto
  have d: "distinct (map j_id (jobs abort_db))" by code_simp
  from host_update_spares_others [OF r d] r show ?thesis by (simp add: spares_def)
qed

end
