(* ===== verification/Recycler.thy ===== *)
theory Recycler
  imports Plan_Abort
begin

section \<open>The job recycler (scheduler/recycler.py)\<close>

text \<open>
  The passes that give up on silent jobs: PENDING jobs no agent claimed end FAILED, RUNNING jobs whose
  signals went stale become UNKNOWN and keep their lease.  \<open>clock\<close> is the server time at which the row
  of a job is locked.  The passes over post-completion tasks and artifact files are not modelled.
\<close>

record sched =
  sc_recycler_batch_size :: nat
  sc_coordinator_heartbeat_timeout :: int
  sc_patrol_stall_batch_limit :: nat
  sc_step_trace_stall_batch_limit :: nat
  sc_step_trace_stall :: int \<comment> \<open>\<open>STEP_TRACE_STALL_SECONDS\<close>\<close>

definition WAITING_EXECUTION_STATES :: "string list" where
  "WAITING_EXECUTION_STATES = [''WAITING_EXECUTION_SLOT'', ''PATROL_SLEEP'', ''WAITING_BARRIER'']"

definition KNOWN_EXECUTION_STATES :: "string list" where
  "KNOWN_EXECUTION_STATES = WAITING_EXECUTION_STATES @ [''EXECUTING_STEP'', EXECUTING_DISARM]"

fun in_states :: "string option \<Rightarrow> string list \<Rightarrow> bool" where
  "in_states None xs = False"
| "in_states (Some x) xs = (x \<in> set xs)"

definition is_executing :: "job_row \<Rightarrow> bool" where
  "is_executing job = in_states (j_execution_state job) [''EXECUTING_STEP'', EXECUTING_DISARM]"

definition waits_idle :: "job_row \<Rightarrow> bool" where
  "waits_idle job = in_states (j_execution_state job) WAITING_EXECUTION_STATES"

definition is_unreported :: "job_row \<Rightarrow> bool" where
  "is_unreported job = (\<not> in_states (j_execution_state job) KNOWN_EXECUTION_STATES)"

subsection \<open>Clocks\<close>

definition coord_row :: "job_row \<Rightarrow> prh_row \<Rightarrow> bool" where
  \<comment> \<open>the coordinator row of the job's host in its run\<close>
  "coord_row job p \<longleftrightarrow> p_plan_run_id p = j_plan_run_id job \<and> j_host_id job = Some (p_host_id p)"

definition coordinator_heartbeat :: "db \<Rightarrow> job_row \<Rightarrow> time option" where
  \<comment> \<open>\<open>_coordinator_heartbeats\<close> and the lookup in its answer\<close>
  "coordinator_heartbeat s job =
     (case rev (filter (coord_row job) (prhs s)) of
        [] \<Rightarrow> None
      | p # ps \<Rightarrow> if p_host_id p = [] then None else p_coordinator_heartbeat_at p)"

definition not_reported_anchor :: "job_row \<Rightarrow> time" where
  "not_reported_anchor job = (case j_started_at job of None \<Rightarrow> j_created_at job | Some t \<Rightarrow> t)"

definition or_else :: "'a option \<Rightarrow> 'a \<Rightarrow> 'a" where
  "or_else x y = (case x of None \<Rightarrow> y | Some z \<Rightarrow> z)"

definition running_liveness_anchor :: "env \<Rightarrow> sched \<Rightarrow> job_row \<Rightarrow> time option \<Rightarrow> time \<times> int" where
  "running_liveness_anchor e sc job coord_hb =
     (if is_executing job
      then (or_else (j_last_execution_heartbeat_at job) (not_reported_anchor job),
            running_heartbeat_timeout_seconds e job)
      else if waits_idle job
      then (or_else coord_hb (not_reported_anchor job), sc_coordinator_heartbeat_timeout sc)
      else (not_reported_anchor job, running_heartbeat_timeout_seconds e job))"

definition latest_run_context :: "db \<Rightarrow> job_row \<Rightarrow> json" where
  \<comment> \<open>\<open>_plan_run_contexts\<close>, \<open>_latest_committed_run_context\<close>\<close>
  "latest_run_context s job =
     (case get_run s (j_plan_run_id job) of None \<Rightarrow> JObj [] | Some r \<Rightarrow> JObj (obj_or_empty (r_run_context r)))"

definition final_disarm_grace_blocks_write :: "env \<Rightarrow> nat \<Rightarrow> time \<Rightarrow> time \<Rightarrow> db \<Rightarrow> bool \<times> db" where
  "final_disarm_grace_blocks_write e job_id now clk s =
     (case get_job s job_id of
        None \<Rightarrow> (True, s)
      | Some job \<Rightarrow>
          if j_status job \<noteq> J_RUNNING then (True, s)
          else
            (let now1 = max now clk in
             if j_disarm_guard job \<noteq> None
             then (case job_guard_deadline e job now1 False s of (dl, t) \<Rightarrow> (dl \<noteq> None, t))
             else (disarm_grace_protects e job (latest_run_context s job) now1, s)))"

subsection \<open>PENDING jobs nobody claimed\<close>

definition PENDING_REASON :: string where "PENDING_REASON = ''pending_timeout: agent never claimed job''"

definition timed_out_row :: "string \<Rightarrow> time \<Rightarrow> job_row \<Rightarrow> job_row" where
  "timed_out_row reason now j =
     j\<lparr>j_status := J_FAILED, j_status_reason := reason, j_ended_at := Some now, j_updated_at := now,
       j_execution_state := None\<rparr>"

definition mark_pending_timeout :: "job_row \<Rightarrow> time \<Rightarrow> string \<Rightarrow> bool \<Rightarrow> db \<Rightarrow> bool \<times> db" where
  "mark_pending_timeout job now reason defer_aggregation s =
     (if j_status job \<noteq> J_PENDING then (False, s)
      else
        (let s1 = s\<lparr>jobs := upd_where (\<lambda>j. j_id j = j_id job \<and> j_status j = J_PENDING) (timed_out_row reason now) (jobs s)\<rparr>
         in if \<not> list_ex (\<lambda>j. j_id j = j_id job \<and> j_status j = J_PENDING) (jobs s) then (False, s)
            else (case get_job s1 (j_id job) of
                    None \<Rightarrow> (False, s1)
                  | Some j1 \<Rightarrow>
                      (let s2 = snd (handle_job_lease_release_sync (j_device_id j1) (j_id j1) (Some j1) now s1);
                           s3 = (if defer_aggregation then s2 else snd (on_job_terminal_sync j1 s2))
                       in (True, add_audit ''job_terminalized'' ''job_instance'' (dec (j_id j1)) ''system''
                             (JObj [(''plan_run_id'', JInt (int (j_plan_run_id j1))), (''from_status'', JStr ''PENDING''),
                                    (''to_status'', JStr ''FAILED''), (''reason'', JStr reason),
                                    (''source'', JStr ''recycler_pending_timeout'')]) s3)))))"

definition pending_candidate :: "env \<Rightarrow> time \<Rightarrow> nat list \<Rightarrow> db \<Rightarrow> job_row \<Rightarrow> bool" where
  \<comment> \<open>jobs that wait behind running work of their host stay queued\<close>
  "pending_candidate e now skip s j \<longleftrightarrow>
     j_status j = J_PENDING \<and> j_created_at j < now - e_dispatched_timeout e
     \<and> (j_host_id j = None \<or> \<not> list_ex (\<lambda>r. j_host_id r = j_host_id j \<and> j_status r = J_RUNNING) (jobs s))
     \<and> j_id j \<notin> set skip"

definition terminalization_failed :: "job_row \<Rightarrow> string \<Rightarrow> db \<Rightarrow> db" where
  "terminalization_failed job source s =
     add_audit ''job_terminalization_failed'' ''job_instance'' (dec (j_id job)) ''system''
       (JObj [(''plan_run_id'', JInt (int (j_plan_run_id job))), (''source'', JStr source)]) s"

text \<open>
  Failures are inputs: \<open>f1\<close> of the jobs whose savepoint is rolled back, \<open>f2\<close> of those whose aggregation
  raises.  After the first job that changed, the batch is left.
\<close>

fun pending_for ::
  "(nat \<Rightarrow> bool) \<Rightarrow> (nat \<Rightarrow> bool) \<Rightarrow> time \<Rightarrow> job_row list \<Rightarrow> nat list \<Rightarrow> db \<Rightarrow> nat list \<times> db" where
  "pending_for f1 f2 now [] skip s = (skip, s)"
| "pending_for f1 f2 now (j # js) skip s =
     (if f1 (j_id j)
      then pending_for f1 f2 now js (j_id j # skip) (terminalization_failed j ''recycler_pending_timeout'' s)
      else (case mark_pending_timeout j now PENDING_REASON True s of
              (False, s1) \<Rightarrow> pending_for f1 f2 now js skip s1
            | (True, s1) \<Rightarrow>
                if f2 (j_id j)
                then (j_id j # skip, terminalization_failed j ''recycler_pending_timeout_aggregation'' s1)
                else (skip, case get_job s1 (j_id j) of
                              None \<Rightarrow> s1 | Some j1 \<Rightarrow> snd (on_job_terminal_sync j1 s1))))"

definition pending_batch :: "env \<Rightarrow> sched \<Rightarrow> time \<Rightarrow> nat list \<Rightarrow> db \<Rightarrow> job_row list" where
  "pending_batch e sc now skip s =
     take (sc_recycler_batch_size sc) (sort_key j_id (filter (pending_candidate e now skip s) (jobs s)))"

text \<open>Each round ends or skips its first job, so that the loop ends.\<close>

lemma mark_pending_jobs:
  assumes "mark_pending_timeout job now reason d s = (b, t)"
  shows "jobs t = (if j_status job = J_PENDING
           then upd_where (\<lambda>j. j_id j = j_id job \<and> j_status j = J_PENDING) (timed_out_row reason now) (jobs s)
           else jobs s)"
proof (cases "list_ex (\<lambda>j. j_id j = j_id job \<and> j_status j = J_PENDING) (jobs s)")
  case True
  with assms show ?thesis
    by (auto simp: mark_pending_timeout_def Let_def handle_jobs on_job_terminal_sync_def pending_insert_def
        add_audit_def split: if_splits option.splits)
next
  case False
  then have "upd_where (\<lambda>j. j_id j = j_id job \<and> j_status j = J_PENDING) (timed_out_row reason now) (jobs s) = jobs s"
    by (intro upd_where_none) (auto simp: list_ex_iff)
  with False assms show ?thesis by (auto simp: mark_pending_timeout_def Let_def split: if_splits)
qed

definition less_pending :: "db \<Rightarrow> db \<Rightarrow> bool" where
  \<comment> \<open>some PENDING rows were failed, no other row was touched\<close>
  "less_pending s t \<longleftrightarrow> list_all2 (\<lambda>j j'. j' = j \<or> j_status j = J_PENDING \<and> (\<exists>r n. j' = timed_out_row r n j)) (jobs s) (jobs t)"

lemma less_pending_refl [simp]: "less_pending s s"
  by (simp add: less_pending_def list_all2_same)

lemma less_pending_same: "jobs t = jobs s \<Longrightarrow> less_pending s t"
  by (simp add: less_pending_def list_all2_same)

lemma less_pending_trans: "less_pending s t \<Longrightarrow> less_pending t u \<Longrightarrow> less_pending s u"
  unfolding less_pending_def
  by (rule list_all2_trans [where ?P1.0 = "\<lambda>j j'. j' = j \<or> j_status j = J_PENDING \<and> (\<exists>r n. j' = timed_out_row r n j)"
        and ?P2.0 = "\<lambda>j j'. j' = j \<or> j_status j = J_PENDING \<and> (\<exists>r n. j' = timed_out_row r n j)"])
    (auto simp: timed_out_row_def)

lemma mark_pending_less: "mark_pending_timeout job now reason d s = (b, t) \<Longrightarrow> less_pending s t"
  by (drule mark_pending_jobs) (auto simp: less_pending_def list_all2_same intro!: upd_where_all2)

lemma pending_for_less: "pending_for f1 f2 now js skip s = (skip', t) \<Longrightarrow> less_pending s t \<and> set skip \<subseteq> set skip'"
proof (induction js arbitrary: skip s)
  case (Cons j js)
  obtain b s1 where m: "mark_pending_timeout j now PENDING_REASON True s = (b, s1)" by fastforce
  note l = mark_pending_less [OF m]
  have audit: "less_pending u (terminalization_failed j x u)" for u x
    by (rule less_pending_same) (simp add: terminalization_failed_def add_audit_def)
  have agg: "less_pending u (snd (on_job_terminal_sync j1 u))" for u j1
    by (rule less_pending_same) (simp add: on_job_terminal_sync_def pending_insert_def)
  show ?case
  proof (cases "f1 (j_id j)")
    case True
    with Cons.prems Cons.IH [of "j_id j # skip" "terminalization_failed j ''recycler_pending_timeout'' s"]
    show ?thesis using less_pending_trans [OF audit] by auto
  next
    case False
    show ?thesis
    proof (cases b)
      case True
      with False Cons.prems m show ?thesis
        using l less_pending_trans [OF l audit] less_pending_trans [OF l agg] by (auto split: if_splits option.splits)
    next
      case no: False
      with False Cons.prems m Cons.IH [of skip s1] show ?thesis using less_pending_trans [OF l] by auto
    qed
  qed
qed simp

lemma less_pending_ids: "less_pending s t \<Longrightarrow> map j_id (jobs t) = map j_id (jobs s)"
  unfolding less_pending_def
  by (induction rule: list_all2_induct) (auto simp: timed_out_row_def)

lemma less_pending_running:
  assumes "less_pending s t"
  shows "list_ex (\<lambda>r. j_host_id r = h \<and> j_status r = J_RUNNING) (jobs t)
    = list_ex (\<lambda>r. j_host_id r = h \<and> j_status r = J_RUNNING) (jobs s)"
  using assms unfolding less_pending_def
  by (induction rule: list_all2_induct) (auto simp: timed_out_row_def)

lemma pending_candidate_less:
  assumes l: "less_pending s t" and sk: "set skip \<subseteq> set skip'"
  shows "list_all2 (\<lambda>x y. pending_candidate e now skip' t y \<longrightarrow> pending_candidate e now skip s x) (jobs s) (jobs t)"
  using l [unfolded less_pending_def]
proof (rule list_all2_mono)
  fix x y assume "y = x \<or> j_status x = J_PENDING \<and> (\<exists>r n. y = timed_out_row r n x)"
  then show "pending_candidate e now skip' t y \<longrightarrow> pending_candidate e now skip s x"
    using less_pending_running [OF l] sk by (auto simp: pending_candidate_def timed_out_row_def)
qed

lemma mark_pending_gone:
  assumes "mark_pending_timeout j now reason d s = (b, t)" "j_status j = J_PENDING" "r \<in> set (jobs t)" "j_id r = j_id j"
  shows "j_status r \<noteq> J_PENDING"
  using assms(3,4) mark_pending_jobs [OF assms(1)] assms(2) by (auto elim!: in_upd_whereE simp: timed_out_row_def)

lemma less_pending_gone:
  assumes "less_pending s t" "\<And>r. r \<in> set (jobs s) \<Longrightarrow> j_id r = k \<Longrightarrow> j_status r \<noteq> J_PENDING" "r \<in> set (jobs t)" "j_id r = k"
  shows "j_status r \<noteq> J_PENDING"
proof -
  obtain r0 where "r0 \<in> set (jobs s)" "r = r0 \<or> j_status r0 = J_PENDING \<and> (\<exists>x n. r = timed_out_row x n r0)"
    using assms(1,3) unfolding less_pending_def list_all2_conv_all_nth in_set_conv_nth by metis
  then show ?thesis using assms(2,4) by (auto simp: timed_out_row_def)
qed

lemma pending_for_progress:
  assumes p: "pending_for f1 f2 now (j # js) skip s = (skip', t)" and j: "j_status j = J_PENDING"
  shows "j_id j \<in> set skip' \<or> (\<forall>r\<in>set (jobs t). j_id r = j_id j \<longrightarrow> j_status r \<noteq> J_PENDING)"
proof (cases "f1 (j_id j)")
  case True
  with p pending_for_less [of f1 f2 now js "j_id j # skip"] show ?thesis by fastforce
next
  case False
  obtain b s1 where m: "mark_pending_timeout j now PENDING_REASON True s = (b, s1)" by fastforce
  have "less_pending s1 t \<or> j_id j \<in> set skip'"
  proof (cases b)
    case True
    with p False m show ?thesis
      by (auto simp: less_pending_same on_job_terminal_sync_def pending_insert_def split: if_splits option.splits)
  next
    case no: False
    with p False m have "pending_for f1 f2 now js skip s1 = (skip', t)" by simp
    then show ?thesis using pending_for_less by blast
  qed
  then show ?thesis using less_pending_gone [of s1 t "j_id j"] mark_pending_gone [OF m j] by blast
qed

lemma pending_round_less:
  assumes b: "pending_batch e sc now skip s = j # js" and p: "pending_for f1 f2 now (j # js) skip s = (skip', t)"
  shows "length (filter (pending_candidate e now skip' t) (jobs t)) < length (filter (pending_candidate e now skip s) (jobs s))"
proof -
  have "j \<in> set (pending_batch e sc now skip s)" using b by simp
  then have j: "j \<in> set (jobs s)" "pending_candidate e now skip s j"
    by (auto simp: pending_batch_def dest: in_set_takeD)
  note l = pending_for_less [OF p]
  then have len: "length (jobs t) = length (jobs s)" using less_pending_ids map_eq_imp_length_eq by blast
  from j(1) obtain n where n: "n < length (jobs s)" "jobs s ! n = j" by (auto simp: in_set_conv_nth)
  have z: "(j, jobs t ! n) \<in> set (zip (jobs s) (jobs t))" using n len by (force simp: set_zip)
  have "j_id (jobs t ! n) = j_id j"
    using less_pending_ids [of s t] l n len by (metis length_map nth_map)
  moreover have "jobs t ! n \<in> set (jobs t)" using n(1) len by simp
  ultimately have "\<not> pending_candidate e now skip' t (jobs t ! n)"
    using pending_for_progress [OF p] j(2) by (auto simp: pending_candidate_def)
  with length_filter_less_all2 [OF pending_candidate_less z j(2)] l show ?thesis by blast
qed

function pending_pass ::
  "env \<Rightarrow> sched \<Rightarrow> (nat \<Rightarrow> bool) \<Rightarrow> (nat \<Rightarrow> bool) \<Rightarrow> time \<Rightarrow> nat list \<Rightarrow> db \<Rightarrow> nat list \<times> db" where
  "pending_pass e sc f1 f2 now skip s =
     (case pending_batch e sc now skip s of
        [] \<Rightarrow> (skip, s)
      | j # js \<Rightarrow>
          (case pending_for f1 f2 now (j # js) skip s of
             (skip', t) \<Rightarrow> pending_pass e sc f1 f2 now skip' t))"
  by pat_completeness auto
termination
proof (relation "measure (\<lambda>(e, sc, f1, f2, now, skip, s). length (filter (pending_candidate e now skip s) (jobs s)))",
    goal_cases)
  case (2 e sc f1 f2 now skip s j js skip' t)
  then have "pending_for f1 f2 now (j # js) skip s = (skip', t)" by simp
  from pending_round_less [OF 2(1) this] show ?case by simp
qed simp

declare pending_pass.simps [simp del]

subsection \<open>RUNNING jobs whose own clock ran out\<close>

definition unless_disarming ::
  "env \<Rightarrow> nat \<Rightarrow> time \<Rightarrow> time \<Rightarrow> (db \<Rightarrow> bool \<times> db) \<Rightarrow> db \<Rightarrow> bool \<times> db" where
  \<comment> \<open>\<open>if _final_disarm_grace_blocks_write(...): return False\<close>\<close>
  "unless_disarming e job_id now clk write s =
     (case final_disarm_grace_blocks_write e job_id now clk s of (blocked, t) \<Rightarrow> if blocked then (False, t) else write t)"

definition unknown_row :: "string \<Rightarrow> time \<Rightarrow> job_row \<Rightarrow> job_row" where
  "unknown_row reason now j =
     j\<lparr>j_status := J_UNKNOWN, j_status_reason := reason, j_ended_at := Some now, j_updated_at := now,
       j_execution_state := None\<rparr>"

definition still_silent :: "db \<Rightarrow> nat \<Rightarrow> time option \<Rightarrow> time option \<Rightarrow> bool \<Rightarrow> job_row \<Rightarrow> bool" where
  \<comment> \<open>the conditions of the update: the signal the verdict rests on is checked again\<close>
  "still_silent s job_id coord_deadline exec_deadline unreported j \<longleftrightarrow>
     j_id j = job_id \<and> j_status j = J_RUNNING
     \<and> (case coord_deadline of
          None \<Rightarrow> True
        | Some dl \<Rightarrow>
            (\<not> list_ex (\<lambda>p. coord_row j p \<and> p_coordinator_heartbeat_at p \<noteq> None) (prhs s)
             \<or> list_ex (\<lambda>p. coord_row j p \<and> (case p_coordinator_heartbeat_at p of None \<Rightarrow> False | Some h \<Rightarrow> h \<le> dl)) (prhs s))
            \<and> waits_idle j)
     \<and> (case exec_deadline of
          None \<Rightarrow> True
        | Some dl \<Rightarrow> is_executing j
            \<and> (case j_last_execution_heartbeat_at j of None \<Rightarrow> True | Some h \<Rightarrow> h \<le> dl))
     \<and> (unreported \<longrightarrow> is_unreported j)"

definition time_json :: "time option \<Rightarrow> json" where
  "time_json t = (case t of None \<Rightarrow> JNull | Some x \<Rightarrow> JTime x)"

definition set_unknown :: "(job_row \<Rightarrow> bool) \<Rightarrow> string \<Rightarrow> time \<Rightarrow> (db \<Rightarrow> db) \<Rightarrow> db \<Rightarrow> bool \<times> db" where
  \<comment> \<open>one conditional UPDATE \<dots> RETURNING; the audit row only if a row was hit\<close>
  "set_unknown P reason now audit s =
     (if list_ex P (jobs s)
      then (True, audit (s\<lparr>jobs := upd_where P (unknown_row reason now) (jobs s)\<rparr>))
      else (False, s))"

definition mark_running_timeout ::
  "env \<Rightarrow> job_row \<Rightarrow> time \<Rightarrow> time \<Rightarrow> string \<Rightarrow> time option \<Rightarrow> time option \<Rightarrow> bool \<Rightarrow> db \<Rightarrow> bool \<times> db" where
  "mark_running_timeout e job now clk reason coord_deadline exec_deadline unreported s =
     (if j_status job \<noteq> J_RUNNING then (False, s)
      else unless_disarming e (j_id job) now clk (\<lambda>t.
                set_unknown (still_silent t (j_id job) coord_deadline exec_deadline unreported) reason now
                  (add_audit ''job_running_timeout'' ''job_instance'' (dec (j_id job)) ''system''
                    (JObj [(''plan_run_id'', JInt (int (j_plan_run_id job))), (''device_id'', JInt (int (j_device_id job))),
                           (''old_status'', JStr ''RUNNING''), (''reason'', JStr reason),
                           (''coordinator_deadline'', time_json coord_deadline),
                           (''execution_deadline'', time_json exec_deadline),
                           (''require_unreported'', JBool unreported)])) t) s)"

definition stale_clock :: "env \<Rightarrow> sched \<Rightarrow> time \<Rightarrow> db \<Rightarrow> job_row \<Rightarrow> bool" where
  \<comment> \<open>the filter of the candidates; wider than the verdict\<close>
  "stale_clock e sc now s j \<longleftrightarrow>
     (let running_deadline = now - min (e_running_heartbeat_timeout e) (e_patrol_running_heartbeat_timeout e);
          dispatched = not_reported_anchor j;
          coords = map p_coordinator_heartbeat_at (filter (coord_row j) (prhs s))
      in j_disarm_guard j \<noteq> None
         \<or> is_unreported j \<and> dispatched < running_deadline
         \<or> is_executing j \<and> or_else (j_last_execution_heartbeat_at j) dispatched < running_deadline
         \<or> waits_idle j \<and> list_ex (\<lambda>h. or_else h dispatched < now - sc_coordinator_heartbeat_timeout sc)
             (if coords = [] then [None] else coords))"

definition running_batch :: "env \<Rightarrow> sched \<Rightarrow> time \<Rightarrow> nat \<Rightarrow> db \<Rightarrow> job_row list" where
  "running_batch e sc now after s =
     take (sc_recycler_batch_size sc)
       (sort_key j_id (filter (\<lambda>j. j_status j = J_RUNNING \<and> stale_clock e sc now s j \<and> after < j_id j) (jobs s)))"

definition RUNNING_REASON :: string where "RUNNING_REASON = ''running_timeout: no completion within window''"

definition running_step :: "env \<Rightarrow> sched \<Rightarrow> time \<Rightarrow> (nat \<Rightarrow> nat \<Rightarrow> time) \<Rightarrow> db \<Rightarrow> job_row \<Rightarrow> db \<Rightarrow> db" where
  \<comment> \<open>\<open>scan\<close>: what was read with the batch; \<open>clock k 0\<close> at the check, \<open>clock k 1\<close> at the write\<close>
  "running_step e sc now clock scan job s =
     (if disarm_grace_protects e job (latest_run_context scan job) now then s
      else (case get_job s (j_id job) of
              None \<Rightarrow> s
            | Some j \<Rightarrow>
                if j_status j \<noteq> J_RUNNING then s
                else (case final_disarm_grace_blocks_write e (j_id j) now (clock (j_id j) 0) s of
                        (True, t) \<Rightarrow> t
                      | (False, t) \<Rightarrow>
                          (case running_liveness_anchor e sc j (coordinator_heartbeat scan j) of
                             (anchor, timeout) \<Rightarrow>
                               let deadline = now - timeout in
                               if anchor \<ge> deadline then t
                               else snd (mark_running_timeout e j now (clock (j_id j) 1) RUNNING_REASON
                                      (if \<not> is_executing j \<and> waits_idle j then Some deadline else None)
                                      (if is_executing j then Some deadline else None)
                                      (\<not> is_executing j \<and> \<not> waits_idle j) t)))))"

subsection \<open>Patrol loops that stand still\<close>

definition completed_init_steps :: "db \<Rightarrow> nat \<Rightarrow> (nat \<times> time) option" where
  "completed_init_steps s job_id =
     (let ts = filter (\<lambda>t. t_job_id t = job_id \<and> t_stage t = ''init'' \<and> t_event_type t = ''COMPLETED'') (traces s)
      in case List.map_filter t_original_ts ts of
           [] \<Rightarrow> None
         | x # xs \<Rightarrow> Some (length (remdups (map t_step_id ts)), foldl max x xs))"

definition init_steps :: "json \<Rightarrow> json list" where
  "init_steps pipeline = list_or_empty (jget (obj_or_empty (jget (obj_or_empty pipeline) ''lifecycle'')) ''init'')"

definition patrol_base_anchor :: "db \<Rightarrow> job_row \<Rightarrow> time option" where
  \<comment> \<open>the last patrol heartbeat, or when the patrol phase began\<close>
  "patrol_base_anchor s job =
     (case j_last_patrol_heartbeat_at job of
        Some h \<Rightarrow> Some h
      | None \<Rightarrow>
          if init_steps (j_pipeline_def job) = [] then j_started_at job
          else (case completed_init_steps s (j_id job) of
                  None \<Rightarrow> None
                | Some (n, at) \<Rightarrow> if n < length (init_steps (j_pipeline_def job)) then None else Some at))"

definition patrol_stall_anchor :: "job_row \<Rightarrow> time option \<Rightarrow> time option" where
  "patrol_stall_anchor job base =
     (case (j_next_retry_at job, base) of
        (Some r, None) \<Rightarrow> Some r
      | (Some r, Some b) \<Rightarrow> if r > b then Some r else Some b
      | (None, b) \<Rightarrow> b)"

definition patrols_or_unreported :: "job_row \<Rightarrow> bool" where
  "patrols_or_unreported j \<longleftrightarrow> j_execution_state j = None \<or> j_execution_state j = Some ''PATROL_SLEEP''"

definition patrol_stall_entry :: "env \<Rightarrow> time \<Rightarrow> (job_row \<Rightarrow> time option) \<Rightarrow> job_row \<Rightarrow> (job_row \<times> int \<times> int) option" where
  \<comment> \<open>job, interval and age\<close>
  "patrol_stall_entry e now anchor j =
     (if j_status j \<noteq> J_RUNNING \<or> \<not> patrols_or_unreported j then None
      else (case (patrol_interval_seconds (j_pipeline_def j), anchor j) of
              (Some interval, Some a) \<Rightarrow>
                if now - a > interval * e_patrol_stall_multiplier e then Some (j, interval, now - a) else None
            | _ \<Rightarrow> None))"

definition overdue :: "env \<Rightarrow> job_row \<times> int \<times> int \<Rightarrow> int" where
  "overdue e c = (case c of (j, interval, age) \<Rightarrow> age - interval * e_patrol_stall_multiplier e)"

definition py_patrol_anchor :: "db \<Rightarrow> job_row \<Rightarrow> time option" where
  "py_patrol_anchor s j =
     (case patrol_base_anchor s j of None \<Rightarrow> None | Some b \<Rightarrow> patrol_stall_anchor j (Some b))"

definition collect_patrol_stall_candidates_py :: "env \<Rightarrow> sched \<Rightarrow> time \<Rightarrow> db \<Rightarrow> (job_row \<times> int \<times> int) list" where
  "collect_patrol_stall_candidates_py e sc now s =
     take (sc_patrol_stall_batch_limit sc)
       (sort_key (\<lambda>c. - overdue e c) (List.map_filter (patrol_stall_entry e now (py_patrol_anchor s)) (jobs s)))"

text \<open>
  The PostgreSQL statement.  It has no parsing of its own: a patrol interval that is not the text of an
  integer and an \<open>init\<close> that is not an array make it fail (\<open>None\<close>; of RUNNING jobs only).
\<close>

fun pg_integer :: "json \<Rightarrow> int option option" where
  \<comment> \<open>\<open>CAST(x ->> k AS INTEGER)\<close>\<close>
  "pg_integer JNull = Some None"
| "pg_integer (JInt i) = Some (Some i)"
| "pg_integer (JStr s) = map_option Some (int_of_string s)"
| "pg_integer _ = None"

definition pg_interval :: "json \<Rightarrow> int option option" where
  "pg_interval pipeline =
     pg_integer (jget (obj_or_empty (jget (obj_or_empty (jget (obj_or_empty pipeline) ''lifecycle'')) ''patrol''))
       ''interval_seconds'')"

definition pg_init_count :: "json \<Rightarrow> nat option" where
  "pg_init_count pipeline =
     (case map_of (obj_or_empty (jget (obj_or_empty pipeline) ''lifecycle'')) ''init'' of
        None \<Rightarrow> Some 0 | Some (JList xs) \<Rightarrow> Some (length xs) | Some _ \<Rightarrow> None)"

definition pg_patrol_anchor :: "db \<Rightarrow> job_row \<Rightarrow> time option" where
  "pg_patrol_anchor s j =
     patrol_stall_anchor j
       (case j_last_patrol_heartbeat_at j of
          Some h \<Rightarrow> Some h
        | None \<Rightarrow>
            (case pg_init_count (j_pipeline_def j) of
               None \<Rightarrow> None
             | Some n \<Rightarrow>
                 if n = 0 then j_started_at j
                 else (case completed_init_steps s (j_id j) of
                         None \<Rightarrow> None | Some (m, at) \<Rightarrow> if m \<ge> n then Some at else None)))"

definition pg_patrol_entry :: "env \<Rightarrow> time \<Rightarrow> db \<Rightarrow> job_row \<Rightarrow> (job_row \<times> int \<times> int) option" where
  "pg_patrol_entry e now s j =
     (if j_status j \<noteq> J_RUNNING \<or> \<not> patrols_or_unreported j then None
      else (case (pg_interval (j_pipeline_def j), pg_patrol_anchor s j) of
              (Some (Some interval), Some a) \<Rightarrow>
                if interval > 0 \<and> now - a - interval * e_patrol_stall_multiplier e > 0
                then Some (j, interval, now - a) else None
            | _ \<Rightarrow> None))"

definition pg_readable :: "job_row \<Rightarrow> bool" where
  "pg_readable j \<longleftrightarrow> pg_interval (j_pipeline_def j) \<noteq> None \<and> pg_init_count (j_pipeline_def j) \<noteq> None"

definition build_patrol_stall_candidates_stmt ::
  "env \<Rightarrow> sched \<Rightarrow> time \<Rightarrow> db \<Rightarrow> (job_row \<times> int \<times> int) list option" where
  "build_patrol_stall_candidates_stmt e sc now s =
     (if list_all (\<lambda>j. j_status j = J_RUNNING \<longrightarrow> pg_readable j) (jobs s)
      then Some (take (sc_patrol_stall_batch_limit sc)
             (sort_key (\<lambda>c. - overdue e c) (sort_key (\<lambda>c. j_id (fst c)) (List.map_filter (pg_patrol_entry e now s) (jobs s)))))
      else None)"

definition collect_patrol_stall_candidates ::
  "bool \<Rightarrow> env \<Rightarrow> sched \<Rightarrow> time \<Rightarrow> db \<Rightarrow> (job_row \<times> int \<times> int) list option" where
  "collect_patrol_stall_candidates postgres e sc now s =
     (if postgres then build_patrol_stall_candidates_stmt e sc now s
      else Some (collect_patrol_stall_candidates_py e sc now s))"

definition patrol_stalled :: "env \<Rightarrow> time \<Rightarrow> nat \<Rightarrow> int \<Rightarrow> bool \<Rightarrow> job_row \<Rightarrow> bool" where
  "patrol_stalled e now job_id interval missing j \<longleftrightarrow>
     j_id j = job_id \<and> j_status j = J_RUNNING \<and> patrols_or_unreported j
     \<and> (if missing then j_last_patrol_heartbeat_at j = None
        else (case j_last_patrol_heartbeat_at j of
                None \<Rightarrow> False | Some h \<Rightarrow> h < now - interval * e_patrol_stall_multiplier e))
     \<and> (case j_next_retry_at j of None \<Rightarrow> True | Some r \<Rightarrow> r < now - interval * e_patrol_stall_multiplier e)"

definition mark_patrol_stall ::
  "env \<Rightarrow> job_row \<Rightarrow> time \<Rightarrow> time \<Rightarrow> int \<Rightarrow> int \<Rightarrow> string \<Rightarrow> bool \<Rightarrow> db \<Rightarrow> bool \<times> db" where
  "mark_patrol_stall e job now clk interval age reason missing s =
     unless_disarming e (j_id job) now clk (\<lambda>t.
          set_unknown (patrol_stalled e now (j_id job) interval missing) reason now
            (add_audit ''patrol_stall_detected'' ''job_instance'' (dec (j_id job)) ''system''
              (JObj [(''plan_run_id'', JInt (int (j_plan_run_id job))), (''device_id'', JInt (int (j_device_id job))),
                     (''interval_seconds'', JInt interval), (''age_seconds'', JInt age),
                     (''multiplier'', JInt (e_patrol_stall_multiplier e)), (''pre_heartbeat'', JBool missing)])) t) s"

definition int_text :: "int \<Rightarrow> string" where "int_text i = py_str (JInt i)"

definition patrol_reason :: "env \<Rightarrow> int \<Rightarrow> int \<Rightarrow> string" where
  "patrol_reason e interval age =
     ''patrol_stall: age='' @ int_text age @ ''s > '' @ int_text interval @ ''*'' @ int_text (e_patrol_stall_multiplier e)
     @ ''='' @ int_text (interval * e_patrol_stall_multiplier e) @ ''s''"

definition patrol_step ::
  "env \<Rightarrow> time \<Rightarrow> (nat \<Rightarrow> nat \<Rightarrow> time) \<Rightarrow> job_row \<times> int \<times> int \<Rightarrow> db \<Rightarrow> bool \<times> db" where
  "patrol_step e now clock c s =
     (case c of (job, interval, age) \<Rightarrow>
        if disarm_grace_protects e job (latest_run_context s job) now then (False, s)
        else mark_patrol_stall e job now (clock (j_id job) 1) interval age (patrol_reason e interval age)
               (j_last_patrol_heartbeat_at job = None) s)"

subsection \<open>Jobs without new traces\<close>

definition step_trace_stall_cutoff :: "sched \<Rightarrow> time \<Rightarrow> time option" where
  "step_trace_stall_cutoff sc now = (if sc_step_trace_stall sc \<le> 0 then None else Some (now - sc_step_trace_stall sc))"

definition patrol_liveness_since :: "time \<Rightarrow> job_row \<Rightarrow> bool" where
  "patrol_liveness_since cutoff j \<longleftrightarrow> (case j_last_patrol_heartbeat_at j of None \<Rightarrow> False | Some h \<Rightarrow> h \<ge> cutoff)"

definition last_trace_at :: "db \<Rightarrow> nat \<Rightarrow> time option" where
  "last_trace_at s job_id =
     (case List.map_filter t_original_ts (filter (\<lambda>t. t_job_id t = job_id) (traces s)) of
        [] \<Rightarrow> None | x # xs \<Rightarrow> Some (foldl max x xs))"

definition step_trace_still_stalled :: "db \<Rightarrow> nat \<Rightarrow> time \<Rightarrow> bool" where
  "step_trace_still_stalled s job_id cutoff \<longleftrightarrow>
     (case last_trace_at s job_id of
        None \<Rightarrow> False
      | Some m \<Rightarrow> list_ex (\<lambda>t. t_job_id t = job_id \<and> t_original_ts t = Some m \<and> t_event_type t \<noteq> ''STARTED'' \<and> m < cutoff) (traces s))"

definition trace_stall_entries :: "time \<Rightarrow> db \<Rightarrow> job_row \<Rightarrow> (job_row \<times> time \<times> string) list" where
  \<comment> \<open>one for each trace with the last time stamp\<close>
  "trace_stall_entries cutoff s j =
     (case last_trace_at s (j_id j) of
        None \<Rightarrow> []
      | Some m \<Rightarrow>
          if j_status j = J_RUNNING \<and> m < cutoff \<and> \<not> patrol_liveness_since cutoff j
          then map (\<lambda>t. (j, m, t_event_type t))
                 (filter (\<lambda>t. t_job_id t = j_id j \<and> t_original_ts t = Some m \<and> t_event_type t \<noteq> ''STARTED'') (traces s))
          else [])"

definition collect_step_trace_stall_candidates :: "sched \<Rightarrow> time \<Rightarrow> db \<Rightarrow> (job_row \<times> time \<times> string) list" where
  "collect_step_trace_stall_candidates sc now s =
     (case step_trace_stall_cutoff sc now of
        None \<Rightarrow> []
      | Some cutoff \<Rightarrow>
          take (sc_step_trace_stall_batch_limit sc)
            (sort_key (\<lambda>c. fst (snd c)) (concat (map (trace_stall_entries cutoff s) (jobs s)))))"

definition mark_step_trace_stall ::
  "env \<Rightarrow> sched \<Rightarrow> job_row \<Rightarrow> time \<Rightarrow> time \<Rightarrow> time \<Rightarrow> string \<Rightarrow> string \<Rightarrow> db \<Rightarrow> bool \<times> db" where
  "mark_step_trace_stall e sc job now clk last_ts event_type reason s =
     (case step_trace_stall_cutoff sc now of
        None \<Rightarrow> (False, s)
      | Some cutoff \<Rightarrow>
          unless_disarming e (j_id job) now clk (\<lambda>t.
               set_unknown
                 (\<lambda>j. j_id j = j_id job \<and> j_status j = J_RUNNING \<and> step_trace_still_stalled t (j_id job) cutoff
                    \<and> \<not> patrol_liveness_since cutoff j) reason now
                 (add_audit ''step_trace_stall_detected'' ''job_instance'' (dec (j_id job)) ''system''
                   (JObj [(''plan_run_id'', JInt (int (j_plan_run_id job))), (''device_id'', JInt (int (j_device_id job))),
                          (''last_trace_at'', JTime last_ts), (''last_event_type'', JStr event_type),
                          (''age_seconds'', JInt (now - last_ts)), (''threshold_seconds'', JInt (sc_step_trace_stall sc))])) t) s)"

definition trace_reason :: "sched \<Rightarrow> string \<Rightarrow> int \<Rightarrow> string" where
  "trace_reason sc event_type age =
     ''step_trace_stall: last='' @ event_type @ '' age='' @ int_text age @ ''s > '' @ int_text (sc_step_trace_stall sc) @ ''s''"

definition trace_step ::
  "env \<Rightarrow> sched \<Rightarrow> time \<Rightarrow> (nat \<Rightarrow> nat \<Rightarrow> time) \<Rightarrow> job_row \<times> time \<times> string \<Rightarrow> db \<Rightarrow> bool \<times> db" where
  "trace_step e sc now clock c s =
     (case c of (job, last_ts, event_type) \<Rightarrow>
        if disarm_grace_protects e job (latest_run_context s job) now then (False, s)
        else mark_step_trace_stall e sc job now (clock (j_id job) 1) last_ts event_type
               (trace_reason sc event_type (now - last_ts)) s)"

definition commit_if_hit :: "(bool list \<times> db) \<Rightarrow> db \<Rightarrow> db" where
  \<comment> \<open>without a transition the session is closed with no commit\<close>
  "commit_if_hit r s = (if list_ex id (fst r) then snd r else s)"

subsection \<open>One tick\<close>

text \<open>The batches of the second pass go up in the job ids, so that the loop ends.\<close>

definition silenced :: "job_row \<Rightarrow> job_row \<Rightarrow> bool" where
  \<comment> \<open>a row keeps all but the note in its guard, or goes from RUNNING to UNKNOWN\<close>
  "silenced j j' \<longleftrightarrow> (\<exists>g. j' = j\<lparr>j_disarm_guard := g\<rparr>)
     \<or> j_status j = J_RUNNING \<and> (\<exists>g reason now. j' = unknown_row reason now (j\<lparr>j_disarm_guard := g\<rparr>))"

definition only_silences :: "db \<Rightarrow> db \<Rightarrow> bool" where
  "only_silences s t \<longleftrightarrow>
     leases t = leases s \<and> next_lease_id t = next_lease_id s \<and> devices t = devices s \<and> debts t = debts s
     \<and> hosts t = hosts s \<and> traces t = traces s \<and> runs t = runs s \<and> prhs t = prhs s
     \<and> pending_aggregation t = pending_aggregation s \<and> list_all2 silenced (jobs s) (jobs t)"

lemma silenced_refl [simp]: "silenced j j"
proof -
  have "j = j\<lparr>j_disarm_guard := j_disarm_guard j\<rparr>" by simp
  then show ?thesis unfolding silenced_def by blast
qed

lemma silenced_fields:
  "silenced j j' \<Longrightarrow> j_id j' = j_id j \<and> j_host_id j' = j_host_id j \<and> j_plan_run_id j' = j_plan_run_id j
     \<and> (j_status j' = j_status j \<or> j_status j = J_RUNNING \<and> j_status j' = J_UNKNOWN)"
  by (auto simp: silenced_def unknown_row_def)

lemma silenced_trans:
  assumes "silenced a b" "silenced b c"
  shows "silenced a c"
proof -
  consider g where "b = a\<lparr>j_disarm_guard := g\<rparr>"
    | g r n where "j_status a = J_RUNNING" "b = unknown_row r n (a\<lparr>j_disarm_guard := g\<rparr>)"
    using assms(1) by (auto simp: silenced_def)
  then show ?thesis
  proof cases
    case 1
    with assms(2) show ?thesis by (auto simp: silenced_def)
  next
    case 2
    then have "j_status b \<noteq> J_RUNNING" by (simp add: unknown_row_def)
    with assms(2) obtain g' where "c = b\<lparr>j_disarm_guard := g'\<rparr>" by (auto simp: silenced_def)
    with 2 have "c = unknown_row r n (a\<lparr>j_disarm_guard := g'\<rparr>)" by (simp add: unknown_row_def)
    with 2 show ?thesis by (auto simp: silenced_def)
  qed
qed

lemma only_silences_refl [simp]: "only_silences s s"
  by (simp add: only_silences_def list_all2_same)

lemma only_silences_trans: "only_silences s t \<Longrightarrow> only_silences t u \<Longrightarrow> only_silences s u"
proof -
  assume a: "only_silences s t" "only_silences t u"
  then have "list_all2 silenced (jobs s) (jobs t)" "list_all2 silenced (jobs t) (jobs u)"
    by (simp_all add: only_silences_def)
  from list_all2_trans [OF silenced_trans this] a show ?thesis by (simp add: only_silences_def)
qed

lemma only_silences_ids: "only_silences s t \<Longrightarrow> map j_id (jobs t) = map j_id (jobs s)"
proof -
  have "list_all2 silenced xs ys \<Longrightarrow> map j_id ys = map j_id xs" for xs ys
    by (induction rule: list_all2_induct) (auto dest: silenced_fields)
  then show "only_silences s t \<Longrightarrow> ?thesis" by (simp add: only_silences_def)
qed

lemma guard_silences: "only_silences s (upd_job k (\<lambda>j. j\<lparr>j_disarm_guard := g\<rparr>) s)"
proof -
  have "silenced j (j\<lparr>j_disarm_guard := g\<rparr>)" for j unfolding silenced_def by blast
  then show ?thesis unfolding only_silences_def by (auto simp: upd_job_def intro!: upd_where_all2)
qed

lemma final_blocks_silences: "final_disarm_grace_blocks_write e k now clk s = (b, t) \<Longrightarrow> only_silences s t"
proof -
  have "only_silences s (snd (job_guard_deadline e job n False s))" for job n
    by (auto simp: job_guard_deadline_def guard_silences split: option.splits)
  then show "final_disarm_grace_blocks_write e k now clk s = (b, t) \<Longrightarrow> ?thesis"
    by (auto simp: final_disarm_grace_blocks_write_def Let_def split: option.splits if_splits prod.splits)
      (metis snd_conv)+
qed

lemma audit_silences: "only_silences s t \<Longrightarrow> only_silences s (add_audit a b c d x t)"
  by (simp add: only_silences_def add_audit_def)

lemma set_unknown_silences:
  assumes "set_unknown P reason now (add_audit a b c d x) s = (h, t)" "\<And>j. P j \<Longrightarrow> j_status j = J_RUNNING"
  shows "only_silences s t"
proof -
  have "silenced j (unknown_row reason now j)" if "P j" for j
  proof -
    have "unknown_row reason now j = unknown_row reason now (j\<lparr>j_disarm_guard := j_disarm_guard j\<rparr>)" by simp
    with assms(2) [OF that] show ?thesis unfolding silenced_def by blast
  qed
  then have "only_silences s (s\<lparr>jobs := upd_where P (unknown_row reason now) (jobs s)\<rparr>)"
    unfolding only_silences_def by (auto intro!: upd_where_all2)
  with assms(1) show ?thesis by (auto simp: set_unknown_def audit_silences split: if_splits)
qed

lemma unless_disarming_silences:
  assumes "unless_disarming e k now clk (\<lambda>u. set_unknown (P u) reason n (add_audit a b c d x) u) s = (h, t)"
    and "\<And>u j. P u j \<Longrightarrow> j_status j = J_RUNNING"
  shows "only_silences s t"
proof -
  obtain blocked u where f: "final_disarm_grace_blocks_write e k now clk s = (blocked, u)" by fastforce
  note only_silences_trans [OF final_blocks_silences [OF f] set_unknown_silences]
  with assms f final_blocks_silences [OF f] show ?thesis
    unfolding unless_disarming_def by (cases blocked) auto
qed

lemma mark_running_silences: "mark_running_timeout e job now clk reason c x u s = (h, t) \<Longrightarrow> only_silences s t"
  by (auto simp: mark_running_timeout_def still_silent_def split: if_splits elim!: unless_disarming_silences)

lemma mark_patrol_silences: "mark_patrol_stall e job now clk i a reason m s = (h, t) \<Longrightarrow> only_silences s t"
  by (auto simp: mark_patrol_stall_def patrol_stalled_def elim!: unless_disarming_silences)

lemma mark_trace_silences: "mark_step_trace_stall e sc job now clk l ev reason s = (h, t) \<Longrightarrow> only_silences s t"
  by (auto simp: mark_step_trace_stall_def split: option.splits elim!: unless_disarming_silences)

lemma running_step_silences: "only_silences s (running_step e sc now clock scan job s)"
proof -
  have "only_silences s (snd (mark_running_timeout e j n c r x y z u))" if "only_silences s u" for j n c r x y z u
    using only_silences_trans [OF that mark_running_silences [OF surjective_pairing]] .
  then show ?thesis
    by (auto simp: running_step_def Let_def split: option.splits prod.splits bool.splits
        dest!: final_blocks_silences)
qed

lemma running_for_silences: "only_silences s (fold (running_step e sc now clock scan) js s)"
proof (induction js arbitrary: s)
  case (Cons j js)
  show ?case using only_silences_trans [OF running_step_silences Cons.IH] by simp
qed simp

lemma running_batch_rises:
  assumes b: "running_batch e sc now after s = j # js" and ids: "map j_id (jobs t) = map j_id (jobs s)"
  shows "length (filter (\<lambda>x. j_id (last (j # js)) < j_id x) (jobs t)) < length (filter (\<lambda>x. after < j_id x) (jobs s))"
proof -
  have len: "length (filter (\<lambda>x. n < j_id x) (jobs u)) = length (filter ((<) n) (map j_id (jobs u)))" for n u
    by (simp add: filter_map comp_def)
  have "last (j # js) \<in> set (running_batch e sc now after s)" unfolding b by (rule last_in_set) simp
  then have l: "last (j # js) \<in> set (jobs s)" "after < j_id (last (j # js))"
    by (auto simp: running_batch_def dest: in_set_takeD)
  have z: "list_all2 (\<lambda>x y. j_id (last (j # js)) < j_id y \<longrightarrow> after < j_id x) (jobs s) (jobs s)"
    using l(2) by (auto simp: list_all2_same)
  have "(last (j # js), last (j # js)) \<in> set (zip (jobs s) (jobs s))" using l(1) by (auto simp: zip_same)
  from length_filter_less_all2 [OF z this] l(2) show ?thesis by (simp only: len ids)
qed

function running_pass :: "env \<Rightarrow> sched \<Rightarrow> time \<Rightarrow> (nat \<Rightarrow> nat \<Rightarrow> time) \<Rightarrow> nat \<Rightarrow> db \<Rightarrow> db" where
  "running_pass e sc now clock after s =
     (case running_batch e sc now after s of
        [] \<Rightarrow> s
      | j # js \<Rightarrow> running_pass e sc now clock (j_id (last (j # js)))
                  (fold (running_step e sc now clock s) (j # js) s))"
  by pat_completeness auto
termination
proof (relation "measure (\<lambda>(e, sc, now, clock, after, s). length (filter (\<lambda>x. after < j_id x) (jobs s)))", goal_cases)
  case (2 e sc now clock after s j js)
  let ?t = "fold (running_step e sc now clock s) (j # js) s"
  have "map j_id (jobs ?t) = map j_id (jobs s)" by (rule only_silences_ids [OF running_for_silences])
  from running_batch_rises [OF 2 this] show ?case by simp
qed simp

declare running_pass.simps [simp del]

definition patrol_pass :: "bool \<Rightarrow> env \<Rightarrow> sched \<Rightarrow> time \<Rightarrow> (nat \<Rightarrow> nat \<Rightarrow> time) \<Rightarrow> db \<Rightarrow> db option" where
  \<comment> \<open>\<open>None\<close>: the query raised, and nothing catches it\<close>
  "patrol_pass postgres e sc now clock s =
     map_option (\<lambda>cs. commit_if_hit (run_batch (patrol_step e now clock) (sort_key (\<lambda>c. j_id (fst c)) cs) s) s)
       (collect_patrol_stall_candidates postgres e sc now s)"

definition trace_pass :: "env \<Rightarrow> sched \<Rightarrow> time \<Rightarrow> (nat \<Rightarrow> nat \<Rightarrow> time) \<Rightarrow> db \<Rightarrow> db" where
  "trace_pass e sc now clock s =
     commit_if_hit (run_batch (trace_step e sc now clock)
       (sort_key (\<lambda>c. j_id (fst c)) (collect_step_trace_stall_candidates sc now s)) s) s"

definition recycle_once ::
  "bool \<Rightarrow> env \<Rightarrow> sched \<Rightarrow> (nat \<Rightarrow> bool) \<Rightarrow> (nat \<Rightarrow> bool) \<Rightarrow> time \<Rightarrow> (nat \<Rightarrow> nat \<Rightarrow> time) \<Rightarrow> db \<Rightarrow> db" where
  \<comment> \<open>the passes over jobs\<close>
  "recycle_once postgres e sc f1 f2 now clock s =
     (let s1 = snd (pending_pass e sc f1 f2 now [] s);
          s2 = running_pass e sc now clock 0 s1
      in case patrol_pass postgres e sc now clock s2 of
           None \<Rightarrow> s2
         | Some s3 \<Rightarrow> trace_pass e sc now clock s3)"

subsection \<open>Rows through the passes\<close>

lemma less_pending_row:
  assumes "less_pending s t" "get_job s k = Some j"
  shows "\<exists>j'. get_job t k = Some j' \<and> (j' = j \<or> j_status j = J_PENDING \<and> (\<exists>r n. j' = timed_out_row r n j))"
  unfolding get_job_def
  by (rule first_row_all2 [OF assms(1) [unfolded less_pending_def] _ assms(2) [unfolded get_job_def]])
    (auto simp: timed_out_row_def)

lemma only_silences_row:
  assumes "only_silences s t" "get_job s k = Some j"
  shows "\<exists>j'. get_job t k = Some j' \<and> silenced j j'"
  unfolding get_job_def
  by (rule first_row_all2 [where R = silenced, OF _ _ assms(2) [unfolded get_job_def]])
    (use assms(1) in \<open>auto simp: only_silences_def dest: silenced_fields\<close>)

definition reguarded :: "job_row \<Rightarrow> job_row \<Rightarrow> bool" where
  "reguarded j j' \<longleftrightarrow> (\<exists>g. j' = j\<lparr>j_disarm_guard := g\<rparr>)"

lemma reguarded_refl [simp]: "reguarded j j"
  unfolding reguarded_def by (rule exI [of _ "j_disarm_guard j"]) simp

lemma reguarded_trans: "reguarded a b \<Longrightarrow> reguarded b c \<Longrightarrow> reguarded a c"
  by (auto simp: reguarded_def)

definition guard_only :: "nat \<Rightarrow> db \<Rightarrow> db \<Rightarrow> bool" where
  \<comment> \<open>of job \<open>k\<close> at most the guard changes\<close>
  "guard_only k s t \<longleftrightarrow> only_silences s t
     \<and> (\<forall>j. get_job s k = Some j \<longrightarrow> (\<exists>j'. get_job t k = Some j' \<and> reguarded j j'))"

lemma guard_only_refl [simp]: "guard_only k s s"
  by (simp add: guard_only_def)

lemma guard_only_trans: "guard_only k s t \<Longrightarrow> guard_only k t u \<Longrightarrow> guard_only k s u"
  unfolding guard_only_def using only_silences_trans reguarded_trans by metis

lemma guard_only_same: "only_silences s t \<Longrightarrow> get_job t k = get_job s k \<Longrightarrow> guard_only k s t"
  by (simp add: guard_only_def)

lemma guard_only_upd:
  assumes "only_silences s (upd_job i (\<lambda>j. j\<lparr>j_disarm_guard := g\<rparr>) s)"
  shows "guard_only k s (upd_job i (\<lambda>j. j\<lparr>j_disarm_guard := g\<rparr>) s)"
proof (cases "i = k")
  case True
  then show ?thesis
    using assms get_job_upd_job [of "\<lambda>j. j\<lparr>j_disarm_guard := g\<rparr>" k s] by (auto simp: guard_only_def reguarded_def)
next
  case False
  have "get_job (upd_job i (\<lambda>j. j\<lparr>j_disarm_guard := g\<rparr>) s) k = get_job s k"
    using False by (auto simp: get_job_def upd_job_def intro!: first_row_upd_other)
  then show ?thesis by (rule guard_only_same [OF assms])
qed

lemma final_blocks_guard_only:
  assumes "final_disarm_grace_blocks_write e i now clk s = (b, t)"
  shows "guard_only k s t"
proof -
  have "guard_only k s (snd (job_guard_deadline e job n False s))" for job n
    by (auto simp: job_guard_deadline_def guard_silences intro!: guard_only_upd split: option.splits)
  with assms show ?thesis
    by (auto simp: final_disarm_grace_blocks_write_def Let_def split: option.splits if_splits prod.splits)
      (metis snd_conv)+
qed

lemma set_unknown_other:
  assumes "set_unknown P reason now (add_audit a b c d x) s = (h, t)" "\<And>j. P j \<Longrightarrow> j_status j = J_RUNNING \<and> j_id j \<noteq> k"
  shows "guard_only k s t"
proof (rule guard_only_same)
  show "only_silences s t" using set_unknown_silences [OF assms(1)] assms(2) by blast
  have "get_job (s\<lparr>jobs := upd_where P (unknown_row reason now) (jobs s)\<rparr>) k = get_job s k"
    unfolding get_job_def using assms(2) by (auto simp: first_row_upd_other unknown_row_def)
  with assms(1) show "get_job t k = get_job s k"
    by (auto simp: set_unknown_def add_audit_def get_job_def split: if_splits)
qed

lemma unless_disarming_other:
  assumes "unless_disarming e i now clk (\<lambda>u. set_unknown (P u) reason n (add_audit a b c d x) u) s = (h, t)"
    and "\<And>u j. P u j \<Longrightarrow> j_status j = J_RUNNING \<and> j_id j \<noteq> k"
  shows "guard_only k s t"
proof -
  obtain blocked u where f: "final_disarm_grace_blocks_write e i now clk s = (blocked, u)" by fastforce
  note g = final_blocks_guard_only [OF f, of k]
  show ?thesis
  proof (cases blocked)
    case True
    with assms(1) f g show ?thesis by (simp add: unless_disarming_def)
  next
    case False
    with assms(1) f have "set_unknown (P u) reason n (add_audit a b c d x) u = (h, t)"
      by (simp add: unless_disarming_def)
    from set_unknown_other [OF this assms(2)] show ?thesis by (rule guard_only_trans [OF g])
  qed
qed

subsection \<open>A job that reports\<close>

definition own_clock_fresh :: "env \<Rightarrow> sched \<Rightarrow> time \<Rightarrow> db \<Rightarrow> job_row \<Rightarrow> bool" where
  "own_clock_fresh e sc now s j \<longleftrightarrow>
     (case running_liveness_anchor e sc j (coordinator_heartbeat s j) of (anchor, timeout) \<Rightarrow> anchor \<ge> now - timeout)"

definition reporting :: "env \<Rightarrow> sched \<Rightarrow> time \<Rightarrow> db \<Rightarrow> job_row \<Rightarrow> bool" where
  \<comment> \<open>RUNNING, and none of the three detectors has a case\<close>
  "reporting e sc now s j \<longleftrightarrow>
     j_status j = J_RUNNING \<and> own_clock_fresh e sc now s j
     \<and> patrol_stall_entry e now (py_patrol_anchor s) j = None \<and> pg_patrol_entry e now s j = None
     \<and> (\<forall>cutoff. step_trace_stall_cutoff sc now = Some cutoff \<longrightarrow> trace_stall_entries cutoff s j = [])"

lemma guard_irrelevant [simp]:
  fixes j :: job_row
  shows "running_heartbeat_timeout_seconds e (j\<lparr>j_disarm_guard := g\<rparr>) = running_heartbeat_timeout_seconds e j"
    "not_reported_anchor (j\<lparr>j_disarm_guard := g\<rparr>) = not_reported_anchor j"
    "is_executing (j\<lparr>j_disarm_guard := g\<rparr>) = is_executing j" "waits_idle (j\<lparr>j_disarm_guard := g\<rparr>) = waits_idle j"
    "coord_row (j\<lparr>j_disarm_guard := g\<rparr>) = coord_row j"
    "patrol_base_anchor s (j\<lparr>j_disarm_guard := g\<rparr>) = patrol_base_anchor s j"
    "patrol_stall_anchor (j\<lparr>j_disarm_guard := g\<rparr>) = patrol_stall_anchor j"
    "patrols_or_unreported (j\<lparr>j_disarm_guard := g\<rparr>) = patrols_or_unreported j"
    "patrol_liveness_since c (j\<lparr>j_disarm_guard := g\<rparr>) = patrol_liveness_since c j"
  by (simp_all add: running_heartbeat_timeout_seconds_def not_reported_anchor_def is_executing_def waits_idle_def
      coord_row_def fun_eq_iff patrol_base_anchor_def patrol_stall_anchor_def patrols_or_unreported_def
      patrol_liveness_since_def Let_def cong: option.case_cong)

lemma entries_guard:
  assumes "traces t = traces s"
  shows "py_patrol_anchor t (j\<lparr>j_disarm_guard := g\<rparr>) = py_patrol_anchor s j"
    "pg_patrol_anchor t (j\<lparr>j_disarm_guard := g\<rparr>) = pg_patrol_anchor s j"
    "trace_stall_entries c t (j\<lparr>j_disarm_guard := g\<rparr>) = [] \<longleftrightarrow> trace_stall_entries c s j = []"
proof -
  have c: "completed_init_steps t = completed_init_steps s" "last_trace_at t = last_trace_at s"
    using assms by (simp_all add: fun_eq_iff completed_init_steps_def last_trace_at_def)
  have "patrol_base_anchor t = patrol_base_anchor s" by (rule ext) (unfold patrol_base_anchor_def c(1), rule refl)
  then show "py_patrol_anchor t (j\<lparr>j_disarm_guard := g\<rparr>) = py_patrol_anchor s j" 
    by (simp add: py_patrol_anchor_def cong: option.case_cong)
  show "pg_patrol_anchor t (j\<lparr>j_disarm_guard := g\<rparr>) = pg_patrol_anchor s j" unfolding pg_patrol_anchor_def c(1) by (simp cong: option.case_cong if_cong)
  show "trace_stall_entries c t (j\<lparr>j_disarm_guard := g\<rparr>) = [] \<longleftrightarrow> trace_stall_entries c s j = []"
    using c assms by (simp add: trace_stall_entries_def split: option.splits)
qed

lemma reporting_guard:
  assumes "prhs t = prhs s" "traces t = traces s"
  shows "reporting e sc now t (j\<lparr>j_disarm_guard := g\<rparr>) = reporting e sc now s j"
proof -
  note eg = entries_guard [OF assms(2)]
  have "own_clock_fresh e sc now t (j\<lparr>j_disarm_guard := g\<rparr>) = own_clock_fresh e sc now s j"
    using assms(1) by (simp add: own_clock_fresh_def running_liveness_anchor_def coordinator_heartbeat_def)
  moreover have "patrol_stall_entry e now (py_patrol_anchor t) (j\<lparr>j_disarm_guard := g\<rparr>) = None
      \<longleftrightarrow> patrol_stall_entry e now (py_patrol_anchor s) j = None"
    by (simp add: patrol_stall_entry_def eg split: option.splits)
  moreover have "pg_patrol_entry e now t (j\<lparr>j_disarm_guard := g\<rparr>) = None \<longleftrightarrow> pg_patrol_entry e now s j = None"
    by (simp add: pg_patrol_entry_def eg split: option.splits)
  ultimately show ?thesis by (simp add: reporting_def eg)
qed

definition reports :: "env \<Rightarrow> sched \<Rightarrow> time \<Rightarrow> nat \<Rightarrow> db \<Rightarrow> bool" where
  "reports e sc now k s \<longleftrightarrow> distinct (map j_id (jobs s)) \<and> (\<exists>j. get_job s k = Some j \<and> reporting e sc now s j)"

lemma reports_kept:
  assumes "reports e sc now k s" "guard_only k s t"
  shows "reports e sc now k t"
proof -
  from assms(1) obtain j where j: "get_job s k = Some j" "reporting e sc now s j" by (auto simp: reports_def)
  from assms(2) j(1) obtain g where "get_job t k = Some (j\<lparr>j_disarm_guard := g\<rparr>)"
    by (auto simp: guard_only_def reguarded_def)
  moreover have "prhs t = prhs s" "traces t = traces s" using assms(2) by (simp_all add: guard_only_def only_silences_def)
  ultimately have "\<exists>j'. get_job t k = Some j' \<and> reporting e sc now t j'" using reporting_guard j(2) by blast
  moreover have "distinct (map j_id (jobs t))"
    using assms only_silences_ids [of s t] by (simp add: reports_def guard_only_def)
  ultimately show ?thesis by (simp add: reports_def)
qed

lemma running_step_spares:
  assumes r: "reports e sc now k s" and scan: "prhs scan = prhs s"
  shows "guard_only k s (running_step e sc now clock scan job s)"
proof -
  have mark: "guard_only k s (snd (mark_running_timeout e j now c reason x y z u))"
    if "guard_only k s u" "j_id j \<noteq> k" for j c reason x y z u
  proof -
    obtain h t where m: "mark_running_timeout e j now c reason x y z u = (h, t)" by fastforce
    then have "guard_only k u t"
      using that(2) by (auto simp: mark_running_timeout_def still_silent_def split: if_splits
          elim!: unless_disarming_other)
    with m that(1) show ?thesis by (auto intro: guard_only_trans)
  qed
  have anchor: "now - timeout \<le> a"
    if "get_job s k = Some j" "running_liveness_anchor e sc j (coordinator_heartbeat scan j) = (a, timeout)" for j a timeout
    using r that scan by (auto simp: reports_def reporting_def own_clock_fresh_def coordinator_heartbeat_def)
  show ?thesis
  proof (cases "get_job s (j_id job)")
    case None
    then show ?thesis by (simp add: running_step_def)
  next
    case (Some j)
    then have j: "get_job s (j_id j) = Some j" using get_job_Some [OF Some] by simp
    obtain b t where f: "final_disarm_grace_blocks_write e (j_id j) now (clock (j_id j) 0) s = (b, t)" by fastforce
    obtain a timeout where a: "running_liveness_anchor e sc j (coordinator_heartbeat scan j) = (a, timeout)" by fastforce
    note g = final_blocks_guard_only [OF f, of k]
    have "j_id j \<noteq> k" if "\<not> now - timeout \<le> a" using anchor [OF _ a] j that by auto
    with g show ?thesis
      by (cases b) (auto simp: running_step_def Some f a Let_def intro!: mark [OF g])
  qed
qed

lemma running_for_spares:
  assumes "reports e sc now k s" "prhs scan = prhs s"
  shows "guard_only k s (fold (running_step e sc now clock scan) js s)"
  using assms
proof (induction js arbitrary: s)
  case (Cons j js)
  let ?t = "running_step e sc now clock scan j s"
  have g: "guard_only k s ?t" by (rule running_step_spares [OF Cons.prems])
  then have "prhs ?t = prhs s" by (simp add: guard_only_def only_silences_def)
  with Cons.IH [OF reports_kept [OF Cons.prems(1) g]] Cons.prems(2) guard_only_trans [OF g] show ?case by simp
qed simp

lemma running_pass_silences: "only_silences s (running_pass e sc now clock after s)"
proof (induction e sc now clock after s rule: running_pass.induct)
  case (1 e sc now clock after s)
  show ?case
  proof (cases "running_batch e sc now after s")
    case Nil
    then show ?thesis by (subst running_pass.simps) simp
  next
    case (Cons j js)
    from only_silences_trans [OF running_for_silences 1 [OF Cons]] show ?thesis
      by (subst running_pass.simps) (simp add: Cons)
  qed
qed

lemma running_pass_spares: "reports e sc now k s \<Longrightarrow> guard_only k s (running_pass e sc now clock after s)"
proof (induction e sc now clock after s rule: running_pass.induct)
  case (1 e sc now clock after s)
  show ?case
  proof (cases "running_batch e sc now after s")
    case Nil
    then show ?thesis by (subst running_pass.simps) simp
  next
    case (Cons j js)
    let ?t = "fold (running_step e sc now clock s) (j # js) s"
    have g: "guard_only k s ?t" by (rule running_for_spares [OF 1(2) refl])
    from guard_only_trans [OF g 1(1) [OF Cons reports_kept [OF 1(2) g]]] show ?thesis
      by (subst running_pass.simps) (simp add: Cons)
  qed
qed

lemma reports_row:
  assumes "reports e sc now k s" "j \<in> set (jobs s)" "j_id j = k"
  shows "reporting e sc now s j"
proof -
  from assms(1) obtain x where x: "get_job s k = Some x" "reporting e sc now s x" and d: "distinct (map j_id (jobs s))"
    by (auto simp: reports_def)
  with get_job_Some [OF x(1)] assms(2,3) distinct_map_single [OF d] have "j = x" by auto
  with x(2) show ?thesis by simp
qed

lemma batch_spares:
  assumes "\<And>c u. c \<in> set cs \<Longrightarrow> guard_only k u (snd (step c u))"
  shows "guard_only k s (snd (run_batch step cs s))"
  using assms
proof (induction cs arbitrary: s)
  case (Cons c cs)
  have "guard_only k s (snd (step c s))" using Cons.prems by simp
  moreover have "guard_only k (snd (step c s)) (snd (run_batch step cs (snd (step c s))))" using Cons by simp
  ultimately show ?case by (simp add: split_beta Let_def guard_only_trans)
qed simp

lemma patrol_step_spares:
  assumes "j_id (fst c) \<noteq> k"
  shows "guard_only k s (snd (patrol_step e now clock c s))"
proof -
  obtain job interval age where c: "c = (job, interval, age)" by (cases c) auto
  obtain h t where m: "mark_patrol_stall e job now (clock (j_id job) 1) interval age (patrol_reason e interval age)
      (j_last_patrol_heartbeat_at job = None) s = (h, t)" by fastforce
  then have "guard_only k s t"
    using assms c by (auto simp: mark_patrol_stall_def patrol_stalled_def elim!: unless_disarming_other)
  with m c show ?thesis by (simp add: patrol_step_def)
qed

lemma trace_step_spares:
  assumes "j_id (fst c) \<noteq> k"
  shows "guard_only k s (snd (trace_step e sc now clock c s))"
proof -
  obtain job last_ts ev where c: "c = (job, last_ts, ev)" by (cases c) auto
  obtain h t where m: "mark_step_trace_stall e sc job now (clock (j_id job) 1) last_ts ev
      (trace_reason sc ev (now - last_ts)) s = (h, t)" by fastforce
  then have "guard_only k s t"
    using assms c by (auto simp: mark_step_trace_stall_def split: option.splits elim!: unless_disarming_other)
  with m c show ?thesis by (simp add: trace_step_def)
qed

lemma map_filter_id:
  assumes "c \<in> set (List.map_filter f xs)" "\<And>x c. f x = Some c \<Longrightarrow> fst c = x"
  shows "fst c \<in> set xs \<and> f (fst c) = Some c"
  using assms by (fastforce simp: List.map_filter_def)

lemma patrol_entry_job:
  "patrol_stall_entry e now f x = Some c \<Longrightarrow> fst c = x" "pg_patrol_entry e now s x = Some c \<Longrightarrow> fst c = x"
  by (auto simp: patrol_stall_entry_def pg_patrol_entry_def split: if_splits option.splits)

lemma patrol_candidates_exact:
  assumes "collect_patrol_stall_candidates postgres e sc now s = Some cs" "c \<in> set cs"
  shows "fst c \<in> set (jobs s) \<and> (patrol_stall_entry e now (py_patrol_anchor s) (fst c) \<noteq> None
     \<or> pg_patrol_entry e now s (fst c) \<noteq> None)"
proof -
  consider "c \<in> set (List.map_filter (patrol_stall_entry e now (py_patrol_anchor s)) (jobs s))"
    | "c \<in> set (List.map_filter (pg_patrol_entry e now s) (jobs s))"
    using assms by (auto simp: collect_patrol_stall_candidates_def collect_patrol_stall_candidates_py_def
        build_patrol_stall_candidates_stmt_def split: if_splits dest!: in_set_takeD)
  then show ?thesis
  proof cases
    case 1
    from map_filter_id [OF this patrol_entry_job(1)] show ?thesis by auto
  next
    case 2
    from map_filter_id [OF this patrol_entry_job(2)] show ?thesis by auto
  qed
qed

lemma batch_silences:
  assumes "\<And>c u. only_silences u (snd (step c u))"
  shows "only_silences s (snd (run_batch step cs s))"
proof (induction cs arbitrary: s)
  case (Cons c cs)
  show ?case using only_silences_trans [OF assms Cons.IH] by (simp add: split_beta Let_def)
qed simp

lemma patrol_pass_silences: "patrol_pass postgres e sc now clock s = Some t \<Longrightarrow> only_silences s t"
proof -
  have "only_silences u (snd (patrol_step e now clock c u))" for c u
    using mark_patrol_silences [OF surjective_pairing] by (cases c) (simp add: patrol_step_def)
  from batch_silences [of "patrol_step e now clock", OF this]
  show "patrol_pass postgres e sc now clock s = Some t \<Longrightarrow> ?thesis"
    by (auto simp: patrol_pass_def commit_if_hit_def)
qed

lemma trace_pass_silences: "only_silences s (trace_pass e sc now clock s)"
proof -
  have "only_silences u (snd (trace_step e sc now clock c u))" for c u
    using mark_trace_silences [OF surjective_pairing] by (cases c) (simp add: trace_step_def)
  from batch_silences [of "trace_step e sc now clock", OF this] show ?thesis
    by (auto simp: trace_pass_def commit_if_hit_def)
qed

lemma patrol_pass_spares:
  assumes r: "reports e sc now k s" and p: "patrol_pass postgres e sc now clock s = Some t"
  shows "guard_only k s t"
proof -
  from p obtain cs where cs: "collect_patrol_stall_candidates postgres e sc now s = Some cs"
    and t: "t = commit_if_hit (run_batch (patrol_step e now clock) (sort_key (\<lambda>c. j_id (fst c)) cs) s) s"
    by (auto simp: patrol_pass_def)
  have "j_id (fst c) \<noteq> k" if "c \<in> set cs" for c
    using patrol_candidates_exact [OF cs that] reports_row [OF r, of "fst c"] by (auto simp: reporting_def)
  then have "guard_only k s (snd (run_batch (patrol_step e now clock) (sort_key (\<lambda>c. j_id (fst c)) cs) s))"
    by (intro batch_spares patrol_step_spares) simp
  then show ?thesis by (simp add: t commit_if_hit_def)
qed

lemma trace_pass_spares:
  assumes r: "reports e sc now k s"
  shows "guard_only k s (trace_pass e sc now clock s)"
proof -
  have "j_id (fst c) \<noteq> k" if "c \<in> set (collect_step_trace_stall_candidates sc now s)" for c
  proof -
    from that obtain cutoff j where c: "step_trace_stall_cutoff sc now = Some cutoff" "j \<in> set (jobs s)"
      "c \<in> set (trace_stall_entries cutoff s j)"
      by (cases "step_trace_stall_cutoff sc now")
        (auto simp: collect_step_trace_stall_candidates_def dest!: in_set_takeD)
    then have "fst c = j" by (auto simp: trace_stall_entries_def split: option.splits if_splits)
    with c reports_row [OF r c(2)] show ?thesis by (auto simp: reporting_def)
  qed
  then have "guard_only k s (snd (run_batch (trace_step e sc now clock)
      (sort_key (\<lambda>c. j_id (fst c)) (collect_step_trace_stall_candidates sc now s)) s))"
    by (intro batch_spares trace_step_spares) simp
  then show ?thesis by (simp add: trace_pass_def commit_if_hit_def)
qed

subsection \<open>The first pass\<close>

lemma handle_reports: "prhs (snd (handle_job_lease_release_sync d k job now s)) = prhs s
   \<and> traces (snd (handle_job_lease_release_sync d k job now s)) = traces s"
proof (rule handle_settles [of s d k job now])
  fix s1 assume "returns_only s s1" and h: "handle_job_lease_release_sync d k job now s
     = (if get_device s d = None
        then (\<lparr>lo_released = False, lo_converted_to_debt = False, lo_open_debt_count = 0,
               lo_fencing_token = None\<rparr>, s)
        else settle_lease_sync d k (get_active_lease s1 d) now s1)"
  then have s1: "prhs s1 = prhs s" "traces s1 = traces s" by (simp_all add: returns_only_def)
  have "prhs (snd (settle_lease_sync d k l now s1)) = prhs s1 \<and> traces (snd (settle_lease_sync d k l now s1)) = traces s1" for l
    by (auto simp: settle_lease_sync_def Let_def split_beta release_job_lease_sync_def upd_leases_def
        convert_active_job_to_debt_lease_sync_def acquire_debt_lease_sync_def upd_lease_def
        bump_generation_def upd_device_def insert_lease_def split: option.splits)
  with s1 h show ?thesis by simp
qed

lemma mark_pending_reports:
  "mark_pending_timeout job now reason d s = (b, t) \<Longrightarrow> prhs t = prhs s \<and> traces t = traces s"
  using handle_reports
  by (auto simp: mark_pending_timeout_def Let_def on_job_terminal_sync_def pending_insert_def add_audit_def
      split: if_splits option.splits)

lemma pending_for_reports:
  "pending_for f1 f2 now js skip s = (skip', t) \<Longrightarrow> prhs t = prhs s \<and> traces t = traces s
     \<and> (\<forall>i\<in>set skip'. i \<in> set skip \<or> f1 i \<or> f2 i)"
proof (induction js arbitrary: skip s)
  case (Cons j js)
  obtain b s1 where m: "mark_pending_timeout j now PENDING_REASON True s = (b, s1)" by fastforce
  have audit: "prhs (terminalization_failed j x u) = prhs u \<and> traces (terminalization_failed j x u) = traces u" for x u
    by (simp add: terminalization_failed_def add_audit_def)
  have agg: "prhs (snd (on_job_terminal_sync j1 u)) = prhs u \<and> traces (snd (on_job_terminal_sync j1 u)) = traces u" for u j1
    by (simp add: on_job_terminal_sync_def pending_insert_def)
  show ?case
  proof (cases "f1 (j_id j)")
    case True
    with Cons.prems Cons.IH [of "j_id j # skip" "terminalization_failed j ''recycler_pending_timeout'' s"] audit
    show ?thesis by auto
  next
    case False
    show ?thesis
    proof (cases b)
      case True
      with False Cons.prems m mark_pending_reports [OF m] audit agg show ?thesis by (auto split: if_splits option.splits)
    next
      case no: False
      with False Cons.prems m Cons.IH [of skip s1] mark_pending_reports [OF m] show ?thesis by auto
    qed
  qed
qed simp

lemma pending_pass_facts:
  "pending_pass e sc f1 f2 now skip s = (skip', t) \<Longrightarrow>
     less_pending s t \<and> prhs t = prhs s \<and> traces t = traces s \<and> pending_batch e sc now skip' t = []
     \<and> (\<forall>i\<in>set skip'. i \<in> set skip \<or> f1 i \<or> f2 i)"
proof (induction e sc f1 f2 now skip s arbitrary: skip' t rule: pending_pass.induct)
  case (1 e sc f1 f2 now skip s)
  show ?case
  proof (cases "pending_batch e sc now skip s")
    case Nil
    with 1(2) show ?thesis by (subst (asm) pending_pass.simps) simp
  next
    case (Cons j js)
    obtain sk u where p: "pending_for f1 f2 now (j # js) skip s = (sk, u)" by fastforce
    with 1(2) Cons have "pending_pass e sc f1 f2 now sk u = (skip', t)" by (subst (asm) pending_pass.simps) simp
    from 1(1) [OF Cons p [symmetric] this] pending_for_reports [OF p] pending_for_less [OF p] show ?thesis
      using less_pending_trans [of s u t] by auto
  qed
qed

lemma reports_less_pending:
  assumes "reports e sc now k s" "less_pending s t" "prhs t = prhs s" "traces t = traces s"
  shows "reports e sc now k t \<and> get_job t k = get_job s k"
proof -
  from assms(1) obtain j where j: "get_job s k = Some j" "reporting e sc now s j" by (auto simp: reports_def)
  then have "j_status j \<noteq> J_PENDING" by (simp add: reporting_def)
  with less_pending_row [OF assms(2) j(1)] have "get_job t k = Some j" by auto
  moreover have "reporting e sc now t j"
    using reporting_guard [OF assms(3,4), where j = j and g = "j_disarm_guard j"] j(2) by simp
  ultimately show ?thesis using assms(1) less_pending_ids [OF assms(2)] j(1) by (auto simp: reports_def)
qed

subsection \<open>Properties\<close>


text \<open>
  C25. The first pass drains: after it every job that had timed out unclaimed on an idle host is
  FAILED, or its failure was met and noted; so one broken job cannot hold up the others, nor the
  loop itself.
\<close>

theorem pending_timeouts_drained:
  assumes p: "pending_pass e sc f1 f2 now [] s = (skip, t)" and b: "0 < sc_recycler_batch_size sc"
    and j: "j \<in> set (jobs s)" "pending_candidate e now [] s j"
  shows "(\<exists>j'\<in>set (jobs t). j_id j' = j_id j \<and> j_status j' = J_FAILED)
     \<or> j_id j \<in> set skip \<and> (f1 (j_id j) \<or> f2 (j_id j))"
proof -
  note pf = pending_pass_facts [OF p]
  then have l: "less_pending s t" by blast
  from pf have "sort_key j_id (filter (pending_candidate e now skip t) (jobs t)) = []" using b by (simp add: pending_batch_def)
  then have "set (filter (pending_candidate e now skip t) (jobs t)) = {}" by (metis set_sort set_empty)
  then have none: "\<not> pending_candidate e now skip t x" if "x \<in> set (jobs t)" for x using that by auto
  obtain j' where j': "j' \<in> set (jobs t)" "j' = j \<or> (\<exists>r n. j' = timed_out_row r n j)"
    using l j(1) unfolding less_pending_def list_all2_conv_all_nth in_set_conv_nth by metis
  show ?thesis
  proof (cases "j' = j")
    case True
    with none [OF j'(1)] j(2) less_pending_running [OF l] have "j_id j \<in> set skip" by (auto simp: pending_candidate_def)
    with pf show ?thesis by auto
  next
    case False
    with j' show ?thesis by (auto simp: timed_out_row_def intro!: bexI [of _ j'])
  qed
qed

text \<open>
  The two ways of finding stalled patrols agree: the PostgreSQL statement and the Python loop
  give the same verdict on a job with a well-formed pipeline, as long as its patrol phase has begun or
  it has no retry time.
\<close>

theorem patrol_detectors_agree:
  assumes pipe: "j_pipeline_def j = JObj [(''lifecycle'', JObj [(''init'', JList steps), (''patrol'', JObj [(''interval_seconds'', JInt n)])])]"
    and begun: "patrol_base_anchor s j \<noteq> None \<or> j_next_retry_at j = None"
  shows "pg_patrol_entry e now s j = patrol_stall_entry e now (py_patrol_anchor s) j"
proof -
  have i: "pg_interval (j_pipeline_def j) = Some (Some n)"
    "patrol_interval_seconds (j_pipeline_def j) = (if n > 0 then Some n else None)"
    "pg_init_count (j_pipeline_def j) = Some (length steps)" "init_steps (j_pipeline_def j) = steps"
    by (simp_all add: pipe pg_interval_def patrol_interval_seconds_def lifecycle_patrol_def pg_init_count_def
        init_steps_def jget_Cons)
  have "pg_patrol_anchor s j = patrol_stall_anchor j (patrol_base_anchor s j)"
    by (auto simp: pg_patrol_anchor_def patrol_base_anchor_def i split: option.splits)
  then have "pg_patrol_anchor s j = py_patrol_anchor s j"
    using begun by (auto simp: py_patrol_anchor_def patrol_stall_anchor_def split: option.splits)
  then show ?thesis
    by (auto simp: pg_patrol_entry_def patrol_stall_entry_def i split: option.splits)
qed

subsection \<open>Concrete ticks\<close>

definition sample_sched :: sched where
  "sample_sched = \<lparr>sc_recycler_batch_size = 2, sc_coordinator_heartbeat_timeout = 300,
     sc_patrol_stall_batch_limit = 100, sc_step_trace_stall_batch_limit = 100, sc_step_trace_stall = 3600\<rparr>"

definition executing_db :: db where
  \<comment> \<open>job 7 executes and its last heartbeat was at 4000\<close>
  "executing_db = upd_job 7 (\<lambda>j. j\<lparr>j_execution_state := Some ''EXECUTING_STEP'',
     j_last_execution_heartbeat_at := Some 4000\<rparr>) claimed_db"


definition unclaimed_db :: db where
  \<comment> \<open>jobs 7, 8 and 9 were never claimed\<close>
  "unclaimed_db = claim_db\<lparr>jobs := map (\<lambda>i. sample_job\<lparr>j_id := i\<rparr>) [7, 8, 9]\<rparr>"

lemma pending_timeouts_drained_witness:
  "map j_status (jobs (snd (pending_pass default_env sample_sched (\<lambda>i. i = 8) (\<lambda>i. False) 500 [] unclaimed_db)))
     = [J_FAILED, J_PENDING, J_FAILED]
   \<and> (\<exists>j\<in>set (jobs (snd (pending_pass default_env sample_sched (\<lambda>i. i = 8) (\<lambda>i. False) 500 [] unclaimed_db))).
        j_id j = 9 \<and> j_status j = J_FAILED)"
proof
  let ?p = "pending_pass default_env sample_sched (\<lambda>i. i = 8) (\<lambda>i. False) 500 [] unclaimed_db"
  show "map j_status (jobs (snd ?p)) = [J_FAILED, J_PENDING, J_FAILED]" by code_simp
  obtain skip t where p: "?p = (skip, t)" by fastforce
  have j: "sample_job\<lparr>j_id := 9\<rparr> \<in> set (jobs unclaimed_db)" by (simp add: unclaimed_db_def)
  have c: "pending_candidate default_env 500 [] unclaimed_db (sample_job\<lparr>j_id := 9\<rparr>)" by code_simp
  have b: "0 < sc_recycler_batch_size sample_sched" by (simp add: sample_sched_def)
  from pending_timeouts_drained [OF p b j c] p show "\<exists>j\<in>set (jobs (snd ?p)). j_id j = 9 \<and> j_status j = J_FAILED"
    by simp
qed

definition patrol_job :: job_row where
  "patrol_job = sample_job\<lparr>j_status := J_RUNNING, j_last_patrol_heartbeat_at := Some 100,
     j_pipeline_def := JObj [(''lifecycle'', JObj [(''init'', JList []), (''patrol'', JObj [(''interval_seconds'', JInt 60)])])]\<rparr>"

lemma patrol_detectors_agree_witness:
  "pg_patrol_entry default_env 500 sample_db patrol_job = Some (patrol_job, 60, 400)
   \<and> patrol_stall_entry default_env 500 (py_patrol_anchor sample_db) patrol_job = Some (patrol_job, 60, 400)"
proof
  show pg: "pg_patrol_entry default_env 500 sample_db patrol_job = Some (patrol_job, 60, 400)" by code_simp
  have "patrol_base_anchor sample_db patrol_job \<noteq> None \<or> j_next_retry_at patrol_job = None" by code_simp
  with patrol_detectors_agree [of patrol_job "[]" 60 sample_db default_env 500] pg
  show "patrol_stall_entry default_env 500 (py_patrol_anchor sample_db) patrol_job = Some (patrol_job, 60, 400)"
    by (simp add: patrol_job_def)
qed

text \<open>
  Outside that premise they differ: while the init steps are not done, the statement takes a retry
  time as the anchor, the Python loop has none.
\<close>

lemma patrol_detectors_differ:
  "let j = patrol_job\<lparr>j_last_patrol_heartbeat_at := None, j_next_retry_at := Some 100,
       j_pipeline_def := JObj [(''lifecycle'', JObj [(''init'', JList [JObj []]),
         (''patrol'', JObj [(''interval_seconds'', JInt 60)])])]\<rparr>
   in pg_patrol_entry default_env 500 sample_db j \<noteq> None
      \<and> patrol_stall_entry default_env 500 (py_patrol_anchor sample_db) j = None"
  by code_simp
end
