(* ===== verification/Platform_System.thy ===== *)
theory Platform_System
  imports Recycler
begin

section \<open>The control plane as a transition system\<close>

text \<open>
  The modelled services that write leases, jobs or debts, as one step relation over the database: in
  any order, with any inputs, clocks and unlocked reads.  What each keeps on its own holds for every
  run (locale \<open>fenced_system\<close>, interpreted on the relation), and each device refines an abstract lock.
\<close>

inductive service_step :: "env \<Rightarrow> db \<Rightarrow> db \<Rightarrow> bool" for e s where
  claim: "claim_agent_jobs v h cap a ver locked now s = (r, t) \<Longrightarrow> service_step e s t"
| complete: "complete_agent_job e k p now s = (r, t) \<Longrightarrow> service_step e s t"
| recover: "sync_agent_recovery e rp now s = (r, t) \<Longrightarrow> service_step e s t"
| renew: "extend_agent_leases_batch e xp now js ls s = Inr (r, t) \<Longrightarrow> service_step e s t"
| renew_one: "extend_agent_job_lock e k token now s = Inr (x, t) \<Longrightarrow> service_step e s t"
| report: "job_report now s claims accepted t \<Longrightarrow> service_step e s t"
| coordinate: "record_agent_coordinator_heartbeat e cp now s = (r, t) \<Longrightarrow> service_step e s t"
| reconcile: "0 \<le> e_unknown_grace e \<Longrightarrow> service_step e s (snd (device_lease_reconcile_once e batch now budget s))"
| emergency: "release_terminal_job_lease d l reason user now snap s = (r, t) \<Longrightarrow> service_step e s t"
| discharge: "service_step e s (snd (apply_discharge_sync e d token frs now s))"
| override: "service_step e s (snd (apply_override_sync d fs reason ev now s))"
| late: "service_step e s (snd (apply_late_confirmed d k token fams now s))"
| init_check: "apply_init_check_sync e k token frs now s = (r, t) \<Longrightarrow> service_step e s t"
| init_return: "init_device_return_sync d dry now s = Some (r, t) \<Longrightarrow> service_step e s t"
| retire: "service_step e s (snd (release_debt_lease_for_retirement_sync d now s))"
| unretire: "service_step e s (snd (restore_debt_lease_on_unretire_sync d now s))"
| maintain: "service_step e s (snd (acquire_maintenance_window raw h holder ttl now s))"
| unmaintain: "service_step e s (release_maintenance_window h holder s)"
| enqueue: "service_step e s (snd (on_job_terminal job s))"
| abort_begin: "abort_begin e q now s = (res, t) \<Longrightarrow> service_step e s t"
| abort_finish: "abort_marked (aq_run q) s \<Longrightarrow> abort_finish q pend reqs now s = (res, t) \<Longrightarrow> service_step e s t"
| recycle: "service_step e s (recycle_once postgres e sc f1 f2 now clock s)"
| unclaimed: "mark_pending_timeout job now reason defer s = (b, t) \<Longrightarrow> service_step e s t"
| silent: "mark_running_timeout e job now clk reason cd xd un s = (b, t) \<Longrightarrow> service_step e s t"
| patrol: "mark_patrol_stall e job now clk interval age reason missing s = (b, t) \<Longrightarrow> service_step e s t"
| trace: "mark_step_trace_stall e sc job now clk ts ev reason s = (b, t) \<Longrightarrow> service_step e s t"

subsection \<open>Every service keeps the invariant, the fencing order and finished jobs\<close>

definition service_wf :: "db \<Rightarrow> bool" where
  \<comment> \<open>the lease invariant and the primary key of the jobs\<close>
  "service_wf s \<longleftrightarrow> lease_wf s \<and> distinct (map j_id (jobs s))"

definition serviced :: "db \<Rightarrow> db \<Rightarrow> bool" where
  "serviced s t \<longleftrightarrow> lease_wf t \<and> fence_step s t \<and> final_kept s t"

lemma serviced_refl: "lease_wf s \<Longrightarrow> serviced s s"
  by (simp add: serviced_def final_same)

lemma serviced_trans: "serviced s t \<Longrightarrow> serviced t u \<Longrightarrow> serviced s u"
  unfolding serviced_def using fence_trans final_trans by blast

lemma serviced_wf: "service_wf s \<Longrightarrow> serviced s t \<Longrightarrow> service_wf t"
  by (simp add: service_wf_def serviced_def final_kept_def)

lemma serviced_same: "lease_wf s \<Longrightarrow> same_leases s t \<Longrightarrow> final_kept s t \<Longrightarrow> serviced s t"
  by (simp add: serviced_def same_leases_wf same_leases_fence)

lemma serviced_jobs: "lease_wf t \<Longrightarrow> fence_step s t \<Longrightarrow> jobs t = jobs s \<Longrightarrow> serviced s t"
  by (simp add: serviced_def final_same)

lemma statuses_final: "job_statuses t = job_statuses s \<Longrightarrow> final_kept s t"
proof -
  assume st: "job_statuses t = job_statuses s"
  then have "map fst (job_statuses t) = map fst (job_statuses s)" by simp
  then have "map j_id (jobs t) = map j_id (jobs s)" by (simp add: job_statuses_def comp_def)
  moreover have "map_option j_status (get_job t k) = map_option j_status (get_job s k)" for k
    using st first_row_map_pairs [of j_id j_status "jobs t" "jobs s" k] by (simp add: job_statuses_def get_job_def)
  then have "\<exists>j'. get_job t k = Some j' \<and> j_status j' = j_status j" if "get_job s k = Some j" for k j
    using that by (metis map_option_eq_Some)
  ultimately show ?thesis by (simp add: final_kept_def)
qed

text \<open>Only the rows of some jobs are written, and those were not finished.\<close>

definition writes_jobs :: "nat set \<Rightarrow> db \<Rightarrow> db \<Rightarrow> bool" where
  "writes_jobs K s t \<longleftrightarrow> map j_id (jobs t) = map j_id (jobs s) \<and> (\<forall>i. i \<notin> K \<longrightarrow> get_job t i = get_job s i)"

lemma writes_same: "jobs t = jobs s \<Longrightarrow> writes_jobs K s t"
  by (simp add: writes_jobs_def get_job_def)

lemma writes_trans: "writes_jobs K s t \<Longrightarrow> writes_jobs K t u \<Longrightarrow> writes_jobs K s u"
  by (simp add: writes_jobs_def)

lemma writes_upd_job:
  assumes "j_id y = k"
  shows "writes_jobs {k} s (upd_job k (\<lambda>j. y) s)"
proof -
  have "first_row (filter (\<lambda>j. j_id j = i) (upd_where (\<lambda>j. j_id j = k) (\<lambda>j. y) t))
      = first_row (filter (\<lambda>j. j_id j = i) t)" if "i \<noteq> k" for i t
    using assms that by (induction t) (auto simp: upd_where_Cons)
  with assms show ?thesis
    by (auto simp: writes_jobs_def get_job_def upd_job_def intro!: map_upd_where)
qed

lemma writes_mono: "writes_jobs K s t \<Longrightarrow> K \<subseteq> L \<Longrightarrow> writes_jobs L s t"
  by (auto simp: writes_jobs_def)

lemma writes_final:
  assumes "writes_jobs K s t" "\<And>k j. k \<in> K \<Longrightarrow> get_job s k = Some j \<Longrightarrow> \<not> terminal_status (j_status j)"
  shows "final_kept s t"
  unfolding final_kept_def
proof (intro conjI allI impI)
  fix k j assume j: "get_job s k = Some j \<and> terminal_status (j_status j)"
  with assms(2) have "k \<notin> K" by blast
  with assms(1) j show "\<exists>j'. get_job t k = Some j' \<and> j_status j' = j_status j" by (simp add: writes_jobs_def)
qed (use assms(1) in \<open>simp add: writes_jobs_def\<close>)

subsection \<open>The claim\<close>

lemma acquire_lease_jobs: "acquire_lease s d h lt ag job reason holder secs now = Inr (r, t) \<Longrightarrow> jobs t = jobs s"
  by (auto simp: acquire_lease_def Let_def flush_lease_def insert_lease_def bump_generation_def upd_device_def
      split: if_splits option.splits)

lemma claim_one_writes: "writes_jobs {j_id job} (snd acc) (snd (claim_one h a now job acc))"
proof -
  obtain cs s where acc: "acc = (cs, s)" by (cases acc)
  show ?thesis
    using claim_one_cases [of h a now job cs s]
  proof cases
    case skipped
    then show ?thesis by (simp add: acc writes_same)
  next
    case (claimed j2 l s2)
    from acquire_lease_jobs [OF claimed(8)] have "writes_jobs {j_id job} (upd_job (j_id job) (\<lambda>j. j2) s) s2"
      by (simp add: writes_same)
    with writes_trans [OF writes_upd_job [OF claimed(4)]] claimed(9) show ?thesis by (simp add: acc)
  qed
qed

lemma claim_fold_writes: "writes_jobs (j_id ` set js) (snd acc) (snd (fold (claim_one h a now) js acc))"
proof (induction js arbitrary: acc)
  case Nil
  show ?case by (simp add: writes_same)
next
  case (Cons j js)
  have "writes_jobs (j_id ` set (j # js)) (snd acc) (snd (claim_one h a now j acc))"
    by (rule writes_mono [OF claim_one_writes]) simp
  moreover have "writes_jobs (j_id ` set (j # js)) (snd (claim_one h a now j acc))
      (snd (fold (claim_one h a now) js (claim_one h a now j acc)))"
    by (rule writes_mono [OF Cons.IH]) auto
  ultimately show ?case using writes_trans by (simp add: comp_def)
qed

lemma claim_keeps:
  assumes wf: "service_wf s" and c: "claim_agent_jobs v h cap a ver locked now s = (r, t)"
  shows "serviced s t"
proof -
  let ?acc = "(\<lparr>cl_claimed = [], cl_devices = []\<rparr>, s)"
  let ?f = "\<lambda>js. snd (fold (claim_one h a now) js ?acc)"
  have lwf: "lease_wf s" and ids: "distinct (map j_id (jobs s))" using wf by (simp_all add: service_wf_def)
  have "claim_inv h a ?acc" using lwf by (simp add: claim_inv_def)
  from claim_fold_inv [OF this, of now] have i: "lease_wf (?f js) \<and> fence_step s (?f js)" for js
    by (simp add: claim_inv_def)
  have pend: "serviced s (?f (pending_jobs_for_claim s free n locked))" for free n
  proof -
    let ?p = "pending_jobs_for_claim s free n locked"
    have "writes_jobs (j_id ` set ?p) s (?f ?p)" using claim_fold_writes [of ?p ?acc] by simp
    moreover have "\<not> terminal_status (j_status j)" if "k \<in> j_id ` set ?p" "get_job s k = Some j" for k j
    proof -
      from that(1) obtain x where x: "x \<in> set ?p" "j_id x = k" by auto
      from pending_for_claim [OF x(1)] have "x \<in> set (jobs s)" "j_status x = J_PENDING" by simp_all
      moreover from this(1) have "j = x" using distinct_map_single [OF ids] get_job_Some [OF that(2)] x(2) by blast
      ultimately show ?thesis by (simp add: terminal_status_def TERMINAL_JOB_STATUSES_def)
    qed
    ultimately show ?thesis using i [of ?p] writes_final by (auto simp: serviced_def)
  qed
  obtain cs u where u: "claim_jobs_for_host h cap a locked now s = (cs, u)" by (metis surj_pair)
  have "serviced s u"
    using u pend serviced_refl [OF lwf] by (auto simp: claim_jobs_for_host_def Let_def split_beta split: if_splits)
  with c u serviced_refl [OF lwf] show ?thesis by (auto simp: claim_agent_jobs_def Let_def split: if_splits)
qed

subsection \<open>The completion\<close>

lemma resume_jobs: "jobs (snd (resume_expired_lease_for_recovery e l job a now g s)) = jobs s"
  by (auto simp: resume_expired_lease_for_recovery_def Let_def upd_lease_def split: option.splits)

lemma late_recovery_writes:
  assumes r: "late_recovery e p job now s = Inr (job1, restored, s1)"
  shows "writes_jobs {j_id job} s s1"
proof (cases restored)
  case None
  with r have "s1 = s"
    by (auto simp: late_recovery_def split: if_splits option.splits sum.splits bool.splits prod.splits
        dest: resume_none)
  then show ?thesis by (simp add: writes_same)
next
  case (Some l)
  with r obtain cand s0 where
    re: "resume_expired_lease_for_recovery e cand job (l_agent_instance_id cand) now 300 s = (Some l, s0)"
    and tr: "job_transition job J_RUNNING ''late_completion_recovery'' now = Inr job1"
    and s1: "s1 = upd_job (j_id job) (\<lambda>j. job1) s0"
    by (auto simp: late_recovery_def split: if_splits option.splits sum.splits bool.splits prod.splits)
  have "jobs s0 = jobs s" using resume_jobs [of e cand job "l_agent_instance_id cand" now 300 s] re by simp
  moreover have "j_id job1 = j_id job" using job_transition_fields [OF tr] by simp
  ultimately show ?thesis unfolding s1 by (intro writes_trans [OF writes_same writes_upd_job])
qed

lemma settle_completion_jobs: "jobs (settle_completion from job dg now s) = jobs s"
  by (simp add: settle_completion_def split_beta handle_async_sync handle_jobs audit_job_def add_audit_def)

lemma finish_completion_writes:
  assumes "finish_completion e p from job dg now s = (Inr ans, t)"
  shows "writes_jobs {j_id job} s t"
proof -
  let ?u = "complete_trace p job dg now (upd_job (j_id job) (\<lambda>j. job) s)"
  from assms obtain j2 rep der results s2 j3 where v: "verify_job_results e j2 rep der True ?u = Some (results, s2)"
    and t: "t = settle_completion from j3 dg now (upd_job (j_id job) (\<lambda>j. j3) s2)"
    and j3: "j3 = (if results = [] then j2 else apply_disarm_results results j2)" and j2: "j_id j2 = j_id job"
    by (auto simp: finish_completion_def Let_def split: option.splits prod.splits)
  from v obtain dev where "verify_loop e dev j2 der True rep der ?u = (results, s2)"
    by (auto simp: verify_job_results_def split: option.splits)
  with jobs_returns_only [OF audits_only_returns [OF audits_only_verify [of ?u e dev j2 der True rep der]]]
  have "jobs s2 = jobs ?u" by simp
  then have "writes_jobs {j_id job} ?u s2" by (rule writes_same)
  moreover have "writes_jobs {j_id job} s ?u"
    using writes_upd_job [of job "j_id job" s] by (simp add: writes_jobs_def get_job_def)
  moreover have "writes_jobs {j_id job} s2 t"
    using writes_upd_job [of j3 "j_id job" s2] j2 j3
    by (simp add: t writes_jobs_def get_job_def settle_completion_jobs)
  ultimately show ?thesis by (blast intro: writes_trans)
qed

lemma first_report_writes:
  assumes "first_report e p target job now s = (r, t)"
  shows "t = s \<or> writes_jobs {j_id job} s t"
proof (cases r)
  case (Inl err)
  with assms show ?thesis by (auto simp: first_report_def split: sum.splits option.splits prod.splits)
next
  case (Inr ans)
  from assms [unfolded Inr] obtain job1 restored s1 job2 reason where
    l: "late_recovery e p job now s = Inr (job1, restored, s1)"
    and tr: "job_transition job1 target reason now = Inr job2"
    and f: "finish_completion e p (j_status job1) job2 (payload_digest e p) now s1 = (Inr ans, t)"
    by (auto simp: first_report_def split: sum.splits option.splits prod.splits)
  have "j_id job1 = j_id job"
    using l by (auto simp: late_recovery_def dest: job_transition_fields
        split: if_splits option.splits sum.splits bool.splits prod.splits)
  moreover have "j_id job2 = j_id job1" using job_transition_fields [OF tr] by simp
  ultimately show ?thesis using writes_trans [OF late_recovery_writes [OF l]] finish_completion_writes [OF f] by simp
qed

lemma complete_keeps:
  assumes wf: "lease_wf s" and c: "complete_agent_job e k p now s = (r, t)"
  shows "serviced s t"
proof (cases "get_job s k")
  case None
  with c serviced_refl [OF wf] show ?thesis by (auto simp: complete_agent_job_def split: option.splits)
next
  case j: (Some job)
  show ?thesis
  proof (cases "completion_target p")
    case None
    with c j serviced_refl [OF wf] show ?thesis by (auto simp: complete_agent_job_def)
  next
    case target: (Some target)
    show ?thesis
    proof (cases "terminal_status (j_status job)")
      case True
      with c j target have "t = snd (replayed_report e p job now s)" by (simp add: complete_agent_job_def)
      with replayed_keeps [OF wf, of e p job now] show ?thesis by (simp add: serviced_jobs)
    next
      case False
      with c j target have f: "first_report e p target job now s = (r, t)" by (simp add: complete_agent_job_def)
      have g: "get_job s (j_id job) = Some job" using j get_job_Some [OF j] by simp
      from first_report_facts [OF wf g completion_target_terminal [OF target] f]
      have k: "lease_wf t" "fence_step s t" by blast+
      have "t = s \<or> final_kept s t"
        using first_report_writes [OF f] writes_final [of "{j_id job}" s t] g False by auto
      with k serviced_refl [OF wf] show ?thesis by (auto simp: serviced_def)
    qed
  qed
qed

subsection \<open>The recovery\<close>

lemma recover_keeps:
  assumes wf: "lease_wf s" and h: "sync_agent_recovery e p now s = (r, t)"
  shows "serviced s t"
proof -
  have "final_kept s t"
    using h
  proof (cases rule: sync_run)
    case early
    then show ?thesis by (simp add: final_same)
  next
    case (ran host rs actions)
    let ?u = "upd_host (ri_host_id p) (take_identity p) s"
    have "final_kept s ?u" by (rule final_same) (simp add: upd_host_def)
    moreover have "lease_wf ?u" using wf by simp
    from recovery.batch_rel [OF this] ran(3) have "final_kept ?u t"
      by (metis recovery_step_def jobs_kept_def snd_conv)
    ultimately show ?thesis by (rule final_trans)
  qed
  with sync_wf [OF wf h] show ?thesis by (simp add: serviced_def)
qed

subsection \<open>Renewals and reports\<close>

lemma renew_keeps:
  assumes wf: "lease_wf s" and r: "extend_agent_leases_batch e p now js ls s = Inr (rs, t)"
  shows "serviced s t"
  using r
proof (rule batch_run)
  fix renewed pairs
  let ?u = "upd_leases (owned_lease pairs (xb_host_id p) (xb_agent_instance_id p) now s)
     (\<lambda>l. l\<lparr>l_renewed_at := now, l_expires_at := now + e_device_lock_lease e\<rparr>) s"
  assume t: "same_leases ?u t" and st: "job_statuses t = job_statuses s"
  have "lease_wf ?u" by (rule touch_wf [OF _ wf]) simp
  moreover have "fence_step s ?u" by (rule touch_fence) simp
  ultimately show ?thesis
    using same_leases_wf [OF t] fence_trans [OF _ same_leases_fence [OF t]] statuses_final [OF st]
    by (simp add: serviced_def)
qed

lemma renew_one_keeps:
  assumes wf: "lease_wf s" and r: "extend_agent_job_lock e k token now s = Inr (x, t)"
  shows "serviced s t"
proof -
  from r obtain d u where u: "extend_lease s d k LT_JOB (e_device_lock_lease e) now = (True, u)"
    "t = upd_job k (\<lambda>j. j\<lparr>j_updated_at := now\<rparr>) u"
    by (auto simp: extend_agent_job_lock_def split: option.splits prod.splits bool.splits)
  have "lease_wf u" "fence_step s u"
    using extend_lease_wf [OF wf, of d k LT_JOB "e_device_lock_lease e" now]
      extend_lease_fence [of s d k LT_JOB "e_device_lock_lease e" now] u(1) by simp_all
  moreover have "jobs u = jobs s"
    using u(1) by (auto simp: extend_lease_def update_leases_def upd_leases_def)
  moreover have "job_statuses t = job_statuses u" unfolding u(2) by (rule job_statuses_upd_job) simp
  ultimately show ?thesis
    using fence_trans [OF _ same_leases_fence] statuses_final [of t s]
    by (simp add: u(2) serviced_def job_statuses_def)
qed

lemma reports_only_keeps: "lease_wf s \<Longrightarrow> reports_only s t \<Longrightarrow> serviced s t"
  by (simp add: reports_only_def serviced_same statuses_final)

lemma report_keeps: "lease_wf s \<Longrightarrow> job_report now s claims accepted t \<Longrightarrow> serviced s t"
  by (drule job_report_keeps) (auto split: if_splits intro: reports_only_keeps serviced_refl)

subsection \<open>The reconciler and the emergency release\<close>

lemma job_move_final: "job_move e now j j' \<Longrightarrow> terminal_status (j_status j) \<Longrightarrow> j_status j' = j_status j"
  by (auto simp: job_move_def grace_expired_def terminal_status_def TERMINAL_JOB_STATUSES_def)

lemma moves_final: "moves e now s t \<Longrightarrow> final_kept s t"
  unfolding moves_def final_kept_def using job_move_final by metis

lemma reconcile_once_keeps:
  assumes g: "0 \<le> e_unknown_grace e" and wf: "lease_wf s"
  shows "serviced s (snd (device_lease_reconcile_once e batch now budget s))"
proof -
  have one: "serviced u (reconcile_checks e batch now u)" if "lease_wf u" for u
    using checks_safe [OF that g, of now batch] moves_final
    by (auto simp: safe_but_def reconciled_def serviced_def)
  have "serviced u (snd (drain_remaining_rounds e batch now budget prev u))" if "lease_wf u" for prev u
    using that
  proof (induction budget arbitrary: prev u)
    case 0
    then show ?case by (simp add: serviced_refl)
  next
    case (Suc budget)
    note o = one [OF Suc.prems]
    then have "lease_wf (reconcile_checks e batch now u)" by (simp add: serviced_def)
    note ih = Suc.IH [OF this]
    from serviced_trans [OF o ih] o serviced_refl [OF Suc.prems] show ?case
      by (simp add: Let_def split_beta)
  qed
  note drain = this
  note o = one [OF wf]
  then have "lease_wf (reconcile_checks e batch now s)" by (simp add: serviced_def)
  from serviced_trans [OF o drain [OF this]] o show ?thesis
    by (simp add: device_lease_reconcile_once_def Let_def split_beta)
qed

lemma emergency_keeps:
  assumes wf: "lease_wf s" and r: "release_terminal_job_lease d i reason user now snap s = (res, t)"
  shows "serviced s t"
proof -
  from r consider "t = s" | j x a b c f g where
      "t = add_audit a b c f g (snd (handle_job_lease_release_sync d j x now s))"
    by (auto simp: release_terminal_job_lease_def Let_def split_beta split: option.splits if_splits)
  then show ?thesis
  proof cases
    case 2
    let ?h = "snd (handle_job_lease_release_sync d j x now s)"
    have "serviced s ?h" using handle_wf [OF wf] handle_fence [OF wf] handle_jobs by (simp add: serviced_jobs)
    moreover from this have "serviced ?h t"
      unfolding 2 by (intro serviced_same final_same) (simp_all add: serviced_def add_audit_def same_leases_def)
    ultimately show ?thesis by (rule serviced_trans)
  qed (simp add: wf serviced_refl)
qed

subsection \<open>The entries that close debts and those that open them\<close>

lemma returns_only_keeps: "lease_wf s \<Longrightarrow> returns_only s t \<Longrightarrow> serviced s t"
  using jobs_returns_only returns_only_same by (simp add: serviced_same final_same)

lemma discharge_keeps: "lease_wf s \<Longrightarrow> serviced s (snd (apply_discharge_sync e d token frs now s))"
proof -
  assume wf: "lease_wf s"
  have "jobs (snd (apply_discharge_sync e d token frs now s)) = jobs s"
    using jobs_returns_only [OF discharging.close_returns]
    by (simp add: discharge_state Let_def split: option.splits)
  with discharge_wf [OF wf] discharge_fence show ?thesis by (simp add: serviced_jobs)
qed

lemma override_keeps_all: "lease_wf s \<Longrightarrow> serviced s (snd (apply_override_sync d fs reason ev now s))"
  using jobs_returns_only [OF overriding.close_returns]
  by (simp add: override_state closing_facts serviced_jobs)

lemma late_keeps_all: "lease_wf s \<Longrightarrow> serviced s (snd (apply_late_confirmed d k token fams now s))"
  using jobs_returns_only [OF confirming.close_returns]
  by (simp add: late_async_sync late_state closing_facts serviced_jobs)

lemma init_check_keeps:
  assumes wf: "lease_wf s" and r: "apply_init_check_sync e k token frs now s = (r, t)"
  shows "serviced s t"
proof -
  have "returns_only s t"
    using r by (auto simp: apply_init_check_sync_def Let_def split: option.splits if_splits
        dest: init_loop_keeps(1) intro: returns_only_trans)
  with wf show ?thesis by (rule returns_only_keeps)
qed

lemma acquire_debt_keeps: "lease_wf s \<Longrightarrow> serviced s (snd (acquire_debt_lease_sync d now s))"
proof -
  assume wf: "lease_wf s"
  have "jobs (snd (acquire_debt_lease_sync d now s)) = jobs s"
    by (auto simp: acquire_debt_lease_sync_def Let_def insert_lease_def bump_generation_def upd_device_def
        split: option.splits)
  with acquire_debt_wf [OF wf] acquire_debt_fence show ?thesis by (simp add: serviced_jobs)
qed

lemma init_family_returns: "init_family d dry now f (it, s) = Some (it', t) \<Longrightarrow> returns_only s t"
  by (auto simp: init_family_def Let_def split: json.splits if_splits option.splits dest: returns_only_upsert)

lemma init_families_returns: "init_families d dry now fs (it, s) = Some (it', t) \<Longrightarrow> returns_only s t"
proof (induction fs arbitrary: it s)
  case (Cons f fs)
  then obtain it1 s1 where "init_family d dry now f (it, s) = Some (it1, s1)"
    "init_families d dry now fs (it1, s1) = Some (it', t)" by (auto split: option.splits)
  with Cons.IH init_family_returns returns_only_trans show ?case by blast
qed simp

lemma init_settle_keeps: "lease_wf s \<Longrightarrow> serviced s (snd (init_settle d dry now fams rows s))"
  using acquire_debt_keeps [of s d now] serviced_refl [of s]
  by (auto simp: init_settle_def Let_def split: option.splits prod.splits)

lemma returns_only_state: "returns_only s (upd_device d (\<lambda>v. v\<lparr>d_return_state := x\<rparr>) s)"
  by (simp add: returns_only_def upd_device_def map_upd_where blank_return_def)

lemma init_return_keeps:
  assumes wf: "lease_wf s" and r: "init_device_return_sync d dry now s = Some (r, t)"
  shows "serviced s t"
proof (cases "get_device s d = None \<or> d_retired_at (the (get_device s d)) \<noteq> None")
  case True
  with r serviced_refl [OF wf] show ?thesis by (auto simp: init_device_return_sync_def split: option.splits if_splits)
next
  case False
  let ?fs = "init_families d dry now (map fst FAMILY_STEPS)
      (\<lparr>it_summary = [], it_current = d_return_state (the (get_device s d)), it_changed = False\<rparr>, s)"
  from False r obtain it s1 where f: "?fs = Some (it, s1)"
    by (cases ?fs) (auto simp: init_device_return_sync_def)
  let ?s2 = "if \<not> dry \<and> it_changed it then upd_device d (\<lambda>v. v\<lparr>d_return_state := it_current it\<rparr>) s1 else s1"
  let ?s3 = "if dry then ?s2 else recompute_return_state_from_open_debts d (open_debts_sync ?s2 d) now ?s2"
  have "\<exists>fams rows. init_settle d dry now fams rows ?s3 = (r, t)"
    using False r f by (auto simp: init_device_return_sync_def Let_def) blast+
  then obtain fams rows where t: "t = snd (init_settle d dry now fams rows ?s3)" by (metis snd_conv)
  have "returns_only ?s2 ?s3" by simp
  moreover have "returns_only s1 ?s2" by (simp add: returns_only_state)
  ultimately have "returns_only s ?s3" using init_families_returns [OF f] returns_only_trans by blast
  from returns_only_keeps [OF wf this] have k: "serviced s ?s3" .
  then have "lease_wf ?s3" unfolding serviced_def by blast
  from serviced_trans [OF k init_settle_keeps [OF this]] show ?thesis unfolding t .
qed

lemma retire_keeps: "lease_wf s \<Longrightarrow> serviced s (snd (release_debt_lease_for_retirement_sync d now s))"
  by (auto simp: release_debt_lease_for_retirement_sync_def upd_lease_leases serviced_refl
      intro!: serviced_jobs touch_wf touch_fence release_touches split: option.splits)
     (simp_all add: upd_leases_def)

lemma unretire_keeps: "lease_wf s \<Longrightarrow> serviced s (snd (restore_debt_lease_on_unretire_sync d now s))"
  by (simp add: restore_debt_lease_on_unretire_sync_def acquire_debt_keeps serviced_refl)

lemma upd_host_keeps: "lease_wf s \<Longrightarrow> serviced s (upd_host h f s)"
  by (intro serviced_same final_same) (simp_all add: upd_host_def same_leases_def)

lemma maintain_keeps:
  "lease_wf s \<Longrightarrow> serviced s (snd (acquire_maintenance_window raw h holder ttl now s))"
  "lease_wf s \<Longrightarrow> serviced s (release_maintenance_window h holder s)"
  by (auto simp: acquire_maintenance_window_def release_maintenance_window_def Let_def serviced_refl upd_host_keeps
      split: option.splits)

lemma enqueue_keeps: "lease_wf s \<Longrightarrow> serviced s (snd (on_job_terminal job s))"
  by (intro serviced_same final_same) simp_all

subsection \<open>Aborts and the recycler\<close>

lemma final_all2:
  assumes "list_all2 R (jobs s) (jobs t)"
    and "\<And>j j'. R j j' \<Longrightarrow> j_id j' = j_id j \<and> (terminal_status (j_status j) \<longrightarrow> j_status j' = j_status j)"
  shows "final_kept s t"
  unfolding final_kept_def
proof (intro conjI allI impI)
  have "map j_id ys = map j_id xs" if "list_all2 R xs ys" for xs ys
    using that by (induction rule: list_all2_induct) (auto dest: assms(2))
  with assms(1) show "map j_id (jobs t) = map j_id (jobs s)" by blast
  fix k j assume j: "get_job s k = Some j \<and> terminal_status (j_status j)"
  then have "first_row (filter (\<lambda>x. j_id x = k) (jobs s)) = Some j" by (simp add: get_job_def)
  from first_row_all2 [where R = R, OF assms(1) _ this] assms(2) obtain j'
    where "get_job t k = Some j'" "R j j'" by (auto simp: get_job_def)
  with assms(2) j show "\<exists>j'. get_job t k = Some j' \<and> j_status j' = j_status j" by blast
qed

lemma abort_begin_keeps: "lease_wf s \<Longrightarrow> abort_begin e q now s = (r, t) \<Longrightarrow> serviced s t"
  by (drule abort_begin_only_run) (auto simp: only_run_def same_leases_def intro!: serviced_same final_same)

lemma abort_finish_keeps:
  assumes wf: "lease_wf s" and m: "abort_marked (aq_run q) s" and f: "abort_finish q pend reqs now s = (r, t)"
  shows "serviced s t"
proof (cases r)
  case (Inl err)
  with f have "t = s" by (auto simp: abort_finish_def split: option.splits sum.splits)
  with wf show ?thesis by (simp add: serviced_refl)
next
  case (Inr out)
  from finish_frame [OF m f [unfolded Inr]] have fr: "abort_frame q (set (map fst pend)) now s t" by blast
  then have "same_leases s t" by (simp add: abort_frame_def same_leases_def)
  moreover have "list_all2 (\<lambda>j j'. j' = j \<or> j_id j \<in> set (map fst pend) \<and> j_status j = J_PENDING
      \<and> j' = aborted_row (aq_reason q) now j) (jobs s) (jobs t)" using fr by (simp add: abort_frame_def)
  then have "final_kept s t" by (rule final_all2) (auto simp: aborted_row_def)
  ultimately show ?thesis using wf by (rule serviced_same [rotated])
qed

lemma silences_keeps:
  assumes "lease_wf s" "only_silences s t"
  shows "serviced s t"
proof (rule serviced_same [OF assms(1)])
  show "same_leases s t" using assms(2) by (simp add: only_silences_def same_leases_def)
  have "list_all2 silenced (jobs s) (jobs t)" using assms(2) by (simp add: only_silences_def)
  then show "final_kept s t" by (rule final_all2) (auto dest: silenced_fields)
qed

lemma less_pending_final: "less_pending s t \<Longrightarrow> final_kept s t"
  unfolding less_pending_def by (erule final_all2) (auto simp: timed_out_row_def)

lemma unclaimed_keeps:
  assumes wf: "lease_wf s" and m: "mark_pending_timeout job now reason d s = (b, t)"
  shows "serviced s t"
proof -
  have f: "final_kept s t" using mark_pending_less [OF m] by (rule less_pending_final)
  let ?u = "s\<lparr>jobs := upd_where (\<lambda>j. j_id j = j_id job \<and> j_status j = J_PENDING) (timed_out_row reason now) (jobs s)\<rparr>"
  have u: "same_leases s ?u" by (simp add: same_leases_def)
  have "lease_wf t \<and> fence_step ?u t \<or> t = s"
  proof (cases "j_status job = J_PENDING \<and> list_ex (\<lambda>j. j_id j = j_id job \<and> j_status j = J_PENDING) (jobs s)")
    case False
    with m show ?thesis by (auto simp: mark_pending_timeout_def Let_def split: if_split_asm)
  next
    case True
    show ?thesis
    proof (cases "get_job ?u (j_id job)")
      case None
      with m True same_leases_wf [OF u] wf show ?thesis by (simp add: mark_pending_timeout_def)
    next
      case (Some x)
      let ?h = "snd (handle_job_lease_release_sync (j_device_id x) (j_id x) (Some x) now ?u)"
      have "lease_wf ?u" using same_leases_wf [OF u] wf by simp
      then have "lease_wf ?h" "fence_step ?u ?h" by (rule handle_wf, intro handle_fence)
      moreover have "same_leases ?h t"
      proof -
        have "same_leases ?h (add_audit p q r v w (if d then ?h else snd (on_job_terminal_sync x ?h)))" for p q r v w
          by (simp add: add_audit_def on_job_terminal_sync_def pending_insert_def same_leases_def)
        with m True Some show ?thesis by (simp add: mark_pending_timeout_def Let_def) blast
      qed
      ultimately show ?thesis using same_leases_wf same_leases_fence fence_trans by blast
    qed
  qed
  with f fence_trans [OF same_leases_fence [OF u]] serviced_refl [OF wf] show ?thesis by (auto simp: serviced_def)
qed

lemma serviced_lease_wf: "serviced s t \<Longrightarrow> lease_wf t"
  by (simp add: serviced_def)

lemma pending_for_keeps:
  "lease_wf s \<Longrightarrow> pending_for f1 f2 now js skip s = (skip', t) \<Longrightarrow> serviced s t"
proof (induction js arbitrary: skip s)
  case (Cons j js)
  obtain b s1 where m: "mark_pending_timeout j now PENDING_REASON True s = (b, s1)" by fastforce
  note k = unclaimed_keeps [OF Cons.prems(1) m]
  have same1: "lease_wf u \<Longrightarrow> serviced u (terminalization_failed j x u)" for u x
    by (intro serviced_same final_same) (simp_all add: terminalization_failed_def add_audit_def same_leases_def)
  have same2: "lease_wf u \<Longrightarrow> serviced u (snd (on_job_terminal_sync j1 u))" for u j1
    by (intro serviced_same final_same) (simp_all add: on_job_terminal_sync_def pending_insert_def same_leases_def)
  note same = same1 same2
  note s1 = serviced_trans [OF k same(1) [OF serviced_lease_wf [OF k]]]
    serviced_trans [OF k same(2) [OF serviced_lease_wf [OF k]]]
  show ?case
  proof (cases "f1 (j_id j)")
    case True
    note a = same(1) [OF Cons.prems(1), of "''recycler_pending_timeout''"]
    from True Cons.prems(2) Cons.IH [OF serviced_lease_wf [OF a]] serviced_trans [OF a] show ?thesis by auto
  next
    case False
    with Cons.prems(2) m k s1 Cons.IH [OF serviced_lease_wf [OF k]] serviced_trans [OF k] show ?thesis
      by (cases b) (auto split: if_splits option.splits)
  qed
qed (simp add: serviced_refl)

lemma pending_pass_keeps:
  "lease_wf s \<Longrightarrow> pending_pass e sc f1 f2 now skip s = (skip', t) \<Longrightarrow> serviced s t"
proof (induction e sc f1 f2 now skip s arbitrary: skip' t rule: pending_pass.induct)
  case (1 e sc f1 f2 now skip s)
  show ?case
  proof (cases "pending_batch e sc now skip s")
    case Nil
    with 1(3) serviced_refl [OF 1(2)] show ?thesis by (subst (asm) pending_pass.simps) simp
  next
    case (Cons j js)
    obtain sk u where p: "pending_for f1 f2 now (j # js) skip s = (sk, u)" by fastforce
    with 1(3) Cons have "pending_pass e sc f1 f2 now sk u = (skip', t)" by (subst (asm) pending_pass.simps) simp
    from 1(1) [OF Cons p [symmetric] serviced_lease_wf this] pending_for_keeps [OF 1(2) p] show ?thesis
      using serviced_trans by blast
  qed
qed

lemma recycle_keeps:
  assumes wf: "lease_wf s"
  shows "serviced s (recycle_once postgres e sc f1 f2 now clock s)"
proof -
  obtain skip s1 where p: "pending_pass e sc f1 f2 now [] s = (skip, s1)" by fastforce
  note k = pending_pass_keeps [OF wf p]
  have "only_silences s1 (recycle_once postgres e sc f1 f2 now clock s)"
    using p by (auto simp: recycle_once_def Let_def split: option.split intro: running_pass_silences
        only_silences_trans [OF running_pass_silences] only_silences_trans [OF patrol_pass_silences trace_pass_silences])
  from serviced_trans [OF k silences_keeps [OF serviced_lease_wf [OF k] this]] show ?thesis .
qed

lemma service_keeps:
  assumes wf: "service_wf s" and st: "service_step e s t"
  shows "serviced s t"
proof -
  have l: "lease_wf s" using wf by (simp add: service_wf_def)
  from st show ?thesis
  proof cases
    case coordinate
    with coordinator_keeps reports_only_keeps [OF l] show ?thesis by blast
  qed (use l wf in \<open>blast intro: claim_keeps complete_keeps recover_keeps renew_keeps renew_one_keeps
      report_keeps abort_begin_keeps abort_finish_keeps recycle_keeps unclaimed_keeps
      silences_keeps mark_running_silences mark_patrol_silences mark_trace_silences reconcile_once_keeps emergency_keeps discharge_keeps override_keeps_all late_keeps_all
      init_check_keeps init_return_keeps retire_keeps unretire_keeps maintain_keeps enqueue_keeps\<close>)+
qed

subsection \<open>The abstract specification: a lock with generations\<close>

text \<open>
  To its users a device is a lock: a generation counter and, while it is held, the generation of
  the holder.  The counter never goes back, and a holder is new only with a generation above it.
\<close>

type_synonym lock = "nat \<times> nat option"

inductive lock_step :: "lock \<Rightarrow> lock \<Rightarrow> bool" where
  frees: "g \<le> g' \<Longrightarrow> lock_step (g, h) (g', None)"
| holds: "g \<le> g' \<Longrightarrow> lock_step (g, h) (g', h)"
| grants: "g < k \<Longrightarrow> k \<le> g' \<Longrightarrow> lock_step (g, h) (g', Some k)"

definition lock_of :: "nat \<Rightarrow> db \<Rightarrow> lock" where
  "lock_of d s = (generation_of s d, map_option l_generation (get_active_lease s d))"

lemma lock_step_grows: "lock_step a b \<Longrightarrow> fst a \<le> fst b"
  by (cases rule: lock_step.cases) auto

lemma lock_step_lost: "lock_step a b \<Longrightarrow> k \<le> fst a \<Longrightarrow> snd b = Some k \<Longrightarrow> snd a = Some k"
  by (cases rule: lock_step.cases) auto

lemma lock_run_lost:
  assumes "lock_step\<^sup>*\<^sup>* a b" "k \<le> fst a" "snd a \<noteq> Some k"
  shows "k \<le> fst b \<and> snd b \<noteq> Some k"
  using assms by (induction rule: rtranclp_induct) (auto dest: lock_step_grows lock_step_lost)

lemma lock_live:
  assumes wf: "lease_wf s"
  shows "live_token s (fencing_token d k) \<longleftrightarrow> snd (lock_of d s) = Some k"
proof
  assume "live_token s (fencing_token d k)"
  then obtain l where l: "l \<in> set (leases s)" "active_lease l" "l_fencing_token l = fencing_token d k"
    by (auto simp: live_token_def)
  with wf have "l_device_id l = d" "l_generation l = k" by (auto simp: lease_wf_def token_ok_def)
  with lease_wf_get_active [OF wf l(1), of d] l(2) show "snd (lock_of d s) = Some k"
    by (simp add: lock_of_def active_on_def active_lease_def)
next
  assume "snd (lock_of d s) = Some k"
  then obtain l where l: "get_active_lease s d = Some l" "l_generation l = k" by (auto simp: lock_of_def)
  with get_active_lease_Some [OF l(1)] wf show "live_token s (fencing_token d k)"
    by (auto simp: live_token_def active_lease_def lease_wf_def token_ok_def)
qed

lemma fence_simulates:
  assumes wf: "lease_wf s" "lease_wf t" and f: "fence_step s t"
  shows "lock_step (lock_of d s) (lock_of d t)"
proof -
  obtain g h where s: "lock_of d s = (g, h)" by force
  obtain g' h' where t: "lock_of d t = (g', h')" by force
  have le: "g \<le> g'" using f s t by (auto simp: fence_step_def lock_of_def)
  show ?thesis
  proof (cases h')
    case None
    with le s t show ?thesis by (simp add: lock_step.frees)
  next
    case (Some k)
    with lock_live [OF wf(2), of d k] t have live: "live_token t (fencing_token d k)" by simp
    from Some t obtain l where l: "get_active_lease t d = Some l" "l_generation l = k" by (auto simp: lock_of_def)
    with lease_generation_le [OF wf(2)] get_active_lease_Some [OF l(1)] t have k: "k \<le> g'"
      by (auto simp: lock_of_def)
    show ?thesis
    proof (cases "k \<le> g")
      case True
      with f live s have "live_token s (fencing_token d k)" by (auto simp: fence_step_def lock_of_def)
      with lock_live [OF wf(1)] s Some t le show ?thesis by (simp add: lock_step.holds)
    next
      case False
      with k Some s t show ?thesis by (simp add: lock_step.grants)
    qed
  qed
qed

subsection \<open>Runs of a fenced system\<close>

locale fenced_system =
  fixes ok :: "db \<Rightarrow> bool" and step :: "db \<Rightarrow> db \<Rightarrow> bool"
  assumes ok_wf: "ok s \<Longrightarrow> lease_wf s"
    and step_ok: "ok s \<Longrightarrow> step s t \<Longrightarrow> ok t"
    and step_fence: "ok s \<Longrightarrow> step s t \<Longrightarrow> fence_step s t"
    and step_final: "ok s \<Longrightarrow> step s t \<Longrightarrow> final_kept s t"
begin

lemma simulates: "ok s \<Longrightarrow> step s t \<Longrightarrow> lock_step (lock_of d s) (lock_of d t)"
  by (rule fence_simulates [OF ok_wf ok_wf [OF step_ok] step_fence])

lemma run_ok:
  assumes "step\<^sup>*\<^sup>* s t" "ok s"
  shows "ok t \<and> final_kept s t \<and> lock_step\<^sup>*\<^sup>* (lock_of d s) (lock_of d t)"
  using assms
proof (induction rule: rtranclp_induct)
  case base
  then show ?case by (simp add: final_same)
next
  case (step u t)
  then show ?case
    using step_ok step_final final_trans simulates [of u t d] by (meson rtranclp.rtrancl_into_rtrancl)
qed

lemma dead_for_good:
  assumes "step\<^sup>*\<^sup>* s t" "ok s" "g \<le> generation_of s d" "\<not> live_token s (fencing_token d g)"
  shows "\<not> live_token t (fencing_token d g)"
proof -
  have "g \<le> fst (lock_of d s)" using assms(3) by (simp add: lock_of_def)
  moreover have "snd (lock_of d s) \<noteq> Some g" using assms(4) lock_live [OF ok_wf [OF assms(2)]] by simp
  moreover note run = run_ok [OF assms(1,2), of d]
  ultimately have "snd (lock_of d t) \<noteq> Some g" using lock_run_lost by blast
  then show ?thesis using lock_live [OF ok_wf] run by blast
qed

end

interpretation platform: fenced_system service_wf "service_step e" for e
proof
  fix s t assume "service_wf s"
  then show "lease_wf s" by (simp add: service_wf_def)
  assume "service_step e s t"
  from service_keeps [OF \<open>service_wf s\<close> this] have k: "serviced s t" .
  from serviced_wf [OF \<open>service_wf s\<close> k] show "service_wf t" .
  from k show "fence_step s t" "final_kept s t" by (simp_all add: serviced_def)
qed

subsection \<open>What a dead token is good for\<close>

lemma owns_running_live: "owns_running s now k tok \<Longrightarrow> live_token s tok"
  by (auto simp: owns_running_def live_token_def active_lease_def dest: job_lease_facts)

lemma dead_report:
  assumes "\<not> live_token s tok" "job_report now s claims accepted u" "(k, tok) \<in> set claims"
  shows "\<not> accepted \<and> u = s"
  using job_report_keeps [OF assms(2)] assms(1,3) owns_running_live [of s now k tok]
  by (auto simp: list_all_iff split: if_splits)

lemma dead_completion:
  assumes wf: "lease_wf s" and dead: "\<not> live_token s (rc_fencing_token p)"
    and c: "complete_agent_job e k p now s = (r, u)"
  shows "jobs u = jobs s"
proof (cases "get_job s k")
  case None
  with c show ?thesis by (auto simp: complete_agent_job_def split: option.splits)
next
  case j: (Some job)
  show ?thesis
  proof (cases "completion_target p")
    case None
    with c j show ?thesis by (auto simp: complete_agent_job_def)
  next
    case target: (Some target)
    show ?thesis
    proof (cases "terminal_status (j_status job)")
      case True
      with c j target have "u = snd (replayed_report e p job now s)" by (simp add: complete_agent_job_def)
      with replayed_keeps [OF wf, of e p job now] show ?thesis by simp
    next
      case False
      with c j target have f: "first_report e p target job now s = (r, u)" by (simp add: complete_agent_job_def)
      have g: "get_job s (j_id job) = Some job" using j get_job_Some [OF j] by simp
      note facts = first_report_facts [OF wf g completion_target_terminal [OF target] f]
      have "\<not> may_complete p job now s"
        using dead by (auto simp: may_complete_def live_token_def active_lease_def dest: job_lease_facts)
      with facts show ?thesis by (cases r) auto
    qed
  qed
qed

lemma dead_renewal:
  assumes dead: "\<not> live_token s tok" and r: "extend_agent_leases_batch e p now js ls s = Inr (rs, u)"
    and l: "l \<in> set (leases s)" "l_fencing_token l = tok"
  shows "l \<in> set (leases u)"
  using r
proof (rule batch_run)
  fix renewed pairs
  let ?P = "owned_lease pairs (xb_host_id p) (xb_agent_instance_id p) now s"
  assume "same_leases (upd_leases ?P (\<lambda>l. l\<lparr>l_renewed_at := now, l_expires_at := now + e_device_lock_lease e\<rparr>) s) u"
  moreover have "\<not> ?P l"
    using dead l by (auto simp: owned_lease_def live_token_def active_lease_def split: option.splits)
  ultimately show ?thesis using l(1) by (simp add: same_leases_def upd_leases_def set_upd_where)
qed

lemma dead_lock_renewal:
  assumes "\<not> live_token s tok"
  shows "isl (extend_agent_job_lock e k tok now s)"
proof -
  have "get_valid_runtime_lease s job tok [] now = None" for job
    using assms by (auto simp: get_valid_runtime_lease_def live_token_def active_lease_def
        dest: job_lease_facts split: option.splits if_splits)
  then show ?thesis by (auto simp: extend_agent_job_lock_def split: option.splits)
qed

text \<open>
  C2. The control plane refines the lock: whatever service runs, with any inputs, clock and
  unlocked reads, every device moves as the abstract lock does, and the invariant of the tables is
  kept.  So at most one holder per device, and no holder ever returns under an old generation.
\<close>

theorem services_refine_lock:
  assumes "service_wf s" "service_step e s t"
  shows "service_wf t \<and> lock_step (lock_of d s) (lock_of d t)"
  using platform.simulates [OF assms] platform.step_ok [OF assms] by blast

text \<open>
  C7. Finished jobs are final for the whole control plane: after any sequence of services a job
  that was COMPLETED, FAILED or ABORTED still exists with that status, and the invariant holds.
\<close>

theorem finished_jobs_stay:
  assumes "service_wf s" "(service_step e)\<^sup>*\<^sup>* s t" "get_job s k = Some job" "terminal_status (j_status job)"
  shows "service_wf t \<and> (\<exists>job'. get_job t k = Some job' \<and> j_status job' = j_status job)"
  using platform.run_ok [OF assms(2,1)] assms(3,4) unfolding final_kept_def by blast

text \<open>
  C1. Zombie agents are harmless: once a token of a device is dead it stays dead in every later
  state of the platform, and whoever presents it is refused: its reports are answered with an error
  and write nothing, its completions change no job, and its renewals extend no lease.
\<close>

theorem zombie_agents_fenced:
  assumes wf: "service_wf s" and dead: "\<not> live_token s tok" "tok = fencing_token d g" "g \<le> generation_of s d"
    and run: "(service_step e)\<^sup>*\<^sup>* s t"
  shows "\<not> live_token t tok
    \<and> (\<forall>now claims accepted k u. job_report now t claims accepted u \<and> (k, tok) \<in> set claims
         \<longrightarrow> \<not> accepted \<and> u = t)
    \<and> (\<forall>k p now r u. rc_fencing_token p = tok \<and> complete_agent_job e k p now t = (r, u) \<longrightarrow> jobs u = jobs t)
    \<and> (\<forall>p now js ls rs u l. extend_agent_leases_batch e p now js ls t = Inr (rs, u)
         \<and> l \<in> set (leases t) \<and> l_fencing_token l = tok \<longrightarrow> l \<in> set (leases u))
    \<and> (\<forall>k now. isl (extend_agent_job_lock e k tok now t))"
proof -
  have d: "\<not> live_token t tok"
    using platform.dead_for_good [OF run wf dead(3)] dead(1) unfolding dead(2) .
  have "lease_wf t" using platform.run_ok [OF run wf] platform.ok_wf by blast
  then show ?thesis
    using d dead_report [OF d] dead_completion dead_renewal [OF d] dead_lock_renewal [OF d] by metis
qed

subsection \<open>A concrete run\<close>

definition completed_db :: db where
  \<comment> \<open>job 7 has been completed under the token 5:1\<close>
  "completed_db = snd (complete_agent_job default_env 7 finished_report 110 claimed_db)"

lemma claimed_service_wf: "service_wf claimed_db"
proof -
  have "distinct (map j_id (jobs claimed_db))" by code_simp
  with claimed_db_wf show ?thesis by (simp add: service_wf_def)
qed

lemma completed_step: "service_step default_env claimed_db completed_db"
  unfolding completed_db_def by (rule service_step.complete [OF surjective_pairing])

lemma services_refine_lock_witness:
  "lock_step (1, Some 1) (lock_of 5 completed_db) \<and> lock_of 5 completed_db = (1, None)"
proof
  have "lock_of 5 claimed_db = (1, Some 1)" by code_simp
  with services_refine_lock [OF claimed_service_wf completed_step, of 5]
  show "lock_step (1, Some 1) (lock_of 5 completed_db)" by simp
  show "lock_of 5 completed_db = (1, None)" by code_simp
qed

lemma completed_service_wf: "service_wf completed_db"
  using serviced_wf [OF claimed_service_wf service_keeps [OF claimed_service_wf completed_step]] .

lemma finished_jobs_stay_witness:
  "\<exists>job'. get_job (snd (claim_agent_jobs [] ''h1'' 4 ''a2'' [] [] 200 completed_db)) 7 = Some job'
     \<and> j_status job' = J_COMPLETED"
proof -
  let ?t = "snd (claim_agent_jobs [] ''h1'' 4 ''a2'' [] [] 200 completed_db)"
  have "map_option j_status (get_job completed_db 7) = Some J_COMPLETED" by code_simp
  then obtain job where j: "get_job completed_db 7 = Some job" "j_status job = J_COMPLETED" by auto
  have "service_step default_env completed_db ?t" by (rule service_step.claim [OF surjective_pairing])
  from finished_jobs_stay [OF completed_service_wf r_into_rtranclp [of "service_step default_env", OF this] j(1)] j(2)
  show ?thesis by (simp add: terminal_status_def TERMINAL_JOB_STATUSES_def)
qed

lemma zombie_agents_fenced_witness:
  "\<exists>r. record_agent_job_heartbeat 7 ''RUNNING'' ''5:1'' 250
     (snd (claim_agent_jobs [] ''h1'' 4 ''a2'' [] [] 200 completed_db))
   = (Inl r, snd (claim_agent_jobs [] ''h1'' 4 ''a2'' [] [] 200 completed_db))"
proof -
  let ?t = "snd (claim_agent_jobs [] ''h1'' 4 ''a2'' [] [] 200 completed_db)"
  have "service_step default_env completed_db ?t" by (rule service_step.claim [OF surjective_pairing])
  then have run: "(service_step default_env)\<^sup>*\<^sup>* completed_db ?t" by (rule r_into_rtranclp)
  have "snd (lock_of 5 completed_db) = None" "1 \<le> generation_of completed_db 5" by code_simp+
  then have dead: "\<not> live_token completed_db ''5:1''" "''5:1'' = fencing_token 5 1" "1 \<le> generation_of completed_db 5"
    using lock_live [of completed_db 5 1] completed_service_wf by (simp_all add: service_wf_def) code_simp+
  obtain r u where h: "record_agent_job_heartbeat 7 ''RUNNING'' ''5:1'' 250 ?t = (r, u)" by force
  from zombie_agents_fenced [OF completed_service_wf dead run] job_report.heartbeat [OF h]
  have "isl r" "u = ?t" by (metis list.set_intros(1))+
  with h show ?thesis by (cases r) auto
qed

end
