(* ===== verification/Dispatch_Lifecycle.thy ===== *)
theory Dispatch_Lifecycle
  imports Platform_Tables
begin

section \<open>From plans to lifecycles (plan\_dispatcher\_core.py)\<close>

text \<open>
  The document a job executes.  A plan's steps become a lifecycle when a run is prepared; the run
  keeps a snapshot, from which admission builds the lifecycle again, long after the plan may have
  been edited; then the parameters of the WiFi pool and of the bound test suite are injected.  Also
  the semantic part of agent/contracts/pipeline\_validator.py, which both sides run.
\<close>

subsection \<open>Errors\<close>

text \<open>\<open>PlanDispatchError\<close>, one constructor per message, and the \<open>TypeError\<close> of a snapshot whose steps
  cannot be ordered.\<close>

datatype dispatch_error =
    ScriptDeactivated string string string
  | PatrolNeedsInterval
  | IntervalNeedsPatrol
  | InvalidSnapshotStage json
  | StepWithoutScript
  | SnapshotPatrolNeedsInterval
  | SnapshotIntervalNeedsPatrol
  | SnapshotUnordered
  | SuiteProjectConflict string string

fun collect :: "('a \<Rightarrow> 'e + 'b) \<Rightarrow> 'a list \<Rightarrow> 'e + 'b list" where
  \<comment> \<open>a loop that appends its results and stops at the first exception\<close>
  "collect f [] = Inr []"
| "collect f (x # xs) =
     (case f x of Inl e \<Rightarrow> Inl e
      | Inr y \<Rightarrow> (case collect f xs of Inl e \<Rightarrow> Inl e | Inr ys \<Rightarrow> Inr (y # ys)))"

subsection \<open>Effective parameters (script\_params.py)\<close>

definition schema_defaults :: "json \<Rightarrow> jobj" where
  "schema_defaults schema =
     List.map_filter (\<lambda>(key, field). case obj_of field of None \<Rightarrow> None
                       | Some o1 \<Rightarrow> map_option (\<lambda>v. (key, v)) (map_of o1 ''default''))
       (obj_or_empty schema)"

definition merge_effective_params :: "json \<Rightarrow> json \<Rightarrow> json \<Rightarrow> jobj" where
  "merge_effective_params schema defaults params =
     dict_merge (dict_merge (schema_defaults schema) (obj_or_empty defaults)) (obj_or_empty params)"

subsection \<open>Steps\<close>

definition opt_key :: "string \<Rightarrow> int option \<Rightarrow> jobj" where
  "opt_key k v = (case v of None \<Rightarrow> [] | Some n \<Rightarrow> [(k, JInt n)])"

definition opt_entry :: "string \<Rightarrow> json \<Rightarrow> jobj" where
  "opt_entry k v = (if v = JNull then [] else [(k, v)])"

definition opt_int :: "int option \<Rightarrow> json" where
  "opt_int v = (case v of None \<Rightarrow> JNull | Some n \<Rightarrow> JInt n)"

definition apply_step_timing_fields :: "jobj \<Rightarrow> json \<Rightarrow> json \<Rightarrow> jobj" where
  \<comment> \<open>a field that is not configured is not written\<close>
  "apply_step_timing_fields step_def timeout stall =
     step_def @ opt_entry ''timeout_seconds'' timeout @ opt_entry ''stall_seconds'' stall"

definition step_def_of :: "step_row \<Rightarrow> jobj \<Rightarrow> jobj" where
  "step_def_of st default_params =
     apply_step_timing_fields
       [(''step_id'', JStr (ps_step_key st)), (''action'', JStr (''script:'' @ ps_script_name st)),
        (''version'', JStr (ps_script_version st)),
        (''params'', JObj (dict_merge default_params (obj_or_empty (ps_params st)))),
        (''retry'', JInt (ps_retry st))]
       (opt_int (ps_timeout_seconds st)) (opt_int (ps_stall_seconds st))"

type_synonym script_key = "string \<times> string"

definition live_step :: "(script_key \<Rightarrow> jobj option) \<Rightarrow> step_row \<Rightarrow> dispatch_error + string \<times> json" where
  "live_step defaults st =
     (case defaults (ps_script_name st, ps_script_version st) of
        None \<Rightarrow> Inl (ScriptDeactivated (ps_script_name st) (ps_script_version st) (ps_step_key st))
      | Some d \<Rightarrow> Inr (ps_stage st, JObj (step_def_of st d)))"

definition step_order :: "step_row \<Rightarrow> string \<times> int" where
  "step_order st = (ps_stage st, ps_sort_order st)"

definition in_stage :: "string \<Rightarrow> (string \<times> json) list \<Rightarrow> json list" where
  "in_stage stage defs = map snd (filter (\<lambda>d. fst d = stage) defs)"

subsection \<open>Lifecycles\<close>

definition lifecycle_doc :: "(string \<times> json) list \<Rightarrow> jobj \<Rightarrow> json \<Rightarrow> json \<Rightarrow> json \<Rightarrow> jobj" where
  \<comment> \<open>the dictionary both builders assemble\<close>
  "lifecycle_doc defs patrol timeout barrier barrier_max =
     [(''init'', JList (in_stage ''init'' defs)), (''teardown'', JList (in_stage ''teardown'' defs))]
     @ patrol @ opt_entry ''timeout_seconds'' timeout @ opt_entry ''barrier_timeout_seconds'' barrier
     @ opt_entry ''barrier_max_wait_seconds'' barrier_max"

definition patrol_entry :: "json \<Rightarrow> json list \<Rightarrow> jobj" where
  "patrol_entry interval steps =
     [(''patrol'', JObj [(''interval_seconds'', interval), (''steps'', JList steps)])]"

definition build_lifecycle_from_steps ::
  "plan_row \<Rightarrow> step_row list \<Rightarrow> (script_key \<Rightarrow> jobj option) \<Rightarrow> dispatch_error + jobj" where
  "build_lifecycle_from_steps plan steps defaults =
     (case collect (live_step defaults) (filter ps_enabled (sort_key step_order steps)) of
        Inl e \<Rightarrow> Inl e
      | Inr defs \<Rightarrow>
          let doc = (\<lambda>patrol. Inr (lifecycle_doc defs patrol (opt_int (pl_timeout_seconds plan))
                       (opt_int (pl_barrier_timeout_seconds plan)) (opt_int (pl_barrier_max_wait_seconds plan))));
              patrol_steps = in_stage ''patrol'' defs
          in if patrol_steps \<noteq> []
             then (case pl_patrol_interval_seconds plan of None \<Rightarrow> Inl PatrolNeedsInterval
                   | Some n \<Rightarrow> doc (patrol_entry (JInt n) patrol_steps))
             else if pl_patrol_interval_seconds plan \<noteq> None then Inl IntervalNeedsPatrol
             else doc [])"

definition snapshot_order :: "json \<Rightarrow> (string \<times> int) option" where
  "snapshot_order item =
     (case obj_of item of None \<Rightarrow> None
      | Some d \<Rightarrow> (case (map_of d ''stage'', map_of d ''sort_order'') of
           (None, None) \<Rightarrow> Some ([], 0)
         | (None, Some (JInt n)) \<Rightarrow> Some ([], n)
         | (Some (JStr s), None) \<Rightarrow> Some (s, 0)
         | (Some (JStr s), Some (JInt n)) \<Rightarrow> Some (s, n)
         | _ \<Rightarrow> None))"

definition snapshot_step :: "jobj \<Rightarrow> dispatch_error + string \<times> json" where
  "snapshot_step st =
     (if jget st ''stage'' \<notin> JStr ` {''init'', ''patrol'', ''teardown''} then Inl (InvalidSnapshotStage (jget st ''stage''))
      else if \<not> truthy (jget st ''script_name'') \<or> \<not> truthy (jget st ''script_version'') then Inl StepWithoutScript
      else Inr (py_str (jget st ''stage''),
        JObj (apply_step_timing_fields
          [(''step_id'', jget st ''step_key''), (''action'', JStr (''script:'' @ py_str (jget st ''script_name''))),
           (''version'', jget st ''script_version''),
           (''params'', JObj (merge_effective_params (jget st ''param_schema'') (jget st ''default_params'') (jget st ''params''))),
           (''retry'', case map_of st ''retry'' of None \<Rightarrow> JInt 0 | Some r \<Rightarrow> r)]
          (jget st ''timeout_seconds'') (jget st ''stall_seconds''))))"

definition positive_int :: "json \<Rightarrow> bool" where
  \<comment> \<open>\<open>isinstance(n, int) and n >= 1\<close>; a bool is an int\<close>
  "positive_int v = (case v of JInt n \<Rightarrow> n \<ge> 1 | JBool b \<Rightarrow> b | _ \<Rightarrow> False)"

definition snapshot_enabled :: "jobj \<Rightarrow> bool" where
  "snapshot_enabled st \<longleftrightarrow> jget st ''enabled'' \<noteq> JBool False"

definition build_lifecycle_from_snapshot :: "json \<Rightarrow> dispatch_error + jobj" where
  "build_lifecycle_from_snapshot plan_snapshot =
     (let plan_data = obj_or_empty (jget (obj_or_empty plan_snapshot) ''plan'');
          steps = list_or_empty (jget (obj_or_empty plan_snapshot) ''steps'')
      in if list_ex (\<lambda>st. snapshot_order st = None) steps then Inl SnapshotUnordered
         else case collect snapshot_step
                (filter snapshot_enabled (objs_of (sort_key (the \<circ> snapshot_order) steps))) of
           Inl e \<Rightarrow> Inl e
         | Inr defs \<Rightarrow>
             let doc = (\<lambda>patrol. Inr (lifecycle_doc defs patrol (jget plan_data ''timeout_seconds'')
                          (jget plan_data ''barrier_timeout_seconds'') (jget plan_data ''barrier_max_wait_seconds'')));
                 patrol_steps = in_stage ''patrol'' defs;
                 interval = jget plan_data ''patrol_interval_seconds''
             in if patrol_steps \<noteq> []
                then (if positive_int interval then doc (patrol_entry interval patrol_steps)
                      else Inl SnapshotPatrolNeedsInterval)
                else if interval \<noteq> JNull then Inl SnapshotIntervalNeedsPatrol
                else doc [])"

subsection \<open>Snapshots\<close>

record script_meta =
  m_param_schema :: json
  m_default_params :: json
  m_nfs_path :: string

definition snapshot_step_doc :: "(script_key \<Rightarrow> script_meta option) \<Rightarrow> step_row \<Rightarrow> jobj" where
  "snapshot_step_doc meta st =
     (let m = meta (ps_script_name st, ps_script_version st) in
      [(''stage'', JStr (ps_stage st)), (''step_key'', JStr (ps_step_key st)),
       (''script_name'', JStr (ps_script_name st)), (''script_version'', JStr (ps_script_version st)),
       (''nfs_path'', JStr (case m of None \<Rightarrow> [] | Some x \<Rightarrow> m_nfs_path x)),
       (''param_schema'', case m of None \<Rightarrow> JObj [] | Some x \<Rightarrow> m_param_schema x),
       (''default_params'', case m of None \<Rightarrow> JObj [] | Some x \<Rightarrow> m_default_params x),
       (''params'', jor (ps_params st) (JObj [])),
       (''timeout_seconds'', opt_int (ps_timeout_seconds st)), (''stall_seconds'', opt_int (ps_stall_seconds st)),
       (''retry'', JInt (ps_retry st)), (''enabled'', JBool (ps_enabled st)),
       (''sort_order'', JInt (ps_sort_order st))])"

definition build_plan_snapshot :: "plan_row \<Rightarrow> step_row list \<Rightarrow> (script_key \<Rightarrow> script_meta option) \<Rightarrow> json" where
  "build_plan_snapshot plan steps meta =
     JObj [(''plan'', JObj [(''id'', JInt (int (pl_id plan))), (''name'', JStr (pl_name plan)),
              (''description'', opt_json (pl_description plan)),
              (''patrol_interval_seconds'', opt_int (pl_patrol_interval_seconds plan)),
              (''timeout_seconds'', opt_int (pl_timeout_seconds plan)),
              (''barrier_timeout_seconds'', opt_int (pl_barrier_timeout_seconds plan)),
              (''barrier_max_wait_seconds'', opt_int (pl_barrier_max_wait_seconds plan)),
              (''auto_archive_interval_seconds'', opt_int (pl_auto_archive_interval_seconds plan)),
              (''next_plan_id'', opt_int (map_option int (pl_next_plan_id plan))),
              (''watcher_policy'', jor (pl_watcher_policy plan) (JObj []))]),
           (''steps'', JList (map (JObj \<circ> snapshot_step_doc meta) (sort_key step_order steps)))]"

definition script_defaults :: "(script_key \<Rightarrow> script_meta option) \<Rightarrow> script_key \<Rightarrow> jobj option" where
  "script_defaults meta key =
     map_option (\<lambda>m. merge_effective_params (m_param_schema m) (m_default_params m) JNull) (meta key)"

subsection \<open>The semantic validator (pipeline\_validator.py)\<close>

datatype validation_error =
    VRoot string
  | VInit string
  | VTeardown string
  | VPatrol string
  | VVersions "json list"

definition lifecycle_steps :: "jobj \<Rightarrow> json list" where
  \<comment> \<open>\<open>iter_lifecycle_steps\<close>: init, teardown, then patrol\<close>
  "lifecycle_steps lifecycle =
     list_or_empty (jget lifecycle ''init'') @ list_or_empty (jget lifecycle ''teardown'')
     @ list_or_empty (jget (obj_or_empty (jget lifecycle ''patrol'')) ''steps'')"

definition lacks_version :: "json \<Rightarrow> bool" where
  "lacks_version st =
     (case obj_of st of None \<Rightarrow> False
      | Some d \<Rightarrow> (case jget d ''action'' of JStr a \<Rightarrow> starts_with ''script:'' a | _ \<Rightarrow> False)
                 \<and> \<not> truthy (jget d ''version''))"

definition is_list :: "json \<Rightarrow> bool" where
  "is_list v = (case v of JList _ \<Rightarrow> True | _ \<Rightarrow> False)"

definition validate_lifecycle_semantics :: "json \<Rightarrow> validation_error option" where
  "validate_lifecycle_semantics pipeline_def =
     (case obj_of pipeline_def of None \<Rightarrow> Some (VRoot ''pipeline_def must be an object'')
      | Some d \<Rightarrow>
        if map_of d ''phases'' \<noteq> None then Some (VRoot ''legacy phases format is not supported'')
        else if map_of d ''stages'' \<noteq> None then Some (VRoot ''stages format is not supported'')
        else if map_of d ''lifecycle'' = None then Some (VRoot ''pipeline must define lifecycle'')
        else case obj_of (jget d ''lifecycle'') of None \<Rightarrow> Some (VRoot ''lifecycle must be an object'')
          | Some lc \<Rightarrow>
            let init = jget lc ''init''; patrol = jget lc ''patrol'' in
            if \<not> is_list init then Some (VInit ''must be a step array'')
            else if list_or_empty init = [] then Some (VInit ''at least one step is required'')
            else if \<not> is_list (jget lc ''teardown'') then Some (VTeardown ''must be a step array'')
            else if patrol \<noteq> JNull \<and> \<not> is_obj patrol then Some (VPatrol ''must be an object'')
            else if patrol \<noteq> JNull \<and> \<not> positive_int (jget (obj_or_empty patrol) ''interval_seconds'')
              then Some (VPatrol ''interval_seconds must be a positive integer'')
            else if patrol \<noteq> JNull \<and> \<not> is_list (jget (obj_or_empty patrol) ''steps'')
              then Some (VPatrol ''steps must be a step array'')
            else if patrol \<noteq> JNull \<and> list_or_empty (jget (obj_or_empty patrol) ''steps'') = []
              then Some (VPatrol ''at least one step is required'')
            else if filter lacks_version (lifecycle_steps lc) \<noteq> []
              then Some (VVersions (filter lacks_version (lifecycle_steps lc)))
            else None)"

subsection \<open>WiFi consumers\<close>

fun contains :: "string \<Rightarrow> string \<Rightarrow> bool" where
  \<comment> \<open>\<open>p in s\<close>\<close>
  "contains p [] = (p = [])"
| "contains p (c # s) = (starts_with p (c # s) \<or> contains p s)"

definition step_action :: "json \<Rightarrow> string" where
  "step_action st = (case jget (obj_or_empty st) ''action'' of JStr a \<Rightarrow> a | _ \<Rightarrow> [])"

definition WIFI_CONSUMER_SCRIPT_NAMES :: "string list" where
  "WIFI_CONSUMER_SCRIPT_NAMES = [''connect_wifi'', ''monkey_setup'']"

definition lifecycle_consumes_wifi :: "jobj \<Rightarrow> bool" where
  "lifecycle_consumes_wifi lifecycle =
     list_ex (\<lambda>st. list_ex (\<lambda>name. contains name (step_action st)) WIFI_CONSUMER_SCRIPT_NAMES)
       (lifecycle_steps lifecycle)"

definition lifecycle_has_connect_wifi_step :: "jobj \<Rightarrow> bool" where
  "lifecycle_has_connect_wifi_step lifecycle =
     list_ex (\<lambda>st. contains ''connect_wifi'' (step_action st)) (lifecycle_steps lifecycle)"

subsection \<open>Injection\<close>

text \<open>The injectors update the step dictionaries in place.\<close>

definition on_object :: "(jobj \<Rightarrow> jobj) \<Rightarrow> json \<Rightarrow> json" where
  "on_object f st = (case obj_of st of None \<Rightarrow> st | Some d \<Rightarrow> JObj (f d))"

definition update_list :: "(json \<Rightarrow> json) \<Rightarrow> json \<Rightarrow> json" where
  "update_list f v = (case v of JList xs \<Rightarrow> JList (map f xs) | _ \<Rightarrow> v)"

definition update_key :: "string \<Rightarrow> (json \<Rightarrow> json) \<Rightarrow> jobj \<Rightarrow> jobj" where
  "update_key k f d = map (\<lambda>(k', v). (k', if k' = k then f v else v)) d"

definition update_lifecycle_steps :: "(jobj \<Rightarrow> jobj) \<Rightarrow> jobj \<Rightarrow> jobj" where
  "update_lifecycle_steps f lifecycle =
     update_key ''patrol'' (on_object (update_key ''steps'' (update_list (on_object f))))
       (update_key ''teardown'' (update_list (on_object f)) (update_key ''init'' (update_list (on_object f)) lifecycle))"

definition fill_in :: "string \<Rightarrow> json \<Rightarrow> jobj \<Rightarrow> jobj" where
  \<comment> \<open>existing values win\<close>
  "fill_in k v d = (if truthy (jget d k) then d else AList.update k v d)"

definition wifi_step :: "json \<Rightarrow> json \<Rightarrow> jobj \<Rightarrow> jobj" where
  "wifi_step ssid password st =
     (let action = step_action (JObj st); params = obj_or_empty (jget st ''params'') in
      if contains ''connect_wifi'' action
      then AList.update ''params'' (JObj (fill_in ''password'' password (fill_in ''ssid'' ssid params))) st
      else if contains ''monkey_setup'' action
      then AList.update ''params'' (JObj (AList.update ''wifi''
             (JObj (fill_in ''password'' password (fill_in ''ssid'' ssid (obj_or_empty (jget params ''wifi''))))) params)) st
      else st)"

definition inject_wifi_params :: "jobj \<Rightarrow> jobj \<Rightarrow> jobj" where
  \<comment> \<open>both arguments: the lifecycle and the parameters allocated from a pool\<close>
  "inject_wifi_params lifecycle wifi_params =
     (if \<not> truthy (jget wifi_params ''ssid'') then lifecycle
      else update_lifecycle_steps
             (wifi_step (jget wifi_params ''ssid'')
                (case map_of wifi_params ''password'' of None \<Rightarrow> JStr [] | Some p \<Rightarrow> p)) lifecycle)"

definition is_mtbf :: "jobj \<Rightarrow> bool" where
  "is_mtbf st = starts_with ''script:mtbf_'' (step_action (JObj st))"

definition blank :: "json \<Rightarrow> bool" where
  \<comment> \<open>\<open>x in (None, "")\<close>\<close>
  "blank v \<longleftrightarrow> v = JNull \<or> v = JStr []"

definition project_conflict :: "jobj \<Rightarrow> jobj \<Rightarrow> bool" where
  "project_conflict suite_params st =
     (let expected = jget suite_params ''project''; declared = jget (obj_or_empty (jget st ''params'')) ''project'' in
      is_mtbf st \<and> \<not> blank expected \<and> \<not> blank declared \<and> py_str declared \<noteq> py_str expected)"

definition suite_step :: "jobj \<Rightarrow> jobj \<Rightarrow> jobj" where
  "suite_step suite_params st =
     (if is_mtbf st
      then AList.update ''params'' (JObj (fold (\<lambda>(k, v). fill_in k v) suite_params (obj_or_empty (jget st ''params'')))) st
      else st)"

definition inject_suite_params :: "jobj \<Rightarrow> jobj \<Rightarrow> dispatch_error + jobj" where
  "inject_suite_params lifecycle suite_params =
     (if suite_params = [] then Inr lifecycle
      else case filter (project_conflict suite_params) (objs_of (lifecycle_steps lifecycle)) of
        st # _ \<Rightarrow> Inl (SuiteProjectConflict (py_str (jget (obj_or_empty (jget st ''params'')) ''project''))
                   (py_str (jget suite_params ''project'')))
      | [] \<Rightarrow> Inr (update_lifecycle_steps (suite_step suite_params) lifecycle))"

subsection \<open>Checks on steps\<close>

definition LEGACY_AEE_SCRIPT_NAMES :: "string list" where
  "LEGACY_AEE_SCRIPT_NAMES = [''scan_aee'', ''export_mobilelogs'']"

definition check_script_keys_complete :: "step_row list \<Rightarrow> (script_key \<Rightarrow> script_meta option) \<Rightarrow> string list" where
  "check_script_keys_complete steps meta =
     map (\<lambda>(name, version). name @ '':'' @ version)
       (sort (remdups (filter (\<lambda>key. meta key = None)
          (map (\<lambda>st. (ps_script_name st, ps_script_version st)) (filter ps_enabled steps)))))"

definition check_legacy_aee_script_refs :: "step_row list \<Rightarrow> string list" where
  "check_legacy_aee_script_refs steps =
     sort (remdups (map (\<lambda>st. ps_script_name st @ '':'' @ ps_script_version st)
       (filter (\<lambda>st. ps_enabled st \<and> ps_script_name st \<in> set LEGACY_AEE_SCRIPT_NAMES) steps)))"

definition check_suite_binding_required :: "plan_row \<Rightarrow> step_row list \<Rightarrow> string list" where
  "check_suite_binding_required plan steps =
     (if pl_suite_id plan \<noteq> None then []
      else sort (map ps_step_key (filter (\<lambda>st. ps_enabled st \<and> starts_with ''mtbf_'' (ps_script_name st)) steps)))"

subsection \<open>Facts about the builders\<close>

lemma collect_map: "collect f (map g xs) = collect (f \<circ> g) xs"
  by (induction xs) (auto split: sum.split)

lemma collect_cong: "(\<And>x. x \<in> set xs \<Longrightarrow> f x = g x) \<Longrightarrow> collect f xs = collect g xs"
  by (induction xs) (auto split: sum.split)

lemma collect_member: "collect f xs = Inr ys \<Longrightarrow> x \<in> set xs \<Longrightarrow> \<exists>y\<in>set ys. f x = Inr y"
  by (induction xs arbitrary: ys) (auto split: sum.splits)

lemma opt_int_simps [simp]: "opt_int None = JNull" "opt_int (Some n) = JInt n"
  by (simp_all add: opt_int_def)

lemma opt_int_JNull [simp]: "opt_int v = JNull \<longleftrightarrow> v = None"
  by (cases v) auto

lemma obj_or_empty_jor [simp]: "obj_or_empty (jor v (JObj [])) = obj_or_empty v"
  by (cases v) (auto simp: jor_def)

lemma dict_merge_Nil [simp]: "dict_merge d [] = d"
  by (simp add: dict_merge_def)

lemma merge_two_steps:
  "merge_effective_params s d p = dict_merge (merge_effective_params s d JNull) (obj_or_empty p)"
  by (simp add: merge_effective_params_def)

lemma step_doc_order: "snapshot_order (JObj (snapshot_step_doc meta st)) = Some (step_order st)"
  by (simp add: snapshot_order_def snapshot_step_doc_def step_order_def Let_def)

lemma step_doc_enabled: "snapshot_enabled (snapshot_step_doc meta st) = ps_enabled st"
  by (simp add: snapshot_enabled_def snapshot_step_doc_def jget_Cons Let_def)

definition snapshot_ready :: "step_row \<Rightarrow> bool" where
  "snapshot_ready st \<longleftrightarrow> ps_stage st \<in> {''init'', ''patrol'', ''teardown''} \<and> ps_script_name st \<noteq> []
     \<and> ps_script_version st \<noteq> []"

lemma step_doc_step:
  assumes "meta (ps_script_name st, ps_script_version st) = Some m" "snapshot_ready st"
  shows "snapshot_step (snapshot_step_doc meta st) = live_step (script_defaults meta) st"
  using assms
  by (auto simp: snapshot_step_def snapshot_step_doc_def live_step_def script_defaults_def jget_Cons snapshot_ready_def Let_def
      step_def_of_def merge_two_steps [of _ _ "jor (ps_params st) (JObj [])"])

lemma snapshot_steps_sorted:
  "sort_key (the \<circ> snapshot_order) (map (JObj \<circ> snapshot_step_doc meta) (sort_key step_order steps)) =
     map (JObj \<circ> snapshot_step_doc meta) (sort_key step_order steps)"
proof (rule sort_key_id_if_sorted)
  have "map (the \<circ> snapshot_order) (map (JObj \<circ> snapshot_step_doc meta) xs) = map step_order xs" for xs
    by (simp add: step_doc_order)
  then show "sorted (map (the \<circ> snapshot_order) (map (JObj \<circ> snapshot_step_doc meta) (sort_key step_order steps)))"
    by (simp only: sorted_sort_key)
qed

lemma objs_of_map_JObj [simp]: "objs_of (map (JObj \<circ> f) xs) = map f xs"
  by (induction xs) (auto simp: objs_of_def map_filter_def)

lemma snapshot_plan_fields:
  assumes "snap = build_plan_snapshot plan steps meta"
  shows "list_or_empty (jget (obj_or_empty snap) ''steps'') = map (JObj \<circ> snapshot_step_doc meta) (sort_key step_order steps)"
    and "jget (obj_or_empty (jget (obj_or_empty snap) ''plan'')) ''patrol_interval_seconds'' = opt_int (pl_patrol_interval_seconds plan)"
    and "jget (obj_or_empty (jget (obj_or_empty snap) ''plan'')) ''timeout_seconds'' = opt_int (pl_timeout_seconds plan)"
    and "jget (obj_or_empty (jget (obj_or_empty snap) ''plan'')) ''barrier_timeout_seconds'' = opt_int (pl_barrier_timeout_seconds plan)"
    and "jget (obj_or_empty (jget (obj_or_empty snap) ''plan'')) ''barrier_max_wait_seconds'' = opt_int (pl_barrier_max_wait_seconds plan)"
  by (simp_all add: assms build_plan_snapshot_def jget_Cons)

lemma in_stage_mem: "(stage, d) \<in> set defs \<Longrightarrow> d \<in> set (in_stage stage defs)"
  by (force simp: in_stage_def)

definition unversioned_free :: "jobj \<Rightarrow> bool" where
  "unversioned_free lc \<longleftrightarrow> filter lacks_version (lifecycle_steps lc) = []"

lemma valid_unversioned_free:
  "validate_lifecycle_semantics (JObj [(''lifecycle'', JObj lc)]) = None \<Longrightarrow> unversioned_free lc"
  by (auto simp: validate_lifecycle_semantics_def unversioned_free_def jget_Cons Let_def split: if_splits)

lemma valid_patrol:
  assumes "validate_lifecycle_semantics (JObj [(''lifecycle'', JObj lc)]) = None" "jget lc ''patrol'' = JObj d"
  shows "positive_int (jget d ''interval_seconds'')"
  using assms by (auto simp: validate_lifecycle_semantics_def jget_Cons Let_def split: if_splits)

lemma lifecycle_doc_keys:
  "jget (lifecycle_doc defs p t b m) ''init'' = JList (in_stage ''init'' defs)"
  "jget (lifecycle_doc defs p t b m) ''teardown'' = JList (in_stage ''teardown'' defs)"
  "jget (lifecycle_doc defs (patrol_entry n ss) t b m) ''patrol'' = JObj [(''interval_seconds'', n), (''steps'', JList ss)]"
  by (simp_all add: lifecycle_doc_def patrol_entry_def jget_Cons)

lemma built_step_versioned:
  assumes "unversioned_free lc" "JObj (step_def_of st d) \<in> set (lifecycle_steps lc)"
  shows "ps_script_version st \<noteq> []"
proof -
  have "\<not> lacks_version (JObj (step_def_of st d))"
    using assms by (auto simp: unversioned_free_def filter_empty_conv)
  moreover have "starts_with ''script:'' (''script:'' @ ps_script_name st)" by (rule starts_with_append)
  ultimately show ?thesis
    by (auto simp: lacks_version_def step_def_of_def apply_step_timing_fields_def jget_Cons)
qed

lemma built_steps_listed:
  assumes lc: "build_lifecycle_from_steps plan steps defaults = Inr lc"
    and c: "collect (live_step defaults) (filter ps_enabled (sort_key step_order steps)) = Inr defs"
    and m: "(stage, d) \<in> set defs" "stage \<in> {''init'', ''patrol'', ''teardown''}"
  shows "d \<in> set (lifecycle_steps lc)"
proof -
  from lc c obtain p where p: "lc = lifecycle_doc defs p (opt_int (pl_timeout_seconds plan))
      (opt_int (pl_barrier_timeout_seconds plan)) (opt_int (pl_barrier_max_wait_seconds plan))"
    "in_stage ''patrol'' defs = [] \<or> (\<exists>n. p = patrol_entry n (in_stage ''patrol'' defs))"
    by (auto simp: build_lifecycle_from_steps_def Let_def split: if_splits option.splits)
  note i = in_stage_mem [OF m(1)]
  from m(2) consider "stage = ''init''" | "stage = ''teardown''" | "stage = ''patrol''" by blast
  then show ?thesis
  proof cases
    case 3
    with i p(2) obtain n where "p = patrol_entry n (in_stage ''patrol'' defs)" by auto
    with i 3 p(1) show ?thesis by (simp add: lifecycle_steps_def lifecycle_doc_keys jget_Cons)
  qed (use i p(1) in \<open>simp_all add: lifecycle_steps_def lifecycle_doc_keys\<close>)
qed

text \<open>
  The snapshot a run keeps rebuilds the very lifecycle that was validated when the run was
  prepared, so a plan edited while its run waits in the queue changes nothing of what the run
  executes.
\<close>

theorem snapshot_rebuilds_lifecycle:
  assumes live: "build_lifecycle_from_steps plan steps (script_defaults meta) = Inr lc"
    and valid: "validate_lifecycle_semantics (JObj [(''lifecycle'', JObj lc)]) = None"
    and rows: "list_all (\<lambda>st. ps_stage st \<in> {''init'', ''patrol'', ''teardown''} \<and> ps_script_name st \<noteq> []) steps"
  shows "build_lifecycle_from_snapshot (build_plan_snapshot plan steps meta) = Inr lc"
proof -
  let ?on = "filter ps_enabled (sort_key step_order steps)" and ?snap = "build_plan_snapshot plan steps meta"
  from live obtain defs where c: "collect (live_step (script_defaults meta)) ?on = Inr defs"
    by (auto simp: build_lifecycle_from_steps_def split: sum.splits)
  have step: "snapshot_step (snapshot_step_doc meta st) = live_step (script_defaults meta) st" if "st \<in> set ?on" for st
  proof -
    from that rows have st: "ps_stage st \<in> {''init'', ''patrol'', ''teardown''}" "ps_script_name st \<noteq> []"
      by (auto simp: list_all_iff)
    from collect_member [OF c that] obtain m d where m: "meta (ps_script_name st, ps_script_version st) = Some m"
      and "(ps_stage st, JObj (step_def_of st d)) \<in> set defs"
      by (auto simp: live_step_def script_defaults_def split: option.splits)
    with built_steps_listed [OF live c _ st(1)] built_step_versioned [OF valid_unversioned_free [OF valid]]
    have "ps_script_version st \<noteq> []" by blast
    with st m show ?thesis by (intro step_doc_step [where m = m]) (simp_all add: snapshot_ready_def)
  qed
  have "filter snapshot_enabled (map (snapshot_step_doc meta) (sort_key step_order steps)) = map (snapshot_step_doc meta) ?on"
    by (simp add: filter_map comp_def step_doc_enabled)
  note on = this
  have "collect snapshot_step (map (snapshot_step_doc meta) ?on) = Inr defs"
    using c collect_cong [of ?on "snapshot_step \<circ> snapshot_step_doc meta" "live_step (script_defaults meta)"] step
    by (simp add: collect_map)
  then have cs: "collect snapshot_step (filter snapshot_enabled (objs_of (sort_key (the \<circ> snapshot_order)
      (map (JObj \<circ> snapshot_step_doc meta) (sort_key step_order steps))))) = Inr defs"
    unfolding snapshot_steps_sorted objs_of_map_JObj on .
  have ordered: "\<not> list_ex (\<lambda>st. snapshot_order st = None) (map (JObj \<circ> snapshot_step_doc meta) xs)" for xs
    by (simp add: list_ex_iff step_doc_order)
  note fields = snapshot_plan_fields [OF refl, of plan steps meta]
  have iv: "positive_int (JInt n)" if "pl_patrol_interval_seconds plan = Some n" "in_stage ''patrol'' defs \<noteq> []" for n
    using live c that valid_patrol [OF valid]
    by (auto simp: build_lifecycle_from_steps_def Let_def lifecycle_doc_keys jget_Cons)
  show ?thesis
    using live c iv
    by (auto simp: build_lifecycle_from_snapshot_def build_lifecycle_from_steps_def Let_def fields cs ordered
        split: if_splits option.splits)
qed

subsection \<open>Facts about injection\<close>

lemma on_object_simps [simp]: "on_object f (JObj d) = JObj (f d)" "obj_of st = None \<Longrightarrow> on_object f st = st"
  by (simp_all add: on_object_def)

lemma obj_of_Some [simp]: "obj_of v = Some d \<longleftrightarrow> v = JObj d"
  by (cases v) auto

lemma map_of_update_key: "map_of (update_key k f d) k' = (if k' = k then map_option f (map_of d k) else map_of d k')"
  by (induction d) (auto simp: update_key_def)

lemma jget_update_key:
  "f JNull = JNull \<Longrightarrow> jget (update_key k f d) k' = (if k' = k then f (jget d k) else jget d k')"
  by (auto simp: jget_def map_of_update_key split: option.splits)

lemma list_or_empty_update [simp]: "list_or_empty (update_list f v) = map f (list_or_empty v)"
  by (cases v) (simp_all add: update_list_def)

lemma jget_missing [simp]: "map_of d k = None \<Longrightarrow> jget d k = JNull"
  by (simp add: jget_def)

lemma lifecycle_steps_update:
  "lifecycle_steps (update_lifecycle_steps f lc) = map (on_object f) (lifecycle_steps lc)"
proof -
  have n [simp]: "update_list h JNull = JNull" "on_object k JNull = JNull" for h k
    by (simp_all add: update_list_def)
  have p: "list_or_empty (jget (obj_or_empty (on_object (update_key ''steps'' (update_list g)) v)) ''steps'')
      = map g (list_or_empty (jget (obj_or_empty v) ''steps''))" for g v
    by (cases v) (auto simp: jget_update_key on_object_def)
  show ?thesis by (simp add: lifecycle_steps_def update_lifecycle_steps_def jget_update_key p)
qed

lemma jget_fill_in: "jget (fill_in k v d) k' = (if k' = k \<and> \<not> truthy (jget d k) then v else jget d k')"
  by (simp add: fill_in_def jget_update)

lemma fill_in_kept: "truthy (jget d k) \<Longrightarrow> jget (fill_in k' v d) k = jget d k"
  by (auto simp: jget_fill_in)

lemma fill_in_all_kept: "truthy (jget d k) \<Longrightarrow> jget (fold (\<lambda>(k, v). fill_in k v) kvs d) k = jget d k"
proof (induction kvs arbitrary: d)
  case (Cons kv kvs)
  with fill_in_kept [OF Cons.prems] show ?case by (cases kv) simp
qed simp

lemma fill_in_all_filled:
  "\<not> truthy (jget d k) \<Longrightarrow> truthy (jget kvs k) \<Longrightarrow> jget (fold (\<lambda>(k, v). fill_in k v) kvs d) k = jget kvs k"
proof (induction kvs arbitrary: d)
  case (Cons kv kvs)
  obtain k' v where kv: "kv = (k', v)" by (cases kv)
  show ?case
  proof (cases "k' = k")
    case True
    with Cons.prems kv have "jget (fill_in k' v d) k = v" "truthy v" by (simp_all add: jget_fill_in jget_Cons)
    with True kv show ?thesis using fill_in_all_kept [of "fill_in k' v d" k kvs] by (simp add: jget_Cons)
  next
    case False
    with Cons.prems kv show ?thesis by (simp add: jget_fill_in jget_Cons Cons.IH)
  qed
qed simp

definition step_project :: "json \<Rightarrow> string" where
  "step_project st = py_str (jget (obj_or_empty (jget (obj_or_empty st) ''params'')) ''project'')"

lemma suite_step_action: "step_action (JObj (suite_step sp d)) = step_action (JObj d)"
  by (simp add: suite_step_def step_action_def jget_update)

lemma suite_step_project:
  assumes "is_mtbf d" "\<not> project_conflict sp d" "truthy (jget sp ''project'')"
  shows "step_project (JObj (suite_step sp d)) = py_str (jget sp ''project'')"
proof (cases "truthy (jget (obj_or_empty (jget d ''params'')) ''project'')")
  case True
  moreover have "\<not> blank v" if "truthy v" for v using that by (auto simp: blank_def)
  ultimately show ?thesis
    using assms by (auto simp: step_project_def suite_step_def jget_update fill_in_all_kept project_conflict_def Let_def)
next
  case False
  with assms show ?thesis by (simp add: step_project_def suite_step_def jget_update fill_in_all_filled)
qed

text \<open>
  Whatever parameters a plan or a script declares, after the injection every MTBF step runs against the
  project directory of the suite that was gated, or the run is refused.
\<close>

theorem mtbf_steps_gated:
  assumes "inject_suite_params lc sp = Inr lc'" "truthy (jget sp ''project'')"
    "st \<in> set (lifecycle_steps lc')" "starts_with ''script:mtbf_'' (step_action st)"
  shows "step_project st = py_str (jget sp ''project'')"
proof -
  have "sp \<noteq> []" using assms(2) by auto
  with assms(1) have none: "\<forall>d\<in>set (objs_of (lifecycle_steps lc)). \<not> project_conflict sp d"
    and lc': "lc' = update_lifecycle_steps (suite_step sp) lc"
    by (auto simp: inject_suite_params_def filter_empty_conv split: list.splits)
  from assms(3) obtain st0 where st0: "st0 \<in> set (lifecycle_steps lc)" "st = on_object (suite_step sp) st0"
    by (auto simp: lc' lifecycle_steps_update)
  show ?thesis
  proof (cases "obj_of st0")
    case None
    then have "step_action st0 = []" by (cases st0) (simp_all add: step_action_def)
    with None st0 assms(4) show ?thesis by simp
  next
    case (Some d)
    with st0 have "d \<in> set (objs_of (lifecycle_steps lc))" by (force simp: objs_of_def map_filter_def)
    with none have "\<not> project_conflict sp d" by blast
    with Some st0 assms(2,4) show ?thesis by (simp add: suite_step_project is_mtbf_def suite_step_action)
  qed
qed

text \<open>Injecting the WiFi of a pool twice is injecting it once, and a value of the plan is never replaced.\<close>

lemma wifi_step_action: "step_action (JObj (wifi_step ssid pw d)) = step_action (JObj d)"
  by (simp add: wifi_step_def step_action_def jget_update Let_def)

lemma inject_wifi_keeps_values:
  assumes "d \<in> set (objs_of (lifecycle_steps lc))" "contains ''connect_wifi'' (step_action (JObj d))"
    "truthy (jget (obj_or_empty (jget d ''params'')) k)"
  shows "jget (obj_or_empty (jget (wifi_step ssid pw d) ''params'')) k = jget (obj_or_empty (jget d ''params'')) k"
  using assms by (auto simp: wifi_step_def Let_def jget_update jget_fill_in)

lemma inject_wifi_connects:
  assumes "truthy ssid" "contains ''connect_wifi'' (step_action (JObj d))"
  shows "truthy (jget (obj_or_empty (jget (wifi_step ssid pw d) ''params'')) ''ssid'')"
  using assms by (auto simp: wifi_step_def Let_def jget_update jget_fill_in)

subsection \<open>A concrete plan\<close>

definition sample_plan :: plan_row where
  "sample_plan = \<lparr>pl_id = 2, pl_name = ''soak'', pl_description = None, pl_patrol_interval_seconds = Some 60,
     pl_timeout_seconds = Some 7200, pl_barrier_timeout_seconds = None, pl_barrier_max_wait_seconds = None,
     pl_auto_archive_interval_seconds = None, pl_next_plan_id = Some 9, pl_watcher_policy = JNull, pl_suite_id = None\<rparr>"

definition sample_step :: "string \<Rightarrow> string \<Rightarrow> string \<Rightarrow> int \<Rightarrow> step_row" where
  "sample_step key script stage order =
     \<lparr>ps_plan_id = 2, ps_step_key = key, ps_script_name = script, ps_script_version = ''1.0.0'',
      ps_stage = stage, ps_sort_order = order, ps_timeout_seconds = Some 300, ps_stall_seconds = None,
      ps_params = JObj [(''retries'', JInt 3)], ps_retry = 1, ps_enabled = True\<rparr>"

definition sample_steps :: "step_row list" where
  "sample_steps = [sample_step ''p1'' ''monkey_run'' ''patrol'' 0, sample_step ''i2'' ''mtbf_setup'' ''init'' 1,
     sample_step ''i1'' ''connect_wifi'' ''init'' 0, sample_step ''t1'' ''collect_logs'' ''teardown'' 0]"

definition sample_meta :: "script_key \<Rightarrow> script_meta option" where
  "sample_meta key = Some \<lparr>m_param_schema = JObj [(''retries'', JObj [(''default'', JInt 1)])],
     m_default_params = JObj [(''band'', JStr ''5g'')], m_nfs_path = ''/scripts''\<rparr>"

definition sample_lifecycle :: jobj where
  "sample_lifecycle = (case build_lifecycle_from_steps sample_plan sample_steps (script_defaults sample_meta) of
     Inl _ \<Rightarrow> [] | Inr lc \<Rightarrow> lc)"

lemma snapshot_rebuilds_lifecycle_witness:
  "build_lifecycle_from_snapshot (build_plan_snapshot sample_plan sample_steps sample_meta) = Inr sample_lifecycle
     \<and> length (lifecycle_steps sample_lifecycle) = 4"
proof
  have "isl (build_lifecycle_from_steps sample_plan sample_steps (script_defaults sample_meta)) = False"
    by code_simp
  then have live: "build_lifecycle_from_steps sample_plan sample_steps (script_defaults sample_meta) = Inr sample_lifecycle"
    by (auto simp: sample_lifecycle_def split: sum.splits)
  have valid: "validate_lifecycle_semantics (JObj [(''lifecycle'', JObj sample_lifecycle)]) = None" by code_simp
  have rows: "list_all (\<lambda>st. ps_stage st \<in> {''init'', ''patrol'', ''teardown''} \<and> ps_script_name st \<noteq> []) sample_steps"
    by code_simp
  show "build_lifecycle_from_snapshot (build_plan_snapshot sample_plan sample_steps sample_meta) = Inr sample_lifecycle"
    by (rule snapshot_rebuilds_lifecycle [OF live valid rows])
  show "length (lifecycle_steps sample_lifecycle) = 4" by code_simp
qed

definition sample_suite :: jobj where
  "sample_suite = [(''expected_testpoint_count'', JInt 12), (''project'', JStr ''mld'')]"

lemma mtbf_steps_gated_witness:
  "\<exists>lc st. inject_suite_params sample_lifecycle sample_suite = Inr lc \<and> st \<in> set (lifecycle_steps lc)
     \<and> starts_with ''script:mtbf_'' (step_action st) \<and> step_project st = ''mld''"
proof -
  let ?i = "inject_suite_params sample_lifecycle sample_suite"
  have "isl ?i = False" by code_simp
  then obtain lc where lc: "?i = Inr lc" by (cases ?i) auto
  have "case ?i of Inl _ \<Rightarrow> False
      | Inr lc \<Rightarrow> length (lifecycle_steps lc) = 4 \<and> starts_with ''script:mtbf_'' (step_action (lifecycle_steps lc ! 1))"
    by code_simp
  with lc have m: "lifecycle_steps lc ! 1 \<in> set (lifecycle_steps lc)"
    "starts_with ''script:mtbf_'' (step_action (lifecycle_steps lc ! 1))" by simp_all
  have "truthy (jget sample_suite ''project'')" "py_str (jget sample_suite ''project'') = ''mld''" by code_simp+
  with mtbf_steps_gated [OF lc _ m] have "step_project (lifecycle_steps lc ! 1) = ''mld''" by simp
  with lc m show ?thesis by blast
qed

end
