(* ===== verification/Resource_Pools.thy ===== *)
theory Resource_Pools
  imports Platform_Tables
begin

section \<open>WiFi pools (plan\_dispatcher\_sync.py, models/resource\_pool.py)\<close>

text \<open>
  The allocator gives every device of a run one pool: the least loaded of those its host may use and
  that have room, where the load of a pool is the number of its allocations whose job is still active.
\<close>

subsection \<open>Matching hosts and pools\<close>

definition ACTIVE_JOB_STATUSES :: "job_status list" where
  "ACTIVE_JOB_STATUSES = [J_PENDING, J_RUNNING, J_UNKNOWN]"

definition active_job :: "job_row \<Rightarrow> bool" where
  "active_job j \<longleftrightarrow> j_status j \<in> set ACTIVE_JOB_STATUSES"

lemma active_not_terminal: "active_job j \<longleftrightarrow> \<not> terminal_status (j_status j)"
  by (cases "j_status j") (simp_all add: active_job_def ACTIVE_JOB_STATUSES_def)

definition host_match_keys :: "host_row \<Rightarrow> string list" where
  "host_match_keys h =
     h_id h # (case h_name h of None \<Rightarrow> [] | Some n \<Rightarrow> if n = [] then [] else [n])
     @ (if h_hostname h = [] then [] else [h_hostname h])"

definition pool_host_group_matches :: "pool_row \<Rightarrow> string list option \<Rightarrow> bool" where
  "pool_host_group_matches pool host_keys =
     (let group = strip (case rp_host_group pool of None \<Rightarrow> [] | Some g \<Rightarrow> g) in
      group = [] \<or> (case host_keys of None \<Rightarrow> False | Some ks \<Rightarrow> group \<in> set ks))"

definition load_host_match_keys :: "db \<Rightarrow> string option \<Rightarrow> string list option" where
  "load_host_match_keys s host_id =
     (case host_id of None \<Rightarrow> None
      | Some h \<Rightarrow> if h = [] then None else map_option host_match_keys (get_host s h))"

subsection \<open>The allocator\<close>

text \<open>\<open>AllocationError\<close>, one constructor per message.\<close>

datatype alloc_error =
    PoolMissing json
  | NoActivePools
  | PoolNotAllowed json nat
  | NoPoolForDevice nat
  | PoolsFull nat

type_synonym assignment = "(nat \<times> (pool_row \<times> jobj)) list"

definition selectable_pools :: "string \<Rightarrow> json \<Rightarrow> db \<Rightarrow> pool_row list" where
  \<comment> \<open>\<open>pool\_id\<close> as the run's context holds it: null when the operator chose none\<close>
  "selectable_pools resource_type pool_id s =
     sort_key rp_id (filter (\<lambda>p. rp_resource_type p = resource_type \<and> rp_is_active p
       \<and> (pool_id = JNull \<or> pool_id = JInt (int (rp_id p)))) (pools s))"

definition pool_load :: "db \<Rightarrow> nat \<Rightarrow> int" where
  "pool_load s i = int (length (filter (\<lambda>a. ra_resource_pool_id a = i
     \<and> list_ex (\<lambda>j. j_id j = ra_job_instance_id a \<and> active_job j) (jobs s)) (allocations s)))"

definition least_loaded :: "(nat \<Rightarrow> int) \<Rightarrow> pool_row list \<Rightarrow> pool_row option" where
  \<comment> \<open>the first pool with room, by load and id\<close>
  "least_loaded loads eligible =
     find (\<lambda>p. loads (rp_id p) < rp_max_concurrent_devices p) (sort_key (\<lambda>p. (loads (rp_id p), rp_id p)) eligible)"

definition took :: "nat \<Rightarrow> (nat \<Rightarrow> int) \<Rightarrow> nat \<Rightarrow> int" where
  "took i loads = loads(i := loads i + 1)"

definition pool_params :: "pool_row \<Rightarrow> jobj" where
  "pool_params p =
     (let config = obj_or_empty (rp_config p); str = (\<lambda>k. case map_of config k of None \<Rightarrow> JStr [] | Some v \<Rightarrow> v) in
      [(''ssid'', str ''ssid''), (''password'', str ''password''), (''pool_name'', JStr (rp_name p)),
       (''pool_id'', JInt (int (rp_id p)))])"

fun allocate_loop ::
  "json \<Rightarrow> (nat \<Rightarrow> pool_row list) \<Rightarrow> nat list \<Rightarrow> (nat \<Rightarrow> int) \<Rightarrow> assignment \<Rightarrow> alloc_error + assignment" where
  "allocate_loop pool_id eligible [] loads acc = Inr acc"
| "allocate_loop pool_id eligible (d # ds) loads acc =
     (if eligible d = [] then Inl (if pool_id \<noteq> JNull then PoolNotAllowed pool_id d else NoPoolForDevice d)
      else case least_loaded loads (eligible d) of
        None \<Rightarrow> Inl (PoolsFull d)
      | Some p \<Rightarrow> allocate_loop pool_id eligible ds (took (rp_id p) loads)
                    (AList.update d (p, pool_params p) acc))"

definition sync_allocate_devices ::
  "nat list \<Rightarrow> string \<Rightarrow> json \<Rightarrow> (nat \<Rightarrow> string option) \<Rightarrow> db \<Rightarrow> alloc_error + assignment" where
  "sync_allocate_devices device_ids resource_type pool_id device_host s =
     (let ps = selectable_pools resource_type pool_id s in
      if ps = [] then Inl (if pool_id \<noteq> JNull then PoolMissing pool_id else NoActivePools)
      else allocate_loop pool_id
             (\<lambda>d. filter (\<lambda>p. pool_host_group_matches p (load_host_match_keys s (device_host d))) ps)
             device_ids (pool_load s) [])"

definition sync_create_allocations :: "assignment \<Rightarrow> (nat \<times> nat) list \<Rightarrow> alloc_row list" where
  \<comment> \<open>the rows for the jobs and their devices\<close>
  "sync_create_allocations assignments job_device_map =
     List.map_filter (\<lambda>(job_id, device_id). map_option
       (\<lambda>(pool, params). \<lparr>ra_job_instance_id = job_id, ra_resource_pool_id = rp_id pool,
          ra_device_id = device_id, ra_allocated_params = params\<rparr>)
       (map_of assignments device_id)) job_device_map"

subsection \<open>Every device gets an allowed pool with room\<close>

lemma least_loaded_Some:
  assumes "least_loaded loads ps = Some p"
  shows "p \<in> set ps" "loads (rp_id p) < rp_max_concurrent_devices p"
proof -
  have "p \<in> set (sort_key (\<lambda>p. (loads (rp_id p), rp_id p)) ps)" "loads (rp_id p) < rp_max_concurrent_devices p"
    using assms unfolding least_loaded_def by (auto simp: find_Some_iff simp del: set_sort length_sort intro: nth_mem)
  then show "p \<in> set ps" "loads (rp_id p) < rp_max_concurrent_devices p" by simp_all
qed

lemma least_loaded_None:
  "least_loaded loads ps = None \<Longrightarrow> p \<in> set ps \<Longrightarrow> rp_max_concurrent_devices p \<le> loads (rp_id p)"
  by (force simp: least_loaded_def find_None_iff)

definition assigned_to :: "nat \<Rightarrow> assignment \<Rightarrow> nat" where
  \<comment> \<open>how many devices were given pool \<open>i\<close>\<close>
  "assigned_to i acc = length (filter (\<lambda>a. rp_id (fst (snd a)) = i) acc)"

lemma update_fresh: "d \<notin> fst ` set acc \<Longrightarrow> AList.update d x acc = acc @ [(d, x)]"
  by (induction acc) auto

definition fits :: "(nat \<Rightarrow> pool_row list) \<Rightarrow> (nat \<Rightarrow> int) \<Rightarrow> assignment \<Rightarrow> bool" where
  "fits eligible loads acc \<longleftrightarrow> (\<forall>i. assigned_to i acc = 0 \<or> (\<exists>q d. q \<in> set (eligible d) \<and> rp_id q = i
     \<and> loads i + int (assigned_to i acc) \<le> rp_max_concurrent_devices q))"

lemma took_simps [simp]: "took i loads i = loads i + 1" "j \<noteq> i \<Longrightarrow> took i loads j = loads j"
  by (simp_all add: took_def)

lemma assigned_Cons: "assigned_to i ((d, p, x) # acc) = (if rp_id p = i then Suc (assigned_to i acc) else assigned_to i acc)"
  by (simp add: assigned_to_def)

lemma fits_Cons:
  assumes "fits eligible (took (rp_id p) loads) acc" "p \<in> set (eligible d)"
    "loads (rp_id p) < rp_max_concurrent_devices p"
  shows "fits eligible loads ((d, p, x) # acc)"
  unfolding fits_def
proof
  fix i
  from assms(1) have i: "assigned_to i acc = 0 \<or> (\<exists>q d. q \<in> set (eligible d) \<and> rp_id q = i
     \<and> took (rp_id p) loads i + int (assigned_to i acc) \<le> rp_max_concurrent_devices q)"
    unfolding fits_def by blast
  show "assigned_to i ((d, p, x) # acc) = 0 \<or> (\<exists>q da. q \<in> set (eligible da) \<and> rp_id q = i
     \<and> loads i + int (assigned_to i ((d, p, x) # acc)) \<le> rp_max_concurrent_devices q)"
  proof (cases "rp_id p = i")
    case False
    with i show ?thesis by (simp add: assigned_Cons)
  next
    case True
    show ?thesis
    proof (cases "assigned_to i acc = 0")
      case none: True
      with True assms(2,3) show ?thesis by (auto simp: assigned_Cons intro!: exI [of _ p] exI [of _ d])
    next
      case False
      with i True show ?thesis by (auto simp: assigned_Cons algebra_simps)
    qed
  qed
qed

lemma allocate_loop_run:
  assumes "allocate_loop pool_id eligible ds loads acc = Inr res" "distinct ds" "set ds \<inter> fst ` set acc = {}"
  shows "\<exists>more. res = acc @ more \<and> map fst more = ds \<and> fits eligible loads more
     \<and> list_all (\<lambda>(d, p, x). p \<in> set (eligible d) \<and> x = pool_params p) more"
  using assms
proof (induction ds arbitrary: loads acc)
  case Nil
  then show ?case by (simp add: assigned_to_def fits_def)
next
  case (Cons d ds)
  then obtain p where p: "least_loaded loads (eligible d) = Some p"
    and r: "allocate_loop pool_id eligible ds (took (rp_id p) loads) (acc @ [(d, p, pool_params p)]) = Inr res"
    by (auto simp: update_fresh split: if_splits option.splits)
  have "set ds \<inter> fst ` set (acc @ [(d, p, pool_params p)]) = {}" using Cons.prems(2,3) by auto
  from Cons.IH [OF r _ this] Cons.prems(2) obtain more where
    m: "res = (acc @ [(d, p, pool_params p)]) @ more" "map fst more = ds"
      "list_all (\<lambda>(d, p, x). p \<in> set (eligible d) \<and> x = pool_params p) more"
      "fits eligible (took (rp_id p) loads) more" by auto
  note lp = least_loaded_Some [OF p]
  from m(1-3) lp fits_Cons [OF m(4) lp] show ?case by (intro exI [of _ "(d, p, pool_params p) # more"]) simp
qed

text \<open>
  Where every device may use every pool the allocator is exact: it succeeds as soon as the pools have
  room for all devices.
\<close>

definition free_slots :: "pool_row list \<Rightarrow> (nat \<Rightarrow> int) \<Rightarrow> nat" where
  "free_slots ps loads = (\<Sum>p\<leftarrow>ps. nat (rp_max_concurrent_devices p - loads (rp_id p)))"

lemma free_slots_other: "i \<notin> rp_id ` set ps \<Longrightarrow> free_slots ps (took i loads) = free_slots ps loads"
  by (induction ps) (auto simp: free_slots_def)

lemma free_slots_taken:
  assumes "distinct (map rp_id ps)" "p \<in> set ps" "loads (rp_id p) < rp_max_concurrent_devices p"
  shows "Suc (free_slots ps (took (rp_id p) loads)) = free_slots ps loads"
  using assms
proof (induction ps)
  case (Cons q ps)
  have c: "free_slots (q # ps) l = nat (rp_max_concurrent_devices q - l (rp_id q)) + free_slots ps l" for l
    by (simp add: free_slots_def)
  show ?case
  proof (cases "q = p")
    case True
    with Cons.prems have "rp_id p \<notin> rp_id ` set ps" by auto
    with True Cons.prems(3) show ?thesis unfolding c by (simp add: free_slots_other)
  next
    case False
    with Cons.prems have "rp_id q \<noteq> rp_id p" by force
    with False Cons show ?thesis by (simp add: c)
  qed
qed simp

lemma free_slots_none:
  assumes "least_loaded loads ps = None"
  shows "free_slots ps loads = 0"
  using least_loaded_None [OF assms] by (auto simp: free_slots_def)

theorem allocation_exact:
  assumes "distinct (map rp_id ps)" "ps \<noteq> []"
  shows "isl (allocate_loop pool_id (\<lambda>d. ps) ds loads acc) \<longleftrightarrow> free_slots ps loads < length ds"
proof (induction ds arbitrary: loads acc)
  case (Cons d ds)
  show ?case
  proof (cases "least_loaded loads ps")
    case None
    with assms free_slots_none [OF None] show ?thesis by simp
  next
    case (Some p)
    with assms Cons.IH free_slots_taken [where loads = loads, OF assms(1) least_loaded_Some [OF Some]] show ?thesis by auto
  qed
qed simp

text \<open>
  With host groups it is not: devices are served in order and a pool of the whole site with a low id is
  taken before the pool of the device's own group, so that an allocation that exists is missed.
\<close>

definition site_pool :: pool_row where
  "site_pool = \<lparr>rp_id = 1, rp_name = ''site'', rp_resource_type = ''wifi'', rp_config = JNull,
     rp_max_concurrent_devices = 1, rp_host_group = None, rp_is_active = True\<rparr>"

definition group_pool :: pool_row where
  "group_pool = site_pool\<lparr>rp_id := 2, rp_name := ''lab'', rp_host_group := Some ''h1''\<rparr>"

definition grouped :: "nat \<Rightarrow> pool_row list" where
  \<comment> \<open>device 5 is on host h1, device 6 is not\<close>
  "grouped d = (if d = 5 then [site_pool, group_pool] else [site_pool])"

lemma allocation_not_exact_for_groups:
  "allocate_loop JNull grouped [5, 6] (\<lambda>_. 0) [] = Inl (PoolsFull 6)
   \<and> allocate_loop JNull grouped [6, 5] (\<lambda>_. 0) [] =
       Inr [(6, site_pool, pool_params site_pool), (5, group_pool, pool_params group_pool)]"
  by code_simp

end
