(* ===== verification/Run_Queue.thy ===== *)
theory Run_Queue
  imports Dispatch_Lifecycle Resource_Pools Agent_Claim
begin

section \<open>Preparing a run (plan\_dispatcher\_sync.py, core/device\_serial.py)\<close>

text \<open>
  The first stage of a dispatch: the target devices are classified, the plan is turned into a lifecycle
  and validated, and a QUEUED run is stored with its snapshot, one row per host and one per target.
  Jobs are created only when the admission pump admits the run.
\<close>

subsection \<open>Placeholder serials\<close>

definition PLACEHOLDER_SERIALS :: "string list" where
  "PLACEHOLDER_SERIALS = [''0123456789abcdef'', ''1234567890abcdef'', ''0000000000'', ''0000000000000000'',
     ''unknown'', ''none'', ''null'', ''android'', ''0123456789'']"

definition is_placeholder_serial :: "string \<Rightarrow> bool" where
  "is_placeholder_serial serial =
     (let s = lower (strip serial) in
      s = [] \<or> s \<in> set PLACEHOLDER_SERIALS \<or> length s \<ge> 8 \<and> length (remdups s) = 1)"

subsection \<open>Classifying devices\<close>

text \<open>
  Why a device cannot be dispatched to: the first matching reason, as the entry of the answer without
  its id.
\<close>

type_synonym block = "string \<times> jobj"

definition FATAL_DISPATCH_REASONS :: "string list" where
  "FATAL_DISPATCH_REASONS = [''not_found'', ''no_host'', ''host_retired'', ''device_retired'']"

definition opt_id :: "nat option \<Rightarrow> json" where
  "opt_id i = (case i of None \<Rightarrow> JNull | Some n \<Rightarrow> JInt (int n))"

definition host_field :: "db \<Rightarrow> string \<Rightarrow> (host_row \<Rightarrow> 'a option) \<Rightarrow> 'a option" where
  \<comment> \<open>a column of the outer join\<close>
  "host_field s h f = (case get_host s h of None \<Rightarrow> None | Some r \<Rightarrow> f r)"

definition first_active_job :: "db \<Rightarrow> nat \<Rightarrow> job_row option" where
  "first_active_job s d = first_row (sort_key j_id (filter (\<lambda>j. j_device_id j = d \<and> active_job j) (jobs s)))"

definition busy_block :: "db \<Rightarrow> nat list \<Rightarrow> nat \<Rightarrow> block option" where
  "busy_block s ids did =
     (if did \<in> set (devices_with_open_debt_sync s ids) then Some (''device_return_debt'', [])
      else case get_active_lease s did of
        Some l \<Rightarrow> Some (''active_lease'', [(''lease_job_id'', opt_id (l_job_id l))])
      | None \<Rightarrow> (case first_active_job s did of
          Some j \<Rightarrow> Some (''active_job'', [(''job_id'', JInt (int (j_id j))), (''job_status'', JStr (job_status_text (j_status j)))])
        | None \<Rightarrow> None))"

definition health_block :: "db \<Rightarrow> time \<Rightarrow> device_row \<Rightarrow> string \<Rightarrow> block option" where
  "health_block s now v h =
     (if d_status v = ''OFFLINE'' then Some (''device_offline'', [(''device_status'', JStr (d_status v))])
      else if d_status v = ''ERROR'' then Some (''device_error'', [(''device_status'', JStr (d_status v))])
      else if host_field s h (Some \<circ> h_status) = Some ''OFFLINE''
        then Some (''host_offline'', [(''host_id'', JStr h), (''host_status'', JStr ''OFFLINE'')])
      else if in_maintenance_window (host_field s h h_maintenance_until) now
        then Some (''host_maintenance'', [(''host_id'', JStr h)])
      else None)"

definition identity_block :: "db \<Rightarrow> device_row \<Rightarrow> string \<Rightarrow> block option" where
  "identity_block s v h =
     (if host_field s h h_retired_at \<noteq> None
        then Some (''host_retired'', [(''host_id'', JStr h), (''host_status'', opt_json (host_field s h (Some \<circ> h_status)))])
      else if d_retired_at v \<noteq> None
        then Some (''device_retired'', [(''device_status'', JStr (d_status v)), (''serial'', JStr (d_serial v)), (''host_id'', JStr h)])
      else if is_placeholder_serial (d_serial v)
        then Some (''serial_conflict'', [(''serial'', JStr (d_serial v)), (''host_id'', JStr h)])
      else None)"

definition device_block :: "db \<Rightarrow> time \<Rightarrow> nat list \<Rightarrow> nat \<Rightarrow> block option" where
  "device_block s now ids did =
     (case get_device s did of None \<Rightarrow> Some (''not_found'', [])
      | Some v \<Rightarrow> (case d_host_id v of None \<Rightarrow> Some (''no_host'', [])
         | Some h \<Rightarrow> (case identity_block s v h of Some b \<Rightarrow> Some b
            | None \<Rightarrow> (case health_block s now v h of Some b \<Rightarrow> Some b | None \<Rightarrow> busy_block s ids did))))"

definition block_entry :: "nat \<Rightarrow> block \<Rightarrow> jobj" where
  "block_entry did b = [(''id'', JInt (int did)), (''reason'', JStr (fst b))] @ snd b"

definition classified :: "db \<Rightarrow> time \<Rightarrow> nat list \<Rightarrow> (nat \<times> block) list" where
  \<comment> \<open>\<open>\_classify\_dispatch\_devices\_sync\<close>: the unavailable devices, in order\<close>
  "classified s now ids = List.map_filter (\<lambda>did. map_option (Pair did) (device_block s now ids did)) ids"

definition device_host :: "db \<Rightarrow> nat \<Rightarrow> string option" where
  \<comment> \<open>\<open>device\_host\_map\<close>\<close>
  "device_host s did = (case get_device s did of None \<Rightarrow> None | Some v \<Rightarrow> d_host_id v)"

definition entries :: "(nat \<times> block) list \<Rightarrow> jobj list" where
  "entries bs = map (\<lambda>(did, b). block_entry did b) bs"

definition with_reason :: "(string \<Rightarrow> bool) \<Rightarrow> (nat \<times> block) list \<Rightarrow> (nat \<times> block) list" where
  "with_reason P bs = filter (\<lambda>(did, b). P (fst b)) bs"

definition validate_dispatch_devices :: "db \<Rightarrow> time \<Rightarrow> nat list \<Rightarrow> jobj list option" where
  \<comment> \<open>the unavailable devices of the error; the strict check of the legacy path\<close>
  "validate_dispatch_devices s now ids =
     (if ids = [] then Some []
      else if classified s now ids = [] then None else Some (entries (classified s now ids)))"

subsection \<open>Preparing\<close>

datatype prepare_error =
    AdmissionDisabled
  | PumpNotReady
  | PlanNotFound nat
  | NoDevices
  | DevicesUnavailable "jobj list"
  | AllSerialConflicts "jobj list"
  | PlanHasNoSteps nat
  | LegacyScriptsDisabled "string list"
  | ScriptsUnavailable "string list"
  | LifecycleError dispatch_error
  | SuiteBindingRequired "string list"
  | InvalidLifecycle
  | ConfirmationChanged
  | ChainChildExists

record prepare_in =
  pi_plan_id :: nat
  pi_device_ids :: "nat list"
  pi_triggered_by :: string
  pi_run_type :: string
  pi_run_context :: jobj
  pi_parent_id :: "nat option"
  pi_root_id :: "nat option"
  pi_chain_index :: "int option"
  pi_fingerprint :: "string option"

text \<open>
  What preparing reads besides the database: the flag and the readiness of the pump, the JSON-schema
  half of the validator (library jsonschema), the fingerprint of a plan (HMAC of its canonical JSON)
  and the attribution block (suite baseline and project) that reporting modules freeze.
\<close>

record queue_env =
  qe_flag_enabled :: bool
  qe_pump_ready :: bool
  qe_schema_ok :: "json \<Rightarrow> bool"
  qe_fingerprint :: "plan_row \<Rightarrow> step_row list \<Rightarrow> (script_key \<Rightarrow> script_meta option) \<Rightarrow> string"
  qe_frozen :: "plan_row \<Rightarrow> nat list \<Rightarrow> jobj"

definition fetch_script_metadata :: "db \<Rightarrow> script_key \<Rightarrow> script_meta option" where
  "fetch_script_metadata s key =
     map_option (\<lambda>k. \<lparr>m_param_schema = jor (k_param_schema k) (JObj []),
         m_default_params = jor (k_default_params k) (JObj []), m_nfs_path = k_nfs_path k\<rparr>)
       (first_row (filter (\<lambda>k. (k_name k, k_version k) = key \<and> k_is_active k) (scripts s)))"

definition snapshot_dispatch_host_watcher_admin_states :: "db \<Rightarrow> nat list \<Rightarrow> jobj" where
  "snapshot_dispatch_host_watcher_admin_states s ids =
     (let hs = sort (remdups (filter (\<lambda>h. h \<noteq> []) (List.map_filter d_host_id (filter (\<lambda>v. d_id v \<in> set ids) (devices s)))))
      in map (\<lambda>h. (h, JBool (case get_host s h of None \<Rightarrow> True | Some r \<Rightarrow> h_watcher_admin_active r))) hs)"

definition device_builds :: "db \<Rightarrow> nat list \<Rightarrow> jobj" where
  "device_builds s ids =
     map (\<lambda>v. (dec (d_id v), opt_json (d_build_display_id v))) (filter (\<lambda>v. d_id v \<in> set ids) (devices s))"

definition frozen_build_version :: "jobj \<Rightarrow> string option" where
  \<comment> \<open>only when all devices agree\<close>
  "frozen_build_version builds =
     (case remdups (filter truthy (map snd builds)) of [JStr b] \<Rightarrow> Some b | _ \<Rightarrow> None)"

definition queued_context :: "queue_env \<Rightarrow> plan_row \<Rightarrow> nat list \<Rightarrow> jobj list \<Rightarrow> jobj \<Rightarrow> db \<Rightarrow> jobj" where
  "queued_context qe plan target_ids blockers ctx s =
     (let c1 = AList.update ''dispatch_device_ids'' (JList (map (\<lambda>d. JInt (int d)) target_ids)) ctx;
          c2 = AList.update ''dispatch_host_watcher_admin_states''
                 (JObj (snapshot_dispatch_host_watcher_admin_states s target_ids)) c1;
          c3 = (if blockers = [] then c2 else AList.update ''queue_blockers'' (JList (map JObj blockers)) c2);
          c4 = AList.update ''device_builds'' (JObj (device_builds s target_ids)) c3
      in dict_merge c4 (qe_frozen qe plan target_ids))"

definition queued_run ::
  "queue_env \<Rightarrow> prepare_in \<Rightarrow> plan_row \<Rightarrow> nat list \<Rightarrow> jobj list \<Rightarrow> json \<Rightarrow> jobj \<Rightarrow> time \<Rightarrow> db \<Rightarrow> run_row" where
  "queued_run qe p plan target_ids blockers snapshot ctx now s =
     \<lparr>r_id = next_serial (map r_id (runs s)), r_status = R_QUEUED,
      r_run_context = JObj (queued_context qe plan target_ids blockers ctx s),
      r_plan_snapshot = snapshot, r_ended_at = None, r_total = 0, r_terminal = 0, r_completed = 0, r_failed = 0,
      r_aborted = 0, r_result_summary = JNull, r_next_plan_triggered = False, r_terminal_effects = None,
      r_plan_id = pl_id plan, r_build_version = frozen_build_version (device_builds s target_ids),
      r_run_type = pi_run_type p, r_triggered_by = Some (pi_triggered_by p), r_started_at = now,
      r_parent_id = pi_parent_id p, r_root_id = pi_root_id p,
      r_chain_index = (case pi_chain_index p of None \<Rightarrow> 0 | Some n \<Rightarrow> n), r_priority = 0,
      r_queue_reason = (if blockers = [] then None else Some ''DEVICE_BUSY''), r_next_admission_at = None,
      r_admission_token = None, r_admission_attempt_id = None, r_precheck_started_at = None,
      r_enqueued_at = Some now\<rparr>"

definition host_group_row :: "nat \<Rightarrow> nat \<Rightarrow> string \<Rightarrow> int \<Rightarrow> prh_row" where
  "host_group_row i run_id h n =
     \<lparr>p_id = i, p_plan_run_id = run_id, p_host_id = h, p_device_count = n, p_total = 0, p_terminal = 0,
      p_completed = 0, p_failed = 0, p_aborted = 0, p_coordinator_heartbeat_at = None, p_coordinator_epoch = 0,
      p_phase = None, p_status = ''PENDING_ADMISSION'', p_admitted_at = None, p_admission_batch_size_snapshot = None\<rparr>"

definition target_host :: "db \<Rightarrow> nat \<Rightarrow> string" where
  "target_host s did = (case device_host s did of None \<Rightarrow> [] | Some h \<Rightarrow> h)"

definition host_groups :: "db \<Rightarrow> nat \<Rightarrow> nat list \<Rightarrow> prh_row list" where
  "host_groups s run_id target_ids =
     map (\<lambda>(i, h). host_group_row i run_id h (int (length (filter (\<lambda>d. target_host s d = h) target_ids))))
       (List.enumerate (next_serial (map p_id (prhs s))) (sort (remdups (map (target_host s) target_ids))))"

definition target_rows :: "db \<Rightarrow> nat \<Rightarrow> prh_row list \<Rightarrow> nat list \<Rightarrow> target_row list" where
  "target_rows s run_id groups target_ids =
     map (\<lambda>(idx, did). \<lparr>tg_plan_run_id = run_id,
          tg_plan_run_host_id = (case first_row (filter (\<lambda>g. p_host_id g = target_host s did) groups) of None \<Rightarrow> 0 | Some g \<Rightarrow> p_id g),
          tg_device_id = did, tg_host_id_snapshot = target_host s did, tg_sort_order = idx\<rparr>)
       (List.enumerate 0 target_ids)"

definition prepare_queued_plan_run ::
  "queue_env \<Rightarrow> prepare_in \<Rightarrow> plan_row \<Rightarrow> nat list \<Rightarrow> jobj list \<Rightarrow> json \<Rightarrow> jobj \<Rightarrow> time \<Rightarrow> db \<Rightarrow> (prepare_error + nat) \<times> db" where
  "prepare_queued_plan_run qe p plan device_ids blockers snapshot ctx now s =
     (let target_ids = sort (remdups device_ids);
          run = queued_run qe p plan target_ids blockers snapshot ctx now s;
          groups = host_groups s (r_id run) target_ids
      in if pi_parent_id p \<noteq> None
            \<and> list_ex (\<lambda>r. r_parent_id r = pi_parent_id p \<and> r_plan_id r = pl_id plan) (runs s)
         then (Inl ChainChildExists, s)
         else (Inr (r_id run), s\<lparr>runs := runs s @ [run], prhs := prhs s @ groups,
                 targets := targets s @ target_rows s (r_id run) groups target_ids\<rparr>))"

definition plan_steps_of :: "db \<Rightarrow> nat \<Rightarrow> step_row list" where
  "plan_steps_of s plan_id = filter (\<lambda>st. ps_plan_id st = plan_id) (plan_steps s)"

definition prepared_lifecycle ::
  "queue_env \<Rightarrow> plan_row \<Rightarrow> step_row list \<Rightarrow> (script_key \<Rightarrow> script_meta option) \<Rightarrow> string option \<Rightarrow> prepare_error + jobj" where
  \<comment> \<open>the checks of the plan\<close>
  "prepared_lifecycle qe plan steps meta fingerprint =
     (if steps = [] then Inl (PlanHasNoSteps (pl_id plan))
      else if check_legacy_aee_script_refs steps \<noteq> []
        then Inl (LegacyScriptsDisabled (check_legacy_aee_script_refs steps))
      else if check_script_keys_complete steps meta \<noteq> []
        then Inl (ScriptsUnavailable (check_script_keys_complete steps meta))
      else case build_lifecycle_from_steps plan steps (script_defaults meta) of
        Inl err \<Rightarrow> Inl (LifecycleError err)
      | Inr lifecycle \<Rightarrow>
          if check_suite_binding_required plan steps \<noteq> []
            then Inl (SuiteBindingRequired (check_suite_binding_required plan steps))
          else if validate_lifecycle_semantics (JObj [(''lifecycle'', JObj lifecycle)]) \<noteq> None
                \<or> \<not> qe_schema_ok qe (JObj [(''lifecycle'', JObj lifecycle)])
            then Inl InvalidLifecycle
          else if fingerprint \<noteq> None \<and> fingerprint \<noteq> Some (qe_fingerprint qe plan steps meta)
            then Inl ConfirmationChanged
          else Inr lifecycle)"

definition prepare_plan_run :: "queue_env \<Rightarrow> prepare_in \<Rightarrow> time \<Rightarrow> db \<Rightarrow> (prepare_error + nat) \<times> db" where
  "prepare_plan_run qe p now s =
     (if \<not> qe_flag_enabled qe then (Inl AdmissionDisabled, s)
      else if \<not> qe_pump_ready qe then (Inl PumpNotReady, s)
      else case first_row (filter (\<lambda>r. pl_id r = pi_plan_id p) (plans s)) of
        None \<Rightarrow> (Inl (PlanNotFound (pi_plan_id p)), s)
      | Some plan \<Rightarrow>
          if pi_device_ids p = [] then (Inl NoDevices, s)
          else
            (let unavailable = classified s now (pi_device_ids p);
                 fatal = with_reason (\<lambda>r. r \<in> set FATAL_DISPATCH_REASONS) unavailable;
                 conflicts = with_reason (\<lambda>r. r = ''serial_conflict'') unavailable;
                 device_ids = filter (\<lambda>d. d \<notin> fst ` set conflicts) (pi_device_ids p);
                 ctx = (if conflicts = [] then pi_run_context p
                        else AList.update ''dispatch_rejected_devices'' (JList (map JObj (entries conflicts))) (pi_run_context p));
                 blockers = with_reason (\<lambda>r. r \<notin> set FATAL_DISPATCH_REASONS \<and> r \<noteq> ''serial_conflict'') unavailable;
                 steps = plan_steps_of s (pl_id plan);
                 meta = fetch_script_metadata s
             in if fatal \<noteq> [] then (Inl (DevicesUnavailable (entries fatal)), s)
                else if device_ids = [] then (Inl (AllSerialConflicts (entries conflicts)), s)
                else case prepared_lifecycle qe plan steps meta (pi_fingerprint p) of
                  Inl err \<Rightarrow> (Inl err, s)
                | Inr lifecycle \<Rightarrow>
                    prepare_queued_plan_run qe p plan device_ids (entries blockers)
                      (build_plan_snapshot plan steps meta) ctx now s))"

definition initial_dispatch_state :: "time \<Rightarrow> jobj" where
  "initial_dispatch_state now =
     [(''enqueue_key'', JNull), (''requeue_attempts'', JInt 0), (''status'', JStr ''queued''),
      (''enqueued_at'', JTime now), (''started_at'', JNull), (''completed_at'', JNull), (''last_error'', JNull)]"

definition dispatch_plan :: "queue_env \<Rightarrow> prepare_in \<Rightarrow> time \<Rightarrow> db \<Rightarrow> (prepare_error + nat) \<times> db" where
  \<comment> \<open>the entry of schedules and chains\<close>
  "dispatch_plan qe p now s =
     (let ctx = (if truthy (jget (pi_run_context p) ''dispatch_state'') then pi_run_context p
                 else AList.update ''dispatch_state'' (JObj (initial_dispatch_state now)) (pi_run_context p))
      in prepare_plan_run qe (p\<lparr>pi_run_context := ctx\<rparr>) now s)"

end
