(* ===== verification/Plan_Chain.thy ===== *)
theory Plan_Chain
  imports Run_Queue Plan_Aggregation
begin

section \<open>The plan chain (services/plan\_chain\_trigger.py, scheduler/plan\_chain\_reconciler.py)\<close>

text \<open>
  A run that ends well starts the next plan of its chain on the devices it leaves behind: child run and
  flag of the parent are written in one transaction, and a reconciler repairs triggers that were
  interrupted.  The settle window gives devices time to come back after their teardown.
\<close>

record chain_cfg =
  cc_settle_seconds :: int
  cc_ready_gate :: bool
  cc_heartbeat_timeout :: int
  cc_batch :: nat
  cc_error_text :: "prepare_error \<Rightarrow> string" \<comment> \<open>\<open>str(error)\<close>\<close>

definition TRIGGERABLE_TERMINAL_STATUSES :: "plan_run_status list" where
  "TRIGGERABLE_TERMINAL_STATUSES = [R_SUCCESS, R_PARTIAL_SUCCESS]"

subsection \<open>The devices of the next run\<close>

definition chain_rows :: "db \<Rightarrow> nat \<Rightarrow> (job_row \<times> device_row) list" where
  "chain_rows s parent_id =
     List.map_filter (\<lambda>j. map_option (Pair j) (get_device s (j_device_id j)))
       (filter (\<lambda>j. j_plan_run_id j = parent_id) (jobs s))"

definition seen_entry :: "device_row \<Rightarrow> jobj" where
  "seen_entry v = (case d_last_seen v of None \<Rightarrow> [] | Some t \<Rightarrow> [(''last_seen'', JTime t)])"

definition chain_fit :: "time \<Rightarrow> job_row \<times> device_row \<Rightarrow> bool" where
  "chain_fit cutoff row =
     (case row of (j, v) \<Rightarrow> d_retired_at v = None
        \<and> (j_status j = J_COMPLETED \<or> d_status v = ''ONLINE''
           \<or> d_status v = ''OFFLINE'' \<and> (case d_last_seen v of None \<Rightarrow> False | Some t \<Rightarrow> t \<ge> cutoff)))"

definition chain_excluded_entry :: "job_row \<times> device_row \<Rightarrow> jobj" where
  "chain_excluded_entry row =
     (case row of (j, v) \<Rightarrow>
        [(''device_id'', JInt (int (j_device_id j))), (''status'', JStr (d_status v)),
         (''job_status'', JStr (job_status_text (j_status j)))]
        @ (if d_retired_at v \<noteq> None then (''reason'', JStr ''device_retired'') # seen_entry v
           else seen_entry v @ (if d_status v = ''OFFLINE''
             then [(''reason'', JStr (if d_last_seen v = None then ''offline_no_last_seen'' else ''offline_stale''))] else [])))"

definition select_chain_devices :: "int \<Rightarrow> time \<Rightarrow> (job_row \<times> device_row) list \<Rightarrow> nat list \<times> jobj list" where
  "select_chain_devices grace now rows =
     (let fit = chain_fit (now - grace)
      in (map (j_device_id \<circ> fst) (filter fit rows), map chain_excluded_entry (filter (\<lambda>r. \<not> fit r) rows)))"

subsection \<open>The settle window\<close>

definition settle_wait_left :: "chain_cfg \<Rightarrow> run_row \<Rightarrow> time \<Rightarrow> int" where
  "settle_wait_left cfg parent now =
     (if cc_settle_seconds cfg \<le> 0 then 0
      else case r_ended_at parent of None \<Rightarrow> 0 | Some t \<Rightarrow> cc_settle_seconds cfg - (now - t))"

definition settle_ready_decision :: "chain_cfg \<Rightarrow> time \<Rightarrow> (nat \<Rightarrow> bool) \<Rightarrow> (job_row \<times> device_row) list \<Rightarrow> bool" where
  \<comment> \<open>\<open>leased\<close>: the devices under an ACTIVE lease\<close>
  "settle_ready_decision cfg now leased rows =
     (case select_chain_devices (cc_heartbeat_timeout cfg) now rows of (device_ids, excluded) \<Rightarrow>
        rows \<noteq> [] \<and> device_ids \<noteq> [] \<and> excluded = []
        \<and> list_all (\<lambda>(j, v). d_status v = ''ONLINE'') rows \<and> list_all (\<lambda>d. \<not> leased d) device_ids)"

definition chain_settle_ready :: "chain_cfg \<Rightarrow> db \<Rightarrow> nat \<Rightarrow> time \<Rightarrow> bool" where
  "chain_settle_ready cfg s parent_id now =
     settle_ready_decision cfg now (\<lambda>d. get_active_lease s d \<noteq> None) (chain_rows s parent_id)"

subsection \<open>The next plan and what is missing of the chain\<close>

definition get_plan :: "db \<Rightarrow> nat \<Rightarrow> plan_row option" where
  "get_plan s i = first_row (filter (\<lambda>p. pl_id p = i) (plans s))"

definition next_plan_id_from_snapshot :: "run_row \<Rightarrow> json option" where
  \<comment> \<open>\<open>None\<close>: \<open>\_SNAPSHOT\_MISS\<close>\<close>
  "next_plan_id_from_snapshot r =
     map_of (obj_or_empty (jget (obj_or_empty (r_plan_snapshot r)) ''plan'')) ''next_plan_id''"

definition plan_ref :: "json \<Rightarrow> nat option" where
  "plan_ref v = (case v of JInt n \<Rightarrow> Some (nat n) | _ \<Rightarrow> None)"

definition resolve_next_plan_id :: "run_row \<Rightarrow> db \<Rightarrow> nat option" where
  "resolve_next_plan_id r s =
     (case next_plan_id_from_snapshot r of
        Some v \<Rightarrow> plan_ref v
      | None \<Rightarrow> (case get_plan s (r_plan_id r) of None \<Rightarrow> None | Some p \<Rightarrow> pl_next_plan_id p))"

definition chain_root :: "run_row \<Rightarrow> nat" where
  "chain_root r = (case r_root_id r of None \<Rightarrow> r_id r | Some k \<Rightarrow> if k = 0 then r_id r else k)"

fun expected_segments :: "nat \<Rightarrow> db \<Rightarrow> nat list \<Rightarrow> nat option \<Rightarrow> nat" where
  \<comment> \<open>the first argument is what is left of the depth cap\<close>
  "expected_segments 0 s seen cursor = 0"
| "expected_segments (Suc n) s seen None = 0"
| "expected_segments (Suc n) s seen (Some c) =
     (if c \<in> set seen then 0
      else Suc (expected_segments n s (c # seen) (case get_plan s c of None \<Rightarrow> None | Some p \<Rightarrow> pl_next_plan_id p)))"

definition GAP_TRAVERSAL_MAX_DEPTH :: nat where
  "GAP_TRAVERSAL_MAX_DEPTH = 20"

definition chain_missing_segments :: "run_row \<Rightarrow> db \<Rightarrow> nat" where
  "chain_missing_segments r s =
     expected_segments GAP_TRAVERSAL_MAX_DEPTH s [] (resolve_next_plan_id r s)
     - length (filter (\<lambda>x. r_root_id x = Some (chain_root r) \<and> r_chain_index x > r_chain_index r) (runs s))"

definition mark_chain_gap_signaled :: "nat \<Rightarrow> string \<Rightarrow> time \<Rightarrow> run_row \<Rightarrow> run_row" where
  \<comment> \<open>once per parent\<close>
  "mark_chain_gap_signaled missing reason now r =
     (if truthy (jget (obj_or_empty (r_run_context r)) ''chain_visibility_gap_signaled'') then r
      else r\<lparr>r_run_context := JObj (AList.update ''chain_visibility_gap_signaled''
             (JObj [(''at'', JTime now), (''reason'', JStr reason), (''missing_segments'', JInt (int missing))])
             (obj_or_empty (r_run_context r)))\<rparr>)"

subsection \<open>The trigger\<close>

definition chain_child :: "db \<Rightarrow> nat \<Rightarrow> nat \<Rightarrow> run_row option" where
  "chain_child s parent_id plan_id =
     first_row (filter (\<lambda>r. r_parent_id r = Some parent_id \<and> r_plan_id r = plan_id) (runs s))"

definition record_chain_dispatch_failure :: "string \<Rightarrow> bool \<Rightarrow> time \<Rightarrow> run_row \<Rightarrow> run_row" where
  "record_chain_dispatch_failure error child_already_created now r =
     r\<lparr>r_result_summary := JObj (AList.update ''chain_dispatch_failed''
           (JObj [(''at'', JTime now), (''error'', JStr (take 500 error)), (''child_already_created'', JBool child_already_created)])
           (obj_or_empty (r_result_summary r))),
       r_next_plan_triggered := (r_next_plan_triggered r \<and> child_already_created)\<rparr>"

definition rollback_chain_trigger :: "nat \<Rightarrow> string \<Rightarrow> time \<Rightarrow> db \<Rightarrow> db" where
  "rollback_chain_trigger i error now s =
     (case get_run s i of None \<Rightarrow> s
      | Some r \<Rightarrow>
          (let child_exists = (case resolve_next_plan_id r s of None \<Rightarrow> False | Some p \<Rightarrow> chain_child s i p \<noteq> None);
               missing = chain_missing_segments r s;
               s1 = upd_run i (record_chain_dispatch_failure error child_exists now) s
           in if \<not> child_exists \<and> missing > 0
              then upd_run i (mark_chain_gap_signaled missing ''dispatch_failed'' now) s1 else s1))"

definition set_triggered :: "bool \<Rightarrow> nat \<Rightarrow> db \<Rightarrow> db" where
  "set_triggered b i s = upd_run i (\<lambda>r. r\<lparr>r_next_plan_triggered := b\<rparr>) s"

definition chain_request :: "run_row \<Rightarrow> nat \<Rightarrow> nat list \<Rightarrow> jobj list \<Rightarrow> time \<Rightarrow> prepare_in" where
  "chain_request parent plan_id device_ids excluded now =
     \<lparr>pi_plan_id = plan_id, pi_device_ids = device_ids,
      pi_triggered_by = (case r_triggered_by parent of None \<Rightarrow> ''chain'' | Some u \<Rightarrow> if u = [] then ''chain'' else u),
      pi_run_type = ''CHAIN'',
      pi_run_context = [(''triggered_from_plan_run_id'', JInt (int (r_id parent))),
                        (''dispatch_state'', JObj (initial_dispatch_state now)),
                        (''chain_excluded_devices'', JList (map JObj excluded))],
      pi_parent_id = Some (r_id parent), pi_root_id = Some (chain_root parent),
      pi_chain_index = Some (r_chain_index parent + 1), pi_fingerprint = None\<rparr>"

definition create_chain_child :: "queue_env \<Rightarrow> chain_cfg \<Rightarrow> run_row \<Rightarrow> nat \<Rightarrow> time \<Rightarrow> db \<Rightarrow> nat option \<times> db" where
  \<comment> \<open>from the choice of the devices on\<close>
  "create_chain_child qe cfg parent plan_id now s =
     (case select_chain_devices (cc_heartbeat_timeout cfg) now (chain_rows s (r_id parent)) of (device_ids, excluded) \<Rightarrow>
        if device_ids = []
        then (None, if chain_missing_segments parent s > 0
                    then upd_run (r_id parent) (mark_chain_gap_signaled (chain_missing_segments parent s) ''no_healthy_devices'' now) s
                    else s)
        else (case prepare_plan_run qe (chain_request parent plan_id device_ids excluded now) now s of
                (Inr child, t) \<Rightarrow> (Some child, set_triggered True (r_id parent) t)
              | (Inl err, _) \<Rightarrow> (None, rollback_chain_trigger (r_id parent) (cc_error_text cfg err) now s)))"

definition trigger_next_plan_sync :: "queue_env \<Rightarrow> chain_cfg \<Rightarrow> nat \<Rightarrow> bool \<Rightarrow> time \<Rightarrow> db \<Rightarrow> nat option \<times> db" where
  "trigger_next_plan_sync qe cfg i respect_settle now s =
     (case get_run s i of
        None \<Rightarrow> (None, s)
      | Some parent \<Rightarrow>
          if r_status parent \<notin> set TRIGGERABLE_TERMINAL_STATUSES then (None, s)
          else case resolve_next_plan_id parent s of
            None \<Rightarrow> (None, s)
          | Some plan_id \<Rightarrow>
              (case chain_child s i plan_id of
                 Some c \<Rightarrow> (Some (r_id c), if r_next_plan_triggered parent then s else set_triggered True i s)
               | None \<Rightarrow>
                   if r_next_plan_triggered parent then (None, s)
                   else if respect_settle \<and> settle_wait_left cfg parent now > 0
                           \<and> \<not> (cc_ready_gate cfg \<and> chain_settle_ready cfg s i now)
                   then (None, s)
                   else create_chain_child qe cfg parent plan_id now s))"

subsection \<open>The reconciler\<close>

definition any_child :: "db \<Rightarrow> nat \<Rightarrow> run_row option" where
  "any_child s i = first_row (sort_key r_id (filter (\<lambda>r. r_parent_id r = Some i) (runs s)))"

definition reconcile_chain_trigger_sync :: "queue_env \<Rightarrow> chain_cfg \<Rightarrow> nat \<Rightarrow> time \<Rightarrow> db \<Rightarrow> nat option \<times> db" where
  "reconcile_chain_trigger_sync qe cfg i now s =
     (case get_run s i of
        None \<Rightarrow> (None, s)
      | Some parent \<Rightarrow>
          if r_status parent \<notin> set TRIGGERABLE_TERMINAL_STATUSES then (None, s)
          else case any_child s i of
            Some c \<Rightarrow> (Some (r_id c), if r_next_plan_triggered parent then s else set_triggered True i s)
          | None \<Rightarrow> trigger_next_plan_sync qe cfg i True now
                      (if r_next_plan_triggered parent then set_triggered False i s else s))"

definition chain_candidates :: "chain_cfg \<Rightarrow> db \<Rightarrow> nat list" where
  "chain_candidates cfg s =
     take (cc_batch cfg) (sort (map r_id (filter (\<lambda>r. r_status r \<in> set TRIGGERABLE_TERMINAL_STATUSES
        \<and> (case next_plan_id_from_snapshot r of None \<Rightarrow> False | Some v \<Rightarrow> plan_ref v \<noteq> None)
        \<and> (\<not> r_next_plan_triggered r \<or> any_child s (r_id r) = None)) (runs s))))"

definition reconcile_plan_chains :: "queue_env \<Rightarrow> chain_cfg \<Rightarrow> (nat \<Rightarrow> bool) \<Rightarrow> time \<Rightarrow> db \<Rightarrow> nat option list \<times> db" where
  \<comment> \<open>\<open>failing\<close>: the parents whose repair raises\<close>
  "reconcile_plan_chains qe cfg failing now s =
     run_batch (\<lambda>i u. if failing i then (None, u) else reconcile_chain_trigger_sync qe cfg i now u) (chain_candidates cfg s) s"

end
