(* ===== verification/Run_Finalization.thy ===== *)
theory Run_Finalization
  imports Plan_Chain
begin

section \<open>What follows a terminal run (services/plan\_run\_finalization.py)\<close>

text \<open>
  The side-effect block of a terminal run: announcement (notification, signals), the commit of the
  parent's facts, the trigger of the next plan, the dedup scan, the mark \<open>done\<close>.  The drain of the
  aggregation marks runs it between its rounds, and the sweep of scheduler/counter\_reconciler.py
  repairs drifted counters and replays lost wake-ups and blocks.
\<close>

subsection \<open>Announcement\<close>

fun plan_run_status_text :: "plan_run_status \<Rightarrow> string" where
  "plan_run_status_text R_RUNNING = ''RUNNING''"
| "plan_run_status_text R_SUCCESS = ''SUCCESS''"
| "plan_run_status_text R_PARTIAL_SUCCESS = ''PARTIAL_SUCCESS''"
| "plan_run_status_text R_FAILED = ''FAILED''"
| "plan_run_status_text R_QUEUED = ''QUEUED''"
| "plan_run_status_text R_PRECHECK = ''PRECHECK''"

definition terminal_event :: "plan_run_status \<Rightarrow> string" where
  "terminal_event st = (if st = R_FAILED then ''RUN_FAILED'' else ''RUN_COMPLETED'')"

definition summary_field :: "json \<Rightarrow> string \<Rightarrow> string" where
  "summary_field summary k = (case map_of (obj_or_empty summary) k of None \<Rightarrow> ''0'' | Some v \<Rightarrow> py_str v)"

definition terminal_message_from_run :: "run_row \<Rightarrow> bool \<Rightarrow> string" where
  "terminal_message_from_run run no_jobs =
     (if no_jobs then ''PlanRun '' @ plan_run_status_text (r_status run) @ '': no jobs were created for this plan''
      else ''PlanRun '' @ plan_run_status_text (r_status run) @ '': '' @ summary_field (r_result_summary run) ''completed''
        @ ''/'' @ summary_field (r_result_summary run) ''total'' @ '' completed, ''
        @ summary_field (r_result_summary run) ''failed'' @ '' failed'')"

definition ZERO_OUTPUT_MIN_JOBS :: int where
  "ZERO_OUTPUT_MIN_JOBS = 20"

definition prev_window_zero_output :: "db \<Rightarrow> run_row \<Rightarrow> bool" where
  "prev_window_zero_output s run =
     (case first_row (rev (sort_key r_id (filter (\<lambda>r. r_plan_id r = r_plan_id run \<and> r_id r < r_id run
              \<and> r_status r \<in> set TERMINAL_PLAN_RUN_STATUSES) (runs s)))) of
        None \<Rightarrow> False
      | Some prev \<Rightarrow> r_total prev \<ge> ZERO_OUTPUT_MIN_JOBS \<and> r_completed prev = 0)"

definition emit_zero_output_signal :: "db \<Rightarrow> run_row \<Rightarrow> string option" where
  \<comment> \<open>the level\<close>
  "emit_zero_output_signal s run =
     (if r_total run < ZERO_OUTPUT_MIN_JOBS \<or> r_completed run \<noteq> 0 then None
      else Some (if prev_window_zero_output s run then ''critical'' else ''warning''))"

definition gap_signaled :: "run_row \<Rightarrow> bool" where
  "gap_signaled r = truthy (jget (obj_or_empty (r_run_context r)) ''chain_visibility_gap_signaled'')"

definition emit_parent_chain_gap_signal :: "time \<Rightarrow> db \<Rightarrow> run_row \<Rightarrow> bool \<times> run_row" where
  \<comment> \<open>the flag: a signal was sent\<close>
  "emit_parent_chain_gap_signal now s run =
     (if r_status run \<in> set TRIGGERABLE_TERMINAL_STATUSES \<or> gap_signaled run then (False, run)
      else if chain_missing_segments run s = 0 then (False, run)
      else (True, mark_chain_gap_signaled (chain_missing_segments run s) ''parent_failed'' now run))"

record announcement =
  an_event :: string
  an_message :: string
  an_zero_output :: "string option"
  an_chain_gap :: bool

definition announce_parent_terminal :: "bool \<Rightarrow> time \<Rightarrow> db \<Rightarrow> run_row \<Rightarrow> announcement \<times> run_row" where
  \<comment> \<open>\<open>s\<close>: the committed world its sessions read\<close>
  "announce_parent_terminal no_jobs now s run =
     (case emit_parent_chain_gap_signal now s run of (gap, run') \<Rightarrow>
        (\<lparr>an_event = terminal_event (r_status run), an_message = terminal_message_from_run run no_jobs,
          an_zero_output = emit_zero_output_signal s run, an_chain_gap = gap\<rparr>, run'))"

subsection \<open>The block\<close>

definition DEDUP_AUTO_STATUSES :: "plan_run_status list" where
  "DEDUP_AUTO_STATUSES = [R_SUCCESS, R_PARTIAL_SUCCESS, R_FAILED]"

definition should_trigger_dedup :: "bool \<Rightarrow> plan_run_status \<Rightarrow> bool" where
  "should_trigger_dedup auto st = (auto \<and> st \<in> set DEDUP_AUTO_STATUSES)"

text \<open>
  The block in the three transactions it commits; a crash leaves a prefix of them.  The answer is the
  announcement and whether a dedup scan is enqueued.
\<close>

definition announce_step :: "nat \<Rightarrow> bool \<Rightarrow> time \<Rightarrow> db \<Rightarrow> announcement option \<times> db" where
  "announce_step i no_jobs now s =
     (case get_run s i of
        None \<Rightarrow> (None, s)
      | Some run \<Rightarrow> (case announce_parent_terminal no_jobs now s run of (a, run') \<Rightarrow> (Some a, upd_run i (\<lambda>_. run') s)))"

definition effects_done :: "run_row \<Rightarrow> run_row" where
  "effects_done r = (if r_terminal_effects r = Some ''pending'' then r\<lparr>r_terminal_effects := Some ''done''\<rparr> else r)"

definition done_step :: "nat \<Rightarrow> db \<Rightarrow> db" where
  "done_step i s = upd_run i effects_done s"

definition finalize_parent_run_sync ::
  "queue_env \<Rightarrow> chain_cfg \<Rightarrow> bool \<Rightarrow> nat \<Rightarrow> bool \<Rightarrow> bool \<Rightarrow> time \<Rightarrow> db \<Rightarrow> (announcement \<times> bool) option \<times> db" where
  "finalize_parent_run_sync qe cfg auto i applied no_jobs now s =
     (if \<not> applied then (None, s)
      else case announce_step i no_jobs now s of
        (None, s1) \<Rightarrow> (None, s1)
      | (Some a, s1) \<Rightarrow>
          (let s2 = snd (trigger_next_plan_sync qe cfg i True now s1);
               dedup = (case get_run s2 i of None \<Rightarrow> False | Some r \<Rightarrow> should_trigger_dedup auto (r_status r))
           in (Some (a, dedup), done_step i s2)))"

definition complete_parent_side_effects_sync ::
  "queue_env \<Rightarrow> chain_cfg \<Rightarrow> bool \<Rightarrow> nat \<Rightarrow> time \<Rightarrow> db \<Rightarrow> (announcement \<times> bool) option \<times> db" where
  "complete_parent_side_effects_sync qe cfg auto i now s =
     (case get_run s i of
        None \<Rightarrow> (None, s)
      | Some run \<Rightarrow> if r_terminal_effects run \<noteq> Some ''pending'' then (None, s)
                    else finalize_parent_run_sync qe cfg auto i True False now s)"

definition recover_chain_trigger :: "queue_env \<Rightarrow> chain_cfg \<Rightarrow> nat \<Rightarrow> time \<Rightarrow> db \<Rightarrow> nat option \<times> db" where
  "recover_chain_trigger qe cfg i now s = reconcile_chain_trigger_sync qe cfg i now s"

text \<open>The drain with the block between its rounds.\<close>

fun drain_with_effects ::
  "queue_env \<Rightarrow> chain_cfg \<Rightarrow> bool \<Rightarrow> nat \<Rightarrow> nat \<Rightarrow> time \<Rightarrow> db \<Rightarrow> (transition_error + nat) \<times> db" where
  "drain_with_effects qe cfg auto 0 i now s = (Inr 0, s)"
| "drain_with_effects qe cfg auto (Suc n) i now s =
     (case aggregation_round_sync i now s of
        (Inl e, s1) \<Rightarrow> (Inl e, s1)
      | (Inr (consumed, applied), s1) \<Rightarrow>
          if consumed = 0 then (Inr 0, s1)
          else (let s2 = (if applied then snd (complete_parent_side_effects_sync qe cfg auto i now s1) else s1)
                in case drain_with_effects qe cfg auto n i now s2 of
                  (Inl e, s3) \<Rightarrow> (Inl e, s3)
                | (Inr c, s3) \<Rightarrow> (Inr (consumed + c), s3)))"

definition aggregate_plan_run :: "queue_env \<Rightarrow> chain_cfg \<Rightarrow> bool \<Rightarrow> nat \<Rightarrow> time \<Rightarrow> db \<Rightarrow> (transition_error + nat) \<times> db" where
  "aggregate_plan_run qe cfg auto i now s = drain_with_effects qe cfg auto AGGREGATION_DRAIN_MAX_ROUNDS i now s"

subsection \<open>The sweep of the counters (scheduler/counter\_reconciler.py)\<close>

record sweep_cfg =
  sw_lookback :: int
  sw_batch :: nat

definition OPEN_STATUSES :: "plan_run_status list" where
  "OPEN_STATUSES = [R_RUNNING, R_QUEUED, R_PRECHECK]"

definition TERMINAL_EFFECTS_REPLAY_MIN_AGE_S :: int where
  "TERMINAL_EFFECTS_REPLAY_MIN_AGE_S = 120"

definition has_pending_aggregation :: "db \<Rightarrow> nat \<Rightarrow> bool" where
  "has_pending_aggregation s i = list_ex (\<lambda>m. fst m = i) (pending_aggregation s)"

datatype sweep_result = SkippedPending | NothingToCount | InStep | Fixed bool

definition sweep_row :: "time \<Rightarrow> db \<Rightarrow> nat \<Rightarrow> db \<Rightarrow> (transition_error + sweep_result) \<times> db" where
  \<comment> \<open>one run; \<open>s0\<close>: the world committed before the sweep; \<open>Fixed True\<close>: aggregated\<close>
  "sweep_row now s0 i s =
     (case get_run s i of
        None \<Rightarrow> (Inr InStep, s)
      | Some run \<Rightarrow>
          if has_pending_aggregation s i then (Inr SkippedPending, s)
          else if run_jobs i s = [] \<and> r_status run \<in> {R_QUEUED, R_PRECHECK} then (Inr NothingToCount, s)
          else (case recount_plan_run_counters run (run_jobs i s) of (drifted, run1) \<Rightarrow>
            if \<not> drifted then (Inr InStep, s)
            else if r_total run1 > 0
            then (case apply_plan_run_aggregation_from_counters run1 now of
                    Inl e \<Rightarrow> (Inl e, s)
                  | Inr (True, run2) \<Rightarrow>
                      (Inr (Fixed True), upd_run i (\<lambda>_. (snd (announce_parent_terminal False now s0 run2))\<lparr>r_terminal_effects := Some ''done''\<rparr>) s)
                  | Inr (False, run2) \<Rightarrow> (Inr (Fixed False), upd_run i (\<lambda>_. run2) s))
            else (Inr (Fixed False), upd_run i (\<lambda>_. run1) s)))"

definition sweep_rows :: "sweep_cfg \<Rightarrow> time \<Rightarrow> (nat \<Rightarrow> bool) \<Rightarrow> db \<Rightarrow> nat list" where
  \<comment> \<open>\<open>locked\<close>: rows another transaction holds (SKIP LOCKED)\<close>
  "sweep_rows cfg now locked s =
     take (sw_batch cfg) (rev (sort (map r_id (filter (\<lambda>r. \<not> locked (r_id r)
        \<and> (r_status r \<in> set OPEN_STATUSES
           \<or> (case r_ended_at r of None \<Rightarrow> True | Some t \<Rightarrow> t \<ge> now - sw_lookback cfg)
           \<or> r_started_at r \<ge> now - sw_lookback cfg)) (runs s)))))"

fun sweep_loop :: "time \<Rightarrow> db \<Rightarrow> nat list \<Rightarrow> db \<Rightarrow> (transition_error + sweep_result list) \<times> db" where
  "sweep_loop now s0 [] s = (Inr [], s)"
| "sweep_loop now s0 (i # is) s =
     (case sweep_row now s0 i s of
        (Inl e, s1) \<Rightarrow> (Inl e, s1)
      | (Inr r, s1) \<Rightarrow> (case sweep_loop now s0 is s1 of
            (Inl e, s2) \<Rightarrow> (Inl e, s2)
          | (Inr rs, s2) \<Rightarrow> (Inr (r # rs), s2)))"

definition reconcile_counters_body :: "sweep_cfg \<Rightarrow> time \<Rightarrow> (nat \<Rightarrow> bool) \<Rightarrow> db \<Rightarrow> (transition_error + sweep_result list) \<times> db" where
  "reconcile_counters_body cfg now locked s =
     (case sweep_loop now s (sweep_rows cfg now locked s) s of
        (Inl e, _) \<Rightarrow> (Inl e, s)
      | (Inr rs, t) \<Rightarrow> (Inr rs, if list_ex (\<lambda>r. case r of Fixed _ \<Rightarrow> True | _ \<Rightarrow> False) rs then t else s))"

definition take_limit :: "nat option \<Rightarrow> 'a list \<Rightarrow> 'a list" where
  "take_limit limit xs = (case limit of None \<Rightarrow> xs | Some n \<Rightarrow> take n xs)"

definition pending_runs :: "db \<Rightarrow> nat list" where
  \<comment> \<open>in the order of their oldest mark\<close>
  "pending_runs s = rev (remdups (rev (map fst (pending_aggregation s))))"

definition stale_effects :: "time \<Rightarrow> db \<Rightarrow> nat list" where
  "stale_effects now s =
     sort (map r_id (filter (\<lambda>r. r_terminal_effects r = Some ''pending''
        \<and> (case r_ended_at r of None \<Rightarrow> False | Some t \<Rightarrow> t < now - TERMINAL_EFFECTS_REPLAY_MIN_AGE_S)) (runs s)))"

definition replay_stale_aggregation_triggers ::
  "queue_env \<Rightarrow> chain_cfg \<Rightarrow> bool \<Rightarrow> nat option \<Rightarrow> (nat \<Rightarrow> bool) \<Rightarrow> time \<Rightarrow> db \<Rightarrow> db" where
  \<comment> \<open>\<open>failing\<close>: the runs whose block raises before its first commit\<close>
  "replay_stale_aggregation_triggers qe cfg auto limit failing now s =
     (let s1 = snd (run_batch (\<lambda>i u. aggregate_plan_run qe cfg auto i now u) (take_limit limit (pending_runs s)) s)
      in snd (run_batch (\<lambda>i u. if failing i then (None, u) else complete_parent_side_effects_sync qe cfg auto i now u)
                (take_limit limit (stale_effects now s1)) s1))"

definition reconcile_plan_run_counters_once ::
  "queue_env \<Rightarrow> chain_cfg \<Rightarrow> bool \<Rightarrow> sweep_cfg \<Rightarrow> bool \<Rightarrow> nat option \<Rightarrow> (nat \<Rightarrow> bool) \<Rightarrow> (nat \<Rightarrow> bool) \<Rightarrow> time \<Rightarrow> db
     \<Rightarrow> (transition_error + sweep_result list) \<times> db" where
  "reconcile_plan_run_counters_once qe cfg auto sw is_leader limit locked failing now s =
     (if \<not> is_leader then (Inr [], s)
      else case reconcile_counters_body (case limit of None \<Rightarrow> sw | Some n \<Rightarrow> sw\<lparr>sw_batch := n\<rparr>) now locked s of
        (Inl e, s1) \<Rightarrow> (Inl e, s1)
      | (Inr rs, s1) \<Rightarrow> (Inr rs, replay_stale_aggregation_triggers qe cfg auto limit failing now s1))"

end
