(* ===== verification/Admission.thy ===== *)
theory Admission
  imports Run_Queue Plan_Aggregation
begin

section \<open>The admission of queued runs (services/admission\_pump.py, scheduler/precheck\_reaper.py)\<close>

text \<open>
  The pump claims QUEUED runs under a fresh attempt id; the task of the attempt checks scripts and
  hosts without locks and then admits the run in one short transaction, which creates its jobs.
  A lost race or a missing resource puts the run back into the queue; only an error that a retry
  cannot cure fails it; the reaper recovers runs whose task died.  Every write is guarded by the attempt id.
\<close>

record adm_cfg =
  ac_pump_batch :: nat
  ac_retry_backoff :: int
  ac_aging_step :: int
  ac_aging_max_boost :: int
  ac_precheck_active_stale :: int
  ac_max_requeue_attempts :: int
  ac_requeue_backoff :: int

subsection \<open>Claiming queued runs\<close>

definition aging_boost :: "adm_cfg \<Rightarrow> time \<Rightarrow> run_row \<Rightarrow> int" where
  \<comment> \<open>\<open>LEAST\<close> ignores a null\<close>
  "aging_boost cfg now r =
     (case r_enqueued_at r of None \<Rightarrow> ac_aging_max_boost cfg
      | Some t \<Rightarrow> min ((now - t) div ac_aging_step cfg) (ac_aging_max_boost cfg))"

definition effective_priority :: "adm_cfg \<Rightarrow> time \<Rightarrow> run_row \<Rightarrow> int" where
  "effective_priority cfg now r =
     r_priority r + (if ac_aging_step cfg > 0 \<and> ac_aging_max_boost cfg > 0 then aging_boost cfg now r else 0)"

definition pump_key :: "adm_cfg \<Rightarrow> time \<Rightarrow> run_row \<Rightarrow> int \<times> (int \<times> int) \<times> nat" where
  \<comment> \<open>effective priority descending, then \<open>enqueued\_at\<close> (nulls last), then the id\<close>
  "pump_key cfg now r =
     (- effective_priority cfg now r, (case r_enqueued_at r of None \<Rightarrow> (1, 0) | Some t \<Rightarrow> (0, t)), r_id r)"

definition due :: "time \<Rightarrow> run_row \<Rightarrow> bool" where
  "due now r \<longleftrightarrow> (case r_next_admission_at r of None \<Rightarrow> True | Some t \<Rightarrow> t \<le> now)"

definition pump_candidates :: "adm_cfg \<Rightarrow> nat \<Rightarrow> time \<Rightarrow> (nat \<Rightarrow> bool) \<Rightarrow> db \<Rightarrow> run_row list" where
  \<comment> \<open>\<open>locked\<close>: the rows another transaction holds, which are skipped\<close>
  "pump_candidates cfg batch now locked s =
     take (if batch = 0 then ac_pump_batch cfg else batch)
       (sort_key (pump_key cfg now) (filter (\<lambda>r. r_status r = R_QUEUED \<and> due now r \<and> \<not> locked (r_id r)) (runs s)))"

definition dispatch_state_of :: "json \<Rightarrow> jobj" where
  "dispatch_state_of ctx = obj_or_empty (jget (obj_or_empty ctx) ''dispatch_state'')"

definition set_dispatch_state :: "jobj \<Rightarrow> json \<Rightarrow> json" where
  "set_dispatch_state st ctx = JObj (AList.update ''dispatch_state'' (JObj st) (obj_or_empty ctx))"

definition started_dispatch :: "time \<Rightarrow> jobj \<Rightarrow> jobj" where
  "started_dispatch now st = (if truthy (jget st ''started_at'') then st else AList.update ''started_at'' (JTime now) st)"

definition pump_row :: "time \<Rightarrow> string \<Rightarrow> string \<Rightarrow> run_row \<Rightarrow> run_row" where
  "pump_row now attempt token r =
     r\<lparr>r_status := R_PRECHECK, r_precheck_started_at := Some now, r_admission_attempt_id := Some attempt,
       r_admission_token := (case r_admission_token r of None \<Rightarrow> Some token | Some t \<Rightarrow> Some t),
       r_run_context := set_dispatch_state
         (started_dispatch now (AList.update ''status'' (JStr ''running'') (dispatch_state_of (r_run_context r))))
         (r_run_context r)\<rparr>"

definition claim_queued_plan_runs ::
  "adm_cfg \<Rightarrow> nat \<Rightarrow> time \<Rightarrow> (nat \<Rightarrow> bool) \<Rightarrow> (nat \<Rightarrow> string) \<Rightarrow> (nat \<Rightarrow> string) \<Rightarrow> db \<Rightarrow> (nat \<times> string) list \<times> db" where
  \<comment> \<open>\<open>uuid\<close> and \<open>token\<close>: the random ids drawn for each run\<close>
  "claim_queued_plan_runs cfg batch now locked uuid token s =
     (let ids = map r_id (pump_candidates cfg batch now locked s)
      in (map (\<lambda>i. (i, uuid i)) ids,
          s\<lparr>runs := upd_where (\<lambda>r. r_id r \<in> set ids) (\<lambda>r. pump_row now (uuid (r_id r)) (token (r_id r)) r) (runs s)\<rparr>))"

subsection \<open>Requeue and failure\<close>

definition owns_attempt :: "db \<Rightarrow> nat \<Rightarrow> string \<Rightarrow> bool" where
  "owns_attempt s run_id attempt =
     (case get_run s run_id of None \<Rightarrow> False
      | Some r \<Rightarrow> r_status r = R_PRECHECK \<and> r_admission_attempt_id r = Some attempt)"

definition requeued_row :: "string \<Rightarrow> jobj list option \<Rightarrow> time \<Rightarrow> run_row \<Rightarrow> run_row" where
  "requeued_row reason blockers next_at r =
     r\<lparr>r_status := R_QUEUED, r_queue_reason := Some reason, r_next_admission_at := Some next_at,
       r_admission_attempt_id := None, r_precheck_started_at := None,
       r_run_context := (case blockers of None \<Rightarrow> r_run_context r
         | Some bs \<Rightarrow> JObj (AList.update ''queue_blockers'' (JList (map JObj bs)) (obj_or_empty (r_run_context r))))\<rparr>"

definition requeue_plan_run ::
  "adm_cfg \<Rightarrow> nat \<Rightarrow> string \<Rightarrow> string \<Rightarrow> jobj list option \<Rightarrow> int option \<Rightarrow> time \<Rightarrow> db \<Rightarrow> bool \<times> db" where
  "requeue_plan_run cfg run_id attempt reason blockers backoff now s =
     (if owns_attempt s run_id attempt
      then (True, upd_run run_id (requeued_row reason blockers
              (now + (case backoff of None \<Rightarrow> ac_retry_backoff cfg | Some n \<Rightarrow> n))) s)
      else (False, s))"

definition failed_row :: "string \<Rightarrow> jobj \<Rightarrow> time \<Rightarrow> run_row \<Rightarrow> run_row" where
  "failed_row reason detail now r =
     r\<lparr>r_status := R_FAILED, r_ended_at := Some now,
       r_result_summary := JObj (dict_merge [(''dispatch_failed'', JBool True), (''reason'', JStr reason)] detail),
       r_run_context := set_dispatch_state
         (dict_merge (dispatch_state_of (r_run_context r))
            [(''status'', JStr ''failed''), (''last_error'', JStr reason), (''completed_at'', JTime now)])
         (r_run_context r)\<rparr>"

definition fail_plan_run_admission :: "nat \<Rightarrow> string \<Rightarrow> string \<Rightarrow> jobj \<Rightarrow> time \<Rightarrow> db \<Rightarrow> bool \<times> db" where
  "fail_plan_run_admission run_id attempt reason detail now s =
     (if owns_attempt s run_id attempt
      then (True, add_audit ''plan_admission_failed'' ''plan_run'' (dec run_id) ''system''
              (JObj (dict_merge [(''reason'', JStr reason)] detail))
              (upd_run run_id (failed_row reason detail now) s))
      else (False, s))"

text \<open>\<open>enqueue\_sync\<close> asks Redis; \<open>ok\<close> says for which runs it confirmed the job.\<close>

definition pump_admission_tick ::
  "adm_cfg \<Rightarrow> bool \<Rightarrow> time \<Rightarrow> (nat \<Rightarrow> bool) \<Rightarrow> (nat \<Rightarrow> string) \<Rightarrow> (nat \<Rightarrow> string) \<Rightarrow> (nat \<Rightarrow> bool) \<Rightarrow> db \<Rightarrow> (nat \<times> string) list \<times> db" where
  "pump_admission_tick cfg saq_ready now locked uuid token ok s =
     (if \<not> saq_ready then ([], s)
      else case claim_queued_plan_runs cfg 0 now locked uuid token s of
        (claimed, s1) \<Rightarrow>
          (claimed, fold (\<lambda>(i, attempt) u. if ok i then u
              else snd (requeue_plan_run cfg i attempt ''PRECHECK_STALE''
                     (Some [[(''reason'', JStr ''admission_enqueue_failed'')]]) (Some (ac_retry_backoff cfg)) now u))
            claimed s1))"

subsection \<open>Phase A: the scripts on the hosts\<close>

text \<open>The verdict of an admission step: go on, or one of the exceptions of the task.\<close>

datatype verdict =
    Pass
  | NotOwner
  | Retry string "jobj list"
  | Fatal string jobj
  | Crashed

record verify_result =
  vr_ok :: bool
  vr_rows :: "jobj list"
  vr_error :: "string option"

type_synonym verify_results = "(string \<times> verify_result) list"

text \<open>What a call to the agent of a host gives: its rows, a refusal of the RPC layer, or another exception.\<close>

datatype rpc_answer = Ack "jobj list" | AgentNotConnected | AgentRpc string | Raised string

definition verify_one_host :: "rpc_answer \<Rightarrow> verify_result" where
  \<comment> \<open>the exception case is the one of \<open>gather\_verify\<close>\<close>
  "verify_one_host answer =
     (case answer of
        Ack rows \<Rightarrow>
          (let ok = rows \<noteq> [] \<and> list_all (\<lambda>r. truthy (jget r ''ok'')) rows
           in \<lparr>vr_ok = ok, vr_rows = rows, vr_error = (if ok then None else Some ''sha_mismatch'')\<rparr>)
      | AgentNotConnected \<Rightarrow> \<lparr>vr_ok = False, vr_rows = [], vr_error = Some ''agent_offline''\<rparr>
      | AgentRpc e \<Rightarrow> \<lparr>vr_ok = False, vr_rows = [], vr_error = Some (''rpc_failed: '' @ e)\<rparr>
      | Raised e \<Rightarrow> \<lparr>vr_ok = False, vr_rows = [], vr_error = Some (''verify_exception: '' @ e)\<rparr>)"

definition gather_verify :: "(string \<Rightarrow> rpc_answer) \<Rightarrow> string list \<Rightarrow> verify_results" where
  "gather_verify answer host_ids = map (\<lambda>h. (h, verify_one_host (answer h))) host_ids"

definition FATAL_PUSH_ERROR_SUBSTRINGS :: "string list" where
  "FATAL_PUSH_ERROR_SUBSTRINGS = [''host_not_found'', ''host_missing_ip'', ''no_ssh_credentials'',
     ''ssh_security_config_error'', ''cannot map nfs_path'', ''local file not found'', ''host_retired'']"

definition is_fatal_push_error :: "string option \<Rightarrow> bool" where
  "is_fatal_push_error err =
     (case err of None \<Rightarrow> False | Some e \<Rightarrow> e \<noteq> [] \<and> list_ex (\<lambda>p. contains p e) FATAL_PUSH_ERROR_SUBSTRINGS)"

definition is_host_retired_push_error :: "string option \<Rightarrow> bool" where
  "is_host_retired_push_error err = (case err of None \<Rightarrow> False | Some e \<Rightarrow> e \<noteq> [] \<and> contains ''host_retired'' e)"

definition is_unreachable :: "string option \<Rightarrow> bool" where
  "is_unreachable err =
     (case err of None \<Rightarrow> False
      | Some e \<Rightarrow> e = ''agent_offline'' \<or> starts_with ''rpc_failed'' e \<or> starts_with ''verify_exception'' e)"

definition host_entry :: "string \<Rightarrow> string \<Rightarrow> string option \<Rightarrow> jobj" where
  "host_entry h reason err = [(''host_id'', JStr h), (''reason'', JStr reason), (''error'', opt_json err)]"

fun mismatched_loop :: "(json \<Rightarrow> jobj option) \<Rightarrow> string list \<Rightarrow> jobj list \<Rightarrow> jobj list" where
  "mismatched_loop by_name seen [] = []"
| "mismatched_loop by_name seen (row # rows) =
     (case jget row ''name'' of
        JStr name \<Rightarrow>
          if truthy (jget row ''ok'') \<or> truthy (jget row ''package_active'') \<or> name = [] \<or> name \<in> set seen
          then mismatched_loop by_name seen rows
          else (case by_name (JStr name) of None \<Rightarrow> mismatched_loop by_name seen rows
                | Some manifest \<Rightarrow> manifest # mismatched_loop by_name (name # seen) rows)
      | _ \<Rightarrow> mismatched_loop by_name seen rows)"

definition mismatched_entries_for_push :: "jobj list \<Rightarrow> jobj list \<Rightarrow> jobj list" where
  \<comment> \<open>\<open>\{es["name"]: es\}\<close>: the last entry of a name wins\<close>
  "mismatched_entries_for_push verify_results expected =
     mismatched_loop (map_of (rev (map (\<lambda>es. (jget es ''name'', es)) expected))) [] verify_results"

definition fatal_admission_for_push_failures :: "(string \<times> string option) list \<Rightarrow> verdict" where
  "fatal_admission_for_push_failures push_fatal =
     (if list_ex (\<lambda>(h, err). is_host_retired_push_error err) push_fatal
      then Fatal ''HOST_RETIRED'' [(''hosts'', JList (map (\<lambda>(h, err). JObj (host_entry h
             (if is_host_retired_push_error err then ''host_retired'' else ''script_sync_config_error'') err)) push_fatal))]
      else Fatal ''script_sync_config_error'' [(''hosts'', JList (map (\<lambda>(h, err). JObj (host_entry h
             ''script_sync_config_error'' err)) push_fatal))])"

definition unreachable_hosts :: "verify_results \<Rightarrow> jobj list" where
  "unreachable_hosts results =
     List.map_filter (\<lambda>(h, r). if \<not> vr_ok r \<and> is_unreachable (vr_error r)
        then Some (host_entry h ''host_unreachable'' (vr_error r)) else None) results"

definition sha_mismatched :: "verify_results \<Rightarrow> verify_results" where
  "sha_mismatched results = filter (\<lambda>(h, r). \<not> vr_ok r \<and> vr_error r = Some ''sha_mismatch'') results"

definition verify_scripts_phase ::
  "jobj list \<Rightarrow> verify_results \<Rightarrow> (string \<Rightarrow> jobj list \<Rightarrow> bool \<times> string option) \<Rightarrow> (string list \<Rightarrow> verify_results) \<Rightarrow> verdict" where
  \<comment> \<open>\<open>results\<close>, \<open>push\<close> and \<open>reverify\<close>: what the agents answer to the calls of the phase\<close>
  "verify_scripts_phase expected results push reverify =
     (if expected = [] then Fatal ''no_expected_scripts'' []
      else
        let unreachable = unreachable_hosts results;
            bad = map (\<lambda>(h, r). (h, mismatched_entries_for_push (vr_rows r) expected, vr_rows r)) (sha_mismatched results);
            mismatched = filter (\<lambda>(h, es, rows). es \<noteq> []) bad;
            unmapped = filter (\<lambda>(h, es, rows). es = [] \<and> list_ex (\<lambda>r. \<not> truthy (jget r ''ok'')) rows) bad;
            pushed = map (\<lambda>(h, es, rows). (h, push h es)) mismatched;
            failed = filter (\<lambda>(h, ok, err). \<not> ok) pushed;
            push_fatal = map (\<lambda>(h, ok, err). (h, err)) (filter (\<lambda>(h, ok, err). is_fatal_push_error err) failed);
            push_transient = map (\<lambda>(h, ok, err). host_entry h ''script_sync_failed'' err)
               (filter (\<lambda>(h, ok, err). \<not> is_fatal_push_error err) failed);
            retry_hosts = map fst (filter (\<lambda>(h, ok, err). ok) pushed);
            again = (if retry_hosts = [] then [] else reverify retry_hosts);
            unreachable2 = unreachable @ unreachable_hosts again;
            still = map fst (filter (\<lambda>(h, r). \<not> vr_ok r \<and> \<not> is_unreachable (vr_error r)) again);
            confirmed = filter (\<lambda>h. h \<in> fst ` set mismatched) still
        in if unmapped \<noteq> []
           then Fatal ''script_sync_config_error'' [(''hosts'', JList (map (\<lambda>(h, es, rows).
                  JObj (host_entry h ''no_mismatched_entries'' (Some ''no_mismatched_entries''))) unmapped))]
           else if push_fatal \<noteq> [] then fatal_admission_for_push_failures push_fatal
           else if push_transient \<noteq> [] then Retry ''DEVICE_BUSY'' (unreachable2 @ push_transient)
           else if confirmed \<noteq> [] then Fatal ''script_verify_failed'' [(''hosts'', JList (map JStr (sort confirmed)))]
           else if unreachable2 \<noteq> [] then Retry ''DEVICE_BUSY'' unreachable2
           else Pass)"

subsection \<open>Materialization\<close>

text \<open>The exceptions of a materialization; the messages of \<open>AllocationError\<close> are left out of the blockers.\<close>

datatype mat_error =
    MatAllocation alloc_error
  | MatSuiteChanged
  | MatDispatch dispatch_error
  | MatDeviceBusy
  | MatDuplicateTarget

definition new_job :: "nat \<Rightarrow> run_row \<Rightarrow> nat \<Rightarrow> string option \<Rightarrow> jobj \<Rightarrow> time \<Rightarrow> job_row" where
  "new_job i run did host lifecycle now =
     \<lparr>j_id = i, j_plan_run_id = r_id run, j_plan_id = r_plan_id run, j_device_id = did,
      j_host_id = host, j_status = J_PENDING, j_status_reason = [],
      j_pipeline_def = JObj [(''lifecycle'', JObj lifecycle)], j_created_at = now, j_started_at = None,
      j_ended_at = None, j_updated_at = now, j_terminal_payload_digest = None, j_watcher_started_at = None,
      j_watcher_stopped_at = None, j_watcher_capability = None, j_log_signal_count = 0,
      j_disarm_results = JNull, j_disarm_guard = None, j_execution_state = None,
      j_last_execution_heartbeat_at = None, j_last_progress_at = None, j_patrol_cycle_count = 0,
      j_last_patrol_heartbeat_at = None, j_current_patrol_step = None, j_next_retry_at = None,
      j_patrol_success_count = 0, j_patrol_failed_count = 0, j_failure_streak = 0, j_manual_action = None\<rparr>"

definition violates_active :: "job_row list \<Rightarrow> job_row list \<Rightarrow> bool" where
  \<comment> \<open>unique index \<open>uq\_job\_active\_per\_device\<close>\<close>
  "violates_active old new \<longleftrightarrow> \<not> distinct (map j_device_id (filter active_job new))
     \<or> list_ex (\<lambda>j. active_job j \<and> j_device_id j \<in> set (map j_device_id (filter active_job new))) old"

definition violates_run_device :: "job_row list \<Rightarrow> job_row list \<Rightarrow> bool" where
  \<comment> \<open>\<open>uq\_job\_instance\_plan\_run\_device\<close>\<close>
  "violates_run_device old new \<longleftrightarrow> \<not> distinct (map (\<lambda>j. (j_plan_run_id j, j_device_id j)) new)
     \<or> list_ex (\<lambda>j. (j_plan_run_id j, j_device_id j) \<in> set (map (\<lambda>j. (j_plan_run_id j, j_device_id j)) new)) old"

definition needed_pool :: "run_row \<Rightarrow> jobj \<Rightarrow> json option" where
  \<comment> \<open>the pool the operator chose, null for any; \<open>None\<close> when no WiFi is needed\<close>
  "needed_pool run lifecycle =
     (let chosen = jget (obj_or_empty (r_run_context run)) ''wifi_pool_id'';
          requested = (if lifecycle_consumes_wifi lifecycle then chosen else JNull)
      in if lifecycle_has_connect_wifi_step lifecycle \<or> requested \<noteq> JNull then Some requested else None)"

definition device_lifecycle :: "assignment \<Rightarrow> jobj \<Rightarrow> jobj \<Rightarrow> nat \<Rightarrow> dispatch_error + nat \<times> jobj" where
  "device_lifecycle assignments suite_params lifecycle did =
     (let lc = (case map_of assignments did of None \<Rightarrow> lifecycle | Some (pool, params) \<Rightarrow> inject_wifi_params lifecycle params)
      in case inject_suite_params lc suite_params of Inl err \<Rightarrow> Inl err | Inr lc' \<Rightarrow> Inr (did, lc'))"

definition materialize_jobs_and_allocations ::
  "run_row \<Rightarrow> jobj \<Rightarrow> nat list \<Rightarrow> (nat \<Rightarrow> string option) \<Rightarrow> (jobj \<Rightarrow> jobj option) \<Rightarrow> time \<Rightarrow> db \<Rightarrow> mat_error + db" where
  \<comment> \<open>\<open>suite\<close>: \<open>step\_params\_for\_dispatch\<close> of the frozen suite, \<open>None\<close> where its content changed\<close>
  "materialize_jobs_and_allocations run lifecycle device_ids host_of suite now s =
     (case (case needed_pool run lifecycle of None \<Rightarrow> Inr []
            | Some pool \<Rightarrow> sync_allocate_devices device_ids ''wifi'' pool host_of s) of
        Inl err \<Rightarrow> Inl (MatAllocation err)
      | Inr assignments \<Rightarrow>
          (case (let ctx = obj_or_empty (jget (obj_or_empty (r_run_context run)) ''dispatch_suite'') in
                 if ctx = [] then Some [] else suite ctx) of
             None \<Rightarrow> Inl MatSuiteChanged
           | Some suite_params \<Rightarrow>
               (case collect (device_lifecycle assignments suite_params lifecycle) device_ids of
                  Inl err \<Rightarrow> Inl (MatDispatch err)
                | Inr lcs \<Rightarrow>
                    let new = map (\<lambda>(i, did, lc). new_job i run did (host_of did) lc now)
                                (List.enumerate (next_serial (map j_id (jobs s))) lcs)
                    in if violates_active (jobs s) new then Inl MatDeviceBusy
                       else if violates_run_device (jobs s) new then Inl MatDuplicateTarget
                       else Inr (s\<lparr>jobs := jobs s @ new,
                              allocations := allocations s @ sync_create_allocations assignments
                                (map (\<lambda>j. (j_id j, j_device_id j)) new)\<rparr>))))"

definition REJECTED_REASON :: string where
  \<comment> \<open>the UTF-8 text of the reason\<close>
  "REJECTED_REASON = map char_of [
     229, 186, 143, 229, 136, 151, 229, 143, 183, 229, 134, 178, 231, 170, 129, 239, 188, 154, 115,
     101, 114, 105, 97, 108, 32, 228, 184, 186, 229, 141, 160, 228, 189, 141, 47, 233, 135, 141,
     229, 164, 141, 229, 128, 188, 239, 188, 136, 232, 183, 168, 32, 104, 111, 115, 116, 32, 228,
     186, 137, 230, 138, 162, 229, 144, 140, 228, 184, 128, 229, 186, 143, 229, 136, 151, 229, 143,
     183, 239, 188, 137, 239, 188, 140, 232, 174, 190, 229, 164, 135, 232, 162, 171, 230, 139, 146,
     231, 187, 157, 230, 137, 167, 232, 161, 140 :: nat]"

definition rejected_devices :: "run_row \<Rightarrow> jobj list" where
  "rejected_devices run = objs_of (list_or_empty (jget (obj_or_empty (r_run_context run)) ''dispatch_rejected_devices''))"

definition rejected_job :: "nat \<Rightarrow> run_row \<Rightarrow> jobj \<Rightarrow> jobj \<Rightarrow> time \<Rightarrow> job_row option" where
  "rejected_job i run e lifecycle now =
     map_option (\<lambda>did. (new_job i run (nat did) (case jget e ''host_id'' of JStr h \<Rightarrow> Some h | _ \<Rightarrow> None) lifecycle now)
         \<lparr>j_status := J_FAILED, j_status_reason := REJECTED_REASON, j_started_at := Some now, j_ended_at := Some now\<rparr>)
       (py_int (jget e ''id''))"

definition materialize_serial_rejected_jobs :: "run_row \<Rightarrow> jobj \<Rightarrow> time \<Rightarrow> db \<Rightarrow> db option" where
  \<comment> \<open>\<open>None\<close>: \<open>int()\<close> or the flush raises\<close>
  "materialize_serial_rejected_jobs run lifecycle now s =
     (let new = map (\<lambda>(i, e). rejected_job i run e lifecycle now)
                  (List.enumerate (next_serial (map j_id (jobs s))) (rejected_devices run))
      in if None \<in> set new then None
         else if violates_run_device (jobs s) (map the new) then None
         else Some (s\<lparr>jobs := jobs s @ map the new\<rparr>))"

subsection \<open>Phase B: the admission transaction\<close>

definition operation_cap_from_host_extra :: "json \<Rightarrow> int option" where
  "operation_cap_from_host_extra extra =
     (case obj_of (jget (obj_or_empty extra) ''operations'') of None \<Rightarrow> None
      | Some ops \<Rightarrow> (case py_int (jor (jget ops ''max'') (JInt 0)) of None \<Rightarrow> None
          | Some n \<Rightarrow> if n > 0 then Some n else None))"

definition host_groups_of :: "db \<Rightarrow> nat \<Rightarrow> prh_row list" where
  "host_groups_of s run_id = sort_key p_host_id (filter (\<lambda>p. p_plan_run_id p = run_id) (prhs s))"

definition targets_of :: "db \<Rightarrow> nat \<Rightarrow> target_row list" where
  "targets_of s run_id =
     sort_key (\<lambda>t. (tg_sort_order t, tg_device_id t)) (filter (\<lambda>t. tg_plan_run_id t = run_id) (targets s))"

definition ADMISSION_SHRINK_RUN_TYPES :: "string list" where
  "ADMISSION_SHRINK_RUN_TYPES = [''SCHEDULE'', ''CHAIN'']"

definition shrink_targets ::
  "run_row \<Rightarrow> (nat \<times> block) list \<Rightarrow> target_row list \<Rightarrow> db \<Rightarrow> verdict + (target_row list \<times> db)" where
  \<comment> \<open>the targets to admit: all, or the available ones of a periodic run\<close>
  "shrink_targets run unavailable ts s =
     (if unavailable = [] then Inr (ts, s)
      else if r_run_type run \<in> set ADMISSION_SHRINK_RUN_TYPES
      then (let excluded = fst ` set unavailable; kept = filter (\<lambda>t. tg_device_id t \<notin> excluded) ts in
            if kept = [] then Inl (Retry ''DEVICE_BUSY'' (entries unavailable))
            else Inr (kept,
              add_audit ''admission_shrink'' ''plan_run'' (dec (r_id run)) []
                (JObj [(''run_type'', JStr (r_run_type run)), (''excluded_devices'', JList (map JObj (entries unavailable))),
                       (''kept_device_count'', JInt (int (length kept)))])
                (s\<lparr>targets := filter (\<lambda>t. \<not> (tg_plan_run_id t = r_id run \<and> tg_device_id t \<in> excluded)) (targets s)\<rparr>)))
      else Inl (Retry ''DEVICE_BUSY'' (entries unavailable)))"

definition drift_entry :: "db \<Rightarrow> target_row \<Rightarrow> jobj" where
  "drift_entry s t =
     [(''id'', JInt (int (tg_device_id t))), (''reason'', JStr ''host_drift''),
      (''host_id_snapshot'', JStr (tg_host_id_snapshot t)), (''current_host_id'', opt_json (device_host s (tg_device_id t)))]"

definition admitted_group :: "db \<Rightarrow> nat list \<Rightarrow> time \<Rightarrow> prh_row \<Rightarrow> prh_row" where
  "admitted_group s device_ids now g =
     g\<lparr>p_status := ''ADMITTED'', p_admitted_at := Some now,
       p_admission_batch_size_snapshot :=
         operation_cap_from_host_extra (case get_host s (p_host_id g) of None \<Rightarrow> JNull | Some h \<Rightarrow> h_extra h),
       p_total := int (length (filter (\<lambda>d. device_host s d = Some (p_host_id g)) device_ids))\<rparr>"

definition admitted_row :: "nat \<Rightarrow> nat \<Rightarrow> (nat \<times> block) list option \<Rightarrow> time \<Rightarrow> run_row \<Rightarrow> run_row" where
  "admitted_row count_jobs count_rejected excluded now r =
     r\<lparr>r_status := R_RUNNING, r_started_at := now, r_queue_reason := None, r_next_admission_at := None,
       r_precheck_started_at := None, r_total := int count_jobs + int count_rejected,
       r_terminal := r_terminal r + int count_rejected, r_failed := r_failed r + int count_rejected,
       r_run_context :=
         (let st = AList.update ''last_error'' JNull (AList.update ''completed_at'' (JTime now)
                (started_dispatch now (AList.update ''status'' (JStr ''completed'') (dispatch_state_of (r_run_context r)))));
              ctx = set_dispatch_state st (r_run_context r)
          in case excluded of None \<Rightarrow> ctx
             | Some bs \<Rightarrow> JObj (AList.update ''admission_excluded_devices'' (JList (map JObj (entries bs))) (obj_or_empty ctx)))\<rparr>"

definition admit_targets ::
  "run_row \<Rightarrow> (nat \<times> block) list \<Rightarrow> target_row list \<Rightarrow> (jobj \<Rightarrow> jobj option) \<Rightarrow> time \<Rightarrow> db \<Rightarrow> verdict \<times> db" where
  \<comment> \<open>from the drift check to the commit; \<open>s\<close> with the targets that were kept\<close>
  "admit_targets run unavailable ts suite now s =
     (let device_ids = map tg_device_id ts;
          drifted = filter (\<lambda>t. device_host s (tg_device_id t) \<noteq> Some (tg_host_id_snapshot t)) ts
      in if drifted \<noteq> []
         then (Fatal ''device_host_drift'' [(''drifted_devices'', JList (map (JObj \<circ> drift_entry s) drifted))], s)
         else case build_lifecycle_from_snapshot (r_plan_snapshot run) of
           Inl err \<Rightarrow> (Crashed, s)
         | Inr lifecycle \<Rightarrow>
             (case materialize_jobs_and_allocations run lifecycle device_ids (device_host s) suite now s of
                Inl (MatAllocation err) \<Rightarrow> (Retry ''RESOURCE_BUSY'' [[(''reason'', JStr ''wifi_pool_full'')]], s)
              | Inl MatDeviceBusy \<Rightarrow> (Retry ''DEVICE_BUSY'' [[(''reason'', JStr ''device_claimed_concurrently'')]], s)
              | Inl err \<Rightarrow> (Crashed, s)
              | Inr s1 \<Rightarrow>
                  (case materialize_serial_rejected_jobs run lifecycle now s1 of
                     None \<Rightarrow> (Crashed, s)
                   | Some s2 \<Rightarrow>
                       (Pass, upd_run (r_id run)
                          (admitted_row (length device_ids) (length (rejected_devices run))
                             (if unavailable = [] then None else Some unavailable) now)
                          (s2\<lparr>prhs := upd_where (\<lambda>g. p_plan_run_id g = r_id run) (admitted_group s device_ids now) (prhs s2)\<rparr>)))))"

definition admission_transaction ::
  "nat \<Rightarrow> string \<Rightarrow> (jobj \<Rightarrow> jobj option) \<Rightarrow> time \<Rightarrow> db \<Rightarrow> verdict \<times> db" where
  \<comment> \<open>\<open>Pass\<close>: the run was admitted; otherwise the transaction is rolled back\<close>
  "admission_transaction run_id attempt suite now s =
     (if \<not> owns_attempt s run_id attempt then (NotOwner, s)
      else
        let run = the (get_run s run_id); ts = targets_of s run_id; device_ids = map tg_device_id ts;
            unavailable = classified s now device_ids;
            fatal = with_reason (\<lambda>r. r \<in> set FATAL_DISPATCH_REASONS) unavailable
        in if ts = [] then (Fatal ''snapshot_missing_targets'' [], s)
           else if fatal \<noteq> []
           then (Fatal (if with_reason (\<lambda>r. r = ''host_retired'') fatal \<noteq> [] then ''HOST_RETIRED'' else ''devices_unavailable_at_admission'')
                   [(''unavailable_devices'', JList (map JObj (entries fatal)))], s)
           else case shrink_targets run unavailable ts s of
             Inl v \<Rightarrow> (v, s)
           | Inr (kept, s1) \<Rightarrow>
               (case admit_targets run unavailable kept suite now s1 of
                  (Pass, t) \<Rightarrow> (Pass, t)
                | (v, _) \<Rightarrow> (v, s)))"

subsection \<open>The admission task\<close>

definition attempt_hosts :: "db \<Rightarrow> nat \<Rightarrow> string \<Rightarrow> string list" where
  "attempt_hosts s run_id attempt =
     (if owns_attempt s run_id attempt then map p_host_id (host_groups_of s run_id) else [])"

definition retire_gate :: "db \<Rightarrow> nat \<Rightarrow> string \<Rightarrow> verdict" where
  "retire_gate s run_id attempt =
     (let retired = sort (map h_id (filter (\<lambda>h. h_retired_at h \<noteq> None
            \<and> list_ex (\<lambda>p. p_plan_run_id p = run_id \<and> p_host_id p = h_id h) (prhs s)) (hosts s)))
      in if owns_attempt s run_id attempt \<and> retired \<noteq> []
         then Fatal ''HOST_RETIRED'' [(''hosts'', JList (map (\<lambda>h. JObj [(''host_id'', JStr h), (''reason'', JStr ''host_retired'')]) retired))]
         else Pass)"

definition suite_gate :: "db \<Rightarrow> nat \<Rightarrow> string \<Rightarrow> jobj option \<Rightarrow> verdict" where
  \<comment> \<open>\<open>err\<close>: what \<open>collect\_suite\_gate\_error\<close> found\<close>
  "suite_gate s run_id attempt err =
     (case err of None \<Rightarrow> Pass
      | Some d \<Rightarrow> if owns_attempt s run_id attempt then Fatal ''suite_verify_failed'' d else Pass)"

definition route_verdict :: "adm_cfg \<Rightarrow> nat \<Rightarrow> string \<Rightarrow> verdict \<Rightarrow> time \<Rightarrow> db \<Rightarrow> db" where
  \<comment> \<open>the except clauses of the task, each with a transaction of its own\<close>
  "route_verdict cfg run_id attempt v now s =
     (case v of
        Retry reason blockers \<Rightarrow> snd (requeue_plan_run cfg run_id attempt reason (Some blockers) None now s)
      | Fatal reason detail \<Rightarrow> snd (fail_plan_run_admission run_id attempt reason detail now s)
      | _ \<Rightarrow> s)"

text \<open>
  The whole task.  \<open>reads\<close> are the states its gates see, \<open>phase\<close> the verdict of the script phase, \<open>s\<close>
  the state of the admission transaction and \<open>between\<close> what others do before a failed one is routed.
\<close>

definition plan_admission_task ::
  "adm_cfg \<Rightarrow> nat \<Rightarrow> string \<Rightarrow> db \<times> db \<times> db \<Rightarrow> jobj option \<Rightarrow> verdict \<Rightarrow> (jobj \<Rightarrow> jobj option) \<Rightarrow> time
    \<Rightarrow> (db \<Rightarrow> db) \<Rightarrow> db \<Rightarrow> verdict \<times> db" where
  "plan_admission_task cfg run_id attempt reads gate phase suite now between s =
     (case reads of (s0, s1, s2) \<Rightarrow>
        if attempt_hosts s0 run_id attempt = [] then (NotOwner, s)
        else if suite_gate s1 run_id attempt gate \<noteq> Pass
          then (suite_gate s1 run_id attempt gate, route_verdict cfg run_id attempt (suite_gate s1 run_id attempt gate) now s)
        else if retire_gate s2 run_id attempt \<noteq> Pass
          then (retire_gate s2 run_id attempt, route_verdict cfg run_id attempt (retire_gate s2 run_id attempt) now s)
        else if phase \<noteq> Pass then (phase, route_verdict cfg run_id attempt phase now s)
        else (case admission_transaction run_id attempt suite now s of
                (Pass, t) \<Rightarrow> (Pass, t)
              | (v, t) \<Rightarrow> (v, route_verdict cfg run_id attempt v now (between t))))"

subsection \<open>The reaper of stale attempts\<close>

datatype reap_result = Requeued | Failed | Skipped

definition stale_precheck :: "time \<Rightarrow> run_row \<Rightarrow> bool" where
  "stale_precheck deadline r \<longleftrightarrow> r_status r = R_PRECHECK
     \<and> (case r_precheck_started_at r of None \<Rightarrow> False | Some t \<Rightarrow> t < deadline)"

definition saq_key :: "nat \<Rightarrow> string option \<Rightarrow> string" where
  "saq_key run_id attempt = ''admission:'' @ dec run_id @ '':'' @ (case attempt of None \<Rightarrow> ''None'' | Some a \<Rightarrow> a)"

definition requeue_attempts :: "run_row \<Rightarrow> int option" where
  "requeue_attempts r = py_int (jor (jget (obj_or_empty (r_run_context r)) ''admission_requeue_attempts'') (JInt 0))"

definition exhausted_row :: "int \<Rightarrow> time \<Rightarrow> run_row \<Rightarrow> run_row" where
  "exhausted_row attempts now r =
     r\<lparr>r_status := R_FAILED, r_ended_at := Some now, r_run_context := JObj (obj_or_empty (r_run_context r)),
       r_result_summary := JObj [(''precheck_failed'', JBool True), (''reason'', JStr ''admission_requeue_exhausted''),
                                 (''attempts'', JInt attempts)]\<rparr>"

definition reaped_row :: "adm_cfg \<Rightarrow> int \<Rightarrow> time \<Rightarrow> run_row \<Rightarrow> run_row" where
  "reaped_row cfg attempts now r =
     r\<lparr>r_status := R_QUEUED, r_queue_reason := Some ''PRECHECK_STALE'',
       r_next_admission_at := Some (now + ac_requeue_backoff cfg * (attempts + 1)),
       r_admission_attempt_id := None, r_precheck_started_at := None,
       r_enqueued_at := (case r_enqueued_at r of None \<Rightarrow> Some now | Some t \<Rightarrow> Some t),
       r_run_context := JObj (AList.update ''admission_requeue_attempts'' (JInt (attempts + 1)) (obj_or_empty (r_run_context r)))\<rparr>"

definition recover_stale_precheck_run ::
  "adm_cfg \<Rightarrow> (string \<Rightarrow> (string \<times> string option) option) \<Rightarrow> (string option \<Rightarrow> bool) \<Rightarrow> nat \<Rightarrow> time \<Rightarrow> time \<Rightarrow> db
    \<Rightarrow> reap_result option \<times> db" where
  \<comment> \<open>\<open>saq\<close>, \<open>alive\<close>: status and worker of a job of the task queue, and the workers alive; \<open>None\<close>: it raises\<close>
  "recover_stale_precheck_run cfg saq alive run_id deadline now s =
     (case get_run s run_id of
        None \<Rightarrow> (Some Skipped, s)
      | Some r \<Rightarrow>
          if \<not> stale_precheck deadline r then (Some Skipped, s)
          else case requeue_attempts r of None \<Rightarrow> (None, s)
          | Some attempts \<Rightarrow>
              if (case saq (saq_key run_id (r_admission_attempt_id r)) of None \<Rightarrow> False
                  | Some (st, worker) \<Rightarrow> st = ''queued'' \<or> st = ''active'' \<and> alive worker)
              then (Some Skipped, s)
              else if attempts \<ge> ac_max_requeue_attempts cfg
              then (Some Failed, add_audit ''plan_admission_failed'' ''plan_run'' (dec run_id) ''system''
                      (JObj [(''reason'', JStr ''admission_requeue_exhausted''), (''attempts'', JInt attempts)])
                      (upd_run run_id (exhausted_row attempts now) s))
              else (Some Requeued, add_audit ''plan_admission_requeued'' ''plan_run'' (dec run_id) ''system''
                      (JObj [(''reason'', JStr ''precheck_stale''), (''attempt'', JInt (attempts + 1)),
                             (''next_admission_at'', JTime (now + ac_requeue_backoff cfg * (attempts + 1)))])
                      (upd_run run_id (reaped_row cfg attempts now) s)))"

definition reconcile_stale_precheck ::
  "adm_cfg \<Rightarrow> (string \<Rightarrow> (string \<times> string option) option) \<Rightarrow> (string option \<Rightarrow> bool) \<Rightarrow> (nat \<Rightarrow> bool) \<Rightarrow> time \<Rightarrow> db \<Rightarrow> db
    \<Rightarrow> reap_result option list \<times> db" where
  \<comment> \<open>\<open>scan\<close>: the unlocked read of the candidates; \<open>failing\<close>: the runs whose candidate raises\<close>
  "reconcile_stale_precheck cfg saq alive failing now scan s =
     (let deadline = now - ac_precheck_active_stale cfg
      in run_batch (\<lambda>i u. if failing i then (None, u) else recover_stale_precheck_run cfg saq alive i deadline now u)
           (sort (map r_id (filter (stale_precheck deadline) (runs scan)))) s)"

end
