(* ===== verification/Admission_Facts.thy ===== *)
theory Admission_Facts
  imports Admission
begin

section \<open>What admissions do\<close>

text \<open>
  Facts on the operations of \<open>Admission\<close>: ownership of an attempt, what a materialization inserts, and
  the properties of a single transaction, of the verdicts and of the pump.
\<close>

subsection \<open>Ownership of an attempt\<close>

lemma owns_attemptE:
  assumes "owns_attempt s i a"
  obtains r where "get_run s i = Some r" "r_status r = R_PRECHECK" "r_admission_attempt_id r = Some a" "r_id r = i"
  using assms get_run_Some by (fastforce simp: owns_attempt_def split: option.splits)

lemma requeued_id [simp]: "r_id (requeued_row reason bs t r) = r_id r"
  by (simp add: requeued_row_def)

lemma failed_id [simp]: "r_id (failed_row reason d now r) = r_id r"
  by (simp add: failed_row_def)

lemma admitted_id [simp]: "r_id (admitted_row n m ex now r) = r_id r"
  by (simp add: admitted_row_def)

lemma pump_id [simp]: "r_id (pump_row now u k r) = r_id r"
  by (simp add: pump_row_def)

lemma reaped_id [simp]: "r_id (reaped_row cfg n now r) = r_id r" "r_id (exhausted_row n now r) = r_id r"
  by (simp_all add: reaped_row_def exhausted_row_def)

lemma get_run_audit [simp]: "get_run (add_audit p q u v w s) i = get_run s i"
  by (simp add: add_audit_def get_run_def)

subsection \<open>The classification of devices\<close>

lemma device_block_free:
  assumes "device_block s now ids d = None" "d \<in> set ids"
  obtains v h where "get_device s d = Some v" "d_host_id v = Some h" "d_retired_at v = None" "host_field s h h_retired_at = None"
    "\<not> is_placeholder_serial (d_serial v)" "\<not> list_ex (\<lambda>b. b_device_id b = d \<and> b_state b = DEBT_OPEN) (debts s)"
    "get_active_lease s d = None" "\<not> list_ex (\<lambda>j. j_device_id j = d \<and> active_job j) (jobs s)"
proof -
  from assms(1) obtain v h where v: "get_device s d = Some v" "d_host_id v = Some h"
    and i: "identity_block s v h = None" and b: "busy_block s ids d = None"
    by (auto simp: device_block_def split: option.splits)
  from i have "host_field s h h_retired_at = None" "d_retired_at v = None" "\<not> is_placeholder_serial (d_serial v)"
    by (auto simp: identity_block_def split: if_splits)
  moreover have "get_active_lease s d = None" "first_active_job s d = None" "d \<notin> set (devices_with_open_debt_sync s ids)"
    using b by (auto simp: busy_block_def split: if_splits option.splits)
  moreover from this(2) have "\<not> list_ex (\<lambda>j. j_device_id j = d \<and> active_job j) (jobs s)"
    by (auto simp: first_active_job_def list_ex_iff filter_empty_conv dest: arg_cong [where f = set])
  moreover have "\<not> list_ex (\<lambda>b. b_device_id b = d \<and> b_state b = DEBT_OPEN) (debts s)"
    using calculation(6) assms(2) by (auto simp: devices_with_open_debt_sync_def list_ex_iff split: if_splits)
  ultimately show thesis using that v by blast
qed

lemma classified_none: "d \<in> set ids \<Longrightarrow> d \<notin> fst ` set (classified s now ids) \<Longrightarrow> device_block s now ids d = None"
  by (force simp: classified_def map_filter_def)

lemma classified_in: "x \<in> set (classified s now ids) \<Longrightarrow> fst x \<in> set ids \<and> device_block s now ids (fst x) = Some (snd x)"
  by (auto simp: classified_def map_filter_def)

subsection \<open>Materialization\<close>

lemma map_enumerate_snd: "map (\<lambda>(i, x). f x) (List.enumerate n xs) = map f xs"
  by (induction xs arbitrary: n) auto

lemma map_enumerate_fst: "map fst (List.enumerate n xs) = [n..<n + length xs]"
  by (simp add: enumerate_eq_zip)

lemma collect_fst:
  assumes "\<And>x y. f x = Inr y \<Longrightarrow> fst y = x"
  shows "collect f xs = Inr ys \<Longrightarrow> map fst ys = xs"
  using assms by (induction xs arbitrary: ys) (auto split: sum.splits)

definition admitted_jobs :: "nat \<Rightarrow> (nat \<Rightarrow> string option) \<Rightarrow> nat \<Rightarrow> nat list \<Rightarrow> job_row list \<Rightarrow> bool" where
  \<comment> \<open>one new PENDING job of the run per device, on its host, numbered from \<open>n\<close>\<close>
  "admitted_jobs run_id host_of n device_ids new \<longleftrightarrow>
     map j_device_id new = device_ids \<and> map j_id new = [n..<n + length new]
     \<and> list_all (\<lambda>j. j_status j = J_PENDING \<and> j_plan_run_id j = run_id \<and> j_host_id j = host_of (j_device_id j)) new"

lemma new_job_fields [simp]:
  "j_id (new_job i run d h lc now) = i" "j_device_id (new_job i run d h lc now) = d" "j_host_id (new_job i run d h lc now) = h"
  "j_status (new_job i run d h lc now) = J_PENDING" "j_plan_run_id (new_job i run d h lc now) = r_id run"
  by (simp_all add: new_job_def)

lemma new_jobs_admitted:
  assumes "map fst lcs = device_ids"
  shows "admitted_jobs (r_id run) host_of n device_ids
     (map (\<lambda>(i, did, lc). new_job i run did (host_of did) lc now) (List.enumerate n lcs))"
proof -
  let ?new = "map (\<lambda>(i, did, lc). new_job i run did (host_of did) lc now) (List.enumerate n lcs)"
  have "map j_id ?new = map fst (List.enumerate n lcs)" by (simp add: comp_def case_prod_unfold)
  then have "map j_id ?new = [n..<n + length ?new]" by (simp add: map_enumerate_fst)
  moreover have "map j_device_id ?new = map (\<lambda>(i, x). fst x) (List.enumerate n lcs)"
    by (simp add: comp_def case_prod_unfold)
  then have "map j_device_id ?new = device_ids" using assms by (simp only: map_enumerate_snd)
  moreover have "list_all (\<lambda>j. j_status j = J_PENDING \<and> j_plan_run_id j = r_id run \<and> j_host_id j = host_of (j_device_id j)) ?new"
    by (auto simp: list_all_iff)
  ultimately show ?thesis by (simp add: admitted_jobs_def)
qed

lemma device_lifecycle_fst: "device_lifecycle as sp lc d = Inr y \<Longrightarrow> fst y = d"
  by (auto simp: device_lifecycle_def Let_def split: sum.splits)

lemma materialize_jobs:
  assumes "materialize_jobs_and_allocations run lc ds host_of suite now s = Inr t"
  obtains new as where "jobs t = jobs s @ new" "admitted_jobs (r_id run) host_of (next_serial (map j_id (jobs s))) ds new"
    "\<not> violates_active (jobs s) new" "\<not> violates_run_device (jobs s) new" "t = s\<lparr>jobs := jobs s @ new, allocations := as\<rparr>"
proof -
  let ?n = "next_serial (map j_id (jobs s))"
  from assms obtain as sp lcs where c: "collect (device_lifecycle as sp lc) ds = Inr lcs"
    and t: "let new = map (\<lambda>(i, did, lc). new_job i run did (host_of did) lc now) (List.enumerate ?n lcs)
            in \<not> violates_active (jobs s) new \<and> \<not> violates_run_device (jobs s) new
              \<and> t = s\<lparr>jobs := jobs s @ new, allocations := allocations s @ sync_create_allocations as
                  (map (\<lambda>j. (j_id j, j_device_id j)) new)\<rparr>"
    unfolding materialize_jobs_and_allocations_def Let_def by (auto split: sum.splits option.splits if_splits)
  have "map fst lcs = ds" by (rule collect_fst [OF device_lifecycle_fst c])
  from that t new_jobs_admitted [OF this, of run host_of ?n now] show thesis by (simp add: Let_def)
qed

definition refused_jobs :: "nat \<Rightarrow> nat \<Rightarrow> job_row list \<Rightarrow> bool" where
  "refused_jobs run_id n rej \<longleftrightarrow> map j_id rej = [n..<n + length rej]
     \<and> list_all (\<lambda>j. j_status j = J_FAILED \<and> j_plan_run_id j = run_id) rej"

lemma rejected_jobs:
  assumes "materialize_serial_rejected_jobs run lc now s = Some t"
  obtains rej where "t = s\<lparr>jobs := jobs s @ rej\<rparr>" "length rej = length (rejected_devices run)"
    "refused_jobs (r_id run) (next_serial (map j_id (jobs s))) rej" "\<not> violates_run_device (jobs s) rej"
proof -
  let ?n = "next_serial (map j_id (jobs s))"
  let ?new = "map (\<lambda>(i, e). rejected_job i run e lc now) (List.enumerate ?n (rejected_devices run))"
  from assms have none: "None \<notin> set ?new" and v: "\<not> violates_run_device (jobs s) (map the ?new)"
    and t: "t = s\<lparr>jobs := jobs s @ map the ?new\<rparr>"
    unfolding materialize_serial_rejected_jobs_def Let_def by (simp_all split: if_splits)
  have row: "j_id (the (rejected_job i run e lc now)) = i \<and> j_status (the (rejected_job i run e lc now)) = J_FAILED
      \<and> j_plan_run_id (the (rejected_job i run e lc now)) = r_id run" if "(i, e) \<in> set (List.enumerate ?n (rejected_devices run))" for i e
  proof -
    from that none have "rejected_job i run e lc now \<noteq> None" by force
    then show ?thesis by (auto simp: rejected_job_def)
  qed
  have "map j_id (map the ?new) = map fst (List.enumerate ?n (rejected_devices run))"
    unfolding map_map by (rule map_cong [OF refl]) (use row in auto)
  then have r: "refused_jobs (r_id run) ?n (map the ?new)"
    using row by (auto simp: refused_jobs_def map_enumerate_fst list_all_iff)
  show thesis by (rule that [OF t _ r v]) simp
qed

subsection \<open>The transaction\<close>

lemma shrink_kept:
  assumes "shrink_targets run un ts s = Inr (kept, s1)"
  shows "kept = filter (\<lambda>t. tg_device_id t \<notin> fst ` set un) ts" "jobs s1 = jobs s" "runs s1 = runs s" "devices s1 = devices s"
    "hosts s1 = hosts s" "prhs s1 = prhs s" "set (targets s1) \<subseteq> set (targets s)" "leases s1 = leases s"
    "r_run_type run \<notin> set ADMISSION_SHRINK_RUN_TYPES \<Longrightarrow> un = []"
    "\<exists>ts' au. s1 = s\<lparr>targets := ts', audits := au\<rparr> \<and> (distinct (map f (targets s)) \<longrightarrow> distinct (map f ts'))"
proof -
  have d: "distinct (map f (targets s)) \<longrightarrow> distinct (map f (filter P (targets s)))" for f :: "target_row \<Rightarrow> 'z" and P
    by (simp add: distinct_map_filter)
  have idd: "s = s\<lparr>targets := targets s, audits := audits s\<rparr>" by simp
  show "kept = filter (\<lambda>t. tg_device_id t \<notin> fst ` set un) ts" "jobs s1 = jobs s" "runs s1 = runs s" "devices s1 = devices s"
    "hosts s1 = hosts s" "prhs s1 = prhs s" "set (targets s1) \<subseteq> set (targets s)" "leases s1 = leases s"
    "r_run_type run \<notin> set ADMISSION_SHRINK_RUN_TYPES \<Longrightarrow> un = []"
    using assms by (auto simp: shrink_targets_def Let_def add_audit_def split: if_splits)
  show "\<exists>ts' au. s1 = s\<lparr>targets := ts', audits := au\<rparr> \<and> (distinct (map f (targets s)) \<longrightarrow> distinct (map f ts'))"
  proof (cases "un = []")
    case True
    with assms have "s1 = s" by (simp add: shrink_targets_def)
    with idd show ?thesis by blast
  next
    case False
    with assms obtain P au where "s1 = s\<lparr>targets := filter P (targets s), audits := au\<rparr>"
      by (auto simp: shrink_targets_def Let_def add_audit_def split: if_splits)
    with d show ?thesis by blast
  qed
qed

lemma shrink_refusal: "shrink_targets run un ts s = Inl v \<Longrightarrow> v = Retry ''DEVICE_BUSY'' (entries un)"
  by (auto simp: shrink_targets_def Let_def split: if_splits)

lemma admission_rolled_back: "admission_transaction i a suite now s = (v, t) \<Longrightarrow> v \<noteq> Pass \<Longrightarrow> t = s"
  unfolding admission_transaction_def Let_def by (auto split: if_splits sum.splits prod.splits verdict.splits)

lemma admission_passE:
  assumes "admission_transaction i a suite now s = (Pass, t)"
  obtains run kept s1 new rej as un lc where
    "owns_attempt s i a" "get_run s i = Some run" "un = classified s now (map tg_device_id (targets_of s i))"
    "targets_of s i \<noteq> []" "with_reason (\<lambda>r. r \<in> set FATAL_DISPATCH_REASONS) un = []"
    "shrink_targets run un (targets_of s i) s = Inr (kept, s1)"
    "list_all (\<lambda>x. device_host s (tg_device_id x) = Some (tg_host_id_snapshot x)) kept"
    "build_lifecycle_from_snapshot (r_plan_snapshot run) = Inr lc"
    "admitted_jobs i (device_host s) (next_serial (map j_id (jobs s))) (map tg_device_id kept) new"
    "\<not> violates_active (jobs s) new" "\<not> violates_run_device (jobs s) new"
    "refused_jobs i (next_serial (map j_id (jobs s @ new))) rej" "length rej = length (rejected_devices run)"
    "\<not> violates_run_device (jobs s @ new) rej"
    "t = upd_run i (admitted_row (length new) (length rej) (if un = [] then None else Some un) now)
       (s1\<lparr>allocations := as, jobs := jobs s @ new @ rej,
           prhs := upd_where (\<lambda>g. p_plan_run_id g = i) (admitted_group s1 (map tg_device_id kept) now) (prhs s)\<rparr>)"
proof -
  from assms have o: "owns_attempt s i a"
    by (auto simp: admission_transaction_def split: if_splits)
  then obtain run where run: "get_run s i = Some run" "r_id run = i" by (auto elim: owns_attemptE)
  let ?un = "classified s now (map tg_device_id (targets_of s i))"
  from assms o run obtain kept s1 where
    ne: "targets_of s i \<noteq> []" "with_reason (\<lambda>r. r \<in> set FATAL_DISPATCH_REASONS) ?un = []" and
    sh: "shrink_targets run ?un (targets_of s i) s = Inr (kept, s1)" and
    ad: "admit_targets run ?un kept suite now s1 = (Pass, t)"
    unfolding admission_transaction_def Let_def
    by (auto split: if_splits sum.splits prod.splits verdict.splits dest: shrink_refusal)
  note k = shrink_kept [OF sh]
  have dh: "device_host s1 = device_host s" using k(4) by (simp add: device_host_def get_device_def fun_eq_iff)
  let ?ds = "map tg_device_id kept"
  from ad obtain lc s2 s3 where
    dr: "filter (\<lambda>t. device_host s1 (tg_device_id t) \<noteq> Some (tg_host_id_snapshot t)) kept = []" and
    lc: "build_lifecycle_from_snapshot (r_plan_snapshot run) = Inr lc" and
    m: "materialize_jobs_and_allocations run lc ?ds (device_host s1) suite now s1 = Inr s2" and
    r: "materialize_serial_rejected_jobs run lc now s2 = Some s3" and
    t: "t = upd_run (r_id run) (admitted_row (length ?ds) (length (rejected_devices run)) (if ?un = [] then None else Some ?un) now)
          (s3\<lparr>prhs := upd_where (\<lambda>g. p_plan_run_id g = r_id run) (admitted_group s1 ?ds now) (prhs s3)\<rparr>)"
    unfolding admit_targets_def Let_def by (auto split: if_splits sum.splits option.splits mat_error.splits)
  from m obtain new as where new: "jobs s2 = jobs s1 @ new"
    "admitted_jobs (r_id run) (device_host s1) (next_serial (map j_id (jobs s1))) ?ds new"
    "\<not> violates_active (jobs s1) new" "\<not> violates_run_device (jobs s1) new" "s2 = s1\<lparr>jobs := jobs s1 @ new, allocations := as\<rparr>"
    by (rule materialize_jobs)
  from r obtain rej where rej: "s3 = s2\<lparr>jobs := jobs s2 @ rej\<rparr>" "length rej = length (rejected_devices run)"
    "refused_jobs (r_id run) (next_serial (map j_id (jobs s2))) rej" "\<not> violates_run_device (jobs s2) rej"
    by (rule rejected_jobs)
  have len: "length ?ds = length new" using new(2) by (metis admitted_jobs_def length_map)
  have "t = upd_run i (admitted_row (length new) (length rej) (if ?un = [] then None else Some ?un) now)
       (s1\<lparr>allocations := as, jobs := jobs s @ new @ rej,
           prhs := upd_where (\<lambda>g. p_plan_run_id g = i) (admitted_group s1 ?ds now) (prhs s)\<rparr>)"
    unfolding t len rej(1,2) new(5) run(2) by (simp add: k(2,6))
  moreover have "list_all (\<lambda>x. device_host s (tg_device_id x) = Some (tg_host_id_snapshot x)) kept"
    using dr by (simp add: filter_empty_conv list_all_iff dh)
  ultimately show thesis
    using that [OF o run(1) refl ne sh _ lc, of new rej] new rej by (simp add: run(2) k(2) dh)
qed

end
