(* ===== verification/Queue_Invariant.thy ===== *)
theory Queue_Invariant
  imports Admission_Facts
begin

section \<open>The invariant of the queue\<close>

text \<open>
  The invariant \<open>queue_wf\<close> says that a run in the queue has no jobs and a device at most one active job.
  Steps that create no job, move no run into the queue and revive no finished job (\<open>moves_on\<close>) keep it, and
  so do preparing and admitting; pump, requeue, failure and reaper are such steps, and they leave the chain
  links of the runs alone (\<open>moves_linked\<close>).
\<close>

subsection \<open>The invariant\<close>

definition waiting :: "run_row \<Rightarrow> bool" where
  "waiting r \<longleftrightarrow> r_status r = R_QUEUED \<or> r_status r = R_PRECHECK"

definition job_key :: "job_row \<Rightarrow> nat \<times> nat \<times> nat" where
  "job_key j = (j_id j, j_plan_run_id j, j_device_id j)"

definition active_devices :: "job_row list \<Rightarrow> nat list" where
  "active_devices js = map j_device_id (filter active_job js)"

definition one_active_job :: "job_row list \<Rightarrow> bool" where
  "one_active_job js \<longleftrightarrow> distinct (active_devices js)"

definition target_key :: "target_row \<Rightarrow> nat \<times> nat" where
  "target_key t = (tg_plan_run_id t, tg_device_id t)"

definition queue_wf :: "db \<Rightarrow> bool" where
  "queue_wf s \<longleftrightarrow>
     distinct (map r_id (runs s)) \<and> distinct (map j_id (jobs s)) \<and> one_active_job (jobs s)
     \<and> distinct (map target_key (targets s))
     \<and> (\<forall>j\<in>set (jobs s). j_plan_run_id j \<in> r_id ` set (runs s))
     \<and> (\<forall>x\<in>set (targets s). tg_plan_run_id x \<in> r_id ` set (runs s))
     \<and> (\<forall>r\<in>set (runs s). waiting r \<longrightarrow> (\<forall>j\<in>set (jobs s). j_plan_run_id j \<noteq> r_id r))"

definition jobs_of_run :: "nat \<Rightarrow> db \<Rightarrow> (nat \<times> nat \<times> nat) list" where
  "jobs_of_run i s = map job_key (filter (\<lambda>j. j_plan_run_id j = i) (jobs s))"

definition settles :: "db \<Rightarrow> db \<Rightarrow> bool" where
  \<comment> \<open>a run that left the queue stays out of it and keeps its jobs\<close>
  "settles s t \<longleftrightarrow> (\<forall>i r. get_run s i = Some r \<and> \<not> waiting r \<longrightarrow>
     (\<exists>r'. get_run t i = Some r' \<and> \<not> waiting r') \<and> jobs_of_run i t = jobs_of_run i s)"

lemma settles_refl: "settles s s"
  by (simp add: settles_def)

lemma settles_trans: "settles s t \<Longrightarrow> settles t u \<Longrightarrow> settles s u"
  unfolding settles_def by metis

subsection \<open>Steps that create nothing\<close>

definition run_moves :: "string set \<Rightarrow> run_row \<Rightarrow> run_row \<Rightarrow> bool" where
  \<comment> \<open>the attempt ids of \<open>U\<close> are not given to anyone\<close>
  "run_moves U r r' \<longleftrightarrow> r_id r' = r_id r \<and> (waiting r' \<longrightarrow> waiting r)
     \<and> (r_status r' = R_PRECHECK \<longrightarrow>
          r_status r = R_PRECHECK \<and> r_admission_attempt_id r' = r_admission_attempt_id r
          \<or> r_admission_attempt_id r' \<notin> Some ` U)"

definition job_moves :: "job_row \<Rightarrow> job_row \<Rightarrow> bool" where
  "job_moves j j' \<longleftrightarrow> job_key j' = job_key j \<and> (active_job j' \<longrightarrow> active_job j)"

definition moves_on :: "string set \<Rightarrow> db \<Rightarrow> db \<Rightarrow> bool" where
  "moves_on U s t \<longleftrightarrow> list_all2 (run_moves U) (runs s) (runs t) \<and> list_all2 job_moves (jobs s) (jobs t)
     \<and> targets t = targets s"

lemma job_moves_keys: "list_all2 job_moves xs ys \<Longrightarrow> map job_key ys = map job_key xs"
  by (induction rule: list_all2_induct) (auto simp: job_moves_def)

lemma keys_ids: "map job_key ys = map job_key xs \<Longrightarrow> map j_id ys = map j_id xs"
  by (drule arg_cong [where f = "map fst"]) (simp add: comp_def job_key_def)

lemma keys_runs: "map job_key ys = map job_key xs \<Longrightarrow> map j_plan_run_id ys = map j_plan_run_id xs"
  by (drule arg_cong [where f = "map (fst \<circ> snd)"]) (simp add: comp_def job_key_def)

lemma keys_of_run:
  "map job_key ys = map job_key xs \<Longrightarrow>
   map job_key (filter (\<lambda>j. j_plan_run_id j = i) ys) = map job_key (filter (\<lambda>j. j_plan_run_id j = i) xs)"
  using filter_map [of "\<lambda>k. fst (snd k) = i" job_key xs] filter_map [of "\<lambda>k. fst (snd k) = i" job_key ys]
  by (simp add: comp_def job_key_def)

lemma run_moves_ids: "list_all2 (run_moves U) xs ys \<Longrightarrow> map r_id ys = map r_id xs"
  by (induction rule: list_all2_induct) (auto simp: run_moves_def)

lemma active_devices_simps [simp]:
  "active_devices [] = []"
  "active_devices (j # js) = (if active_job j then j_device_id j # active_devices js else active_devices js)"
  "active_devices (js @ ks) = active_devices js @ active_devices ks"
  by (simp_all add: active_devices_def)

lemma moves_active:
  "list_all2 job_moves xs ys \<Longrightarrow> one_active_job xs \<Longrightarrow>
   one_active_job ys \<and> set (active_devices ys) \<subseteq> set (active_devices xs)"
  unfolding one_active_job_def
proof (induction rule: list_all2_induct)
  case (Cons x xs y ys)
  then have "j_device_id y = j_device_id x" "active_job y \<longrightarrow> active_job x" by (simp_all add: job_moves_def job_key_def)
  with Cons show ?case by (cases "active_job x"; cases "active_job y") auto
qed simp

lemma same_image: "map f ys = map f xs \<Longrightarrow> f ` set ys = f ` set xs"
  by (metis set_map)

lemma moves_on_wf:
  assumes wf: "queue_wf s" and m: "moves_on U s t"
  shows "queue_wf t"
proof -
  have runs: "list_all2 (run_moves U) (runs s) (runs t)" and jobs: "list_all2 job_moves (jobs s) (jobs t)"
    and ts: "targets t = targets s" using m by (simp_all add: moves_on_def)
  note keys = job_moves_keys [OF jobs]
  have ids: "r_id ` set (runs t) = r_id ` set (runs s)" by (rule same_image [OF run_moves_ids [OF runs]])
  have jr: "j_plan_run_id ` set (jobs t) = j_plan_run_id ` set (jobs s)" by (rule same_image [OF keys_runs [OF keys]])
  have "j_plan_run_id j \<noteq> r_id r'" if "r' \<in> set (runs t)" "waiting r'" "j \<in> set (jobs t)" for r' j
  proof -
    from that(1) obtain k where k: "k < length (runs t)" "r' = runs t ! k" by (auto simp: in_set_conv_nth)
    with runs have "runs s ! k \<in> set (runs s)" "run_moves U (runs s ! k) r'" by (simp_all add: list_all2_conv_all_nth)
    then obtain r where r: "r \<in> set (runs s)" "run_moves U r r'" by blast
    from jr that(3) obtain x where x: "x \<in> set (jobs s)" "j_plan_run_id x = j_plan_run_id j" by (metis imageE imageI)
    from r that(2) have "waiting r" "r_id r = r_id r'" by (simp_all add: run_moves_def)
    with wf r(1) x show ?thesis unfolding queue_wf_def by metis
  qed
  moreover have "\<forall>j\<in>set (jobs t). j_plan_run_id j \<in> r_id ` set (runs t)"
    using wf ids jr unfolding queue_wf_def by (metis (no_types, lifting) imageE imageI)
  ultimately show ?thesis
    using wf moves_active [OF jobs] run_moves_ids [OF runs] keys_ids [OF keys] ids ts by (auto simp: queue_wf_def)
qed

lemma run_moves_lookup:
  assumes "list_all2 (run_moves U) (runs s) (runs t)" "get_run s i = Some r"
  shows "\<exists>r'. get_run t i = Some r' \<and> run_moves U r r'"
  using first_row_all2 [where R = "run_moves U" and P = "\<lambda>r. r_id r = i", OF assms(1)] assms(2)
  by (auto simp: get_run_def run_moves_def)

lemma moves_on_settles:
  assumes m: "moves_on U s t"
  shows "settles s t"
  unfolding settles_def
proof (intro allI impI conjI)
  fix i r assume r: "get_run s i = Some r \<and> \<not> waiting r"
  from m run_moves_lookup [of U s t i r] r show "\<exists>r'. get_run t i = Some r' \<and> \<not> waiting r'"
    by (auto simp: moves_on_def run_moves_def)
  from m show "jobs_of_run i t = jobs_of_run i s"
    unfolding jobs_of_run_def by (intro keys_of_run job_moves_keys) (simp add: moves_on_def)
qed

definition run_link :: "run_row \<Rightarrow> nat \<times> nat option \<times> nat option \<times> int \<times> bool" where
  \<comment> \<open>what ties a run to its chain\<close>
  "run_link r = (r_id r, r_parent_id r, r_root_id r, r_chain_index r, r_next_plan_triggered r)"

lemma run_link_id: "run_link r' = run_link r \<Longrightarrow> r_id r' = r_id r"
  by (simp add: run_link_def)

definition moves_linked :: "string set \<Rightarrow> db \<Rightarrow> db \<Rightarrow> bool" where
  "moves_linked U s t \<longleftrightarrow> moves_on U s t \<and> map run_link (runs t) = map run_link (runs s)"

lemma moves_linked_wf: "queue_wf s \<Longrightarrow> moves_linked U s t \<Longrightarrow> queue_wf t"
  unfolding moves_linked_def using moves_on_wf by blast

lemma job_moves_refl: "list_all2 job_moves js js"
  by (simp add: job_moves_def list_all2_same)

lemma run_moves_upd_where:
  assumes "\<And>r. r \<in> set rs \<Longrightarrow> P r \<Longrightarrow> run_moves U r (f r)"
  shows "list_all2 (run_moves U) rs (upd_where P f rs)"
  using assms by (induction rs) (auto simp: upd_where_Cons run_moves_def)

lemma moves_on_runs:
  assumes "\<And>r. r \<in> set (runs s) \<Longrightarrow> P r \<Longrightarrow> run_moves U r (f r)"
    "runs t = upd_where P f (runs s)" "jobs t = jobs s" "targets t = targets s"
  shows "moves_on U s t"
  using assms by (simp add: moves_on_def job_moves_refl run_moves_upd_where)

lemma moves_linked_runs:
  assumes "\<And>r. r \<in> set (runs s) \<Longrightarrow> P r \<Longrightarrow> run_moves U r (f r)" "\<And>r. run_link (f r) = run_link r"
    "runs t = upd_where P f (runs s)" "jobs t = jobs s" "targets t = targets s"
  shows "moves_linked U s t"
  unfolding moves_linked_def
proof
  show "moves_on U s t" by (rule moves_on_runs) (use assms in simp_all)
  show "map run_link (runs t) = map run_link (runs s)" using assms(2,3) by (simp add: map_upd_where)
qed

subsection \<open>Pump, requeue, failure and reaper\<close>

lemma get_run_row: "queue_wf s \<Longrightarrow> r \<in> set (runs s) \<Longrightarrow> get_run s (r_id r) = Some r"
  unfolding get_run_def by (rule first_row_key) (simp_all add: queue_wf_def)

lemma run_moves_trans: "run_moves U a b \<Longrightarrow> run_moves U b c \<Longrightarrow> run_moves U a c"
  by (auto simp: run_moves_def)

lemma job_moves_trans: "job_moves a b \<Longrightarrow> job_moves b c \<Longrightarrow> job_moves a c"
  by (auto simp: job_moves_def)

lemma moves_on_refl: "moves_on U s s"
  by (simp add: moves_on_def job_moves_def run_moves_def list_all2_same)

lemma moves_on_trans:
  assumes st: "moves_on U s t" and tu: "moves_on U t u"
  shows "moves_on U s u"
proof -
  from st have a: "list_all2 (run_moves U) (runs s) (runs t)" "list_all2 job_moves (jobs s) (jobs t)" "targets t = targets s"
    by (simp_all add: moves_on_def)
  from tu have b: "list_all2 (run_moves U) (runs t) (runs u)" "list_all2 job_moves (jobs t) (jobs u)" "targets u = targets t"
    by (simp_all add: moves_on_def)
  have "list_all2 (run_moves U) (runs s) (runs u)"
    by (rule list_all2_trans [OF _ a(1) b(1)]) (rule run_moves_trans)
  moreover have "list_all2 job_moves (jobs s) (jobs u)"
    by (rule list_all2_trans [OF _ a(2) b(2)]) (rule job_moves_trans)
  ultimately show ?thesis using a(3) b(3) by (simp add: moves_on_def)
qed

lemma moves_linked_refl: "moves_linked U s s"
  by (simp add: moves_linked_def moves_on_refl)

lemma moves_linked_trans: "moves_linked U s t \<Longrightarrow> moves_linked U t u \<Longrightarrow> moves_linked U s u"
  unfolding moves_linked_def using moves_on_trans by metis

lemma same_link [simp]:
  "run_link (pump_row now u k r) = run_link r" "run_link (requeued_row reason bs t r) = run_link r"
  "run_link (failed_row reason d now r) = run_link r" "run_link (reaped_row cfg n now r) = run_link r"
  "run_link (exhausted_row n now r) = run_link r" "run_link (admitted_row p q ex now r) = run_link r"
  by (simp_all add: pump_row_def requeued_row_def failed_row_def reaped_row_def exhausted_row_def admitted_row_def run_link_def)

lemma left_precheck [simp]:
  "r_status (requeued_row reason bs t r) = R_QUEUED" "r_status (failed_row reason d now r) = R_FAILED"
  "r_status (reaped_row cfg n now r) = R_QUEUED" "r_status (exhausted_row n now r) = R_FAILED"
  "r_status (admitted_row k m ex now r) = R_RUNNING"
  by (simp_all add: requeued_row_def failed_row_def reaped_row_def exhausted_row_def admitted_row_def)

lemma pump_moves:
  assumes "claim_queued_plan_runs cfg batch now locked uuid token s = (res, t)" "queue_wf s" "\<And>i. uuid i \<notin> U"
  shows "moves_linked U s t"
proof -
  let ?ids = "set (map r_id (pump_candidates cfg batch now locked s))"
  have ids: "r_status r = R_QUEUED" if "r \<in> set (runs s)" "r_id r \<in> ?ids" for r
  proof -
    from that(2) obtain c where c: "c \<in> set (pump_candidates cfg batch now locked s)" "r_id c = r_id r" by auto
    then have "c \<in> set (runs s)" "r_status c = R_QUEUED" by (auto simp: pump_candidates_def dest!: in_set_takeD)
    with get_run_row [OF assms(2)] that(1) c(2) show ?thesis by (metis option.inject)
  qed
  have "runs t = upd_where (\<lambda>r. r_id r \<in> ?ids) (\<lambda>r. pump_row now (uuid (r_id r)) (token (r_id r)) r) (runs s)"
    "jobs t = jobs s" "targets t = targets s"
    using assms(1) by (auto simp: claim_queued_plan_runs_def Let_def)
  with ids assms(3) show ?thesis by (intro moves_linked_runs) (auto simp: run_moves_def waiting_def pump_row_def run_link_def)
qed

lemma moves_linked_owner:
  assumes "queue_wf s" "owns_attempt s i a" "runs t = runs (upd_run i f s)" "jobs t = jobs s" "targets t = targets s"
    "\<And>r. run_link (f r) = run_link r" "\<And>r. r_status (f r) \<noteq> R_PRECHECK"
  shows "moves_linked U s t"
proof (rule moves_linked_runs)
  from assms(2) obtain r0 where r0: "get_run s i = Some r0" "r_status r0 = R_PRECHECK" by (rule owns_attemptE)
  fix r assume "r \<in> set (runs s)" "r_id r = i"
  with get_run_row [OF assms(1)] r0 have "r = r0" by fastforce
  with r0 assms(7) run_link_id [OF assms(6)] show "run_moves U r (f r)" by (simp add: run_moves_def waiting_def)
qed (use assms in \<open>simp_all add: upd_run_def\<close>)

lemma requeue_moves: "queue_wf s \<Longrightarrow> moves_linked U s (snd (requeue_plan_run cfg i a reason bs backoff now s))"
proof (cases "owns_attempt s i a")
  case True
  moreover assume "queue_wf s"
  ultimately show ?thesis
    by (intro moves_linked_owner [where a = a and i = i and f = "requeued_row reason bs (now + (case backoff of None \<Rightarrow> ac_retry_backoff cfg | Some n \<Rightarrow> n))"])
       (simp_all add: requeue_plan_run_def upd_run_def)
qed (simp add: requeue_plan_run_def moves_linked_refl)

lemma fail_moves: "queue_wf s \<Longrightarrow> moves_linked U s (snd (fail_plan_run_admission i a reason d now s))"
proof (cases "owns_attempt s i a")
  case True
  moreover assume "queue_wf s"
  ultimately show ?thesis
    by (intro moves_linked_owner [where a = a and i = i and f = "failed_row reason d now"])
       (simp_all add: fail_plan_run_admission_def upd_run_def add_audit_def)
qed (simp add: fail_plan_run_admission_def moves_linked_refl)

lemma moves_linked_stale:
  assumes "queue_wf s" "get_run s i = Some r" "stale_precheck dl r" "\<And>r. run_link (f r) = run_link r"
    "\<And>r. r_status (f r) \<noteq> R_PRECHECK"
  shows "moves_linked U s (add_audit p q u v w (upd_run i f s))"
proof (rule moves_linked_runs)
  fix x assume "x \<in> set (runs s)" "r_id x = i"
  with get_run_row [OF assms(1)] assms(2) have "x = r" by fastforce
  with assms(3,5) run_link_id [OF assms(4)] show "run_moves U x (f x)" by (simp add: run_moves_def waiting_def stale_precheck_def)
qed (use assms(4) in \<open>simp_all add: upd_run_def add_audit_def\<close>)

lemma recover_moves:
  assumes "queue_wf s"
  shows "moves_linked U s (snd (recover_stale_precheck_run cfg saq alive i dl now s))"
proof (cases "get_run s i")
  case None
  then show ?thesis by (simp add: recover_stale_precheck_run_def moves_linked_refl)
next
  case (Some r)
  show ?thesis
  proof (cases "stale_precheck dl r")
    case True
    note m = moves_linked_stale [OF assms Some True]
    from Some True show ?thesis
      by (simp add: recover_stale_precheck_run_def moves_linked_refl m split: option.split)
  qed (simp add: recover_stale_precheck_run_def moves_linked_refl Some)
qed

subsection \<open>Batches\<close>

lemma tick_moves:
  assumes wf: "queue_wf s" and h: "pump_admission_tick cfg ready now locked uuid token ok s = (res, t)"
    and fresh: "\<And>i. uuid i \<notin> U"
  shows "moves_linked U s t"
proof (cases ready)
  case False
  with h show ?thesis by (simp add: pump_admission_tick_def moves_linked_refl)
next
  case True
  obtain cl s1 where c: "claim_queued_plan_runs cfg 0 now locked uuid token s = (cl, s1)" by fastforce
  note m = pump_moves [OF c wf fresh]
  let ?f = "\<lambda>(i, a) u. if ok i then u
      else snd (requeue_plan_run cfg i a ''PRECHECK_STALE'' (Some [[(''reason'', JStr ''admission_enqueue_failed'')]])
                  (Some (ac_retry_backoff cfg)) now u)"
  have fl: "queue_wf u \<Longrightarrow> moves_linked U u (fold ?f xs u)" for xs u
  proof (induction xs arbitrary: u)
    case (Cons x xs)
    obtain i a where x: "x = (i, a)" by (cases x)
    have "moves_linked U u (?f x u)" using requeue_moves [OF Cons.prems] by (simp add: x moves_linked_refl)
    from moves_linked_trans [OF this Cons.IH [OF moves_linked_wf [OF Cons.prems this]]] show ?case by (simp only: fold_simps)
  qed (simp add: moves_linked_refl)
  have "pump_admission_tick cfg ready now locked uuid token ok s = (cl, fold ?f cl s1)"
    using True c by (simp add: pump_admission_tick_def)
  from trans [OF h [symmetric] this] have t: "t = fold ?f cl s1" by (rule prod.inject [THEN iffD1, THEN conjunct2])
  show ?thesis unfolding t by (rule moves_linked_trans [OF m fl [OF moves_linked_wf [OF wf m]]])
qed

interpretation reaping: batch_invariant
  "\<lambda>i u. if failing i then (None, u) else recover_stale_precheck_run cfg saq alive i dl now u" queue_wf "moves_linked U"
  for U failing cfg saq alive dl now
proof
  fix u i assume u: "queue_wf u"
  have m: "moves_linked U u (snd (if failing i then (None, u) else recover_stale_precheck_run cfg saq alive i dl now u))"
    using recover_moves [OF u] by (simp add: moves_linked_refl)
  then show "moves_linked U u (snd (if failing i then (None, u) else recover_stale_precheck_run cfg saq alive i dl now u))" .
  show "queue_wf (snd (if failing i then (None, u) else recover_stale_precheck_run cfg saq alive i dl now u))"
    by (rule moves_linked_wf [OF u m])
qed (fact moves_linked_refl, fact moves_linked_trans)

lemma reaper_moves:
  "queue_wf s \<Longrightarrow> reconcile_stale_precheck cfg saq alive failing now scan s = (rs, t) \<Longrightarrow> moves_linked U s t"
  unfolding reconcile_stale_precheck_def Let_def
  by (drule arg_cong [where f = snd], unfold snd_conv, erule subst, rule reaping.batch_rel)

subsection \<open>Preparing and admitting\<close>

lemma prepare_db:
  assumes "prepare_plan_run qe p now s = (res, t)" "res = Inr i"
  obtains plan ids blockers snap ctx where "prepare_queued_plan_run qe p plan ids blockers snap ctx now s = (Inr i, t)"
    "ids \<noteq> []" "set ids \<subseteq> set (pi_device_ids p)"
    "set ids = {d \<in> set (pi_device_ids p). d \<notin> fst ` set (with_reason (\<lambda>r. r = ''serial_conflict'') (classified s now (pi_device_ids p)))}"
    "with_reason (\<lambda>r. r \<in> set FATAL_DISPATCH_REASONS) (classified s now (pi_device_ids p)) = []"
proof -
  let ?ids = "filter (\<lambda>d. d \<notin> fst ` set (with_reason (\<lambda>r. r = ''serial_conflict'') (classified s now (pi_device_ids p)))) (pi_device_ids p)"
  from assms obtain plan blockers snap ctx where
    "prepare_queued_plan_run qe p plan ?ids blockers snap ctx now s = (Inr i, t)" "?ids \<noteq> []"
    "with_reason (\<lambda>r. r \<in> set FATAL_DISPATCH_REASONS) (classified s now (pi_device_ids p)) = []"
    unfolding prepare_plan_run_def Let_def by (auto split: if_splits option.splits sum.splits)
  then show thesis using that [of plan ?ids blockers snap ctx] by auto
qed

lemma prepare_refused: "prepare_plan_run qe p now s = (Inl err, t) \<Longrightarrow> t = s"
  unfolding prepare_plan_run_def prepare_queued_plan_run_def Let_def
  by (auto split: if_splits option.splits sum.splits)

lemma queued_run_fields [simp]:
  "r_id (queued_run qe p plan ids bs snap ctx now s) = next_serial (map r_id (runs s))"
  "r_status (queued_run qe p plan ids bs snap ctx now s) = R_QUEUED"
  by (simp_all add: queued_run_def)

lemma target_rows_keys:
  "map target_key (target_rows s i groups ids) = map (Pair i) ids"
  using map_enumerate_snd [of "Pair i" 0 ids] by (simp add: target_rows_def target_key_def comp_def case_prod_unfold)

definition prepared :: "nat \<Rightarrow> db \<Rightarrow> db \<Rightarrow> bool" where
  \<comment> \<open>a new QUEUED run \<open>i\<close> with new target rows and nothing else of the queue\<close>
  "prepared i s t \<longleftrightarrow> (\<exists>run ts ids. runs t = runs s @ [run] \<and> r_id run = i \<and> r_status run = R_QUEUED
     \<and> (\<forall>r\<in>set (runs s). r_id r < i) \<and> targets t = targets s @ ts \<and> map target_key ts = map (Pair i) ids \<and> distinct ids
     \<and> jobs t = jobs s)"

lemma prepare_queued_prepared:
  assumes "prepare_queued_plan_run qe p plan ids bs snap ctx now s = (Inr i, t)"
  shows "prepared i s t"
proof -
  let ?run = "queued_run qe p plan (sort (remdups ids)) bs snap ctx now s"
  let ?ts = "target_rows s (r_id ?run) (host_groups s (r_id ?run) (sort (remdups ids))) (sort (remdups ids))"
  have "runs t = runs s @ [?run]" "targets t = targets s @ ?ts" "jobs t = jobs s" "i = r_id ?run"
    using assms by (auto simp: prepare_queued_plan_run_def Let_def split: if_splits)
  moreover have "r < next_serial (map r_id (runs s))" if "r \<in> r_id ` set (runs s)" for r
    using next_serial_fresh [of r "map r_id (runs s)"] that by simp
  ultimately show ?thesis
    unfolding prepared_def
    by (intro exI [of _ ?run] exI [of _ ?ts] exI [of _ "sort (remdups ids)"]) (auto simp: target_rows_keys)
qed

lemma prepared_wf:
  assumes wf: "queue_wf s" and p: "prepared i s t"
  shows "queue_wf t \<and> settles s t"
proof -
  from p obtain run ts ids where q: "runs t = runs s @ [run]" "r_id run = i" "r_status run = R_QUEUED"
    "\<forall>r\<in>set (runs s). r_id r < i" "targets t = targets s @ ts" "map target_key ts = map (Pair i) ids" "distinct ids"
    "jobs t = jobs s" unfolding prepared_def by blast
  have fresh: "i \<notin> r_id ` set (runs s)" using q(4) by auto
  have keys: "target_key ` set ts = Pair i ` set ids" using arg_cong [OF q(6), of set] by simp
  have tsi: "tg_plan_run_id x = i" if "x \<in> set ts" for x
  proof -
    from that keys have "target_key x \<in> Pair i ` set ids" by blast
    then show ?thesis by (auto simp: target_key_def)
  qed
  have "distinct (map target_key ts)" unfolding q(6) using q(7) by (simp add: distinct_map inj_on_def)
  moreover have "target_key ` set (targets s) \<inter> target_key ` set ts = {}"
  proof -
    have "fst ` target_key ` set (targets s) \<subseteq> r_id ` set (runs s)" using wf by (auto simp: queue_wf_def target_key_def)
    moreover have "fst ` target_key ` set ts \<subseteq> {i}" using keys by auto
    ultimately show ?thesis using fresh by blast
  qed
  ultimately have "distinct (map target_key (targets t))" using wf by (simp add: q(5) queue_wf_def)
  moreover have "distinct (map r_id (runs t))" using wf fresh by (simp add: q(1,2) queue_wf_def)
  moreover have "\<forall>j\<in>set (jobs s). j_plan_run_id j \<noteq> i" using wf fresh by (auto simp: queue_wf_def)
  ultimately have "queue_wf t" using wf q tsi by (auto simp: queue_wf_def)
  moreover have "get_run t k = Some r" if "get_run s k = Some r" for k r
  proof -
    from that have "filter (\<lambda>r. r_id r = k) (runs s) \<noteq> []" by (auto simp: get_run_def)
    then show ?thesis using that q(1) by (cases "filter (\<lambda>r. r_id r = k) (runs s)") (auto simp: get_run_def)
  qed
  then have "settles s t" by (fastforce simp: settles_def jobs_of_run_def q(8))
  ultimately show ?thesis ..
qed

lemma prepare_keeps:
  assumes wf: "queue_wf s" and h: "prepare_plan_run qe p now s = (res, t)"
  shows "queue_wf t \<and> settles s t"
proof (cases res)
  case (Inl err)
  with h prepare_refused [of qe p now s err t] wf show ?thesis by (simp add: settles_refl)
next
  case (Inr i)
  with prepare_db [OF h Inr] prepare_queued_prepared prepared_wf [OF wf] show ?thesis by metis
qed


subsection \<open>The admission transaction\<close>

lemma violates_active_free:
  assumes "\<not> violates_active old new" "one_active_job old"
  shows "one_active_job (old @ new)"
  using assms by (auto simp: violates_active_def one_active_job_def active_devices_def list_ex_iff)

lemma refused_inactive: "refused_jobs i n rej \<Longrightarrow> active_devices rej = []"
  by (auto simp: refused_jobs_def active_devices_def list_all_iff filter_empty_conv active_job_def ACTIVE_JOB_STATUSES_def)

lemma serial_distinct:
  assumes "distinct (map j_id js)" "map j_id new = [next_serial (map j_id js)..<n]"
  shows "distinct (map j_id (js @ new))"
proof -
  have "j_id ` set new = {next_serial (map j_id js)..<n}" using arg_cong [OF assms(2), of set] by simp
  then show ?thesis using assms next_serial_fresh [of _ "map j_id js"] by fastforce
qed

lemma admission_keeps:
  assumes wf: "queue_wf s" and h: "admission_transaction i a suite now s = (v, t)"
  shows "queue_wf t \<and> settles s t"
proof (cases "v = Pass")
  case False
  with admission_rolled_back [OF h] wf show ?thesis by (simp add: settles_refl)
next
  case True
  with h have "admission_transaction i a suite now s = (Pass, t)" by simp
  then obtain run kept s1 new rej as un lc where
    o: "owns_attempt s i a" and run: "get_run s i = Some run" and
    sh: "shrink_targets run un (targets_of s i) s = Inr (kept, s1)" and
    new: "admitted_jobs i (device_host s) (next_serial (map j_id (jobs s))) (map tg_device_id kept) new"
      "\<not> violates_active (jobs s) new" and
    rej: "refused_jobs i (next_serial (map j_id (jobs s @ new))) rej" and
    t: "t = upd_run i (admitted_row (length new) (length rej) (if un = [] then None else Some un) now)
       (s1\<lparr>allocations := as, jobs := jobs s @ new @ rej,
           prhs := upd_where (\<lambda>g. p_plan_run_id g = i) (admitted_group s1 (map tg_device_id kept) now) (prhs s)\<rparr>)"
    by (rule admission_passE) blast
  note k = shrink_kept [OF sh]
  let ?f = "admitted_row (length new) (length rej) (if un = [] then None else Some un) now"
  have rs: "runs t = upd_where (\<lambda>r. r_id r = i) ?f (runs s)" and js: "jobs t = jobs s @ new @ rej"
    and ts: "targets t = targets s1" by (simp_all add: t upd_run_def k(3))
  have ids: "map r_id (runs t) = map r_id (runs s)" unfolding rs by (rule map_upd_where) simp
  from run have i: "i \<in> r_id ` set (runs s)" using get_run_Some [of s i run] by auto
  have d1: "distinct (map j_id (jobs s @ new))" and jd: "distinct (map j_id (jobs s @ new @ rej))"
  proof -
    show d1: "distinct (map j_id (jobs s @ new))"
      by (rule serial_distinct) (use wf new(1) in \<open>simp_all add: queue_wf_def admitted_jobs_def\<close>)
    from serial_distinct [OF d1, of rej] rej show "distinct (map j_id (jobs s @ new @ rej))" by (simp add: refused_jobs_def)
  qed
  have "one_active_job (jobs s @ new)" by (rule violates_active_free) (use new(2) wf in \<open>simp_all add: queue_wf_def\<close>)
  then have act: "one_active_job (jobs s @ new @ rej)" using refused_inactive [OF rej] by (simp add: one_active_job_def)
  have mine: "j_plan_run_id j = i" if "j \<in> set new \<union> set rej" for j
    using that new(1) rej by (auto simp: admitted_jobs_def refused_jobs_def list_all_iff)
  obtain ts' au where "s1 = s\<lparr>targets := ts', audits := au\<rparr>"
    "distinct (map target_key (targets s)) \<longrightarrow> distinct (map target_key ts')" using k(10) [of target_key] by blast
  then have td: "distinct (map target_key (targets t))" using wf ts by (simp add: queue_wf_def)
  have wait: "r \<in> set (runs s) \<and> r_id r \<noteq> i" if "r \<in> set (runs t)" "waiting r" for r
  proof -
    from that(1) obtain r0 where r0: "r0 \<in> set (runs s)" "r = (if r_id r0 = i then ?f r0 else r0)"
      unfolding rs by (auto simp: upd_where_def)
    with that(2) show ?thesis by (auto simp: admitted_row_def waiting_def split: if_splits)
  qed
  have "queue_wf t"
    unfolding queue_wf_def
  proof (intro conjI ballI impI)
    fix r j assume r: "r \<in> set (runs t)" "waiting r" and j: "j \<in> set (jobs t)"
    from wait [OF r] have w: "r \<in> set (runs s)" "r_id r \<noteq> i" by auto
    show "j_plan_run_id j \<noteq> r_id r"
    proof (cases "j \<in> set (jobs s)")
      case True
      with w(1) r(2) wf show ?thesis by (auto simp: queue_wf_def)
    next
      case False
      with j js mine w(2) show ?thesis by auto
    qed
  next
    fix j assume "j \<in> set (jobs t)"
    then show "j_plan_run_id j \<in> r_id ` set (runs t)"
      using js mine i wf unfolding same_image [OF ids] by (auto simp: queue_wf_def)
  next
    fix x assume "x \<in> set (targets t)"
    then show "tg_plan_run_id x \<in> r_id ` set (runs t)"
      using ts k(7) wf unfolding same_image [OF ids] by (auto simp: queue_wf_def)
  qed (use wf in \<open>simp_all add: js jd act td ids queue_wf_def del: map_append\<close>)
  moreover have "settles s t"
    unfolding settles_def
  proof (intro allI impI)
    fix n r assume r: "get_run s n = Some r \<and> \<not> waiting r"
    have n: "n \<noteq> i" using o r by (auto elim!: owns_attemptE simp: waiting_def)
    have "get_run t n = get_run s n"
      unfolding get_run_def rs by (rule first_row_upd_other) (use n in simp_all)
    moreover have "jobs_of_run n t = jobs_of_run n s"
    proof -
      have "filter (\<lambda>j. j_plan_run_id j = n) (new @ rej) = []" using mine n by (auto simp: filter_empty_conv)
      then show ?thesis by (simp add: jobs_of_run_def js)
    qed
    ultimately show "(\<exists>r'. get_run t n = Some r' \<and> \<not> waiting r') \<and> jobs_of_run n t = jobs_of_run n s"
      using r by simp
  qed
  ultimately show ?thesis ..
qed

subsection \<open>Who owns an attempt\<close>

text \<open>\<open>U\<close>: the attempt ids in use, which \<open>uuid4\<close> does not draw again.\<close>

definition queue_moves :: "string set \<Rightarrow> db \<Rightarrow> db \<Rightarrow> bool" where
  \<comment> \<open>no attempt of \<open>U\<close> comes into the possession of a run\<close>
  "queue_moves U s t \<longleftrightarrow> settles s t \<and> (\<forall>i. \<forall>a\<in>U. owns_attempt t i a \<longrightarrow> owns_attempt s i a)"

lemma moves_on_owns:
  assumes m: "list_all2 (run_moves U) (runs s) (runs t)" and a: "a \<in> U" "owns_attempt t i a"
  shows "owns_attempt s i a"
proof -
  from a(2) obtain r' where r': "get_run t i = Some r'" "r_status r' = R_PRECHECK" "r_admission_attempt_id r' = Some a"
    by (rule owns_attemptE)
  have "i \<in> r_id ` set (runs t)" using get_run_Some [OF r'(1)] by auto
  then obtain r0 where "r0 \<in> set (runs s)" "r_id r0 = i"
    unfolding same_image [OF run_moves_ids [OF m]] by auto
  then obtain r where "get_run s i = Some r"
    unfolding get_run_def by (metis (mono_tags, lifting) filter_empty_conv first_row_None option.exhaust)
  with run_moves_lookup [OF m this] r' a(1) show ?thesis by (auto simp: run_moves_def owns_attempt_def)
qed

lemma moves_on_any: "moves_on UNIV s t \<Longrightarrow> moves_on U s t"
  unfolding moves_on_def by (auto elim!: list_all2_mono simp: run_moves_def)

lemma moves_on_queue: "queue_wf s \<Longrightarrow> moves_on U s t \<Longrightarrow> queue_wf t \<and> queue_moves U s t"
  using moves_on_wf moves_on_settles moves_on_owns by (auto simp: queue_moves_def moves_on_def)

lemma first_row_append: "first_row (xs @ ys) = (if xs = [] then first_row ys else first_row xs)"
  by (cases xs) simp_all

lemma prepare_owns:
  assumes "prepare_plan_run qe p now s = (res, t)" "owns_attempt t i a"
  shows "owns_attempt s i a"
proof (cases res)
  case (Inl err)
  with assms prepare_refused [of qe p now s err t] show ?thesis by simp
next
  case (Inr k)
  from prepare_db [OF assms(1) Inr] prepare_queued_prepared obtain run where
    run: "runs t = runs s @ [run]" "r_status run = R_QUEUED" by (metis prepared_def)
  from assms(2) obtain r' where "get_run t i = Some r'" "r_status r' = R_PRECHECK" "r_admission_attempt_id r' = Some a"
    by (rule owns_attemptE)
  with run show ?thesis by (auto simp: owns_attempt_def get_run_def first_row_append split: if_splits)
qed

lemma admission_owns:
  assumes h: "admission_transaction k b suite now s = (v, t)" and o: "owns_attempt t i a"
  shows "owns_attempt s i a"
proof (cases "v = Pass")
  case False
  with admission_rolled_back [OF h] o show ?thesis by simp
next
  case True
  with h have "admission_transaction k b suite now s = (Pass, t)" by simp
  then obtain n m ex where t: "runs t = runs (upd_run k (admitted_row n m ex now) s)"
    by (elim admission_passE) (force dest: shrink_kept(3) simp: upd_run_def)
  then have g: "get_run t j = get_run (upd_run k (admitted_row n m ex now) s) j" for j by (simp add: get_run_def)
  show ?thesis
  proof (cases "i = k")
    case True
    with o g show ?thesis by (auto simp: owns_attempt_def get_run_upd_run split: option.splits)
  next
    case False
    with o g get_run_other [of k i "admitted_row n m ex now" s] show ?thesis by (simp add: owns_attempt_def)
  qed
qed

lemma queue_moves_refl: "queue_moves U s s"
  by (simp add: queue_moves_def settles_refl)

lemma queue_moves_trans: "queue_moves U s t \<Longrightarrow> queue_moves U t u \<Longrightarrow> queue_moves U s u"
  unfolding queue_moves_def using settles_trans by blast

lemma linked_queue: "queue_wf s \<Longrightarrow> moves_linked U s t \<Longrightarrow> queue_wf t \<and> queue_moves U s t"
  unfolding moves_linked_def by (blast dest: moves_on_queue)

lemma prepare_queue:
  "queue_wf s \<Longrightarrow> prepare_plan_run qe p now s = (res, t) \<Longrightarrow> queue_wf t \<and> queue_moves U s t"
  using prepare_keeps prepare_owns by (auto simp: queue_moves_def)

lemma admission_queue:
  "queue_wf s \<Longrightarrow> admission_transaction i a suite now s = (v, t) \<Longrightarrow> queue_wf t \<and> queue_moves U s t"
  using admission_keeps admission_owns by (auto simp: queue_moves_def)

end
