(* ===== verification/Chain_System.thy ===== *)
theory Chain_System
  imports Plan_Chain Queue_Invariant
begin

section \<open>Chains are paths\<close>

text \<open>
  The invariant of the chain: no run has two children, a child is younger than its parent, has its root
  and the next index, and a run is flagged as triggered exactly when it has a child.  Creating a child and
  setting the flag in one transaction keeps it; every other step leaves the links alone.
\<close>

definition chain_ok :: "run_row list \<Rightarrow> bool" where
  "chain_ok rs \<longleftrightarrow> distinct (List.map_filter r_parent_id rs)
     \<and> (\<forall>r\<in>set rs. \<forall>p. r_parent_id r = Some p \<longrightarrow>
          (\<exists>q\<in>set rs. r_id q = p \<and> p < r_id r \<and> r_root_id r = Some (chain_root q) \<and> r_chain_index r = r_chain_index q + 1))
     \<and> (\<forall>q\<in>set rs. r_next_plan_triggered q \<longleftrightarrow> Some (r_id q) \<in> r_parent_id ` set rs)"

definition chain_wf :: "db \<Rightarrow> bool" where
  "chain_wf s \<longleftrightarrow> chain_ok (runs s)"

lemma linkE:
  assumes "map run_link rs' = map run_link rs" "r' \<in> set rs'"
  obtains r where "r \<in> set rs" "run_link r = run_link r'"
  using assms by (metis (no_types, lifting) imageE imageI set_map)

lemma link_fields:
  assumes "run_link q' = run_link q"
  shows "r_id q' = r_id q" "r_root_id q' = r_root_id q" "r_chain_index q' = r_chain_index q" "chain_root q' = chain_root q"
    "r_parent_id q' = r_parent_id q" "r_next_plan_triggered q' = r_next_plan_triggered q"
  using assms by (simp_all add: run_link_def chain_root_def split: option.split)

lemma link_parents: "map run_link rs' = map run_link rs \<Longrightarrow> map r_parent_id rs' = map r_parent_id rs"
  by (drule arg_cong [where f = "map (fst \<circ> snd)"]) (simp add: comp_def run_link_def)

lemma map_filter_conv: "List.map_filter f xs = List.map_filter (\<lambda>y. y) (map f xs)"
  by (induction xs) (simp_all add: List.map_filter_def)

lemma chain_ok_links:
  assumes l: "map run_link rs' = map run_link rs" and ok: "chain_ok rs"
  shows "chain_ok rs'"
  unfolding chain_ok_def
proof (intro conjI ballI allI impI)
  note ps = link_parents [OF l]
  have img: "r_parent_id ` set rs' = r_parent_id ` set rs" using arg_cong [OF ps, of set] by simp
  show "distinct (List.map_filter r_parent_id rs')"
    using ok ps by (simp add: map_filter_conv [of r_parent_id] chain_ok_def)
  fix r' assume r': "r' \<in> set rs'"
  from linkE [OF l r'] obtain r where r: "r \<in> set rs" "run_link r = run_link r'" .
  note same = link_fields [OF r(2) [symmetric]]
  with ok r(1) show "r_next_plan_triggered r' \<longleftrightarrow> Some (r_id r') \<in> r_parent_id ` set rs'"
    unfolding img by (simp add: chain_ok_def)
  fix p assume "r_parent_id r' = Some p"
  with same have "r_parent_id r = Some p" by simp
  with ok r(1) obtain q where q: "q \<in> set rs" "r_id q = p" "p < r_id r" "r_root_id r = Some (chain_root q)"
    "r_chain_index r = r_chain_index q + 1" unfolding chain_ok_def by blast
  from linkE [OF l [symmetric] q(1)] obtain q' where q': "q' \<in> set rs'" "run_link q' = run_link q" .
  with q same link_fields [OF q'(2)]
  show "\<exists>q\<in>set rs'. r_id q = p \<and> p < r_id r' \<and> r_root_id r' = Some (chain_root q) \<and> r_chain_index r' = r_chain_index q + 1"
    by (intro bexI [of _ q']) simp_all
qed

lemma linked_chain: "moves_linked U s t \<Longrightarrow> chain_wf s \<Longrightarrow> chain_wf t"
  unfolding chain_wf_def moves_linked_def by (blast intro: chain_ok_links)

lemma chain_ok_root:
  assumes ok: "chain_ok rs" and new: "r_parent_id run = None" "\<not> r_next_plan_triggered run" "\<forall>r\<in>set rs. r_id r < r_id run"
  shows "chain_ok (rs @ [run])"
proof -
  have "Some (r_id run) \<notin> r_parent_id ` set rs"
  proof
    assume "Some (r_id run) \<in> r_parent_id ` set rs"
    then obtain r where r: "r \<in> set rs" "r_parent_id r = Some (r_id run)" by auto
    with ok have "r_id run < r_id r" unfolding chain_ok_def by blast
    with new(3) r(1) show False by fastforce
  qed
  with ok new show ?thesis by (auto simp: chain_ok_def List.map_filter_def)
qed

lemma chain_ok_child:
  assumes ok: "chain_ok rs" and q: "q \<in> set rs" "\<not> r_next_plan_triggered q"
    and new: "r_parent_id run = Some (r_id q)" "r_root_id run = Some (chain_root q)" "r_chain_index run = r_chain_index q + 1"
      "\<not> r_next_plan_triggered run" "\<forall>r\<in>set rs. r_id r < r_id run"
  shows "chain_ok (upd_where (\<lambda>r. r_id r = r_id q) (\<lambda>r. r\<lparr>r_next_plan_triggered := True\<rparr>) (rs @ [run]))"
    (is "chain_ok (upd_where _ ?f _)")
proof -
  let ?rs = "upd_where (\<lambda>r. r_id r = r_id q) ?f (rs @ [run])"
  have free: "Some (r_id q) \<notin> r_parent_id ` set rs" using ok q by (simp add: chain_ok_def)
  have fresh: "Some (r_id run) \<notin> r_parent_id ` set rs"
  proof
    assume "Some (r_id run) \<in> r_parent_id ` set rs"
    then obtain r where r: "r \<in> set rs" "r_parent_id r = Some (r_id run)" by auto
    with ok have "r_id run < r_id r" unfolding chain_ok_def by blast
    with new(5) r(1) show False by fastforce
  qed
  have ps: "map r_parent_id ?rs = map r_parent_id rs @ [Some (r_id q)]" using new(1) by (simp add: map_upd_where)
  then have "set (map r_parent_id ?rs) = set (map r_parent_id rs @ [Some (r_id q)])" by (simp only:)
  then have img: "r_parent_id ` set ?rs = insert (Some (r_id q)) (r_parent_id ` set rs)"
    unfolding set_map set_append by simp
  have mem: "\<exists>x\<in>set ?rs. r_id x = r_id r \<and> r_chain_index x = r_chain_index r \<and> chain_root x = chain_root r" if "r \<in> set rs" for r
  proof (cases "r_id r = r_id q")
    case True
    then have "?f r \<in> set ?rs" using that by (auto simp: set_upd_where)
    then show ?thesis by (rule bexI [rotated]) (simp add: chain_root_def split: option.split)
  next
    case False
    then have "r \<in> set ?rs" using that by (auto simp: set_upd_where)
    then show ?thesis by blast
  qed
  have "\<exists>x\<in>set ?rs. r_id x = p \<and> p < r_id r' \<and> r_root_id r' = Some (chain_root x) \<and> r_chain_index r' = r_chain_index x + 1"
    if "r' \<in> set ?rs" "r_parent_id r' = Some p" for r' p
  proof -
    from that(1) obtain r where r: "r \<in> set (rs @ [run])" "r' = r \<or> r' = ?f r" by (auto simp: set_upd_where)
    then have eq: "r_id r' = r_id r" "r_parent_id r' = r_parent_id r" "r_root_id r' = r_root_id r" "r_chain_index r' = r_chain_index r"
      by auto
    note par = that(2)
    obtain y where y: "y \<in> set rs" "r_id y = p" "p < r_id r" "r_root_id r = Some (chain_root y)" "r_chain_index r = r_chain_index y + 1"
    proof (cases "r = run")
      case True
      with new q(1) par eq show ?thesis by (intro that [of q]) auto
    next
      case False
      with r(1) ok par eq show ?thesis using that unfolding chain_ok_def by force
    qed
    with mem [OF y(1)] eq show ?thesis by metis
  qed
  moreover have "distinct (List.map_filter r_parent_id ?rs)"
  proof -
    have "List.map_filter r_parent_id ?rs = List.map_filter r_parent_id rs @ [r_id q]"
      unfolding map_filter_conv [of r_parent_id] ps by (simp add: List.map_filter_def)
    moreover have "r_id q \<notin> set (List.map_filter r_parent_id rs)" using free by (force simp: List.map_filter_def)
    ultimately show ?thesis using ok by (simp add: chain_ok_def)
  qed
  moreover have "r_next_plan_triggered x \<longleftrightarrow> Some (r_id x) \<in> r_parent_id ` set ?rs" if "x \<in> set ?rs" for x
    using that ok new(4) fresh free q(1) new(5) unfolding img by (auto simp: set_upd_where chain_ok_def)
  ultimately show ?thesis unfolding chain_ok_def by blast
qed

subsection \<open>What a trigger can do\<close>

lemma create_cases:
  assumes h: "create_chain_child qe cfg parent plan_id now s = (c, t)" and i: "r_id parent = i"
  obtains (idle) "t = s"
  | (gap) m reason where "t = upd_run i (mark_chain_gap_signaled m reason now) s"
  | (failed) err where "t = rollback_chain_trigger i err now s"
  | (made) ids ex k u where "select_chain_devices (cc_heartbeat_timeout cfg) now (chain_rows s i) = (ids, ex)" "ids \<noteq> []"
      "prepare_plan_run qe (chain_request parent plan_id ids ex now) now s = (Inr k, u)" "c = Some k" "t = set_triggered True i u"
proof -
  obtain ids ex where sel: "select_chain_devices (cc_heartbeat_timeout cfg) now (chain_rows s i) = (ids, ex)" by fastforce
  show thesis
  proof (cases "ids = []")
    case True
    with h sel i gap idle show thesis by (auto simp: create_chain_child_def split: if_splits)
  next
    case False
    obtain res u where p: "prepare_plan_run qe (chain_request parent plan_id ids ex now) now s = (res, u)" by fastforce
    show thesis
    proof (cases res)
      case (Inl err)
      with h sel i False p have "t = rollback_chain_trigger i (cc_error_text cfg err) now s" by (simp add: create_chain_child_def)
      with failed show thesis by blast
    next
      case (Inr k)
      with h sel i False p have "c = Some k" "t = set_triggered True i u" by (simp_all add: create_chain_child_def)
      with made [OF sel False] p Inr show thesis by blast
    qed
  qed
qed

lemma trigger_cases:
  assumes h: "trigger_next_plan_sync qe cfg i respect now s = (c, t)"
  obtains (idle) "t = s"
  | (marked) ch parent where "t = set_triggered True i s" "ch \<in> set (runs s)" "r_parent_id ch = Some i"
      "get_run s i = Some parent" "\<not> r_next_plan_triggered parent"
  | (child) parent plan_id where "get_run s i = Some parent" "\<not> r_next_plan_triggered parent"
      "r_status parent \<in> set TRIGGERABLE_TERMINAL_STATUSES" "resolve_next_plan_id parent s = Some plan_id"
      "create_chain_child qe cfg parent plan_id now s = (c, t)"
proof (cases "get_run s i")
  case None
  with h idle show thesis by (simp add: trigger_next_plan_sync_def)
next
  case (Some parent)
  show thesis
  proof (cases "r_status parent \<in> set TRIGGERABLE_TERMINAL_STATUSES \<and> resolve_next_plan_id parent s \<noteq> None")
    case False
    with h Some idle show thesis by (auto simp: trigger_next_plan_sync_def split: if_splits)
  next
    case True
    then obtain plan_id where st: "r_status parent \<in> set TRIGGERABLE_TERMINAL_STATUSES" and pid: "resolve_next_plan_id parent s = Some plan_id" by auto
    note base = h [unfolded trigger_next_plan_sync_def Some option.case pid]
    show thesis
    proof (cases "chain_child s i plan_id")
      case ch: (Some ch)
      then have "ch \<in> set (runs s)" "r_parent_id ch = Some i" using first_row_filterD by (fastforce simp: chain_child_def)+
      with base ch st Some idle marked show thesis by (auto split: if_splits)
    next
      case None
      with base st idle child [OF Some _ st pid] show thesis by (auto split: if_splits)
    qed
  qed
qed

subsection \<open>The chain and the queue\<close>

lemma run_noted:
  assumes "r_id r' = r_id r" "r_status r' = r_status r" "r_admission_attempt_id r' = r_admission_attempt_id r"
  shows "run_moves U r r'"
  using assms by (simp add: run_moves_def waiting_def)

lemma upd_run_noted:
  assumes "\<And>r. r_id (f r) = r_id r" "\<And>r. r_status (f r) = r_status r" "\<And>r. r_admission_attempt_id (f r) = r_admission_attempt_id r"
  shows "moves_on U s (upd_run i f s)"
  by (rule moves_on_runs [where f = f and P = "\<lambda>r. r_id r = i"]) (simp_all add: run_noted assms upd_run_def)

lemma upd_run_links:
  "(\<And>r. r \<in> set (runs s) \<Longrightarrow> r_id r = i \<Longrightarrow> run_link (f r) = run_link r) \<Longrightarrow> map run_link (runs (upd_run i f s)) = map run_link (runs s)"
  by (simp add: upd_run_def upd_where_def)

lemma flag_moves: "moves_on U s (set_triggered b i s)"
  unfolding set_triggered_def by (rule upd_run_noted) simp_all

lemma mark_gap_fields [simp]:
  "r_id (mark_chain_gap_signaled m reason now r) = r_id r" "r_status (mark_chain_gap_signaled m reason now r) = r_status r"
  "r_admission_attempt_id (mark_chain_gap_signaled m reason now r) = r_admission_attempt_id r"
  "run_link (mark_chain_gap_signaled m reason now r) = run_link r"
  by (simp_all add: mark_chain_gap_signaled_def run_link_def)

lemma gap_linked: "moves_linked U s (upd_run i (mark_chain_gap_signaled m reason now) s)"
  unfolding moves_linked_def by (intro conjI upd_run_noted upd_run_links) simp_all

lemma failure_fields [simp]:
  "r_id (record_chain_dispatch_failure e b now r) = r_id r" "r_status (record_chain_dispatch_failure e b now r) = r_status r"
  "r_admission_attempt_id (record_chain_dispatch_failure e b now r) = r_admission_attempt_id r"
  by (simp_all add: record_chain_dispatch_failure_def)

lemma rollback_as:
  obtains "rollback_chain_trigger i err now s = s"
  | b where "rollback_chain_trigger i err now s = upd_run i (record_chain_dispatch_failure err b now) s"
  | b m where "rollback_chain_trigger i err now s
      = upd_run i (mark_chain_gap_signaled m ''dispatch_failed'' now) (upd_run i (record_chain_dispatch_failure err b now) s)"
proof (cases "get_run s i")
  case None
  with that(1) show thesis by (simp add: rollback_chain_trigger_def)
next
  case (Some r)
  let ?ch = "case resolve_next_plan_id r s of None \<Rightarrow> False | Some p \<Rightarrow> chain_child s i p \<noteq> None"
  show thesis
  proof (cases "\<not> ?ch \<and> chain_missing_segments r s > 0")
    case True
    show thesis by (rule that(3) [of "chain_missing_segments r s" ?ch]) (simp only: rollback_chain_trigger_def Let_def Some option.case True if_True simp_thms)
  next
    case False
    show thesis by (rule that(2) [of ?ch]) (simp only: rollback_chain_trigger_def Let_def Some option.case False if_False)
  qed
qed

lemma rollback_moves: "moves_on U s (rollback_chain_trigger i err now s)"
proof (rule rollback_as [of i err now s])
  fix b
  have m: "moves_on U s (upd_run i (record_chain_dispatch_failure err b now) s)" by (rule upd_run_noted) simp_all
  then show ?thesis if "rollback_chain_trigger i err now s = upd_run i (record_chain_dispatch_failure err b now) s"
    using that by simp
  fix n
  show ?thesis if "rollback_chain_trigger i err now s
      = upd_run i (mark_chain_gap_signaled n ''dispatch_failed'' now) (upd_run i (record_chain_dispatch_failure err b now) s)"
    unfolding that using m gap_linked by (blast intro: moves_on_trans dest: moves_linked_def [THEN iffD1])
qed (simp add: moves_on_refl)

lemma rollback_linked:
  assumes wf: "queue_wf s" and run: "get_run s i = Some parent" "\<not> r_next_plan_triggered parent"
  shows "moves_linked U s (rollback_chain_trigger i err now s)"
proof -
  have l: "map run_link (runs (upd_run i (record_chain_dispatch_failure err b now) s)) = map run_link (runs s)" for b
  proof (rule upd_run_links)
    fix r assume "r \<in> set (runs s)" "r_id r = i"
    with get_run_row [OF wf] run have "\<not> r_next_plan_triggered r" by fastforce
    then show "run_link (record_chain_dispatch_failure err b now r) = run_link r"
      by (simp add: record_chain_dispatch_failure_def run_link_def)
  qed
  have g: "map run_link (runs (upd_run i (mark_chain_gap_signaled m z now) u)) = map run_link (runs u)" for m z u
    by (rule upd_run_links) simp
  have "map run_link (runs (rollback_chain_trigger i err now s)) = map run_link (runs s)"
    by (rule rollback_as [of i err now s]) (simp_all add: l g)
  then show ?thesis using rollback_moves by (simp add: moves_linked_def)
qed

lemma prepare_new_run:
  assumes "prepare_plan_run qe p now s = (Inr k, u)"
  shows "\<exists>run. runs u = runs s @ [run] \<and> r_id run = k \<and> r_parent_id run = pi_parent_id p \<and> r_root_id run = pi_root_id p
    \<and> r_chain_index run = (case pi_chain_index p of None \<Rightarrow> 0 | Some n \<Rightarrow> n) \<and> \<not> r_next_plan_triggered run
    \<and> (\<forall>r\<in>set (runs s). r_id r < r_id run)"
proof -
  from prepare_db [OF assms refl] obtain plan ids bs snap ctx
    where q: "prepare_queued_plan_run qe p plan ids bs snap ctx now s = (Inr k, u)" by metis
  let ?run = "queued_run qe p plan (sort (remdups ids)) bs snap ctx now s"
  have "runs u = runs s @ [?run]" "k = r_id ?run"
    using q by (auto simp: prepare_queued_plan_run_def Let_def split: if_splits)
  moreover have "r < next_serial (map r_id (runs s))" if "r \<in> r_id ` set (runs s)" for r
    using next_serial_fresh [of r "map r_id (runs s)"] that by simp
  ultimately show ?thesis by (intro exI [of _ ?run]) (auto simp: queued_run_def)
qed

lemma set_triggered_queue: "queue_wf s \<Longrightarrow> queue_wf (set_triggered b i s) \<and> queue_moves U s (set_triggered b i s)"
  by (rule moves_on_queue [OF _ flag_moves])

lemma trigger_queue:
  assumes wf: "queue_wf s" and h: "trigger_next_plan_sync qe cfg i respect now s = (c, t)"
  shows "queue_wf t \<and> queue_moves U s t"
proof (rule trigger_cases [OF h])
  assume "t = s"
  with wf show ?thesis by (simp add: queue_moves_refl)
next
  assume "t = set_triggered True i s"
  with set_triggered_queue [OF wf] show ?thesis by simp
next
  fix parent plan_id assume run: "get_run s i = Some parent" and cr: "create_chain_child qe cfg parent plan_id now s = (c, t)"
  have i: "r_id parent = i" using get_run_Some [OF run] by simp
  show ?thesis
  proof (rule create_cases [OF cr i])
    assume "t = s"
    with wf show ?thesis by (simp add: queue_moves_refl)
  next
    fix m reason assume "t = upd_run i (mark_chain_gap_signaled m reason now) s"
    with linked_queue [OF wf gap_linked] show ?thesis by simp
  next
    fix err assume "t = rollback_chain_trigger i err now s"
    with moves_on_queue [OF wf rollback_moves] show ?thesis by simp
  next
    fix ids ex k u assume p: "prepare_plan_run qe (chain_request parent plan_id ids ex now) now s = (Inr k, u)"
      and t: "t = set_triggered True i u"
    from prepare_queue [OF wf p] have u: "queue_wf u" "queue_moves U s u" by blast+
    from set_triggered_queue [OF u(1)] u(2) t show ?thesis by (blast intro: queue_moves_trans)
  qed
qed

lemma trigger_chain:
  assumes wf: "queue_wf s" and ok: "chain_wf s" and h: "trigger_next_plan_sync qe cfg i respect now s = (c, t)"
  shows "chain_wf t"
proof (rule trigger_cases [OF h])
  assume "t = s"
  with ok show ?thesis by simp
next
  fix ch parent assume "ch \<in> set (runs s)" "r_parent_id ch = Some i" "get_run s i = Some parent" "\<not> r_next_plan_triggered parent"
  moreover from this have "Some (r_id parent) \<in> r_parent_id ` set (runs s)" using get_run_Some [of s i parent] by force
  ultimately have False using get_run_Some [of s i parent] ok unfolding chain_wf_def chain_ok_def by blast
  then show ?thesis ..
next
  fix parent plan_id assume run: "get_run s i = Some parent" "\<not> r_next_plan_triggered parent"
    and cr: "create_chain_child qe cfg parent plan_id now s = (c, t)"
  from get_run_Some [OF run(1)] have i: "r_id parent = i" and q: "parent \<in> set (runs s)" by simp_all
  show ?thesis
  proof (rule create_cases [OF cr i])
    assume "t = s"
    with ok show ?thesis by simp
  next
    fix m reason assume "t = upd_run i (mark_chain_gap_signaled m reason now) s"
    with linked_chain [OF gap_linked ok] show ?thesis by simp
  next
    fix err assume "t = rollback_chain_trigger i err now s"
    with linked_chain [OF rollback_linked [OF wf run] ok] show ?thesis by simp
  next
    fix ids ex k u assume p: "prepare_plan_run qe (chain_request parent plan_id ids ex now) now s = (Inr k, u)"
      and t: "t = set_triggered True i u"
    from prepare_new_run [OF p] obtain run where
      new: "runs u = runs s @ [run]" "r_parent_id run = Some i" "r_root_id run = Some (chain_root parent)"
        "r_chain_index run = r_chain_index parent + 1" "\<not> r_next_plan_triggered run" "\<forall>r\<in>set (runs s). r_id r < r_id run"
      by (auto simp: chain_request_def i)
    from chain_ok_child [OF _ q run(2), of run] ok new i show ?thesis
      by (simp add: chain_wf_def t set_triggered_def upd_run_def)
  qed
qed

subsection \<open>The reconciler\<close>

lemma reconcile_cases:
  assumes h: "reconcile_chain_trigger_sync qe cfg i now s = (c, t)"
  obtains (idle) "t = s"
  | (marked) ch parent where "t = set_triggered True i s" "ch \<in> set (runs s)" "r_parent_id ch = Some i"
      "get_run s i = Some parent" "\<not> r_next_plan_triggered parent"
  | (reset) parent where "get_run s i = Some parent" "r_next_plan_triggered parent" "any_child s i = None"
      "trigger_next_plan_sync qe cfg i True now (set_triggered False i s) = (c, t)"
  | (trigger) "trigger_next_plan_sync qe cfg i True now s = (c, t)"
proof (cases "get_run s i")
  case None
  with h idle show thesis by (simp add: reconcile_chain_trigger_sync_def)
next
  case (Some parent)
  note base = h [unfolded reconcile_chain_trigger_sync_def Some option.case]
  show thesis
  proof (cases "any_child s i")
    case None
    with base idle trigger reset [OF Some _ None] show thesis by (auto split: if_splits)
  next
    case ch: (Some ch)
    then have "ch \<in> set (runs s)" "r_parent_id ch = Some i"
      using first_row_Some [of "sort_key r_id (filter (\<lambda>r. r_parent_id r = Some i) (runs s))" ch] by (auto simp: any_child_def)
    with base ch Some idle marked show thesis by (auto split: if_splits)
  qed
qed

lemma reconcile_queue:
  assumes wf: "queue_wf s" and h: "reconcile_chain_trigger_sync qe cfg i now s = (c, t)"
  shows "queue_wf t \<and> queue_moves U s t"
proof (rule reconcile_cases [OF h])
  assume "t = s"
  with wf show ?thesis by (simp add: queue_moves_refl)
next
  assume "t = set_triggered True i s"
  with set_triggered_queue [OF wf] show ?thesis by simp
next
  assume tr: "trigger_next_plan_sync qe cfg i True now (set_triggered False i s) = (c, t)"
  from set_triggered_queue [OF wf] have u: "queue_wf (set_triggered False i s)" "queue_moves U s (set_triggered False i s)" by blast+
  from trigger_queue [OF u(1) tr] u(2) show ?thesis by (blast intro: queue_moves_trans)
next
  assume "trigger_next_plan_sync qe cfg i True now s = (c, t)"
  then show ?thesis by (rule trigger_queue [OF wf])
qed

lemma no_child: "any_child s i = None \<longleftrightarrow> Some i \<notin> r_parent_id ` set (runs s)"
proof -
  have "sort_key r_id (filter (\<lambda>r. r_parent_id r = Some i) (runs s)) = [] \<longleftrightarrow> filter (\<lambda>r. r_parent_id r = Some i) (runs s) = []"
    by (metis length_0_conv length_sort)
  then show ?thesis unfolding any_child_def first_row_None filter_empty_conv by (force simp: image_iff)
qed

lemma flag_child:
  assumes "chain_wf s" "get_run s i = Some parent"
  shows "r_next_plan_triggered parent \<longleftrightarrow> Some i \<in> r_parent_id ` set (runs s)"
  using assms get_run_Some [OF assms(2)] by (auto simp: chain_wf_def chain_ok_def)

lemma reconcile_chain:
  assumes wf: "queue_wf s" and ok: "chain_wf s" and h: "reconcile_chain_trigger_sync qe cfg i now s = (c, t)"
  shows "chain_wf t"
proof (rule reconcile_cases [OF h])
  assume "t = s"
  with ok show ?thesis by simp
next
  fix ch parent assume "ch \<in> set (runs s)" "r_parent_id ch = Some i" "get_run s i = Some parent" "\<not> r_next_plan_triggered parent"
  with flag_child [OF ok, of i parent] show ?thesis by force
next
  fix parent assume "get_run s i = Some parent" "r_next_plan_triggered parent" "any_child s i = None"
  with flag_child [OF ok, of i parent] show ?thesis by (simp add: no_child)
next
  assume "trigger_next_plan_sync qe cfg i True now s = (c, t)"
  then show ?thesis by (rule trigger_chain [OF wf ok])
qed

subsection \<open>What every step keeps\<close>

definition keeps :: "string set \<Rightarrow> db \<Rightarrow> db \<Rightarrow> bool" where
  "keeps U s t \<longleftrightarrow> (queue_wf s \<longrightarrow> queue_wf t \<and> queue_moves U s t \<and> (chain_wf s \<longrightarrow> chain_wf t))"

named_theorems keep_intros

lemma keeps_refl [keep_intros]: "keeps U s s"
  by (simp add: keeps_def queue_moves_refl)

lemma keeps_trans: "keeps U s t \<Longrightarrow> keeps U t u \<Longrightarrow> keeps U s u"
  unfolding keeps_def using queue_moves_trans by blast

lemma linked_keeps: "(queue_wf s \<Longrightarrow> moves_linked U s t) \<Longrightarrow> keeps U s t"
  unfolding keeps_def using linked_queue linked_chain by blast

lemma trigger_keeps: "trigger_next_plan_sync qe cfg i respect now s = (c, t) \<Longrightarrow> keeps U s t"
  unfolding keeps_def using trigger_queue trigger_chain by blast

lemma reconcile_keeps: "reconcile_chain_trigger_sync qe cfg i now s = (c, t) \<Longrightarrow> keeps U s t"
  unfolding keeps_def using reconcile_queue reconcile_chain by blast

lemma keeps_snd [keep_intros]:
  "keeps U s (snd (trigger_next_plan_sync qe cfg i respect now s))"
  "keeps U s (snd (reconcile_chain_trigger_sync qe cfg i now s))"
  by (rule trigger_keeps [OF prod.collapse [symmetric]], rule reconcile_keeps [OF prod.collapse [symmetric]])

text \<open>Batches of keeping operations keep.\<close>

lemma batch_keeps:
  assumes f: "\<And>x u. keeps U u (snd (f x u))"
  shows "keeps U s (snd (run_batch f xs s))"
proof (rule batch_invariant.batch_rel [where inv = "\<lambda>_. True" and rel = "keeps U" and step = f])
  show "batch_invariant f (\<lambda>_. True) (keeps U)"
    by (rule batch_invariant.intro, rule TrueI, rule f, rule keeps_refl, erule keeps_trans)
qed simp

lemma reconcile_all_keeps: "reconcile_plan_chains qe cfg failing now s = (cs, t) \<Longrightarrow> keeps U s t"
  unfolding reconcile_plan_chains_def
  by (drule arg_cong [where f = snd], unfold snd_conv, erule subst, rule batch_keeps) (simp add: keep_intros)

end
