(* ===== verification/Finalization_System.thy ===== *)
theory Finalization_System
  imports Run_Finalization Chain_System
begin

section \<open>Aggregation, side effects and sweep keep queue and chain\<close>

lemma upd_run_row:
  assumes run: "get_run s i = Some run" and r: "run_moves U run run'" "run_link run' = run_link run"
    and t: "runs t = upd_where (\<lambda>r. r_id r = i) (\<lambda>_. run') (runs s)" "jobs t = jobs s" "targets t = targets s"
  shows "keeps U s t"
proof (rule linked_keeps)
  assume wf: "queue_wf s"
  have only: "r = run" if "r \<in> set (runs s)" "r_id r = i" for r
    using get_run_row [OF wf that(1)] that(2) run by simp
  show "moves_linked U s t"
    unfolding moves_linked_def
  proof
    show "moves_on U s t" by (rule moves_on_runs [OF _ t]) (use only r in auto)
    show "map run_link (runs t) = map run_link (runs s)" unfolding t(1) upd_where_def using only r(2) by auto
  qed
qed

lemma apply_moves:
  assumes "apply_plan_run_aggregation_from_counters run now = Inr (applied, run')"
  shows "run_moves U run run'" "run_link run' = run_link run"
proof -
  have "run' = run \<or> \<not> waiting run' \<and> r_status run' \<noteq> R_PRECHECK \<and> run_link run' = run_link run"
    using assms resolve_range [of "r_failed run" "r_aborted run" "abort_requested run"]
    by (auto simp: apply_plan_run_aggregation_from_counters_def finalize_plan_run_def plan_run_transition_def waiting_def run_link_def
        split: if_splits sum.splits)
  then show "run_moves U run run'" "run_link run' = run_link run"
    by (auto simp: run_moves_def dest: run_link_id)
qed

lemma recount_same [simp]:
  "run_link (snd (recount_plan_run_counters run js)) = run_link run"
  "r_admission_attempt_id (snd (recount_plan_run_counters run js)) = r_admission_attempt_id run"
  by (simp_all add: recount_plan_run_counters_def Let_def run_link_def)

lemma recount_moves: "run_moves U run (snd (recount_plan_run_counters run js))"
  by (rule run_noted) simp_all

lemma recounted_applied:
  assumes "apply_plan_run_aggregation_from_counters (snd (recount_plan_run_counters run js)) now = Inr (applied, run')"
  shows "run_moves U run run'" "run_link run' = run_link run"
  using run_moves_trans [OF recount_moves apply_moves(1) [OF assms]] apply_moves(2) [OF assms] by simp_all

lemma round_keeps: "keeps U s (snd (aggregation_round_sync i now s))"
proof (cases "get_run s i")
  case None
  then show ?thesis by (simp add: aggregation_round_sync_def keeps_refl)
next
  case (Some run)
  let ?run1 = "snd (recount_plan_run_counters run (run_jobs i s))"
  have id: "r_id run = i" "r_id ?run1 = i" using get_run_Some [OF Some] by simp_all
  show ?thesis
  proof (cases "apply_plan_run_aggregation_from_counters ?run1 now")
    case (Inl e)
    with Some show ?thesis by (simp add: aggregation_round_sync_def Let_def keeps_refl)
  next
    case (Inr p)
    then obtain applied run2 where a: "apply_plan_run_aggregation_from_counters ?run1 now = Inr (applied, run2)" by (cases p) auto
    have twice: "upd_where (\<lambda>r. r_id r = i) (\<lambda>_. run2) (upd_where (\<lambda>r. r_id r = i) (\<lambda>_. ?run1) rs) = upd_where (\<lambda>r. r_id r = i) (\<lambda>_. run2) rs" for rs
      by (induction rs) (simp_all add: upd_where_Cons id)
    show ?thesis
    proof (cases "take AGGREGATION_BATCH_LIMIT (run_marks i s) = []")
      case True
      with Some show ?thesis by (simp only: aggregation_round_sync_def Let_def option.case simp_thms if_True snd_conv keeps_refl)
    next
      case False
      then have n: "(take AGGREGATION_BATCH_LIMIT (run_marks i s) = []) = False" by simp
      show ?thesis
        unfolding aggregation_round_sync_def Let_def Some option.case n if_False a sum.case prod.case snd_conv
        by (rule upd_run_row [OF Some recounted_applied [OF a]]) (simp_all add: upd_run_def recount_host_projection_sync_def twice)
    qed
  qed
qed

lemma announced_fields [simp]:
  "run_link (snd (announce_parent_terminal nj now s run)) = run_link run"
  "r_status (snd (announce_parent_terminal nj now s run)) = r_status run"
  "r_admission_attempt_id (snd (announce_parent_terminal nj now s run)) = r_admission_attempt_id run"
  "r_id (snd (announce_parent_terminal nj now s run)) = r_id run"
  by (simp_all add: announce_parent_terminal_def emit_parent_chain_gap_signal_def)

lemma announce_keeps: "keeps U s (snd (announce_step i nj now s))"
proof (cases "get_run s i")
  case None
  then show ?thesis by (simp add: announce_step_def keeps_refl)
next
  case (Some run)
  have m: "run_moves U run (snd (announce_parent_terminal nj now s run))" by (rule run_noted) simp_all
  have "keeps U s (upd_run i (\<lambda>_. snd (announce_parent_terminal nj now s run)) s)"
    by (rule upd_run_row [OF Some m]) (simp_all add: upd_run_def)
  with Some show ?thesis by (simp add: announce_step_def split_beta)
qed

lemma done_fields [simp]:
  "r_id (effects_done r) = r_id r" "r_status (effects_done r) = r_status r" "run_link (effects_done r) = run_link r"
  "r_admission_attempt_id (effects_done r) = r_admission_attempt_id r"
  by (simp_all add: effects_done_def run_link_def)

lemma done_keeps: "keeps U s (done_step i s)"
  unfolding done_step_def by (rule linked_keeps) (simp add: moves_linked_def upd_run_noted upd_run_links)

lemma finalize_keeps: "keeps U s (snd (finalize_parent_run_sync qe cfg auto i applied nj now s))"
proof -
  obtain a s1 where s1: "announce_step i nj now s = (a, s1)" by fastforce
  with announce_keeps [of U s i nj now] have k: "keeps U s s1" by simp
  have "keeps U s (done_step i (snd (trigger_next_plan_sync qe cfg i True now s1)))"
    by (rule keeps_trans [OF k keeps_trans [OF keeps_snd(1) done_keeps]])
  with k s1 show ?thesis by (simp add: finalize_parent_run_sync_def Let_def keeps_refl split: option.split)
qed

lemma side_effects_keep: "keeps U s (snd (complete_parent_side_effects_sync qe cfg auto i now s))"
  by (simp add: complete_parent_side_effects_sync_def keeps_refl finalize_keeps split: option.split)

lemma drain_keeps: "keeps U s (snd (drain_with_effects qe cfg auto n i now s))"
proof (induction n arbitrary: s)
  case 0
  then show ?case by (simp add: keeps_refl)
next
  case (Suc n)
  obtain res s1 where r: "aggregation_round_sync i now s = (res, s1)" by fastforce
  with round_keeps [of U s i now] have k: "keeps U s s1" by simp
  show ?case
  proof (cases res)
    case (Inl e)
    with r k show ?thesis by simp
  next
    case (Inr p)
    obtain c ap where p: "p = (c, ap)" by (cases p)
    let ?s2 = "if ap then snd (complete_parent_side_effects_sync qe cfg auto i now s1) else s1"
    have "keeps U s ?s2" using keeps_trans [OF k side_effects_keep] k by simp
    from keeps_trans [OF this Suc.IH] have
      "keeps U s (snd (drain_with_effects qe cfg auto n i now ?s2))" .
    with r Inr p k show ?thesis by (auto simp: Let_def split_beta split: sum.split)
  qed
qed

lemma sweep_row_keeps: "sweep_row now s0 i s = (res, t) \<Longrightarrow> keeps U s t"
proof (cases "get_run s i")
  case None
  moreover assume "sweep_row now s0 i s = (res, t)"
  ultimately show ?thesis by (simp add: sweep_row_def keeps_refl)
next
  case (Some run)
  assume h: "sweep_row now s0 i s = (res, t)"
  let ?rc = "recount_plan_run_counters run (run_jobs i s)"
  have set: "keeps U s (upd_run i (\<lambda>_. r') s)" if "run_moves U run r'" "run_link r' = run_link run" for r'
    by (rule upd_run_row [OF Some that]) (simp_all add: upd_run_def)
  have "t = s \<or> (\<exists>r'. t = upd_run i (\<lambda>_. r') s \<and> run_moves U run r' \<and> run_link r' = run_link run)"
  proof (cases "apply_plan_run_aggregation_from_counters (snd ?rc) now")
    case (Inl e)
    then show ?thesis using h Some recount_moves [of U run "run_jobs i s"]
      by (auto simp: sweep_row_def split_beta split: if_splits)
  next
    case (Inr p)
    then obtain ap run2 where a: "apply_plan_run_aggregation_from_counters (snd ?rc) now = Inr (ap, run2)" by (cases p) auto
    let ?r3 = "(snd (announce_parent_terminal False now s0 run2))\<lparr>r_terminal_effects := Some ''done''\<rparr>"
    note m = recounted_applied(1) [OF a, of U] recounted_applied(2) [OF a]
    have l: "run_link ?r3 = run_link run"
      using announced_fields(1) [of False now s0 run2] m(2) by (simp add: run_link_def)
    have "run_moves U run2 ?r3" by (rule run_noted) simp_all
    from run_moves_trans [OF m(1) this] l m recount_moves [of U run "run_jobs i s"] h Some a show ?thesis
      by (auto simp: sweep_row_def split_beta split: if_splits bool.splits)
  qed
  with set show ?thesis by (auto simp: keeps_refl)
qed

lemma sweep_loop_keeps: "keeps U s (snd (sweep_loop now s0 is s))"
proof (induction "is" arbitrary: s)
  case (Cons i "is")
  obtain r s1 where r: "sweep_row now s0 i s = (r, s1)" by fastforce
  obtain rs s2 where rs: "sweep_loop now s0 is s1 = (rs, s2)" by fastforce
  have "snd (sweep_loop now s0 (i # is) s) \<in> {s1, s2}" by (simp add: r rs split: sum.split)
  moreover have "keeps U s s2" using keeps_trans [OF sweep_row_keeps [OF r] Cons.IH] rs by simp
  ultimately show ?case using sweep_row_keeps [OF r] by auto
qed (simp add: keeps_refl)

lemma body_keeps: "keeps U s (snd (reconcile_counters_body cfg now locked s))"
proof -
  obtain rs t where l: "sweep_loop now s (sweep_rows cfg now locked s) s = (rs, t)" by fastforce
  have "keeps U s t" using sweep_loop_keeps [of U s now s "sweep_rows cfg now locked s"] l by simp
  with l show ?thesis by (simp add: reconcile_counters_body_def keeps_refl split: sum.split)
qed

lemma replay_keeps: "keeps U s (replay_stale_aggregation_triggers qe cfg auto limit failing now s)"
  unfolding replay_stale_aggregation_triggers_def Let_def
  by (rule keeps_trans; rule batch_keeps) (simp_all add: keeps_refl side_effects_keep aggregate_plan_run_def drain_keeps)

lemma sweep_keeps: "keeps U s (snd (reconcile_plan_run_counters_once qe cfg auto sw leader limit locked failing now s))"
proof -
  let ?c = "case limit of None \<Rightarrow> sw | Some n \<Rightarrow> sw\<lparr>sw_batch := n\<rparr>"
  obtain rs s1 where b: "reconcile_counters_body ?c now locked s = (rs, s1)" by fastforce
  with body_keeps [of U s ?c now locked] have k: "keeps U s s1" by simp
  have "snd (reconcile_plan_run_counters_once qe cfg auto sw leader limit locked failing now s)
      \<in> {s, s1, replay_stale_aggregation_triggers qe cfg auto limit failing now s1}"
    by (simp add: reconcile_plan_run_counters_once_def b split: sum.split)
  with keeps_refl k keeps_trans [OF k replay_keeps] show ?thesis by auto
qed

end
