(* ===== verification/Admission_System.thy ===== *)
theory Admission_System
  imports Finalization_System
begin

section \<open>The queue and the chain as a transition system\<close>

text \<open>
  Preparing, pumping, admitting, requeueing, failing, reaping, aggregating, finalizing, triggering the next
  plan and repairing in any order, interleaved with any other services as long as these create no job and
  no run, move no run into the queue, revive no finished job and leave the chain links alone
  (\<open>moves_linked\<close>).
\<close>

text \<open>
  \<open>U\<close>: the attempt ids in use, which \<open>uuid4\<close> does not draw again.  Only the chain trigger prepares a run
  with a parent; the side-effect block appears as a whole and in the parts it commits, so that a crash
  between two of them is a run of this system, too.
\<close>

inductive queue_step :: "string set \<Rightarrow> db \<Rightarrow> db \<Rightarrow> bool" for U s where
  prepare: "prepare_plan_run qe p now s = (res, t) \<Longrightarrow> pi_parent_id p = None \<Longrightarrow> queue_step U s t"
| pump: "claim_queued_plan_runs cfg batch now locked uuid token s = (cl, t) \<Longrightarrow> (\<And>i. uuid i \<notin> U) \<Longrightarrow> queue_step U s t"
| tick: "pump_admission_tick cfg ready now locked uuid token ok s = (cl, t) \<Longrightarrow> (\<And>i. uuid i \<notin> U) \<Longrightarrow> queue_step U s t"
| requeue: "queue_step U s (snd (requeue_plan_run cfg i a reason bs backoff now s))"
| fail: "queue_step U s (snd (fail_plan_run_admission i a reason d now s))"
| admit: "admission_transaction i a suite now s = (v, t) \<Longrightarrow> queue_step U s t"
| reap: "reconcile_stale_precheck cfg saq alive failing now scan s = (rs, t) \<Longrightarrow> queue_step U s t"
| aggregate: "queue_step U s (snd (aggregate_plan_run qe cc auto i now s))"
| aggregation_round: "queue_step U s (snd (aggregation_round_sync i now s))"
| finalize: "queue_step U s (snd (complete_parent_side_effects_sync qe cc auto i now s))"
| announced: "queue_step U s (snd (announce_step i nj now s))"
| effects: "queue_step U s (done_step i s)"
| trigger: "trigger_next_plan_sync qe cc i respect now s = (c, t) \<Longrightarrow> queue_step U s t"
| recover: "reconcile_chain_trigger_sync qe cc i now s = (c, t) \<Longrightarrow> queue_step U s t"
| chains: "reconcile_plan_chains qe cc failing now s = (cs, t) \<Longrightarrow> queue_step U s t"
| sweep: "queue_step U s (snd (reconcile_plan_run_counters_once qe cc auto sw leader limit locked failing now s))"
| elsewhere: "moves_linked UNIV s t \<Longrightarrow> queue_step U s t"

lemma prepare_root_keeps:
  assumes h: "prepare_plan_run qe p now s = (res, t)" and root: "pi_parent_id p = None"
  shows "keeps U s t"
proof (cases res)
  case (Inl err)
  with h prepare_refused [of qe p now s err t] show ?thesis by (simp add: keeps_refl)
next
  case (Inr k)
  with h prepare_new_run [of qe p now s k t] root obtain run where
    "runs t = runs s @ [run]" "r_parent_id run = None" "\<not> r_next_plan_triggered run" "\<forall>r\<in>set (runs s). r_id r < r_id run"
    by auto
  then have "chain_wf s \<longrightarrow> chain_wf t" by (simp add: chain_wf_def chain_ok_root)
  with prepare_queue [OF _ h] show ?thesis by (simp add: keeps_def)
qed

lemma admission_links:
  assumes h: "admission_transaction k b suite now s = (v, t)"
  shows "map run_link (runs t) = map run_link (runs s)"
proof (cases "v = Pass")
  case False
  with admission_rolled_back [OF h] show ?thesis by simp
next
  case True
  with h have "admission_transaction k b suite now s = (Pass, t)" by simp
  then obtain n m ex where "runs t = runs (upd_run k (admitted_row n m ex now) s)"
    by (elim admission_passE) (force dest: shrink_kept(3) simp: upd_run_def)
  then show ?thesis by (simp add: upd_run_links)
qed

lemma admission_transaction_keeps: "admission_transaction i a suite now s = (v, t) \<Longrightarrow> keeps U s t"
  unfolding keeps_def chain_wf_def using admission_queue admission_links chain_ok_links by metis

lemma requeue_keeps: "keeps U s (snd (requeue_plan_run cfg i a reason bs backoff now s))"
  by (rule linked_keeps) (rule requeue_moves)

lemma fail_keeps: "keeps U s (snd (fail_plan_run_admission i a reason d now s))"
  by (rule linked_keeps) (rule fail_moves)

lemma elsewhere_linked: "moves_linked UNIV s t \<Longrightarrow> moves_linked U s t"
  unfolding moves_linked_def using moves_on_any by blast

lemma queue_step_keeps:
  assumes st: "queue_step U s t"
  shows "keeps U s t"
  using st
proof cases
  case prepare
  then show ?thesis by (rule prepare_root_keeps)
next
  case admit
  then show ?thesis by (rule admission_transaction_keeps)
next
  case pump
  then show ?thesis by (intro linked_keeps pump_moves)
next
  case tick
  then show ?thesis by (intro linked_keeps tick_moves)
next
  case reap
  then show ?thesis by (intro linked_keeps reaper_moves)
next
  case trigger
  then show ?thesis by (rule trigger_keeps)
next
  case recover
  then show ?thesis by (rule reconcile_keeps)
next
  case chains
  then show ?thesis by (rule reconcile_all_keeps)
next
  case elsewhere
  then show ?thesis by (rule linked_keeps [OF elsewhere_linked])
next
  case requeue
  show ?thesis unfolding requeue by (rule requeue_keeps)
next
  case fail
  show ?thesis unfolding fail by (rule fail_keeps)
next
  case aggregate
  show ?thesis unfolding aggregate unfolding aggregate_plan_run_def by (rule drain_keeps)
next
  case aggregation_round
  show ?thesis unfolding aggregation_round by (rule round_keeps)
next
  case finalize
  show ?thesis unfolding finalize by (rule side_effects_keep)
next
  case announced
  show ?thesis unfolding announced by (rule announce_keeps)
next
  case effects
  show ?thesis unfolding effects by (rule done_keeps)
next
  case sweep
  show ?thesis unfolding sweep by (rule sweep_keeps)
qed

text \<open>A system whose steps keep an invariant and a preorder.\<close>

locale monitored_system =
  fixes ok :: "'s \<Rightarrow> bool" and step :: "'s \<Rightarrow> 's \<Rightarrow> bool" and rel :: "'s \<Rightarrow> 's \<Rightarrow> bool"
  assumes step_keeps: "ok s \<Longrightarrow> step s t \<Longrightarrow> ok t \<and> rel s t"
    and rel_refl: "rel s s"
    and rel_trans: "rel s t \<Longrightarrow> rel t u \<Longrightarrow> rel s u"
begin

lemma run_keeps: "step\<^sup>*\<^sup>* s t \<Longrightarrow> ok s \<Longrightarrow> ok t \<and> rel s t"
proof (induction rule: rtranclp_induct)
  case base
  then show ?case by (simp add: rel_refl)
next
  case (step t u)
  with step_keeps rel_trans show ?case by blast
qed

end

interpretation queue: monitored_system queue_wf "queue_step U" "queue_moves U" for U
proof
  fix s t u
  show "queue_wf s \<Longrightarrow> queue_step U s t \<Longrightarrow> queue_wf t \<and> queue_moves U s t"
    using queue_step_keeps by (simp add: keeps_def)
qed (fact queue_moves_refl, rule queue_moves_trans)

interpretation chain: monitored_system "\<lambda>s. queue_wf s \<and> chain_wf s" "queue_step U" "queue_moves U" for U
proof
  fix s t u
  show "queue_wf s \<and> chain_wf s \<Longrightarrow> queue_step U s t \<Longrightarrow> (queue_wf t \<and> chain_wf t) \<and> queue_moves U s t"
    using queue_step_keeps by (simp add: keeps_def)
qed (fact queue_moves_refl, rule queue_moves_trans)

end
