(* ===== verification/Queue_Properties.thy ===== *)
theory Queue_Properties
  imports Admission_System
begin

section \<open>Properties of the queue\<close>

text \<open>
  What the admission queue guarantees, for every run of \<open>queue_step\<close> and for a single transaction, with
  a plan that is prepared, pumped and admitted as the concrete example.
\<close>

subsection \<open>An example\<close>

definition queue_step_row :: "string \<Rightarrow> string \<Rightarrow> string \<Rightarrow> step_row" where
  "queue_step_row key script stage =
     \<lparr>ps_plan_id = 2, ps_step_key = key, ps_script_name = script, ps_script_version = ''1.0.0'',
      ps_stage = stage, ps_sort_order = 0, ps_timeout_seconds = Some 300, ps_stall_seconds = None,
      ps_params = JObj [], ps_retry = 0, ps_enabled = True\<rparr>"

definition queue_script :: "string \<Rightarrow> script_row" where
  "queue_script n = \<lparr>k_name = n, k_version = ''1.0.0'', k_nfs_path = ''/scripts'', k_param_schema = JObj [],
     k_default_params = JObj [], k_is_active = True\<rparr>"

definition queue_db :: db where
  "queue_db = sample_db\<lparr>jobs := [], plans := [sample_plan],
     devices := [sample_device\<lparr>d_status := ''ONLINE''\<rparr>, sample_device\<lparr>d_id := 6, d_serial := ''R58M'', d_status := ''ONLINE''\<rparr>],
     plan_steps := [queue_step_row ''p1'' ''monkey_run'' ''patrol'', queue_step_row ''i1'' ''mount_check'' ''init'',
                    queue_step_row ''t1'' ''collect_logs'' ''teardown''],
     scripts := [queue_script ''monkey_run'', queue_script ''mount_check'', queue_script ''collect_logs'']\<rparr>"

definition sample_queue_env :: queue_env where
  "sample_queue_env = \<lparr>qe_flag_enabled = True, qe_pump_ready = True, qe_schema_ok = (\<lambda>_. True),
     qe_fingerprint = (\<lambda>_ _ _. []), qe_frozen = (\<lambda>_ _. [])\<rparr>"

definition queue_request :: prepare_in where
  "queue_request = \<lparr>pi_plan_id = 2, pi_device_ids = [6, 5], pi_triggered_by = ''cron'', pi_run_type = ''SCHEDULE'',
     pi_run_context = [], pi_parent_id = None, pi_root_id = None, pi_chain_index = None, pi_fingerprint = None\<rparr>"

definition queue_cfg :: adm_cfg where
  "queue_cfg = \<lparr>ac_pump_batch = 4, ac_retry_backoff = 30, ac_aging_step = 600, ac_aging_max_boost = 5,
     ac_precheck_active_stale = 900, ac_max_requeue_attempts = 3, ac_requeue_backoff = 60\<rparr>"

definition queued_db :: db where
  "queued_db = snd (prepare_plan_run sample_queue_env queue_request 100 queue_db)"

definition attempted_db :: db where
  "attempted_db = snd (claim_queued_plan_runs queue_cfg 0 110 (\<lambda>_. False) (\<lambda>i. ''u1'') (\<lambda>_. ''t1'') queued_db)"

definition running_db :: db where
  "running_db = snd (admission_transaction 1 ''u1'' Some 120 attempted_db)"

lemma queue_db_wf: "queue_wf queue_db"
  by (simp add: queue_wf_def queue_db_def sample_db_def one_active_job_def)

lemma sample_prepared: "prepare_plan_run sample_queue_env queue_request 100 queue_db = (Inr 1, queued_db)"
proof -
  have "fst (prepare_plan_run sample_queue_env queue_request 100 queue_db) = Inr 1" by code_simp
  then show ?thesis by (simp add: queued_db_def prod_eq_iff)
qed

lemma sample_pumped:
  "claim_queued_plan_runs queue_cfg 0 110 (\<lambda>_. False) (\<lambda>i. ''u1'') (\<lambda>_. ''t1'') queued_db = ([(1, ''u1'')], attempted_db)"
proof -
  have "fst (claim_queued_plan_runs queue_cfg 0 110 (\<lambda>_. False) (\<lambda>i. ''u1'') (\<lambda>_. ''t1'') queued_db) = [(1, ''u1'')]" by code_simp
  then show ?thesis by (simp add: attempted_db_def prod_eq_iff)
qed

lemma sample_admitted: "admission_transaction 1 ''u1'' Some 120 attempted_db = (Pass, running_db)"
proof -
  have "fst (admission_transaction 1 ''u1'' Some 120 attempted_db) = Pass" by code_simp
  then show ?thesis by (simp add: running_db_def prod_eq_iff)
qed

lemma sample_steps:
  assumes "''u1'' \<notin> U"
  shows "(queue_step U)\<^sup>*\<^sup>* queue_db attempted_db" "(queue_step U)\<^sup>*\<^sup>* attempted_db running_db"
proof -
  have "queue_step U queue_db queued_db" by (rule queue_step.prepare [OF sample_prepared]) (simp add: queue_request_def)
  moreover have "queue_step U queued_db attempted_db" by (rule queue_step.pump [OF sample_pumped]) (use assms in simp)
  ultimately show "(queue_step U)\<^sup>*\<^sup>* queue_db attempted_db" by (rule converse_rtranclp_into_rtranclp [OF _ r_into_rtranclp])
  show "(queue_step U)\<^sup>*\<^sup>* attempted_db running_db"
    by (rule r_into_rtranclp, rule queue_step.admit, rule sample_admitted)
qed

lemma attempted_db_wf: "queue_wf attempted_db"
  using queue.run_keeps [OF sample_steps(1) queue_db_wf, of "{}"] by simp

lemma sample_jobs: "map (\<lambda>j. (j_id j, j_device_id j)) (jobs running_db) = [(1, 5), (2, 6)]"
  by code_simp

subsection \<open>Every run of the queue\<close>



text \<open>
  C9. An attempt takes effect at most once: after it admitted, requeued or failed its run, no operation
  presenting its id writes anything, whatever happens to the run in between and however often it is
  claimed again.
\<close>

theorem attempt_acts_once:
  assumes wf: "queue_wf s" and a: "a \<in> U"
    and acted: "admission_transaction i a suite now s = (Pass, t) \<or> requeue_plan_run cfg i a reason bs backoff now s = (True, t)
      \<or> fail_plan_run_admission i a reason d now s = (True, t)"
    and later: "(queue_step U)\<^sup>*\<^sup>* t u"
  shows "admission_transaction i a suite' now' u = (NotOwner, u) \<and> \<not> fst (requeue_plan_run cfg' i a reason' bs' backoff' now' u)
    \<and> \<not> fst (fail_plan_run_admission i a reason' d' now' u) \<and> route_verdict cfg' i a v now' u = u"
proof -
  have "queue_wf t \<and> \<not> owns_attempt t i a"
    using acted
  proof (elim disjE)
    assume h: "admission_transaction i a suite now s = (Pass, t)"
    then obtain n m ex where "runs t = runs (upd_run i (admitted_row n m ex now) s)"
      by (elim admission_passE) (force dest: shrink_kept(3) simp: upd_run_def)
    then have "get_run t i = get_run (upd_run i (admitted_row n m ex now) s) i" by (simp add: get_run_def)
    with admission_keeps [OF wf h] show ?thesis by (auto simp: owns_attempt_def get_run_upd_run split: option.splits)
  next
    assume h: "requeue_plan_run cfg i a reason bs backoff now s = (True, t)"
    with requeue_moves [OF wf, of U cfg i a reason bs backoff now] have "queue_wf t" by (simp add: moves_linked_wf [OF wf])
    with h show ?thesis
      by (auto simp: requeue_plan_run_def owns_attempt_def get_run_upd_run split: if_splits option.splits)
  next
    assume h: "fail_plan_run_admission i a reason d now s = (True, t)"
    with fail_moves [OF wf, of U i a reason d now] have "queue_wf t" by (simp add: moves_linked_wf [OF wf])
    with h show ?thesis
      by (auto simp: fail_plan_run_admission_def owns_attempt_def get_run_upd_run split: if_splits option.splits)
  qed
  with queue.run_keeps [OF later] a have "\<not> owns_attempt u i a" by (auto simp: queue_moves_def)
  then show ?thesis
    by (simp add: admission_transaction_def requeue_plan_run_def fail_plan_run_admission_def route_verdict_def split: verdict.split)
qed

lemma attempt_acts_once_witness:
  "admission_transaction 1 ''u1'' Some 130 running_db = (NotOwner, running_db)"
  using attempt_acts_once [where U = "{''u1''}" and i = 1 and a = "''u1''" and s = attempted_db and u = running_db,
      OF attempted_db_wf _ disjI1 [OF sample_admitted] rtranclp.rtrancl_refl] by simp

subsection \<open>The admission transaction\<close>

definition device_free :: "db \<Rightarrow> nat \<Rightarrow> string \<Rightarrow> bool" where
  \<comment> \<open>on its host, neither retired, no open debt, no lease, no active job\<close>
  "device_free s d h \<longleftrightarrow> (\<exists>v. get_device s d = Some v \<and> d_host_id v = Some h \<and> d_retired_at v = None
     \<and> host_field s h h_retired_at = None \<and> \<not> list_ex (\<lambda>b. b_device_id b = d \<and> b_state b = DEBT_OPEN) (debts s)
     \<and> get_active_lease s d = None \<and> \<not> list_ex (\<lambda>j. j_device_id j = d \<and> active_job j) (jobs s))"

definition admissible :: "db \<Rightarrow> time \<Rightarrow> nat \<Rightarrow> target_row list" where
  "admissible s now i = filter (\<lambda>x. tg_device_id x \<notin> fst ` set (classified s now (map tg_device_id (targets_of s i)))) (targets_of s i)"

lemma admissible_free:
  assumes "x \<in> set (admissible s now i)"
  shows "\<exists>h. device_free s (tg_device_id x) h"
proof -
  let ?ids = "map tg_device_id (targets_of s i)"
  from assms have x: "tg_device_id x \<in> set ?ids" "tg_device_id x \<notin> fst ` set (classified s now ?ids)"
    by (auto simp: admissible_def)
  from classified_none [OF this] x(1) show ?thesis
    by (rule device_block_free) (auto simp: device_free_def)
qed

definition admitted :: "nat \<Rightarrow> string \<Rightarrow> time \<Rightarrow> db \<Rightarrow> db \<Rightarrow> bool" where
  \<comment> \<open>one PENDING job per admissible target, all targets unless the run is periodic, FAILED jobs for the
     refused ones, and the run RUNNING with their number\<close>
  "admitted i a now s t \<longleftrightarrow> (\<exists>run r' new rej. get_run s i = Some run \<and> owns_attempt s i a \<and> get_run t i = Some r'
      \<and> r_status r' = R_RUNNING \<and> r_total r' = int (length new + length rej)
      \<and> jobs t = jobs s @ new @ rej \<and> map j_device_id new = map tg_device_id (admissible s now i)
      \<and> (r_run_type run \<in> {''SCHEDULE'', ''CHAIN''} \<or> admissible s now i = targets_of s i)
      \<and> list_all (\<lambda>j. j_status j = J_PENDING \<and> j_plan_run_id j = i \<and> (\<exists>h. j_host_id j = Some h \<and> device_free s (j_device_id j) h)) new
      \<and> list_all (\<lambda>j. j_status j = J_FAILED \<and> j_plan_run_id j = i) rej)"

text \<open>
  C4. An admission is all or nothing.  If it passes, the run of the attempt is RUNNING and has one
  PENDING job per admissible target, on a device that is on its host and free of leases, debts and
  jobs; a manual run gets all its targets.  Otherwise nothing is written.
\<close>

theorem admission_exact:
  assumes h: "admission_transaction i a suite now s = (v, t)"
  shows "if v = Pass then admitted i a now s t else t = s"
proof (cases "v = Pass")
  case False
  with admission_rolled_back [OF h] show ?thesis by simp
next
  case True
  with h have "admission_transaction i a suite now s = (Pass, t)" by simp
  then obtain run kept s1 new rej as un lc where
    o: "owns_attempt s i a" "get_run s i = Some run" "un = classified s now (map tg_device_id (targets_of s i))" and
    sh: "shrink_targets run un (targets_of s i) s = Inr (kept, s1)" and
    new: "admitted_jobs i (device_host s) (next_serial (map j_id (jobs s))) (map tg_device_id kept) new" and
    rej: "refused_jobs i (next_serial (map j_id (jobs s @ new))) rej" and
    t: "t = upd_run i (admitted_row (length new) (length rej) (if un = [] then None else Some un) now)
     (s1\<lparr>allocations := as, jobs := jobs s @ new @ rej,
         prhs := upd_where (\<lambda>g. p_plan_run_id g = i) (admitted_group s1 (map tg_device_id kept) now) (prhs s)\<rparr>)"
    by (rule admission_passE) blast
  note k = shrink_kept [OF sh]
  let ?f = "admitted_row (length new) (length rej) (if un = [] then None else Some un) now"
  have kept: "kept = admissible s now i" by (simp add: k(1) o(3) admissible_def)
  have "get_run t i = get_run (upd_run i ?f s) i" unfolding t by (simp add: get_run_def upd_run_def k(3))
  then have r': "get_run t i = Some (?f run)" by (simp add: get_run_upd_run o(2))
  have js: "jobs t = jobs s @ new @ rej" unfolding t by (simp add: upd_run_def)
  have ds: "map j_device_id new = map tg_device_id (admissible s now i)" using new kept by (simp add: admitted_jobs_def)
  have "\<exists>h. j_host_id j = Some h \<and> device_free s (j_device_id j) h" if j: "j \<in> set new" for j
  proof -
    have "j_device_id j \<in> set (map tg_device_id (admissible s now i))" unfolding ds [symmetric] using j by simp
    then obtain h where f: "device_free s (j_device_id j) h" using admissible_free by fastforce
    moreover have "j_host_id j = device_host s (j_device_id j)" using new j by (auto simp: admitted_jobs_def list_all_iff)
    ultimately show ?thesis by (auto simp: device_free_def device_host_def)
  qed
  with new have jobs_new: "list_all (\<lambda>j. j_status j = J_PENDING \<and> j_plan_run_id j = i
      \<and> (\<exists>h. j_host_id j = Some h \<and> device_free s (j_device_id j) h)) new"
    unfolding admitted_jobs_def list_all_iff by blast
  have jobs_rej: "list_all (\<lambda>j. j_status j = J_FAILED \<and> j_plan_run_id j = i) rej" using rej by (simp add: refused_jobs_def)
  have all: "r_run_type run \<in> {''SCHEDULE'', ''CHAIN''} \<or> admissible s now i = targets_of s i"
    using k(9) by (cases "un = []") (auto simp: ADMISSION_SHRINK_RUN_TYPES_def admissible_def o(3) [symmetric])
  have row: "r_status (?f run) = R_RUNNING" "r_total (?f run) = int (length new + length rej)" by (simp_all add: admitted_row_def)
  have "admitted i a now s t"
    unfolding admitted_def by (intro exI conjI) (fact o r' row js ds all jobs_new jobs_rej)+
  with True show ?thesis by simp
qed

lemma admission_exact_witness: "admitted 1 ''u1'' 120 attempted_db running_db"
  using admission_exact [OF sample_admitted] by simp

subsection \<open>The pump\<close>

lemma best_taken:
  assumes "x \<in> set (take n (sort_key k xs))" "y \<in> set xs" "y \<notin> set (take n (sort_key k xs))"
  shows "k x \<le> (k y :: 'b :: linorder)"
proof -
  let ?ys = "sort_key k xs"
  have "sorted (map k (take n ?ys @ drop n ?ys))" by simp
  then have "\<forall>a\<in>set (take n ?ys). \<forall>b\<in>set (drop n ?ys). k a \<le> k b"
    by (simp only: map_append sorted_append) simp
  moreover have "y \<in> set (take n ?ys @ drop n ?ys)" using assms(2) by simp
  then have "y \<in> set (drop n ?ys)" using assms(3) by (simp only: set_append) blast
  ultimately show ?thesis using assms(1) by blast
qed

definition eligible :: "time \<Rightarrow> (nat \<Rightarrow> bool) \<Rightarrow> db \<Rightarrow> run_row set" where
  "eligible now locked s = {r \<in> set (runs s). r_status r = R_QUEUED \<and> due now r \<and> \<not> locked (r_id r)}"

lemma candidates_eligible: "set (pump_candidates cfg batch now locked s) \<subseteq> eligible now locked s"
  by (auto simp: pump_candidates_def eligible_def dest!: in_set_takeD)

lemma aging_mono:
  assumes "r_enqueued_at x = Some a" "r_enqueued_at y = Some b" "a \<le> b" "r_priority y \<le> r_priority x"
  shows "effective_priority cfg now y \<le> effective_priority cfg now x"
  using assms by (auto simp: effective_priority_def aging_boost_def intro!: add_mono min.mono zdiv_mono1)

lemma pump_owns:
  assumes wf: "queue_wf s" and h: "claim_queued_plan_runs cfg batch now locked uuid token s = (cl, t)"
    and i: "i \<in> r_id ` set (pump_candidates cfg batch now locked s)"
  shows "owns_attempt t i (uuid i)"
proof -
  let ?c = "pump_candidates cfg batch now locked s"
  have t: "runs t = upd_where (\<lambda>r. r_id r \<in> set (map r_id ?c)) (\<lambda>r. pump_row now (uuid (r_id r)) (token (r_id r)) r) (runs s)"
    using h by (auto simp: claim_queued_plan_runs_def Let_def comp_def)
  from i candidates_eligible obtain r where r: "r \<in> set (runs s)" "r_id r = i" by (fastforce simp: eligible_def)
  have "first_row (filter (\<lambda>r. r_id r = i) (upd_where (\<lambda>r. r_id r \<in> set (map r_id ?c))
      (\<lambda>r. pump_row now (uuid (r_id r)) (token (r_id r)) r) xs))
    = map_option (pump_row now (uuid i) (token i)) (first_row (filter (\<lambda>r. r_id r = i) xs))" for xs
    by (induction xs) (use i in \<open>auto simp: upd_where_Cons\<close>)
  with get_run_row [OF wf r(1)] r(2) have "get_run t i = Some (pump_row now (uuid i) (token i) r)" unfolding get_run_def t by simp
  then show ?thesis by (simp add: owns_attempt_def pump_row_def)
qed

lemma pump_count:
  assumes "queue_wf s"
  shows "length (pump_candidates cfg batch now locked s) = min (if batch = 0 then ac_pump_batch cfg else batch) (card (eligible now locked s))"
proof -
  let ?xs = "filter (\<lambda>r. r_status r = R_QUEUED \<and> due now r \<and> \<not> locked (r_id r)) (runs s)"
  have "distinct (runs s)" using assms by (simp add: queue_wf_def distinct_map)
  moreover have "eligible now locked s = set ?xs" by (auto simp: eligible_def)
  ultimately have "card (eligible now locked s) = length ?xs" using distinct_card [of ?xs] by simp
  then show ?thesis by (simp add: pump_candidates_def)
qed

lemma pump_prefers:
  assumes wf: "queue_wf s" and x: "x \<in> eligible now locked s"
    and y: "y \<in> eligible now locked s" "r_id y \<in> r_id ` set (pump_candidates cfg batch now locked s)"
    and p: "r_priority y \<le> r_priority x" "r_enqueued_at x = Some a" "r_enqueued_at y = Some b" "(a, r_id x) < (b, r_id y)"
  shows "x \<in> set (pump_candidates cfg batch now locked s)"
proof (rule ccontr)
  assume n: "x \<notin> set (pump_candidates cfg batch now locked s)"
  have "inj_on r_id (set (runs s))" using wf by (simp add: queue_wf_def distinct_map)
  with y have "y \<in> set (pump_candidates cfg batch now locked s)"
    using candidates_eligible [of cfg batch now locked s] by (auto simp: eligible_def dest: inj_onD)
  with n x have "pump_key cfg now y \<le> pump_key cfg now x"
    unfolding pump_candidates_def by (intro best_taken) (auto simp: eligible_def)
  moreover have "effective_priority cfg now y \<le> effective_priority cfg now x"
    by (rule aging_mono [OF p(2,3) _ p(1)]) (use p(4) in \<open>auto simp: less_prod_def'\<close>)
  ultimately show False using p by (auto simp: pump_key_def less_eq_prod_def less_prod_def')
qed

text \<open>
  C27. A pump tick claims as many due runs as its batch allows, each under its own fresh attempt, and is
  fair: a run that waits longer than a claimed one of no higher priority is claimed too, whatever
  the aging boosts.
\<close>

theorem pump_fair:
  assumes wf: "queue_wf s" and h: "claim_queued_plan_runs cfg batch now locked uuid token s = (cl, t)"
  shows "(\<forall>(i, a)\<in>set cl. a = uuid i \<and> owns_attempt t i a \<and> i \<in> r_id ` eligible now locked s)
    \<and> length cl = min (if batch = 0 then ac_pump_batch cfg else batch) (card (eligible now locked s))
    \<and> (\<forall>x\<in>eligible now locked s. \<forall>y\<in>eligible now locked s. r_id y \<in> fst ` set cl \<and> r_priority y \<le> r_priority x
        \<and> (\<exists>a b. r_enqueued_at x = Some a \<and> r_enqueued_at y = Some b \<and> (a, r_id x) < (b, r_id y)) \<longrightarrow> r_id x \<in> fst ` set cl)"
proof -
  let ?c = "pump_candidates cfg batch now locked s"
  have cl: "cl = map (\<lambda>r. (r_id r, uuid (r_id r))) ?c"
    using h by (auto simp: claim_queued_plan_runs_def Let_def comp_def)
  have ids: "fst ` set cl = r_id ` set ?c" unfolding cl by force
  show ?thesis
    unfolding ids
  proof (intro conjI ballI impI)
    fix z assume "z \<in> set cl"
    then obtain r where r: "r \<in> set ?c" "z = (r_id r, uuid (r_id r))" unfolding cl by auto
    then have "owns_attempt t (r_id r) (uuid (r_id r))" "r_id r \<in> r_id ` eligible now locked s"
      using pump_owns [OF wf h] candidates_eligible by (simp, blast)
    with r(2) show "case z of (i, a) \<Rightarrow> a = uuid i \<and> owns_attempt t i a \<and> i \<in> r_id ` eligible now locked s" by simp
  next
    show "length cl = min (if batch = 0 then ac_pump_batch cfg else batch) (card (eligible now locked s))"
      unfolding cl by (simp only: length_map pump_count [OF wf])
  next
    fix x y assume x: "x \<in> eligible now locked s" and y: "y \<in> eligible now locked s"
      and p: "r_id y \<in> r_id ` set ?c \<and> r_priority y \<le> r_priority x
        \<and> (\<exists>a b. r_enqueued_at x = Some a \<and> r_enqueued_at y = Some b \<and> (a, r_id x) < (b, r_id y))"
    then obtain a b where "r_enqueued_at x = Some a" "r_enqueued_at y = Some b" "(a, r_id x) < (b, r_id y)" by blast
    note pump_prefers [OF wf x y conjunct1 [OF p] conjunct1 [OF conjunct2 [OF p]] this]
    then show "r_id x \<in> r_id ` set ?c" by (rule imageI)
  qed
qed

lemma pump_fair_witness: "owns_attempt attempted_db 1 ''u1'' \<and> 1 \<in> r_id ` eligible 110 (\<lambda>_. False) queued_db"
proof -
  have wf: "queue_wf queued_db" using prepare_keeps [OF queue_db_wf sample_prepared] by simp
  have "\<forall>(i, a)\<in>set [(1, ''u1'')]. a = ''u1'' \<and> owns_attempt attempted_db i a \<and> i \<in> r_id ` eligible 110 (\<lambda>_. False) queued_db"
    using pump_fair [OF wf sample_pumped] by (rule conjunct1)
  then show ?thesis by simp
qed

subsection \<open>The script phase\<close>

lemma verify_one_host_cases [simp]:
  "vr_rows (verify_one_host (Ack rows)) = rows"
  "is_unreachable (vr_error (verify_one_host a)) \<longleftrightarrow> (\<forall>rows. a \<noteq> Ack rows)"
  "vr_error (verify_one_host a) = Some ''sha_mismatch'' \<longleftrightarrow> (\<exists>rows. a = Ack rows) \<and> \<not> vr_ok (verify_one_host a)"
  "vr_ok (verify_one_host (Ack rows)) \<longleftrightarrow> rows \<noteq> [] \<and> list_all (\<lambda>r. truthy (jget r ''ok'')) rows"
  "\<not> vr_ok (verify_one_host AgentNotConnected)" "\<not> vr_ok (verify_one_host (AgentRpc e))" "\<not> vr_ok (verify_one_host (Raised e))"
  by (auto simp: verify_one_host_def Let_def is_unreachable_def split: rpc_answer.splits if_splits)

lemma unreachable_none:
  "unreachable_hosts (gather_verify ans hs) = [] \<longleftrightarrow> (\<forall>h\<in>set hs. \<exists>rows. ans h = Ack rows)"
proof
  assume n: "unreachable_hosts (gather_verify ans hs) = []"
  show "\<forall>h\<in>set hs. \<exists>rows. ans h = Ack rows"
  proof
    fix h assume "h \<in> set hs"
    with n show "\<exists>rows. ans h = Ack rows"
      by (cases "ans h") (auto simp: unreachable_hosts_def gather_verify_def map_filter_def filter_empty_conv)
  qed
qed (auto simp: unreachable_hosts_def gather_verify_def map_filter_def filter_empty_conv)

definition pushed_ok :: "jobj list \<Rightarrow> (string \<Rightarrow> jobj list \<Rightarrow> bool \<times> string option) \<Rightarrow> (string \<Rightarrow> rpc_answer) \<Rightarrow> string \<Rightarrow> bool" where
  \<comment> \<open>the host was sent the scripts it misses\<close>
  "pushed_ok expected push ans h \<longleftrightarrow> (\<exists>rows. ans h = Ack rows \<and> mismatched_entries_for_push rows expected \<noteq> []
     \<and> fst (push h (mismatched_entries_for_push rows expected)))"

lemma pass_chain:
  assumes "(if c0 then Fatal a0 d0 else if c1 \<noteq> [] then Fatal a1 d1 else if c2 \<noteq> [] then w
      else if c3 \<noteq> [] then Retry a3 d3 else if c4 \<noteq> [] then Fatal a4 d4 else if c5 \<noteq> [] then Retry a5 d5 else Pass) = Pass"
    "w \<noteq> Pass"
  shows "c1 = [] \<and> c2 = [] \<and> c3 = [] \<and> c4 = [] \<and> c5 = []"
  using assms by (simp split: if_splits)

lemma push_failures_fatal: "fatal_admission_for_push_failures xs \<noteq> Pass"
  by (simp add: fatal_admission_for_push_failures_def)

lemma none_failed:
  assumes "map (\<lambda>(h, ok, err). (h, err)) (filter (\<lambda>(h, ok, err). is_fatal_push_error err) (filter (\<lambda>(h, ok, err). \<not> ok) pushed)) = []"
    "map (\<lambda>(h, ok, err). host_entry h reason err)
       (filter (\<lambda>(h, ok, err). \<not> is_fatal_push_error err) (filter (\<lambda>(h, ok, err). \<not> ok) pushed)) = []"
    "(h, p) \<in> set pushed"
  shows "fst p"
  using assms by (cases p) (auto simp: filter_empty_conv)

lemma verified_again:
  assumes "filter (\<lambda>h. h \<in> H) (map fst (filter (\<lambda>(h, r). \<not> vr_ok r \<and> \<not> is_unreachable (vr_error r)) (gather_verify ans hs))) = []"
    "unreachable_hosts (gather_verify ans hs) = []" "h \<in> set hs" "h \<in> H"
  shows "vr_ok (verify_one_host (ans h))"
proof (rule ccontr)
  assume "\<not> vr_ok (verify_one_host (ans h))"
  moreover have "\<not> is_unreachable (vr_error (verify_one_host (ans h)))" using assms(2,3) by (simp add: unreachable_none)
  moreover have "(h, verify_one_host (ans h)) \<in> set (gather_verify ans hs)" using assms(3) by (simp add: gather_verify_def)
  ultimately have "h \<in> set (map fst (filter (\<lambda>(h, r). \<not> vr_ok r \<and> \<not> is_unreachable (vr_error r)) (gather_verify ans hs)))" by force
  with assms(1,4) show False by (simp only: filter_empty_conv)
qed

text \<open>
  C26. When the script phase lets a run pass, every host reported all scripts as good, at once or after the
  missing ones were pushed to it; the only exception is a host whose agent answers with an empty list.
\<close>

theorem script_phase_sound:
  assumes v: "verify_scripts_phase expected (gather_verify ans hs) push (gather_verify ans2) = Pass"
    and h: "h \<in> set hs"
  shows "vr_ok (verify_one_host (ans h)) \<or> pushed_ok expected push ans h \<and> vr_ok (verify_one_host (ans2 h)) \<or> ans h = Ack []"
proof -
  define bad where "bad = map (\<lambda>(h, r). (h, mismatched_entries_for_push (vr_rows r) expected, vr_rows r)) (sha_mismatched (gather_verify ans hs))"
  define mis where "mis = filter (\<lambda>(h, es, rows). es \<noteq> []) bad"
  define pushed where "pushed = map (\<lambda>(h, es, rows). (h, push h es)) mis"
  define retry where "retry = map fst (filter (\<lambda>(h, ok, err). ok) pushed)"
  define again where "again = (if retry = [] then [] else gather_verify ans2 retry)"
  note defs = again_def retry_def pushed_def mis_def bad_def
  have
    un: "filter (\<lambda>(h, es, rows). es = [] \<and> list_ex (\<lambda>r. \<not> truthy (jget r ''ok'')) rows) bad = []" and
    f1: "map (\<lambda>(h, ok, err). (h, err)) (filter (\<lambda>(h, ok, err). is_fatal_push_error err) (filter (\<lambda>(h, ok, err). \<not> ok) pushed)) = []" and
    f2: "map (\<lambda>(h, ok, err). host_entry h ''script_sync_failed'' err)
            (filter (\<lambda>(h, ok, err). \<not> is_fatal_push_error err) (filter (\<lambda>(h, ok, err). \<not> ok) pushed)) = []" and
    cf: "filter (\<lambda>h. h \<in> fst ` set mis) (map fst (filter (\<lambda>(h, r). \<not> vr_ok r \<and> \<not> is_unreachable (vr_error r)) again)) = []" and
    ur: "unreachable_hosts (gather_verify ans hs) @ unreachable_hosts again = []"
    unfolding defs
    using pass_chain [OF v [unfolded verify_scripts_phase_def Let_def] push_failures_fatal] by (simp_all only:)
  have all: "\<exists>rows. ans h = Ack rows" using ur h by (simp add: unreachable_none)
  then obtain rows where rows: "ans h = Ack rows" by blast
  show "vr_ok (verify_one_host (ans h)) \<or> pushed_ok expected push ans h \<and> vr_ok (verify_one_host (ans2 h)) \<or> ans h = Ack []"
  proof (cases "vr_ok (verify_one_host (ans h)) \<or> rows = []")
    case True
    with rows show ?thesis by auto
  next
    case False
    let ?es = "mismatched_entries_for_push rows expected"
    have "(h, verify_one_host (ans h)) \<in> set (sha_mismatched (gather_verify ans hs))"
      using h False rows by (auto simp: sha_mismatched_def gather_verify_def)
    then have bad: "(h, ?es, rows) \<in> set bad" unfolding bad_def using rows by force
    from False rows have "list_ex (\<lambda>r. \<not> truthy (jget r ''ok'')) rows" by (auto simp: list_all_iff list_ex_iff)
    with bad un have es: "?es \<noteq> []" by (auto simp: filter_empty_conv)
    with bad have mis: "(h, ?es, rows) \<in> set mis" by (simp add: mis_def)
    then have pu: "(h, push h ?es) \<in> set pushed" unfolding pushed_def by force
    have ok: "fst (push h ?es)" by (rule none_failed [OF f1 f2 pu])
    have "(h, push h ?es) \<in> set (filter (\<lambda>(h, ok, err). ok) pushed)" using pu ok by (simp add: case_prod_unfold)
    then have re: "h \<in> set retry" unfolding retry_def by force
    then have again: "again = gather_verify ans2 retry" by (auto simp: again_def)
    have ur2: "unreachable_hosts (gather_verify ans2 retry) = []" using ur by (simp add: again)
    have "vr_ok (verify_one_host (ans2 h))" by (rule verified_again [OF cf [unfolded again] ur2 re]) (use mis in force)
    with ok es rows show ?thesis by (auto simp: pushed_ok_def)
  qed
qed

definition sample_answers :: "string \<Rightarrow> rpc_answer" where
  "sample_answers h = Ack [[(''name'', JStr ''monkey_run''), (''ok'', JBool (h = ''h1''))]]"

lemma script_phase_sound_witness:
  "pushed_ok [[(''name'', JStr ''monkey_run'')]] (\<lambda>_ _. (True, None)) sample_answers ''h2''
     \<and> verify_scripts_phase [[(''name'', JStr ''monkey_run'')]] (gather_verify (\<lambda>_. Ack []) [''h1'']) (\<lambda>_ _. (True, None)) (\<lambda>_. []) = Pass"
proof
  have "verify_scripts_phase [[(''name'', JStr ''monkey_run'')]] (gather_verify sample_answers [''h1'', ''h2'']) (\<lambda>_ _. (True, None))
      (gather_verify (\<lambda>h. sample_answers ''h1'')) = Pass" (is "?v = Pass") by code_simp
  have bad: "\<not> vr_ok (verify_one_host (sample_answers ''h2''))" by code_simp
  from script_phase_sound [OF \<open>?v = Pass\<close>, of "''h2''"]
  show "pushed_ok [[(''name'', JStr ''monkey_run'')]] (\<lambda>_ _. (True, None)) sample_answers ''h2''"
    using bad by (auto simp: sample_answers_def)
  show "verify_scripts_phase [[(''name'', JStr ''monkey_run'')]] (gather_verify (\<lambda>_. Ack []) [''h1'']) (\<lambda>_ _. (True, None)) (\<lambda>_. []) = Pass"
    by code_simp
qed

subsection \<open>The reaper\<close>

lemma requeue_attempts_pump: "requeue_attempts (pump_row now u k r) = requeue_attempts r"
  by (simp add: requeue_attempts_def pump_row_def set_dispatch_state_def jget_update)

definition reaped_to :: "adm_cfg \<Rightarrow> int \<Rightarrow> time \<Rightarrow> run_row \<Rightarrow> run_row \<Rightarrow> bool" where
  \<comment> \<open>back in the queue with a longer delay, its place kept, and one attempt less\<close>
  "reaped_to cfg n now r r' \<longleftrightarrow> r_status r' = R_QUEUED \<and> requeue_attempts r' = Some (n + 1)
     \<and> r_next_admission_at r' = Some (now + ac_requeue_backoff cfg * (n + 1))
     \<and> (r_enqueued_at r \<noteq> None \<longrightarrow> r_enqueued_at r' = r_enqueued_at r) \<and> r_admission_attempt_id r' = None"

text \<open>
  C32. The reaper leaves a stale run alone whose task is queued or alive; otherwise it either puts the run
  back with its place in the queue kept, one more attempt counted and a delay that grows with them,
  or, at the limit, fails it.  No other run and no job is touched.
\<close>

theorem reaper_bounded:
  assumes r: "get_run s i = Some r" "stale_precheck dl r" "requeue_attempts r = Some n"
    and h: "recover_stale_precheck_run cfg saq alive i dl now s = (res, t)"
  shows "if (case saq (saq_key i (r_admission_attempt_id r)) of None \<Rightarrow> False
             | Some (st, w) \<Rightarrow> st = ''queued'' \<or> st = ''active'' \<and> alive w)
         then res = Some Skipped \<and> t = s
         else \<exists>r'. get_run t i = Some r' \<and> (\<forall>k. k \<noteq> i \<longrightarrow> get_run t k = get_run s k) \<and> jobs t = jobs s
           \<and> (if n < ac_max_requeue_attempts cfg then res = Some Requeued \<and> reaped_to cfg n now r r'
              else res = Some Failed \<and> r_status r' = R_FAILED \<and> r_ended_at r' = Some now)"
proof -
  have jobs: "jobs (upd_run i f s) = jobs s" for f by (simp add: upd_run_def)
  have aud: "jobs (add_audit p q u v w x) = jobs x" for p q u v w x by (simp add: add_audit_def)
  note o = get_run_other [of i _ "reaped_row cfg n now" s] get_run_other [of i _ "exhausted_row n now" s]
  have q: "requeue_attempts (reaped_row cfg n now r) = Some (n + 1)"
    by (simp add: requeue_attempts_def reaped_row_def jget_update jor_def)
  show ?thesis
    using h r q unfolding recover_stale_precheck_run_def
    by (auto simp: get_run_upd_run o jobs aud reaped_to_def reaped_row_def exhausted_row_def split: if_splits)
qed

definition attempted_run :: run_row where
  "attempted_run = the (get_run attempted_db 1)"

lemma attempted_run: "get_run attempted_db 1 = Some attempted_run"
proof -
  have "get_run attempted_db 1 \<noteq> None" by code_simp
  then show ?thesis by (auto simp: attempted_run_def)
qed

lemma reaper_bounded_witness:
  "\<exists>t r'. recover_stale_precheck_run queue_cfg (\<lambda>_. None) (\<lambda>_. False) 1 1100 2000 attempted_db = (Some Requeued, t)
     \<and> get_run t 1 = Some r' \<and> requeue_attempts r' = Some 1 \<and> r_next_admission_at r' = Some 2060"
proof -
  obtain res t where h: "recover_stale_precheck_run queue_cfg (\<lambda>_. None) (\<lambda>_. False) 1 1100 2000 attempted_db = (res, t)" by fastforce
  have "stale_precheck 1100 attempted_run" "requeue_attempts attempted_run = Some 0" by code_simp+
  from reaper_bounded [OF attempted_run this h] h show ?thesis by (auto simp: reaped_to_def queue_cfg_def)
qed

definition lost_attempt ::
  "adm_cfg \<Rightarrow> (nat \<Rightarrow> string) \<Rightarrow> (nat \<Rightarrow> string) \<Rightarrow> (string option \<Rightarrow> bool) \<Rightarrow> nat \<Rightarrow> time \<times> time \<Rightarrow> db \<Rightarrow> db" where
  \<comment> \<open>run \<open>i\<close> is pumped at the first time, its task dies, and the reaper finds it at the second\<close>
  "lost_attempt cfg uuid token alive i ab s =
     snd (recover_stale_precheck_run cfg (\<lambda>_. None) alive i (snd ab - ac_precheck_active_stale cfg) (snd ab)
       (snd (claim_queued_plan_runs cfg 0 (fst ab) (\<lambda>k. k \<noteq> i) uuid token s)))"

fun spaced :: "adm_cfg \<Rightarrow> time \<Rightarrow> (time \<times> time) list \<Rightarrow> bool" where
  \<comment> \<open>each attempt starts when the run is due and is found when it is stale\<close>
  "spaced cfg next [] = True"
| "spaced cfg next ((a, b) # rounds) \<longleftrightarrow> next \<le> a \<and> a + ac_precheck_active_stale cfg < b
     \<and> spaced cfg (b + ac_requeue_backoff cfg * ac_max_requeue_attempts cfg) rounds"

lemma single_candidate:
  assumes wf: "queue_wf s" and r: "get_run s i = Some r" "r_status r = R_QUEUED" "due a r" and b: "0 < ac_pump_batch cfg"
  shows "pump_candidates cfg 0 a (\<lambda>k. k \<noteq> i) s = [r]"
proof -
  have "filter (\<lambda>x. r_status x = R_QUEUED \<and> due a x \<and> \<not> r_id x \<noteq> i) (runs s) = [r]"
  proof -
    have mem: "r \<in> set (runs s)" "r_id r = i" using get_run_Some [OF r(1)] by auto
    have "distinct (map r_id xs) \<Longrightarrow> r \<in> set xs \<Longrightarrow>
        filter (\<lambda>x. r_status x = R_QUEUED \<and> due a x \<and> \<not> r_id x \<noteq> i) xs = [r]" for xs
    proof (induction xs)
      case (Cons x xs)
      show ?case
      proof (cases "x = r")
        case True
        from Cons.prems(1) have "r_id x \<notin> r_id ` set xs" by simp
        with True mem(2) have "\<forall>y\<in>set xs. r_id y \<noteq> i" by (metis imageI)
        with True r(2,3) mem(2) show ?thesis by (simp add: filter_empty_conv)
      next
        case False
        with Cons mem(2) show ?thesis by force
      qed
    qed simp
    with wf mem(1) show ?thesis by (simp add: queue_wf_def)
  qed
  with b show ?thesis by (simp add: pump_candidates_def)
qed

lemma no_candidate:
  assumes "get_run s i = Some r" "r_status r \<noteq> R_QUEUED" "queue_wf s"
  shows "pump_candidates cfg 0 a (\<lambda>k. k \<noteq> i) s = []"
proof -
  have "filter (\<lambda>x. r_status x = R_QUEUED \<and> due a x \<and> \<not> r_id x \<noteq> i) (runs s) = []"
    using assms get_run_row [OF assms(3)] by (auto simp: filter_empty_conv)
  then show ?thesis by (simp add: pump_candidates_def)
qed

lemma lost_attempt_row:
  assumes wf: "queue_wf s" and r: "get_run s i = Some r" "r_status r = R_QUEUED" "due a r" "requeue_attempts r = Some n"
    and b: "0 < ac_pump_batch cfg" "a + ac_precheck_active_stale cfg < b"
  shows "queue_wf (lost_attempt cfg uuid token alive i (a, b) s) \<and>
    (\<exists>r'. get_run (lost_attempt cfg uuid token alive i (a, b) s) i = Some r' \<and>
      (if n < ac_max_requeue_attempts cfg
       then r_status r' = R_QUEUED \<and> requeue_attempts r' = Some (n + 1)
         \<and> r_next_admission_at r' = Some (b + ac_requeue_backoff cfg * (n + 1))
       else r_status r' = R_FAILED))"
proof -
  let ?p = "pump_row a (uuid i) (token i)"
  obtain cl s1 where c: "claim_queued_plan_runs cfg 0 a (\<lambda>k. k \<noteq> i) uuid token s = (cl, s1)" by fastforce
  have i: "r_id r = i" using get_run_Some [OF r(1)] by simp
  have s1: "runs s1 = upd_where (\<lambda>x. r_id x = i) (\<lambda>x. pump_row a (uuid (r_id x)) (token (r_id x)) x) (runs s)"
    using c single_candidate [OF wf r(1-3) b(1)] i by (auto simp: claim_queued_plan_runs_def)
  have wf1: "queue_wf s1" by (rule moves_linked_wf [OF wf pump_moves [OF c wf, of "{}"]]) simp
  have g: "get_run s1 i = Some (?p r)"
    using first_row_upd_key [of r_id "\<lambda>x. pump_row a (uuid (r_id x)) (token (r_id x)) x" i i "runs s"] r(1) i
    by (simp add: get_run_def s1)
  have st: "stale_precheck (b - ac_precheck_active_stale cfg) (?p r)"
    using b(2) by (simp add: stale_precheck_def pump_row_def)
  have n: "requeue_attempts (?p r) = Some n" by (simp add: requeue_attempts_pump r(4))
  let ?t = "lost_attempt cfg uuid token alive i (a, b) s"
  have t: "?t = snd (recover_stale_precheck_run cfg (\<lambda>_. None) alive i (b - ac_precheck_active_stale cfg) b s1)"
    by (simp add: lost_attempt_def c)
  have "queue_wf ?t" unfolding t by (rule moves_linked_wf [OF wf1 recover_moves [OF wf1]])
  moreover have "requeue_attempts (reaped_row cfg n b (?p r)) = Some (n + 1)"
    by (simp add: requeue_attempts_def reaped_row_def jget_update jor_def)
  then have "\<exists>r'. get_run ?t i = Some r' \<and> (if n < ac_max_requeue_attempts cfg
       then r_status r' = R_QUEUED \<and> requeue_attempts r' = Some (n + 1)
         \<and> r_next_admission_at r' = Some (b + ac_requeue_backoff cfg * (n + 1))
       else r_status r' = R_FAILED)"
    unfolding t recover_stale_precheck_run_def by (simp add: g st n get_run_upd_run) (simp add: reaped_row_def)
  ultimately show ?thesis ..
qed

lemma lost_attempt_failed:
  assumes "queue_wf s" "get_run s i = Some r" "r_status r = R_FAILED"
  shows "lost_attempt cfg uuid token alive i ab s = s"
proof -
  have "snd (claim_queued_plan_runs cfg 0 (fst ab) (\<lambda>k. k \<noteq> i) uuid token s) = s"
    using no_candidate [OF assms(2) _ assms(1), of cfg "fst ab"] assms(3)
    by (simp add: claim_queued_plan_runs_def upd_where_none)
  with assms(2,3) show ?thesis by (simp add: lost_attempt_def recover_stale_precheck_run_def stale_precheck_def)
qed


lemma stays_failed:
  "queue_wf s \<Longrightarrow> get_run s i = Some r \<Longrightarrow> r_status r = R_FAILED \<Longrightarrow> fold (lost_attempt cfg uuid token alive i) rounds s = s"
  by (induction rounds) (simp_all add: lost_attempt_failed)

text \<open>
  C17. A run whose tasks always die is not retried forever: after at most as many lost attempts as are
  allowed, and one more, it is FAILED.
\<close>

theorem crashing_run_fails:
  assumes "queue_wf s" "get_run s i = Some r" "r_status r = R_QUEUED" "requeue_attempts r = Some n"
    and "case r_next_admission_at r of None \<Rightarrow> True | Some t \<Rightarrow> t \<le> start"
    and cfg: "0 < ac_pump_batch cfg" "0 \<le> ac_requeue_backoff cfg"
    and "spaced cfg start rounds" "rounds \<noteq> []" "ac_max_requeue_attempts cfg - n < int (length rounds)"
  shows "\<exists>r'. get_run (fold (lost_attempt cfg uuid token alive i) rounds s) i = Some r' \<and> r_status r' = R_FAILED"
  using assms(1-5,8-)
proof (induction rounds arbitrary: s r n start)
  case (Cons ab rounds)
  obtain a b where ab: "ab = (a, b)" by (cases ab)
  have due: "due a r" "a + ac_precheck_active_stale cfg < b" using Cons.prems(5,6) ab by (auto simp: due_def split: option.splits)
  let ?t = "lost_attempt cfg uuid token alive i (a, b) s"
  from lost_attempt_row [OF Cons.prems(1-3) due(1) Cons.prems(4) cfg(1) due(2)]
  obtain r' where wf: "queue_wf ?t" and g: "get_run ?t i = Some r'" and
    c: "if n < ac_max_requeue_attempts cfg
       then r_status r' = R_QUEUED \<and> requeue_attempts r' = Some (n + 1)
         \<and> r_next_admission_at r' = Some (b + ac_requeue_backoff cfg * (n + 1))
       else r_status r' = R_FAILED" by blast
  show ?case
  proof (cases "n < ac_max_requeue_attempts cfg")
    case True
    have "ac_requeue_backoff cfg * (n + 1) \<le> ac_requeue_backoff cfg * ac_max_requeue_attempts cfg"
      using True cfg(2) by (intro mult_left_mono) simp_all
    moreover have "spaced cfg (b + ac_requeue_backoff cfg * ac_max_requeue_attempts cfg) rounds" using Cons.prems(6) ab by simp
    moreover have "rounds \<noteq> []" "ac_max_requeue_attempts cfg - (n + 1) < int (length rounds)" using True Cons.prems(8) by auto
    ultimately have "\<exists>r'. get_run (fold (lost_attempt cfg uuid token alive i) rounds ?t) i = Some r' \<and> r_status r' = R_FAILED"
      using Cons.IH [OF wf g, of "n + 1" "b + ac_requeue_backoff cfg * ac_max_requeue_attempts cfg"] c True by simp
    then show ?thesis by (simp add: ab)
  next
    case False
    with c g stays_failed [OF wf g] show ?thesis by (simp add: ab)
  qed
qed simp

lemma crashing_run_fails_witness:
  "\<exists>r. get_run (fold (lost_attempt queue_cfg (\<lambda>_. ''u1'') (\<lambda>_. ''t1'') (\<lambda>_. False) 1)
     [(110, 1100), (1300, 2300), (2500, 3500), (3700, 4700)] queued_db) 1 = Some r \<and> r_status r = R_FAILED"
proof -
  have wf: "queue_wf queued_db" using prepare_keeps [OF queue_db_wf sample_prepared] by simp
  have "case get_run queued_db 1 of None \<Rightarrow> False | Some r \<Rightarrow> r_status r = R_QUEUED \<and> requeue_attempts r = Some 0
      \<and> r_next_admission_at r = None" by code_simp
  then obtain r where r: "get_run queued_db 1 = Some r" "r_status r = R_QUEUED" "requeue_attempts r = Some 0"
    "r_next_admission_at r = None" by (auto split: option.splits)
  show ?thesis
    by (rule crashing_run_fails [OF wf r(1-3), where start = 110]) (simp_all add: r(4) queue_cfg_def)
qed

subsection \<open>Preparing\<close>

lemma prepare_lifecycle:
  assumes "prepare_plan_run qe p now s = (Inr i, t)"
  obtains plan ids bs lc ctx where
    "first_row (filter (\<lambda>r. pl_id r = pi_plan_id p) (plans s)) = Some plan"
    "ids = filter (\<lambda>d. d \<notin> fst ` set (with_reason (\<lambda>r. r = ''serial_conflict'') (classified s now (pi_device_ids p)))) (pi_device_ids p)"
    "with_reason (\<lambda>r. r \<in> set FATAL_DISPATCH_REASONS) (classified s now (pi_device_ids p)) = []"
    "prepared_lifecycle qe plan (plan_steps_of s (pl_id plan)) (fetch_script_metadata s) (pi_fingerprint p) = Inr lc"
    "prepare_queued_plan_run qe p plan ids bs (build_plan_snapshot plan (plan_steps_of s (pl_id plan)) (fetch_script_metadata s)) ctx now s
       = (Inr i, t)"
  using assms unfolding prepare_plan_run_def Let_def by (auto split: if_splits option.splits sum.splits)

lemma prepared_lifecycle_valid:
  assumes "prepared_lifecycle qe plan steps meta fp = Inr lc"
  shows "build_lifecycle_from_steps plan steps (script_defaults meta) = Inr lc
    \<and> validate_lifecycle_semantics (JObj [(''lifecycle'', JObj lc)]) = None
    \<and> check_legacy_aee_script_refs steps = [] \<and> check_suite_binding_required plan steps = []"
  using assms by (auto simp: prepared_lifecycle_def split: if_splits sum.splits)

lemma prepare_queued_run:
  assumes "prepare_queued_plan_run qe p plan ids bs snap ctx now s = (Inr i, t)"
  shows "get_run t i = Some (queued_run qe p plan (sort (remdups ids)) bs snap ctx now s)"
proof -
  let ?run = "queued_run qe p plan (sort (remdups ids)) bs snap ctx now s"
  have "runs t = runs s @ [?run]" "i = r_id ?run"
    using assms by (auto simp: prepare_queued_plan_run_def Let_def split: if_splits)
  moreover have "filter (\<lambda>r. r_id r = r_id ?run) (runs s) = []"
    using next_serial_fresh [of _ "map r_id (runs s)"] by (force simp: filter_empty_conv)
  ultimately show ?thesis by (simp add: get_run_def first_row_append)
qed

text \<open>
  C13. What a run executes is fixed when it is prepared: its snapshot rebuilds the lifecycle that was
  built from the plan and validated then, so a plan edited while the run waits changes nothing.
\<close>

theorem prepared_run_frozen:
  assumes h: "prepare_plan_run qe p now s = (Inr i, t)"
    and rows: "list_all (\<lambda>st. ps_stage st \<in> {''init'', ''patrol'', ''teardown''} \<and> ps_script_name st \<noteq> []) (plan_steps s)"
  shows "\<exists>run plan lc. get_run t i = Some run \<and> r_status run = R_QUEUED \<and> plan \<in> set (plans s) \<and> pl_id plan = pi_plan_id p
    \<and> build_lifecycle_from_steps plan (plan_steps_of s (pl_id plan)) (script_defaults (fetch_script_metadata s)) = Inr lc
    \<and> validate_lifecycle_semantics (JObj [(''lifecycle'', JObj lc)]) = None
    \<and> build_lifecycle_from_snapshot (r_plan_snapshot run) = Inr lc"
  using h
proof (rule prepare_lifecycle)
  fix plan :: plan_row and ids bs lc ctx
  let ?steps = "plan_steps_of s (pl_id plan)" and ?meta = "fetch_script_metadata s"
  assume p: "first_row (filter (\<lambda>r. pl_id r = pi_plan_id p) (plans s)) = Some plan"
    and l: "prepared_lifecycle qe plan ?steps ?meta (pi_fingerprint p) = Inr lc"
    and q: "prepare_queued_plan_run qe p plan ids bs (build_plan_snapshot plan ?steps ?meta) ctx now s = (Inr i, t)"
  have "list_all (\<lambda>st. ps_stage st \<in> {''init'', ''patrol'', ''teardown''} \<and> ps_script_name st \<noteq> []) ?steps"
    using rows by (auto simp: list_all_iff plan_steps_of_def)
  with prepared_lifecycle_valid [OF l] have "build_lifecycle_from_snapshot (build_plan_snapshot plan ?steps ?meta) = Inr lc"
    using snapshot_rebuilds_lifecycle by blast
  with prepare_queued_run [OF q] first_row_filterD [OF p] prepared_lifecycle_valid [OF l] show ?thesis
    by (intro exI [of _ "queued_run qe p plan (sort (remdups ids)) bs (build_plan_snapshot plan ?steps ?meta) ctx now s"]
        exI [of _ plan] exI [of _ lc]) (simp add: queued_run_def)
qed

lemma prepared_run_frozen_witness:
  "\<exists>run lc. get_run queued_db 1 = Some run \<and> build_lifecycle_from_snapshot (r_plan_snapshot run) = Inr lc"
proof -
  have "list_all (\<lambda>st. ps_stage st \<in> {''init'', ''patrol'', ''teardown''} \<and> ps_script_name st \<noteq> []) (plan_steps queue_db)"
    by code_simp
  from prepared_run_frozen [OF sample_prepared this] show ?thesis by blast
qed

subsection \<open>Targets\<close>

lemma sum_groups:
  assumes "distinct hs" "f ` set ds \<subseteq> set hs"
  shows "(\<Sum>h\<leftarrow>hs. int (length (filter (\<lambda>d. f d = h) ds))) = int (length ds)"
  using assms(2)
proof (induction ds)
  case (Cons d ds)
  have "(\<Sum>h\<leftarrow>hs. (if f d = h then 1 else 0 :: int)) = 1"
    using assms(1) Cons.prems by (simp add: sum_list_distinct_conv_sum_set)
  moreover have "(\<Sum>h\<leftarrow>hs. int (length (filter (\<lambda>x. f x = h) (d # ds))))
      = (\<Sum>h\<leftarrow>hs. (if f d = h then 1 else 0) + int (length (filter (\<lambda>x. f x = h) ds)))"
    by (rule arg_cong [where f = sum_list], rule map_cong) simp_all
  ultimately show ?case using Cons by (simp add: sum_list_addf)
qed simp

lemma sorted_enumerate: "sorted_wrt (\<lambda>a b. fst a < fst b) (List.enumerate n xs)"
  by (induction xs arbitrary: n) (auto simp: in_set_enumerate_eq)

lemma sort_key_ordered: "sorted_wrt (\<lambda>a b. k a < k b) xs \<Longrightarrow> sort_key k xs = (xs :: 'a list)" for k :: "'a \<Rightarrow> 'b :: linorder"
proof -
  assume "sorted_wrt (\<lambda>a b. k a < k b) xs"
  then have "sorted (map k xs)" by (simp add: sorted_wrt_map) (erule sorted_wrt_mono_rel [rotated], simp)
  then show ?thesis by (rule sort_key_id_if_sorted)
qed

lemma host_groups_fields:
  "map p_host_id (host_groups s n ids) = sort (remdups (map (target_host s) ids))"
  "map p_device_count (host_groups s n ids) = map (\<lambda>h. int (length (filter (\<lambda>d. target_host s d = h) ids)))
     (sort (remdups (map (target_host s) ids)))"
  "\<forall>g\<in>set (host_groups s n ids). p_plan_run_id g = n \<and> p_status g = ''PENDING_ADMISSION''"
  unfolding host_groups_def map_map
  using map_enumerate_snd [of "\<lambda>h. h"] map_enumerate_snd [of "\<lambda>h. int (length (filter (\<lambda>d. target_host s d = h) ids))"]
  by (simp_all add: host_group_row_def comp_def case_prod_unfold)

lemma target_rows_of:
  "targets_of (s\<lparr>targets := target_rows u n groups ids\<rparr>) n = target_rows u n groups ids"
proof -
  have "filter (\<lambda>t. tg_plan_run_id t = n) (target_rows u n groups ids) = target_rows u n groups ids"
    unfolding filter_id_conv by (auto simp: target_rows_def)
  moreover have "sorted_wrt (\<lambda>a b. (tg_sort_order a, tg_device_id a) < (tg_sort_order b, tg_device_id b)) (target_rows u n groups ids)"
    unfolding target_rows_def sorted_wrt_map
    by (rule sorted_wrt_mono_rel [OF _ sorted_enumerate]) (auto simp: less_prod_def')
  ultimately show ?thesis unfolding targets_of_def by (simp add: sort_key_ordered)
qed

lemma target_row_fields:
  "map tg_device_id (target_rows s n groups ids) = ids"
  "\<forall>x\<in>set (target_rows s n groups ids). tg_host_id_snapshot x = target_host s (tg_device_id x)"
  using map_enumerate_snd [of "\<lambda>d. d" 0 ids] by (auto simp: target_rows_def comp_def case_prod_unfold)

definition accepted_devices :: "db \<Rightarrow> time \<Rightarrow> nat list \<Rightarrow> nat list" where
  "accepted_devices s now ids =
     sort (remdups (filter (\<lambda>d. \<not> (\<exists>b. device_block s now ids d = Some b \<and> fst b = ''serial_conflict'')) ids))"

lemma classified_iff: "(d, b) \<in> set (classified s now xs) \<longleftrightarrow> d \<in> set xs \<and> device_block s now xs d = Some b"
  by (auto simp: classified_def map_filter_def image_iff)

lemma undisputed:
  "filter (\<lambda>d. d \<notin> fst ` set (with_reason (\<lambda>r. r = ''serial_conflict'') (classified s now xs))) xs
     = filter (\<lambda>d. \<not> (\<exists>b. device_block s now xs d = Some b \<and> fst b = ''serial_conflict'')) xs"
  by (rule filter_cong [OF refl]) (force simp: with_reason_def classified_iff)

lemma undisputed_host:
  assumes "with_reason (\<lambda>r. r \<in> set FATAL_DISPATCH_REASONS) (classified s now xs) = []" "d \<in> set xs"
  shows "device_host s d = Some (target_host s d)"
proof -
  have "\<not> (\<exists>b. device_block s now xs d = Some b \<and> fst b \<in> {''not_found'', ''no_host''})"
  proof
    assume "\<exists>b. device_block s now xs d = Some b \<and> fst b \<in> {''not_found'', ''no_host''}"
    then obtain b where "(d, b) \<in> set (classified s now xs)" "fst b \<in> set FATAL_DISPATCH_REASONS"
      using assms(2) by (auto simp: classified_iff FATAL_DISPATCH_REASONS_def)
    with assms(1) show False by (force simp: with_reason_def filter_empty_conv)
  qed
  then show ?thesis by (auto simp: device_block_def device_host_def target_host_def split: option.splits)
qed

lemma prepared_tables:
  assumes wf: "queue_wf s" and h: "prepare_plan_run qe p now s = (Inr i, t)"
  defines "ids \<equiv> accepted_devices s now (pi_device_ids p)"
  shows "i \<notin> r_id ` set (runs s)" "jobs t = jobs s" "prhs t = prhs s @ host_groups s i ids"
    "targets_of t i = target_rows s i (host_groups s i ids) ids" "\<forall>d\<in>set ids. device_host s d = Some (target_host s d)"
proof -
  from h obtain plan bs snap ctx js where js: "js = filter (\<lambda>d. d \<notin> fst ` set (with_reason (\<lambda>r. r = ''serial_conflict'') (classified s now (pi_device_ids p)))) (pi_device_ids p)"
    and nofatal: "with_reason (\<lambda>r. r \<in> set FATAL_DISPATCH_REASONS) (classified s now (pi_device_ids p)) = []"
    and q: "prepare_queued_plan_run qe p plan js bs snap ctx now s = (Inr i, t)"
    by (rule prepare_lifecycle) blast
  have ids: "sort (remdups js) = ids" unfolding ids_def accepted_devices_def js undisputed ..
  have i: "i = next_serial (map r_id (runs s))" and t: "targets t = targets s @ target_rows s i (host_groups s i ids) ids"
    "prhs t = prhs s @ host_groups s i ids" "jobs t = jobs s"
    using q ids by (auto simp: prepare_queued_plan_run_def Let_def split: if_splits)
  show fresh: "i \<notin> r_id ` set (runs s)" using next_serial_fresh [of i "map r_id (runs s)"] i by auto
  have "filter (\<lambda>x. tg_plan_run_id x = i) (targets s) = []"
    using wf fresh by (fastforce simp: queue_wf_def filter_empty_conv)
  then have "targets_of t i = targets_of (s\<lparr>targets := target_rows s i (host_groups s i ids) ids\<rparr>) i" by (simp add: targets_of_def t(1))
  then show "targets_of t i = target_rows s i (host_groups s i ids) ids" by (simp only: target_rows_of)
  show "jobs t = jobs s" "prhs t = prhs s @ host_groups s i ids" by (fact t)+
  have "set ids = set js" using ids by auto
  then show "\<forall>d\<in>set ids. device_host s d = Some (target_host s d)" using undisputed_host [OF nofatal] js by auto
qed

text \<open>
  C31. Preparing a run gives it a fresh id, one target row per accepted device, in order and without
  duplicates, each with the host the device is on and a host group of that host, whose counts add up to
  the targets; no job is created.
\<close>

theorem prepared_targets:
  assumes wf: "queue_wf s" and h: "prepare_plan_run qe p now s = (Inr i, t)"
  shows "i \<notin> r_id ` set (runs s) \<and> jobs t = jobs s
    \<and> map tg_device_id (targets_of t i) = accepted_devices s now (pi_device_ids p)
    \<and> list_all (\<lambda>x. device_host s (tg_device_id x) = Some (tg_host_id_snapshot x)
        \<and> tg_host_id_snapshot x \<in> set (map p_host_id (filter (\<lambda>g. p_plan_run_id g = i) (prhs t)))) (targets_of t i)
    \<and> (\<Sum>g\<leftarrow>filter (\<lambda>g. p_plan_run_id g = i) (drop (length (prhs s)) (prhs t)). p_device_count g) = int (length (targets_of t i))"
proof -
  let ?ids = "accepted_devices s now (pi_device_ids p)"
  let ?gs = "host_groups s i ?ids"
  note t = prepared_tables [OF wf h]
  have mine: "filter (\<lambda>g. p_plan_run_id g = i) ?gs = ?gs" using host_groups_fields(3) [of s i ?ids] by simp
  have ds: "map tg_device_id (targets_of t i) = ?ids" unfolding t(4) target_row_fields(1) ..
  have "(\<Sum>g\<leftarrow>?gs. p_device_count g) = int (length ?ids)"
    unfolding host_groups_fields(2) by (rule sum_groups) simp_all
  then have sum: "(\<Sum>g\<leftarrow>filter (\<lambda>g. p_plan_run_id g = i) (drop (length (prhs s)) (prhs t)). p_device_count g) = int (length (targets_of t i))"
    using arg_cong [OF ds, of length] by (simp add: t(3) mine)
  have "list_all (\<lambda>x. device_host s (tg_device_id x) = Some (tg_host_id_snapshot x)
        \<and> tg_host_id_snapshot x \<in> set (map p_host_id (filter (\<lambda>g. p_plan_run_id g = i) (prhs t)))) (targets_of t i)"
    unfolding list_all_iff
  proof (intro ballI conjI)
    fix x assume x: "x \<in> set (targets_of t i)"
    then have d: "tg_device_id x \<in> set ?ids" using arg_cong [OF ds, of set] by auto
    have snap: "tg_host_id_snapshot x = target_host s (tg_device_id x)" using x target_row_fields(2) t(4) by auto
    show "device_host s (tg_device_id x) = Some (tg_host_id_snapshot x)" using t(5) d snap by simp
    have "target_host s (tg_device_id x) \<in> set (map p_host_id ?gs)" unfolding host_groups_fields(1) using d by auto
    then show "tg_host_id_snapshot x \<in> set (map p_host_id (filter (\<lambda>g. p_plan_run_id g = i) (prhs t)))"
      using mine unfolding t(3) filter_append snap by (simp del: set_filter)
  qed
  then show ?thesis using t(1,2) ds sum by simp
qed

lemma prepared_targets_witness:
  "map tg_device_id (targets_of queued_db 1) = accepted_devices queue_db 100 [6, 5] \<and> accepted_devices queue_db 100 [6, 5] = [5, 6]"
proof
  show "map tg_device_id (targets_of queued_db 1) = accepted_devices queue_db 100 [6, 5]"
    using prepared_targets [OF queue_db_wf sample_prepared] by (simp add: queue_request_def)
  have "device_block queue_db 100 [6, 5] 5 = None" "device_block queue_db 100 [6, 5] 6 = None" by code_simp+
  then show "accepted_devices queue_db 100 [6, 5] = [5, 6]" by (simp add: accepted_devices_def)
qed

subsection \<open>WiFi pools\<close>

lemma materialized_allocations:
  assumes "materialize_jobs_and_allocations run lc ds host_of suite now s = Inr t"
  obtains as new where "as = [] \<or> (\<exists>pool. sync_allocate_devices ds ''wifi'' pool host_of s = Inr as)"
    "jobs t = jobs s @ new" "allocations t = allocations s @ sync_create_allocations as (map (\<lambda>j. (j_id j, j_device_id j)) new)"
    "admitted_jobs (r_id run) host_of (next_serial (map j_id (jobs s))) ds new" "pools t = pools s"
proof -
  let ?n = "next_serial (map j_id (jobs s))"
  from assms obtain as sp lcs where c: "collect (device_lifecycle as sp lc) ds = Inr lcs"
    and as: "as = [] \<or> (\<exists>pool. sync_allocate_devices ds ''wifi'' pool host_of s = Inr as)"
    and t: "t = (let new = map (\<lambda>(i, did, lc). new_job i run did (host_of did) lc now) (List.enumerate ?n lcs)
            in s\<lparr>jobs := jobs s @ new, allocations := allocations s @ sync_create_allocations as
                  (map (\<lambda>j. (j_id j, j_device_id j)) new)\<rparr>)"
    unfolding materialize_jobs_and_allocations_def Let_def by (auto split: sum.splits option.splits if_splits)
  have "map fst lcs = ds" by (rule collect_fst [OF device_lifecycle_fst c])
  from new_jobs_admitted [OF this, of run host_of ?n now] t as that show thesis by (simp add: Let_def)
qed

lemma created_allocations:
  assumes "map j_device_id new = map fst as" "\<forall>(d, v)\<in>set as. map_of AS d = Some v"
  shows "length (filter (\<lambda>a. ra_resource_pool_id a = i) (sync_create_allocations AS (map (\<lambda>j. (j_id j, j_device_id j)) new)))
     = assigned_to i as"
  using assms
proof (induction as arbitrary: new)
  case Nil
  then show ?case by (simp add: sync_create_allocations_def map_filter_def assigned_to_def)
next
  case (Cons x as)
  obtain d p y where x: "x = (d, p, y)" by (cases x)
  from Cons.prems x obtain j js where new: "new = j # js" "j_device_id j = d" "map j_device_id js = map fst as"
    by (cases new) auto
  from Cons.IH [OF new(3)] Cons.prems(2) x new(1,2) show ?case
    by (simp add: sync_create_allocations_def map_filter_simps assigned_to_def)
qed

lemma allocated_fits:
  assumes "sync_allocate_devices ds ''wifi'' pool host_of s = Inr as" "distinct ds" "distinct (map rp_id (pools s))" "p \<in> set (pools s)"
  shows "map fst as = ds \<and> (assigned_to (rp_id p) as = 0
     \<or> pool_load s (rp_id p) + int (assigned_to (rp_id p) as) \<le> rp_max_concurrent_devices p)"
proof -
  let ?ps = "selectable_pools ''wifi'' pool s"
  let ?el = "\<lambda>d. filter (\<lambda>p. pool_host_group_matches p (load_host_match_keys s (host_of d))) ?ps"
  from assms(1) have "allocate_loop pool ?el ds (pool_load s) [] = Inr as"
    by (auto simp: sync_allocate_devices_def Let_def split: if_splits)
  from allocate_loop_run [OF this assms(2)] have m: "map fst as = ds" "fits ?el (pool_load s) as" by auto
  have "q = p" if "q \<in> set (?el d)" "rp_id q = rp_id p" for q d
    using that assms(3,4) by (auto simp: selectable_pools_def dest: distinct_map_single)
  with m show ?thesis unfolding fits_def by metis
qed

text \<open>
  C28. Materializing a run never overbooks a WiFi pool: its active allocations stay within its capacity,
  or where they were if the capacity was lowered below them.
\<close>

theorem wifi_pools_not_overbooked:
  assumes m: "materialize_jobs_and_allocations run lc ds host_of suite now s = Inr t" and ds: "distinct ds"
    and fk: "list_all (\<lambda>a. ra_job_instance_id a \<in> j_id ` set (jobs s)) (allocations s)"
    and p: "distinct (map rp_id (pools s))" "p \<in> set (pools s)"
  shows "pool_load t (rp_id p) \<le> max (pool_load s (rp_id p)) (rp_max_concurrent_devices p)"
  using m
proof (rule materialized_allocations)
  fix as and new :: "job_row list"
  let ?i = "rp_id p" and ?n = "next_serial (map j_id (jobs s))"
  let ?new = "sync_create_allocations as (map (\<lambda>j. (j_id j, j_device_id j)) new)"
  assume a: "as = [] \<or> (\<exists>pool. sync_allocate_devices ds ''wifi'' pool host_of s = Inr as)"
    and t: "jobs t = jobs s @ new" "allocations t = allocations s @ ?new"
    and adm: "admitted_jobs (r_id run) host_of ?n ds new"
  let ?live = "\<lambda>u x. list_ex (\<lambda>j. j_id j = ra_job_instance_id x \<and> active_job j) (jobs u)"
  have ids: "j_id ` set new = {?n..<?n + length new}"
  proof -
    have "map j_id new = [?n..<?n + length new]" using adm by (simp add: admitted_jobs_def)
    from arg_cong [OF this, of set] show ?thesis by simp
  qed
  have "?live t x = ?live s x" if "x \<in> set (allocations s)" for x
  proof -
    have "ra_job_instance_id x < ?n"
      using fk that next_serial_fresh [of "ra_job_instance_id x" "map j_id (jobs s)"] by (auto simp: list_all_iff)
    then have "ra_job_instance_id x \<notin> j_id ` set new" unfolding ids by simp
    then have "\<forall>j\<in>set new. j_id j \<noteq> ra_job_instance_id x" by (metis imageI)
    then show ?thesis by (auto simp: t(1) list_ex_iff)
  qed
  then have old: "filter (\<lambda>x. ra_resource_pool_id x = ?i \<and> ?live t x) (allocations s)
      = filter (\<lambda>x. ra_resource_pool_id x = ?i \<and> ?live s x) (allocations s)" by (intro filter_cong) auto
  have "length (filter (\<lambda>x. ra_resource_pool_id x = ?i \<and> ?live t x) ?new) \<le> length (filter (\<lambda>x. ra_resource_pool_id x = ?i) ?new)"
    unfolding filter_filter [symmetric] by (rule length_filter_le)
  then have le: "pool_load t ?i \<le> pool_load s ?i + int (length (filter (\<lambda>x. ra_resource_pool_id x = ?i) ?new))"
    unfolding pool_load_def t(2) filter_append length_append old by simp
  from a show "pool_load t ?i \<le> max (pool_load s ?i) (rp_max_concurrent_devices p)"
  proof
    assume "as = []"
    then have "?new = []" by (auto simp: sync_create_allocations_def map_filter_def filter_empty_conv)
    with le show ?thesis by simp
  next
    assume "\<exists>pool. sync_allocate_devices ds ''wifi'' pool host_of s = Inr as"
    then obtain pool where "sync_allocate_devices ds ''wifi'' pool host_of s = Inr as" ..
    from allocated_fits [OF this ds p] have f: "map fst as = ds"
      "assigned_to ?i as = 0 \<or> pool_load s ?i + int (assigned_to ?i as) \<le> rp_max_concurrent_devices p" by blast+
    have "map j_device_id new = map fst as" using adm f(1) by (simp add: admitted_jobs_def)
    moreover have "\<forall>(d, v)\<in>set as. map_of as d = Some v" using ds f(1) by (auto intro: map_of_is_SomeI)
    ultimately have "length (filter (\<lambda>x. ra_resource_pool_id x = ?i) ?new) = assigned_to ?i as" by (rule created_allocations)
    with le f(2) show ?thesis by (elim disjE) simp_all
  qed
qed

definition wifi_db :: db where
  "wifi_db = queued_db\<lparr>pools := [site_pool\<lparr>rp_max_concurrent_devices := 2\<rparr>]\<rparr>"

lemma wifi_pools_not_overbooked_witness:
  "\<exists>t. materialize_jobs_and_allocations (the (get_run queued_db 1)) sample_lifecycle [5, 6] (device_host wifi_db) Some 120 wifi_db = Inr t
     \<and> pool_load t 1 \<le> 2"
proof -
  let ?m = "materialize_jobs_and_allocations (the (get_run queued_db 1)) sample_lifecycle [5, 6] (device_host wifi_db) Some 120 wifi_db"
  have "\<not> isl ?m" by code_simp
  then obtain t where t: "?m = Inr t" by (cases ?m) simp_all
  have fk: "list_all (\<lambda>a. ra_job_instance_id a \<in> j_id ` set (jobs wifi_db)) (allocations wifi_db)"
    "distinct (map rp_id (pools wifi_db))" by code_simp+
  have "pool_load wifi_db 1 = 0" by code_simp
  with wifi_pools_not_overbooked [OF t _ fk, of "site_pool\<lparr>rp_max_concurrent_devices := 2\<rparr>"] t
  show ?thesis by (simp add: wifi_db_def site_pool_def)
qed

end
