(* ===== verification/Chain_Properties.thy ===== *)
theory Chain_Properties
  imports Queue_Properties
begin

section \<open>Properties of the chain\<close>

text \<open>
  What the plan chain, the side-effect block and the sweep guarantee, and where the reconciler of the
  chains does not; the example is a run that ended well, with one completed and one failed job.
\<close>

subsection \<open>An example\<close>

definition ended_run :: "nat \<Rightarrow> run_row" where
  "ended_run i = (hd (runs claim_db))\<lparr>r_id := i, r_status := R_SUCCESS, r_ended_at := Some 100, r_plan_id := 1,
     r_plan_snapshot := JObj [(''plan'', JObj [(''next_plan_id'', JInt 2)])]\<rparr>"

definition chain_db :: db where
  "chain_db = queue_db\<lparr>runs := [ended_run 1],
     jobs := [sample_job\<lparr>j_id := 1, j_plan_run_id := 1, j_device_id := 6, j_status := J_COMPLETED\<rparr>,
              sample_job\<lparr>j_id := 2, j_plan_run_id := 1, j_status := J_FAILED\<rparr>]\<rparr>"

definition sample_chain_cfg :: chain_cfg where
  "sample_chain_cfg = \<lparr>cc_settle_seconds = 180, cc_ready_gate = True, cc_heartbeat_timeout = 120, cc_batch = 1,
     cc_error_text = (\<lambda>_. [])\<rparr>"

definition chained_db :: db where
  "chained_db = snd (trigger_next_plan_sync sample_queue_env sample_chain_cfg 1 True 300 chain_db)"

lemma sample_triggered: "trigger_next_plan_sync sample_queue_env sample_chain_cfg 1 True 300 chain_db = (Some 2, chained_db)"
proof -
  have "fst (trigger_next_plan_sync sample_queue_env sample_chain_cfg 1 True 300 chain_db) = Some 2" by code_simp
  then show ?thesis by (simp add: chained_db_def prod_eq_iff)
qed

lemma chain_db_wf: "queue_wf chain_db" "chain_wf chain_db"
  by (simp_all add: queue_wf_def chain_wf_def chain_ok_def chain_db_def queue_db_def sample_db_def ended_run_def claim_db_def
      sample_job_def one_active_job_def active_job_def ACTIVE_JOB_STATUSES_def List.map_filter_def waiting_def)

subsection \<open>Every run of the system\<close>



subsection \<open>The child of a run\<close>

lemma chain_rows_in:
  "(j, v) \<in> set (chain_rows s i) \<longleftrightarrow> j \<in> set (jobs s) \<and> j_plan_run_id j = i \<and> get_device s (j_device_id j) = Some v"
  by (auto simp: chain_rows_def List.map_filter_def image_iff)

lemma completed_selected:
  assumes "j \<in> set (jobs s)" "j_plan_run_id j = i" "j_status j = J_COMPLETED" "get_device s (j_device_id j) = Some v" "d_retired_at v = None"
  shows "j_device_id j \<in> set (fst (select_chain_devices g now (chain_rows s i)))"
proof -
  have "(j, v) \<in> set (filter (chain_fit (now - g)) (chain_rows s i))"
    using assms by (simp add: chain_rows_in chain_fit_def)
  then show ?thesis by (force simp: select_chain_devices_def Let_def)
qed

lemma retired_not_selected:
  assumes "d \<in> set (fst (select_chain_devices g now (chain_rows s i)))"
  shows "\<exists>v. get_device s d = Some v \<and> d_retired_at v = None"
proof -
  from assms obtain j v where "(j, v) \<in> set (chain_rows s i)" "chain_fit (now - g) (j, v)" "d = j_device_id j"
    by (auto simp: select_chain_devices_def Let_def)
  then show ?thesis by (auto simp: chain_rows_in chain_fit_def)
qed

lemma create_made:
  assumes h: "create_chain_child qe cfg parent plan_id now s = (Some k, t)"
  obtains ids ex u where "select_chain_devices (cc_heartbeat_timeout cfg) now (chain_rows s (r_id parent)) = (ids, ex)"
    "prepare_plan_run qe (chain_request parent plan_id ids ex now) now s = (Inr k, u)" "t = set_triggered True (r_id parent) u"
  using h unfolding create_chain_child_def by (auto split: prod.splits if_splits sum.splits)

lemma trigger_new:
  assumes h: "trigger_next_plan_sync qe cfg i respect now s = (Some k, t)" and new: "k \<notin> r_id ` set (runs s)"
  obtains parent plan_id where "get_run s i = Some parent" "r_status parent \<in> set TRIGGERABLE_TERMINAL_STATUSES"
    "resolve_next_plan_id parent s = Some plan_id" "create_chain_child qe cfg parent plan_id now s = (Some k, t)"
proof -
  have old: "r_id c \<noteq> k" if "chain_child s i p = Some c" for c p
    using first_row_filterD [OF that [unfolded chain_child_def]] new by auto
  show thesis
    using h that old unfolding trigger_next_plan_sync_def by (auto split: option.splits if_splits)
qed

lemma prepared_child:
  assumes "prepare_plan_run qe p now s = (Inr k, u)"
  shows "\<exists>child. get_run u k = Some child \<and> r_status child = R_QUEUED \<and> r_plan_id child = pi_plan_id p
    \<and> r_parent_id child = pi_parent_id p \<and> r_root_id child = pi_root_id p
    \<and> r_chain_index child = (case pi_chain_index p of None \<Rightarrow> 0 | Some n \<Rightarrow> n)"
  using assms
proof (rule prepare_lifecycle)
  fix plan :: plan_row and ids bs lc ctx
  let ?snap = "build_plan_snapshot plan (plan_steps_of s (pl_id plan)) (fetch_script_metadata s)"
  assume p: "first_row (filter (\<lambda>r. pl_id r = pi_plan_id p) (plans s)) = Some plan"
    and q: "prepare_queued_plan_run qe p plan ids bs ?snap ctx now s = (Inr k, u)"
  from prepare_queued_run [OF q] first_row_filterD [OF p] show ?thesis
    by (intro exI [of _ "queued_run qe p plan (sort (remdups ids)) bs ?snap ctx now s"]) (simp add: queued_run_def)
qed

lemma set_triggered_run:
  "get_run (set_triggered b i s) k = (if k = i then map_option (\<lambda>r. r\<lparr>r_next_plan_triggered := b\<rparr>) (get_run s k) else get_run s k)"
  unfolding set_triggered_def by (auto simp: get_run_upd_run get_run_other)

lemma appended_run: "get_run s i = Some r \<Longrightarrow> runs t = runs s @ rs \<Longrightarrow> get_run t i = Some r"
  by (auto simp: get_run_def first_row_append)



subsection \<open>A trigger is never lost silently\<close>

lemma only_child:
  assumes "distinct (List.map_filter r_parent_id rs)" "x \<in> set rs" "y \<in> set rs" "r_parent_id x = Some p" "r_parent_id y = Some p"
  shows "x = y"
  using assms by (auto simp: List.map_filter_def distinct_map inj_on_def)

lemma child_known:
  assumes ok: "chain_wf t" and run: "get_run t i = Some parent" "r_status parent \<in> set TRIGGERABLE_TERMINAL_STATUSES"
    and ch: "get_run t k = Some child" "r_parent_id child = Some i"
  shows "reconcile_chain_trigger_sync qe cfg i now t = (Some k, t)"
proof -
  from get_run_Some [OF ch(1)] have c: "child \<in> set (runs t)" "r_id child = k" by simp_all
  then have par: "Some i \<in> r_parent_id ` set (runs t)" using ch(2) by force
  then obtain x where x: "any_child t i = Some x" using no_child [of t i] by auto
  then have "x \<in> set (runs t)" "r_parent_id x = Some i"
    using first_row_Some [of "sort_key r_id (filter (\<lambda>r. r_parent_id r = Some i) (runs t))" x] by (auto simp: any_child_def)
  with only_child [of "runs t" x child i] c(1) ch(2) ok have "x = child" by (simp add: chain_wf_def chain_ok_def)
  with x run c(2) par flag_child [OF ok run(1)] show ?thesis by (simp add: reconcile_chain_trigger_sync_def)
qed

lemma create_outcome:
  assumes h: "create_chain_child qe cfg parent plan_id now s = (c, t)" and run: "get_run s i = Some parent"
  shows "(\<exists>k. c = Some k) \<or> c = None \<and> fst (select_chain_devices (cc_heartbeat_timeout cfg) now (chain_rows s i)) = []
    \<or> c = None \<and> (\<exists>err. t = rollback_chain_trigger i err now s)"
proof -
  have i: "r_id parent = i" using get_run_Some [OF run] by simp
  from h show ?thesis unfolding create_chain_child_def i by (auto split: prod.splits sum.splits if_splits)
qed

lemma failure_noted:
  assumes "get_run s i = Some parent"
  shows "\<exists>parent'. get_run (rollback_chain_trigger i err now s) i = Some parent'
    \<and> jget (obj_or_empty (r_result_summary parent')) ''chain_dispatch_failed'' \<noteq> JNull"
proof -
  have id: "r_id parent = i" using get_run_Some [OF assms] by simp
  have f: "jget (obj_or_empty (r_result_summary (record_chain_dispatch_failure e b now r))) ''chain_dispatch_failed'' \<noteq> JNull" for e b r
    by (simp add: record_chain_dispatch_failure_def jget_update)
  have m: "r_result_summary (mark_chain_gap_signaled m z now r) = r_result_summary r" for m z r
    by (simp add: mark_chain_gap_signaled_def)
  obtain b m where "rollback_chain_trigger i err now s = upd_run i (record_chain_dispatch_failure err b now) s
      \<or> rollback_chain_trigger i err now s
        = upd_run i (mark_chain_gap_signaled m ''dispatch_failed'' now) (upd_run i (record_chain_dispatch_failure err b now) s)"
    unfolding rollback_chain_trigger_def Let_def assms option.case by (cases "\<not> (case resolve_next_plan_id parent s of None \<Rightarrow> False | Some p \<Rightarrow> chain_child s i p \<noteq> None) \<and> chain_missing_segments parent s > 0") (simp_all, blast+)
  then show ?thesis using f m assms by (auto simp: get_run_upd_run)
qed



subsection \<open>The reconciler can be starved\<close>

definition chain_view :: "run_row \<Rightarrow> nat \<times> plan_run_status \<times> json \<times> nat option" where
  \<comment> \<open>what the reconciler selects by, but for the flag\<close>
  "chain_view r = (r_id r, r_status r, r_plan_snapshot r, r_parent_id r)"

definition dead_end :: "db \<Rightarrow> nat \<Rightarrow> bool" where
  \<comment> \<open>a parent without child whose devices are all retired\<close>
  "dead_end s i \<longleftrightarrow> any_child s i = None \<and> (\<forall>(j, v)\<in>set (chain_rows s i). d_retired_at v \<noteq> None)"

definition noted :: "nat \<Rightarrow> db \<Rightarrow> db \<Rightarrow> bool" where
  "noted i s t \<longleftrightarrow> (\<exists>f. (\<forall>r. chain_view (f r) = chain_view r) \<and> t = upd_run i f s)"

lemma upd_run_same: "upd_run i (\<lambda>r. r) s = s"
  by (simp add: upd_run_def upd_where_def)

lemma noted_refl: "noted i s s"
  unfolding noted_def by (rule exI [of _ "\<lambda>r. r"]) (simp add: upd_run_same)

lemma noted_trans: "noted i s t \<Longrightarrow> noted i t u \<Longrightarrow> noted i s u"
proof -
  assume "noted i s t" "noted i t u"
  then obtain f g where f: "\<forall>r. chain_view (f r) = chain_view r" and g: "\<forall>r. chain_view (g r) = chain_view r"
    and t: "t = upd_run i f s" and u: "u = upd_run i g t" unfolding noted_def by blast
  have id: "r_id (f r) = r_id r" for r using f by (simp add: chain_view_def)
  have "upd_run i g (upd_run i f s) = upd_run i (\<lambda>r. g (f r)) s" by (simp add: upd_run_def upd_where_def id)
  with f g t u show "noted i s u" unfolding noted_def by (intro exI [of _ "\<lambda>r. g (f r)"]) simp
qed

lemma noted_upd: "(\<And>r. chain_view (f r) = chain_view r) \<Longrightarrow> noted i s (upd_run i f s)"
  unfolding noted_def by blast

lemma noted_frame:
  assumes "noted i s t"
  shows "jobs t = jobs s" "devices t = devices s" "plans t = plans s" "map chain_view (runs t) = map chain_view (runs s)"
    "map r_id (runs t) = map r_id (runs s)" "k \<noteq> i \<Longrightarrow> get_run t k = get_run s k" "any_child t k = None \<longleftrightarrow> any_child s k = None"
    "chain_rows t k = chain_rows s k"
proof -
  from assms obtain f where f: "\<And>r. chain_view (f r) = chain_view r" and t: "t = upd_run i f s" unfolding noted_def by blast
  have id: "r_id (f r) = r_id r" "r_parent_id (f r) = r_parent_id r" for r using f [of r] by (simp_all add: chain_view_def)
  show "jobs t = jobs s" "devices t = devices s" "plans t = plans s" by (simp_all add: t upd_run_def)
  then show "chain_rows t k = chain_rows s k" by (simp add: chain_rows_def get_device_def)
  show "map chain_view (runs t) = map chain_view (runs s)" by (simp add: t upd_run_def map_upd_where f)
  show "map r_id (runs t) = map r_id (runs s)" by (simp add: t upd_run_def map_upd_where id)
  have "map r_parent_id (runs t) = map r_parent_id (runs s)" by (simp add: t upd_run_def map_upd_where id)
  from arg_cong [OF this, of set] show "any_child t k = None \<longleftrightarrow> any_child s k = None" by (simp add: no_child)
  show "get_run t k = get_run s k" if "k \<noteq> i" using that by (simp add: t get_run_other id)
qed

lemma dead_end_stays: "noted i s t \<Longrightarrow> dead_end t k \<longleftrightarrow> dead_end s k"
  by (simp add: dead_end_def noted_frame(7,8))

lemma flag_noted: "noted i s (set_triggered b i s)"
  unfolding set_triggered_def by (rule noted_upd) (simp add: chain_view_def)

lemma dead_end_selects_none: "dead_end s i \<Longrightarrow> fst (select_chain_devices g now (chain_rows s i)) = []"
  by (auto simp: dead_end_def select_chain_devices_def Let_def chain_fit_def filter_empty_conv)

lemma dead_end_create:
  assumes "dead_end s i" "r_id parent = i"
  shows "fst (create_chain_child qe cfg parent plan_id now s) = None \<and> noted i s (snd (create_chain_child qe cfg parent plan_id now s))"
proof -
  obtain ex where "select_chain_devices (cc_heartbeat_timeout cfg) now (chain_rows s i) = ([], ex)"
    using dead_end_selects_none [OF assms(1), of "cc_heartbeat_timeout cfg" now] by (metis prod.collapse)
  then show ?thesis using assms(2)
    by (simp add: create_chain_child_def noted_refl noted_upd chain_view_def mark_chain_gap_signaled_def)
qed

lemma dead_end_trigger:
  assumes d: "dead_end s i"
  shows "fst (trigger_next_plan_sync qe cfg i respect now s) = None \<and> noted i s (snd (trigger_next_plan_sync qe cfg i respect now s))"
proof (cases "get_run s i")
  case None
  then show ?thesis by (simp add: trigger_next_plan_sync_def noted_refl)
next
  case (Some parent)
  have "chain_child s i p = None" for p
    using d by (force simp: dead_end_def no_child chain_child_def filter_empty_conv image_iff)
  with Some dead_end_create [OF d, of parent] get_run_Some [OF Some] show ?thesis
    by (simp add: trigger_next_plan_sync_def noted_refl split: option.split)
qed

lemma dead_end_reconcile:
  assumes d: "dead_end s i"
  shows "fst (reconcile_chain_trigger_sync qe cfg i now s) = None \<and> noted i s (snd (reconcile_chain_trigger_sync qe cfg i now s))"
proof (cases "get_run s i")
  case None
  then show ?thesis by (simp add: reconcile_chain_trigger_sync_def noted_refl)
next
  case (Some parent)
  let ?s = "if r_next_plan_triggered parent then set_triggered False i s else s"
  have n: "noted i s ?s" by (simp add: flag_noted noted_refl)
  have "dead_end ?s i" using dead_end_stays [OF n] d by blast
  note dead_end_trigger [OF this, of qe cfg True now]
  with noted_trans [OF n] Some d show ?thesis
    by (simp add: reconcile_chain_trigger_sync_def noted_refl dead_end_def)
qed

lemma candidates_stay:
  assumes n: "noted i s t" and d: "dead_end s i"
  shows "chain_candidates cfg t = chain_candidates cfg s"
proof -
  from n obtain f where f: "\<And>r. chain_view (f r) = chain_view r" and t: "t = upd_run i f s" unfolding noted_def by blast
  let ?P = "\<lambda>u r. r_status r \<in> set TRIGGERABLE_TERMINAL_STATUSES
        \<and> (case next_plan_id_from_snapshot r of None \<Rightarrow> False | Some v \<Rightarrow> plan_ref v \<noteq> None)
        \<and> (\<not> r_next_plan_triggered r \<or> any_child u (r_id r) = None)"
  have id: "r_id (f r) = r_id r" "r_status (f r) = r_status r" "r_plan_snapshot (f r) = r_plan_snapshot r" for r
    using f [of r] by (simp_all add: chain_view_def)
  have no: "any_child s i = None" using d by (simp add: dead_end_def)
  have "map r_id (filter (?P t) (upd_where (\<lambda>r. r_id r = i) f rs)) = map r_id (filter (?P s) rs)" for rs
    by (induction rs) (auto simp: upd_where_Cons id noted_frame(7) [OF n] no next_plan_id_from_snapshot_def)
  then show ?thesis by (simp add: chain_candidates_def t upd_run_def)
qed

definition starved :: "chain_cfg \<Rightarrow> nat set \<Rightarrow> db \<Rightarrow> db \<Rightarrow> bool" where
  \<comment> \<open>nothing but notes on the dead ends \<open>D\<close>\<close>
  "starved cfg D s t \<longleftrightarrow> chain_candidates cfg t = chain_candidates cfg s \<and> (\<forall>k. dead_end t k \<longleftrightarrow> dead_end s k)
     \<and> (\<forall>k. k \<notin> D \<longrightarrow> get_run t k = get_run s k) \<and> map r_id (runs t) = map r_id (runs s)"

lemma noted_starved: "noted i s t \<Longrightarrow> dead_end s i \<Longrightarrow> i \<in> D \<Longrightarrow> starved cfg D s t"
  unfolding starved_def using candidates_stay dead_end_stays noted_frame(5,6) by metis

lemma starved_trans: "starved cfg D s t \<Longrightarrow> starved cfg D t u \<Longrightarrow> starved cfg D s u"
  by (simp add: starved_def)

lemma batch_starved:
  assumes "\<forall>i\<in>set is. dead_end s i" "set is \<subseteq> D"
  shows "set (fst (run_batch (\<lambda>i u. if False then (None, u) else reconcile_chain_trigger_sync qe cfg i now u) is s)) \<subseteq> {None}
    \<and> starved cfg D s (snd (run_batch (\<lambda>i u. if False then (None, u) else reconcile_chain_trigger_sync qe cfg i now u) is s))"
  using assms
proof (induction "is" arbitrary: s)
  case Nil
  then show ?case by (simp add: starved_def)
next
  case (Cons i "is")
  let ?f = "\<lambda>i u. if False then (None, u) else reconcile_chain_trigger_sync qe cfg i now u"
  obtain c u where u: "reconcile_chain_trigger_sync qe cfg i now s = (c, u)" by fastforce
  from dead_end_reconcile [of s i qe cfg now] Cons.prems u have c: "c = None" and n: "noted i s u" by simp_all
  from noted_starved [OF n] Cons.prems have su: "starved cfg D s u" by simp
  with Cons.prems have "\<forall>i\<in>set is. dead_end u i" by (simp add: starved_def)
  from Cons.IH [OF this] Cons.prems(2) c u starved_trans [OF su] show ?case
    by (cases "run_batch ?f is u") simp
qed

definition reconcile_passes :: "queue_env \<Rightarrow> chain_cfg \<Rightarrow> time list \<Rightarrow> db \<Rightarrow> db" where
  "reconcile_passes qe cfg nows s = fold (\<lambda>now u. snd (reconcile_plan_chains qe cfg (\<lambda>_. False) now u)) nows s"

text \<open>
  C23. The reconciler of the chains can be starved for good: once the oldest candidates that fill its batch
  are dead ends, no number of passes continues any other parent or creates any run, however ready it is.
\<close>

theorem chain_reconciler_starves:
  assumes dead: "\<forall>i\<in>set (chain_candidates cfg s). dead_end s i" and k: "k \<notin> set (chain_candidates cfg s)"
  shows "get_run (reconcile_passes qe cfg nows s) k = get_run s k
    \<and> map r_id (runs (reconcile_passes qe cfg nows s)) = map r_id (runs s)"
proof -
  have "starved cfg (set (chain_candidates cfg s)) s (reconcile_passes qe cfg nows s)"
    using dead
  proof (induction nows arbitrary: s)
    case Nil
    then show ?case by (simp add: reconcile_passes_def starved_def)
  next
    case (Cons now nows)
    let ?u = "snd (reconcile_plan_chains qe cfg (\<lambda>_. False) now s)"
    from batch_starved [OF Cons.prems order_refl] have u: "starved cfg (set (chain_candidates cfg s)) s ?u"
      by (simp add: reconcile_plan_chains_def)
    then have c: "chain_candidates cfg ?u = chain_candidates cfg s" and "\<forall>i\<in>set (chain_candidates cfg ?u). dead_end ?u i"
      using Cons.prems by (simp_all add: starved_def)
    from Cons.IH [OF this(2)] starved_trans [OF u] show ?case unfolding c by (simp add: reconcile_passes_def)
  qed
  with k show ?thesis by (simp add: starved_def)
qed

definition starved_db :: db where
  \<comment> \<open>run 1 is a dead end, run 2 is ready\<close>
  "starved_db = chain_db\<lparr>runs := [ended_run 1, ended_run 2],
     devices := map (\<lambda>v. if d_id v = 5 then v\<lparr>d_retired_at := Some 90\<rparr> else v) (devices chain_db),
     jobs := [sample_job\<lparr>j_id := 1, j_plan_run_id := 1, j_status := J_COMPLETED\<rparr>,
              sample_job\<lparr>j_id := 2, j_plan_run_id := 2, j_device_id := 6, j_status := J_COMPLETED\<rparr>]\<rparr>"

lemma chain_reconciler_starves_witness:
  "get_run (reconcile_passes sample_queue_env sample_chain_cfg [300, 360, 420] starved_db) 2 = get_run starved_db 2
     \<and> fst (reconcile_chain_trigger_sync sample_queue_env sample_chain_cfg 2 300 starved_db) = Some 3"
proof
  have c: "chain_candidates sample_chain_cfg starved_db = [1]" by code_simp
  have "any_child starved_db 1 = None" by code_simp
  moreover have "list_all (\<lambda>(j, v). d_retired_at v \<noteq> None) (chain_rows starved_db 1)" by code_simp
  ultimately have "dead_end starved_db 1" by (simp add: dead_end_def list_all_iff)
  with chain_reconciler_starves [of sample_chain_cfg starved_db 2 sample_queue_env "[300, 360, 420]"] c
  show "get_run (reconcile_passes sample_queue_env sample_chain_cfg [300, 360, 420] starved_db) 2 = get_run starved_db 2" by simp
  show "fst (reconcile_chain_trigger_sync sample_queue_env sample_chain_cfg 2 300 starved_db) = Some 3" by code_simp
qed

end
