(* ===== verification/Finalization_Properties.thy ===== *)
theory Finalization_Properties
  imports Chain_Properties
begin

section \<open>Properties of aggregation, side effects and sweep\<close>

text \<open>
  A drain with the side-effect block between its rounds brings a finished run to its end in one go, and
  the sweep of the counters repairs what drifted.
\<close>

subsection \<open>What the side-effect block leaves alone\<close>

definition run_core :: "run_row \<Rightarrow> nat \<times> plan_run_status \<times> int \<times> int \<times> int \<times> int \<times> int \<times> string option" where
  "run_core r = (r_id r, r_status r, r_total r, r_terminal r, r_completed r, r_failed r, r_aborted r, r_terminal_effects r)"

definition core_kept :: "db \<Rightarrow> db \<Rightarrow> bool" where
  "core_kept s t \<longleftrightarrow> jobs t = jobs s \<and> pending_aggregation t = pending_aggregation s
     \<and> (\<forall>i r. get_run s i = Some r \<longrightarrow> (\<exists>r'. get_run t i = Some r' \<and> run_core r' = run_core r))"

lemma core_kept_refl: "core_kept s s"
  by (simp add: core_kept_def)

lemma core_kept_trans: "core_kept s t \<Longrightarrow> core_kept t u \<Longrightarrow> core_kept s u"
  unfolding core_kept_def by metis

lemma core_kept_upd:
  assumes "\<And>r. run_core (f r) = run_core r"
  shows "core_kept s (upd_run k f s)"
  unfolding core_kept_def
proof (intro conjI allI impI)
  have id: "r_id (f r) = r_id r" for r using assms [of r] by (simp add: run_core_def)
  fix i r assume "get_run s i = Some r"
  then show "\<exists>r'. get_run (upd_run k f s) i = Some r' \<and> run_core r' = run_core r"
    by (cases "k = i") (simp_all add: get_run_upd_run get_run_other id assms)
qed (simp_all add: upd_run_def)

lemma core_kept_flag: "core_kept s (set_triggered b i s)"
  unfolding set_triggered_def by (rule core_kept_upd) (simp add: run_core_def)

lemma core_kept_gap: "core_kept s (upd_run i (mark_chain_gap_signaled m reason now) s)"
  by (rule core_kept_upd) (simp add: run_core_def mark_chain_gap_signaled_def)

lemma core_kept_failure: "core_kept s (upd_run i (record_chain_dispatch_failure e b now) s)"
  by (rule core_kept_upd) (simp add: run_core_def record_chain_dispatch_failure_def)

lemma core_kept_rollback: "core_kept s (rollback_chain_trigger i err now s)"
  by (rule rollback_as [of i err now s])
     (simp_all add: core_kept_refl core_kept_failure core_kept_trans [OF core_kept_failure core_kept_gap])

lemma core_kept_prepare:
  assumes "prepare_plan_run qe p now s = (Inr k, u)"
  shows "core_kept s u"
proof -
  from prepare_new_run [OF assms] obtain rs where rs: "runs u = runs s @ rs" by blast
  from prepare_db [OF assms refl] obtain plan ids bs snap ctx
    where "prepare_queued_plan_run qe p plan ids bs snap ctx now s = (Inr k, u)" by metis
  then have "jobs u = jobs s" "pending_aggregation u = pending_aggregation s"
    by (auto simp: prepare_queued_plan_run_def Let_def split: if_splits)
  with appended_run [OF _ rs] show ?thesis by (auto simp: core_kept_def)
qed

lemma core_kept_trigger: "core_kept s (snd (trigger_next_plan_sync qe cfg i respect now s))"
proof -
  obtain c t where h: "trigger_next_plan_sync qe cfg i respect now s = (c, t)" by fastforce
  have "core_kept s t"
  proof (rule trigger_cases [OF h])
    fix parent plan_id assume run: "get_run s i = Some parent" and cr: "create_chain_child qe cfg parent plan_id now s = (c, t)"
    have i: "r_id parent = i" using get_run_Some [OF run] by simp
    show ?thesis
      by (rule create_cases [OF cr i])
         (auto simp: core_kept_refl core_kept_gap core_kept_rollback intro: core_kept_trans core_kept_prepare core_kept_flag)
  qed (simp_all add: core_kept_refl core_kept_flag)
  with h show ?thesis by simp
qed

lemma core_kept_announce: "core_kept s (snd (announce_step i nj now s))"
proof (cases "get_run s i")
  case None
  then show ?thesis by (simp add: announce_step_def core_kept_refl)
next
  case (Some run)
  have "run_core (snd (announce_parent_terminal nj now s run)) = run_core run"
    by (simp add: announce_parent_terminal_def emit_parent_chain_gap_signal_def mark_chain_gap_signaled_def run_core_def)
  moreover have id: "r_id (snd (announce_parent_terminal nj now s run)) = i" using get_run_Some [OF Some] by simp
  ultimately have "core_kept s (upd_run i (\<lambda>_. snd (announce_parent_terminal nj now s run)) s)"
    unfolding core_kept_def
  proof (intro conjI allI impI)
    fix k r assume c: "run_core (snd (announce_parent_terminal nj now s run)) = run_core run" and r: "get_run s k = Some r"
    show "\<exists>r'. get_run (upd_run i (\<lambda>_. snd (announce_parent_terminal nj now s run)) s) k = Some r' \<and> run_core r' = run_core r"
      by (cases "k = i") (use c r id Some in \<open>simp_all add: get_run_upd_run get_run_other\<close>)
  qed (simp_all add: upd_run_def)
  with Some show ?thesis by (simp add: announce_step_def split_beta)
qed

lemma block_concludes:
  fixes qe :: queue_env and cfg :: chain_cfg and auto :: bool and now :: time
  assumes run: "get_run s i = Some run" "r_terminal_effects run = Some ''pending''"
  defines "u \<equiv> snd (complete_parent_side_effects_sync qe cfg auto i now s)"
  shows "\<exists>run'. get_run u i = Some run' \<and> run_core run' = run_core (run\<lparr>r_terminal_effects := Some ''done''\<rparr>)
     \<and> jobs u = jobs s \<and> pending_aggregation u = pending_aggregation s"
proof -
  obtain a s1 where s1: "announce_step i False now s = (Some a, s1)" using run(1) by (simp add: announce_step_def split_beta)
  let ?s2 = "snd (trigger_next_plan_sync qe cfg i True now s1)"
  have u: "u = done_step i ?s2" using run s1
    by (simp add: u_def complete_parent_side_effects_sync_def finalize_parent_run_sync_def Let_def)
  have "core_kept s s1" using core_kept_announce [of s i False now] s1 by simp
  from core_kept_trans [OF this core_kept_trigger] have k: "core_kept s ?s2" .
  with run(1) obtain r2 where r2: "get_run ?s2 i = Some r2" "run_core r2 = run_core run" unfolding core_kept_def by blast
  then have "get_run u i = Some (effects_done r2)" by (simp add: u done_step_def get_run_upd_run)
  moreover have "run_core (effects_done r2) = run_core (run\<lparr>r_terminal_effects := Some ''done''\<rparr>)"
    using r2(2) run(2) by (simp add: run_core_def effects_done_def)
  ultimately show ?thesis using k by (simp add: u done_step_def upd_run_def core_kept_def)
qed

subsection \<open>The drain concludes the run\<close>

lemma apply_effects:
  "apply_plan_run_aggregation_from_counters run now = Inr (ap, run') \<Longrightarrow>
   r_terminal_effects run' = (if ap then Some ''pending'' else r_terminal_effects run) \<and> r_id run' = r_id run"
  by (auto simp: apply_plan_run_aggregation_from_counters_def finalize_plan_run_def plan_run_transition_def split: if_splits sum.splits)

lemma round_effects:
  assumes run: "get_run s i = Some run" and h: "aggregation_round_sync i now s = (Inr (c, ap), t)" "c \<noteq> 0"
  shows "\<exists>run2. get_run t i = Some run2 \<and> r_terminal_effects run2 = (if ap then Some ''pending'' else r_terminal_effects run)"
proof -
  let ?r1 = "snd (recount_plan_run_counters run (run_jobs i s))"
  have id: "r_id run = i" "r_id ?r1 = i" using get_run_Some [OF run] by simp_all
  from h run obtain run2 where a: "apply_plan_run_aggregation_from_counters ?r1 now = Inr (ap, run2)"
    and t: "runs t = upd_where (\<lambda>r. r_id r = i) (\<lambda>_. run2) (upd_where (\<lambda>r. r_id r = i) (\<lambda>_. ?r1) (runs s))"
    by (auto simp: aggregation_round_sync_def Let_def upd_run_def recount_host_projection_sync_def split: if_splits sum.splits)
  from apply_effects [OF a] have e: "r_terminal_effects run2 = (if ap then Some ''pending'' else r_terminal_effects run)" "r_id run2 = i"
    using id by (simp_all add: recount_plan_run_counters_def Let_def)
  have "get_run (upd_run i (\<lambda>_. run2) (upd_run i (\<lambda>_. ?r1) s)) i = Some run2" using run id e(2) by (simp add: get_run_upd_run)
  then have "get_run t i = Some run2" by (simp add: get_run_def t upd_run_def)
  with e(1) show ?thesis by blast
qed

lemma drain_effects_none: "run_marks i s = [] \<Longrightarrow> drain_with_effects qe cfg auto n i now s = (Inr 0, s)"
  by (cases n) (simp_all add: aggregation_round_none)

text \<open>A terminal run only has its remaining marks consumed.\<close>

lemma drain_terminal:
  assumes "get_run s i = Some run" "r_status run \<in> set TERMINAL_PLAN_RUN_STATUSES" "run_facts run (run_jobs i s)"
    "distinct (pending_aggregation s)" "length (run_marks i s) \<le> n * AGGREGATION_BATCH_LIMIT"
  shows "\<exists>run2 t. drain_with_effects qe cfg auto n i now s = (Inr (length (run_marks i s)), t) \<and> get_run t i = Some run2
     \<and> r_status run2 = r_status run \<and> run_facts run2 (run_jobs i s) \<and> r_terminal_effects run2 = r_terminal_effects run
     \<and> run_marks i t = [] \<and> jobs t = jobs s"
  using assms
proof (induction n arbitrary: s run)
  case 0
  then show ?case by simp
next
  case (Suc n)
  show ?case
  proof (cases "run_marks i s = []")
    case True
    with Suc.prems show ?thesis by (simp add: drain_effects_none del: drain_with_effects.simps)
  next
    case False
    let ?ms = "run_marks i s" and ?js = "run_jobs i s"
    have st: "drainable run" "r_status run \<noteq> R_RUNNING" using Suc.prems(2) by (auto simp: drainable_def TERMINAL_PLAN_RUN_STATUSES_def)
    from Plan_Aggregation.aggregation_round [OF Suc.prems(1) st(1) False Suc.prems(4), of now] st(2) obtain run2 t where
      rd: "aggregation_round_sync i now s = (Inr (length (take AGGREGATION_BATCH_LIMIT ?ms), False), t)"
      and t: "get_run t i = Some run2" "r_status run2 = r_status run" "run_facts run2 ?js"
        "run_marks i t = drop AGGREGATION_BATCH_LIMIT ?ms" "distinct (pending_aggregation t)" "only_aggregates i s t"
      by (auto simp: settled_status_def)
    have pos: "length (take AGGREGATION_BATCH_LIMIT ?ms) \<noteq> 0" using False by (simp add: AGGREGATION_BATCH_LIMIT_def)
    from round_effects [OF Suc.prems(1) rd pos] t(1) have e: "r_terminal_effects run2 = r_terminal_effects run" by simp
    have js: "run_jobs i t = ?js" using t(6) by (rule only_aggregates_run_jobs)
    have j: "jobs t = jobs s" using t(6) by (simp add: only_aggregates_def)
    have "length (run_marks i t) \<le> n * AGGREGATION_BATCH_LIMIT" using Suc.prems(5) t(4) by simp
    from Suc.IH [OF t(1) _ _ t(5) this] Suc.prems(2) t(2,3) js obtain run3 u where
      u: "drain_with_effects qe cfg auto n i now t = (Inr (length (run_marks i t)), u)" "get_run u i = Some run3"
        "r_status run3 = r_status run2" "run_facts run3 ?js" "r_terminal_effects run3 = r_terminal_effects run2"
        "run_marks i u = []" "jobs u = jobs t" by auto
    have "length (take AGGREGATION_BATCH_LIMIT ?ms) + length (run_marks i t) = length ?ms" by (simp add: t(4))
    with rd pos u t(2) e j show ?thesis by auto
  qed
qed

text \<open>
  C11. One wake-up concludes a finished run: with all its jobs terminal, the drain consumes every mark,
  leaves the run with the verdict on its jobs and their counts, runs the side-effect block between its
  rounds and marks it done, so that no later wake-up or replay runs it again; no job is touched.
\<close>

theorem finished_run_concludes:
  assumes run: "get_run s i = Some run" "r_status run = R_RUNNING"
    and js: "run_jobs i s \<noteq> []" "list_all (\<lambda>j. terminal_status (j_status j)) (run_jobs i s)"
    and marks: "run_marks i s \<noteq> []" "distinct (pending_aggregation s)" "length (run_marks i s) \<le> 25000"
  shows "\<exists>run2 t. aggregate_plan_run qe cfg auto i now s = (Inr (length (run_marks i s)), t) \<and> get_run t i = Some run2
     \<and> r_status run2 = resolve_plan_run_status (count_status J_FAILED (run_jobs i s)) (count_status J_ABORTED (run_jobs i s)) (abort_requested run)
     \<and> run_facts run2 (run_jobs i s) \<and> r_terminal_effects run2 = Some ''done'' \<and> run_marks i t = [] \<and> jobs t = jobs s
     \<and> complete_parent_side_effects_sync qe cfg auto i later t = (None, t)"
proof -
  let ?js = "run_jobs i s" and ?ms = "run_marks i s"
  have v: "run_verdict run ?js = resolve_plan_run_status (count_status J_FAILED ?js) (count_status J_ABORTED ?js) (abort_requested run)"
    using js by (simp add: run_verdict_def)
  then have ne: "run_verdict run ?js \<noteq> R_RUNNING" "run_verdict run ?js \<in> set TERMINAL_PLAN_RUN_STATUSES"
    using resolve_range [of "count_status J_FAILED ?js" "count_status J_ABORTED ?js" "abort_requested run"]
    by (auto simp: TERMINAL_PLAN_RUN_STATUSES_def)
  have "drainable run" using run(2) by (simp add: drainable_def)
  from Plan_Aggregation.aggregation_round [OF run(1) this marks(1,2), of now] ne(1) run(2) obtain r1 t1 where
    rd: "aggregation_round_sync i now s = (Inr (length (take AGGREGATION_BATCH_LIMIT ?ms), True), t1)"
    and t1: "get_run t1 i = Some r1" "r_status r1 = run_verdict run ?js" "run_facts r1 ?js"
      "run_marks i t1 = drop AGGREGATION_BATCH_LIMIT ?ms" "distinct (pending_aggregation t1)" "only_aggregates i s t1"
    by (auto simp: settled_status_def)
  have pos: "length (take AGGREGATION_BATCH_LIMIT ?ms) \<noteq> 0" using marks(1) by (simp add: AGGREGATION_BATCH_LIMIT_def)
  from round_effects [OF run(1) rd pos] t1(1) have "r_terminal_effects r1 = Some ''pending''" by simp
  from block_concludes [OF t1(1) this, of qe cfg auto now] obtain r2 where
    r2: "get_run (snd (complete_parent_side_effects_sync qe cfg auto i now t1)) i = Some r2"
      "run_core r2 = run_core (r1\<lparr>r_terminal_effects := Some ''done''\<rparr>)" and
    same: "jobs (snd (complete_parent_side_effects_sync qe cfg auto i now t1)) = jobs t1"
      "pending_aggregation (snd (complete_parent_side_effects_sync qe cfg auto i now t1)) = pending_aggregation t1" by blast
  let ?u = "snd (complete_parent_side_effects_sync qe cfg auto i now t1)"
  have c: "r_status r2 = r_status r1" "run_facts r2 ?js" "r_terminal_effects r2 = Some ''done''"
    using r2(2) t1(3) by (simp_all add: run_core_def run_facts_def)
  have uj: "run_jobs i ?u = ?js" "run_marks i ?u = drop AGGREGATION_BATCH_LIMIT ?ms"
    using same t1(4,6) by (simp_all add: run_jobs_def run_marks_def only_aggregates_def)
  have "length (run_marks i ?u) \<le> 49 * AGGREGATION_BATCH_LIMIT" using marks(3) by (simp add: uj AGGREGATION_BATCH_LIMIT_def)
  from drain_terminal [OF r2(1) _ _ _ this, of qe cfg auto now] c t1(2,5) ne(2) same uj obtain r3 t where
    t: "drain_with_effects qe cfg auto 49 i now ?u = (Inr (length (run_marks i ?u)), t)" "get_run t i = Some r3"
      "r_status r3 = r_status r2" "run_facts r3 ?js" "r_terminal_effects r3 = Some ''done''" "run_marks i t = []" "jobs t = jobs ?u"
    by auto
  have "aggregate_plan_run qe cfg auto i now s = (Inr (length ?ms), t)"
    using rd pos t(1) by (simp add: aggregate_plan_run_def AGGREGATION_DRAIN_MAX_ROUNDS_def numeral_eq_Suc uj)
  moreover have "complete_parent_side_effects_sync qe cfg auto i later t = (None, t)"
    using t(2,5) by (simp add: complete_parent_side_effects_sync_def)
  ultimately show ?thesis using t c t1(2,6) v same(1) by (auto simp: only_aggregates_def)
qed

lemma finished_run_concludes_witness:
  "\<exists>run2 t. aggregate_plan_run sample_queue_env sample_chain_cfg True 3 9 drain_db = (Inr 1, t) \<and> get_run t 3 = Some run2
     \<and> r_status run2 = R_PARTIAL_SUCCESS \<and> r_terminal_effects run2 = Some ''done''"
proof -
  let ?run = "hd (runs drain_db)"
  have g: "get_run drain_db 3 = Some ?run" "r_status ?run = R_RUNNING" by code_simp+
  have j: "run_jobs 3 drain_db \<noteq> []" "list_all (\<lambda>j. terminal_status (j_status j)) (run_jobs 3 drain_db)" by code_simp+
  have m: "run_marks 3 drain_db = [7]" "distinct (pending_aggregation drain_db)" by code_simp+
  have v: "resolve_plan_run_status (count_status J_FAILED (run_jobs 3 drain_db)) (count_status J_ABORTED (run_jobs 3 drain_db))
      (abort_requested ?run) = R_PARTIAL_SUCCESS" by code_simp
  from finished_run_concludes [OF g j _ m(2), of sample_queue_env sample_chain_cfg True 9 9] m(1) v show ?thesis by auto
qed

subsection \<open>The sweep\<close>

lemma sweep_frame:
  assumes "sweep_row now s0 i s = (res, t)"
  shows "jobs t = jobs s \<and> pending_aggregation t = pending_aggregation s \<and> (\<forall>k. k \<noteq> i \<longrightarrow> get_run t k = get_run s k)"
proof (cases "get_run s i")
  case None
  with assms show ?thesis by (simp add: sweep_row_def)
next
  case (Some run)
  have id: "r_id (snd (recount_plan_run_counters run (run_jobs i s))) = i" "r_id run = i" using get_run_Some [OF Some] by simp_all
  have other: "get_run (upd_run i (\<lambda>_. r') s) k = get_run s k" if "k \<noteq> i" "r_id r' = i" for r' k
    using that by (simp add: get_run_other)
  have "t = s \<or> (\<exists>r'. t = upd_run i (\<lambda>_. r') s \<and> r_id r' = i)"
    using assms Some id apply_effects [of "snd (recount_plan_run_counters run (run_jobs i s))" now]
    by (auto simp: sweep_row_def split_beta split: if_splits sum.splits bool.splits)
  then show ?thesis using other by (auto simp: upd_run_def)
qed

lemma counted_facts: "\<not> fst (recount_plan_run_counters run js) \<longleftrightarrow> run_facts run js"
  by (auto simp: recount_plan_run_counters_def Let_def run_facts_def)

lemma announced_facts:
  "run_facts ((snd (announce_parent_terminal nj now s run))\<lparr>r_terminal_effects := e\<rparr>) js = run_facts run js"
  by (simp add: run_facts_def announce_parent_terminal_def emit_parent_chain_gap_signal_def mark_chain_gap_signaled_def)

definition healed :: "run_row \<Rightarrow> job_row list \<Rightarrow> run_row \<Rightarrow> bool" where
  \<comment> \<open>the counters are those of the jobs; a drifted RUNNING run gets its verdict and is concluded\<close>
  "healed run js run' \<longleftrightarrow> run_facts run' js
     \<and> (if r_status run = R_RUNNING \<and> \<not> run_facts run js \<and> run_verdict run js \<noteq> R_RUNNING
        then r_status run' = run_verdict run js \<and> r_terminal_effects run' = Some ''done''
        else r_status run' = r_status run)"

lemma sweep_row_heals:
  assumes run: "get_run s i = Some run" and st: "\<not> waiting run" and free: "\<not> has_pending_aggregation s i"
  shows "\<exists>r t run'. sweep_row now s0 i s = (Inr r, t) \<and> get_run t i = Some run' \<and> healed run (run_jobs i s) run'"
proof -
  let ?js = "run_jobs i s"
  let ?rc = "recount_plan_run_counters run ?js"
  have id: "r_id run = i" using get_run_Some [OF run] by simp
  have upd: "get_run (upd_run i (\<lambda>_. r') s) i = Some r'" if "r_id r' = i" for r'
    using that run by (simp add: get_run_upd_run)
  have d: "drainable run" using st by (cases "r_status run") (auto simp: drainable_def waiting_def)
  have base: "sweep_row now s0 i s = (if \<not> fst ?rc then (Inr InStep, s)
            else if r_total (snd ?rc) > 0
            then (case apply_plan_run_aggregation_from_counters (snd ?rc) now of
                    Inl e \<Rightarrow> (Inl e, s)
                  | Inr (True, run2) \<Rightarrow>
                      (Inr (Fixed True), upd_run i (\<lambda>_. (snd (announce_parent_terminal False now s0 run2))\<lparr>r_terminal_effects := Some ''done''\<rparr>) s)
                  | Inr (False, run2) \<Rightarrow> (Inr (Fixed False), upd_run i (\<lambda>_. run2) s))
            else (Inr (Fixed False), upd_run i (\<lambda>_. snd ?rc) s))"
    using run free st by (auto simp: sweep_row_def waiting_def split_beta)
  show ?thesis
  proof (cases "run_facts run ?js")
    case True
    with base run show ?thesis by (auto simp: counted_facts healed_def)
  next
    case drift: False
    from drainable_aggregation [OF d, of ?js now] obtain run2 where
      a: "apply_plan_run_aggregation_from_counters (snd ?rc) now = Inr (r_status run = R_RUNNING \<and> run_verdict run ?js \<noteq> R_RUNNING, run2)"
      and r2: "r_status run2 = settled_status run ?js" "run_facts run2 ?js" "r_id run2 = r_id run" by blast
    show ?thesis
    proof (cases "?js = []")
      case True
      with base drift have "sweep_row now s0 i s = (Inr (Fixed False), upd_run i (\<lambda>_. snd ?rc) s)" by (simp add: counted_facts)
      moreover have "healed run ?js (snd ?rc)" using True by (simp add: healed_def run_facts_def run_verdict_def)
      ultimately show ?thesis using upd [of "snd ?rc"] id by auto
    next
      case False
      then have n: "r_total (snd ?rc) > 0" by simp
      show ?thesis
      proof (cases "r_status run = R_RUNNING \<and> run_verdict run ?js \<noteq> R_RUNNING")
        case True
        let ?r3 = "(snd (announce_parent_terminal False now s0 run2))\<lparr>r_terminal_effects := Some ''done''\<rparr>"
        from base drift n a True have "sweep_row now s0 i s = (Inr (Fixed True), upd_run i (\<lambda>_. ?r3) s)" by (simp add: counted_facts)
        moreover have "healed run ?js ?r3" using True drift r2 by (simp add: healed_def announced_facts settled_status_def)
        ultimately show ?thesis using upd [of ?r3] id r2(3) by auto
      next
        case False
        from base drift n a False have "sweep_row now s0 i s = (Inr (Fixed False), upd_run i (\<lambda>_. run2) s)" by (auto simp: counted_facts)
        moreover have "healed run ?js run2" using False drift r2 by (auto simp: healed_def settled_status_def)
        ultimately show ?thesis using upd [of run2] id r2(3) by auto
      qed
    qed
  qed
qed

lemma sweep_row_returns:
  assumes "\<And>run. get_run s i = Some run \<Longrightarrow> waiting run \<Longrightarrow> run_jobs i s = []"
  shows "\<exists>r t. sweep_row now s0 i s = (Inr r, t)"
proof (cases "get_run s i")
  case (Some run)
  show ?thesis
  proof (cases "has_pending_aggregation s i")
    case True
    then show ?thesis by (simp add: sweep_row_def Some)
  next
    case free: False
    show ?thesis
    proof (cases "waiting run")
      case True
      with assms [OF Some] free show ?thesis by (simp add: sweep_row_def Some waiting_def)
    next
      case False
      from sweep_row_heals [OF Some False free, of now s0] show ?thesis by blast
    qed
  qed
qed (simp add: sweep_row_def)

lemma unfixed_row:
  assumes "sweep_row now s0 i s = (Inr r, t)" "\<forall>b. r \<noteq> Fixed b"
  shows "t = s"
proof (cases "get_run s i")
  case None
  with assms show ?thesis by (simp add: sweep_row_def)
next
  case (Some run)
  obtain d run1 where rc: "recount_plan_run_counters run (run_jobs i s) = (d, run1)" by fastforce
  note h = assms(1) [unfolded sweep_row_def Some option.case rc prod.case]
  show ?thesis
  proof (cases "apply_plan_run_aggregation_from_counters run1 now")
    case (Inl e)
    with h assms(2) show ?thesis by (auto split: if_splits)
  next
    case (Inr p)
    obtain ap run2 where "p = (ap, run2)" by (cases p)
    with h Inr assms(2) show ?thesis by (cases ap) (auto split: if_splits)
  qed
qed

lemma unfixed_loop: "sweep_loop now s0 is s = (Inr rs, t) \<Longrightarrow> (\<forall>b. Fixed b \<notin> set rs) \<Longrightarrow> t = s"
proof (induction "is" arbitrary: s rs)
  case (Cons i "is")
  obtain r s1 where r: "sweep_row now s0 i s = (Inr r, s1)" using Cons.prems(1) by (auto split: prod.splits sum.splits)
  with Cons.prems(1) obtain rs' where "sweep_loop now s0 is s1 = (Inr rs', t)" "rs = r # rs'" by (auto split: prod.splits sum.splits)
  with Cons.IH [of s1 rs'] Cons.prems(2) unfixed_row [OF r] show ?case by auto
qed simp

definition swept :: "db \<Rightarrow> db \<Rightarrow> nat \<Rightarrow> bool" where
  \<comment> \<open>a run outside the queue and without marks is healed\<close>
  "swept s t i \<longleftrightarrow> (\<forall>run. get_run s i = Some run \<and> \<not> waiting run \<and> \<not> has_pending_aggregation s i \<longrightarrow>
     (\<exists>run'. get_run t i = Some run' \<and> healed run (run_jobs i s) run'))"

lemma sweep_loop_heals:
  assumes "distinct is" "\<forall>i\<in>set is. \<forall>run. get_run s i = Some run \<and> waiting run \<longrightarrow> run_jobs i s = []"
  shows "\<exists>rs t. sweep_loop now s0 is s = (Inr rs, t) \<and> jobs t = jobs s \<and> (\<forall>k. k \<notin> set is \<longrightarrow> get_run t k = get_run s k)
     \<and> (\<forall>i\<in>set is. swept s t i)"
  using assms
proof (induction "is" arbitrary: s)
  case Nil
  then show ?case by simp
next
  case (Cons i "is")
  from sweep_row_returns [of s i now s0] Cons.prems(2) obtain r s1 where r: "sweep_row now s0 i s = (Inr r, s1)" by auto
  from sweep_frame [OF r] have f: "jobs s1 = jobs s" "pending_aggregation s1 = pending_aggregation s"
    "\<And>k. k \<noteq> i \<Longrightarrow> get_run s1 k = get_run s k" by auto
  have js: "run_jobs k s1 = run_jobs k s" "has_pending_aggregation s1 k = has_pending_aggregation s k" for k
    by (simp_all add: run_jobs_def has_pending_aggregation_def f)
  have me: "swept s s1 i"
    unfolding swept_def
  proof (intro allI impI)
    fix run assume "get_run s i = Some run \<and> \<not> waiting run \<and> \<not> has_pending_aggregation s i"
    with sweep_row_heals [of s i run now s0] r show "\<exists>run'. get_run s1 i = Some run' \<and> healed run (run_jobs i s) run'" by auto
  qed
  have ni: "i \<notin> set is" "distinct is" using Cons.prems(1) by simp_all
  have "\<forall>k\<in>set is. \<forall>run. get_run s1 k = Some run \<and> waiting run \<longrightarrow> run_jobs k s1 = []"
    using Cons.prems(2) f(3) js ni(1) by (metis list.set_intros(2))
  from Cons.IH [OF ni(2) this] obtain rs t where t: "sweep_loop now s0 is s1 = (Inr rs, t)" "jobs t = jobs s1"
    "\<forall>k. k \<notin> set is \<longrightarrow> get_run t k = get_run s1 k" "\<forall>i\<in>set is. swept s1 t i" by blast
  have "swept s t k" if "k \<in> set is" for k
  proof -
    have "k \<noteq> i" using that ni(1) by blast
    with t(4) that f(3) [of k] js show ?thesis by (simp add: swept_def)
  qed
  moreover have "swept s t i" using me t(3) ni(1) by (simp add: swept_def)
  ultimately show ?case using r t(1-3) f by auto
qed

text \<open>
  C22. The sweep of the counters heals: it never raises, touches no job, and leaves every run it scanned
  that is out of the queue and has no pending mark with the counts of its jobs; a running run that had
  drifted and whose jobs have all ended gets its verdict and is marked done, every other status stays.
\<close>

theorem counter_sweep_heals:
  assumes wf: "queue_wf s"
  shows "\<exists>rs t. reconcile_counters_body cfg now locked s = (Inr rs, t) \<and> jobs t = jobs s
    \<and> (\<forall>i\<in>set (sweep_rows cfg now locked s). \<forall>run. get_run s i = Some run \<and> r_status run \<notin> {R_QUEUED, R_PRECHECK}
          \<and> \<not> has_pending_aggregation s i \<longrightarrow>
        (\<exists>run'. get_run t i = Some run' \<and> run_facts run' (run_jobs i s)
           \<and> (if r_status run = R_RUNNING \<and> \<not> run_facts run (run_jobs i s) \<and> run_verdict run (run_jobs i s) \<noteq> R_RUNNING
              then r_status run' = run_verdict run (run_jobs i s) \<and> r_terminal_effects run' = Some ''done''
              else r_status run' = r_status run)))"
proof -
  let ?is = "sweep_rows cfg now locked s"
  have ids: "distinct (map r_id (runs s))" using wf by (simp add: queue_wf_def)
  have "distinct ?is" unfolding sweep_rows_def by (simp add: distinct_map_filter ids)
  moreover have "\<forall>i\<in>set ?is. \<forall>run. get_run s i = Some run \<and> waiting run \<longrightarrow> run_jobs i s = []"
  proof (intro ballI allI impI)
    fix i run assume "get_run s i = Some run \<and> waiting run"
    with wf get_run_Some [of s i run] show "run_jobs i s = []"
      by (auto simp: queue_wf_def run_jobs_def filter_empty_conv)
  qed
  ultimately obtain rs t where l: "sweep_loop now s ?is s = (Inr rs, t)" "jobs t = jobs s" "\<forall>i\<in>set ?is. swept s t i"
    using sweep_loop_heals [of ?is s now s] by blast
  have "reconcile_counters_body cfg now locked s = (Inr rs, t)"
  proof (cases "list_ex (\<lambda>r. case r of Fixed _ \<Rightarrow> True | _ \<Rightarrow> False) rs")
    case False
    then have "\<forall>b. Fixed b \<notin> set rs" by (auto simp: list_ex_iff)
    with unfixed_loop [OF l(1)] have "t = s" by blast
    with l(1) show ?thesis by (simp add: reconcile_counters_body_def)
  qed (simp add: reconcile_counters_body_def l(1))
  with l(2,3) show ?thesis by (auto simp: swept_def waiting_def healed_def)
qed

definition drifted_db :: db where
  \<comment> \<open>the mark of the failed job was lost\<close>
  "drifted_db = drain_db\<lparr>pending_aggregation := []\<rparr>"

lemma counter_sweep_heals_witness:
  "\<exists>rs t run'. reconcile_counters_body \<lparr>sw_lookback = 3600, sw_batch = 10\<rparr> 200 (\<lambda>_. False) drifted_db = (Inr rs, t)
     \<and> get_run t 3 = Some run' \<and> r_status run' = R_PARTIAL_SUCCESS \<and> r_terminal_effects run' = Some ''done''"
proof -
  let ?cfg = "\<lparr>sw_lookback = 3600, sw_batch = 10\<rparr>" and ?run = "hd (runs drifted_db)"
  have wf: "queue_wf drifted_db"
    by (simp add: queue_wf_def drifted_db_def drain_db_def claim_db_def sample_db_def sample_job_def one_active_job_def
        active_job_def ACTIVE_JOB_STATUSES_def waiting_def)
  have g: "get_run drifted_db 3 = Some ?run" "r_status ?run = R_RUNNING" "run_verdict ?run (run_jobs 3 drifted_db) = R_PARTIAL_SUCCESS"
    "\<not> has_pending_aggregation drifted_db 3" by code_simp+
  have "r_failed ?run \<noteq> count_status J_FAILED (run_jobs 3 drifted_db)" by code_simp
  then have d: "\<not> run_facts ?run (run_jobs 3 drifted_db)" by (simp add: run_facts_def)
  have "sweep_rows ?cfg 200 (\<lambda>_. False) drifted_db = [3]" by code_simp
  with counter_sweep_heals [OF wf, of ?cfg 200 "\<lambda>_. False"] g d show ?thesis by auto
qed

end
