(* ===== verification/Spec2Isabelle.thy ===== *)
theory Spec2Isabelle
  imports Platform_System Finalization_Properties
begin

text \<open>
  The stability-test platform runs test plans on a fleet of phones.  Its control plane
  (\<open>src/backend/services\<close>, \<open>src/backend/scheduler\<close>) keeps jobs, device leases and device-return debts
  in one PostgreSQL database; agents on hosts claim jobs, renew their leases, report evidence and
  complete them.  This development models that core.

  Conventions.  A table is a list of rows and a database a record of tables (\<open>Platform_Tables\<close>).
  A service runs in one transaction under row locks, so it is a function from its input, the clock
  and the database to its answer and the database after; a transaction or savepoint that is rolled
  back returns the database it started from; an exception is an \<open>Inl\<close>.  Enum columns are
  datatypes, times are seconds, JSON documents are the type \<open>json\<close> of \<open>Py_Values\<close> (numbers in
  them are integers), and the process environment is the record \<open>env\<close>: its manifest and SHA-256
  function are arbitrary.  A document that is not the list or object the code expects counts as
  empty.  Sets the code iterates over are lists, in the order the code builds them.  Logs, metrics
  and pushes to browsers are left out.

  Theories and sources, in import order:
  \<^item> \<open>Platform_Prelude\<close>: lists of rows, guarded updates, folding a handler over a batch (locale
    \<open>batch_invariant\<close>); \<open>Py_Values\<close>: JSON values and the Python string functions the code uses.
  \<^item> \<open>Disarm_Contract\<close>, \<open>Teardown_Policy\<close>, \<open>Disarm_Guard\<close>: agent/contracts/device\_return.py, the
    contract control plane and agent share: families and their scripts, the shape of a teardown,
    step outcomes, the probe policy, and the frozen time budgets that guard a disarm.
  \<^item> \<open>Platform_Tables\<close>, \<open>Lease_Table\<close>: backend/models, the lease invariant \<open>lease_wf\<close> and the
    fencing order \<open>fence_step\<close>, and the three ways of changing leases that keep both.
  \<^item> \<open>Job_State_Machine\<close> (state\_machine.py), \<open>Lease_Manager\<close> (lease\_manager.py), \<open>Job_Timeouts\<close>
    (job\_timeout\_config.py, plan\_run\_context.py).
  \<^item> \<open>Return_Debt\<close>, \<open>Disarm_Derive\<close>, \<open>Probe_Entries\<close>, \<open>Return_Entries\<close>, \<open>Guard_Entries\<close>:
    services/device\_return.py and disarm\_derive.py: recording debts, the release entry that
    turns a job lease into the platform's debt lease, and every way a debt is closed (locale
    \<open>debt_closing\<close>).
  \<^item> \<open>Agent_Claim\<close>: agent\_claim.py, host\_maintenance.py, agent\_version\_gate.py.
  \<^item> \<open>Plan_Aggregation\<close>: job\_terminalization.py, plan\_run\_aggregation.py and the drain of
    plan\_run\_finalization.py.
  \<^item> \<open>Agent_Completion\<close>: agent\_completion.py; \<open>Lease_Renewal\<close>: agent\_lease\_extend.py;
    \<open>Job_Reports\<close>: agent\_job\_heartbeat.py, agent\_job\_status.py, agent\_step\_status.py,
    agent\_patrol\_heartbeat.py, agent\_coordinator\_heartbeat.py and services/reconciler.py.
  \<^item> \<open>Agent_Recovery\<close>: agent\_recovery.py.
  \<^item> \<open>Lease_Reconciler\<close>: scheduler/device\_lease\_reconciler.py and
    device\_lease\_emergency\_release.py; \<open>Plan_Abort\<close>: plan\_run\_abort.py; \<open>Recycler\<close>:
    scheduler/recycler.py, passes 1 to 2c.
  \<^item> \<open>Dispatch_Lifecycle\<close>: plan\_dispatcher\_core.py, script\_params.py, contracts/pipeline\_validator.py;
    \<open>Resource_Pools\<close>: the WiFi allocator of plan\_dispatcher\_sync.py; \<open>Run_Queue\<close>: the preparation of
    runs in plan\_dispatcher\_sync.py, core/device\_serial.py.
  \<^item> \<open>Admission\<close>: admission\_pump.py, precheck/verify.py, scheduler/precheck\_reaper.py;
    \<open>Admission_Facts\<close>: what an admission writes; \<open>Queue_Invariant\<close>: the invariant \<open>queue_wf\<close> of the queue
    and the steps that keep it.
  \<^item> \<open>Plan_Chain\<close>: plan\_chain\_trigger.py (the synchronous functions), scheduler/plan\_chain\_reconciler.py;
    \<open>Run_Finalization\<close>: the side-effect block of plan\_run\_finalization.py, the drain that runs it, and
    scheduler/counter\_reconciler.py; \<open>Chain_System\<close>, \<open>Finalization_System\<close>: the invariant \<open>chain_wf\<close> of the
    chain and that all these operations keep both invariants (\<open>keeps\<close>).
  \<^item> \<open>Admission_System\<close>: queue, chain, aggregation and sweep as the step relation \<open>queue_step\<close>;
    \<open>Queue_Properties\<close>, \<open>Chain_Properties\<close>, \<open>Finalization_Properties\<close>: their properties and examples.
  \<^item> \<open>Platform_System\<close>: the services as one step relation \<open>service_step\<close> on the database, the states
    it reaches, and its refinement of one abstract lock with a generation per device.

  A run is prepared as QUEUED with a snapshot of its plan, its targets and host groups; the pump claims
  it under an attempt id; the task of the attempt checks scripts without locks and admits the run in one
  transaction, which creates the jobs agents claim.  What these steps read from elsewhere is an argument:
  the answers of agents and SSH pushes, the task queue, random ids, the JSON-schema check, the
  fingerprint and the frozen suite attribution.  A serial key takes \<open>next_serial\<close>, a number above all
  in use.  A run that ended well is continued by the chain: the trigger prepares the run of the next plan on
  the devices it chooses from the ended run and flags the parent in the same transaction; the settle window
  holds it back and the reconciler tries again.  \<open>moves_linked\<close> is what queue and chain rely on from the
  other services: they create no job and no run, move no run into the queue, revive no finished job and
  change no chain link.

  Lemma groups.  Each theory first shows that its operations keep \<open>lease_wf\<close> and \<open>fence_step\<close>
  (collection \<open>lease_inv\<close>), then what they do on every branch, and last its properties with a
  witness on a concrete database.  Async and sync twins of a function are both modelled and shown
  equal.

  Interleaving.  A service with one transaction is one step.  Where a service commits several times
  its parts are steps of their own (\<open>abort_begin\<close> and \<open>abort_finish\<close>, the passes of the recycler, the
  candidates of the reconciler, the announcement and the \<open>done\<close> mark of the side-effect block), and what other transactions do between two of its commits is an
  input: an arbitrary later snapshot, a scan made on an earlier database, or a function
  \<open>between\<close>.  Transactions that fail for reasons outside the model (a lost connection, a lock
  timeout) are an input too, the list or predicate of candidates whose step raises.

  Bounds.  The drain of a run takes at most 50 rounds of 500 marks, as the code does; \<open>drain_converges\<close>
  and \<open>finished_run_concludes\<close> show this is enough for 25000 marks.  Counting missing segments follows at
  most 20 plans, as the code does.  The reconciler's shared budget of drain rounds and its batch
  size are parameters of its definitions.  The batch loops of the recycler are proved to terminate by a
  measure (every batch notes or leaves behind each of its candidates).  No other definition needs fuel.

  Not modelled: the parts of the recycler that prune artifacts and queue post-completion work, the
  expansion of schedules (it starts runs through \<open>dispatch_plan\<close>), the asynchronous twins of the chain
  trigger (the same steps on the same tables), the precheck of the dispatch path that the queue replaced, the suite gate (files on
  shared storage), HTTP routes, real time, notification, deduplication, reports and the AI assistant
  (around the core), the agent's processes and device scripts (threads, sockets, ADB), schema
  migrations, tools and the user interface.  The NOT NULL of a lease's host is not enforced.
\<close>

end
